(* ===== verification/Prelude.thy ===== *)
theory Prelude
  imports Main "HOL-Library.Word"
begin

text \<open>
  What every component of the development shares: the types of bytes and buffers, the exceptions
  of the source (opendnp3/APL/Exception.h), the shape of a C++ member function that may throw
  (the state it leaves behind is kept also when it throws), block copies into a buffer, and the
  two interfaces all the layers have in common: a machine that handles events and keeps an
  invariant, and an invariant that a list of handler steps keeps.
\<close>

unbundle bit_operations_syntax

named_theorems handler_simps \<open>unfolding of the statements a handler is made of\<close>

type_synonym byte = "8 word"
type_synonym u16 = "16 word"
type_synonym u32 = "32 word"
type_synonym bytes = "byte list"

section \<open>Exceptions\<close>

text \<open>
  The exception classes of opendnp3/APL/Exception.h that the modelled code throws. A plain
  \<open>Exception\<close> carries its error code; the code a constructor call leaves out is the default,
  here \<open>ERR_DEFAULT\<close>. A failed \<open>assert\<close> is not an exception (no \<open>catch\<close> sees it) and is kept apart.
\<close>

datatype error_code = ERR_DEFAULT
  | ALERR_INSUFFICIENT_DATA_FOR_FRAG
  | ALERR_INSUFFICIENT_DATA_FOR_RESPONSE
  | ALERR_INSUFFICIENT_DATA_FOR_HEADER
  | ALERR_INSUFFICIENT_DATA_FOR_OBJECTS
  | ALERR_UNKNOWN_QUALIFIER
  | ALERR_START_STOP_MISMATCH
  | ALERR_ILLEGAL_QUALIFIER_AND_OBJECT
  | ALERR_ITERATOR_OUT_OF_BOUNDS
  | ALERR_ITERATOR_NO_DATA
  | ALERR_BAD_UNSOL_BIT
  | ALERR_MULTI_FRAGEMENT_REQUEST
  | ALERR_UNEXPECTED_CONFIRM
  | ALERR_UNSOL_FLOOD
  | ALERR_SOL_FLOOD
  | SERR_FUNC_NOT_SUPPORTED
  | MERR_FUNC_NOT_SUPPORTED
  | ERR_INDEX_OUT_OF_BOUNDS

datatype exn =
    ArgumentException
  | InvalidStateException
  | ObjectException
  | IndexOutOfBoundsException
  | Exception error_code
  | AssertionFailed

section \<open>Handlers: statements that may throw\<close>

text \<open>
  A member function without a result is a function from the object's state to an optional
  exception and the state it leaves. \<open>in_order\<close> is the block \<open>{ s1; s2; ... }\<close>: the first
  statement that throws ends it, and what the earlier ones did stays done.
\<close>

type_synonym 's handler = "'s \<Rightarrow> exn option \<times> 's"

definition skip :: "'s handler" where
  [handler_simps]: "skip s = (None, s)"

definition throw :: "exn \<Rightarrow> 's handler" where
  [handler_simps]: "throw e s = (Some e, s)"

definition modify :: "('s \<Rightarrow> 's) \<Rightarrow> 's handler" where
  [handler_simps]: "modify f s = (None, f s)"

definition assert_that :: "('s \<Rightarrow> bool) \<Rightarrow> 's handler" where
  [handler_simps]: "assert_that P s = (if P s then None else Some AssertionFailed, s)"

definition throw_if :: "('s \<Rightarrow> bool) \<Rightarrow> exn \<Rightarrow> 's handler" where
  [handler_simps]: "throw_if P e s = (if P s then Some e else None, s)"

definition if_else :: "('s \<Rightarrow> bool) \<Rightarrow> 's handler \<Rightarrow> 's handler \<Rightarrow> 's handler" where
  [handler_simps]: "if_else P f g s = (if P s then f s else g s)"

text \<open>A statement whose arguments are read from the object.\<close>

definition reading :: "('s \<Rightarrow> 's handler) \<Rightarrow> 's handler" where
  [handler_simps]: "reading f s = f s s"

text \<open>A statement that needs a value whose computation may throw, and \<open>try { body } catch ...\<close>.\<close>

definition with_value :: "('s \<Rightarrow> exn + 'a) \<Rightarrow> ('a \<Rightarrow> 's handler) \<Rightarrow> 's handler" where
  [handler_simps]: "with_value v k s = (case v s of Inl e \<Rightarrow> (Some e, s) | Inr x \<Rightarrow> k x s)"

definition try_catch :: "'s handler \<Rightarrow> (exn \<Rightarrow> 's handler) \<Rightarrow> 's handler" where
  [handler_simps]: "try_catch body catcher s =
     (case body s of (None, s') \<Rightarrow> (None, s') | (Some e, s') \<Rightarrow> catcher e s')"

primrec in_order :: "'s handler list \<Rightarrow> 's handler" where
  "in_order [] s = (None, s)"
| "in_order (f # fs) s =
     (case f s of (None, s') \<Rightarrow> in_order fs s' | (Some e, s') \<Rightarrow> (Some e, s'))"

declare in_order.simps(2) [simp del]

lemma in_order_single [simp]: "in_order [f] s = f s"
  by (simp add: in_order.simps(2) split: prod.split option.split)

lemma in_order_more [simp]:
  "in_order (f # g # gs) s =
     (case f s of (None, s') \<Rightarrow> in_order (g # gs) s' | (Some e, s') \<Rightarrow> (Some e, s'))"
  by (rule in_order.simps(2))

lemma in_order_append:
  "in_order (fs @ gs) s =
     (case in_order fs s of (None, s') \<Rightarrow> in_order gs s' | (Some e, s') \<Rightarrow> (Some e, s'))"
  by (induction fs arbitrary: s) (auto simp: in_order.simps(2) split: prod.splits option.splits)

text \<open>
  What a handler leaves true whether it throws or not, by the statements it is made of: for facts no
  statement of a component touches (its configuration, the pointers to its neighbours).
\<close>

named_theorems keeps_intros \<open>the statements of a handler keep a predicate\<close>

definition keeps :: "('s \<Rightarrow> bool) \<Rightarrow> 's handler \<Rightarrow> bool" where
  "keeps P h \<longleftrightarrow> (\<forall>s. P s \<longrightarrow> P (snd (h s)))"

lemma keepsD: "keeps P h \<Longrightarrow> P s \<Longrightarrow> P (snd (h s))"
  by (simp add: keeps_def)

lemma keeps_leaf [keeps_intros]:
  "keeps P skip" "keeps P (throw e)" "keeps P (assert_that Q)" "keeps P (throw_if Q e)"
  by (simp_all add: keeps_def handler_simps)

lemma keeps_modify [keeps_intros]: "(\<And>s. P s \<Longrightarrow> P (f s)) \<Longrightarrow> keeps P (modify f)"
  by (simp add: keeps_def handler_simps)

lemma keeps_branch [keeps_intros]:
  "keeps P f \<Longrightarrow> keeps P g \<Longrightarrow> keeps P (if_else Q f g)"
  "(\<And>s. keeps P (k s)) \<Longrightarrow> keeps P (reading k)"
  by (simp_all add: keeps_def handler_simps)

lemma keeps_in_order [keeps_intros]: "(\<And>h. h \<in> set hs \<Longrightarrow> keeps P h) \<Longrightarrow> keeps P (in_order hs)"
  unfolding keeps_def
proof (intro allI impI)
  fix s assume hs: "\<And>h. h \<in> set hs \<Longrightarrow> \<forall>s. P s \<longrightarrow> P (snd (h s))" and "P s"
  then show "P (snd (in_order hs s))"
  proof (induction hs arbitrary: s)
    case (Cons h hs)
    then have "P (snd (h s))" by simp
    with Cons show ?case by (cases "h s") (auto simp: in_order.simps(2) split: option.split)
  qed simp
qed

text \<open>Running a handler over a list of events, whatever each of them throws.\<close>

primrec run :: "('e \<Rightarrow> 's handler) \<Rightarrow> 'e list \<Rightarrow> 's \<Rightarrow> 's" where
  "run h [] s = s"
| "run h (e # es) s = run h es (snd (h e s))"

lemma run_append: "run h (xs @ ys) s = run h ys (run h xs s)"
  by (induction xs arbitrary: s) auto

text \<open>A list of events each of which is possible when its turn comes.\<close>

primrec feasible :: "('s \<Rightarrow> 'e \<Rightarrow> bool) \<Rightarrow> ('e \<Rightarrow> 's handler) \<Rightarrow> 'e list \<Rightarrow> 's \<Rightarrow> bool" where
  "feasible possible h [] s = True"
| "feasible possible h (e # es) s = (possible s e \<and> feasible possible h es (snd (h e s)))"

lemma feasible_append: "feasible p h (es @ fs) s \<longleftrightarrow> feasible p h es s \<and> feasible p h fs (run h es s)"
  by (induction es arbitrary: s) auto

text \<open>
  The states a machine can reach when the environment only produces events that are possible in
  the state it finds (a timer that was never started does not fire, a send that was never
  requested does not complete).
\<close>

inductive reachable ::
  "('e \<Rightarrow> 's handler) \<Rightarrow> ('s \<Rightarrow> 'e \<Rightarrow> bool) \<Rightarrow> ('s \<Rightarrow> bool) \<Rightarrow> 's \<Rightarrow> bool"
  for h :: "'e \<Rightarrow> 's handler" and possible :: "'s \<Rightarrow> 'e \<Rightarrow> bool" and start :: "'s \<Rightarrow> bool"
where
  reachable_start: "start s \<Longrightarrow> reachable h possible start s"
| reachable_step: "reachable h possible start s \<Longrightarrow> possible s e \<Longrightarrow>
     reachable h possible start (snd (h e s))"

text \<open>
  The interface of an event-driven component: a handler per event, the events the environment can
  produce in a state, the states the constructor leaves, and an invariant of them all. A component
  interprets it with its own handlers; what it gets back is the invariant in every reachable state
  and, when the invariant rules a kind of failure out, that no reachable state fails that way.
\<close>

locale event_machine =
  fixes handle :: "'e \<Rightarrow> 's handler"
    and possible :: "'s \<Rightarrow> 'e \<Rightarrow> bool"
    and start :: "'s \<Rightarrow> bool"
    and inv :: "'s \<Rightarrow> bool"
  assumes inv_start: "start s \<Longrightarrow> inv s"
    and inv_step: "inv s \<Longrightarrow> possible s e \<Longrightarrow> inv (snd (handle e s))"
begin

lemma reachable_inv: "reachable handle possible start s \<Longrightarrow> inv s"
  by (induction rule: reachable.induct) (auto intro: inv_start inv_step)

lemma run_inv: "inv s \<Longrightarrow> feasible possible handle es s \<Longrightarrow> inv (run handle es s)"
  by (induction es arbitrary: s) (auto intro: inv_step)

lemma reachable_run:
  "reachable handle possible start s \<Longrightarrow> feasible possible handle es s \<Longrightarrow>
   reachable handle possible start (run handle es s)"
  by (induction es arbitrary: s) (auto intro: reachable_step)

end

text \<open>
  A machine whose invariant also excludes the programming errors: no handler of a possible event
  fails an assertion or meets a state it was not written for.
\<close>

definition internal_error :: "exn option \<Rightarrow> bool" where
  "internal_error r \<longleftrightarrow> r = Some AssertionFailed"

locale assertion_free_machine = event_machine +
  assumes no_assertion: "inv s \<Longrightarrow> possible s e \<Longrightarrow> \<not> internal_error (fst (handle e s))"
begin

lemma reachable_no_assertion:
  "reachable handle possible start s \<Longrightarrow> possible s e \<Longrightarrow> \<not> internal_error (fst (handle e s))"
  using no_assertion reachable_inv by blast

end

text \<open>
  Accounts over a list of events: what each event adds up to, a machine whose books balance with every
  event, and one whose every event may spend no more than it saves or is granted (amortisation).
\<close>

primrec total :: "('s \<Rightarrow> 'e \<Rightarrow> nat) \<Rightarrow> ('e \<Rightarrow> 's handler) \<Rightarrow> 'e list \<Rightarrow> 's \<Rightarrow> nat" where
  "total f h [] s = 0"
| "total f h (e # es) s = f s e + total f h es (snd (h e s))"

locale ledger_machine = event_machine +
  fixes closed :: "'a \<Rightarrow> nat"
    and opened :: "'a \<Rightarrow> 'b \<Rightarrow> nat"
    and dropped :: "'a \<Rightarrow> 'b \<Rightarrow> nat"
    and pending :: "'a \<Rightarrow> nat"
  assumes books: "inv s \<Longrightarrow> possible s e \<Longrightarrow>
    closed (snd (handle e s)) + dropped s e + pending (snd (handle e s)) = closed s + opened s e + pending s"
begin

lemma books_run:
  assumes "inv s" and "feasible possible handle es s"
  shows "closed (run handle es s) + total dropped handle es s + pending (run handle es s) =
    closed s + total opened handle es s + pending s"
  using assms
proof (induction es arbitrary: s)
  case (Cons e es)
  then have "inv (snd (handle e s))" by (simp add: inv_step)
  with Cons.IH [of "snd (handle e s)"] Cons.prems books [of s e] show ?case by simp
qed simp

end

locale budget_machine = event_machine +
  fixes spent :: "'a \<Rightarrow> nat"
    and saved :: "'a \<Rightarrow> nat"
    and granted :: "'a \<Rightarrow> 'b \<Rightarrow> nat"
  assumes amortised: "inv s \<Longrightarrow> possible s e \<Longrightarrow>
    spent (snd (handle e s)) + saved (snd (handle e s)) \<le> spent s + saved s + granted s e"
begin

lemma spent_run:
  assumes "inv s" and "feasible possible handle es s"
  shows "spent (run handle es s) + saved (run handle es s) \<le> spent s + saved s + total granted handle es s"
  using assms
proof (induction es arbitrary: s)
  case (Cons e es)
  then have "inv (snd (handle e s))" by (simp add: inv_step)
  with Cons.IH [of "snd (handle e s)"] Cons.prems amortised [of s e] show ?case by simp
qed simp

end

section \<open>Buffers\<close>

text \<open>\<open>memcpy(buf + off, xs, length xs)\<close>; in range when \<open>off + length xs \<le> length buf\<close>.\<close>

definition blit :: "'a list \<Rightarrow> nat \<Rightarrow> 'a list \<Rightarrow> 'a list" where
  "blit buf off xs = take off buf @ xs @ drop (off + length xs) buf"

lemma length_blit [simp]:
  "off + length xs \<le> length buf \<Longrightarrow> length (blit buf off xs) = length buf"
  by (simp add: blit_def)

lemma take_blit_before [simp]: "n \<le> off \<Longrightarrow> off \<le> length buf \<Longrightarrow> take n (blit buf off xs) = take n buf"
  by (simp add: blit_def)

lemma take_blit_upto:
  "off \<le> length buf \<Longrightarrow> take (off + length xs) (blit buf off xs) = take off buf @ xs"
  by (simp add: blit_def)

lemma drop_blit_at:
  "off \<le> length buf \<Longrightarrow> drop off (blit buf off xs) = xs @ drop (off + length xs) buf"
  by (simp add: blit_def)

lemma take_drop_blit [simp]:
  "off \<le> length buf \<Longrightarrow> take (length xs) (drop off (blit buf off xs)) = xs"
  by (simp add: drop_blit_at)

lemma blit_Nil [simp]: "off \<le> length buf \<Longrightarrow> blit buf off [] = buf"
  by (simp add: blit_def)

lemma blit_append:
  "off + length xs \<le> length buf \<Longrightarrow> blit (blit buf off xs) (off + length xs) ys = blit buf off (xs @ ys)"
  by (simp add: blit_def ac_simps)

lemma drop_blit_after:
  "off + length xs \<le> n \<Longrightarrow> off + length xs \<le> length buf \<Longrightarrow> drop n (blit buf off xs) = drop n buf"
  by (simp add: blit_def add.commute)

lemma nth_blit_before: "i < off \<Longrightarrow> off \<le> length buf \<Longrightarrow> blit buf off xs ! i = buf ! i"
  by (simp add: blit_def nth_append)

lemma nth_blit_in:
  "off \<le> i \<Longrightarrow> i < off + length xs \<Longrightarrow> off \<le> length buf \<Longrightarrow> blit buf off xs ! i = xs ! (i - off)"
  by (auto simp: blit_def nth_append)

lemma list_update_is_blit: "i < length buf \<Longrightarrow> buf[i := x] = blit buf i [x]"
  by (simp add: blit_def upd_conv_take_nth_drop)

lemma take_eq_imp_nth_eq: "take n xs = take n ys \<Longrightarrow> i < n \<Longrightarrow> xs ! i = ys ! i"
  by (metis nth_take)

end
