(* ===== verification/Packing.thy ===== *)
theory Packing
  imports Prelude
begin

text \<open>
  Little-endian integers in byte buffers (opendnp3/APL/PackingUnpacking.h): \<open>UInt8\<close>,
  \<open>UInt16LE = Bit16LE<uint16_t>\<close> and \<open>UInt32LE = Bit32LE<uint32_t>\<close>. A read or write through the
  pointer \<open>p + off\<close> is a read or write of the buffer \<open>p\<close> at the offset \<open>off\<close>.
\<close>

definition UInt8_Read :: "bytes \<Rightarrow> nat \<Rightarrow> byte" where
  "UInt8_Read p off = p ! off"

definition UInt8_Write :: "bytes \<Rightarrow> nat \<Rightarrow> byte \<Rightarrow> bytes" where
  "UInt8_Write p off v = p[off := v]"

definition UInt16LE_Read :: "bytes \<Rightarrow> nat \<Rightarrow> u16" where
  "UInt16LE_Read p off =
     (let ret = ucast (p ! off) in ret OR push_bit 8 (ucast (p ! (off + 1))))"

definition UInt16LE_Write :: "bytes \<Rightarrow> nat \<Rightarrow> u16 \<Rightarrow> bytes" where
  "UInt16LE_Write p off v =
     (p[off := ucast (v AND 0xFF)])[off + 1 := ucast (drop_bit 8 v AND 0xFF)]"

definition UInt32LE_Read :: "bytes \<Rightarrow> nat \<Rightarrow> u32" where
  "UInt32LE_Read p off =
     (let ret = ucast (p ! off);
          ret = ret OR push_bit 8 (ucast (p ! (off + 1)));
          ret = ret OR push_bit 16 (ucast (p ! (off + 2)))
      in ret OR push_bit 24 (ucast (p ! (off + 3))))"

definition UInt32LE_Write :: "bytes \<Rightarrow> nat \<Rightarrow> u32 \<Rightarrow> bytes" where
  "UInt32LE_Write p off v =
     (((p[off := ucast (v AND 0xFF)])
        [off + 1 := ucast (drop_bit 8 v AND 0xFF)])
        [off + 2 := ucast (drop_bit 16 v AND 0xFF)])
        [off + 3 := ucast (drop_bit 24 v AND 0xFF)]"

text \<open>The codes' \<open>Max\<close> and \<open>Size\<close> members.\<close>

definition UInt8_Max :: nat where "UInt8_Max = 255"
definition UInt16LE_Max :: nat where "UInt16LE_Max = 65535"
definition UInt32LE_Max :: nat where "UInt32LE_Max = 4294967295"

definition UInt8_Size :: nat where "UInt8_Size = 1"
definition UInt16LE_Size :: nat where "UInt16LE_Size = 2"
definition UInt32LE_Size :: nat where "UInt32LE_Size = 4"

lemmas codec_sizes = UInt8_Size_def UInt16LE_Size_def UInt32LE_Size_def
lemmas codec_maxima = UInt8_Max_def UInt16LE_Max_def UInt32LE_Max_def

section \<open>The interface of a codec\<close>

text \<open>
  What the rest of the stack relies on: a write changes exactly the \<open>width\<close> bytes at its offset,
  keeps the buffer's length, and a read at the same offset gives the value back.
\<close>

locale byte_codec =
  fixes read :: "bytes \<Rightarrow> nat \<Rightarrow> 'a::len word"
    and "write" :: "bytes \<Rightarrow> nat \<Rightarrow> 'a::len word \<Rightarrow> bytes"
    and width :: nat
  assumes length_write: "length (write p off v) = length p"
    and read_write: "off + width \<le> length p \<Longrightarrow> read (write p off v) off = v"
    and nth_write: "i < off \<or> off + width \<le> i \<Longrightarrow> write p off v ! i = p ! i"
    and read_local: "take width (drop off p) = take width (drop off' q) \<Longrightarrow>
      off + width \<le> length p \<Longrightarrow> off' + width \<le> length q \<Longrightarrow> read p off = read q off'"
begin

lemma take_write: "n \<le> off \<Longrightarrow> take n (write p off v) = take n p"
  by (rule nth_equalityI) (auto simp: length_write nth_write)

lemma drop_write: "off + width \<le> n \<Longrightarrow> drop n (write p off v) = drop n p"
  by (rule nth_equalityI) (auto simp: length_write nth_write)

lemma read_write_disjoint:
  assumes "off' + width \<le> off \<or> off + width \<le> off'" and "off' + width \<le> length p"
  shows "read (write p off v) off' = read p off'"
proof (rule read_local)
  show "take width (drop off' (write p off v)) = take width (drop off' p)"
    by (rule nth_equalityI) (use assms in \<open>auto simp: length_write nth_write\<close>)
qed (use assms in \<open>auto simp: length_write\<close>)

lemma read_append: "off + width \<le> length p \<Longrightarrow> read (p @ q) off = read p off"
  by (rule read_local) auto

lemma read_drop: "k + off + width \<le> length p \<Longrightarrow> read (drop k p) off = read p (k + off)"
  by (rule read_local) (auto simp: add.commute)

lemma read_take: "off + width \<le> n \<Longrightarrow> off + width \<le> length p \<Longrightarrow> read (take n p) off = read p off"
  by (rule read_local) (auto simp: drop_take)

lemma read_blit_before:
  "off + width \<le> k \<Longrightarrow> k \<le> length p \<Longrightarrow> k + length xs \<le> length p \<Longrightarrow> read (blit p k xs) off = read p off"
  by (rule read_local) (auto simp: blit_def drop_take)

end

lemma mask8: "(255 :: 'a::len word) = mask 8"
  by (simp add: mask_eq_exp_minus_1)

text \<open>The bytes of a word, least significant first, put together again.\<close>

lemma byte_parts16:
  "ucast (ucast (v AND 0xFF) :: byte) OR push_bit 8 (ucast (ucast (drop_bit 8 v AND 0xFF) :: byte)) = (v :: u16)"
  unfolding mask8
proof (rule bit_word_eqI)
  fix n assume "n < LENGTH(16)"
  then consider "n < 8" | "8 \<le> n" "n - 8 < 8" by fastforce
  then show "bit (ucast (ucast (v AND mask 8) :: byte) OR
      push_bit 8 (ucast (ucast (drop_bit 8 v AND mask 8) :: byte)) :: u16) n = bit v n"
    by cases (auto simp: bit_simps)
qed

lemma byte_parts32: "((ucast (ucast (v AND 0xFF) :: byte) OR push_bit 8 (ucast (ucast (drop_bit 8 v AND 0xFF) :: byte)))
    OR push_bit 16 (ucast (ucast (drop_bit 16 v AND 0xFF) :: byte)))
    OR push_bit 24 (ucast (ucast (drop_bit 24 v AND 0xFF) :: byte)) = (v :: u32)"
  unfolding mask8
proof (rule bit_word_eqI)
  fix n assume "n < LENGTH(32)"
  then consider "n < 8" | "8 \<le> n" "n < 16" | "16 \<le> n" "n < 24" | "24 \<le> n" "n < 32" by fastforce
  then show "bit (((ucast (ucast (v AND mask 8) :: byte) OR push_bit 8 (ucast (ucast (drop_bit 8 v AND mask 8) :: byte)))
    OR push_bit 16 (ucast (ucast (drop_bit 16 v AND mask 8) :: byte)))
    OR push_bit 24 (ucast (ucast (drop_bit 24 v AND mask 8) :: byte)) :: u32) n = bit v n"
    by cases (auto simp: bit_simps)
qed

lemma slice_nth_eq:
  assumes "take w (drop off p) = take w (drop off' q)" and "i < w"
    and "off + w \<le> length p" and "off' + w \<le> length q"
  shows "p ! (off + i) = q ! (off' + i)"
  using assms by (metis add_leD1 nth_drop nth_take)

interpretation u8: byte_codec UInt8_Read UInt8_Write UInt8_Size
  by unfold_locales
    (auto simp: UInt8_Read_def UInt8_Write_def UInt8_Size_def
      dest: slice_nth_eq [where i = 0 and w = "Suc 0", simplified])

interpretation u16le: byte_codec UInt16LE_Read UInt16LE_Write UInt16LE_Size
proof (unfold_locales, goal_cases)
  case (4 off p off' q)
  then show ?case
    using slice_nth_eq [of 2 off p off' q 0] slice_nth_eq [of 2 off p off' q 1]
    by (simp add: UInt16LE_Read_def UInt16LE_Size_def)
qed (auto simp: UInt16LE_Read_def UInt16LE_Write_def UInt16LE_Size_def Let_def byte_parts16)

interpretation u32le: byte_codec UInt32LE_Read UInt32LE_Write UInt32LE_Size
proof (unfold_locales, goal_cases)
  case (4 off p off' q)
  then show ?case
    using slice_nth_eq [of 4 off p off' q 0] slice_nth_eq [of 4 off p off' q 1]
      slice_nth_eq [of 4 off p off' q 2] slice_nth_eq [of 4 off p off' q 3]
    by (simp add: UInt32LE_Read_def UInt32LE_Size_def)
qed (auto simp: UInt32LE_Read_def UInt32LE_Write_def UInt32LE_Size_def Let_def byte_parts32)

end
