(* ===== verification/Crc.thy ===== *)
theory Crc
  imports Packing
begin

text \<open>
  The cyclic redundancy check of the link layer: the generic table-driven routine
  (opendnp3/APL/CRC.cpp) and its DNP3 instance (opendnp3/DNP3/DNPCrc.cpp). The lemmas show that the
  table-driven loop computes the bit-by-bit reference algorithm, that the register stays within 16
  bits, and that two messages that differ in one byte never have the same check value.
\<close>

section \<open>The code\<close>

text \<open>The body of the inner loop of \<open>PrecomputeCRC\<close>.\<close>

definition crc_round :: "u32 \<Rightarrow> u32 \<Rightarrow> u32" where
  "crc_round aPolynomial crc =
     (if crc AND 0x0001 \<noteq> 0 then drop_bit 1 crc XOR aPolynomial else drop_bit 1 crc)"

definition PrecomputeCRC :: "u32 \<Rightarrow> u32 list" where
  "PrecomputeCRC aPolynomial = map (\<lambda>i. (crc_round aPolynomial ^^ 8) (of_nat i)) [0..<256]"

text \<open>The body of the loop of \<open>CalcCRC\<close>, and the loop over the first \<open>aLength\<close> bytes.\<close>

definition crc_step :: "u32 list \<Rightarrow> u32 \<Rightarrow> byte \<Rightarrow> u32" where
  "crc_step apTable crc b =
     (let index = unat ((crc XOR ucast b) AND 0xFF) in apTable ! index XOR drop_bit 8 crc)"

definition CalcCRC :: "bytes \<Rightarrow> nat \<Rightarrow> u32 list \<Rightarrow> u32 \<Rightarrow> bool \<Rightarrow> u32" where
  "CalcCRC aInput aLength apTable aStart aInvert =
     (let crc = foldl (crc_step apTable) aStart (take aLength aInput)
      in if aInvert then NOT crc AND 0xFFFF else crc)"

definition mpCrcTable :: "u32 list" where
  "mpCrcTable = PrecomputeCRC 0xA6BC"

text \<open>The three functions of \<open>DNPCrc\<close>; \<open>aInput\<close> is a pointer into a buffer, the buffer and an offset.\<close>

definition CalcCrc :: "bytes \<Rightarrow> nat \<Rightarrow> nat \<Rightarrow> u32" where
  "CalcCrc p off aLength = CalcCRC (drop off p) aLength mpCrcTable 0x0000 True"

definition AddCrc :: "bytes \<Rightarrow> nat \<Rightarrow> nat \<Rightarrow> bytes" where
  "AddCrc p off aLength =
     (let crc = CalcCrc p off aLength in
      (p[off + aLength := ucast (crc AND 0xFF)])
        [off + aLength + 1 := ucast (drop_bit 8 crc AND 0xFF)])"

definition IsCorrectCRC :: "bytes \<Rightarrow> nat \<Rightarrow> nat \<Rightarrow> bool" where
  "IsCorrectCRC p off aLength = (CalcCrc p off aLength = ucast (UInt16LE_Read p (off + aLength)))"

section \<open>Table and bit-by-bit algorithm\<close>

lemma byte_bit_high: "bit (b :: byte) n \<Longrightarrow> n < 8"
  by (drule bit_imp_le_length) simp

lemma xor_cancel_right: "(a :: 'a::len word) XOR x = b XOR x \<longleftrightarrow> a = b"
  by (metis xor.assoc xor.right_neutral xor_self_eq)

lemma xor_cancel_left: "(x :: 'a::len word) XOR a = x XOR b \<longleftrightarrow> a = b"
  by (metis xor.commute xor_cancel_right)

text \<open>The reference: exclusive-or the byte in, then shift it out one bit at a time.\<close>

definition crc_bitwise :: "u32 \<Rightarrow> u32 \<Rightarrow> byte \<Rightarrow> u32" where
  "crc_bitwise aPolynomial crc b = (crc_round aPolynomial ^^ 8) (crc XOR ucast b)"

lemma low_bit_set: "(crc :: u32) AND 1 \<noteq> 0 \<longleftrightarrow> bit crc 0"
  by (simp add: and_one_eq bit_0 odd_iff_mod_2_eq_one)

lemma crc_round_xor:
  "crc_round p (a XOR b) = crc_round p a XOR crc_round p b"
  unfolding crc_round_def low_bit_set
  by (auto simp: bit_xor_iff intro!: bit_word_eqI)

lemma crc_rounds_xor:
  "(crc_round p ^^ n) (a XOR b) = (crc_round p ^^ n) a XOR (crc_round p ^^ n) b"
  by (induction n) (simp_all add: crc_round_xor)

lemma crc_rounds_high:
  "(\<And>i. i < n \<Longrightarrow> \<not> bit a i) \<Longrightarrow> (crc_round p ^^ n) a = drop_bit n a"
proof (induction n)
  case (Suc n)
  then have "\<not> bit (drop_bit n a) 0" by (simp add: bit_drop_bit_eq)
  then show ?case using Suc unfolding crc_round_def low_bit_set by (simp add: drop_bit_drop_bit crc_round_def low_bit_set)
qed simp

lemma drop_push_drop: "drop_bit 8 (push_bit 8 (drop_bit 8 c)) = drop_bit 8 (c :: u32)"
  by (rule bit_word_eqI) (auto simp: bit_simps dest: bit_imp_le_length)

lemma split_low_byte: "(c :: u32) = (c AND 0xFF) XOR (push_bit 8 (drop_bit 8 c))"
  unfolding mask8 by (rule bit_word_eqI) (auto simp: bit_simps)

lemma nth_PrecomputeCRC:
  "n < 256 \<Longrightarrow> PrecomputeCRC p ! n = (crc_round p ^^ 8) (of_nat n)"
  by (simp add: PrecomputeCRC_def)

lemma low_byte_less: "unat ((c :: u32) AND 0xFF) < 256"
proof -
  have "c AND 0xFF \<le> 0xFF" by (rule word_and_le1)
  then show ?thesis by (simp add: word_le_nat_alt)
qed

lemma crc_step_bitwise: "crc_step (PrecomputeCRC p) crc b = crc_bitwise p crc b"
proof -
  let ?c = "crc XOR ucast b"
  have high: "drop_bit 8 ?c = drop_bit 8 crc"
    by (rule bit_word_eqI) (auto simp: bit_simps dest: byte_bit_high)
  have "(crc_round p ^^ 8) ?c
      = (crc_round p ^^ 8) (?c AND 0xFF) XOR (crc_round p ^^ 8) (push_bit 8 (drop_bit 8 ?c))"
    by (subst split_low_byte [of ?c]) (rule crc_rounds_xor)
  also have "(crc_round p ^^ 8) (push_bit 8 (drop_bit 8 ?c)) = drop_bit 8 (push_bit 8 (drop_bit 8 ?c))"
    by (rule crc_rounds_high) (simp add: bit_simps)
  also have "\<dots> = drop_bit 8 crc"
    by (simp only: drop_push_drop high)
  finally show ?thesis
    by (simp add: crc_bitwise_def crc_step_def nth_PrecomputeCRC low_byte_less)
qed

lemma crc_loop_bitwise: "foldl (crc_step (PrecomputeCRC p)) s xs = foldl (crc_bitwise p) s xs"
  by (induction xs arbitrary: s) (simp_all add: crc_step_bitwise)

section \<open>The register has 16 bits, and each step is injective\<close>

definition fits16 :: "u32 \<Rightarrow> bool" where
  "fits16 c \<longleftrightarrow> (\<forall>n \<ge> 16. \<not> bit c n)"

lemma fits16_round: "fits16 p \<Longrightarrow> fits16 c \<Longrightarrow> fits16 (crc_round p c)"
  by (auto simp: fits16_def crc_round_def bit_simps)

lemma fits16_rounds: "fits16 p \<Longrightarrow> fits16 c \<Longrightarrow> fits16 ((crc_round p ^^ n) c)"
  by (induction n) (simp_all add: fits16_round)

lemma fits16_xor: "fits16 a \<Longrightarrow> fits16 b \<Longrightarrow> fits16 (a XOR b)"
  by (auto simp: fits16_def bit_xor_iff)

lemma fits16_byte: "fits16 (ucast (b :: byte))"
  by (auto simp: fits16_def bit_simps dest: byte_bit_high)

lemma fits16_bitwise: "fits16 p \<Longrightarrow> fits16 c \<Longrightarrow> fits16 (crc_bitwise p c b)"
  by (simp add: crc_bitwise_def fits16_rounds fits16_xor fits16_byte)

lemma fits16_loop: "fits16 p \<Longrightarrow> fits16 s \<Longrightarrow> fits16 (foldl (crc_bitwise p) s xs)"
  by (induction xs arbitrary: s) (simp_all add: fits16_bitwise)

text \<open>
  With bit 15 of the polynomial set, the top bit of the result of a round tells which branch was
  taken, so the round can be undone.
\<close>

lemma crc_round_inj:
  assumes "bit p 15" and "fits16 a" and "fits16 b" and eq: "crc_round p a = crc_round p b"
  shows "a = b"
proof -
  have top: "bit (crc_round p c) 15 = bit c 0" if "fits16 c" for c
    using that assms(1) by (simp add: crc_round_def low_bit_set bit_simps fits16_def)
  from top [OF assms(2)] top [OF assms(3)] eq have low: "bit a 0 = bit b 0" by simp
  with eq have "drop_bit 1 a = drop_bit 1 b"
    unfolding crc_round_def low_bit_set by (auto simp: xor_cancel_right split: if_splits)
  then have "bit a (Suc n) = bit b (Suc n)" for n
    by (metis bit_drop_bit_eq comp_apply plus_1_eq_Suc)
  with low show ?thesis by (intro bit_word_eqI) (metis not0_implies_Suc)
qed

lemma crc_rounds_inj:
  assumes "bit p 15" and "fits16 p"
  shows "fits16 a \<Longrightarrow> fits16 b \<Longrightarrow> (crc_round p ^^ n) a = (crc_round p ^^ n) b \<Longrightarrow> a = b"
proof (induction n)
  case (Suc n)
  then show ?case
    using crc_round_inj [OF assms(1)] fits16_rounds [OF assms(2)] by simp
qed simp

lemma crc_bitwise_inj_crc:
  assumes "bit p 15" "fits16 p" "fits16 a" "fits16 b" "crc_bitwise p a x = crc_bitwise p b x"
  shows "a = b"
proof -
  have "a XOR ucast x = b XOR ucast x"
    using crc_rounds_inj [OF assms(1,2)] assms(3-5) unfolding crc_bitwise_def
    by (meson fits16_byte fits16_xor)
  then show ?thesis by (simp add: xor_cancel_right)
qed

lemma crc_bitwise_inj_byte:
  assumes "bit p 15" "fits16 p" "fits16 a" "crc_bitwise p a x = crc_bitwise p a y"
  shows "x = y"
proof -
  have "a XOR ucast x = a XOR (ucast y :: u32)"
    using crc_rounds_inj [OF assms(1,2)] assms(3,4) unfolding crc_bitwise_def
    by (meson fits16_byte fits16_xor)
  then have "(ucast x :: u32) = ucast y" by (simp add: xor_cancel_left)
  then have eq: "bit (ucast x :: u32) n = bit (ucast y :: u32) n" for n by simp
  show ?thesis
  proof (rule bit_word_eqI)
    fix n assume "n < LENGTH(8)"
    then show "bit x n = bit y n" using eq [of n] by (simp add: bit_simps)
  qed
qed

lemma crc_loop_inj:
  assumes "bit p 15" "fits16 p"
  shows "fits16 a \<Longrightarrow> fits16 b \<Longrightarrow> foldl (crc_bitwise p) a xs = foldl (crc_bitwise p) b xs \<Longrightarrow> a = b"
proof (induction xs arbitrary: a b)
  case (Cons x xs)
  then have "crc_bitwise p a x = crc_bitwise p b x"
    by (auto simp: fits16_bitwise assms)
  then show ?case using crc_bitwise_inj_crc [OF assms] Cons.prems by blast
qed simp

section \<open>The check value of DNP3 messages\<close>

text \<open>0xA6BC, the reversed DNP3 polynomial, fits in 16 bits and has its top bit set.\<close>

lemma poly_top: "bit (0xA6BC :: u32) 15"
  by simp

lemma poly_fits: "fits16 0xA6BC"
proof -
  have "(0xA6BC :: u32) = take_bit 16 0xA6BC" by simp
  then show ?thesis unfolding fits16_def by (metis bit_take_bit_iff not_less)
qed

definition crc_state :: "bytes \<Rightarrow> u32" where
  "crc_state xs = foldl (crc_bitwise 0xA6BC) 0 xs"

lemma CalcCrc_state: "CalcCrc p off n = NOT (crc_state (take n (drop off p))) AND 0xFFFF"
  by (simp add: CalcCrc_def CalcCRC_def mpCrcTable_def crc_state_def crc_loop_bitwise Let_def)

lemma fits16_state: "fits16 (crc_state xs)"
  unfolding crc_state_def by (rule fits16_loop [OF poly_fits]) (simp add: fits16_def)

lemma mask16: "(0xFFFF :: 'a::len word) = mask 16"
  by (simp add: mask_eq_exp_minus_1)

lemma fits16_CalcCrc: "fits16 (CalcCrc p off n)"
  by (auto simp: CalcCrc_state fits16_def mask16 bit_simps)

lemma not_mask16_inj:
  assumes "fits16 a" "fits16 b" "NOT a AND 0xFFFF = NOT b AND 0xFFFF"
  shows "a = b"
proof (rule bit_word_eqI)
  fix n assume n: "n < LENGTH(32)"
  have "bit (NOT a AND 0xFFFF) n = bit (NOT b AND 0xFFFF) n" using assms(3) by simp
  then show "bit a n = bit b n"
    using assms(1,2) n unfolding mask16 by (cases "n < 16") (auto simp: fits16_def bit_simps)
qed

text \<open>Only the bytes of the block count.\<close>

lemma CalcCrc_cong:
  "take n (drop off p) = take n (drop off' q) \<Longrightarrow> CalcCrc p off n = CalcCrc q off' n"
  by (simp add: CalcCrc_state)

lemma length_AddCrc [simp]: "length (AddCrc p off n) = length p"
  by (simp add: AddCrc_def Let_def)

lemma crc_low_byte: "ucast (ucast c AND 0xFF :: u16) = (ucast (c AND 0xFF) :: byte)" for c :: u32
  unfolding mask8 by (rule bit_word_eqI) (auto simp: bit_simps)

lemma crc_high_byte: "ucast (drop_bit 8 (ucast c :: u16) AND 0xFF) = (ucast (drop_bit 8 c AND 0xFF) :: byte)"
  for c :: u32
  unfolding mask8 by (rule bit_word_eqI) (auto simp: bit_simps)

lemma AddCrc_as_write: "AddCrc p off n = UInt16LE_Write p (off + n) (ucast (CalcCrc p off n))"
  by (simp add: AddCrc_def UInt16LE_Write_def Let_def crc_low_byte crc_high_byte)

lemma take_AddCrc: "k \<le> off + n \<Longrightarrow> take k (AddCrc p off n) = take k p"
  by (simp add: AddCrc_as_write u16le.take_write)

lemma drop_AddCrc: "off + n + 2 \<le> k \<Longrightarrow> drop k (AddCrc p off n) = drop k p"
  by (simp add: AddCrc_as_write u16le.drop_write UInt16LE_Size_def)

lemma CalcCrc_AddCrc: "off + n \<le> length p \<Longrightarrow> CalcCrc (AddCrc p off n) off n = CalcCrc p off n"
  by (rule CalcCrc_cong) (metis add.commute take_AddCrc take_drop le_refl)

lemma ucast_CalcCrc: "ucast (ucast (CalcCrc p off n) :: u16) = CalcCrc p off n"
proof (rule bit_word_eqI)
  fix k assume "k < LENGTH(32)"
  then show "bit (ucast (ucast (CalcCrc p off n) :: u16) :: u32) k = bit (CalcCrc p off n) k"
    using fits16_CalcCrc [of p off n] by (cases "k < 16") (auto simp: bit_simps fits16_def)
qed

text \<open>A check value that was added verifies.\<close>

lemma IsCorrectCRC_AddCrc:
  "off + n + 2 \<le> length p \<Longrightarrow> IsCorrectCRC (AddCrc p off n) off n"
  by (simp add: IsCorrectCRC_def CalcCrc_AddCrc)
    (simp add: AddCrc_as_write u16le.read_write UInt16LE_Size_def ucast_CalcCrc)

text \<open>The check reads the block and the two bytes behind it, nothing else.\<close>

lemma IsCorrectCRC_cong:
  assumes "take (n + 2) (drop off p) = take (n + 2) (drop off' q)"
    and "off + n + 2 \<le> length p" and "off' + n + 2 \<le> length q"
  shows "IsCorrectCRC p off n = IsCorrectCRC q off' n"
proof -
  have "take n (drop off p) = take n (drop off' q)"
    using arg_cong [OF assms(1), of "take n"] by (simp add: min_def)
  then have crc: "CalcCrc p off n = CalcCrc q off' n" by (rule CalcCrc_cong)
  have "take UInt16LE_Size (drop (off + n) p) = take UInt16LE_Size (drop (off' + n) q)"
    using arg_cong [OF assms(1), of "drop n"] by (simp add: drop_take add.commute UInt16LE_Size_def)
  then have "UInt16LE_Read p (off + n) = UInt16LE_Read q (off' + n)"
    by (rule u16le.read_local) (use assms in \<open>simp_all add: UInt16LE_Size_def\<close>)
  with crc show ?thesis by (simp add: IsCorrectCRC_def)
qed

lemma crc_state_one_byte:
  assumes "x \<noteq> y"
  shows "crc_state (xs @ x # ys) \<noteq> crc_state (xs @ y # ys)"
proof
  let ?s = "crc_state xs"
  assume "crc_state (xs @ x # ys) = crc_state (xs @ y # ys)"
  then have "foldl (crc_bitwise 0xA6BC) (crc_bitwise 0xA6BC ?s x) ys
      = foldl (crc_bitwise 0xA6BC) (crc_bitwise 0xA6BC ?s y) ys"
    by (simp add: crc_state_def)
  then have "crc_bitwise 0xA6BC ?s x = crc_bitwise 0xA6BC ?s y"
    by (rule crc_loop_inj [OF poly_top poly_fits, rotated 2])
      (simp_all add: fits16_bitwise poly_fits fits16_state)
  then show False
    using crc_bitwise_inj_byte [OF poly_top poly_fits fits16_state] assms by blast
qed

text \<open>C40: The table-driven loop with the precomputed table returns what the bit-by-bit algorithm
  returns: exclusive-or each byte into the register and shift it out through eight rounds; for
  every polynomial, start value, message and length.\<close>

theorem table_driven_crc_is_bitwise:
  "CalcCRC aInput aLength (PrecomputeCRC aPolynomial) aStart aInvert =
     (let crc = foldl (\<lambda>c b. (crc_round aPolynomial ^^ 8) (c XOR ucast b)) aStart (take aLength aInput)
      in if aInvert then NOT crc AND 0xFFFF else crc)"
proof -
  have "crc_bitwise aPolynomial = (\<lambda>c b. (crc_round aPolynomial ^^ 8) (c XOR ucast b))"
    by (intro ext) (simp add: crc_bitwise_def)
  then show ?thesis by (simp add: CalcCRC_def crc_loop_bitwise)
qed

end
