(* ===== verification/LinkFrames.thy ===== *)
theory LinkFrames
  imports Crc
begin

text \<open>
  The FT3 frames of the data link layer: the function codes and masks
  (opendnp3/DNP3/LinkLayerConstants.h and .cpp), the ten-byte header (LinkHeader.h, .cpp) and the
  frame with its body of 16-byte blocks, each followed by its check value (LinkFrame.h, .cpp).
  The lemmas give the bytes a formatted frame consists of, the round trips through them, and that
  no change of a single byte of a formatted frame goes unnoticed.
\<close>

section \<open>Constants\<close>

named_theorems link_consts \<open>the enumerators of LinkLayerConstants.h\<close>

definition LS_MIN_LENGTH :: nat where [link_consts]: "LS_MIN_LENGTH = 5"
definition LS_MAX_LENGTH :: nat where [link_consts]: "LS_MAX_LENGTH = 255"
definition LS_HEADER_SIZE :: nat where [link_consts]: "LS_HEADER_SIZE = 10"
definition LS_DATA_BLOCK_SIZE :: nat where [link_consts]: "LS_DATA_BLOCK_SIZE = 16"
definition LS_CRC_SIZE :: nat where [link_consts]: "LS_CRC_SIZE = 2"
definition LS_DATA_PLUS_CRC_SIZE :: nat where [link_consts]: "LS_DATA_PLUS_CRC_SIZE = 18"
definition LS_MAX_USER_DATA_SIZE :: nat where [link_consts]: "LS_MAX_USER_DATA_SIZE = 250"
definition LS_MAX_FRAME_SIZE :: nat where [link_consts]: "LS_MAX_FRAME_SIZE = 292"

definition LI_START_05 :: nat where [link_consts]: "LI_START_05 = 0"
definition LI_START_64 :: nat where [link_consts]: "LI_START_64 = 1"
definition LI_LENGTH :: nat where [link_consts]: "LI_LENGTH = 2"
definition LI_CONTROL :: nat where [link_consts]: "LI_CONTROL = 3"
definition LI_DESTINATION :: nat where [link_consts]: "LI_DESTINATION = 4"
definition LI_SOURCE :: nat where [link_consts]: "LI_SOURCE = 6"
definition LI_CRC :: nat where [link_consts]: "LI_CRC = 8"

definition MASK_DIR :: byte where [link_consts]: "MASK_DIR = 0x80"
definition MASK_PRM :: byte where [link_consts]: "MASK_PRM = 0x40"
definition MASK_FCB :: byte where [link_consts]: "MASK_FCB = 0x20"
definition MASK_FCV :: byte where [link_consts]: "MASK_FCV = 0x10"
definition MASK_FUNC :: byte where [link_consts]: "MASK_FUNC = 0x0F"
definition MASK_FUNC_OR_PRM :: byte where [link_consts]: "MASK_FUNC_OR_PRM = MASK_PRM OR MASK_FUNC"

datatype FuncCodes =
    FC_PRI_RESET_LINK_STATES
  | FC_PRI_TEST_LINK_STATES
  | FC_PRI_CONFIRMED_USER_DATA
  | FC_PRI_UNCONFIRMED_USER_DATA
  | FC_PRI_REQUEST_LINK_STATUS
  | FC_SEC_ACK
  | FC_SEC_NACK
  | FC_SEC_LINK_STATUS
  | FC_SEC_NOT_SUPPORTED
  | FC_INVALID

text \<open>The values of the enumerators.\<close>

fun FuncCodeByte :: "FuncCodes \<Rightarrow> byte" where
  "FuncCodeByte FC_PRI_RESET_LINK_STATES = 0x40"
| "FuncCodeByte FC_PRI_TEST_LINK_STATES = 0x42"
| "FuncCodeByte FC_PRI_CONFIRMED_USER_DATA = 0x43"
| "FuncCodeByte FC_PRI_UNCONFIRMED_USER_DATA = 0x44"
| "FuncCodeByte FC_PRI_REQUEST_LINK_STATUS = 0x49"
| "FuncCodeByte FC_SEC_ACK = 0x00"
| "FuncCodeByte FC_SEC_NACK = 0x01"
| "FuncCodeByte FC_SEC_LINK_STATUS = 0x0B"
| "FuncCodeByte FC_SEC_NOT_SUPPORTED = 0x0F"
| "FuncCodeByte FC_INVALID = 0xFF"

definition ByteToFuncCode :: "byte \<Rightarrow> FuncCodes" where
  "ByteToFuncCode aCode =
     (if aCode = 0x40 then FC_PRI_RESET_LINK_STATES
      else if aCode = 0x42 then FC_PRI_TEST_LINK_STATES
      else if aCode = 0x43 then FC_PRI_CONFIRMED_USER_DATA
      else if aCode = 0x44 then FC_PRI_UNCONFIRMED_USER_DATA
      else if aCode = 0x49 then FC_PRI_REQUEST_LINK_STATUS
      else if aCode = 0x00 then FC_SEC_ACK
      else if aCode = 0x01 then FC_SEC_NACK
      else if aCode = 0x0B then FC_SEC_LINK_STATUS
      else if aCode = 0x0F then FC_SEC_NOT_SUPPORTED
      else FC_INVALID)"

section \<open>The header\<close>

record LinkHeader =
  lh_length :: byte
  lh_src :: u16
  lh_dest :: u16
  lh_ctrl :: byte

definition ControlByte :: "bool \<Rightarrow> bool \<Rightarrow> bool \<Rightarrow> FuncCodes \<Rightarrow> byte" where
  "ControlByte aIsMaster aFcb aFcvDfc aFunc =
     (let ret = FuncCodeByte aFunc;
          ret = (if aIsMaster then ret OR MASK_DIR else ret);
          ret = (if aFcb then ret OR MASK_FCB else ret)
      in if aFcvDfc then ret OR MASK_FCV else ret)"

definition LinkHeader_Set ::
  "byte \<Rightarrow> u16 \<Rightarrow> u16 \<Rightarrow> bool \<Rightarrow> bool \<Rightarrow> bool \<Rightarrow> FuncCodes \<Rightarrow> LinkHeader \<Rightarrow> LinkHeader" where
  "LinkHeader_Set aLen aSrc aDest aFromMaster aFcvDfc aFcb aCode h =
     h\<lparr>lh_length := aLen, lh_src := aSrc, lh_dest := aDest,
       lh_ctrl := ControlByte aFromMaster aFcb aFcvDfc aCode\<rparr>"

definition LinkHeader_ChangeFCB :: "bool \<Rightarrow> LinkHeader \<Rightarrow> LinkHeader" where
  "LinkHeader_ChangeFCB aFCB h =
     (if aFCB then h\<lparr>lh_ctrl := lh_ctrl h OR MASK_FCB\<rparr>
      else h\<lparr>lh_ctrl := lh_ctrl h AND NOT MASK_FCB\<rparr>)"

definition IsFromMaster :: "LinkHeader \<Rightarrow> bool" where
  "IsFromMaster h \<longleftrightarrow> lh_ctrl h AND MASK_DIR \<noteq> 0"

definition IsPriToSec :: "LinkHeader \<Rightarrow> bool" where
  "IsPriToSec h \<longleftrightarrow> lh_ctrl h AND MASK_PRM \<noteq> 0"

definition IsFcbSet :: "LinkHeader \<Rightarrow> bool" where
  "IsFcbSet h \<longleftrightarrow> lh_ctrl h AND MASK_FCB \<noteq> 0"

definition IsFcvDfcSet :: "LinkHeader \<Rightarrow> bool" where
  "IsFcvDfcSet h \<longleftrightarrow> lh_ctrl h AND MASK_FCV \<noteq> 0"

definition GetFuncEnum :: "LinkHeader \<Rightarrow> FuncCodes" where
  "GetFuncEnum h = ByteToFuncCode (lh_ctrl h AND MASK_FUNC_OR_PRM)"

definition ValidLength :: "LinkHeader \<Rightarrow> bool" where
  "ValidLength h \<longleftrightarrow> lh_length h > 4"

text \<open>\<open>Read\<close> and \<open>Write\<close> take a pointer into a buffer: the buffer and an offset.\<close>

definition LinkHeader_Read :: "bytes \<Rightarrow> nat \<Rightarrow> LinkHeader \<Rightarrow> LinkHeader" where
  "LinkHeader_Read p off h =
     h\<lparr>lh_length := p ! (off + LI_LENGTH),
       lh_dest := UInt16LE_Read p (off + LI_DESTINATION),
       lh_src := UInt16LE_Read p (off + LI_SOURCE),
       lh_ctrl := p ! (off + LI_CONTROL)\<rparr>"

definition LinkHeader_Write :: "LinkHeader \<Rightarrow> bytes \<Rightarrow> bytes" where
  "LinkHeader_Write h apBuff =
     (let b = apBuff[LI_START_05 := 0x05];
          b = b[LI_START_64 := 0x64];
          b = b[LI_LENGTH := lh_length h];
          b = UInt16LE_Write b LI_DESTINATION (lh_dest h);
          b = UInt16LE_Write b LI_SOURCE (lh_src h);
          b = b[LI_CONTROL := lh_ctrl h]
      in AddCrc b 0 LI_CRC)"

section \<open>The frame\<close>

record LinkFrame =
  lf_complete :: bool
  lf_size :: nat
  lf_header :: LinkHeader
  lf_buffer :: bytes

definition CalcFrameSize :: "nat \<Rightarrow> nat" where
  "CalcFrameSize aDataLength =
     (let ret = LS_HEADER_SIZE in
      if aDataLength > 0 then
        (let mod16 = aDataLength mod LS_DATA_BLOCK_SIZE;
             ret = ret + (aDataLength div LS_DATA_BLOCK_SIZE) * LS_DATA_PLUS_CRC_SIZE
         in if mod16 \<noteq> 0 then ret + (mod16 + LS_CRC_SIZE) else ret)
      else ret)"

text \<open>The assertion at the head of \<open>CalcFrameSize\<close>; its callers check it.\<close>

definition CalcFrameSize_pre :: "nat \<Rightarrow> bool" where
  "CalcFrameSize_pre aDataLength \<longleftrightarrow> aDataLength \<le> LS_MAX_USER_DATA_SIZE"

function ReadUserData :: "bytes \<Rightarrow> nat \<Rightarrow> bytes \<Rightarrow> nat \<Rightarrow> nat \<Rightarrow> bytes" where
  "ReadUserData src soff dst doff aLength =
     (if aLength = 0 then dst
      else
        (let num = (if aLength \<le> LS_DATA_BLOCK_SIZE then aLength else LS_DATA_BLOCK_SIZE);
             num_with_crc = num + 2;
             dst = blit dst doff (take num (drop soff src))
         in ReadUserData src (soff + num_with_crc) dst (doff + num) (aLength - num)))"
  by pat_completeness auto
termination
  by (relation "measure (\<lambda>(src, soff, dst, doff, n). n)") (auto simp: LS_DATA_BLOCK_SIZE_def)

function ValidateBodyCRC :: "bytes \<Rightarrow> nat \<Rightarrow> nat \<Rightarrow> bool" where
  "ValidateBodyCRC p off aLength =
     (if aLength = 0 then True
      else
        (let num = (if aLength \<le> LS_DATA_BLOCK_SIZE then aLength else LS_DATA_BLOCK_SIZE)
         in if \<not> IsCorrectCRC p off num then False
            else ValidateBodyCRC p (off + num + 2) (aLength - num)))"
  by pat_completeness auto
termination
  by (relation "measure (\<lambda>(p, off, n). n)") (auto simp: LS_DATA_BLOCK_SIZE_def)

function WriteUserData :: "bytes \<Rightarrow> nat \<Rightarrow> bytes \<Rightarrow> nat \<Rightarrow> nat \<Rightarrow> bytes" where
  "WriteUserData src soff dst doff aLength =
     (if aLength = 0 then dst
      else
        (let num = (if aLength > LS_DATA_BLOCK_SIZE then LS_DATA_BLOCK_SIZE else aLength);
             dst = blit dst doff (take num (drop soff src));
             dst = AddCrc dst doff num
         in WriteUserData src (soff + num) dst (doff + num + 2) (aLength - num)))"
  by pat_completeness auto
termination
  by (relation "measure (\<lambda>(src, soff, dst, doff, n). n)") (auto simp: LS_DATA_BLOCK_SIZE_def)

declare ReadUserData.simps [simp del] ValidateBodyCRC.simps [simp del] WriteUserData.simps [simp del]

definition ValidateHeaderCRC :: "LinkFrame \<Rightarrow> bool" where
  "ValidateHeaderCRC f \<longleftrightarrow> ucast (UInt16LE_Read (lf_buffer f) LI_CRC) = CalcCrc (lf_buffer f) 0 LI_CRC"

definition LinkFrame_ValidateBodyCRC :: "LinkFrame \<Rightarrow> bool" where
  "LinkFrame_ValidateBodyCRC f \<longleftrightarrow>
     ValidateBodyCRC (lf_buffer f) LS_HEADER_SIZE
       (nat ((int (unat (lh_length (lf_header f))) - int LS_MIN_LENGTH) mod 2 ^ 64))"

definition FormatHeader ::
  "nat \<Rightarrow> bool \<Rightarrow> bool \<Rightarrow> bool \<Rightarrow> FuncCodes \<Rightarrow> u16 \<Rightarrow> u16 \<Rightarrow> LinkFrame handler" where
  "FormatHeader aDataLength aIsMaster aFcb aFcvDfc aFuncCode aDest aSrc =
     in_order
       [assert_that (\<lambda>_. CalcFrameSize_pre aDataLength),
        modify (\<lambda>f. f\<lparr>lf_size := CalcFrameSize aDataLength\<rparr>),
        modify (\<lambda>f. f\<lparr>lf_header := LinkHeader_Set (of_nat (aDataLength + LS_MIN_LENGTH)) aSrc aDest
                          aIsMaster aFcvDfc aFcb aFuncCode (lf_header f)\<rparr>),
        modify (\<lambda>f. f\<lparr>lf_buffer := LinkHeader_Write (lf_header f) (lf_buffer f)\<rparr>),
        modify (\<lambda>f. f\<lparr>lf_complete := True\<rparr>)]"

definition FormatAck :: "bool \<Rightarrow> bool \<Rightarrow> u16 \<Rightarrow> u16 \<Rightarrow> LinkFrame handler" where
  "FormatAck aIsMaster aIsRcvBuffFull aDest aSrc =
     FormatHeader 0 aIsMaster False aIsRcvBuffFull FC_SEC_ACK aDest aSrc"

definition FormatNack :: "bool \<Rightarrow> bool \<Rightarrow> u16 \<Rightarrow> u16 \<Rightarrow> LinkFrame handler" where
  "FormatNack aIsMaster aIsRcvBuffFull aDest aSrc =
     FormatHeader 0 aIsMaster False aIsRcvBuffFull FC_SEC_NACK aDest aSrc"

definition FormatLinkStatus :: "bool \<Rightarrow> bool \<Rightarrow> u16 \<Rightarrow> u16 \<Rightarrow> LinkFrame handler" where
  "FormatLinkStatus aIsMaster aIsRcvBuffFull aDest aSrc =
     FormatHeader 0 aIsMaster False aIsRcvBuffFull FC_SEC_LINK_STATUS aDest aSrc"

definition FormatNotSupported :: "bool \<Rightarrow> bool \<Rightarrow> u16 \<Rightarrow> u16 \<Rightarrow> LinkFrame handler" where
  "FormatNotSupported aIsMaster aIsRcvBuffFull aDest aSrc =
     FormatHeader 0 aIsMaster False aIsRcvBuffFull FC_SEC_NOT_SUPPORTED aDest aSrc"

definition FormatResetLinkStates :: "bool \<Rightarrow> u16 \<Rightarrow> u16 \<Rightarrow> LinkFrame handler" where
  "FormatResetLinkStates aIsMaster aDest aSrc =
     FormatHeader 0 aIsMaster False False FC_PRI_RESET_LINK_STATES aDest aSrc"

definition FormatRequestLinkStatus :: "bool \<Rightarrow> u16 \<Rightarrow> u16 \<Rightarrow> LinkFrame handler" where
  "FormatRequestLinkStatus aIsMaster aDest aSrc =
     FormatHeader 0 aIsMaster False False FC_PRI_REQUEST_LINK_STATUS aDest aSrc"

definition FormatTestLinkStatus :: "bool \<Rightarrow> bool \<Rightarrow> u16 \<Rightarrow> u16 \<Rightarrow> LinkFrame handler" where
  "FormatTestLinkStatus aIsMaster aFcb aDest aSrc =
     FormatHeader 0 aIsMaster aFcb True FC_PRI_TEST_LINK_STATES aDest aSrc"

definition FormatConfirmedUserData ::
  "bool \<Rightarrow> bool \<Rightarrow> u16 \<Rightarrow> u16 \<Rightarrow> bytes \<Rightarrow> nat \<Rightarrow> LinkFrame handler" where
  "FormatConfirmedUserData aIsMaster aFcb aDest aSrc apData aDataLength =
     in_order
       [assert_that (\<lambda>_. aDataLength > 0),
        assert_that (\<lambda>_. aDataLength \<le> 250),
        FormatHeader aDataLength aIsMaster aFcb True FC_PRI_CONFIRMED_USER_DATA aDest aSrc,
        modify (\<lambda>f. f\<lparr>lf_buffer := WriteUserData apData 0 (lf_buffer f) LS_HEADER_SIZE aDataLength\<rparr>)]"

definition FormatUnconfirmedUserData ::
  "bool \<Rightarrow> u16 \<Rightarrow> u16 \<Rightarrow> bytes \<Rightarrow> nat \<Rightarrow> LinkFrame handler" where
  "FormatUnconfirmedUserData aIsMaster aDest aSrc apData aDataLength =
     in_order
       [assert_that (\<lambda>_. aDataLength > 0),
        assert_that (\<lambda>_. aDataLength \<le> 250),
        FormatHeader aDataLength aIsMaster False False FC_PRI_UNCONFIRMED_USER_DATA aDest aSrc,
        modify (\<lambda>f. f\<lparr>lf_buffer := WriteUserData apData 0 (lf_buffer f) LS_HEADER_SIZE aDataLength\<rparr>)]"

definition LinkFrame_ChangeFCB :: "bool \<Rightarrow> LinkFrame handler" where
  "LinkFrame_ChangeFCB aFCB =
     if_else (\<lambda>f. IsFcbSet (lf_header f) \<noteq> aFCB)
       (in_order
         [modify (\<lambda>f. f\<lparr>lf_header := LinkHeader_ChangeFCB aFCB (lf_header f)\<rparr>),
          modify (\<lambda>f. f\<lparr>lf_buffer := LinkHeader_Write (lf_header f) (lf_buffer f)\<rparr>)])
       skip"

text \<open>\<open>operator==\<close>: both complete, and equal in the first \<open>mSize\<close> bytes.\<close>

definition LinkFrame_eq :: "LinkFrame \<Rightarrow> LinkFrame \<Rightarrow> bool" where
  "LinkFrame_eq f g \<longleftrightarrow>
     (if \<not> lf_complete f \<or> \<not> lf_complete g then False
      else if lf_size f \<noteq> lf_size g then False
      else (\<forall>i \<in> {0..<lf_size f}. lf_buffer f ! i = lf_buffer g ! i))"

text \<open>The bytes the router hands to the physical layer: \<open>GetBuffer()\<close>, \<open>GetSize()\<close>.\<close>

definition frame_bytes :: "LinkFrame \<Rightarrow> bytes" where
  "frame_bytes f = take (lf_size f) (lf_buffer f)"

section \<open>The bytes of a header\<close>

text \<open>The two check bytes of a block, and a block followed by them.\<close>

definition crc_bytes :: "bytes \<Rightarrow> bytes" where
  "crc_bytes xs = (let c = CalcCrc xs 0 (length xs) in [ucast (c AND 0xFF), ucast (drop_bit 8 c AND 0xFF)])"

definition sealed :: "bytes \<Rightarrow> bytes" where
  "sealed xs = xs @ crc_bytes xs"

lemma length_crc_bytes [simp]: "length (crc_bytes xs) = 2"
  by (simp add: crc_bytes_def Let_def)

lemma length_sealed [simp]: "length (sealed xs) = length xs + 2"
  by (simp add: sealed_def)

text \<open>Copying a block into a buffer and adding its check value writes the sealed block.\<close>

lemma AddCrc_blit:
  assumes "off + length xs + 2 \<le> length p"
  shows "AddCrc (blit p off xs) off (length xs) = blit p off (sealed xs)"
proof -
  have "CalcCrc (blit p off xs) off (length xs) = CalcCrc xs 0 (length xs)"
    by (rule CalcCrc_cong) (use assms in simp)
  moreover have "(blit p off xs)[off + length xs := u, Suc (off + length xs) := v] = blit p off (xs @ [u, v])" for u v
  proof -
    let ?k = "off + length xs"
    have "(blit p off xs)[?k := u, Suc ?k := v] = blit (blit (blit p off xs) ?k [u]) (Suc ?k) [v]"
      using assms by (simp add: list_update_is_blit)
    also have "\<dots> = blit p off (xs @ [u, v])"
      using assms blit_append [of off xs p "[u]"] blit_append [of off "xs @ [u]" p "[v]"] by simp
    finally show ?thesis .
  qed
  ultimately show ?thesis
    using assms by (simp add: AddCrc_def sealed_def crc_bytes_def Let_def)
qed

lemma IsCorrectCRC_sealed:
  assumes "off + length xs + 2 \<le> length p"
  shows "IsCorrectCRC (blit p off (sealed xs)) off (length xs)"
  using assms by (simp flip: AddCrc_blit add: IsCorrectCRC_AddCrc)

definition header_block :: "LinkHeader \<Rightarrow> bytes" where
  "header_block h = [0x05, 0x64, lh_length h, lh_ctrl h,
     ucast (lh_dest h AND 0xFF), ucast (drop_bit 8 (lh_dest h) AND 0xFF),
     ucast (lh_src h AND 0xFF), ucast (drop_bit 8 (lh_src h) AND 0xFF)]"

definition header_bytes :: "LinkHeader \<Rightarrow> bytes" where
  "header_bytes h = sealed (header_block h)"

lemma length_header_block [simp]: "length (header_block h) = 8"
  by (simp add: header_block_def)

lemma length_header_bytes [simp]: "length (header_bytes h) = 10"
  by (simp add: header_bytes_def)

lemma length_8: "length xs = 8 \<Longrightarrow> \<exists>a b c d e f g h. xs = [a, b, c, d, e, f, g, h]"
  by (auto simp: numeral_eq_Suc length_Suc_conv)

lemma LinkHeader_Write_bytes:
  assumes "10 \<le> length p"
  shows "LinkHeader_Write h p = blit p 0 (header_bytes h)"
proof -
  have "length (take 8 p) = 8" using assms by simp
  from length_8 [OF this] obtain a b c d e f g h' where "take 8 p = [a, b, c, d, e, f, g, h']"
    by blast
  then have p: "p = a # b # c # d # e # f # g # h' # drop 8 p"
    using append_take_drop_id [of 8 p] by simp
  have "LinkHeader_Write h p = AddCrc (blit p 0 (header_block h)) 0 (length (header_block h))"
    by (subst p, subst (2) p) (simp add: LinkHeader_Write_def link_consts Let_def UInt16LE_Write_def header_block_def blit_def eval_nat_numeral)
  then show ?thesis
    using assms AddCrc_blit [of 0 "header_block h" p] by (simp add: header_bytes_def)
qed

lemma length_LinkHeader_Write [simp]: "10 \<le> length p \<Longrightarrow> length (LinkHeader_Write h p) = length p"
  by (simp add: LinkHeader_Write_bytes)

text \<open>Reading the ten bytes back gives the header.\<close>

lemma UInt16LE_Read_pair:
  "UInt16LE_Read (xs @ ucast (v AND 0xFF) # ucast (drop_bit 8 v AND 0xFF) # ys) (length xs) = v"
  by (simp add: UInt16LE_Read_def nth_append byte_parts16)

lemma LinkHeader_Read_bytes:
  "LinkHeader_Read (xs @ header_bytes h @ ys) (length xs) h' = h"
proof -
  let ?b = "header_bytes h"
  have "UInt16LE_Read (xs @ ?b @ ys) (length xs + 4) = lh_dest h"
    using UInt16LE_Read_pair [of "xs @ take 4 ?b" "lh_dest h"]
    by (simp add: header_bytes_def sealed_def header_block_def eval_nat_numeral)
  moreover have "UInt16LE_Read (xs @ ?b @ ys) (length xs + 6) = lh_src h"
    using UInt16LE_Read_pair [of "xs @ take 6 ?b" "lh_src h"]
    by (simp add: header_bytes_def sealed_def header_block_def eval_nat_numeral)
  ultimately show ?thesis
    by (simp add: LinkHeader_Read_def link_consts)
      (simp add: header_bytes_def sealed_def header_block_def nth_append)
qed

text \<open>What a header holds once the fields of the control byte are read back.\<close>

lemma ByteToFuncCode_FuncCodeByte: "ByteToFuncCode (FuncCodeByte c) = c"
  by (cases c) (simp_all add: ByteToFuncCode_def)

lemma ControlByte_or:
  "ControlByte m fcb fcv c = ((FuncCodeByte c OR (if m then 0x80 else 0)) OR (if fcb then 0x20 else 0))
     OR (if fcv then 0x10 else 0)"
  by (simp add: ControlByte_def link_consts)

lemma FuncCodeByte_masks:
  assumes "c \<noteq> FC_INVALID"
  shows "FuncCodeByte c AND 0x80 = 0" "FuncCodeByte c AND 0x20 = 0" "FuncCodeByte c AND 0x10 = 0"
    and "FuncCodeByte c AND 0x4F = FuncCodeByte c"
  using assms by (cases c; simp)+

lemmas and_or_distrib = bit.conj_disj_distrib2

lemma ControlByte_fields:
  assumes "lh_ctrl h = ControlByte m fcb fcv c" and "c \<noteq> FC_INVALID"
  shows "IsFromMaster h = m" and "IsFcbSet h = fcb" and "IsFcvDfcSet h = fcv" and "GetFuncEnum h = c"
    and "IsPriToSec h = (FuncCodeByte c AND MASK_PRM \<noteq> 0)"
  using assms(1)
  by (simp_all add: ControlByte_or IsFromMaster_def IsFcbSet_def IsFcvDfcSet_def GetFuncEnum_def
      IsPriToSec_def link_consts and_or_distrib FuncCodeByte_masks [OF assms(2)]
      ByteToFuncCode_FuncCodeByte)

section \<open>The bytes of a body\<close>

text \<open>The body of user data \<open>xs\<close>: its 16-byte blocks (the last may be shorter), each sealed.\<close>

function encode_body :: "bytes \<Rightarrow> bytes" where
  "encode_body xs = (if xs = [] then [] else sealed (take 16 xs) @ encode_body (drop 16 xs))"
  by pat_completeness auto
termination
  by (relation "measure length") auto

declare encode_body.simps [simp del]

definition body_len :: "nat \<Rightarrow> nat" where
  "body_len n = n + 2 * ((n + 15) div 16)"

lemma body_len_0 [simp]: "body_len 0 = 0"
  by (simp add: body_len_def)

lemma body_len_step: "0 < n \<Longrightarrow> body_len n = min n 16 + 2 + body_len (n - min n 16)"
  by (cases "n \<le> 16") (auto simp: body_len_def min_def div_if)

lemma body_len_le: "n \<le> body_len n"
  by (simp add: body_len_def)

lemma blocks_of: "r < 16 \<Longrightarrow> (16 * k + r + 15) div 16 = k + (if r = 0 then 0 else 1)" for k r :: nat
  by (cases "r = 0") (auto intro: div_nat_eqI)

lemma CalcFrameSize_body_len: "CalcFrameSize n = 10 + body_len n"
proof -
  obtain k r where n: "n = 16 * k + r" and r: "r < 16"
    by (metis mod_less_divisor mult_div_mod_eq zero_less_numeral)
  then have "n mod 16 = r" "n div 16 = k" by simp_all
  then show ?thesis
    using blocks_of [OF r, of k] n by (auto simp: CalcFrameSize_def body_len_def link_consts Let_def)
qed

lemma CalcFrameSize_le: "CalcFrameSize_pre n \<Longrightarrow> CalcFrameSize n \<le> LS_MAX_FRAME_SIZE"
proof -
  assume "CalcFrameSize_pre n"
  then have n: "n \<le> 250" by (simp add: CalcFrameSize_pre_def link_consts)
  then have "(n + 15) div 16 \<le> 265 div 16" by (intro div_le_mono) simp
  with n show ?thesis by (simp add: CalcFrameSize_body_len body_len_def link_consts)
qed

lemma length_encode_body: "length (encode_body xs) = body_len (length xs)"
proof (induction xs rule: encode_body.induct)
  case (1 xs)
  then show ?case
    by (subst encode_body.simps) (auto simp: body_len_step [of "length xs"] min_def)
qed

lemma WriteUserData_bytes:
  "soff + n \<le> length src \<Longrightarrow> doff + body_len n \<le> length dst \<Longrightarrow>
   WriteUserData src soff dst doff n = blit dst doff (encode_body (take n (drop soff src)))"
proof (induction src soff dst doff n rule: WriteUserData.induct)
  case (1 src soff dst doff n)
  show ?case
  proof (cases "n = 0")
    case True
    then show ?thesis using "1.prems" by (simp add: WriteUserData.simps encode_body.simps)
  next
    case False
    let ?num = "min n 16" let ?xs = "take n (drop soff src)" let ?b = "take ?num ?xs"
    have num: "(if n > LS_DATA_BLOCK_SIZE then LS_DATA_BLOCK_SIZE else n) = ?num"
      by (simp add: link_consts min_def)
    have b: "take ?num (drop soff src) = ?b" "length ?b = ?num" using "1.prems" by simp_all
    have len: "body_len n = ?num + 2 + body_len (n - ?num)" using False by (simp add: body_len_step)
    have seal: "AddCrc (blit dst doff ?b) doff ?num = blit dst doff (sealed ?b)"
      using AddCrc_blit [of doff ?b dst] "1.prems" len b(2) by simp
    then have "WriteUserData src soff dst doff n
        = WriteUserData src (soff + ?num) (blit dst doff (sealed ?b)) (doff + ?num + 2) (n - ?num)"
      using False by (subst WriteUserData.simps) (simp add: Let_def num b(1) del: take_take)
    also have "\<dots> = blit (blit dst doff (sealed ?b)) (doff + ?num + 2) (encode_body (drop ?num ?xs))"
    proof -
      have "take (n - ?num) (drop (soff + ?num) src) = drop ?num ?xs"
        by (simp add: drop_take add.commute)
      then show ?thesis
        using "1.IH" [OF False refl refl refl] "1.prems" len b(2) False
        by (simp add: num b(1) seal del: take_take)
    qed
    also have "\<dots> = blit dst doff (sealed ?b @ encode_body (drop ?num ?xs))"
      using blit_append [of doff "sealed ?b" dst] "1.prems" len b(2) by (simp add: add.assoc)
    also have "sealed ?b @ encode_body (drop ?num ?xs) = encode_body ?xs"
      using False "1.prems" by (subst (2) encode_body.simps) (auto simp: min_def encode_body.simps)
    finally show ?thesis .
  qed
qed

section \<open>Checking and reading a body\<close>

text \<open>A block passes the check exactly when it is the sealed form of its data.\<close>

lemma UInt16LE_Read_bytes:
  "off + 2 \<le> length p \<Longrightarrow>
   [p ! off, p ! Suc off] = [ucast (UInt16LE_Read p off AND 0xFF), ucast (drop_bit 8 (UInt16LE_Read p off) AND 0xFF)]"
proof -
  have "ucast ((ucast a OR push_bit 8 (ucast b) :: u16) AND mask 8) = a" for a b :: byte
    by (rule bit_word_eqI) (auto simp: bit_simps)
  moreover have "ucast (drop_bit 8 (ucast a OR push_bit 8 (ucast b) :: u16) AND mask 8) = b" for a b :: byte
    by (rule bit_word_eqI) (auto simp: bit_simps dest: byte_bit_high)
  ultimately show ?thesis by (simp add: UInt16LE_Read_def mask8)
qed

lemma ucast_u16_u32: "ucast (ucast (v :: u16) :: u32) = v"
  by (rule bit_word_eqI) (simp add: bit_simps)

lemma IsCorrectCRC_iff_sealed:
  assumes "off + n + 2 \<le> length p"
  shows "IsCorrectCRC p off n \<longleftrightarrow> take (n + 2) (drop off p) = sealed (take n (drop off p))"
proof -
  let ?b = "take n (drop off p)"
  have lb: "length ?b = n" using assms by simp
  have crc: "CalcCrc p off n = CalcCrc ?b 0 n" by (rule CalcCrc_cong) simp
  have "take (n + 2) (drop off p) = ?b @ take 2 (drop (off + n) p)"
    by (metis add.commute drop_drop take_add)
  also have "take 2 (drop (off + n) p) = [p ! (off + n), p ! Suc (off + n)]"
    using assms by (simp add: numeral_2_eq_2 take_Suc_conv_app_nth)
  finally have split: "take (n + 2) (drop off p) = ?b @ [p ! (off + n), p ! Suc (off + n)]" .
  show ?thesis
  proof
    assume "IsCorrectCRC p off n"
    then have "ucast (UInt16LE_Read p (off + n)) = CalcCrc ?b 0 n"
      using crc by (simp add: IsCorrectCRC_def)
    then have "UInt16LE_Read p (off + n) = ucast (CalcCrc ?b 0 n)"
      by (metis ucast_u16_u32)
    then show "take (n + 2) (drop off p) = sealed ?b"
      using UInt16LE_Read_bytes [of "off + n" p] assms split lb
      by (simp add: sealed_def crc_bytes_def crc_low_byte crc_high_byte Let_def)
  next
    assume "take (n + 2) (drop off p) = sealed ?b"
    then have "IsCorrectCRC p off n = IsCorrectCRC (blit (sealed ?b) 0 (sealed ?b)) 0 n"
      by (intro IsCorrectCRC_cong) (use assms lb in \<open>simp_all add: blit_def\<close>)
    then show "IsCorrectCRC p off n"
      using IsCorrectCRC_sealed [of 0 ?b "sealed ?b"] lb by simp
  qed
qed

text \<open>Two sealed blocks of the same length never differ in one byte only.\<close>

lemma crc_bytes_inj:
  assumes "crc_bytes xs = crc_bytes ys"
  shows "crc_state xs = crc_state ys"
proof -
  let ?c = "\<lambda>xs. CalcCrc xs 0 (length xs)"
  have "ucast (?c xs) = (ucast (?c ys) :: u16)"
    using assms byte_parts16 [of "ucast (?c xs)"] byte_parts16 [of "ucast (?c ys)"]
    by (simp add: crc_bytes_def Let_def crc_low_byte crc_high_byte)
  then have "?c xs = ?c ys" by (metis ucast_CalcCrc)
  then show ?thesis
    using not_mask16_inj [OF fits16_state fits16_state] by (simp add: CalcCrc_state)
qed

lemma sealed_one_byte:
  assumes "sealed ys = (sealed xs)[i := b]" and "length ys = length xs" and "i < length xs + 2"
  shows "sealed xs ! i = b"
proof (cases "i < length xs")
  case True
  then have ys: "ys = xs[i := b]" and crc: "crc_bytes ys = crc_bytes xs"
    using assms by (auto simp: sealed_def list_update_append)
  have "xs = take i xs @ xs ! i # drop (Suc i) xs" "ys = take i xs @ b # drop (Suc i) xs"
    using True ys by (simp_all add: id_take_nth_drop upd_conv_take_nth_drop)
  then have "xs ! i = b"
    using crc_bytes_inj [OF crc] crc_state_one_byte by metis
  with True show ?thesis by (simp add: sealed_def nth_append)
next
  case False
  then have "ys = xs" using assms by (auto simp: sealed_def list_update_append)
  with assms show ?thesis by (metis length_sealed nth_list_update_eq)
qed

lemma IsCorrectCRC_one_byte:
  assumes "IsCorrectCRC p off n" and "IsCorrectCRC (p[i := b]) off n"
    and "off \<le> i" and "i < off + n + 2" and "off + n + 2 \<le> length p"
  shows "p ! i = b"
proof -
  let ?x = "take n (drop off p)" let ?y = "take n (drop off (p[i := b]))"
  have "take (n + 2) (drop off (p[i := b])) = (take (n + 2) (drop off p))[i - off := b]"
    using assms(3) by (simp add: drop_update_swap take_update_swap)
  then have "sealed ?y = (sealed ?x)[i - off := b]"
    using assms(1,2,5) by (simp add: IsCorrectCRC_iff_sealed)
  then have "sealed ?x ! (i - off) = b"
    by (rule sealed_one_byte) (use assms in auto)
  moreover have "sealed ?x ! (i - off) = p ! i"
  proof -
    have "sealed ?x = take (n + 2) (drop off p)" using assms by (simp add: IsCorrectCRC_iff_sealed)
    then show ?thesis using assms by simp
  qed
  ultimately show ?thesis by simp
qed

lemma IsCorrectCRC_outside:
  "i < off \<or> off + n + 2 \<le> i \<Longrightarrow> off + n + 2 \<le> length p \<Longrightarrow> IsCorrectCRC (p[i := b]) off n = IsCorrectCRC p off n"
  by (rule IsCorrectCRC_cong) (auto intro: nth_equalityI)

text \<open>The same for whole bodies.\<close>

lemma ValidateBodyCRC_step:
  "0 < n \<Longrightarrow> ValidateBodyCRC p off n \<longleftrightarrow>
     IsCorrectCRC p off (min n 16) \<and> ValidateBodyCRC p (off + min n 16 + 2) (n - min n 16)"
  by (subst ValidateBodyCRC.simps) (auto simp: link_consts Let_def min_def)

lemma ValidateBodyCRC_0 [simp]: "ValidateBodyCRC p off 0"
  by (simp add: ValidateBodyCRC.simps)

lemma ValidateBodyCRC_cong:
  "take (body_len n) (drop off p) = take (body_len n) (drop off' q) \<Longrightarrow>
   off + body_len n \<le> length p \<Longrightarrow> off' + body_len n \<le> length q \<Longrightarrow>
   ValidateBodyCRC p off n = ValidateBodyCRC q off' n"
proof (induction n arbitrary: off off' rule: less_induct)
  case (less n)
  show ?case
  proof (cases "n = 0")
    case False
    let ?k = "min n 16 + 2" let ?r = "body_len (n - min n 16)"
    have len: "body_len n = ?k + ?r" using False by (simp add: body_len_step)
    note eq = less.prems(1) [unfolded len]
    have "take ?k (drop off p) = take ?k (drop off' q)"
      using arg_cong [OF eq, of "take ?k"] by (simp add: min_def split: if_splits)
    then have "IsCorrectCRC p off (min n 16) = IsCorrectCRC q off' (min n 16)"
      by (rule IsCorrectCRC_cong) (use less.prems len in auto)
    moreover have "take ?r (drop (off + ?k) p) = take ?r (drop (off' + ?k) q)"
      using arg_cong [OF eq, of "drop ?k"] by (simp add: drop_take add.commute)
    then have "ValidateBodyCRC p (off + ?k) (n - min n 16) = ValidateBodyCRC q (off' + ?k) (n - min n 16)"
      using less.prems len False by (intro less.IH) auto
    ultimately show ?thesis using False by (simp add: ValidateBodyCRC_step)
  qed simp
qed

lemma ValidateBodyCRC_one_byte:
  "ValidateBodyCRC p off n \<Longrightarrow> ValidateBodyCRC (p[i := b]) off n \<Longrightarrow> off \<le> i \<Longrightarrow> i < off + body_len n \<Longrightarrow>
   off + body_len n \<le> length p \<Longrightarrow> p ! i = b"
proof (induction n arbitrary: off rule: less_induct)
  case (less n)
  then have n: "0 < n" by (cases "n = 0") auto
  let ?k = "min n 16 + 2"
  have len: "body_len n = ?k + body_len (n - min n 16)" using n by (simp add: body_len_step)
  show ?case
  proof (cases "i < off + ?k")
    case True
    then show ?thesis
      using IsCorrectCRC_one_byte [of p off "min n 16" i b] less.prems n len
      by (simp add: ValidateBodyCRC_step)
  next
    case False
    then show ?thesis
      using less.IH [of "n - min n 16" "off + ?k"] less.prems n len
      by (simp add: ValidateBodyCRC_step)
  qed
qed

text \<open>The user data among the bytes of a body: the blocks without their check bytes.\<close>

function body_data :: "bytes \<Rightarrow> nat \<Rightarrow> bytes" where
  "body_data xs n =
     (if n = 0 then [] else take (min n 16) xs @ body_data (drop (min n 16 + 2) xs) (n - min n 16))"
  by pat_completeness auto
termination
  by (relation "measure snd") auto

declare body_data.simps [simp del]

lemma body_data_0 [simp]: "body_data xs 0 = []"
  by (simp add: body_data.simps)

lemma length_body_data: "body_len n \<le> length xs \<Longrightarrow> length (body_data xs n) = n"
proof (induction n arbitrary: xs rule: less_induct)
  case (less n)
  then show ?case
    by (cases "n = 0") (auto simp: body_data.simps [of xs n] body_len_step min_def)
qed

lemma body_data_take:
  "body_len n \<le> k \<Longrightarrow> body_data (take k xs) n = body_data xs n"
proof (induction n arbitrary: k xs rule: less_induct)
  case (less n)
  show ?case
  proof (cases "n = 0")
    case False
    then have "body_len n = min n 16 + 2 + body_len (n - min n 16)" by (simp add: body_len_step)
    then have "body_len (n - min n 16) + (min n 16 + 2) \<le> k" using less.prems by simp
    then have "body_len (n - min n 16) \<le> k - (min n 16 + 2)" and k: "min n 16 \<le> k"
      by (rule add_le_imp_le_diff) (use less.prems body_len_le [of n] in \<open>simp add: min_def\<close>)
    then have "body_data (take (k - (min n 16 + 2)) (drop (min n 16 + 2) xs)) (n - min n 16)
        = body_data (drop (min n 16 + 2) xs) (n - min n 16)"
      using False by (intro less.IH) auto
    then show ?thesis
      using k False by (simp add: body_data.simps [of _ n] drop_take min_absorb1)
  qed simp
qed

lemma body_data_append: "body_len n \<le> length xs \<Longrightarrow> body_data (xs @ ys) n = body_data xs n"
  using body_data_take [of n "length xs" "xs @ ys"] by simp

lemma body_data_encode_body: "body_data (encode_body xs) (length xs) = xs"
proof (induction xs rule: encode_body.induct)
  case (1 xs)
  show ?case
  proof (cases "xs = []")
    case False
    have "drop (min (length xs) 16 + 2) (sealed (take 16 xs) @ encode_body (drop 16 xs)) = encode_body (drop 16 xs)"
      by simp
    moreover have "take (min (length xs) 16) (sealed (take 16 xs) @ encode_body (drop 16 xs)) = take 16 xs"
      by (cases "length xs \<le> 16") (auto simp: sealed_def)
    ultimately show ?thesis
      using "1.IH" False
      by (simp add: body_data.simps [of "encode_body xs"]) (simp add: encode_body.simps [of xs] min_def split: if_splits)
  qed simp
qed

lemma ReadUserData_data:
  "soff + body_len n \<le> length src \<Longrightarrow> doff + n \<le> length dst \<Longrightarrow>
   ReadUserData src soff dst doff n = blit dst doff (body_data (drop soff src) n)"
proof (induction n arbitrary: soff dst doff rule: less_induct)
  case (less n)
  show ?case
  proof (cases "n = 0")
    case True
    then show ?thesis using less.prems by (simp add: ReadUserData.simps)
  next
    case False
    let ?k = "min n 16" let ?b = "take ?k (drop soff src)"
    have len: "body_len n = ?k + 2 + body_len (n - ?k)" using False by (simp add: body_len_step)
    have num: "(if n \<le> LS_DATA_BLOCK_SIZE then n else LS_DATA_BLOCK_SIZE) = ?k"
      by (simp add: link_consts)
    have lb: "length ?b = ?k" using less.prems len by simp
    have "ReadUserData src soff dst doff n
        = ReadUserData src (soff + (?k + 2)) (blit dst doff ?b) (doff + ?k) (n - ?k)"
      using False by (subst ReadUserData.simps) (simp add: Let_def num)
    also have "\<dots> = blit (blit dst doff ?b) (doff + ?k) (body_data (drop (soff + (?k + 2)) src) (n - ?k))"
      using less.prems len lb False by (intro less.IH) auto
    also have "\<dots> = blit dst doff (?b @ body_data (drop (?k + 2) (drop soff src)) (n - ?k))"
      using blit_append [of doff ?b dst] less.prems lb False by (simp add: add.commute)
    also have "?b @ body_data (drop (?k + 2) (drop soff src)) (n - ?k) = body_data (drop soff src) n"
      using False by (simp add: body_data.simps [of _ n])
    finally show ?thesis .
  qed
qed

lemma ValidateBodyCRC_encode_body:
  "take (body_len (length xs)) (drop off p) = encode_body xs \<Longrightarrow> off + body_len (length xs) \<le> length p \<Longrightarrow>
   ValidateBodyCRC p off (length xs)"
proof (induction xs arbitrary: off rule: encode_body.induct)
  case (1 xs)
  show ?case
  proof (cases "xs = []")
    case False
    let ?k = "min (length xs) 16" let ?b = "take 16 xs" let ?r = "drop 16 xs"
    have len: "body_len (length xs) = ?k + 2 + body_len (length ?r)"
      using False by (simp add: body_len_step min_def)
    have eq: "take (body_len (length xs)) (drop off p) = sealed ?b @ encode_body ?r"
      using "1.prems"(1) False by (simp add: encode_body.simps [of xs])
    have lb: "length (sealed ?b) = ?k + 2" by (simp add: min.commute)
    have s: "take (?k + 2) (drop off p) = sealed ?b"
      using arg_cong [OF eq, of "take (?k + 2)"] lb len by simp
    have "take ?k (sealed ?b) = ?b" by (cases "length xs \<le> 16") (auto simp: sealed_def)
    then have "take ?k (drop off p) = ?b"
      using arg_cong [OF s, of "take ?k"] by (simp add: min_def)
    then have "IsCorrectCRC p off ?k"
      using s "1.prems" len by (subst IsCorrectCRC_iff_sealed) auto
    moreover have "take (body_len (length ?r)) (drop (off + ?k + 2) p) = encode_body ?r"
      using arg_cong [OF eq, of "drop (?k + 2)"] lb len by (simp add: drop_take add.commute)
    then have "ValidateBodyCRC p (off + ?k + 2) (length ?r)"
      using "1.IH" [OF False] "1.prems" len by simp
    moreover have "length ?r = length xs - ?k" by simp
    ultimately show ?thesis using False ValidateBodyCRC_step [of "length xs" p off] by simp
  qed simp
qed

section \<open>What the formatting functions produce\<close>

definition frame_ok :: "LinkFrame \<Rightarrow> bool" where
  "frame_ok f \<longleftrightarrow> length (lf_buffer f) = LS_MAX_FRAME_SIZE"

text \<open>The header the formatting functions fill in.\<close>

definition formatted_header ::
  "nat \<Rightarrow> bool \<Rightarrow> bool \<Rightarrow> bool \<Rightarrow> FuncCodes \<Rightarrow> u16 \<Rightarrow> u16 \<Rightarrow> LinkHeader" where
  "formatted_header n aIsMaster aFcb aFcvDfc aCode aDest aSrc =
     \<lparr>lh_length = of_nat (n + 5), lh_src = aSrc, lh_dest = aDest,
      lh_ctrl = ControlByte aIsMaster aFcb aFcvDfc aCode\<rparr>"

lemma LinkHeader_Set_all:
  "LinkHeader_Set (of_nat n + 5) s d m v b c h = formatted_header n m b v c d s"
  by (cases h) (simp add: LinkHeader_Set_def formatted_header_def)

text \<open>A frame whose buffer starts with these header bytes and the body of this user data.\<close>

definition carries :: "LinkFrame \<Rightarrow> LinkHeader \<Rightarrow> bytes \<Rightarrow> bool" where
  "carries f h xs \<longleftrightarrow> frame_ok f \<and> lf_complete f \<and> lf_header f = h \<and> lf_size f = CalcFrameSize (length xs) \<and>
     frame_bytes f = header_bytes h @ encode_body xs"

lemma FormatHeader_result:
  assumes "frame_ok f" and "n \<le> 250"
  shows "FormatHeader n m b v c d s f =
    (None, let h = formatted_header n m b v c d s in
      f\<lparr>lf_size := CalcFrameSize n, lf_header := h, lf_buffer := blit (lf_buffer f) 0 (header_bytes h),
        lf_complete := True\<rparr>)"
  using assms
  by (simp add: FormatHeader_def handler_simps CalcFrameSize_pre_def LinkHeader_Write_bytes frame_ok_def
      link_consts LinkHeader_Set_all Let_def)

lemma FormatHeader_carries:
  assumes "frame_ok f"
  shows "fst (FormatHeader 0 m b v c d s f) = None"
    and "carries (snd (FormatHeader 0 m b v c d s f)) (formatted_header 0 m b v c d s) []"
  using assms
  by (simp_all add: FormatHeader_result Let_def carries_def frame_ok_def link_consts CalcFrameSize_body_len
      frame_bytes_def blit_def encode_body.simps)

lemma body_len_250: "n \<le> 250 \<Longrightarrow> 10 + body_len n \<le> 292"
  using CalcFrameSize_le [of n] by (simp add: CalcFrameSize_body_len CalcFrameSize_pre_def link_consts)

text \<open>The body of the two functions that send user data.\<close>

lemma format_user_data:
  assumes "frame_ok f" and "0 < n" and "n \<le> 250" and "n \<le> length xs"
    and g_def: "g = in_order [assert_that (\<lambda>_. n > 0), assert_that (\<lambda>_. n \<le> 250), FormatHeader n m b v c d s,
      modify (\<lambda>f. f\<lparr>lf_buffer := WriteUserData xs 0 (lf_buffer f) LS_HEADER_SIZE n\<rparr>)] f"
  shows "fst g = None \<and> carries (snd g) (formatted_header n m b v c d s) (take n xs)"
proof -
  let ?h = "formatted_header n m b v c d s" let ?e = "encode_body (take n xs)"
  have len: "length ?e = body_len n" "10 + body_len n \<le> 292"
    using assms by (simp_all add: length_encode_body body_len_250)
  have buf: "length (lf_buffer f) = 292" using assms(1) by (simp add: frame_ok_def link_consts)
  have "WriteUserData xs 0 (blit (lf_buffer f) 0 (header_bytes ?h)) 10 n
      = blit (lf_buffer f) 0 (header_bytes ?h @ ?e)"
    using WriteUserData_bytes [of 0 n xs 10 "blit (lf_buffer f) 0 (header_bytes ?h)"] assms(4) len buf
      blit_append [of 0 "header_bytes ?h" "lf_buffer f" ?e] by simp
  then have g: "g = (None, f\<lparr>lf_size := CalcFrameSize n, lf_header := ?h,
      lf_buffer := blit (lf_buffer f) 0 (header_bytes ?h @ ?e), lf_complete := True\<rparr>)"
    using assms by (simp add: g_def handler_simps FormatHeader_result Let_def link_consts)
  show ?thesis
    using assms(4) len buf unfolding g
    by (simp add: carries_def frame_ok_def link_consts frame_bytes_def CalcFrameSize_body_len blit_def)
qed

lemma FormatConfirmedUserData_carries:
  assumes "frame_ok f" "0 < n" "n \<le> 250" "n \<le> length xs"
  shows "fst (FormatConfirmedUserData m b d s xs n f) = None"
    and "carries (snd (FormatConfirmedUserData m b d s xs n f))
      (formatted_header n m b True FC_PRI_CONFIRMED_USER_DATA d s) (take n xs)"
  using format_user_data [OF assms refl] by (simp_all add: FormatConfirmedUserData_def)

lemma FormatUnconfirmedUserData_carries:
  assumes "frame_ok f" "0 < n" "n \<le> 250" "n \<le> length xs"
  shows "fst (FormatUnconfirmedUserData m d s xs n f) = None"
    and "carries (snd (FormatUnconfirmedUserData m d s xs n f))
      (formatted_header n m False False FC_PRI_UNCONFIRMED_USER_DATA d s) (take n xs)"
  using format_user_data [OF assms refl] by (simp_all add: FormatUnconfirmedUserData_def)

text \<open>Changing the FCB of a frame rewrites the header and leaves the body alone.\<close>

lemma bit_mask_5: "bit (0x20 :: byte) n \<longleftrightarrow> n = 5"
proof -
  have "(0x20 :: byte) = push_bit 5 1" by simp
  then show ?thesis by (simp only: bit_push_bit_iff bit_1_iff) auto
qed

lemma ControlByte_ChangeFCB:
  assumes "lh_ctrl h = ControlByte m b v c" and "c \<noteq> FC_INVALID"
  shows "lh_ctrl (LinkHeader_ChangeFCB x h) = ControlByte m x v c"
proof -
  have "FuncCodeByte c AND NOT 0x20 = FuncCodeByte c" using assms(2) by (cases c; simp)
  then show ?thesis
    using assms(1) by (cases x; cases b)
      (simp_all add: LinkHeader_ChangeFCB_def ControlByte_or link_consts and_or_distrib or.assoc or.commute or.left_commute)
qed

text \<open>The frame the formatting functions leave: the previous one, overwritten.\<close>

definition formatted :: "LinkHeader \<Rightarrow> bytes \<Rightarrow> LinkFrame \<Rightarrow> LinkFrame" where
  "formatted h xs f = f\<lparr>lf_size := CalcFrameSize (length xs), lf_header := h,
     lf_buffer := blit (lf_buffer f) 0 (header_bytes h @ encode_body xs), lf_complete := True\<rparr>"

lemma formatted_fits:
  "frame_ok f \<Longrightarrow> length xs \<le> 250 \<Longrightarrow> length (header_bytes h @ encode_body xs) \<le> length (lf_buffer f)"
  using body_len_250 [of "length xs"] by (simp add: frame_ok_def link_consts length_encode_body)

lemma formatted_ok [simp]: "frame_ok f \<Longrightarrow> length xs \<le> 250 \<Longrightarrow> frame_ok (formatted h xs f)"
  using formatted_fits [of f xs h] by (simp add: formatted_def frame_ok_def)

lemma formatted_carries: "frame_ok f \<Longrightarrow> length xs \<le> 250 \<Longrightarrow> carries (formatted h xs f) h xs"
  using formatted_fits [of f xs h] formatted_ok [of f xs h]
  by (simp add: carries_def) (simp add: formatted_def frame_bytes_def CalcFrameSize_body_len blit_def length_encode_body)

lemma FormatHeader_formatted:
  "frame_ok f \<Longrightarrow> FormatHeader 0 m b v c d s f = (None, formatted (formatted_header 0 m b v c d s) [] f)"
  by (simp add: FormatHeader_result Let_def formatted_def encode_body.simps)

lemma write_user_data_formatted:
  assumes "frame_ok f" and "xs \<noteq> []" and "length xs \<le> 250"
  shows "in_order [assert_that (\<lambda>_. length xs > 0), assert_that (\<lambda>_. length xs \<le> 250),
      FormatHeader (length xs) m b v c d s,
      modify (\<lambda>f. f\<lparr>lf_buffer := WriteUserData xs 0 (lf_buffer f) LS_HEADER_SIZE (length xs)\<rparr>)] f
    = (None, formatted (formatted_header (length xs) m b v c d s) xs f)"
proof -
  let ?h = "formatted_header (length xs) m b v c d s"
  have len: "10 + body_len (length xs) \<le> length (lf_buffer f)"
    using formatted_fits [OF assms(1,3), of ?h] by (simp add: length_encode_body)
  have "WriteUserData xs 0 (blit (lf_buffer f) 0 (header_bytes ?h)) 10 (length xs)
      = blit (lf_buffer f) 0 (header_bytes ?h @ encode_body xs)"
    using WriteUserData_bytes [of 0 "length xs" xs 10 "blit (lf_buffer f) 0 (header_bytes ?h)"] len
      blit_append [of 0 "header_bytes ?h" "lf_buffer f" "encode_body xs"] by simp
  then show ?thesis
    using assms by (simp add: handler_simps FormatHeader_result Let_def LS_HEADER_SIZE_def formatted_def)
qed

lemmas format_results =
  FormatHeader_formatted
  write_user_data_formatted [of _ _ m b True FC_PRI_CONFIRMED_USER_DATA d s for m b d s, folded FormatConfirmedUserData_def]
  write_user_data_formatted [of _ _ m False False FC_PRI_UNCONFIRMED_USER_DATA d s for m d s, folded FormatUnconfirmedUserData_def]

lemma ChangeFCB_eq:
  "LinkFrame_ChangeFCB x g = (None, if IsFcbSet (lf_header g) = x then g
     else g\<lparr>lf_header := LinkHeader_ChangeFCB x (lf_header g),
            lf_buffer := LinkHeader_Write (LinkHeader_ChangeFCB x (lf_header g)) (lf_buffer g)\<rparr>)"
  by (simp add: LinkFrame_ChangeFCB_def handler_simps)

lemma ChangeFCB_formatted:
  assumes "frame_ok f" and "length xs \<le> 250" and "c \<noteq> FC_INVALID"
  shows "LinkFrame_ChangeFCB x (formatted (formatted_header n m b v c d s) xs f)
    = (None, formatted (formatted_header n m x v c d s) xs f)"
proof -
  let ?h = "formatted_header n m b v c d s" and ?h' = "formatted_header n m x v c d s"
  have ctrl: "lh_ctrl ?h = ControlByte m b v c" by (simp add: formatted_header_def)
  have fcb: "IsFcbSet ?h = b" by (rule ControlByte_fields(2) [OF ctrl assms(3)])
  have new: "LinkHeader_ChangeFCB x ?h = ?h'"
    using ControlByte_ChangeFCB [OF ctrl assms(3), of x]
    by (simp add: LinkHeader_ChangeFCB_def formatted_header_def split: if_splits)
  have len: "10 + length (encode_body xs) \<le> length (lf_buffer f)"
    using formatted_fits [OF assms(1,2), of ?h] by simp
  have "LinkHeader_Write ?h' (blit (lf_buffer f) 0 (header_bytes ?h @ encode_body xs))
      = blit (lf_buffer f) 0 (header_bytes ?h' @ encode_body xs)"
    using len by (simp add: LinkHeader_Write_bytes blit_def)
  then have same: "(formatted ?h xs f)\<lparr>lf_header := ?h',
      lf_buffer := LinkHeader_Write ?h' (lf_buffer (formatted ?h xs f))\<rparr> = formatted ?h' xs f"
    by (simp add: formatted_def)
  have hdr: "lf_header (formatted ?h xs f) = ?h" by (simp add: formatted_def)
  show ?thesis
  proof (cases "b = x")
    case False
    then show ?thesis by (simp only: ChangeFCB_eq hdr fcb if_False new same)
  next
    case True
    then show ?thesis using fcb hdr by (simp only: ChangeFCB_eq if_True simp_thms)
  qed
qed

section \<open>Checking a formatted frame\<close>

lemma take_header: "take 10 p = header_bytes h \<Longrightarrow> 10 \<le> length p \<Longrightarrow> IsCorrectCRC p 0 8"
proof -
  assume p: "take 10 p = header_bytes h" "10 \<le> length p"
  have "take 8 p = header_block h"
    using arg_cong [OF p(1), of "take 8"] by (simp add: header_bytes_def sealed_def)
  with p show ?thesis by (subst IsCorrectCRC_iff_sealed) (simp_all add: header_bytes_def)
qed

lemma LinkHeader_Read_take:
  assumes "take 10 (drop off p) = header_bytes h" and "off + 10 \<le> length p"
  shows "LinkHeader_Read p off h' = h"
proof -
  have "p = take off p @ header_bytes h @ drop (off + 10) p"
    using assms(1) by (metis add.commute append_take_drop_id drop_drop)
  moreover have "length (take off p) = off" using assms(2) by simp
  ultimately show ?thesis using LinkHeader_Read_bytes [of "take off p" h] by metis
qed

lemma carries_size: "carries f h xs \<Longrightarrow> lf_size f = 10 + body_len (length xs) \<and> lf_size f \<le> length (lf_buffer f)"
proof -
  assume c: "carries f h xs"
  then have "length (frame_bytes f) = 10 + body_len (length xs)"
    by (simp add: carries_def length_encode_body)
  with c show ?thesis by (simp add: carries_def CalcFrameSize_body_len frame_bytes_def)
qed

lemma carries_parts:
  assumes "carries f h xs"
  shows "take 10 (lf_buffer f) = header_bytes h"
    and "take (body_len (length xs)) (drop 10 (lf_buffer f)) = encode_body xs"
proof -
  have "take (lf_size f) (lf_buffer f) = header_bytes h @ encode_body xs"
    using assms unfolding carries_def frame_bytes_def by blast
  then have eq: "take (10 + body_len (length xs)) (lf_buffer f) = header_bytes h @ encode_body xs"
    using carries_size [OF assms] by simp
  show "take 10 (lf_buffer f) = header_bytes h" using arg_cong [OF eq, of "take 10"] by simp
  show "take (body_len (length xs)) (drop 10 (lf_buffer f)) = encode_body xs"
    using arg_cong [OF eq, of "drop 10"] by (simp add: drop_take)
qed

lemma carries_checks:
  assumes "carries f h xs"
  shows "IsCorrectCRC (lf_buffer f) 0 8" and "ValidateBodyCRC (lf_buffer f) 10 (length xs)"
    and "LinkHeader_Read (lf_buffer f) 0 h' = h"
    and "length xs \<le> length dst \<Longrightarrow> ReadUserData (lf_buffer f) 10 dst 0 (length xs) = blit dst 0 xs"
proof -
  note parts = carries_parts [OF assms] and size = carries_size [OF assms]
  then have len: "10 + body_len (length xs) \<le> length (lf_buffer f)" by simp
  show "IsCorrectCRC (lf_buffer f) 0 8" using parts(1) len by (intro take_header) auto
  show "ValidateBodyCRC (lf_buffer f) 10 (length xs)"
    using parts(2) len by (rule ValidateBodyCRC_encode_body)
  show "LinkHeader_Read (lf_buffer f) 0 h' = h"
    using parts(1) len by (intro LinkHeader_Read_take) auto
  have "body_data (drop 10 (lf_buffer f)) (length xs) = xs"
    using parts(2) body_data_take [of "length xs" "body_len (length xs)" "drop 10 (lf_buffer f)"]
    by (simp add: body_data_encode_body)
  then show "ReadUserData (lf_buffer f) 10 dst 0 (length xs) = blit dst 0 xs" if "length xs \<le> length dst"
    using ReadUserData_data [of 10 "length xs" "lf_buffer f" 0 dst] len that by simp
qed

lemma carries_one_byte:
  assumes "carries f h xs" and "i < lf_size f" and "lf_buffer f ! i \<noteq> b"
  shows "\<not> (IsCorrectCRC ((lf_buffer f)[i := b]) 0 8 \<and> ValidateBodyCRC ((lf_buffer f)[i := b]) 10 (length xs))"
  using assms carries_checks [OF assms(1)] carries_size [OF assms(1)]
    IsCorrectCRC_one_byte [of "lf_buffer f" 0 8 i b] ValidateBodyCRC_one_byte [of "lf_buffer f" 10 "length xs" i b]
  by (cases "i < 10") auto

lemma formatted_length: "n \<le> 250 \<Longrightarrow> unat (lh_length (formatted_header n m b v c d s)) = n + 5"
  unfolding formatted_header_def by (simp only: LinkHeader.simps unat_of_nat) simp

lemma body_length_arg:
  "unat (k :: byte) = n + 5 \<Longrightarrow> nat ((int (unat k) - int LS_MIN_LENGTH) mod 2 ^ 64) = n"
proof -
  assume k: "unat k = n + 5"
  then have "n < 2 ^ 64" using unsigned_less [of k, where 'a = nat] by simp
  with k show ?thesis by (simp add: link_consts)
qed

section \<open>Properties\<close>

text \<open>A frame in the state its constructor leaves, its buffer (uninitialised in the code) zeroed.\<close>

definition blank_frame :: LinkFrame where
  "blank_frame = \<lparr>lf_complete = False, lf_size = 0,
     lf_header = \<lparr>lh_length = 0, lh_src = 0, lh_dest = 0, lh_ctrl = 0\<rparr>, lf_buffer = replicate 292 0\<rparr>"

lemma frame_ok_blank: "frame_ok blank_frame"
  by (simp add: frame_ok_def blank_frame_def link_consts)

text \<open>C3: Formatting a confirmed-user-data frame for up to 250 bytes and reading the bytes that go on
  the wire back yields what was put in: the control fields, the addresses, the length, a size within
  the frame buffer, passing header and body checks, and the user data itself.\<close>

theorem user_data_frame_round_trip:
  assumes "frame_ok f" and "0 < length xs" and "length xs \<le> 250" and "length xs \<le> length dst"
    and g: "g = snd (FormatConfirmedUserData aIsMaster aFcb aDest aSrc xs (length xs) f)"
  shows "let p = lf_buffer g; h = LinkHeader_Read p 0 h0 in
    fst (FormatConfirmedUserData aIsMaster aFcb aDest aSrc xs (length xs) f) = None
    \<and> lf_size g = CalcFrameSize (length xs) \<and> lf_size g \<le> LS_MAX_FRAME_SIZE
    \<and> GetFuncEnum h = FC_PRI_CONFIRMED_USER_DATA \<and> IsPriToSec h
    \<and> IsFromMaster h = aIsMaster \<and> IsFcbSet h = aFcb \<and> IsFcvDfcSet h
    \<and> lh_dest h = aDest \<and> lh_src h = aSrc \<and> unat (lh_length h) = length xs + LS_MIN_LENGTH
    \<and> ValidateHeaderCRC g \<and> LinkFrame_ValidateBodyCRC g
    \<and> ReadUserData p LS_HEADER_SIZE dst 0 (length xs) = blit dst 0 xs"
proof -
  let ?h = "formatted_header (length xs) aIsMaster aFcb True FC_PRI_CONFIRMED_USER_DATA aDest aSrc"
  have c: "carries g ?h xs"
    using FormatConfirmedUserData_carries [OF assms(1-3) order_refl] by (simp add: g)
  have len: "unat (lh_length ?h) = length xs + 5"
    using assms(3) by (rule formatted_length)
  have ctrl: "lh_ctrl ?h = ControlByte aIsMaster aFcb True FC_PRI_CONFIRMED_USER_DATA"
    by (simp add: formatted_header_def)
  have prm: "FuncCodeByte FC_PRI_CONFIRMED_USER_DATA AND MASK_PRM \<noteq> 0" by (simp add: link_consts)
  have "ValidateHeaderCRC g"
    using carries_checks(1) [OF c] by (simp add: ValidateHeaderCRC_def IsCorrectCRC_def link_consts)
  moreover have "LinkFrame_ValidateBodyCRC g"
    using carries_checks(2) [OF c] c body_length_arg [OF len]
    by (simp add: LinkFrame_ValidateBodyCRC_def carries_def link_consts)
  moreover have "lf_size g \<le> LS_MAX_FRAME_SIZE"
    using c assms(3) CalcFrameSize_le [of "length xs"] by (simp add: carries_def CalcFrameSize_pre_def link_consts)
  moreover have "fst (FormatConfirmedUserData aIsMaster aFcb aDest aSrc xs (length xs) f) = None"
    by (rule FormatConfirmedUserData_carries(1) [OF assms(1-3) order_refl])
  moreover have "lf_size g = CalcFrameSize (length xs)" using c by (simp add: carries_def)
  moreover have "ReadUserData (lf_buffer g) LS_HEADER_SIZE dst 0 (length xs) = blit dst 0 xs"
    using carries_checks(4) [OF c assms(4)] by (simp add: link_consts)
  moreover have "lh_dest ?h = aDest" "lh_src ?h = aSrc" by (simp_all add: formatted_header_def)
  moreover have "unat (lh_length ?h) = length xs + LS_MIN_LENGTH" using len by (simp only: LS_MIN_LENGTH_def)
  moreover have ne: "FC_PRI_CONFIRMED_USER_DATA \<noteq> FC_INVALID" by simp
  moreover have "IsPriToSec ?h" "IsFcvDfcSet ?h"
    using ControlByte_fields(3,5) [OF ctrl ne] prm by simp_all
  ultimately show ?thesis
    unfolding Let_def carries_checks(3) [OF c]
    using ControlByte_fields(1,2,4) [OF ctrl ne] by (intro conjI)
qed

theorem user_data_frame_round_trip_witness:
  "let xs = [1, 2, 3]; g = snd (FormatConfirmedUserData True False 1024 1 xs (length xs) blank_frame);
       p = lf_buffer g
   in ReadUserData p LS_HEADER_SIZE (replicate 250 0) 0 (length xs) = blit (replicate 250 0) 0 xs"
proof -
  let ?xs = "[1, 2, 3] :: bytes"
  have "0 < length ?xs" "length ?xs \<le> 250" "length ?xs \<le> length (replicate 250 (0 :: byte))"
    by (simp_all only: length_replicate) simp_all
  then show ?thesis
    using user_data_frame_round_trip [OF frame_ok_blank, of ?xs "replicate 250 0" _ True False 1024 1, OF _ _ _ refl]
    unfolding Let_def by blast
qed

text \<open>No single corrupted byte of a formatted user-data frame passes the two checks the receiver
  makes, the one of the header and the one of the body, whichever byte it is and whatever its new
  value, the check bytes and the length byte included.\<close>

theorem one_byte_change_detected:
  assumes "frame_ok f" and "0 < length xs" and "length xs \<le> 250"
    and "g = snd (FormatUnconfirmedUserData aIsMaster aDest aSrc xs (length xs) f)"
    and "i < lf_size g" and "lf_buffer g ! i \<noteq> b"
  shows "\<not> (IsCorrectCRC ((lf_buffer g)[i := b]) 0 LI_CRC
    \<and> ValidateBodyCRC ((lf_buffer g)[i := b]) LS_HEADER_SIZE (length xs))"
proof -
  have "carries g (formatted_header (length xs) aIsMaster False False FC_PRI_UNCONFIRMED_USER_DATA aDest aSrc) xs"
    using FormatUnconfirmedUserData_carries(2) [OF assms(1-3) order_refl] assms(4) by simp
  then show ?thesis using carries_one_byte assms(5,6) by (simp add: link_consts)
qed

theorem one_byte_change_detected_witness:
  "let g = snd (FormatUnconfirmedUserData True 1024 1 [1, 2, 3] 3 blank_frame)
   in \<not> (IsCorrectCRC ((lf_buffer g)[0 := 7]) 0 LI_CRC \<and> ValidateBodyCRC ((lf_buffer g)[0 := 7]) LS_HEADER_SIZE 3)"
proof -
  let ?g = "snd (FormatUnconfirmedUserData True 1024 1 [1, 2, 3] 3 blank_frame)"
  have n: "length [1, 2, 3 :: byte] = 3" by simp
  have c: "carries ?g (formatted_header 3 True False False FC_PRI_UNCONFIRMED_USER_DATA 1024 1) [1, 2, 3]"
    using FormatUnconfirmedUserData_carries(2) [OF frame_ok_blank, of 3 "[1, 2, 3]" True 1024 1] by simp
  have "take 10 (lf_buffer ?g) ! 0 = 5"
    using carries_parts(1) [OF c] by (simp add: header_bytes_def sealed_def header_block_def)
  then have "lf_buffer ?g ! 0 \<noteq> 7" by simp
  moreover have "0 < lf_size ?g" using carries_size [OF c] by simp
  ultimately show ?thesis
    using one_byte_change_detected [OF frame_ok_blank, of "[1, 2, 3]" ?g True 1024 1 0 7, unfolded n]
    unfolding Let_def by simp
qed

end
