(* ===== verification/ShiftableBuffers.thy ===== *)
theory ShiftableBuffers
  imports Prelude
begin

text \<open>
  The receive buffer of the link layer (opendnp3/APL/ShiftableBuffer.h, .cpp): a fixed byte array
  with a read and a write position, a shift that recovers the bytes already read, and a search for
  a byte pattern. The abstract value of a buffer is the list of its unread bytes; every operation
  is characterised by what it does to that list.
\<close>

section \<open>The code\<close>

record ShiftableBuffer =
  sb_buffer :: bytes
  sb_size :: nat
  sb_write :: nat
  sb_read :: nat

text \<open>The constructor; the array is uninitialised in the code, any content of that length will do.\<close>

definition new_ShiftableBuffer :: "bytes \<Rightarrow> nat \<Rightarrow> ShiftableBuffer" where
  "new_ShiftableBuffer content aSize = \<lparr>sb_buffer = content, sb_size = aSize, sb_write = 0, sb_read = 0\<rparr>"

definition NumReadBytes :: "ShiftableBuffer \<Rightarrow> nat" where
  "NumReadBytes s = sb_write s - sb_read s"

definition NumWriteBytes :: "ShiftableBuffer \<Rightarrow> nat" where
  "NumWriteBytes s = sb_size s - sb_write s"

definition AdvanceRead :: "nat \<Rightarrow> ShiftableBuffer handler" where
  "AdvanceRead aNumBytes = in_order
     [throw_if (\<lambda>s. aNumBytes > NumReadBytes s) ArgumentException,
      modify (\<lambda>s. s\<lparr>sb_read := sb_read s + aNumBytes\<rparr>)]"

definition AdvanceWrite :: "nat \<Rightarrow> ShiftableBuffer handler" where
  "AdvanceWrite aNumBytes = in_order
     [throw_if (\<lambda>s. aNumBytes > NumWriteBytes s) ArgumentException,
      modify (\<lambda>s. s\<lparr>sb_write := sb_write s + aNumBytes\<rparr>)]"

definition Shift :: "ShiftableBuffer handler" where
  "Shift = in_order
     [modify (\<lambda>s. s\<lparr>sb_buffer := blit (sb_buffer s) 0 (take (NumReadBytes s) (drop (sb_read s) (sb_buffer s)))\<rparr>),
      modify (\<lambda>s. s\<lparr>sb_write := NumReadBytes s\<rparr>),
      modify (\<lambda>s. s\<lparr>sb_read := 0\<rparr>)]"

text \<open>The comparison loop of \<open>SyncSubsequence\<close>, then its recursion.\<close>

definition matches_at :: "bytes \<Rightarrow> nat \<Rightarrow> nat \<Rightarrow> ShiftableBuffer \<Rightarrow> bool" where
  "matches_at apPattern aNum aOffset s \<longleftrightarrow>
     (\<forall>i \<in> {0..<aNum}. apPattern ! i = sb_buffer s ! (sb_read s + aOffset + i))"

function SyncSubsequence :: "bytes \<Rightarrow> nat \<Rightarrow> nat \<Rightarrow> ShiftableBuffer \<Rightarrow> nat" where
  "SyncSubsequence apPattern aNumPatternBytes aOffset s =
     (let read_bytes = NumReadBytes s - aOffset;
          num = (if aNumPatternBytes > read_bytes then read_bytes else aNumPatternBytes)
      in if matches_at apPattern num aOffset s then aOffset
         else SyncSubsequence apPattern num (aOffset + 1) s)"
  by pat_completeness auto
termination
proof (relation "measure (\<lambda>(p, n, off, s). NumReadBytes s - off)", simp, goal_cases)
  case (1 apPattern n off s rb num)
  then have "num \<noteq> 0" by (auto simp: matches_at_def)
  then show ?case using 1 by (simp split: if_splits)
qed

declare SyncSubsequence.simps [simp del]

definition Sync :: "bytes \<Rightarrow> nat \<Rightarrow> ShiftableBuffer \<Rightarrow> (exn + bool) \<times> ShiftableBuffer" where
  "Sync apPattern aNumBytes s =
     (if aNumBytes < 1 then (Inl ArgumentException, s)
      else
        (let offset = SyncSubsequence apPattern aNumBytes 0 s;
             res = (NumReadBytes s - offset \<ge> aNumBytes)
         in case (if offset > 0 then AdvanceRead offset s else (None, s)) of
              (None, s') \<Rightarrow> (Inr res, s')
            | (Some e, s') \<Rightarrow> (Inl e, s')))"

text \<open>
  What the physical layer does with the pointer \<open>WriteBuff()\<close> it was given for an asynchronous
  read: it puts bytes at the write position. The buffer learns of them through \<open>AdvanceWrite\<close>.
\<close>

definition fill :: "bytes \<Rightarrow> ShiftableBuffer \<Rightarrow> ShiftableBuffer" where
  "fill xs s = s\<lparr>sb_buffer := blit (sb_buffer s) (sb_write s) xs\<rparr>"

section \<open>Invariant and abstract value\<close>

definition sb_inv :: "ShiftableBuffer \<Rightarrow> bool" where
  "sb_inv s \<longleftrightarrow> length (sb_buffer s) = sb_size s \<and> sb_read s \<le> sb_write s \<and> sb_write s \<le> sb_size s"

definition unread :: "ShiftableBuffer \<Rightarrow> bytes" where
  "unread s = take (NumReadBytes s) (drop (sb_read s) (sb_buffer s))"

lemma length_unread: "sb_inv s \<Longrightarrow> length (unread s) = NumReadBytes s"
  by (auto simp: sb_inv_def unread_def NumReadBytes_def)

lemma sb_inv_new: "length content = n \<Longrightarrow> sb_inv (new_ShiftableBuffer content n)"
  by (simp add: sb_inv_def new_ShiftableBuffer_def)

lemma unread_new: "unread (new_ShiftableBuffer content n) = []"
  by (simp add: unread_def new_ShiftableBuffer_def NumReadBytes_def)

lemma AdvanceRead_ok:
  assumes "sb_inv s" and "n \<le> length (unread s)"
  shows "fst (AdvanceRead n s) = None" and "sb_inv (snd (AdvanceRead n s))"
    and "unread (snd (AdvanceRead n s)) = drop n (unread s)"
    and "NumReadBytes (snd (AdvanceRead n s)) = NumReadBytes s - n"
  using assms unfolding length_unread [OF assms(1)]
  by (auto simp: AdvanceRead_def handler_simps sb_inv_def unread_def NumReadBytes_def drop_take add.commute)

lemma AdvanceRead_throws: "n > NumReadBytes s \<Longrightarrow> AdvanceRead n s = (Some ArgumentException, s)"
  by (simp add: AdvanceRead_def handler_simps)

lemma AdvanceRead_None: "fst (AdvanceRead n s) = None \<Longrightarrow>
    n \<le> NumReadBytes s \<and> NumReadBytes (snd (AdvanceRead n s)) = NumReadBytes s - n"
  by (auto simp: AdvanceRead_def handler_simps NumReadBytes_def split: if_splits)

lemma AdvanceWrite_fill:
  assumes "sb_inv s" and "length xs \<le> NumWriteBytes s"
  shows "fst (AdvanceWrite (length xs) (fill xs s)) = None"
    and "sb_inv (snd (AdvanceWrite (length xs) (fill xs s)))"
    and "unread (snd (AdvanceWrite (length xs) (fill xs s))) = unread s @ xs"
proof -
  let ?b = "sb_buffer s" and ?r = "sb_read s" and ?w = "sb_write s"
  have len: "length ?b = sb_size s" "?r \<le> ?w" "?w \<le> sb_size s" "?w + length xs \<le> sb_size s"
    using assms by (auto simp: sb_inv_def NumWriteBytes_def)
  show "fst (AdvanceWrite (length xs) (fill xs s)) = None"
    using assms(2) by (simp add: AdvanceWrite_def handler_simps fill_def NumWriteBytes_def)
  show "sb_inv (snd (AdvanceWrite (length xs) (fill xs s)))"
    using len by (simp add: AdvanceWrite_def handler_simps fill_def NumWriteBytes_def sb_inv_def)
  have "take (?w + length xs - ?r) (drop ?r (blit ?b ?w xs)) = drop ?r (take (?w + length xs) (blit ?b ?w xs))"
    by (simp add: drop_take)
  also have "\<dots> = drop ?r (take ?w ?b) @ xs"
    using len by (simp add: take_blit_upto)
  finally show "unread (snd (AdvanceWrite (length xs) (fill xs s))) = unread s @ xs"
    using len assms(2)
    by (simp add: AdvanceWrite_def handler_simps fill_def NumWriteBytes_def unread_def NumReadBytes_def drop_take)
qed

lemma Shift_ok:
  assumes "sb_inv s"
  shows "fst (Shift s) = None" and "sb_inv (snd (Shift s))" and "unread (snd (Shift s)) = unread s"
    and "NumWriteBytes (snd (Shift s)) = sb_size s - length (unread s)" and "sb_size (snd (Shift s)) = sb_size s"
  using assms length_unread [OF assms]
  by (auto simp: Shift_def handler_simps sb_inv_def unread_def NumReadBytes_def NumWriteBytes_def take_blit_upto blit_def)

lemma sb_size_AdvanceRead [simp]: "sb_size (snd (AdvanceRead n s)) = sb_size s"
  by (simp add: AdvanceRead_def handler_simps)

lemma sb_size_AdvanceWrite [simp]: "sb_size (snd (AdvanceWrite n s)) = sb_size s"
  by (simp add: AdvanceWrite_def handler_simps)

lemma sb_size_fill [simp]: "sb_size (fill xs s) = sb_size s"
  by (simp add: fill_def)

section \<open>The search\<close>

text \<open>
  The least offset at which the rest of the list starts with the pattern, or is a proper prefix of
  it; the length of the list when there is none.
\<close>

definition starts :: "bytes \<Rightarrow> bytes \<Rightarrow> bool" where
  "starts pat xs \<longleftrightarrow> take (length pat) xs = take (length xs) pat"

primrec find_sync :: "bytes \<Rightarrow> bytes \<Rightarrow> nat" where
  "find_sync pat [] = 0"
| "find_sync pat (x # xs) = (if starts pat (x # xs) then 0 else Suc (find_sync pat xs))"

lemma find_sync_le: "find_sync pat xs \<le> length xs"
  by (induction xs) auto

lemma find_sync_starts: "starts pat (drop (find_sync pat xs) xs)"
  by (induction xs) (auto simp: starts_def)

lemma find_sync_least: "i < find_sync pat xs \<Longrightarrow> \<not> starts pat (drop i xs)"
proof (induction xs arbitrary: i)
  case (Cons x xs)
  then show ?case by (cases i) (auto split: if_splits)
qed simp

lemma find_sync_unique:
  assumes "starts pat (drop k xs)" and "k \<le> length xs" and "\<And>i. i < k \<Longrightarrow> \<not> starts pat (drop i xs)"
  shows "find_sync pat xs = k"
  using assms find_sync_starts [of pat xs] find_sync_least [of k pat xs]
  by (metis linorder_neqE_nat)

lemma find_sync_0: "starts pat xs \<Longrightarrow> find_sync pat xs = 0"
  by (rule find_sync_unique) auto

lemma drop_starts_unread:
  "sb_inv s \<Longrightarrow> off \<le> length (unread s) \<Longrightarrow> starts pat (drop off (unread s)) \<longleftrightarrow>
     matches_at pat (min (length pat) (NumReadBytes s - off)) off s"
proof -
  assume inv: "sb_inv s" and off: "off \<le> length (unread s)"
  let ?xs = "drop off (unread s)"
  have len: "length ?xs = NumReadBytes s - off" using inv by (simp add: length_unread)
  have nth: "?xs ! i = sb_buffer s ! (sb_read s + off + i)" if "i < length ?xs" for i
    using that inv off unfolding len by (auto simp: unread_def sb_inv_def NumReadBytes_def add.assoc)
  have "starts pat ?xs \<longleftrightarrow> (\<forall>i < min (length pat) (length ?xs). ?xs ! i = pat ! i)"
    unfolding starts_def by (auto simp: list_eq_iff_nth_eq min_def)
  also have "\<dots> \<longleftrightarrow> (\<forall>i < min (length pat) (length ?xs). pat ! i = sb_buffer s ! (sb_read s + off + i))"
    using nth by (metis min_less_iff_conj)
  finally show ?thesis unfolding len matches_at_def by auto
qed

lemma SyncSubsequence_find:
  assumes "sb_inv s" and "off \<le> length (unread s)"
    and "min (length pat) (NumReadBytes s - off) \<le> n" and "n \<le> length pat"
  shows "SyncSubsequence pat n off s = off + find_sync pat (drop off (unread s))"
  using assms
proof (induction pat n off s rule: SyncSubsequence.induct)
  case (1 pat n off s)
  let ?rb = "NumReadBytes s - off"
  have num: "(if n > ?rb then ?rb else n) = min (length pat) ?rb"
    using "1.prems" by auto
  have len: "length (unread s) = NumReadBytes s" using "1.prems" by (simp add: length_unread)
  show ?case
  proof (cases "matches_at pat (min (length pat) ?rb) off s")
    case True
    then have "starts pat (drop off (unread s))" using "1.prems" by (simp add: drop_starts_unread)
    then show ?thesis
      using True by (subst SyncSubsequence.simps) (simp add: Let_def num find_sync_0)
  next
    case False
    then have no: "\<not> starts pat (drop off (unread s))" using "1.prems" by (simp add: drop_starts_unread)
    then have "drop off (unread s) \<noteq> []" by (auto simp: starts_def)
    then obtain x where cons: "drop off (unread s) = x # drop (Suc off) (unread s)" and off: "off < length (unread s)"
      by (metis Cons_nth_drop_Suc drop_all not_less)
    have "SyncSubsequence pat n off s = SyncSubsequence pat (min (length pat) ?rb) (off + 1) s"
      using False by (subst SyncSubsequence.simps) (simp add: Let_def num)
    also have "\<dots> = off + 1 + find_sync pat (drop (off + 1) (unread s))"
      using "1.IH" [OF refl refl] "1.prems" False off num len by simp
    also have "\<dots> = off + find_sync pat (drop off (unread s))"
      using no cons by simp
    finally show ?thesis .
  qed
qed

text \<open>What \<open>Sync\<close> does: it finds the first full match, or the partial match at the end.\<close>

lemma Sync_find:
  assumes "sb_inv s" and "pat \<noteq> []"
  defines "k \<equiv> find_sync pat (unread s)"
  shows "fst (Sync pat (length pat) s) = Inr (length pat \<le> length (unread s) - k)"
    and "sb_inv (snd (Sync pat (length pat) s))"
    and "unread (snd (Sync pat (length pat) s)) = drop k (unread s)"
    and "sb_size (snd (Sync pat (length pat) s)) = sb_size s"
proof -
  have k: "SyncSubsequence pat (length pat) 0 s = k"
    using SyncSubsequence_find [OF assms(1), of 0 pat "length pat"] by (simp add: k_def)
  have "k \<le> length (unread s)" by (simp add: k_def find_sync_le)
  note adv = AdvanceRead_ok [OF assms(1) this]
  obtain e s' where e: "AdvanceRead k s = (e, s')" by (cases "AdvanceRead k s")
  with adv have adv': "e = None" "sb_inv s'" "unread s' = drop k (unread s)" by simp_all
  have eq: "Sync pat (length pat) s = (Inr (length pat \<le> length (unread s) - k), if k > 0 then s' else s)"
    using assms(2) k e adv' by (simp add: Sync_def Let_def length_unread [OF assms(1)] Suc_le_eq)
  show "fst (Sync pat (length pat) s) = Inr (length pat \<le> length (unread s) - k)" by (simp add: eq)
  show "sb_inv (snd (Sync pat (length pat) s))" using assms(1) adv' by (simp add: eq)
  show "unread (snd (Sync pat (length pat) s)) = drop k (unread s)" using adv' by (simp add: eq)
  show "sb_size (snd (Sync pat (length pat) s)) = sb_size s"
    using arg_cong [OF e, of "sb_size \<circ> snd"] by (simp add: eq)
qed

lemma Sync_NumReadBytes:
  "Sync pat n s = (Inr b, s') \<Longrightarrow> NumReadBytes s' \<le> NumReadBytes s \<and> (\<not> b \<longrightarrow> NumReadBytes s' < n)"
  by (auto simp: Sync_def Let_def AdvanceRead_def handler_simps NumReadBytes_def split: if_splits)

text \<open>The search on a longer list starts where the search on a prefix stopped.\<close>

lemma starts_append: "starts pat (xs @ ys) \<Longrightarrow> starts pat xs"
  unfolding starts_def
proof -
  assume "take (length pat) (xs @ ys) = take (length (xs @ ys)) pat"
  then have "take (length xs) (take (length pat) (xs @ ys)) = take (length xs) (take (length (xs @ ys)) pat)"
    by simp
  then show "take (length pat) xs = take (length xs) pat"
    by (simp add: min_def split: if_splits)
qed

lemma find_sync_append:
  "find_sync pat (xs @ ys) = find_sync pat xs + find_sync pat (drop (find_sync pat xs) xs @ ys)"
proof (induction xs)
  case (Cons x xs)
  then show ?case using starts_append [of pat "x # xs" ys] by (auto simp: Cons_eq_append_conv)
qed simp

section \<open>The interface the receiver relies on\<close>

text \<open>
  A buffer the receiver can work with: its content is a list of bytes, data is put in behind it
  while there is room, taken from the front, and compacting makes all the unused capacity available
  again. What the receiver needs of any such buffer is proved in the locale.
\<close>

locale stream_buffer =
  fixes inv :: "'b \<Rightarrow> bool"
    and content :: "'b \<Rightarrow> bytes"
    and capacity :: "'b \<Rightarrow> nat"
    and room :: "'b \<Rightarrow> nat"
    and put :: "bytes \<Rightarrow> 'b handler"
    and advance :: "nat \<Rightarrow> 'b handler"
    and compact :: "'b handler"
  assumes put_ok: "inv b \<Longrightarrow> length xs \<le> room b \<Longrightarrow>
      fst (put xs b) = None \<and> inv (snd (put xs b)) \<and> content (snd (put xs b)) = content b @ xs \<and>
      capacity (snd (put xs b)) = capacity b"
    and advance_ok: "inv b \<Longrightarrow> n \<le> length (content b) \<Longrightarrow>
      fst (advance n b) = None \<and> inv (snd (advance n b)) \<and> content (snd (advance n b)) = drop n (content b) \<and>
      capacity (snd (advance n b)) = capacity b"
    and advance_too_far: "inv b \<Longrightarrow> length (content b) < n \<Longrightarrow> advance n b = (Some ArgumentException, b)"
    and compact_ok: "inv b \<Longrightarrow> fst (compact b) = None \<and> inv (snd (compact b)) \<and>
      content (snd (compact b)) = content b \<and> capacity (snd (compact b)) = capacity b \<and>
      room (snd (compact b)) = capacity b - length (content b)"
begin

text \<open>Data that was put in comes out in order, once.\<close>

lemma put_advance:
  assumes "inv b" "length xs \<le> room b"
  defines "c \<equiv> snd (advance (length (content b)) (snd (put xs b)))"
  shows "inv c" and "content c = xs"
  using put_ok [OF assms(1,2)] advance_ok [of "snd (put xs b)" "length (content b)"] by (auto simp: c_def)

text \<open>After compacting, a chunk fits as long as content and chunk together stay within the capacity.\<close>

lemma compact_put:
  assumes "inv b" "length (content b) + length xs \<le> capacity b"
  shows "length xs \<le> room (snd (compact b))"
    and "content (snd (put xs (snd (compact b)))) = content b @ xs"
  using compact_ok [OF assms(1)] put_ok [of "snd (compact b)" xs] assms by auto

end

definition put_bytes :: "bytes \<Rightarrow> ShiftableBuffer handler" where
  "put_bytes xs = in_order [modify (fill xs), AdvanceWrite (length xs)]"

interpretation sb: stream_buffer sb_inv unread sb_size NumWriteBytes put_bytes AdvanceRead Shift
proof (unfold_locales, goal_cases)
  case (1 b xs)
  have "put_bytes xs b = AdvanceWrite (length xs) (fill xs b)"
    by (simp add: put_bytes_def handler_simps split: prod.split option.split)
  then show ?case using AdvanceWrite_fill [OF 1] by simp
qed (auto simp: AdvanceRead_ok Shift_ok AdvanceRead_throws length_unread)

end
