(* ===== verification/LinkReceivers.thy ===== *)
theory LinkReceivers
  imports LinkFrames ShiftableBuffers
begin

text \<open>
  The parser of incoming frames: opendnp3/DNP3/LinkLayerReceiver.h, .cpp and its three states
  (LinkReceiverStates.h, .cpp), and the interface it pushes frames to (IFrameSink.h). The model is
  refined to a function on the stream of received bytes (\<open>decode\<close>); from it follow that the frames
  delivered do not depend on how the stream is cut into reads, that the parse loop ends, that it
  never fails, and that the buffer always has room for the next read.
\<close>

section \<open>The code\<close>

text \<open>A call on the sink: the member functions of \<open>IFrameSink\<close> with their arguments.\<close>

datatype FrameSinkCall =
    Ack (fromMaster: bool) (rcvBuffFull: bool) (dest: u16) (src: u16)
  | Nack (fromMaster: bool) (rcvBuffFull: bool) (dest: u16) (src: u16)
  | LinkStatus (fromMaster: bool) (rcvBuffFull: bool) (dest: u16) (src: u16)
  | NotSupported (fromMaster: bool) (rcvBuffFull: bool) (dest: u16) (src: u16)
  | TestLinkStatus (fromMaster: bool) (fcb: bool) (dest: u16) (src: u16)
  | ResetLinkStates (fromMaster: bool) (dest: u16) (src: u16)
  | RequestLinkStatus (fromMaster: bool) (dest: u16) (src: u16)
  | ConfirmedUserData (fromMaster: bool) (fcb: bool) (dest: u16) (src: u16) (payload: bytes)
  | UnconfirmedUserData (fromMaster: bool) (dest: u16) (src: u16) (payload: bytes)

datatype LRS = LRS_Sync | LRS_Header | LRS_Body

text \<open>The receiver; \<open>lr_sink\<close> is the list of calls made on \<open>mpSink\<close> so far.\<close>

record LinkLayerReceiver =
  lr_header :: LinkHeader
  lr_frameSize :: nat
  lr_sink :: "FrameSinkCall list"
  lr_state :: LRS
  lr_userData :: bytes
  lr_buffer :: ShiftableBuffer
  lr_crcFailures :: nat

definition BUFFER_SIZE :: nat where
  "BUFFER_SIZE = (4096 div 249 + 1) * 292"

definition M_SYNC_PATTERN :: bytes where
  "M_SYNC_PATTERN = [0x05, 0x64]"

definition new_LinkLayerReceiver :: "LinkHeader \<Rightarrow> bytes \<Rightarrow> bytes \<Rightarrow> LinkLayerReceiver" where
  "new_LinkLayerReceiver hdr user buf =
     \<lparr>lr_header = hdr, lr_frameSize = 0, lr_sink = [], lr_state = LRS_Sync, lr_userData = user,
      lr_buffer = new_ShiftableBuffer buf BUFFER_SIZE, lr_crcFailures = 0\<rparr>"

text \<open>An operation of the buffer member.\<close>

definition on_buffer :: "ShiftableBuffer handler \<Rightarrow> LinkLayerReceiver handler" where
  "on_buffer f r = (case f (lr_buffer r) of (e, b) \<Rightarrow> (e, r\<lparr>lr_buffer := b\<rparr>))"

definition ValidateFunctionCode :: "LinkHeader \<Rightarrow> bool" where
  "ValidateFunctionCode h =
     (if IsPriToSec h then
        (case GetFuncEnum h of
           FC_PRI_CONFIRMED_USER_DATA \<Rightarrow> (if True \<noteq> IsFcvDfcSet h then False else True)
         | FC_PRI_TEST_LINK_STATES \<Rightarrow> (if True \<noteq> IsFcvDfcSet h then False else True)
         | FC_PRI_REQUEST_LINK_STATUS \<Rightarrow> (if False \<noteq> IsFcvDfcSet h then False else True)
         | FC_PRI_RESET_LINK_STATES \<Rightarrow> (if False \<noteq> IsFcvDfcSet h then False else True)
         | FC_PRI_UNCONFIRMED_USER_DATA \<Rightarrow> (if False \<noteq> IsFcvDfcSet h then False else True)
         | _ \<Rightarrow> False)
      else
        (case GetFuncEnum h of
           FC_SEC_ACK \<Rightarrow> (if IsFcbSet h then False else True)
         | FC_SEC_NACK \<Rightarrow> (if IsFcbSet h then False else True)
         | FC_SEC_LINK_STATUS \<Rightarrow> (if IsFcbSet h then False else True)
         | FC_SEC_NOT_SUPPORTED \<Rightarrow> (if IsFcbSet h then False else True)
         | _ \<Rightarrow> False))"

definition ValidateHeader :: "LinkLayerReceiver \<Rightarrow> bool \<times> LinkLayerReceiver" where
  "ValidateHeader r =
     (let buf = lr_buffer r in
      if \<not> IsCorrectCRC (sb_buffer buf) (sb_read buf) LI_CRC then
        (False, r\<lparr>lr_crcFailures := lr_crcFailures r + 1\<rparr>)
      else if \<not> ValidLength (lr_header r) then (False, r)
      else if \<not> ValidateFunctionCode (lr_header r) then (False, r)
      else
        (let user_data_length = lh_length (lr_header r) - of_nat LS_MIN_LENGTH;
             r = r\<lparr>lr_frameSize := CalcFrameSize (unat user_data_length)\<rparr>;
             func = GetFuncEnum (lr_header r);
             data = (func = FC_PRI_CONFIRMED_USER_DATA \<or> func = FC_PRI_UNCONFIRMED_USER_DATA)
         in if data \<and> \<not> user_data_length > 0 then (False, r)
            else if \<not> data \<and> user_data_length > 0 then (False, r)
            else if user_data_length > 0 then (if data then (True, r) else (False, r))
            else (if data then (False, r) else (True, r))))"

definition ReadHeader :: "LinkLayerReceiver \<Rightarrow> bool \<times> LinkLayerReceiver" where
  "ReadHeader r =
     ValidateHeader
       (r\<lparr>lr_header := LinkHeader_Read (sb_buffer (lr_buffer r)) (sb_read (lr_buffer r)) (lr_header r)\<rparr>)"

definition ValidateBody :: "LinkLayerReceiver \<Rightarrow> bool \<times> LinkLayerReceiver" where
  "ValidateBody r =
     (let len = unat (lh_length (lr_header r)) - LS_MIN_LENGTH in
      if ValidateBodyCRC (sb_buffer (lr_buffer r)) (sb_read (lr_buffer r) + LS_HEADER_SIZE) len then (True, r)
      else (False, r\<lparr>lr_crcFailures := lr_crcFailures r + 1\<rparr>))"

definition FailFrame :: "LinkLayerReceiver handler" where
  "FailFrame = on_buffer (AdvanceRead 1)"

definition TransferUserData :: "LinkLayerReceiver \<Rightarrow> nat \<times> LinkLayerReceiver" where
  "TransferUserData r =
     (let len = unat (lh_length (lr_header r)) - LS_MIN_LENGTH
      in (len, r\<lparr>lr_userData :=
            ReadUserData (sb_buffer (lr_buffer r)) (sb_read (lr_buffer r) + LS_HEADER_SIZE) (lr_userData r) 0 len\<rparr>))"

definition call_sink :: "FrameSinkCall \<Rightarrow> LinkLayerReceiver \<Rightarrow> LinkLayerReceiver" where
  "call_sink c r = r\<lparr>lr_sink := lr_sink r @ [c]\<rparr>"

definition push_to_sink :: "LinkLayerReceiver \<Rightarrow> LinkLayerReceiver" where
  "push_to_sink r =
     (let h = lr_header r; m = IsFromMaster h; d = lh_dest h; s = lh_src h in
      case GetFuncEnum h of
        FC_PRI_RESET_LINK_STATES \<Rightarrow> call_sink (ResetLinkStates m d s) r
      | FC_PRI_TEST_LINK_STATES \<Rightarrow> call_sink (TestLinkStatus m (IsFcbSet h) d s) r
      | FC_PRI_CONFIRMED_USER_DATA \<Rightarrow>
          (let (len, r) = TransferUserData r
           in call_sink (ConfirmedUserData m (IsFcbSet h) d s (take len (lr_userData r))) r)
      | FC_PRI_UNCONFIRMED_USER_DATA \<Rightarrow>
          (let (len, r) = TransferUserData r
           in call_sink (UnconfirmedUserData m d s (take len (lr_userData r))) r)
      | FC_PRI_REQUEST_LINK_STATUS \<Rightarrow> call_sink (RequestLinkStatus m d s) r
      | FC_SEC_ACK \<Rightarrow> call_sink (Ack m (IsFcvDfcSet h) d s) r
      | FC_SEC_NACK \<Rightarrow> call_sink (Nack m (IsFcvDfcSet h) d s) r
      | FC_SEC_LINK_STATUS \<Rightarrow> call_sink (LinkStatus m (IsFcvDfcSet h) d s) r
      | FC_SEC_NOT_SUPPORTED \<Rightarrow> call_sink (NotSupported m (IsFcvDfcSet h) d s) r
      | FC_INVALID \<Rightarrow> r)"

definition PushFrame :: "LinkLayerReceiver handler" where
  "PushFrame r = in_order [modify push_to_sink, on_buffer (AdvanceRead (lr_frameSize r))] r"

text \<open>The states' \<open>Parse\<close>: whether the function can be called again, or the exception.\<close>

definition then_return :: "'s handler \<Rightarrow> bool \<Rightarrow> 's \<Rightarrow> (exn + bool) \<times> 's" where
  "then_return f b s = (case f s of (None, s') \<Rightarrow> (Inr b, s') | (Some e, s') \<Rightarrow> (Inl e, s'))"

definition change_lrs :: "LRS \<Rightarrow> LinkLayerReceiver handler" where
  "change_lrs st = modify (\<lambda>r. r\<lparr>lr_state := st\<rparr>)"

definition LRS_Sync_Parse :: "LinkLayerReceiver \<Rightarrow> (exn + bool) \<times> LinkLayerReceiver" where
  "LRS_Sync_Parse r =
     (if NumReadBytes (lr_buffer r) < 2 then (Inr False, r)
      else (case Sync M_SYNC_PATTERN 2 (lr_buffer r) of
              (Inl e, b) \<Rightarrow> (Inl e, r\<lparr>lr_buffer := b\<rparr>)
            | (Inr found, b) \<Rightarrow>
                (Inr True, if found then r\<lparr>lr_buffer := b, lr_state := LRS_Header\<rparr> else r\<lparr>lr_buffer := b\<rparr>)))"

definition LRS_Header_Parse :: "LinkLayerReceiver \<Rightarrow> (exn + bool) \<times> LinkLayerReceiver" where
  "LRS_Header_Parse r =
     (if NumReadBytes (lr_buffer r) < 10 then (Inr False, r)
      else (case ReadHeader r of
              (True, r) \<Rightarrow> (Inr True, r\<lparr>lr_state := LRS_Body\<rparr>)
            | (False, r) \<Rightarrow> then_return (in_order [FailFrame, change_lrs LRS_Sync]) True r))"

definition LRS_Body_Parse :: "LinkLayerReceiver \<Rightarrow> (exn + bool) \<times> LinkLayerReceiver" where
  "LRS_Body_Parse r =
     (if NumReadBytes (lr_buffer r) < lr_frameSize r then (Inr False, r)
      else (case ValidateBody r of
              (True, r) \<Rightarrow> then_return (in_order [PushFrame, change_lrs LRS_Sync]) True r
            | (False, r) \<Rightarrow> then_return (in_order [FailFrame, change_lrs LRS_Sync]) True r))"

definition Parse :: "LinkLayerReceiver \<Rightarrow> (exn + bool) \<times> LinkLayerReceiver" where
  "Parse r = (case lr_state r of
       LRS_Sync \<Rightarrow> LRS_Sync_Parse r | LRS_Header \<Rightarrow> LRS_Header_Parse r | LRS_Body \<Rightarrow> LRS_Body_Parse r)"

text \<open>
  \<open>while(mpState->Parse(this));\<close> ends: a round trip through the states consumes at least a byte,
  and entering the body state fixes a frame size of at least ten.
\<close>

definition parse_measure :: "LinkLayerReceiver \<Rightarrow> nat" where
  "parse_measure r = 3 * NumReadBytes (lr_buffer r) +
     (case lr_state r of LRS_Sync \<Rightarrow> 2 | LRS_Header \<Rightarrow> 1 | LRS_Body \<Rightarrow> if lr_frameSize r = 0 then 3 else 0)"

lemma ValidateHeader_frame:
  "ValidateHeader r = (b, r') \<Longrightarrow> lr_buffer r' = lr_buffer r \<and> lr_state r' = lr_state r \<and>
     lr_header r' = lr_header r \<and> (b \<longrightarrow> 10 \<le> lr_frameSize r')"
  by (auto simp: ValidateHeader_def Let_def CalcFrameSize_body_len split: if_splits)

lemma ValidateBody_frame:
  "ValidateBody r = (b, r') \<Longrightarrow> lr_buffer r' = lr_buffer r \<and> lr_frameSize r' = lr_frameSize r \<and>
     lr_header r' = lr_header r"
  by (auto simp: ValidateBody_def Let_def split: if_splits)

lemma push_to_sink_frame [simp]:
  "lr_buffer (push_to_sink r) = lr_buffer r" "lr_frameSize (push_to_sink r) = lr_frameSize r"
  by (simp_all add: push_to_sink_def call_sink_def TransferUserData_def Let_def split: FuncCodes.split)

lemma advance_then_sync:
  "then_return (in_order [on_buffer (AdvanceRead n), change_lrs LRS_Sync]) True r = (Inr True, r') \<Longrightarrow>
   lr_state r' = LRS_Sync \<and> n \<le> NumReadBytes (lr_buffer r) \<and>
   NumReadBytes (lr_buffer r') = NumReadBytes (lr_buffer r) - n"
  by (auto simp: then_return_def on_buffer_def change_lrs_def handler_simps AdvanceRead_def NumReadBytes_def
      split: if_splits)

lemma push_then_sync:
  "then_return (in_order [PushFrame, change_lrs LRS_Sync]) True r
    = then_return (in_order [on_buffer (AdvanceRead (lr_frameSize r)), change_lrs LRS_Sync]) True (push_to_sink r)"
  by (auto simp: then_return_def PushFrame_def handler_simps split: prod.split option.split)

lemma Parse_measure: "Parse r = (Inr True, r') \<Longrightarrow> parse_measure r' < parse_measure r"
proof (cases "lr_state r")
  case LRS_Sync
  assume "Parse r = (Inr True, r')"
  with LRS_Sync obtain found b where "2 \<le> NumReadBytes (lr_buffer r)"
      and "Sync M_SYNC_PATTERN 2 (lr_buffer r) = (Inr found, b)"
      and r': "r' = (if found then r\<lparr>lr_buffer := b, lr_state := LRS_Header\<rparr> else r\<lparr>lr_buffer := b\<rparr>)"
    by (auto simp: Parse_def LRS_Sync_Parse_def split: if_splits prod.splits sum.splits)
  with Sync_NumReadBytes [of M_SYNC_PATTERN 2 "lr_buffer r" found b] LRS_Sync show ?thesis
    by (auto simp: parse_measure_def)
next
  case LRS_Header
  assume p: "Parse r = (Inr True, r')"
  let ?r = "r\<lparr>lr_header := LinkHeader_Read (sb_buffer (lr_buffer r)) (sb_read (lr_buffer r)) (lr_header r)\<rparr>"
  obtain ok s where v: "ValidateHeader ?r = (ok, s)" by (cases "ValidateHeader ?r")
  from p LRS_Header have n: "10 \<le> NumReadBytes (lr_buffer r)"
    by (auto simp: Parse_def LRS_Header_Parse_def split: if_splits)
  with p LRS_Header v ValidateHeader_frame [OF v] show ?thesis
    by (cases ok) (auto simp: Parse_def LRS_Header_Parse_def ReadHeader_def parse_measure_def FailFrame_def
        dest: advance_then_sync)
next
  case LRS_Body
  assume p: "Parse r = (Inr True, r')"
  obtain ok s where v: "ValidateBody r = (ok, s)" by (cases "ValidateBody r")
  from p LRS_Body have n: "lr_frameSize r \<le> NumReadBytes (lr_buffer r)"
    by (auto simp: Parse_def LRS_Body_Parse_def split: if_splits)
  with p LRS_Body v ValidateBody_frame [OF v] show ?thesis
    by (cases ok) (auto simp: Parse_def LRS_Body_Parse_def parse_measure_def FailFrame_def push_then_sync
        dest!: advance_then_sync)
qed

function parse_loop :: "LinkLayerReceiver handler" where
  "parse_loop r = (case Parse r of
       (Inl e, r') \<Rightarrow> (Some e, r')
     | (Inr again, r') \<Rightarrow> if again then parse_loop r' else (None, r'))"
  by pat_completeness auto
termination
  by (relation "measure parse_measure") (auto intro: Parse_measure)

declare parse_loop.simps [simp del]

definition OnRead :: "nat \<Rightarrow> LinkLayerReceiver handler" where
  "OnRead aNumBytes = in_order
     [assert_that (\<lambda>r. aNumBytes \<le> NumWriteBytes (lr_buffer r)),
      on_buffer (AdvanceWrite aNumBytes),
      parse_loop,
      on_buffer Shift]"

text \<open>A completed read of the physical layer: bytes at the write position, then the callback.\<close>

definition receive :: "bytes \<Rightarrow> LinkLayerReceiver handler" where
  "receive xs r = OnRead (length xs) (r\<lparr>lr_buffer := fill xs (lr_buffer r)\<rparr>)"

section \<open>What the receiver computes: a function on the byte stream\<close>

definition resync :: "bytes \<Rightarrow> bytes" where
  "resync xs = drop (find_sync M_SYNC_PATTERN xs) xs"

definition header_of :: "bytes \<Rightarrow> LinkHeader" where
  "header_of xs = LinkHeader_Read xs 0 \<lparr>lh_length = 0, lh_src = 0, lh_dest = 0, lh_ctrl = 0\<rparr>"

definition user_len :: "LinkHeader \<Rightarrow> nat" where
  "user_len h = unat (lh_length h) - 5"

definition frame_len :: "LinkHeader \<Rightarrow> nat" where
  "frame_len h = CalcFrameSize (user_len h)"

definition is_data :: "LinkHeader \<Rightarrow> bool" where
  "is_data h \<longleftrightarrow> GetFuncEnum h = FC_PRI_CONFIRMED_USER_DATA \<or> GetFuncEnum h = FC_PRI_UNCONFIRMED_USER_DATA"

text \<open>A header is acceptable: valid length and control byte, and data exactly with a data function.\<close>

definition header_ok :: "bytes \<Rightarrow> bool" where
  "header_ok xs \<longleftrightarrow> IsCorrectCRC xs 0 8 \<and> ValidLength (header_of xs) \<and> ValidateFunctionCode (header_of xs) \<and>
     (is_data (header_of xs) \<longleftrightarrow> 0 < user_len (header_of xs))"

definition frame_call :: "LinkHeader \<Rightarrow> bytes \<Rightarrow> FrameSinkCall list" where
  "frame_call h xs = (let m = IsFromMaster h; d = lh_dest h; s = lh_src h in
      case GetFuncEnum h of
        FC_PRI_RESET_LINK_STATES \<Rightarrow> [ResetLinkStates m d s]
      | FC_PRI_TEST_LINK_STATES \<Rightarrow> [TestLinkStatus m (IsFcbSet h) d s]
      | FC_PRI_CONFIRMED_USER_DATA \<Rightarrow> [ConfirmedUserData m (IsFcbSet h) d s xs]
      | FC_PRI_UNCONFIRMED_USER_DATA \<Rightarrow> [UnconfirmedUserData m d s xs]
      | FC_PRI_REQUEST_LINK_STATUS \<Rightarrow> [RequestLinkStatus m d s]
      | FC_SEC_ACK \<Rightarrow> [Ack m (IsFcvDfcSet h) d s]
      | FC_SEC_NACK \<Rightarrow> [Nack m (IsFcvDfcSet h) d s]
      | FC_SEC_LINK_STATUS \<Rightarrow> [LinkStatus m (IsFcvDfcSet h) d s]
      | FC_SEC_NOT_SUPPORTED \<Rightarrow> [NotSupported m (IsFcvDfcSet h) d s]
      | FC_INVALID \<Rightarrow> [])"

lemma length_resync: "length (resync xs) \<le> length xs"
  by (simp add: resync_def)

text \<open>The frames of a stream of bytes, and the bytes left over (from a possible start of a frame).\<close>

function decode :: "bytes \<Rightarrow> FrameSinkCall list \<times> bytes" where
  "decode xs =
     (let ys = resync xs; h = header_of ys in
      if length ys < 10 then ([], ys)
      else if \<not> header_ok ys then decode (drop 1 ys)
      else if length ys < frame_len h then ([], ys)
      else if \<not> ValidateBodyCRC ys 10 (user_len h) then decode (drop 1 ys)
      else (let (calls, rest) = decode (drop (frame_len h) ys)
            in (frame_call h (body_data (drop 10 ys) (user_len h)) @ calls, rest)))"
  by pat_completeness auto
termination
proof (relation "measure length", goal_cases)
  case (2 xs ys h) then show ?case using length_resync [of xs] by simp
next
  case (3 xs ys h) then show ?case using length_resync [of xs] by simp
next
  case (4 xs ys h) then show ?case using length_resync [of xs] by (simp add: frame_len_def CalcFrameSize_body_len)
qed simp

declare decode.simps [simp del]

lemma starts_resync: "starts M_SYNC_PATTERN (resync xs)"
  by (simp add: resync_def find_sync_starts)

lemma resync_id: "starts M_SYNC_PATTERN xs \<Longrightarrow> resync xs = xs"
  by (simp add: resync_def find_sync_0)

lemma resync_resync [simp]: "resync (resync xs) = resync xs"
  by (simp add: resync_id starts_resync)

lemma resync_append: "resync (xs @ ys) = resync (resync xs @ ys)"
  by (simp add: resync_def find_sync_append [of _ xs] flip: drop_drop) (simp add: find_sync_le drop_drop add.commute)

lemma starts_longer:
  "starts M_SYNC_PATTERN xs \<Longrightarrow> 2 \<le> length xs \<Longrightarrow> starts M_SYNC_PATTERN (xs @ ys)"
  by (simp add: starts_def M_SYNC_PATTERN_def)

lemma decode_resync: "decode (resync xs) = decode xs"
  by (subst (1 2) decode.simps) simp

lemma decode_resync_append: "decode (resync xs @ ys) = decode (xs @ ys)"
  by (metis decode_resync resync_append)

lemma header_of_append: "10 \<le> length xs \<Longrightarrow> header_of (xs @ ys) = header_of xs"
  by (simp add: header_of_def LinkHeader_Read_def link_consts nth_append u16le.read_append UInt16LE_Size_def)

lemma header_ok_append: "10 \<le> length xs \<Longrightarrow> header_ok (xs @ ys) = header_ok xs"
  using IsCorrectCRC_cong [of 8 0 "xs @ ys" 0 xs] by (simp add: header_ok_def header_of_append)

lemma frame_len_user: "frame_len h = 10 + body_len (user_len h)"
  by (simp add: frame_len_def CalcFrameSize_body_len)

lemma body_append:
  assumes "frame_len h \<le> length xs"
  shows "ValidateBodyCRC (xs @ ys) 10 (user_len h) = ValidateBodyCRC xs 10 (user_len h)"
    and "body_data (drop 10 (xs @ ys)) (user_len h) = body_data (drop 10 xs) (user_len h)"
proof -
  note len = assms [unfolded frame_len_user]
  show "ValidateBodyCRC (xs @ ys) 10 (user_len h) = ValidateBodyCRC xs 10 (user_len h)"
    by (rule ValidateBodyCRC_cong) (use len in auto)
  show "body_data (drop 10 (xs @ ys)) (user_len h) = body_data (drop 10 xs) (user_len h)"
    using body_data_append [of "user_len h" "drop 10 xs"] len by simp
qed

lemma user_len_le: "user_len h \<le> 250"
  using unsigned_less [of "lh_length h", where 'a = nat] by (simp add: user_len_def)

lemma frame_len_le: "frame_len h \<le> 292"
  using body_len_250 [OF user_len_le [of h]] by (simp add: frame_len_user)

text \<open>The unfolding of \<open>decode\<close> once the stream is in step.\<close>

lemma decode_short: "length (resync xs) < 10 \<Longrightarrow> decode xs = ([], resync xs)"
  by (subst decode.simps) (simp add: Let_def)

lemma decode_at:
  assumes "resync xs = ys" and "10 \<le> length ys"
  shows "decode xs =
     (if \<not> header_ok ys then decode (drop 1 ys)
      else if length ys < frame_len (header_of ys) then ([], ys)
      else if \<not> ValidateBodyCRC ys 10 (user_len (header_of ys)) then decode (drop 1 ys)
      else (frame_call (header_of ys) (body_data (drop 10 ys) (user_len (header_of ys)))
              @ fst (decode (drop (frame_len (header_of ys)) ys)), snd (decode (drop (frame_len (header_of ys)) ys))))"
  using assms by (subst decode.simps) (simp add: Let_def split: prod.split)

text \<open>Decoding a stream in two parts: the leftover of the first is put before the second.\<close>

lemma decode_append:
  "decode (xs @ zs) =
     (fst (decode xs) @ fst (decode (snd (decode xs) @ zs)), snd (decode (snd (decode xs) @ zs)))"
proof (induction xs rule: decode.induct)
  case (1 xs)
  let ?ys = "resync xs" let ?h = "header_of ?ys"
  show ?case
  proof (cases "length ?ys < 10")
    case True
    then show ?thesis by (simp add: decode_short decode_resync_append)
  next
    case False
    then have len: "10 \<le> length ?ys" by simp
    then have "starts M_SYNC_PATTERN (?ys @ zs)" by (simp add: starts_longer starts_resync)
    then have sync: "resync (xs @ zs) = ?ys @ zs" by (metis resync_append resync_id)
    note at1 = decode_at [OF refl len] and at2 = decode_at [OF sync, simplified, OF trans_le_add1 [OF len]]
    note app = header_of_append [OF len] header_ok_append [OF len] body_append [of ?h ?ys zs]
      body_append(2) [of ?h ?ys zs, unfolded drop_append]
    show ?thesis
    proof (cases "header_ok ?ys")
      case False
      then show ?thesis using "1.IH"(1) [OF refl refl] len by (simp add: at1 at2 app)
    next
      case hdr: True
      show ?thesis
      proof (cases "length ?ys < frame_len ?h")
        case True
        then show ?thesis using hdr by (simp add: at1 decode_resync_append)
      next
        case False
        show ?thesis
        proof (cases "ValidateBodyCRC ?ys 10 (user_len ?h)")
          case True
          then show ?thesis using "1.IH"(3) [OF refl refl] len hdr False app(4)
            by (simp add: at1 at2 app split: prod.splits)
        next
          case body: False
          then show ?thesis using "1.IH"(2) [OF refl refl] len hdr False by (simp add: at1 at2 app)
        qed
      qed
    qed
  qed
qed

section \<open>The receiver implements the stream function\<close>

text \<open>What holds between two calls of \<open>Parse\<close>: each state remembers what it has checked.\<close>

definition rcv_inv :: "LinkLayerReceiver \<Rightarrow> bool" where
  "rcv_inv r \<longleftrightarrow> sb_inv (lr_buffer r) \<and> sb_size (lr_buffer r) = BUFFER_SIZE \<and> length (lr_userData r) = 250 \<and>
     (let xs = unread (lr_buffer r) in
      case lr_state r of
        LRS_Sync \<Rightarrow> True
      | LRS_Header \<Rightarrow> starts M_SYNC_PATTERN xs \<and> 2 \<le> length xs
      | LRS_Body \<Rightarrow> starts M_SYNC_PATTERN xs \<and> 10 \<le> length xs \<and> header_ok xs \<and>
          lr_header r = header_of xs \<and> lr_frameSize r = frame_len (header_of xs))"

abbreviation stream :: "LinkLayerReceiver \<Rightarrow> bytes" where
  "stream r \<equiv> unread (lr_buffer r)"

text \<open>The checks on the buffer are the checks on the stream.\<close>

lemma take_unread:
  "sb_inv s \<Longrightarrow> n \<le> length (unread s) \<Longrightarrow> take n (drop (sb_read s) (sb_buffer s)) = take n (unread s)"
  by (simp only: length_unread) (simp add: unread_def min_absorb1)

lemma unread_bound: "sb_inv s \<Longrightarrow> sb_read s + length (unread s) \<le> length (sb_buffer s)"
  by (simp add: length_unread) (simp add: sb_inv_def NumReadBytes_def)

lemma nth_unread: "sb_inv s \<Longrightarrow> i < length (unread s) \<Longrightarrow> sb_buffer s ! (sb_read s + i) = unread s ! i"
  using unread_bound [of s] by (simp add: unread_def length_unread)

lemma header_of_unread:
  assumes "sb_inv s" and "10 \<le> length (unread s)"
  shows "LinkHeader_Read (sb_buffer s) (sb_read s) h = header_of (unread s)"
proof -
  have nth: "sb_buffer s ! (sb_read s + i) = unread s ! i" if "i < 10" for i
    using nth_unread [OF assms(1)] assms(2) that by simp
  show ?thesis
    using nth [of 2] nth [of 3] nth [of 4] nth [of 5] nth [of 6] nth [of 7]
    by (cases h) (simp add: header_of_def LinkHeader_Read_def link_consts UInt16LE_Read_def add.commute
        del: add_2_eq_Suc add_2_eq_Suc')
qed

lemma crc_unread:
  "sb_inv s \<Longrightarrow> 10 \<le> length (unread s) \<Longrightarrow> IsCorrectCRC (sb_buffer s) (sb_read s) 8 = IsCorrectCRC (unread s) 0 8"
  using unread_bound [of s] by (intro IsCorrectCRC_cong) (simp_all add: take_unread)

lemma body_unread:
  assumes "sb_inv s" and "10 + body_len n \<le> length (unread s)"
  shows "ValidateBodyCRC (sb_buffer s) (sb_read s + 10) n = ValidateBodyCRC (unread s) 10 n"
    and "body_data (drop (sb_read s + 10) (sb_buffer s)) n = body_data (drop 10 (unread s)) n"
proof -
  have "drop 10 (take (10 + body_len n) (drop (sb_read s) (sb_buffer s))) = drop 10 (take (10 + body_len n) (unread s))"
    using take_unread [OF assms] by simp
  then have eq: "take (body_len n) (drop (sb_read s + 10) (sb_buffer s)) = take (body_len n) (drop 10 (unread s))"
    by (simp add: drop_take add.commute)
  then show "ValidateBodyCRC (sb_buffer s) (sb_read s + 10) n = ValidateBodyCRC (unread s) 10 n"
    using unread_bound [OF assms(1)] assms(2) by (intro ValidateBodyCRC_cong) auto
  show "body_data (drop (sb_read s + 10) (sb_buffer s)) n = body_data (drop 10 (unread s)) n"
    using body_data_take [of n "body_len n" "drop (sb_read s + 10) (sb_buffer s)"]
      body_data_take [of n "body_len n" "drop 10 (unread s)"] eq by simp
qed

text \<open>What \<open>ReadHeader\<close> and \<open>PushFrame\<close> do, in terms of the stream.\<close>

lemma ValidLength_5: "ValidLength h \<longleftrightarrow> 5 \<le> unat (lh_length h)"
  by (auto simp: ValidLength_def word_less_nat_alt)

lemma user_len_word:
  assumes "ValidLength h"
  shows "unat (lh_length h - of_nat LS_MIN_LENGTH) = user_len h"
proof -
  have "(5 :: byte) \<le> lh_length h" using assms by (simp add: ValidLength_5 word_le_nat_alt)
  then show ?thesis by (simp add: link_consts user_len_def unat_sub)
qed

lemma ReadHeader_stream:
  assumes "sb_inv (lr_buffer r)" and "10 \<le> length (stream r)"
  shows "fst (ReadHeader r) = header_ok (stream r)"
    and "lr_buffer (snd (ReadHeader r)) = lr_buffer r" and "lr_userData (snd (ReadHeader r)) = lr_userData r"
    and "lr_sink (snd (ReadHeader r)) = lr_sink r" and "lr_header (snd (ReadHeader r)) = header_of (stream r)"
    and "header_ok (stream r) \<Longrightarrow> lr_frameSize (snd (ReadHeader r)) = frame_len (header_of (stream r))"
proof -
  let ?h = "header_of (stream r)"
  have pos: "lh_length ?h - of_nat LS_MIN_LENGTH > 0 \<longleftrightarrow> 0 < user_len ?h" if "ValidLength ?h"
    using user_len_word [OF that] by (simp add: word_less_nat_alt)
  have eq: "ReadHeader r = ValidateHeader (r\<lparr>lr_header := ?h\<rparr>)"
    by (simp add: ReadHeader_def header_of_unread [OF assms])
  note unf = eq ValidateHeader_def Let_def crc_unread [OF assms] header_ok_def is_data_def
  show "fst (ReadHeader r) = header_ok (stream r)"
    by (auto simp: unf LI_CRC_def simp flip: pos)
  show "lr_buffer (snd (ReadHeader r)) = lr_buffer r" "lr_userData (snd (ReadHeader r)) = lr_userData r"
    "lr_sink (snd (ReadHeader r)) = lr_sink r" "lr_header (snd (ReadHeader r)) = header_of (stream r)"
    by (simp_all add: unf)
  show "lr_frameSize (snd (ReadHeader r)) = frame_len (header_of (stream r))" if "header_ok (stream r)"
    using that by (simp add: unf LI_CRC_def frame_len_def user_len_word)
qed

lemma push_to_sink_stream:
  assumes "sb_inv (lr_buffer r)" and "frame_len (lr_header r) \<le> length (stream r)" and "length (lr_userData r) = 250"
  shows "lr_sink (push_to_sink r) = lr_sink r @ frame_call (lr_header r) (body_data (drop 10 (stream r)) (user_len (lr_header r)))"
    and "length (lr_userData (push_to_sink r)) = 250" and "lr_header (push_to_sink r) = lr_header r"
    and "lr_state (push_to_sink r) = lr_state r"
proof -
  let ?n = "user_len (lr_header r)" let ?b = "lr_buffer r" let ?xs = "body_data (drop 10 (stream r)) ?n"
  have len: "10 + body_len ?n \<le> length (stream r)" using assms(2) by (simp add: frame_len_user)
  have xs: "length ?xs = ?n" using len by (intro length_body_data) simp
  have "ReadUserData (sb_buffer ?b) (sb_read ?b + 10) (lr_userData r) 0 ?n = blit (lr_userData r) 0 ?xs"
    using ReadUserData_data [of "sb_read ?b + 10" ?n "sb_buffer ?b" 0 "lr_userData r"]
      unread_bound [OF assms(1)] len body_unread(2) [OF assms(1) len] user_len_le [of "lr_header r"] assms(3) by simp
  then have t: "TransferUserData r = (?n, r\<lparr>lr_userData := blit (lr_userData r) 0 ?xs\<rparr>)"
    by (simp add: TransferUserData_def Let_def link_consts user_len_def)
  have "take ?n (blit (lr_userData r) 0 ?xs) = ?xs"
    using take_blit_upto [of 0 "lr_userData r" ?xs] xs by simp
  moreover have "length (blit (lr_userData r) 0 ?xs) = 250"
    using assms(3) xs user_len_le [of "lr_header r"] by simp
  ultimately show "lr_sink (push_to_sink r) = lr_sink r @ frame_call (lr_header r) ?xs"
    "length (lr_userData (push_to_sink r)) = 250" "lr_header (push_to_sink r) = lr_header r"
    "lr_state (push_to_sink r) = lr_state r"
    using assms(3) t by (simp_all add: push_to_sink_def frame_call_def Let_def call_sink_def split: FuncCodes.split)
qed

text \<open>Skipping bytes and going back to the synchronising state.\<close>

lemma advance_sync:
  assumes "sb_inv (lr_buffer r)" and "sb_size (lr_buffer r) = BUFFER_SIZE" and "length (lr_userData r) = 250"
    and "n \<le> length (stream r)"
  obtains r' where "then_return (in_order [on_buffer (AdvanceRead n), change_lrs LRS_Sync]) True r = (Inr True, r')"
    and "rcv_inv r'" and "stream r' = drop n (stream r)" and "lr_sink r' = lr_sink r"
proof -
  note adv = AdvanceRead_ok [OF assms(1) assms(4)]
  obtain b where b: "AdvanceRead n (lr_buffer r) = (None, b)"
    using adv(1) by (cases "AdvanceRead n (lr_buffer r)") simp
  have "then_return (in_order [on_buffer (AdvanceRead n), change_lrs LRS_Sync]) True r
      = (Inr True, r\<lparr>lr_buffer := b, lr_state := LRS_Sync\<rparr>)"
    by (simp add: then_return_def on_buffer_def change_lrs_def handler_simps b)
  moreover have "rcv_inv (r\<lparr>lr_buffer := b, lr_state := LRS_Sync\<rparr>)"
    using adv(2) assms(2,3) sb_size_AdvanceRead [of n "lr_buffer r"] by (simp add: rcv_inv_def b)
  ultimately show thesis using that adv(3) by (simp add: b)
qed

text \<open>One step: the calls it makes are the next ones of the stream, and it stops only when the rest is too short.\<close>

definition parse_step_ok :: "LinkLayerReceiver \<Rightarrow> bool \<Rightarrow> LinkLayerReceiver \<Rightarrow> bool" where
  "parse_step_ok r again r' \<longleftrightarrow> rcv_inv r' \<and>
     (\<exists>calls. lr_sink r' = lr_sink r @ calls \<and>
       decode (stream r) = (calls @ fst (decode (stream r')), snd (decode (stream r')))) \<and>
     (\<not> again \<longrightarrow> decode (stream r') = ([], resync (stream r')) \<and> length (stream r') < 292)"

lemma LRS_Sync_step:
  assumes "rcv_inv r" and "lr_state r = LRS_Sync"
  obtains again r' where "Parse r = (Inr again, r')" and "parse_step_ok r again r'"
proof (cases "NumReadBytes (lr_buffer r) < 2")
  case True
  have inv: "sb_inv (lr_buffer r)" using assms by (simp add: rcv_inv_def)
  with True length_resync [of "stream r"] have "length (resync (stream r)) < 10" "length (stream r) < 292"
    by (simp_all add: length_unread)
  then have "parse_step_ok r False r" using assms by (simp add: parse_step_ok_def decode_short)
  then show thesis using that [of False r] True assms by (simp add: Parse_def LRS_Sync_Parse_def)
next
  case False
  have inv: "sb_inv (lr_buffer r)" using assms by (simp add: rcv_inv_def)
  have pat: "M_SYNC_PATTERN \<noteq> []" and len2: "length M_SYNC_PATTERN = 2" by (simp_all add: M_SYNC_PATTERN_def)
  note find = Sync_find [OF inv pat, unfolded len2, folded resync_def]
  obtain found b where b: "Sync M_SYNC_PATTERN 2 (lr_buffer r) = (Inr found, b)"
      and found: "found \<longleftrightarrow> 2 \<le> length (resync (stream r))"
    using find(1) by (cases "Sync M_SYNC_PATTERN 2 (lr_buffer r)") (auto simp: resync_def)
  let ?r = "if found then r\<lparr>lr_buffer := b, lr_state := LRS_Header\<rparr> else r\<lparr>lr_buffer := b\<rparr>"
  have b': "sb_inv b" "unread b = resync (stream r)" "sb_size b = BUFFER_SIZE"
    using find assms by (simp_all add: b rcv_inv_def)
  have "parse_step_ok r True ?r"
    using assms b' found by (simp add: parse_step_ok_def rcv_inv_def decode_resync starts_resync)
  moreover have "Parse r = (Inr True, ?r)"
    using assms(2) False b by (simp add: Parse_def LRS_Sync_Parse_def)
  ultimately show thesis using that by blast
qed

lemma LRS_Header_step:
  assumes "rcv_inv r" and "lr_state r = LRS_Header"
  obtains again r' where "Parse r = (Inr again, r')" and "parse_step_ok r again r'"
proof -
  have inv: "sb_inv (lr_buffer r)" and sync: "resync (stream r) = stream r"
    using assms by (simp_all add: rcv_inv_def Let_def resync_id)
  note len = length_unread [OF inv]
  show thesis
  proof (cases "length (stream r) < 10")
    case True
    then have "parse_step_ok r False r" using assms by (simp add: parse_step_ok_def decode_short sync)
    then show thesis using that [of False r] True assms by (simp add: Parse_def LRS_Header_Parse_def len)
  next
    case False
    then have ten: "10 \<le> length (stream r)" by simp
    note rh = ReadHeader_stream [OF inv ten]
    obtain ok s where s: "ReadHeader r = (ok, s)" by (cases "ReadHeader r")
    have parse: "Parse r = (if ok then (Inr True, s\<lparr>lr_state := LRS_Body\<rparr>)
        else then_return (in_order [on_buffer (AdvanceRead 1), change_lrs LRS_Sync]) True s)"
      using assms(2) False s by (simp add: Parse_def LRS_Header_Parse_def len FailFrame_def split: bool.split)
    show thesis
    proof (cases ok)
      case True
      then have "parse_step_ok r True (s\<lparr>lr_state := LRS_Body\<rparr>)"
        using rh assms ten by (simp add: s parse_step_ok_def rcv_inv_def)
      then show thesis using that parse True by simp
    next
      case False
      have "sb_inv (lr_buffer s)" "sb_size (lr_buffer s) = BUFFER_SIZE" "length (lr_userData s) = 250" "1 \<le> length (stream s)"
        using rh ten assms by (simp_all add: s rcv_inv_def)
      then obtain r' where r': "then_return (in_order [on_buffer (AdvanceRead 1), change_lrs LRS_Sync]) True s = (Inr True, r')"
          "rcv_inv r'" "stream r' = drop 1 (stream s)" "lr_sink r' = lr_sink s"
        by (rule advance_sync)
      have "decode (stream r) = decode (drop 1 (stream r))"
        using decode_at [OF sync ten] rh(1) False by (simp add: s)
      then have "parse_step_ok r True r'" using rh r' by (simp add: s parse_step_ok_def)
      then show thesis using that parse False r' by simp
    qed
  qed
qed

lemma LRS_Body_step:
  assumes "rcv_inv r" and "lr_state r = LRS_Body"
  obtains again r' where "Parse r = (Inr again, r')" and "parse_step_ok r again r'"
proof -
  let ?h = "lr_header r"
  have inv: "sb_inv (lr_buffer r)" "sb_size (lr_buffer r) = BUFFER_SIZE" "length (lr_userData r) = 250"
    and ten: "10 \<le> length (stream r)" and ok: "header_ok (stream r)" and h: "?h = header_of (stream r)"
    and fs: "lr_frameSize r = frame_len ?h" and sync: "resync (stream r) = stream r"
    using assms by (simp_all add: rcv_inv_def Let_def resync_id)
  note len = length_unread [OF inv(1)] and at = decode_at [OF sync ten, folded h]
  show thesis
  proof (cases "length (stream r) < frame_len ?h")
    case True
    then have "length (stream r) < 292" using frame_len_le [of ?h] by simp
    then have "parse_step_ok r False r" using True assms(1) ok by (simp add: parse_step_ok_def at sync)
    then show thesis using that [of False r] True assms by (simp add: Parse_def LRS_Body_Parse_def len fs)
  next
    case False
    then have long: "frame_len ?h \<le> length (stream r)" by simp
    let ?n = "user_len ?h" let ?ok = "ValidateBodyCRC (stream r) 10 ?n"
    have "ValidateBodyCRC (sb_buffer (lr_buffer r)) (sb_read (lr_buffer r) + 10) ?n = ?ok"
      using body_unread(1) [OF inv(1)] long by (simp add: frame_len_user)
    then have vb: "ValidateBody r = (if ?ok then (True, r) else (False, r\<lparr>lr_crcFailures := lr_crcFailures r + 1\<rparr>))"
      by (simp add: ValidateBody_def Let_def link_consts user_len_def)
    show thesis
    proof (cases ?ok)
      case True
      note push = push_to_sink_stream [OF inv(1) long inv(3)]
      have "sb_inv (lr_buffer (push_to_sink r))" "sb_size (lr_buffer (push_to_sink r)) = BUFFER_SIZE"
        "length (lr_userData (push_to_sink r)) = 250" "frame_len ?h \<le> length (stream (push_to_sink r))"
        using inv long push(2) by simp_all
      then obtain r' where r': "then_return (in_order [on_buffer (AdvanceRead (frame_len ?h)), change_lrs LRS_Sync]) True
            (push_to_sink r) = (Inr True, r')"
          "rcv_inv r'" "stream r' = drop (frame_len ?h) (stream (push_to_sink r))" "lr_sink r' = lr_sink (push_to_sink r)"
        by (rule advance_sync)
      have "Parse r = (Inr True, r')"
        using assms(2) long True r'(1)
        by (simp add: Parse_def LRS_Body_Parse_def len fs vb push_then_sync)
      moreover have "parse_step_ok r True r'"
        using r' push(1) long True ok by (simp add: parse_step_ok_def at)
      ultimately show thesis using that by blast
    next
      case body: False
      let ?s = "r\<lparr>lr_crcFailures := lr_crcFailures r + 1\<rparr>"
      have "sb_inv (lr_buffer ?s)" "sb_size (lr_buffer ?s) = BUFFER_SIZE" "length (lr_userData ?s) = 250" "1 \<le> length (stream ?s)"
        using inv ten by simp_all
      then obtain r' where r': "then_return (in_order [on_buffer (AdvanceRead 1), change_lrs LRS_Sync]) True ?s = (Inr True, r')"
          "rcv_inv r'" "stream r' = drop 1 (stream ?s)" "lr_sink r' = lr_sink ?s"
        by (rule advance_sync)
      have "Parse r = (Inr True, r')"
        using assms(2) long body r'(1) by (simp add: Parse_def LRS_Body_Parse_def len fs vb FailFrame_def)
      moreover have "parse_step_ok r True r'"
        using r' long body ok by (simp add: parse_step_ok_def at)
      ultimately show thesis using that by blast
    qed
  qed
qed

lemma Parse_step:
  assumes "rcv_inv r"
  obtains again r' where "Parse r = (Inr again, r')" and "parse_step_ok r again r'"
proof (cases "lr_state r")
  case LRS_Sync
  from LRS_Sync_step [OF assms this] show thesis using that .
next
  case LRS_Header
  from LRS_Header_step [OF assms this] show thesis using that .
next
  case LRS_Body
  from LRS_Body_step [OF assms this] show thesis using that .
qed

text \<open>The whole loop, then a whole read.\<close>

lemma parse_loop_stream:
  "rcv_inv r \<Longrightarrow> fst (parse_loop r) = None \<and> rcv_inv (snd (parse_loop r)) \<and>
     lr_sink (snd (parse_loop r)) = lr_sink r @ fst (decode (stream r)) \<and>
     resync (stream (snd (parse_loop r))) = snd (decode (stream r)) \<and>
     decode (stream (snd (parse_loop r))) = ([], snd (decode (stream r))) \<and>
     length (stream (snd (parse_loop r))) < 292"
proof (induction r rule: parse_loop.induct)
  case (1 r)
  obtain again r' where p: "Parse r = (Inr again, r')" and s: "parse_step_ok r again r'"
    using Parse_step [OF "1.prems"] by blast
  show ?case
  proof (cases again)
    case True
    then have "parse_loop r = parse_loop r'" by (subst parse_loop.simps) (simp add: p)
    then show ?thesis using "1.IH" [OF p [symmetric] refl] True s by (auto simp: parse_step_ok_def p)
  next
    case False
    then have "parse_loop r = (None, r')" by (subst parse_loop.simps) (simp add: p)
    then show ?thesis using False s by (auto simp: parse_step_ok_def)
  qed
qed

definition rcv_room :: "LinkLayerReceiver \<Rightarrow> nat" where
  "rcv_room r = NumWriteBytes (lr_buffer r)"

text \<open>Between two reads the receiver holds less than a frame, at the start of its buffer, and no whole frame.\<close>

definition rcv_idle :: "LinkLayerReceiver \<Rightarrow> bool" where
  "rcv_idle r \<longleftrightarrow> rcv_inv r \<and> decode (stream r) = ([], resync (stream r)) \<and> length (stream r) < 292 \<and>
     rcv_room r = BUFFER_SIZE - length (stream r)"

lemma receive_stream:
  assumes "rcv_idle r" and "length xs \<le> rcv_room r"
  shows "fst (receive xs r) = None" and "rcv_idle (snd (receive xs r))"
    and "lr_sink (snd (receive xs r)) = lr_sink r @ fst (decode (stream r @ xs))"
    and "resync (stream (snd (receive xs r))) = snd (decode (stream r @ xs))"
proof -
  let ?r1 = "r\<lparr>lr_buffer := snd (put_bytes xs (lr_buffer r))\<rparr>"
  have inv: "rcv_inv r" and binv: "sb_inv (lr_buffer r)" using assms(1) by (simp_all add: rcv_idle_def rcv_inv_def)
  have room: "length xs \<le> NumWriteBytes (lr_buffer r)" using assms(2) by (simp add: rcv_room_def)
  note put = sb.put_ok [OF binv room]
  have "rcv_inv ?r1"
    using inv put by (auto simp: rcv_inv_def Let_def header_of_append header_ok_append starts_longer split: LRS.splits)
  note loop = parse_loop_stream [OF this]
  obtain r2 where r2: "parse_loop ?r1 = (None, r2)" using loop by (cases "parse_loop ?r1") simp
  have inv2: "rcv_inv r2" "sb_inv (lr_buffer r2)" using loop by (simp_all add: r2 rcv_inv_def)
  note sh = sb.compact_ok [OF inv2(2)]
  let ?r3 = "r2\<lparr>lr_buffer := snd (Shift (lr_buffer r2))\<rparr>"
  have "OnRead (length xs) (r\<lparr>lr_buffer := fill xs (lr_buffer r)\<rparr>) = (None, ?r3)"
  proof -
    have pb: "put_bytes xs (lr_buffer r) = AdvanceWrite (length xs) (fill xs (lr_buffer r))"
      by (simp add: put_bytes_def handler_simps split: prod.split option.split)
    obtain b where b: "AdvanceWrite (length xs) (fill xs (lr_buffer r)) = (None, b)"
      using put by (cases "AdvanceWrite (length xs) (fill xs (lr_buffer r))") (simp add: pb)
    obtain b2 where b2: "Shift (lr_buffer r2) = (None, b2)"
      using sh by (cases "Shift (lr_buffer r2)") simp
    have "NumWriteBytes (fill xs (lr_buffer r)) = NumWriteBytes (lr_buffer r)" by (simp add: fill_def NumWriteBytes_def)
    then show ?thesis
      using r2 room b b2 by (simp add: OnRead_def handler_simps on_buffer_def pb)
  qed
  then have eq: "receive xs r = (None, ?r3)" by (simp add: receive_def)
  have inv3: "rcv_inv ?r3" using inv2 sh by (simp add: rcv_inv_def Let_def split: LRS.splits)
  show "fst (receive xs r) = None" by (simp add: eq)
  show "lr_sink (snd (receive xs r)) = lr_sink r @ fst (decode (stream r @ xs))"
    using loop put by (simp add: eq r2)
  show "resync (stream (snd (receive xs r))) = snd (decode (stream r @ xs))"
    using loop put sh by (simp add: eq r2)
  show "rcv_idle (snd (receive xs r))"
    using inv3 loop sh inv2 put by (simp add: eq r2 rcv_idle_def rcv_room_def) (simp add: rcv_inv_def)
qed

section \<open>Streams of reads\<close>

text \<open>Reads that fit into the room the receiver offers at that moment (the router asks for no more).\<close>

primrec fits :: "bytes list \<Rightarrow> LinkLayerReceiver \<Rightarrow> bool" where
  "fits [] r = True"
| "fits (c # cs) r = (length c \<le> rcv_room r \<and> fits cs (snd (receive c r)))"

definition fresh_receiver :: "LinkLayerReceiver \<Rightarrow> bool" where
  "fresh_receiver r \<longleftrightarrow> (\<exists>hdr user buf. length user = 250 \<and> length buf = BUFFER_SIZE \<and> r = new_LinkLayerReceiver hdr user buf)"

lemma fresh_receiver_idle: "fresh_receiver r \<Longrightarrow> rcv_idle r \<and> stream r = [] \<and> lr_sink r = []"
  by (auto simp: fresh_receiver_def new_LinkLayerReceiver_def rcv_idle_def rcv_inv_def sb_inv_new unread_new decode_short
      resync_def rcv_room_def NumWriteBytes_def) (simp_all add: new_ShiftableBuffer_def)

lemma receive_run:
  "rcv_idle r \<Longrightarrow> fits cs r \<Longrightarrow> rcv_idle (run receive cs r) \<and>
     lr_sink (run receive cs r) = lr_sink r @ fst (decode (stream r @ concat cs)) \<and>
     resync (stream (run receive cs r)) = snd (decode (stream r @ concat cs))"
proof (induction cs arbitrary: r)
  case Nil
  then show ?case by (simp add: rcv_idle_def)
next
  case (Cons c cs)
  let ?r = "snd (receive c r)"
  have room: "length c \<le> rcv_room r" using Cons.prems by simp
  note step = receive_stream [OF Cons.prems(1) room]
  have IH: "rcv_idle (run receive cs ?r) \<and>
     lr_sink (run receive cs ?r) = lr_sink ?r @ fst (decode (stream ?r @ concat cs)) \<and>
     resync (stream (run receive cs ?r)) = snd (decode (stream ?r @ concat cs))"
    using Cons.IH [OF step(2)] Cons.prems(2) by simp
  have eq: "decode (stream ?r @ concat cs) = decode (snd (decode (stream r @ c)) @ concat cs)"
    using decode_resync_append [of "stream ?r" "concat cs"] step(4) by simp
  show ?case
    using IH step(3) decode_append [of "stream r @ c" "concat cs"] by (simp add: eq)
qed

lemma rcv_room_bound: "rcv_idle r \<Longrightarrow> 4673 \<le> rcv_room r"
  by (auto simp: rcv_idle_def BUFFER_SIZE_def)

text \<open>A formatted frame at the front of a stream in step is the next call.\<close>

definition deliverable :: "LinkFrame \<Rightarrow> LinkHeader \<Rightarrow> bytes \<Rightarrow> bool" where
  "deliverable f h xs \<longleftrightarrow> carries f h xs \<and> unat (lh_length h) = length xs + 5 \<and> ValidateFunctionCode h \<and>
     (is_data h \<longleftrightarrow> xs \<noteq> [])"

lemma decode_frame:
  assumes "deliverable f h xs"
  shows "decode (frame_bytes f @ ys) = (frame_call h xs @ fst (decode ys), snd (decode ys))"
proof -
  let ?zs = "frame_bytes f @ ys"
  have fb: "frame_bytes f = header_bytes h @ encode_body xs"
    and len: "unat (lh_length h) = length xs + 5" and fc: "ValidateFunctionCode h" and data: "is_data h \<longleftrightarrow> xs \<noteq> []"
    using assms by (simp_all add: deliverable_def carries_def)
  have ul: "user_len h = length xs" using len by (simp add: user_len_def)
  have fl: "frame_len h = length (frame_bytes f)" by (simp add: fb frame_len_user ul length_encode_body)
  have "starts M_SYNC_PATTERN ?zs"
    by (simp add: fb starts_def M_SYNC_PATTERN_def header_bytes_def sealed_def header_block_def)
  then have sync: "resync ?zs = ?zs" by (rule resync_id)
  have h: "header_of ?zs = h" using LinkHeader_Read_bytes [of "[]" h] by (simp add: header_of_def fb)
  have crc: "IsCorrectCRC ?zs 0 8" by (rule take_header [of _ h]) (simp_all add: fb)
  have ok: "header_ok ?zs" using crc fc data len by (simp add: header_ok_def h ul ValidLength_5)
  have body: "ValidateBodyCRC ?zs 10 (length xs)"
    by (rule ValidateBodyCRC_encode_body) (simp_all add: fb length_encode_body)
  have "body_data (encode_body xs @ ys) (length xs) = xs"
    using body_data_append [of "length xs" "encode_body xs" ys] by (simp add: length_encode_body body_data_encode_body)
  then have bd: "body_data (drop 10 ?zs) (user_len h) = xs" by (simp add: fb ul)
  have "10 \<le> length ?zs" by (simp add: fb)
  from decode_at [OF sync this] show ?thesis
    using ok body fl bd by (simp add: h ul)
qed

text \<open>Bytes that cannot start a frame are skipped.\<close>

lemma find_sync_noise: "0x05 \<notin> set noise \<Longrightarrow> find_sync M_SYNC_PATTERN (noise @ ys) = length noise + find_sync M_SYNC_PATTERN ys"
  by (induction noise) (auto simp: starts_def M_SYNC_PATTERN_def)

lemma decode_noise: "0x05 \<notin> set noise \<Longrightarrow> decode (noise @ ys) = decode ys"
  using decode_resync [of "noise @ ys"] decode_resync [of ys] by (simp add: resync_def find_sync_noise)

lemma decode_frames:
  "(\<And>f. f \<in> set fs \<Longrightarrow> deliverable f (h f) (d f)) \<Longrightarrow>
   decode (concat (map frame_bytes fs)) = (concat (map (\<lambda>f. frame_call (h f) (d f)) fs), [])"
proof (induction fs)
  case (Cons f fs)
  then show ?case using decode_frame [of f "h f" "d f"] by simp
qed (simp add: decode_short resync_def)

lemma formatted_fields:
  assumes "h = formatted_header n m b v c d s" and "c \<noteq> FC_INVALID"
  shows "IsFromMaster h = m" and "IsFcbSet h = b" and "IsFcvDfcSet h = v" and "GetFuncEnum h = c"
    and "IsPriToSec h = (FuncCodeByte c AND MASK_PRM \<noteq> 0)" and "lh_dest h = d" and "lh_src h = s"
  using ControlByte_fields [of h m b v c] assms by (simp_all add: formatted_header_def)

text \<open>The function code, FCB and FCV (or DFC) combinations the two sides may use.\<close>

definition legal_control :: "FuncCodes \<Rightarrow> bool \<Rightarrow> bool \<Rightarrow> bool" where
  "legal_control c b v \<longleftrightarrow> c \<noteq> FC_INVALID \<and>
     (if c \<in> {FC_PRI_CONFIRMED_USER_DATA, FC_PRI_TEST_LINK_STATES} then v
      else if c \<in> {FC_PRI_REQUEST_LINK_STATUS, FC_PRI_RESET_LINK_STATES, FC_PRI_UNCONFIRMED_USER_DATA} then \<not> v
      else \<not> b)"

lemma legal_control_valid:
  assumes "legal_control c b v" and "GetFuncEnum h = c" and "IsPriToSec h = (FuncCodeByte c AND MASK_PRM \<noteq> 0)"
    and "IsFcbSet h = b" and "IsFcvDfcSet h = v"
  shows "ValidateFunctionCode h"
  using assms by (cases c) (auto simp: ValidateFunctionCode_def legal_control_def link_consts)

lemma formatted_deliverable:
  assumes "carries f (formatted_header (length xs) m b v c d s) xs" and "length xs \<le> 250" and "legal_control c b v"
    and "xs \<noteq> [] \<longleftrightarrow> c = FC_PRI_CONFIRMED_USER_DATA \<or> c = FC_PRI_UNCONFIRMED_USER_DATA"
  shows "deliverable f (formatted_header (length xs) m b v c d s) xs"
proof -
  let ?h = "formatted_header (length xs) m b v c d s"
  have c: "c \<noteq> FC_INVALID" using assms(3) by (simp add: legal_control_def)
  note fields = formatted_fields [OF refl c, of "length xs" m b v d s]
  have "ValidateFunctionCode ?h"
    using assms(3) fields(4,5,2,3) by (rule legal_control_valid)
  then show ?thesis using assms(1,2,4) by (simp add: deliverable_def formatted_length is_data_def fields)
qed

text \<open>Reads no longer than what is always free fit.\<close>

lemma fits_small: "rcv_idle r \<Longrightarrow> (\<And>c. c \<in> set cs \<Longrightarrow> length c \<le> 4673) \<Longrightarrow> fits cs r"
proof (induction cs arbitrary: r)
  case (Cons c cs)
  have "length c \<le> 4673" using Cons.prems(2) by simp
  with rcv_room_bound [OF Cons.prems(1)] have "length c \<le> rcv_room r" by simp
  with Cons show ?case by (simp add: receive_stream)
qed simp

section \<open>Properties\<close>

definition example_receiver :: LinkLayerReceiver where
  "example_receiver = new_LinkLayerReceiver (lf_header blank_frame) (replicate 250 0) (replicate BUFFER_SIZE 0)"

lemma example_receiver_fresh: "fresh_receiver example_receiver"
  unfolding fresh_receiver_def example_receiver_def by (intro exI conjI) (rule length_replicate refl)+

text \<open>C1: The frames the receiver pushes to its sink are those of the stream function, computed from the
  bytes received so far as one list: it makes no difference how the bytes were cut into reads, which of
  the parser's states a read ended in, or where in the buffer a frame lay.\<close>

theorem receiver_refines_decode:
  assumes "fresh_receiver r" and "fits chunks r"
  shows "lr_sink (run receive chunks r) = fst (decode (concat chunks))"
  using fresh_receiver_idle [OF assms(1)] receive_run [OF _ assms(2)] by simp

theorem receiver_refines_decode_witness:
  "lr_sink (run receive [[5], [0x64, 0, 1], []] example_receiver) = fst (decode [5, 0x64, 0, 1])"
proof -
  have "fits [[5], [0x64, 0, 1], []] example_receiver"
    by (rule fits_small) (use fresh_receiver_idle [OF example_receiver_fresh] in auto)
  from receiver_refines_decode [OF example_receiver_fresh this] show ?thesis by simp
qed

text \<open>C39: Whatever bytes arrive in whatever reads, no read makes the receiver throw or fail its assertion,
  and after each read it has room for at least 4673 more bytes: a stream of garbage cannot fill it up.\<close>

theorem receiver_never_stalls:
  assumes "fresh_receiver r" and "fits chunks r"
  shows "4673 \<le> rcv_room (run receive chunks r)
    \<and> (length xs \<le> rcv_room (run receive chunks r) \<longrightarrow> fst (receive xs (run receive chunks r)) = None)"
proof -
  have "rcv_idle (run receive chunks r)"
    using fresh_receiver_idle [OF assms(1)] receive_run [OF _ assms(2)] by simp
  then show ?thesis using receive_stream(1) rcv_room_bound by blast
qed

theorem receiver_never_stalls_witness:
  "fst (receive [1, 2, 3] (run receive [[5, 0x64, 5, 0, 5, 0x64, 0, 0], [0, 0, 0]] example_receiver)) = None"
proof -
  have "fits [[5, 0x64, 5, 0, 5, 0x64, 0, 0], [0, 0, 0]] example_receiver"
    by (rule fits_small) (use fresh_receiver_idle [OF example_receiver_fresh] in auto)
  from receiver_never_stalls [OF example_receiver_fresh this, of "[1, 2, 3]"] show ?thesis by simp
qed

text \<open>A stream of bytes made of noise without a start byte and then of formatted user-data frames is
  turned into exactly the payloads, in order and each once, with the addresses and the direction they
  were sent with, however the stream is cut into reads.\<close>

theorem user_data_stream_delivered:
  assumes "fresh_receiver r" and "fits chunks r" and "0x05 \<notin> set noise"
    and "\<forall>xs \<in> set payloads. 0 < length xs \<and> length xs \<le> LS_MAX_USER_DATA_SIZE"
    and "concat chunks = noise @ concat (map (\<lambda>xs. frame_bytes
           (snd (FormatUnconfirmedUserData aIsMaster aDest aSrc xs (length xs) blank_frame))) payloads)"
  shows "lr_sink (run receive chunks r) = map (UnconfirmedUserData aIsMaster aDest aSrc) payloads"
proof -
  let ?f = "\<lambda>xs. snd (FormatUnconfirmedUserData aIsMaster aDest aSrc xs (length xs) blank_frame)"
  let ?h = "\<lambda>xs. formatted_header (length xs) aIsMaster False False FC_PRI_UNCONFIRMED_USER_DATA aDest aSrc"
  have each: "decode (frame_bytes (?f xs) @ ys) = (UnconfirmedUserData aIsMaster aDest aSrc xs # fst (decode ys), snd (decode ys))"
    if "xs \<in> set payloads" for xs ys
  proof -
    have len: "0 < length xs" "length xs \<le> 250" using assms(4) that by (simp_all add: link_consts)
    have "carries (?f xs) (?h xs) xs"
      using FormatUnconfirmedUserData_carries(2) [OF frame_ok_blank len order_refl] by simp
    then have "deliverable (?f xs) (?h xs) xs"
      using len by (intro formatted_deliverable) (auto simp: legal_control_def)
    from decode_frame [OF this] show ?thesis
      using formatted_fields [OF refl, of FC_PRI_UNCONFIRMED_USER_DATA "length xs" aIsMaster False False aDest aSrc]
      by (simp add: frame_call_def Let_def)
  qed
  have "fst (decode (concat (map (\<lambda>xs. frame_bytes (?f xs)) ps))) = map (UnconfirmedUserData aIsMaster aDest aSrc) ps"
    if "set ps \<subseteq> set payloads" for ps
    using that by (induction ps) (simp_all add: each decode_short resync_def)
  then have "fst (decode (concat chunks)) = map (UnconfirmedUserData aIsMaster aDest aSrc) payloads"
    by (simp add: assms(5) decode_noise [OF assms(3)])
  then show ?thesis using fresh_receiver_idle [OF assms(1)] receive_run [OF _ assms(2)] by simp
qed

theorem user_data_stream_delivered_witness:
  "let b = frame_bytes (snd (FormatUnconfirmedUserData True 1024 1 [5, 0x64] 2 blank_frame))
   in lr_sink (run receive [[0x64, 0] @ take 4 b, drop 4 b @ take 11 b, drop 11 b] example_receiver)
     = [UnconfirmedUserData True 1024 1 [5, 0x64], UnconfirmedUserData True 1024 1 [5, 0x64]]"
proof -
  let ?b = "frame_bytes (snd (FormatUnconfirmedUserData True 1024 1 [5, 0x64] 2 blank_frame))"
  let ?chunks = "[[0x64, 0] @ take 4 ?b, drop 4 ?b @ take 11 ?b, drop 11 ?b]"
  have "carries (snd (FormatUnconfirmedUserData True 1024 1 [5, 0x64] 2 blank_frame))
      (formatted_header 2 True False False FC_PRI_UNCONFIRMED_USER_DATA 1024 1) [5, 0x64]"
    using FormatUnconfirmedUserData_carries(2) [OF frame_ok_blank, of 2 "[5, 0x64]" True 1024 1] by simp
  then have "length ?b = 10 + body_len (length [5 :: byte, 0x64])" by (simp add: carries_def length_encode_body)
  then have len: "length ?b = 14" by (simp add: body_len_def)
  have "fits ?chunks example_receiver"
    by (rule fits_small) (use fresh_receiver_idle [OF example_receiver_fresh] len in auto)
  note delivered = user_data_stream_delivered [OF example_receiver_fresh this, of "[0x64, 0]" "[[5, 0x64], [5, 0x64]]" True 1024 1]
  have halves: "take n xs @ drop n xs @ ys = xs @ ys" for n and xs ys :: bytes by (simp flip: append_assoc)
  have "lr_sink (run receive ?chunks example_receiver) = map (UnconfirmedUserData True 1024 1) [[5, 0x64], [5, 0x64]]"
    by (rule delivered) (simp_all add: link_consts halves, simp add: numeral_2_eq_2)
  then show ?thesis by (simp only: Let_def list.map)
qed

lemma receive_one_frame:
  assumes "fresh_receiver r" and "deliverable f h xs"
  shows "lr_sink (snd (receive (frame_bytes f) r)) = frame_call h xs"
proof -
  note idle = fresh_receiver_idle [OF assms(1)]
  have "length (frame_bytes f) \<le> 292"
    using frame_len_le [of h] assms(2) by (auto simp: deliverable_def carries_def length_encode_body frame_len_user user_len_def)
  moreover have "4673 \<le> rcv_room r" using idle by (simp add: rcv_room_bound)
  ultimately have "length (frame_bytes f) \<le> rcv_room r" by simp
  then show ?thesis
    using receive_stream(3) [of r "frame_bytes f"] idle decode_frame [OF assms(2), of "[]"]
    by (simp add: decode_short resync_def)
qed

lemma receive_control_frame:
  assumes "fresh_receiver r" and "legal_control c b v"
    and "c \<noteq> FC_PRI_CONFIRMED_USER_DATA" and "c \<noteq> FC_PRI_UNCONFIRMED_USER_DATA"
  shows "lr_sink (snd (receive (frame_bytes (snd (FormatHeader 0 m b v c d s blank_frame))) r))
    = frame_call (formatted_header 0 m b v c d s) []"
proof (rule receive_one_frame [OF assms(1)])
  show "deliverable (snd (FormatHeader 0 m b v c d s blank_frame)) (formatted_header 0 m b v c d s) []"
    using formatted_deliverable [of _ "[]" m b v c d s] FormatHeader_carries(2) [OF frame_ok_blank, of m b v c d s] assms
    by simp
qed

lemmas receive_format = FormatAck_def FormatNack_def FormatLinkStatus_def FormatNotSupported_def
  FormatResetLinkStates_def FormatRequestLinkStatus_def FormatTestLinkStatus_def
  receive_control_frame legal_control_def frame_call_def formatted_fields [OF refl]

text \<open>Each of the other eight frames a station can format is received as the call it stands for, with
  the same direction, addresses and bits (and payload): none is dropped or taken for another.\<close>

theorem formatted_frames_recognised:
  assumes "fresh_receiver r" and "0 < length xs" and "length xs \<le> LS_MAX_USER_DATA_SIZE"
    and "got = (\<lambda>format. lr_sink (snd (receive (frame_bytes (snd (format blank_frame))) r)))"
  shows "got (FormatAck m b d s) = [Ack m b d s] \<and> got (FormatNack m b d s) = [Nack m b d s]
    \<and> got (FormatLinkStatus m b d s) = [LinkStatus m b d s] \<and> got (FormatNotSupported m b d s) = [NotSupported m b d s]
    \<and> got (FormatResetLinkStates m d s) = [ResetLinkStates m d s]
    \<and> got (FormatRequestLinkStatus m d s) = [RequestLinkStatus m d s]
    \<and> got (FormatTestLinkStatus m b d s) = [TestLinkStatus m b d s]
    \<and> got (FormatConfirmedUserData m b d s xs (length xs)) = [ConfirmedUserData m b d s xs]"
proof (intro conjI)
  have len: "length xs \<le> 250" using assms(3) by (simp add: link_consts)
  have "carries (snd (FormatConfirmedUserData m b d s xs (length xs) blank_frame))
      (formatted_header (length xs) m b True FC_PRI_CONFIRMED_USER_DATA d s) xs"
    using FormatConfirmedUserData_carries(2) [OF frame_ok_blank assms(2) len order_refl] by simp
  then have "deliverable (snd (FormatConfirmedUserData m b d s xs (length xs) blank_frame))
      (formatted_header (length xs) m b True FC_PRI_CONFIRMED_USER_DATA d s) xs"
    using len assms(2) by (intro formatted_deliverable) (auto simp: legal_control_def)
  from receive_one_frame [OF assms(1) this]
  show "got (FormatConfirmedUserData m b d s xs (length xs)) = [ConfirmedUserData m b d s xs]"
    by (simp add: assms(4) receive_format)
qed (simp_all add: assms(1,4) receive_format)

theorem formatted_frames_recognised_witness:
  "lr_sink (snd (receive (frame_bytes (snd (FormatNack False True 1 1024 blank_frame))) example_receiver))
    = [Nack False True 1 1024]"
  using formatted_frames_recognised [OF example_receiver_fresh, of "[7]" _ False True 1 1024, OF _ _ refl]
  by (simp add: link_consts)

end
