(* ===== verification/LinkLayers.thy ===== *)
theory LinkLayers
  imports LinkReceivers
begin

text \<open>
  The link layer of one session: opendnp3/DNP3/LinkLayer.h, .cpp, the states of its primary half
  (PriLinkLayerStates.h, .cpp) and of its secondary half (SecLinkLayerStates.h, .cpp) and its
  configuration (LinkConfig.h). What it calls on its neighbours (the router, the upper layer, the
  timer source) is recorded in \<open>ll_out\<close> in the order of the calls; every such call is the last
  statement of its handler or has no influence on the rest of it, so what the neighbour calls back
  is a later event. Proved are the invariant of the two state machines and that they fail no
  assertion, the bound on retries, that every send is completed exactly once, and that two stations
  deliver confirmed data at most once over a line that loses frames.
\<close>

section \<open>The code\<close>

record LinkConfig =
  lc_IsMaster :: bool
  lc_UseConfirms :: bool
  lc_NumRetry :: nat
  lc_LocalAddr :: u16
  lc_RemoteAddr :: u16
  lc_Timeout :: nat

text \<open>The second constructor of \<open>LinkConfig\<close>.\<close>

definition default_LinkConfig :: "bool \<Rightarrow> bool \<Rightarrow> LinkConfig" where
  "default_LinkConfig aIsMaster aUseConfirms =
     \<lparr>lc_IsMaster = aIsMaster, lc_UseConfirms = aUseConfirms, lc_NumRetry = 0,
      lc_LocalAddr = (if aIsMaster then 1 else 1024), lc_RemoteAddr = (if aIsMaster then 1024 else 1),
      lc_Timeout = 1000\<rparr>"

datatype PriState = PLLS_SecNotReset | PLLS_SecReset | PLLS_ResetLinkWait | PLLS_ConfDataWait

datatype SecState = SLLS_NotReset | SLLS_Reset

datatype LinkOut =
    Router_Transmit LinkFrame
  | Upper_OnReceive bytes
  | Upper_OnSendSuccess
  | Upper_OnSendFailure
  | Upper_OnLowerLayerUp
  | Upper_OnLowerLayerDown
  | Timer_Start nat
  | Timer_Cancel

text \<open>
  The members; of the pointers \<open>mpTimer\<close>, \<open>mpRouter\<close> and \<open>mpUpperLayer\<close> whether they are set. A
  call through the null \<open>mpRouter\<close> (undefined in the code) counts as a failed assertion.
\<close>

record LinkLayer =
  ll_CONFIG :: LinkConfig
  ll_PriFrame :: LinkFrame
  ll_SecFrame :: LinkFrame
  ll_DelayedPriFrame :: LinkFrame
  ll_retryRemaining :: nat
  ll_timer :: bool
  ll_nextReadFCB :: bool
  ll_nextWriteFCB :: bool
  ll_isOnline :: bool
  ll_router :: bool
  ll_upper :: bool
  ll_priState :: PriState
  ll_secState :: SecState
  ll_out :: "LinkOut list"

definition new_LinkLayer :: "LinkConfig \<Rightarrow> LinkFrame \<Rightarrow> LinkFrame \<Rightarrow> LinkFrame \<Rightarrow> LinkLayer" where
  "new_LinkLayer arConfig pri sec delayed =
     \<lparr>ll_CONFIG = arConfig, ll_PriFrame = pri, ll_SecFrame = sec, ll_DelayedPriFrame = delayed,
      ll_retryRemaining = 0, ll_timer = False, ll_nextReadFCB = False, ll_nextWriteFCB = False,
      ll_isOnline = False, ll_router = False, ll_upper = False,
      ll_priState = PLLS_SecNotReset, ll_secState = SLLS_NotReset, ll_out = []\<rparr>"

definition ll_emit :: "LinkOut \<Rightarrow> LinkLayer handler" where
  [handler_simps]: "ll_emit c = modify (\<lambda>s. s\<lparr>ll_out := ll_out s @ [c]\<rparr>)"

definition LinkLayer_SetRouter :: "LinkLayer handler" where
  "LinkLayer_SetRouter = in_order
     [assert_that (\<lambda>s. \<not> ll_router s),
      modify (\<lambda>s. s\<lparr>ll_router := True\<rparr>)]"

definition LinkLayer_SetUpperLayer :: "LinkLayer handler" where
  "LinkLayer_SetUpperLayer = modify (\<lambda>s. s\<lparr>ll_upper := True\<rparr>)"

definition LinkLayer_ChangePriState :: "PriState \<Rightarrow> LinkLayer handler" where
  [handler_simps]: "LinkLayer_ChangePriState st = modify (\<lambda>s. s\<lparr>ll_priState := st\<rparr>)"

definition LinkLayer_ChangeSecState :: "SecState \<Rightarrow> LinkLayer handler" where
  [handler_simps]: "LinkLayer_ChangeSecState st = modify (\<lambda>s. s\<lparr>ll_secState := st\<rparr>)"

definition DoDataUp :: "bytes \<Rightarrow> LinkLayer handler" where
  [handler_simps]: "DoDataUp d = if_else ll_upper (ll_emit (Upper_OnReceive d)) skip"

definition DoSendSuccess :: "LinkLayer handler" where
  [handler_simps]: "DoSendSuccess = if_else ll_upper (ll_emit Upper_OnSendSuccess) skip"

definition DoSendFailure :: "LinkLayer handler" where
  [handler_simps]: "DoSendFailure = if_else ll_upper (ll_emit Upper_OnSendFailure) skip"

definition ResetReadFCB :: "LinkLayer handler" where
  [handler_simps]: "ResetReadFCB = modify (\<lambda>s. s\<lparr>ll_nextReadFCB := True\<rparr>)"

definition ToggleReadFCB :: "LinkLayer handler" where
  [handler_simps]: "ToggleReadFCB = modify (\<lambda>s. s\<lparr>ll_nextReadFCB := \<not> ll_nextReadFCB s\<rparr>)"

definition ResetWriteFCB :: "LinkLayer handler" where
  [handler_simps]: "ResetWriteFCB = modify (\<lambda>s. s\<lparr>ll_nextWriteFCB := True\<rparr>)"

definition ToggleWriteFCB :: "LinkLayer handler" where
  [handler_simps]: "ToggleWriteFCB = modify (\<lambda>s. s\<lparr>ll_nextWriteFCB := \<not> ll_nextWriteFCB s\<rparr>)"

text \<open>\<open>Validate\<close>: the exception, or whether the frame is for this layer.\<close>

definition LinkLayer_Validate :: "bool \<Rightarrow> u16 \<Rightarrow> u16 \<Rightarrow> LinkLayer \<Rightarrow> exn + bool" where
  "LinkLayer_Validate aIsMaster aSrc aDest s =
     (if \<not> ll_isOnline s then Inl InvalidStateException
      else if aIsMaster = lc_IsMaster (ll_CONFIG s) then Inr False
      else if aDest \<noteq> lc_LocalAddr (ll_CONFIG s) then Inr False
      else if aSrc \<noteq> lc_RemoteAddr (ll_CONFIG s) then Inr False
      else Inr True)"

definition LinkLayer_OnLowerLayerUp :: "LinkLayer handler" where
  "LinkLayer_OnLowerLayerUp = in_order
     [throw_if ll_isOnline InvalidStateException,
      modify (\<lambda>s. s\<lparr>ll_isOnline := True\<rparr>),
      if_else ll_upper (ll_emit Upper_OnLowerLayerUp) skip]"

definition ll_StartTimer :: "LinkLayer handler" where
  "ll_StartTimer = in_order
     [assert_that (\<lambda>s. \<not> ll_timer s),
      reading (\<lambda>s. ll_emit (Timer_Start (lc_Timeout (ll_CONFIG s)))),
      modify (\<lambda>s. s\<lparr>ll_timer := True\<rparr>)]"

definition ll_CancelTimer :: "LinkLayer handler" where
  "ll_CancelTimer = in_order
     [assert_that ll_timer,
      ll_emit Timer_Cancel,
      modify (\<lambda>s. s\<lparr>ll_timer := False\<rparr>)]"

definition LinkLayer_OnLowerLayerDown :: "LinkLayer handler" where
  "LinkLayer_OnLowerLayerDown = in_order
     [throw_if (\<lambda>s. \<not> ll_isOnline s) InvalidStateException,
      if_else ll_timer ll_CancelTimer skip,
      modify (\<lambda>s. s\<lparr>ll_isOnline := False\<rparr>),
      modify (\<lambda>s. s\<lparr>ll_priState := PLLS_SecNotReset\<rparr>),
      modify (\<lambda>s. s\<lparr>ll_secState := SLLS_NotReset\<rparr>),
      if_else ll_upper (ll_emit Upper_OnLowerLayerDown) skip]"

definition LinkLayer_Transmit :: "(LinkLayer \<Rightarrow> LinkFrame) \<Rightarrow> LinkLayer handler" where
  "LinkLayer_Transmit arFrame = in_order
     [assert_that ll_router,
      reading (\<lambda>s. ll_emit (Router_Transmit (arFrame s)))]"

text \<open>Formatting one of the three frame members, with the configured addresses.\<close>

definition on_PriFrame :: "(LinkConfig \<Rightarrow> LinkFrame handler) \<Rightarrow> LinkLayer handler" where
  "on_PriFrame f s = (case f (ll_CONFIG s) (ll_PriFrame s) of (e, fr) \<Rightarrow> (e, s\<lparr>ll_PriFrame := fr\<rparr>))"

definition on_SecFrame :: "(LinkConfig \<Rightarrow> LinkFrame handler) \<Rightarrow> LinkLayer handler" where
  "on_SecFrame f s = (case f (ll_CONFIG s) (ll_SecFrame s) of (e, fr) \<Rightarrow> (e, s\<lparr>ll_SecFrame := fr\<rparr>))"

definition on_DelayedPriFrame :: "(LinkConfig \<Rightarrow> LinkFrame handler) \<Rightarrow> LinkLayer handler" where
  "on_DelayedPriFrame f s =
     (case f (ll_CONFIG s) (ll_DelayedPriFrame s) of (e, fr) \<Rightarrow> (e, s\<lparr>ll_DelayedPriFrame := fr\<rparr>))"

definition SendAck :: "LinkLayer handler" where
  "SendAck = in_order
     [on_SecFrame (\<lambda>c. FormatAck (lc_IsMaster c) False (lc_RemoteAddr c) (lc_LocalAddr c)),
      LinkLayer_Transmit ll_SecFrame]"

definition SendLinkStatus :: "LinkLayer handler" where
  "SendLinkStatus = in_order
     [on_SecFrame (\<lambda>c. FormatLinkStatus (lc_IsMaster c) False (lc_RemoteAddr c) (lc_LocalAddr c)),
      LinkLayer_Transmit ll_SecFrame]"

definition SendResetLinks :: "LinkLayer handler" where
  "SendResetLinks = in_order
     [on_PriFrame (\<lambda>c. FormatResetLinkStates (lc_IsMaster c) (lc_RemoteAddr c) (lc_LocalAddr c)),
      LinkLayer_Transmit ll_PriFrame]"

definition SendUnconfirmedUserData :: "bytes \<Rightarrow> LinkLayer handler" where
  "SendUnconfirmedUserData d = in_order
     [on_PriFrame (\<lambda>c. FormatUnconfirmedUserData (lc_IsMaster c) (lc_RemoteAddr c) (lc_LocalAddr c) d (length d)),
      LinkLayer_Transmit ll_PriFrame,
      DoSendSuccess]"

definition SendDelayedUserData :: "bool \<Rightarrow> LinkLayer handler" where
  "SendDelayedUserData aFCB = in_order
     [on_DelayedPriFrame (\<lambda>_. LinkFrame_ChangeFCB aFCB),
      LinkLayer_Transmit ll_DelayedPriFrame]"

definition ResetRetry :: "LinkLayer handler" where
  [handler_simps]: "ResetRetry = modify (\<lambda>s. s\<lparr>ll_retryRemaining := lc_NumRetry (ll_CONFIG s)\<rparr>)"

text \<open>\<open>if(apLL->Retry()) yes else no\<close>.\<close>

definition if_Retry :: "LinkLayer handler \<Rightarrow> LinkLayer handler \<Rightarrow> LinkLayer handler" where
  [handler_simps]: "if_Retry yes no =
     if_else (\<lambda>s. ll_retryRemaining s > 0)
       (in_order [modify (\<lambda>s. s\<lparr>ll_retryRemaining := ll_retryRemaining s - 1\<rparr>), yes]) no"

subsection \<open>The primary half\<close>

text \<open>The base class: frames out of context are only logged; the rest is a programming error.\<close>

definition PriStateBase_Frame :: "bool \<Rightarrow> LinkLayer handler" where
  [handler_simps]: "PriStateBase_Frame aIsRcvBuffFull = skip"

definition PriStateBase_OnTimeout :: "LinkLayer handler" where
  [handler_simps]: "PriStateBase_OnTimeout = throw InvalidStateException"

definition PriStateBase_Send :: "bytes \<Rightarrow> LinkLayer handler" where
  [handler_simps]: "PriStateBase_Send d = throw InvalidStateException"

definition PLLS_SecNotReset_SendUnconfirmed :: "bytes \<Rightarrow> LinkLayer handler" where
  "PLLS_SecNotReset_SendUnconfirmed d = SendUnconfirmedUserData d"

definition PLLS_SecNotReset_SendConfirmed :: "bytes \<Rightarrow> LinkLayer handler" where
  "PLLS_SecNotReset_SendConfirmed d = in_order
     [ResetRetry,
      ll_StartTimer,
      LinkLayer_ChangePriState PLLS_ResetLinkWait,
      on_DelayedPriFrame (\<lambda>c. FormatConfirmedUserData (lc_IsMaster c) True (lc_RemoteAddr c) (lc_LocalAddr c) d (length d)),
      SendResetLinks]"

definition PLLS_SecReset_SendUnconfirmed :: "bytes \<Rightarrow> LinkLayer handler" where
  "PLLS_SecReset_SendUnconfirmed d = SendUnconfirmedUserData d"

definition PLLS_SecReset_SendConfirmed :: "bytes \<Rightarrow> LinkLayer handler" where
  "PLLS_SecReset_SendConfirmed d = in_order
     [ResetRetry,
      ll_StartTimer,
      LinkLayer_ChangePriState PLLS_ConfDataWait,
      reading (\<lambda>s. on_DelayedPriFrame (\<lambda>c. FormatConfirmedUserData (lc_IsMaster c) (ll_nextWriteFCB s)
        (lc_RemoteAddr c) (lc_LocalAddr c) d (length d))),
      reading (\<lambda>s. SendDelayedUserData (ll_nextWriteFCB s))]"

definition PLLS_ResetLinkWait_Ack :: "bool \<Rightarrow> LinkLayer handler" where
  "PLLS_ResetLinkWait_Ack aIsRcvBuffFull = in_order
     [ResetWriteFCB,
      ll_CancelTimer,
      ll_StartTimer,
      LinkLayer_ChangePriState PLLS_ConfDataWait,
      reading (\<lambda>s. SendDelayedUserData (ll_nextWriteFCB s))]"

definition PLLS_ResetLinkWait_OnTimeout :: "LinkLayer handler" where
  "PLLS_ResetLinkWait_OnTimeout =
     if_Retry
       (in_order [ll_StartTimer, SendResetLinks])
       (in_order [LinkLayer_ChangePriState PLLS_SecNotReset, DoSendFailure])"

definition PLLS_ResetLinkWait_Failure :: "LinkLayer handler" where
  "PLLS_ResetLinkWait_Failure = in_order
     [ll_CancelTimer, LinkLayer_ChangePriState PLLS_SecNotReset, DoSendFailure]"

definition PLLS_ConfDataWait_Ack :: "bool \<Rightarrow> LinkLayer handler" where
  "PLLS_ConfDataWait_Ack aIsRcvBuffFull = in_order
     [ToggleWriteFCB,
      ll_CancelTimer,
      LinkLayer_ChangePriState PLLS_SecReset,
      DoSendSuccess]"

definition PLLS_ConfDataWait_Failure :: "LinkLayer handler" where
  "PLLS_ConfDataWait_Failure = in_order
     [ll_CancelTimer, LinkLayer_ChangePriState PLLS_SecNotReset, DoSendFailure]"

definition PLLS_ConfDataWait_OnTimeout :: "LinkLayer handler" where
  "PLLS_ConfDataWait_OnTimeout =
     if_Retry
       (in_order [ll_StartTimer, LinkLayer_ChangePriState PLLS_ConfDataWait,
          reading (\<lambda>s. SendDelayedUserData (ll_nextWriteFCB s))])
       (in_order [LinkLayer_ChangePriState PLLS_SecNotReset, DoSendFailure])"

text \<open>The virtual calls on \<open>mpPriState\<close>.\<close>

primrec PriState_Ack :: "PriState \<Rightarrow> bool \<Rightarrow> LinkLayer handler" where
  "PriState_Ack PLLS_SecNotReset = PriStateBase_Frame"
| "PriState_Ack PLLS_SecReset = PriStateBase_Frame"
| "PriState_Ack PLLS_ResetLinkWait = PLLS_ResetLinkWait_Ack"
| "PriState_Ack PLLS_ConfDataWait = PLLS_ConfDataWait_Ack"

primrec PriState_Nack :: "PriState \<Rightarrow> bool \<Rightarrow> LinkLayer handler" where
  "PriState_Nack PLLS_SecNotReset = PriStateBase_Frame"
| "PriState_Nack PLLS_SecReset = PriStateBase_Frame"
| "PriState_Nack PLLS_ResetLinkWait = (\<lambda>_. PLLS_ResetLinkWait_Failure)"
| "PriState_Nack PLLS_ConfDataWait = (\<lambda>_. PLLS_ConfDataWait_Failure)"

primrec PriState_LinkStatus :: "PriState \<Rightarrow> bool \<Rightarrow> LinkLayer handler" where
  "PriState_LinkStatus PLLS_SecNotReset = PriStateBase_Frame"
| "PriState_LinkStatus PLLS_SecReset = PriStateBase_Frame"
| "PriState_LinkStatus PLLS_ResetLinkWait = (\<lambda>_. PLLS_ResetLinkWait_Failure)"
| "PriState_LinkStatus PLLS_ConfDataWait = (\<lambda>_. PLLS_ConfDataWait_Failure)"

primrec PriState_NotSupported :: "PriState \<Rightarrow> bool \<Rightarrow> LinkLayer handler" where
  "PriState_NotSupported PLLS_SecNotReset = PriStateBase_Frame"
| "PriState_NotSupported PLLS_SecReset = PriStateBase_Frame"
| "PriState_NotSupported PLLS_ResetLinkWait = (\<lambda>_. PLLS_ResetLinkWait_Failure)"
| "PriState_NotSupported PLLS_ConfDataWait = (\<lambda>_. PLLS_ConfDataWait_Failure)"

primrec PriState_OnTimeout :: "PriState \<Rightarrow> LinkLayer handler" where
  "PriState_OnTimeout PLLS_SecNotReset = PriStateBase_OnTimeout"
| "PriState_OnTimeout PLLS_SecReset = PriStateBase_OnTimeout"
| "PriState_OnTimeout PLLS_ResetLinkWait = PLLS_ResetLinkWait_OnTimeout"
| "PriState_OnTimeout PLLS_ConfDataWait = PLLS_ConfDataWait_OnTimeout"

primrec PriState_SendConfirmed :: "PriState \<Rightarrow> bytes \<Rightarrow> LinkLayer handler" where
  "PriState_SendConfirmed PLLS_SecNotReset = PLLS_SecNotReset_SendConfirmed"
| "PriState_SendConfirmed PLLS_SecReset = PLLS_SecReset_SendConfirmed"
| "PriState_SendConfirmed PLLS_ResetLinkWait = PriStateBase_Send"
| "PriState_SendConfirmed PLLS_ConfDataWait = PriStateBase_Send"

primrec PriState_SendUnconfirmed :: "PriState \<Rightarrow> bytes \<Rightarrow> LinkLayer handler" where
  "PriState_SendUnconfirmed PLLS_SecNotReset = PLLS_SecNotReset_SendUnconfirmed"
| "PriState_SendUnconfirmed PLLS_SecReset = PLLS_SecReset_SendUnconfirmed"
| "PriState_SendUnconfirmed PLLS_ResetLinkWait = PriStateBase_Send"
| "PriState_SendUnconfirmed PLLS_ConfDataWait = PriStateBase_Send"

subsection \<open>The secondary half\<close>

definition SecStateBase_ResetLinkStates :: "LinkLayer handler" where
  "SecStateBase_ResetLinkStates = in_order
     [ResetReadFCB, SendAck, LinkLayer_ChangeSecState SLLS_Reset]"

definition SecStateBase_RequestLinkStatus :: "LinkLayer handler" where
  "SecStateBase_RequestLinkStatus = SendLinkStatus"

definition SecStateBase_UnconfirmedUserData :: "bytes \<Rightarrow> LinkLayer handler" where
  "SecStateBase_UnconfirmedUserData d = DoDataUp d"

definition SLLS_NotReset_TestLinkStatus :: "bool \<Rightarrow> LinkLayer handler" where
  [handler_simps]: "SLLS_NotReset_TestLinkStatus aFcb = skip"

definition SLLS_NotReset_ConfirmedUserData :: "bool \<Rightarrow> bytes \<Rightarrow> LinkLayer handler" where
  [handler_simps]: "SLLS_NotReset_ConfirmedUserData aFcb d = skip"

definition SLLS_Reset_TestLinkStatus :: "bool \<Rightarrow> LinkLayer handler" where
  "SLLS_Reset_TestLinkStatus aFcb =
     if_else (\<lambda>s. ll_nextReadFCB s = aFcb)
       (in_order [ToggleReadFCB, SendAck])
       skip"

definition SLLS_Reset_ConfirmedUserData :: "bool \<Rightarrow> bytes \<Rightarrow> LinkLayer handler" where
  "SLLS_Reset_ConfirmedUserData aFcb d = in_order
     [SendAck,
      if_else (\<lambda>s. ll_nextReadFCB s = aFcb)
        (in_order [ToggleReadFCB, DoDataUp d])
        skip]"

primrec SecState_TestLinkStatus :: "SecState \<Rightarrow> bool \<Rightarrow> LinkLayer handler" where
  "SecState_TestLinkStatus SLLS_NotReset = SLLS_NotReset_TestLinkStatus"
| "SecState_TestLinkStatus SLLS_Reset = SLLS_Reset_TestLinkStatus"

primrec SecState_ConfirmedUserData :: "SecState \<Rightarrow> bool \<Rightarrow> bytes \<Rightarrow> LinkLayer handler" where
  "SecState_ConfirmedUserData SLLS_NotReset = SLLS_NotReset_ConfirmedUserData"
| "SecState_ConfirmedUserData SLLS_Reset = SLLS_Reset_ConfirmedUserData"

subsection \<open>Events\<close>

text \<open>\<open>if(this->Validate(aIsMaster, aSrc, aDest)) body\<close>.\<close>

definition when_valid :: "bool \<Rightarrow> u16 \<Rightarrow> u16 \<Rightarrow> LinkLayer handler \<Rightarrow> LinkLayer handler" where
  "when_valid aIsMaster aSrc aDest body s =
     (case LinkLayer_Validate aIsMaster aSrc aDest s of
        Inl e \<Rightarrow> (Some e, s)
      | Inr ok \<Rightarrow> if ok then body s else (None, s))"

text \<open>The nine functions of \<open>IFrameSink\<close>.\<close>

primrec LinkLayer_OnFrame :: "FrameSinkCall \<Rightarrow> LinkLayer handler" where
  "LinkLayer_OnFrame (Ack m full d s) =
     when_valid m s d (reading (\<lambda>ll. PriState_Ack (ll_priState ll) full))"
| "LinkLayer_OnFrame (Nack m full d s) =
     when_valid m s d (reading (\<lambda>ll. PriState_Nack (ll_priState ll) full))"
| "LinkLayer_OnFrame (LinkStatus m full d s) =
     when_valid m s d (reading (\<lambda>ll. PriState_LinkStatus (ll_priState ll) full))"
| "LinkLayer_OnFrame (NotSupported m full d s) =
     when_valid m s d (reading (\<lambda>ll. PriState_NotSupported (ll_priState ll) full))"
| "LinkLayer_OnFrame (TestLinkStatus m b d s) =
     when_valid m s d (reading (\<lambda>ll. SecState_TestLinkStatus (ll_secState ll) b))"
| "LinkLayer_OnFrame (ResetLinkStates m d s) =
     when_valid m s d SecStateBase_ResetLinkStates"
| "LinkLayer_OnFrame (RequestLinkStatus m d s) =
     when_valid m s d SecStateBase_RequestLinkStatus"
| "LinkLayer_OnFrame (ConfirmedUserData m b d s xs) =
     when_valid m s d (reading (\<lambda>ll. SecState_ConfirmedUserData (ll_secState ll) b xs))"
| "LinkLayer_OnFrame (UnconfirmedUserData m d s xs) =
     when_valid m s d (SecStateBase_UnconfirmedUserData xs)"

definition LinkLayer_Send :: "bytes \<Rightarrow> LinkLayer handler" where
  "LinkLayer_Send d = in_order
     [throw_if (\<lambda>s. \<not> ll_isOnline s) InvalidStateException,
      if_else (\<lambda>s. lc_UseConfirms (ll_CONFIG s))
        (reading (\<lambda>s. PriState_SendConfirmed (ll_priState s) d))
        (reading (\<lambda>s. PriState_SendUnconfirmed (ll_priState s) d))]"

definition LinkLayer_OnTimeout :: "LinkLayer handler" where
  "LinkLayer_OnTimeout = in_order
     [assert_that ll_timer,
      modify (\<lambda>s. s\<lparr>ll_timer := False\<rparr>),
      reading (\<lambda>s. PriState_OnTimeout (ll_priState s))]"

text \<open>What can happen to a link layer after its construction.\<close>

datatype LinkEvent =
    Link_SetRouter
  | Link_SetUpperLayer
  | Link_LowerLayerUp
  | Link_LowerLayerDown
  | Link_Frame FrameSinkCall
  | Link_Send bytes
  | Link_Timeout

primrec link_handle :: "LinkEvent \<Rightarrow> LinkLayer handler" where
  "link_handle Link_SetRouter = LinkLayer_SetRouter"
| "link_handle Link_SetUpperLayer = LinkLayer_SetUpperLayer"
| "link_handle Link_LowerLayerUp = LinkLayer_OnLowerLayerUp"
| "link_handle Link_LowerLayerDown = LinkLayer_OnLowerLayerDown"
| "link_handle (Link_Frame c) = LinkLayer_OnFrame c"
| "link_handle (Link_Send d) = LinkLayer_Send d"
| "link_handle Link_Timeout = LinkLayer_OnTimeout"

text \<open>
  The environment: the router is set once and before it reports itself up, the timer fires only
  while it runs, and a send has one to 250 bytes (the transport function segments accordingly).
\<close>

primrec link_possible_event :: "LinkEvent \<Rightarrow> LinkLayer \<Rightarrow> bool" where
  "link_possible_event Link_SetRouter s = (\<not> ll_router s)"
| "link_possible_event Link_SetUpperLayer s = True"
| "link_possible_event Link_LowerLayerUp s = ll_router s"
| "link_possible_event Link_LowerLayerDown s = True"
| "link_possible_event (Link_Frame c) s = True"
| "link_possible_event (Link_Send d) s = (d \<noteq> [] \<and> length d \<le> 250)"
| "link_possible_event Link_Timeout s = ll_timer s"

definition link_possible :: "LinkLayer \<Rightarrow> LinkEvent \<Rightarrow> bool" where
  "link_possible s e = link_possible_event e s"

definition link_start :: "LinkLayer \<Rightarrow> bool" where
  "link_start s \<longleftrightarrow> (\<exists>c f g h. frame_ok f \<and> frame_ok g \<and> frame_ok h \<and> s = new_LinkLayer c f g h)"

section \<open>What the helpers do\<close>

text \<open>The frames a station builds: acknowledgement, link status, link reset and user data.\<close>

definition ctrl_frame :: "LinkConfig \<Rightarrow> FuncCodes \<Rightarrow> LinkFrame \<Rightarrow> LinkFrame" where
  "ctrl_frame c fc f =
     formatted (formatted_header 0 (lc_IsMaster c) False False fc (lc_RemoteAddr c) (lc_LocalAddr c)) [] f"

definition conf_frame :: "LinkConfig \<Rightarrow> bool \<Rightarrow> bytes \<Rightarrow> LinkFrame \<Rightarrow> LinkFrame" where
  "conf_frame c b d f =
     formatted (formatted_header (length d) (lc_IsMaster c) b True FC_PRI_CONFIRMED_USER_DATA
       (lc_RemoteAddr c) (lc_LocalAddr c)) d f"

definition unconf_frame :: "LinkConfig \<Rightarrow> bytes \<Rightarrow> LinkFrame \<Rightarrow> LinkFrame" where
  "unconf_frame c d f =
     formatted (formatted_header (length d) (lc_IsMaster c) False False FC_PRI_UNCONFIRMED_USER_DATA
       (lc_RemoteAddr c) (lc_LocalAddr c)) d f"

definition sendable :: "bytes \<Rightarrow> bool" where
  "sendable d \<longleftrightarrow> d \<noteq> [] \<and> length d \<le> 250"

lemma frames_ok [simp]:
  "frame_ok f \<Longrightarrow> frame_ok (ctrl_frame c fc f)"
  "frame_ok f \<Longrightarrow> sendable d \<Longrightarrow> frame_ok (conf_frame c b d f)"
  "frame_ok f \<Longrightarrow> sendable d \<Longrightarrow> frame_ok (unconf_frame c d f)"
  by (simp_all add: ctrl_frame_def conf_frame_def unconf_frame_def sendable_def)

named_theorems link_steps \<open>what the helper functions of the link layer do when nothing fails\<close>

lemma SendAck_step [link_steps]:
  "frame_ok (ll_SecFrame s) \<Longrightarrow> ll_router s \<Longrightarrow>
   SendAck s = (None, let f = ctrl_frame (ll_CONFIG s) FC_SEC_ACK (ll_SecFrame s)
     in s\<lparr>ll_SecFrame := f, ll_out := ll_out s @ [Router_Transmit f]\<rparr>)"
  by (simp add: SendAck_def on_SecFrame_def FormatAck_def FormatHeader_formatted LinkLayer_Transmit_def handler_simps
      ctrl_frame_def Let_def)

lemma SendLinkStatus_step [link_steps]:
  "frame_ok (ll_SecFrame s) \<Longrightarrow> ll_router s \<Longrightarrow>
   SendLinkStatus s = (None, let f = ctrl_frame (ll_CONFIG s) FC_SEC_LINK_STATUS (ll_SecFrame s)
     in s\<lparr>ll_SecFrame := f, ll_out := ll_out s @ [Router_Transmit f]\<rparr>)"
  by (simp add: SendLinkStatus_def on_SecFrame_def FormatLinkStatus_def FormatHeader_formatted LinkLayer_Transmit_def
      handler_simps ctrl_frame_def Let_def)

lemma SendResetLinks_step [link_steps]:
  "frame_ok (ll_PriFrame s) \<Longrightarrow> ll_router s \<Longrightarrow>
   SendResetLinks s = (None, let f = ctrl_frame (ll_CONFIG s) FC_PRI_RESET_LINK_STATES (ll_PriFrame s)
     in s\<lparr>ll_PriFrame := f, ll_out := ll_out s @ [Router_Transmit f]\<rparr>)"
  by (simp add: SendResetLinks_def on_PriFrame_def FormatResetLinkStates_def FormatHeader_formatted LinkLayer_Transmit_def
      handler_simps ctrl_frame_def Let_def)

lemma SendUnconfirmedUserData_step [link_steps]:
  "frame_ok (ll_PriFrame s) \<Longrightarrow> ll_router s \<Longrightarrow> sendable d \<Longrightarrow>
   SendUnconfirmedUserData d s = (None, let f = unconf_frame (ll_CONFIG s) d (ll_PriFrame s)
     in s\<lparr>ll_PriFrame := f,
          ll_out := ll_out s @ Router_Transmit f # (if ll_upper s then [Upper_OnSendSuccess] else [])\<rparr>)"
  by (simp add: SendUnconfirmedUserData_def on_PriFrame_def format_results LinkLayer_Transmit_def handler_simps
      unconf_frame_def Let_def sendable_def)

lemma SendDelayedUserData_step [link_steps]:
  "ll_DelayedPriFrame s = conf_frame (ll_CONFIG s) b d f \<Longrightarrow> frame_ok f \<Longrightarrow> sendable d \<Longrightarrow> ll_router s \<Longrightarrow>
   SendDelayedUserData x s = (None, let g = conf_frame (ll_CONFIG s) x d f
     in s\<lparr>ll_DelayedPriFrame := g, ll_out := ll_out s @ [Router_Transmit g]\<rparr>)"
  by (simp add: SendDelayedUserData_def on_DelayedPriFrame_def conf_frame_def ChangeFCB_formatted LinkLayer_Transmit_def
      handler_simps Let_def sendable_def)

lemma FormatDelayed_step [link_steps]:
  "frame_ok (ll_DelayedPriFrame s) \<Longrightarrow> sendable d \<Longrightarrow>
   on_DelayedPriFrame (\<lambda>c. FormatConfirmedUserData (lc_IsMaster c) b (lc_RemoteAddr c) (lc_LocalAddr c) d (length d)) s
    = (None, s\<lparr>ll_DelayedPriFrame := conf_frame (ll_CONFIG s) b d (ll_DelayedPriFrame s)\<rparr>)"
  by (simp add: on_DelayedPriFrame_def format_results conf_frame_def sendable_def)

lemma StartTimer_step [link_steps]:
  "\<not> ll_timer s \<Longrightarrow> ll_StartTimer s =
     (None, s\<lparr>ll_timer := True, ll_out := ll_out s @ [Timer_Start (lc_Timeout (ll_CONFIG s))]\<rparr>)"
  by (simp add: ll_StartTimer_def handler_simps)

lemma CancelTimer_step [link_steps]:
  "ll_timer s \<Longrightarrow> ll_CancelTimer s = (None, s\<lparr>ll_timer := False, ll_out := ll_out s @ [Timer_Cancel]\<rparr>)"
  by (simp add: ll_CancelTimer_def handler_simps)

section \<open>The invariant\<close>

definition waiting :: "LinkLayer \<Rightarrow> bool" where
  "waiting s \<longleftrightarrow> ll_priState s = PLLS_ResetLinkWait \<or> ll_priState s = PLLS_ConfDataWait"

definition pending_frame :: "LinkLayer \<Rightarrow> bool \<Rightarrow> bytes \<Rightarrow> LinkFrame \<Rightarrow> bool" where
  "pending_frame s b d f \<longleftrightarrow> frame_ok f \<and> sendable d \<and> ll_DelayedPriFrame s = conf_frame (ll_CONFIG s) b d f"

definition link_inv :: "LinkLayer \<Rightarrow> bool" where
  "link_inv s \<longleftrightarrow>
     (ll_timer s \<longleftrightarrow> waiting s) \<and>
     (ll_isOnline s \<longrightarrow> ll_router s) \<and>
     (\<not> ll_isOnline s \<longrightarrow> ll_priState s = PLLS_SecNotReset \<and> ll_secState s = SLLS_NotReset) \<and>
     ll_retryRemaining s \<le> lc_NumRetry (ll_CONFIG s) \<and>
     frame_ok (ll_PriFrame s) \<and> frame_ok (ll_SecFrame s) \<and> frame_ok (ll_DelayedPriFrame s) \<and>
     (waiting s \<longrightarrow> (\<exists>b d f. pending_frame s b d f))"

lemma link_inv_start: "link_start s \<Longrightarrow> link_inv s"
  by (auto simp: link_start_def link_inv_def new_LinkLayer_def waiting_def)

text \<open>A handler keeps the invariant and fails no assertion.\<close>

definition keeps_link_inv :: "LinkLayer handler \<Rightarrow> LinkLayer \<Rightarrow> bool" where
  "keeps_link_inv h s \<longleftrightarrow> link_inv (snd (h s)) \<and> \<not> internal_error (fst (h s))"

lemmas pri_defs =
  PLLS_SecNotReset_SendUnconfirmed_def PLLS_SecNotReset_SendConfirmed_def PLLS_SecReset_SendUnconfirmed_def
  PLLS_SecReset_SendConfirmed_def PLLS_ResetLinkWait_Ack_def PLLS_ResetLinkWait_OnTimeout_def
  PLLS_ResetLinkWait_Failure_def PLLS_ConfDataWait_Ack_def PLLS_ConfDataWait_Failure_def PLLS_ConfDataWait_OnTimeout_def

lemmas sec_defs =
  SecStateBase_ResetLinkStates_def SecStateBase_RequestLinkStatus_def SecStateBase_UnconfirmedUserData_def
  SLLS_Reset_TestLinkStatus_def SLLS_Reset_ConfirmedUserData_def

lemmas inv_defs = keeps_link_inv_def link_inv_def waiting_def internal_error_def

lemma when_valid_keeps:
  assumes "link_inv s" and "ll_isOnline s \<Longrightarrow> keeps_link_inv body s"
  shows "keeps_link_inv (when_valid m a d body) s"
  using assms by (auto simp: when_valid_def LinkLayer_Validate_def keeps_link_inv_def internal_error_def)

lemma link_inv_online:
  assumes "link_inv s" and "ll_isOnline s"
  shows "ll_router s" and "ll_timer s = waiting s" and "frame_ok (ll_PriFrame s)" and "frame_ok (ll_SecFrame s)"
    and "frame_ok (ll_DelayedPriFrame s)" and "ll_retryRemaining s \<le> lc_NumRetry (ll_CONFIG s)"
  using assms by (auto simp: link_inv_def)

lemma sec_keeps:
  assumes "link_inv s" and "ll_isOnline s"
  shows "keeps_link_inv SecStateBase_ResetLinkStates s" and "keeps_link_inv SecStateBase_RequestLinkStatus s"
    and "keeps_link_inv (SecStateBase_UnconfirmedUserData xs) s"
    and "keeps_link_inv (SecState_TestLinkStatus (ll_secState s) b) s"
    and "keeps_link_inv (SecState_ConfirmedUserData (ll_secState s) b xs) s"
proof -
  note on = link_inv_online [OF assms]
  show "keeps_link_inv SecStateBase_ResetLinkStates s"
    using assms on by (simp add: sec_defs handler_simps link_steps keeps_link_inv_def internal_error_def Let_def)
      (simp add: link_inv_def waiting_def pending_frame_def)
  show "keeps_link_inv SecStateBase_RequestLinkStatus s"
    using assms on by (simp add: sec_defs handler_simps link_steps keeps_link_inv_def internal_error_def Let_def)
      (simp add: link_inv_def waiting_def pending_frame_def)
  show "keeps_link_inv (SecStateBase_UnconfirmedUserData xs) s"
    using assms on by (simp add: sec_defs handler_simps keeps_link_inv_def internal_error_def)
      (simp add: link_inv_def waiting_def pending_frame_def)
  show "keeps_link_inv (SecState_TestLinkStatus (ll_secState s) b) s"
    using assms on by (cases "ll_secState s") (simp_all add: sec_defs handler_simps link_steps keeps_link_inv_def internal_error_def Let_def,
      simp add: link_inv_def waiting_def pending_frame_def)
  show "keeps_link_inv (SecState_ConfirmedUserData (ll_secState s) b xs) s"
    using assms on by (cases "ll_secState s") (simp_all add: sec_defs handler_simps link_steps keeps_link_inv_def internal_error_def Let_def,
      simp add: link_inv_def waiting_def pending_frame_def)
qed

text \<open>What each event of the primary half does, in the states it is meant for.\<close>

lemma send_confirmed_steps:
  assumes "link_inv s" and "ll_isOnline s" and "sendable d" and "\<not> waiting s"
  defines "c \<equiv> ll_CONFIG s"
  shows "ll_priState s = PLLS_SecNotReset \<Longrightarrow> PriState_SendConfirmed (ll_priState s) d s =
    (None, let f = ctrl_frame c FC_PRI_RESET_LINK_STATES (ll_PriFrame s) in
       s\<lparr>ll_retryRemaining := lc_NumRetry c, ll_timer := True, ll_priState := PLLS_ResetLinkWait,
         ll_DelayedPriFrame := conf_frame c True d (ll_DelayedPriFrame s), ll_PriFrame := f,
         ll_out := ll_out s @ [Timer_Start (lc_Timeout c), Router_Transmit f]\<rparr>)"
    and "ll_priState s = PLLS_SecReset \<Longrightarrow> PriState_SendConfirmed (ll_priState s) d s =
    (None, let f = conf_frame c (ll_nextWriteFCB s) d (ll_DelayedPriFrame s) in
       s\<lparr>ll_retryRemaining := lc_NumRetry c, ll_timer := True, ll_priState := PLLS_ConfDataWait,
         ll_DelayedPriFrame := f, ll_out := ll_out s @ [Timer_Start (lc_Timeout c), Router_Transmit f]\<rparr>)"
proof -
  note on = link_inv_online [OF assms(1,2)]
  show "PriState_SendConfirmed (ll_priState s) d s =
    (None, let f = ctrl_frame c FC_PRI_RESET_LINK_STATES (ll_PriFrame s) in
       s\<lparr>ll_retryRemaining := lc_NumRetry c, ll_timer := True, ll_priState := PLLS_ResetLinkWait,
         ll_DelayedPriFrame := conf_frame c True d (ll_DelayedPriFrame s), ll_PriFrame := f,
         ll_out := ll_out s @ [Timer_Start (lc_Timeout c), Router_Transmit f]\<rparr>)"
    if "ll_priState s = PLLS_SecNotReset"
    using that on assms(3,4) by (simp add: pri_defs handler_simps link_steps Let_def c_def)
  show "PriState_SendConfirmed (ll_priState s) d s =
    (None, let f = conf_frame c (ll_nextWriteFCB s) d (ll_DelayedPriFrame s) in
       s\<lparr>ll_retryRemaining := lc_NumRetry c, ll_timer := True, ll_priState := PLLS_ConfDataWait,
         ll_DelayedPriFrame := f, ll_out := ll_out s @ [Timer_Start (lc_Timeout c), Router_Transmit f]\<rparr>)"
    if "ll_priState s = PLLS_SecReset"
    using that on assms(3,4)
    by (simp add: pri_defs handler_simps FormatDelayed_step StartTimer_step Let_def c_def
        SendDelayedUserData_step [of _ "ll_nextWriteFCB s" d "ll_DelayedPriFrame s"])
qed

lemma send_unconfirmed_step:
  assumes "link_inv s" and "ll_isOnline s" and "sendable d" and "\<not> waiting s"
  shows "PriState_SendUnconfirmed (ll_priState s) d s = SendUnconfirmedUserData d s"
  using assms by (cases "ll_priState s") (simp_all add: pri_defs waiting_def)

lemma send_while_waiting:
  assumes "waiting s"
  shows "PriState_SendConfirmed (ll_priState s) d s = (Some InvalidStateException, s)"
    and "PriState_SendUnconfirmed (ll_priState s) d s = (Some InvalidStateException, s)"
  using assms by (auto simp: waiting_def handler_simps)

text \<open>Retransmission after a timeout, completion by the last one, and the answers of the other side.\<close>

definition retransmitted :: "LinkLayer \<Rightarrow> bytes \<Rightarrow> LinkFrame \<Rightarrow> LinkLayer" where
  "retransmitted s d f =
     (if ll_priState s = PLLS_ResetLinkWait
      then let g = ctrl_frame (ll_CONFIG s) FC_PRI_RESET_LINK_STATES (ll_PriFrame s) in
        s\<lparr>ll_PriFrame := g, ll_out := ll_out s @ [Timer_Start (lc_Timeout (ll_CONFIG s)), Router_Transmit g]\<rparr>
      else let g = conf_frame (ll_CONFIG s) (ll_nextWriteFCB s) d f in
        s\<lparr>ll_DelayedPriFrame := g, ll_out := ll_out s @ [Timer_Start (lc_Timeout (ll_CONFIG s)), Router_Transmit g]\<rparr>)"

definition completed :: "PriState \<Rightarrow> LinkOut list \<Rightarrow> LinkLayer \<Rightarrow> LinkLayer" where
  "completed st outs s = s\<lparr>ll_timer := False, ll_priState := st, ll_out := ll_out s @ outs\<rparr>"

lemma timeout_steps:
  assumes "link_inv s" and "ll_isOnline s" and "waiting s" and "pending_frame s b d f"
  shows "ll_retryRemaining s = Suc n \<Longrightarrow> LinkLayer_OnTimeout s = (None, retransmitted (s\<lparr>ll_retryRemaining := n\<rparr>) d f)"
    and "ll_retryRemaining s = 0 \<Longrightarrow> LinkLayer_OnTimeout s =
      (None, completed PLLS_SecNotReset (if ll_upper s then [Upper_OnSendFailure] else []) s)"
proof -
  note on = link_inv_online [OF assms(1,2)]
  show "LinkLayer_OnTimeout s = (None, retransmitted (s\<lparr>ll_retryRemaining := n\<rparr>) d f)" if "ll_retryRemaining s = Suc n"
  proof (cases "ll_priState s = PLLS_ResetLinkWait")
    case True
    with that on assms(3) show ?thesis
      by (simp add: LinkLayer_OnTimeout_def pri_defs handler_simps link_steps retransmitted_def Let_def)
  next
    case False
    then have "ll_priState s = PLLS_ConfDataWait" using assms(3) by (simp add: waiting_def)
    with that on assms(3,4) show ?thesis
      by (simp add: LinkLayer_OnTimeout_def pri_defs handler_simps StartTimer_step retransmitted_def Let_def pending_frame_def
          SendDelayedUserData_step [of _ b d f])
  qed
  show "LinkLayer_OnTimeout s =
      (None, completed PLLS_SecNotReset (if ll_upper s then [Upper_OnSendFailure] else []) s)" if "ll_retryRemaining s = 0"
    using that on assms(3) by (auto simp: LinkLayer_OnTimeout_def pri_defs handler_simps completed_def waiting_def)
qed

lemma ack_steps:
  assumes "link_inv s" and "ll_isOnline s"
  shows "ll_priState s = PLLS_ResetLinkWait \<Longrightarrow> pending_frame s b d f \<Longrightarrow> PriState_Ack (ll_priState s) full s =
      (None, let g = conf_frame (ll_CONFIG s) True d f in
        s\<lparr>ll_nextWriteFCB := True, ll_timer := True, ll_priState := PLLS_ConfDataWait, ll_DelayedPriFrame := g,
          ll_out := ll_out s @ [Timer_Cancel, Timer_Start (lc_Timeout (ll_CONFIG s)), Router_Transmit g]\<rparr>)"
    and "ll_priState s = PLLS_ConfDataWait \<Longrightarrow> PriState_Ack (ll_priState s) full s =
      (None, completed PLLS_SecReset (Timer_Cancel # (if ll_upper s then [Upper_OnSendSuccess] else []))
        (s\<lparr>ll_nextWriteFCB := \<not> ll_nextWriteFCB s\<rparr>))"
    and "\<not> waiting s \<Longrightarrow> PriState_Ack (ll_priState s) full s = (None, s)"
proof -
  note on = link_inv_online [OF assms]
  show "PriState_Ack (ll_priState s) full s =
      (None, let g = conf_frame (ll_CONFIG s) True d f in
        s\<lparr>ll_nextWriteFCB := True, ll_timer := True, ll_priState := PLLS_ConfDataWait, ll_DelayedPriFrame := g,
          ll_out := ll_out s @ [Timer_Cancel, Timer_Start (lc_Timeout (ll_CONFIG s)), Router_Transmit g]\<rparr>)"
    if "ll_priState s = PLLS_ResetLinkWait" "pending_frame s b d f"
    using that on by (simp add: pri_defs handler_simps CancelTimer_step StartTimer_step waiting_def Let_def pending_frame_def
        SendDelayedUserData_step [of _ b d f])
  show "PriState_Ack (ll_priState s) full s =
      (None, completed PLLS_SecReset (Timer_Cancel # (if ll_upper s then [Upper_OnSendSuccess] else []))
        (s\<lparr>ll_nextWriteFCB := \<not> ll_nextWriteFCB s\<rparr>))" if "ll_priState s = PLLS_ConfDataWait"
    using that on by (simp add: pri_defs handler_simps CancelTimer_step waiting_def completed_def)
  show "PriState_Ack (ll_priState s) full s = (None, s)" if "\<not> waiting s"
    using that by (cases "ll_priState s") (simp_all add: waiting_def handler_simps)
qed

lemma refused_steps:
  assumes "link_inv s" and "ll_isOnline s"
    and "h \<in> {PriState_Nack (ll_priState s) full, PriState_LinkStatus (ll_priState s) full, PriState_NotSupported (ll_priState s) full}"
  shows "h s = (None, if waiting s
      then completed PLLS_SecNotReset (Timer_Cancel # (if ll_upper s then [Upper_OnSendFailure] else [])) s else s)"
  using link_inv_online [OF assms(1,2)] assms(3)
  by (cases "ll_priState s") (auto simp: pri_defs handler_simps CancelTimer_step waiting_def completed_def)

text \<open>The invariant survives these states.\<close>

lemma link_inv_completed:
  "link_inv s \<Longrightarrow> ll_isOnline s \<Longrightarrow> \<not> waiting (s\<lparr>ll_priState := st\<rparr>) \<Longrightarrow> link_inv (completed st outs s)"
  by (simp add: completed_def link_inv_def waiting_def)

lemma link_inv_retransmitted:
  assumes "link_inv s" and "ll_isOnline s" and "waiting s" and "pending_frame s b d f"
  shows "link_inv (retransmitted s d f)"
proof -
  have "frame_ok f" "sendable d" using assms(4) by (simp_all add: pending_frame_def)
  with assms show ?thesis
    by (auto simp: retransmitted_def Let_def link_inv_def waiting_def pending_frame_def)
qed

lemma pri_keeps:
  assumes "link_inv s" and "ll_isOnline s"
  shows "keeps_link_inv (PriState_Ack (ll_priState s) full) s" and "keeps_link_inv (PriState_Nack (ll_priState s) full) s"
    and "keeps_link_inv (PriState_LinkStatus (ll_priState s) full) s"
    and "keeps_link_inv (PriState_NotSupported (ll_priState s) full) s"
proof -
  have "keeps_link_inv h s" if "h \<in> {PriState_Nack (ll_priState s) full, PriState_LinkStatus (ll_priState s) full,
      PriState_NotSupported (ll_priState s) full}" for h
    using refused_steps [OF assms that] assms link_inv_completed [OF assms, of PLLS_SecNotReset]
    by (simp add: keeps_link_inv_def internal_error_def waiting_def)
  then show "keeps_link_inv (PriState_Nack (ll_priState s) full) s" "keeps_link_inv (PriState_LinkStatus (ll_priState s) full) s"
    "keeps_link_inv (PriState_NotSupported (ll_priState s) full) s" by blast+
  show "keeps_link_inv (PriState_Ack (ll_priState s) full) s"
  proof (cases "waiting s")
    case False
    then show ?thesis using ack_steps(3) [OF assms] assms by (simp add: keeps_link_inv_def internal_error_def)
  next
    case True
    then obtain b d f where p: "pending_frame s b d f" using assms(1) by (auto simp: link_inv_def)
    then have d: "frame_ok f" "sendable d" by (simp_all add: pending_frame_def)
    show ?thesis
    proof (cases "ll_priState s = PLLS_ResetLinkWait")
      case True
      then show ?thesis using ack_steps(1) [OF assms True p, of full] assms d
        by (auto simp: keeps_link_inv_def internal_error_def link_inv_def waiting_def pending_frame_def Let_def)
    next
      case False
      with True have st: "ll_priState s = PLLS_ConfDataWait" by (simp add: waiting_def)
      have "link_inv (s\<lparr>ll_nextWriteFCB := \<not> ll_nextWriteFCB s\<rparr>)"
        using assms(1) by (simp add: link_inv_def waiting_def pending_frame_def)
      then show ?thesis using ack_steps(2) [OF assms st, of full] assms
        by (simp add: keeps_link_inv_def internal_error_def link_inv_completed waiting_def)
    qed
  qed
qed

lemma LinkLayer_Send_online:
  "ll_isOnline s \<Longrightarrow> LinkLayer_Send d s =
     (if lc_UseConfirms (ll_CONFIG s) then PriState_SendConfirmed (ll_priState s) d s
      else PriState_SendUnconfirmed (ll_priState s) d s)"
  by (simp add: LinkLayer_Send_def handler_simps split: prod.split option.split)

lemma LinkLayer_Send_offline: "\<not> ll_isOnline s \<Longrightarrow> LinkLayer_Send d s = (Some InvalidStateException, s)"
  by (simp add: LinkLayer_Send_def handler_simps)

lemma send_keeps:
  assumes "link_inv s" and "sendable d"
  shows "keeps_link_inv (LinkLayer_Send d) s"
proof (cases "ll_isOnline s \<and> \<not> waiting s")
  case True
  then have on: "ll_isOnline s" and idle: "\<not> waiting s" by simp_all
  note o = link_inv_online [OF assms(1) on]
  have "keeps_link_inv (PriState_SendConfirmed (ll_priState s) d) s"
  proof (cases "ll_priState s = PLLS_SecNotReset")
    case True
    from send_confirmed_steps(1) [OF assms(1) on assms(2) idle True] show ?thesis
      using assms o on by (auto simp: keeps_link_inv_def internal_error_def Let_def link_inv_def waiting_def pending_frame_def)
  next
    case False
    with idle have "ll_priState s = PLLS_SecReset" by (cases "ll_priState s") (simp_all add: waiting_def)
    from send_confirmed_steps(2) [OF assms(1) on assms(2) idle this] show ?thesis
      using assms o on by (auto simp: keeps_link_inv_def internal_error_def Let_def link_inv_def waiting_def pending_frame_def)
  qed
  moreover have "keeps_link_inv (PriState_SendUnconfirmed (ll_priState s) d) s"
    using send_unconfirmed_step [OF assms(1) on assms(2) idle] assms o idle on
    by (simp add: keeps_link_inv_def internal_error_def link_steps Let_def) (simp add: link_inv_def waiting_def)
  ultimately show ?thesis using on by (simp add: LinkLayer_Send_online keeps_link_inv_def)
next
  case False
  then show ?thesis using assms send_while_waiting [of s d]
    by (cases "ll_isOnline s")
      (auto simp: LinkLayer_Send_online LinkLayer_Send_offline keeps_link_inv_def internal_error_def)
qed

lemma timeout_keeps:
  assumes "link_inv s" and "ll_timer s"
  shows "keeps_link_inv LinkLayer_OnTimeout s"
proof -
  have w: "waiting s" using assms by (simp add: link_inv_def)
  then have on: "ll_isOnline s" using assms by (auto simp: link_inv_def waiting_def)
  obtain b d f where p: "pending_frame s b d f" using assms w by (auto simp: link_inv_def)
  note t = timeout_steps [OF assms(1) on w p]
  show ?thesis
  proof (cases "ll_retryRemaining s")
    case 0
    then show ?thesis using t(2) assms on by (simp add: keeps_link_inv_def internal_error_def link_inv_completed waiting_def)
  next
    case (Suc n)
    have "link_inv (s\<lparr>ll_retryRemaining := n\<rparr>)" "pending_frame (s\<lparr>ll_retryRemaining := n\<rparr>) b d f"
      using assms(1) Suc p by (simp_all add: link_inv_def waiting_def pending_frame_def)
    then show ?thesis using t(1) [OF Suc] on w
      by (simp add: keeps_link_inv_def internal_error_def link_inv_retransmitted waiting_def)
  qed
qed

lemma keeps_reading: "keeps_link_inv (reading f) s = keeps_link_inv (f s) s"
  by (simp add: keeps_link_inv_def reading_def)

lemma link_handle_keeps:
  assumes "link_inv s" and "link_possible s e"
  shows "keeps_link_inv (link_handle e) s"
proof (cases e)
  case (Link_Frame c)
  then show ?thesis using assms(1)
    by (cases c) (auto intro!: when_valid_keeps simp: keeps_reading pri_keeps sec_keeps)
qed (use assms in \<open>auto simp: link_possible_def send_keeps timeout_keeps sendable_def, simp_all add: keeps_link_inv_def internal_error_def
    LinkLayer_SetRouter_def LinkLayer_SetUpperLayer_def LinkLayer_OnLowerLayerUp_def LinkLayer_OnLowerLayerDown_def
    ll_CancelTimer_def handler_simps link_inv_def waiting_def pending_frame_def\<close>)

interpretation link: assertion_free_machine link_handle link_possible link_start link_inv
  by unfold_locales (auto simp: link_inv_start dest: link_handle_keeps simp: keeps_link_inv_def)

section \<open>Completion of sends\<close>

definition completions :: "LinkOut list \<Rightarrow> nat" where
  "completions outs = length (filter (\<lambda>c. c = Upper_OnSendSuccess \<or> c = Upper_OnSendFailure) outs)"

lemma completions_simps [simp]:
  "completions [] = 0"
  "completions (c # cs) = (if c = Upper_OnSendSuccess \<or> c = Upper_OnSendFailure then 1 else 0) + completions cs"
  "completions (cs @ ds) = completions cs + completions ds"
  by (simp_all add: completions_def)

definition outstanding :: "LinkLayer \<Rightarrow> nat" where
  "outstanding s = (if waiting s then 1 else 0)"

text \<open>Sends the layer takes on: calls of \<open>Send\<close> that return.\<close>

primrec accepted_sends :: "LinkEvent list \<Rightarrow> LinkLayer \<Rightarrow> nat" where
  "accepted_sends [] s = 0"
| "accepted_sends (e # es) s =
     (case e of Link_Send d \<Rightarrow> if fst (LinkLayer_Send d s) = None then 1 else 0 | _ \<Rightarrow> 0)
     + accepted_sends es (snd (link_handle e s))"

text \<open>What an event adds to the sends that are completed or under way.\<close>

definition sends_taken :: "LinkLayer \<Rightarrow> nat" where
  "sends_taken s = completions (ll_out s) + outstanding s"

lemma when_valid_taken:
  "(ll_isOnline s \<Longrightarrow> sends_taken (snd (body s)) = sends_taken s) \<Longrightarrow>
   sends_taken (snd (when_valid m a d body s)) = sends_taken s"
  by (simp add: when_valid_def LinkLayer_Validate_def)

lemma sec_taken:
  assumes "link_inv s" and "ll_isOnline s"
  shows "sends_taken (snd (SecStateBase_ResetLinkStates s)) = sends_taken s"
    and "sends_taken (snd (SecStateBase_RequestLinkStatus s)) = sends_taken s"
    and "sends_taken (snd (SecStateBase_UnconfirmedUserData xs s)) = sends_taken s"
    and "sends_taken (snd (SecState_TestLinkStatus (ll_secState s) b s)) = sends_taken s"
    and "sends_taken (snd (SecState_ConfirmedUserData (ll_secState s) b xs s)) = sends_taken s"
  using link_inv_online [OF assms] unfolding sends_taken_def
  by (simp_all add: sec_defs handler_simps link_steps Let_def outstanding_def waiting_def)
    (cases "ll_secState s"; simp add: sec_defs handler_simps link_steps Let_def waiting_def)+

lemma pri_taken:
  assumes "link_inv s" and "ll_isOnline s" and "ll_upper s"
  shows "sends_taken (snd (PriState_Ack (ll_priState s) full s)) = sends_taken s"
    and "sends_taken (snd (PriState_Nack (ll_priState s) full s)) = sends_taken s"
    and "sends_taken (snd (PriState_LinkStatus (ll_priState s) full s)) = sends_taken s"
    and "sends_taken (snd (PriState_NotSupported (ll_priState s) full s)) = sends_taken s"
proof -
  have "sends_taken (snd (h s)) = sends_taken s"
    if "h \<in> {PriState_Nack (ll_priState s) full, PriState_LinkStatus (ll_priState s) full,
      PriState_NotSupported (ll_priState s) full}" for h
    using refused_steps [OF assms(1,2) that] assms(3)
    by (simp add: sends_taken_def outstanding_def completed_def waiting_def)
  then show "sends_taken (snd (PriState_Nack (ll_priState s) full s)) = sends_taken s"
    "sends_taken (snd (PriState_LinkStatus (ll_priState s) full s)) = sends_taken s"
    "sends_taken (snd (PriState_NotSupported (ll_priState s) full s)) = sends_taken s" by blast+
  show "sends_taken (snd (PriState_Ack (ll_priState s) full s)) = sends_taken s"
  proof (cases "waiting s")
    case False
    then show ?thesis using ack_steps(3) [OF assms(1,2)] by simp
  next
    case True
    then obtain b d f where p: "pending_frame s b d f" using assms(1) by (auto simp: link_inv_def)
    show ?thesis
    proof (cases "ll_priState s = PLLS_ResetLinkWait")
      case True
      then show ?thesis using ack_steps(1) [OF assms(1,2) True p, of full]
        by (simp add: sends_taken_def outstanding_def waiting_def Let_def)
    next
      case False
      with True have st: "ll_priState s = PLLS_ConfDataWait" by (simp add: waiting_def)
      then show ?thesis using ack_steps(2) [OF assms(1,2) st, of full] assms(3)
        by (simp add: sends_taken_def outstanding_def waiting_def completed_def)
    qed
  qed
qed

lemma send_taken:
  assumes "link_inv s" and "sendable d" and "ll_upper s"
  shows "sends_taken (snd (LinkLayer_Send d s))
    = sends_taken s + (if fst (LinkLayer_Send d s) = None then 1 else 0)"
proof (cases "ll_isOnline s \<and> \<not> waiting s")
  case True
  then have on: "ll_isOnline s" and idle: "\<not> waiting s" by simp_all
  note o = link_inv_online [OF assms(1) on] and sc = send_confirmed_steps [OF assms(1) on assms(2) idle]
  have "ll_priState s = PLLS_SecNotReset \<or> ll_priState s = PLLS_SecReset"
    using idle by (cases "ll_priState s") (simp_all add: waiting_def)
  then have "fst (PriState_SendConfirmed (ll_priState s) d s) = None \<and>
      sends_taken (snd (PriState_SendConfirmed (ll_priState s) d s)) = Suc (sends_taken s)"
    using sc idle by (auto simp: sends_taken_def outstanding_def waiting_def Let_def)
  moreover have "fst (PriState_SendUnconfirmed (ll_priState s) d s) = None \<and>
      sends_taken (snd (PriState_SendUnconfirmed (ll_priState s) d s)) = Suc (sends_taken s)"
    using send_unconfirmed_step [OF assms(1) on assms(2) idle] assms o
    by (simp add: link_steps Let_def sends_taken_def outstanding_def waiting_def)
  ultimately show ?thesis using on by (simp add: LinkLayer_Send_online)
next
  case False
  then show ?thesis using assms send_while_waiting [of s d]
    by (cases "ll_isOnline s") (auto simp: LinkLayer_Send_online LinkLayer_Send_offline)
qed

lemma timeout_taken:
  assumes "link_inv s" and "ll_timer s" and "ll_upper s"
  shows "sends_taken (snd (LinkLayer_OnTimeout s)) = sends_taken s" and "fst (LinkLayer_OnTimeout s) = None"
proof -
  have w: "waiting s" using assms by (simp add: link_inv_def)
  then have on: "ll_isOnline s" using assms by (auto simp: link_inv_def waiting_def)
  obtain b d f where p: "pending_frame s b d f" using assms w by (auto simp: link_inv_def)
  note t = timeout_steps [OF assms(1) on w p]
  show "sends_taken (snd (LinkLayer_OnTimeout s)) = sends_taken s"
    using t w assms(3) by (cases "ll_retryRemaining s")
      (auto simp: sends_taken_def outstanding_def completed_def retransmitted_def waiting_def Let_def)
  show "fst (LinkLayer_OnTimeout s) = None" using t by (cases "ll_retryRemaining s") auto
qed

text \<open>Every event but the loss of the lower layer.\<close>

lemma handle_taken:
  assumes "link_inv s" and "link_possible s e" and "ll_upper s" and "e \<noteq> Link_LowerLayerDown"
  shows "sends_taken (snd (link_handle e s)) = sends_taken s + accepted_sends [e] s"
proof (cases e)
  case (Link_Frame c)
  have "sends_taken (snd (LinkLayer_OnFrame c s)) = sends_taken s"
    using assms(1,3) by (cases c) (auto intro!: when_valid_taken simp: reading_def pri_taken sec_taken)
  then show ?thesis by (simp add: Link_Frame)
qed (use assms in \<open>auto simp: link_possible_def send_taken timeout_taken sendable_def\<close>,
  simp_all add: LinkLayer_SetRouter_def LinkLayer_SetUpperLayer_def LinkLayer_OnLowerLayerUp_def handler_simps
    sends_taken_def outstanding_def waiting_def)

text \<open>No handler touches the configuration or lets go of the neighbours.\<close>

definition wired :: "LinkConfig \<Rightarrow> bool \<Rightarrow> LinkLayer \<Rightarrow> bool" where
  "wired c up s \<longleftrightarrow> ll_CONFIG s = c \<and> (up \<longrightarrow> ll_upper s) "

lemma wired_frames [keeps_intros]:
  "keeps (wired c up) (on_PriFrame f)" "keeps (wired c up) (on_SecFrame f)" "keeps (wired c up) (on_DelayedPriFrame f)"
  by (simp_all add: keeps_def wired_def on_PriFrame_def on_SecFrame_def on_DelayedPriFrame_def split: prod.split)

lemma wired_when_valid [keeps_intros]: "keeps P body \<Longrightarrow> keeps P (when_valid m a d body)"
  by (simp add: keeps_def when_valid_def split: sum.split)

lemma wired_pri [keeps_intros]:
  "keeps (wired c up) (PriState_Ack st full)" "keeps (wired c up) (PriState_Nack st full)"
  "keeps (wired c up) (PriState_LinkStatus st full)" "keeps (wired c up) (PriState_NotSupported st full)"
  "keeps (wired c up) (PriState_OnTimeout st)" "keeps (wired c up) (PriState_SendConfirmed st xs)"
  "keeps (wired c up) (PriState_SendUnconfirmed st xs)"
  by (cases st; auto simp: pri_defs handler_simps wired_def SendUnconfirmedUserData_def SendResetLinks_def
      SendDelayedUserData_def LinkLayer_Transmit_def ll_StartTimer_def ll_CancelTimer_def
      intro!: keeps_intros; fail)+

lemma wired_sec [keeps_intros]:
  "keeps (wired c up) SecStateBase_ResetLinkStates" "keeps (wired c up) SecStateBase_RequestLinkStatus"
  "keeps (wired c up) (SecStateBase_UnconfirmedUserData xs)"
  "keeps (wired c up) (SecState_TestLinkStatus st b)" "keeps (wired c up) (SecState_ConfirmedUserData st b xs)"
  by (auto simp: sec_defs handler_simps wired_def SendAck_def SendLinkStatus_def LinkLayer_Transmit_def intro!: keeps_intros)
    (cases st; auto simp: sec_defs handler_simps wired_def SendAck_def LinkLayer_Transmit_def intro!: keeps_intros)+

lemma wired_handle: "keeps (wired c up) (link_handle e)"
proof (cases e)
  case (Link_Frame f)
  then show ?thesis by (cases f) (auto intro!: keeps_intros)
qed (auto simp: LinkLayer_SetRouter_def LinkLayer_SetUpperLayer_def LinkLayer_OnLowerLayerUp_def
    LinkLayer_OnLowerLayerDown_def LinkLayer_Send_def LinkLayer_OnTimeout_def ll_CancelTimer_def handler_simps wired_def
    intro!: keeps_intros)

lemma wired_run: "wired c up s \<Longrightarrow> wired c up (run link_handle es s)"
  by (induction es arbitrary: s) (auto intro: keepsD [OF wired_handle])

lemma wired_self: "wired (ll_CONFIG s) (ll_upper s) s"
  by (simp add: wired_def)

lemma run_taken:
  "link_inv s \<Longrightarrow> feasible link_possible link_handle es s \<Longrightarrow> ll_upper s \<Longrightarrow> Link_LowerLayerDown \<notin> set es \<Longrightarrow>
   sends_taken (run link_handle es s) = sends_taken s + accepted_sends es s"
proof (induction es arbitrary: s)
  case (Cons e es)
  let ?s = "snd (link_handle e s)"
  have "link_inv ?s" using Cons.prems by (auto intro: link.inv_step)
  moreover have "ll_upper ?s"
    using keepsD [OF wired_handle wired_self, of s e] Cons.prems by (simp add: wired_def)
  ultimately have "sends_taken (run link_handle es ?s) = sends_taken ?s + accepted_sends es ?s"
    using Cons.IH [of ?s] Cons.prems by simp
  moreover have "sends_taken ?s = sends_taken s + accepted_sends [e] s"
    using Cons.prems by (intro handle_taken) auto
  ultimately show ?case by simp
qed simp

section \<open>Retries\<close>

lemma formatted_again: "frame_ok f \<Longrightarrow> length xs \<le> 250 \<Longrightarrow> formatted h xs (formatted h xs f) = formatted h xs f"
  using formatted_fits [of f xs h] by (simp add: formatted_def blit_def)

lemma frame_again [simp]:
  "frame_ok f \<Longrightarrow> ctrl_frame c fc (ctrl_frame c fc f) = ctrl_frame c fc f"
  "frame_ok f \<Longrightarrow> sendable d \<Longrightarrow> conf_frame c b d (conf_frame c b' d f) = conf_frame c b d f"
proof -
  show "ctrl_frame c fc (ctrl_frame c fc f) = ctrl_frame c fc f" if "frame_ok f"
    using that by (simp add: ctrl_frame_def formatted_again)
  show "conf_frame c b d (conf_frame c b' d f) = conf_frame c b d f" if "frame_ok f" "sendable d"
    using that formatted_fits [of f d] formatted_fits [of f d]
    by (simp add: conf_frame_def formatted_def blit_def sendable_def)
qed

text \<open>The frame a waiting primary half sends again.\<close>

definition retry_frame :: "LinkLayer \<Rightarrow> LinkFrame" where
  "retry_frame s = (if ll_priState s = PLLS_ResetLinkWait then ll_PriFrame s else ll_DelayedPriFrame s)"

text \<open>
  The last frame was this one: sending it again would change nothing in the buffers.
\<close>

definition stable_retry :: "LinkLayer \<Rightarrow> bytes \<Rightarrow> LinkFrame \<Rightarrow> bool" where
  "stable_retry s d f \<longleftrightarrow> waiting s \<and>
     (if ll_priState s = PLLS_ResetLinkWait
      then ctrl_frame (ll_CONFIG s) FC_PRI_RESET_LINK_STATES (ll_PriFrame s) = ll_PriFrame s
      else conf_frame (ll_CONFIG s) (ll_nextWriteFCB s) d f = ll_DelayedPriFrame s)"

lemma retransmitted_stable:
  "stable_retry s d f \<Longrightarrow> retransmitted s d f =
     s\<lparr>ll_out := ll_out s @ [Timer_Start (lc_Timeout (ll_CONFIG s)), Router_Transmit (retry_frame s)]\<rparr>"
  by (simp add: stable_retry_def retransmitted_def retry_frame_def Let_def)

lemma timeouts_run:
  "link_inv s \<Longrightarrow> ll_isOnline s \<Longrightarrow> pending_frame s b d f \<Longrightarrow> stable_retry s d f \<Longrightarrow> n = ll_retryRemaining s \<Longrightarrow>
   run link_handle (replicate (Suc n) Link_Timeout) s =
     completed PLLS_SecNotReset
       (concat (replicate n [Timer_Start (lc_Timeout (ll_CONFIG s)), Router_Transmit (retry_frame s)])
          @ (if ll_upper s then [Upper_OnSendFailure] else [])) (s\<lparr>ll_retryRemaining := 0\<rparr>)"
proof (induction n arbitrary: s)
  case 0
  then have "waiting s" by (simp add: stable_retry_def)
  with 0 show ?case using timeout_steps(2) [of s b d f] by (simp add: completed_def)
next
  case (Suc n)
  have w: "waiting s" using Suc.prems by (simp add: stable_retry_def)
  let ?t = "s\<lparr>ll_retryRemaining := n\<rparr>"
  let ?s = "?t\<lparr>ll_out := ll_out s @ [Timer_Start (lc_Timeout (ll_CONFIG s)), Router_Transmit (retry_frame s)]\<rparr>"
  have st: "stable_retry ?t d f" using Suc.prems by (simp add: stable_retry_def waiting_def)
  have "retry_frame ?t = retry_frame s" by (simp add: retry_frame_def)
  then have "retransmitted ?t d f = ?s" using retransmitted_stable [OF st] by (simp only:) simp
  then have step: "snd (LinkLayer_OnTimeout s) = ?s"
    using timeout_steps(1) [of s b d f n] Suc.prems w by simp
  have "link_inv ?s" using Suc.prems by (simp add: link_inv_def waiting_def pending_frame_def)
  moreover have "pending_frame ?s b d f" "stable_retry ?s d f" "retry_frame ?s = retry_frame s"
    using Suc.prems st by (simp_all add: pending_frame_def stable_retry_def retry_frame_def waiting_def)
  ultimately have "run link_handle (replicate (Suc n) Link_Timeout) ?s = completed PLLS_SecNotReset
       (concat (replicate n [Timer_Start (lc_Timeout (ll_CONFIG s)), Router_Transmit (retry_frame s)])
          @ (if ll_upper s then [Upper_OnSendFailure] else [])) (?s\<lparr>ll_retryRemaining := 0\<rparr>)"
    using Suc.IH [of ?s] Suc.prems by simp
  moreover have "run link_handle (replicate (Suc (Suc n)) Link_Timeout) s = run link_handle (replicate (Suc n) Link_Timeout) ?s"
    by (simp add: step)
  ultimately show ?case by (simp add: completed_def)
qed

lemma send_then_stable:
  assumes "link_inv s" and "ll_isOnline s" and "\<not> waiting s" and "sendable d" and "lc_UseConfirms (ll_CONFIG s)"
  defines "t \<equiv> snd (LinkLayer_Send d s)"
  shows "fst (LinkLayer_Send d s) = None" and "link_inv t" and "ll_isOnline t" and "ll_CONFIG t = ll_CONFIG s"
    and "ll_upper t = ll_upper s" and "ll_retryRemaining t = lc_NumRetry (ll_CONFIG s)"
    and "ll_out t = ll_out s @ [Timer_Start (lc_Timeout (ll_CONFIG s)), Router_Transmit (retry_frame t)]"
    and "\<exists>b f. pending_frame t b d f \<and> stable_retry t d f"
proof -
  note on = link_inv_online [OF assms(1,2)] and sc = send_confirmed_steps [OF assms(1,2,4,3)]
  have keep: "link_inv t" using send_keeps [OF assms(1,4)] by (simp add: keeps_link_inv_def t_def)
  have st: "ll_priState s = PLLS_SecNotReset \<or> ll_priState s = PLLS_SecReset"
    using assms(3) by (cases "ll_priState s") (simp_all add: waiting_def)
  have eq: "LinkLayer_Send d s = PriState_SendConfirmed (ll_priState s) d s"
    using assms(2,5) by (simp add: LinkLayer_Send_online)
  show "link_inv t" by (rule keep)
  show "fst (LinkLayer_Send d s) = None" using st sc by (auto simp: eq)
  show "ll_isOnline t" "ll_CONFIG t = ll_CONFIG s" "ll_upper t = ll_upper s"
    "ll_retryRemaining t = lc_NumRetry (ll_CONFIG s)"
    "ll_out t = ll_out s @ [Timer_Start (lc_Timeout (ll_CONFIG s)), Router_Transmit (retry_frame t)]"
    using st sc assms(2) by (auto simp: t_def eq Let_def retry_frame_def)
  show "\<exists>b f. pending_frame t b d f \<and> stable_retry t d f"
  proof (cases "ll_priState s = PLLS_SecNotReset")
    case True
    then have "pending_frame t True d (ll_DelayedPriFrame s)" "stable_retry t d (ll_DelayedPriFrame s)"
      using sc(1) on assms(4) by (simp_all add: t_def eq Let_def pending_frame_def stable_retry_def waiting_def)
    then show ?thesis by blast
  next
    case False
    with st have "pending_frame t (ll_nextWriteFCB s) d (ll_DelayedPriFrame s)" "stable_retry t d (ll_DelayedPriFrame s)"
      using sc(2) on assms(4) by (simp_all add: t_def eq Let_def pending_frame_def stable_retry_def waiting_def)
    then show ?thesis by blast
  qed
qed

section \<open>Properties\<close>

text \<open>In every state a link layer can reach, a timer is running exactly while the primary half waits for
  an answer, and no event the environment can produce fails an assertion or throws out of the timer.\<close>

theorem link_layer_timer_discipline:
  assumes "reachable link_handle link_possible link_start s"
  shows "(ll_timer s \<longleftrightarrow> ll_priState s = PLLS_ResetLinkWait \<or> ll_priState s = PLLS_ConfDataWait)
    \<and> (link_possible s e \<longrightarrow> fst (link_handle e s) \<noteq> Some AssertionFailed)
    \<and> (ll_timer s \<longrightarrow> fst (LinkLayer_OnTimeout s) = None)"
proof -
  have inv: "link_inv s" by (rule link.reachable_inv [OF assms])
  have "fst (LinkLayer_OnTimeout s) = None" if "ll_timer s"
  proof -
    have w: "waiting s" using inv that by (simp add: link_inv_def)
    then have on: "ll_isOnline s" using inv by (auto simp: link_inv_def waiting_def)
    obtain b d f where p: "pending_frame s b d f" using inv w by (auto simp: link_inv_def)
    show ?thesis using timeout_steps [OF inv on w p] by (cases "ll_retryRemaining s") auto
  qed
  moreover have "fst (link_handle e s) \<noteq> Some AssertionFailed" if "link_possible s e"
    using link.reachable_no_assertion [OF assms that] by (simp add: internal_error_def)
  ultimately show ?thesis using inv by (auto simp: link_inv_def waiting_def)
qed

text \<open>A station with the default configuration, its layers connected and the line up.\<close>

definition example_link :: "bool \<Rightarrow> LinkLayer" where
  "example_link master = run link_handle [Link_SetRouter, Link_SetUpperLayer, Link_LowerLayerUp]
     (new_LinkLayer ((default_LinkConfig master True)\<lparr>lc_NumRetry := 2\<rparr>) blank_frame blank_frame blank_frame)"

lemma example_link_fields:
  "example_link m = (new_LinkLayer ((default_LinkConfig m True)\<lparr>lc_NumRetry := 2\<rparr>) blank_frame blank_frame blank_frame)
     \<lparr>ll_router := True, ll_upper := True, ll_isOnline := True, ll_out := [Upper_OnLowerLayerUp]\<rparr>"
  by (simp add: example_link_def LinkLayer_SetRouter_def LinkLayer_SetUpperLayer_def LinkLayer_OnLowerLayerUp_def
      handler_simps new_LinkLayer_def)

lemma example_link_reachable: "reachable link_handle link_possible link_start (example_link m)"
  unfolding example_link_def
proof (rule link.reachable_run)
  show "reachable link_handle link_possible link_start
     (new_LinkLayer ((default_LinkConfig m True)\<lparr>lc_NumRetry := 2\<rparr>) blank_frame blank_frame blank_frame)"
    unfolding link_start_def by (rule reachable_start) (use frame_ok_blank in blast)
qed (simp add: link_possible_def LinkLayer_SetRouter_def LinkLayer_SetUpperLayer_def handler_simps new_LinkLayer_def)

theorem link_layer_timer_discipline_witness:
  "fst (link_handle (Link_Send [1]) (example_link True)) \<noteq> Some AssertionFailed"
  using link_layer_timer_discipline [OF example_link_reachable [of True], of "Link_Send [1]"]
  by (simp add: link_possible_def)

text \<open>Every send a link layer accepts is completed exactly once, by a success or by a failure, unless
  the lower layer goes down first: over any sequence of frames, timeouts and sends the completions
  reported plus the send still under way grow by exactly the number of sends accepted.\<close>

theorem sends_completed_once:
  assumes "reachable link_handle link_possible link_start s" and "ll_upper s"
    and "feasible link_possible link_handle es s" and "Link_LowerLayerDown \<notin> set es"
  shows "completions (ll_out (run link_handle es s)) + outstanding (run link_handle es s)
    = completions (ll_out s) + outstanding s + accepted_sends es s"
  using run_taken [OF link.reachable_inv [OF assms(1)] assms(3,2,4)] by (simp add: sends_taken_def)

theorem sends_completed_once_witness:
  "completions (ll_out (run link_handle [Link_Send [1]] (example_link True)))
     + outstanding (run link_handle [Link_Send [1]] (example_link True)) = accepted_sends [Link_Send [1]] (example_link True)"
proof -
  have "ll_upper (example_link True)" by (simp add: example_link_fields)
  moreover have "feasible link_possible link_handle [Link_Send [1]] (example_link True)" by (simp add: link_possible_def)
  moreover have "completions (ll_out (example_link True)) = 0" "outstanding (example_link True) = 0"
    by (simp_all add: example_link_fields outstanding_def waiting_def new_LinkLayer_def)
  ultimately show ?thesis using sends_completed_once [OF example_link_reachable [of True], of "[Link_Send [1]]"] by simp
qed

text \<open>C29: A confirmed send that is never answered puts the same frame on the line once and again after each
  of the configured number of timeouts, then reports one failure and leaves the timer off.\<close>

theorem confirmed_send_retries:
  assumes "reachable link_handle link_possible link_start s" and "ll_isOnline s" and "ll_upper s" and "\<not> waiting s"
    and "lc_UseConfirms (ll_CONFIG s)" and "d \<noteq> []" and "length d \<le> LS_MAX_USER_DATA_SIZE"
    and "n = lc_NumRetry (ll_CONFIG s)"
  shows "\<exists>f. let t = run link_handle (Link_Send d # replicate (Suc n) Link_Timeout) s;
      send = [Timer_Start (lc_Timeout (ll_CONFIG s)), Router_Transmit f]
    in ll_out t = ll_out s @ concat (replicate (Suc n) send) @ [Upper_OnSendFailure]
      \<and> \<not> ll_timer t \<and> ll_priState t = PLLS_SecNotReset"
proof -
  have inv: "link_inv s" by (rule link.reachable_inv [OF assms(1)])
  have d: "sendable d" using assms(6,7) by (simp add: sendable_def link_consts)
  let ?t = "snd (LinkLayer_Send d s)"
  note send = send_then_stable [OF inv assms(2,4) d assms(5)]
  obtain b f where pf: "pending_frame ?t b d f" "stable_retry ?t d f" using send(8) by blast
  have "run link_handle (replicate (Suc n) Link_Timeout) ?t = completed PLLS_SecNotReset
       (concat (replicate n [Timer_Start (lc_Timeout (ll_CONFIG s)), Router_Transmit (retry_frame ?t)])
          @ [Upper_OnSendFailure]) (?t\<lparr>ll_retryRemaining := 0\<rparr>)"
    using timeouts_run [OF send(2,3) pf, of n] send(4,5,6) assms(3,8) by simp
  then show ?thesis using send(7) by (intro exI [of _ "retry_frame ?t"]) (simp add: completed_def Let_def)
qed

theorem confirmed_send_retries_witness:
  "\<exists>f. let t = run link_handle (Link_Send [1, 2] # replicate 3 Link_Timeout) (example_link True);
      send = [Timer_Start 1000, Router_Transmit f]
    in ll_out t = Upper_OnLowerLayerUp # concat (replicate 3 send) @ [Upper_OnSendFailure]
      \<and> \<not> ll_timer t \<and> ll_priState t = PLLS_SecNotReset"
proof -
  have c: "ll_CONFIG (example_link True) = (default_LinkConfig True True)\<lparr>lc_NumRetry := 2\<rparr>"
      "ll_isOnline (example_link True)" "ll_upper (example_link True)" "\<not> waiting (example_link True)"
      "ll_out (example_link True) = [Upper_OnLowerLayerUp]"
    by (simp_all add: example_link_fields new_LinkLayer_def waiting_def)
  then show ?thesis
    using confirmed_send_retries [OF example_link_reachable [of True], of "[1, 2]" 2]
    by (simp add: default_LinkConfig_def link_consts numeral_3_eq_3 numeral_2_eq_2)
qed

end
