(* ===== verification/LinkExchanges.thy ===== *)
theory LinkExchanges
  imports LinkLayers "HOL-Library.Sublist"
begin

text \<open>
  Two link layers (LinkLayer.cpp with its states) talking over a line that loses frames: station A
  sends confirmed user data, station B receives it. Frames travel as bytes and are recognised by the
  receiver's stream function. The line keeps the order and may lose any frame; a timer fires only
  when nothing is in flight (the response timeout is longer than a round trip, which the protocol's
  one-bit frame count and unnumbered acknowledgements rely on). Proved is that B hands every message
  to its user at most once and in order, and exactly once when A reports success.
\<close>

section \<open>The line\<close>

text \<open>What a list of calls delivers to the user and puts on the line.\<close>

primrec delivered :: "LinkOut list \<Rightarrow> bytes list" where
  "delivered [] = []"
| "delivered (c # cs) = (case c of Upper_OnReceive d \<Rightarrow> d # delivered cs | _ \<Rightarrow> delivered cs)"

primrec transmitted :: "LinkOut list \<Rightarrow> LinkFrame list" where
  "transmitted [] = []"
| "transmitted (c # cs) = (case c of Router_Transmit f \<Rightarrow> f # transmitted cs | _ \<Rightarrow> transmitted cs)"

lemma delivered_append [simp]: "delivered (xs @ ys) = delivered xs @ delivered ys"
  by (induction xs) (auto split: LinkOut.split)

lemma transmitted_append [simp]: "transmitted (xs @ ys) = transmitted xs @ transmitted ys"
  by (induction xs) (auto split: LinkOut.split)

definition new_outputs :: "LinkLayer \<Rightarrow> LinkLayer \<Rightarrow> LinkOut list" where
  "new_outputs s t = drop (length (ll_out s)) (ll_out t)"

lemma new_outputs_append: "ll_out t = ll_out s @ xs \<Longrightarrow> new_outputs s t = xs"
  by (simp add: new_outputs_def)

text \<open>
  The two stations, the frames in flight in each direction, and what A's user knows: the messages A
  accepted and those it reported sent.
\<close>

record Line =
  ln_A :: LinkLayer
  ln_B :: LinkLayer
  ln_toB :: "LinkFrame list"
  ln_toA :: "LinkFrame list"
  ln_sent :: "bytes list"
  ln_confirmed :: "bytes list"

definition wire_calls :: "LinkFrame \<Rightarrow> FrameSinkCall list" where
  "wire_calls f = fst (decode (frame_bytes f))"

definition move_A :: "LinkLayer \<Rightarrow> Line \<Rightarrow> Line" where
  "move_A a l = (let outs = new_outputs (ln_A l) a in
     l\<lparr>ln_A := a, ln_toB := ln_toB l @ transmitted outs,
       ln_confirmed := ln_confirmed l @ (if Upper_OnSendSuccess \<in> set outs then [last (ln_sent l)] else [])\<rparr>)"

definition move_B :: "LinkLayer \<Rightarrow> Line \<Rightarrow> Line" where
  "move_B b l = l\<lparr>ln_B := b, ln_toA := ln_toA l @ transmitted (new_outputs (ln_B l) b)\<rparr>"

inductive line_step :: "Line \<Rightarrow> Line \<Rightarrow> bool" where
  line_send: "ln_toB l = [] \<Longrightarrow> ln_toA l = [] \<Longrightarrow> sendable d \<Longrightarrow> LinkLayer_Send d (ln_A l) = (None, a) \<Longrightarrow>
     line_step l (move_A a (l\<lparr>ln_sent := ln_sent l @ [d]\<rparr>))"
| line_timeout: "ln_toB l = [] \<Longrightarrow> ln_toA l = [] \<Longrightarrow> ll_timer (ln_A l) \<Longrightarrow>
     line_step l (move_A (snd (LinkLayer_OnTimeout (ln_A l))) l)"
| line_lose_toB: "ln_toB l = f # fs \<Longrightarrow> line_step l (l\<lparr>ln_toB := fs\<rparr>)"
| line_lose_toA: "ln_toA l = f # fs \<Longrightarrow> line_step l (l\<lparr>ln_toA := fs\<rparr>)"
| line_deliver_toB: "ln_toB l = f # fs \<Longrightarrow>
     line_step l (move_B (run LinkLayer_OnFrame (wire_calls f) (ln_B l)) (l\<lparr>ln_toB := fs\<rparr>))"
| line_deliver_toA: "ln_toA l = f # fs \<Longrightarrow>
     line_step l (move_A (run LinkLayer_OnFrame (wire_calls f) (ln_A l)) (l\<lparr>ln_toA := fs\<rparr>))"

text \<open>Two stations with matching addresses and opposite roles, both up, nothing sent yet.\<close>

definition ready :: "LinkLayer \<Rightarrow> bool" where
  "ready s \<longleftrightarrow> reachable link_handle link_possible link_start s \<and> ll_isOnline s \<and> ll_upper s \<and>
     ll_priState s = PLLS_SecNotReset"

definition peers :: "LinkConfig \<Rightarrow> LinkConfig \<Rightarrow> bool" where
  "peers c d \<longleftrightarrow> lc_IsMaster d = (\<not> lc_IsMaster c) \<and> lc_LocalAddr d = lc_RemoteAddr c \<and>
     lc_RemoteAddr d = lc_LocalAddr c"

definition line_start :: "Line \<Rightarrow> bool" where
  "line_start l \<longleftrightarrow> ready (ln_A l) \<and> ready (ln_B l) \<and> delivered (ll_out (ln_B l)) = [] \<and>
     lc_UseConfirms (ll_CONFIG (ln_A l)) \<and> peers (ll_CONFIG (ln_A l)) (ll_CONFIG (ln_B l)) \<and>
     ln_toB l = [] \<and> ln_toA l = [] \<and> ln_sent l = [] \<and> ln_confirmed l = []"

inductive line_reachable :: "Line \<Rightarrow> bool" where
  line_reachable_start: "line_start l \<Longrightarrow> line_reachable l"
| line_reachable_step: "line_reachable l \<Longrightarrow> line_step l m \<Longrightarrow> line_reachable m"

section \<open>What the frames mean on the wire\<close>

lemma wire_deliverable: "deliverable f h xs \<Longrightarrow> wire_calls f = frame_call h xs"
  using decode_frame [of f h xs "[]"] by (simp add: wire_calls_def decode_short resync_def)

lemma wire_ctrl:
  assumes "frame_ok f"
  shows "wire_calls (ctrl_frame c FC_SEC_ACK f) = [Ack (lc_IsMaster c) False (lc_RemoteAddr c) (lc_LocalAddr c)]"
    and "wire_calls (ctrl_frame c FC_PRI_RESET_LINK_STATES f) =
      [ResetLinkStates (lc_IsMaster c) (lc_RemoteAddr c) (lc_LocalAddr c)]"
proof -
  have d: "deliverable (ctrl_frame c fc f)
      (formatted_header 0 (lc_IsMaster c) False False fc (lc_RemoteAddr c) (lc_LocalAddr c)) []"
    if "fc = FC_SEC_ACK \<or> fc = FC_PRI_RESET_LINK_STATES" for fc
    using formatted_deliverable [of _ "[]" "lc_IsMaster c" False False fc "lc_RemoteAddr c" "lc_LocalAddr c"]
      formatted_carries [OF assms, of "[]"] that by (auto simp: ctrl_frame_def legal_control_def)
  show "wire_calls (ctrl_frame c FC_SEC_ACK f) = [Ack (lc_IsMaster c) False (lc_RemoteAddr c) (lc_LocalAddr c)]"
    by (simp add: wire_deliverable [OF d] frame_call_def formatted_fields [OF refl])
  show "wire_calls (ctrl_frame c FC_PRI_RESET_LINK_STATES f) =
      [ResetLinkStates (lc_IsMaster c) (lc_RemoteAddr c) (lc_LocalAddr c)]"
    by (simp add: wire_deliverable [OF d] frame_call_def formatted_fields [OF refl])
qed

lemma wire_conf:
  assumes "frame_ok f" and "sendable d"
  shows "wire_calls (conf_frame c b d f) = [ConfirmedUserData (lc_IsMaster c) b (lc_RemoteAddr c) (lc_LocalAddr c) d]"
proof -
  have "deliverable (conf_frame c b d f) (formatted_header (length d) (lc_IsMaster c) b True FC_PRI_CONFIRMED_USER_DATA
      (lc_RemoteAddr c) (lc_LocalAddr c)) d"
    using formatted_deliverable [of _ d "lc_IsMaster c" b True FC_PRI_CONFIRMED_USER_DATA "lc_RemoteAddr c" "lc_LocalAddr c"]
      formatted_carries [OF assms(1), of d] assms(2) by (auto simp: conf_frame_def legal_control_def sendable_def)
  from wire_deliverable [OF this] show ?thesis by (simp add: frame_call_def formatted_fields [OF refl])
qed

section \<open>The invariant of the exchange\<close>

text \<open>
  \<open>exchange c b l\<close>: what is known in state \<open>l\<close>, with A's configuration \<open>c\<close> and B's \<open>b\<close>. While A waits,
  the message under way is the last one of \<open>ln_sent\<close>; in the data phase either B still expects it
  (the frame count bits agree) or B has already delivered it (they differ).
\<close>

definition is_reset :: "LinkConfig \<Rightarrow> LinkFrame \<Rightarrow> bool" where
  "is_reset c f \<longleftrightarrow> wire_calls f = [ResetLinkStates (lc_IsMaster c) (lc_RemoteAddr c) (lc_LocalAddr c)]"

definition is_conf :: "LinkConfig \<Rightarrow> bool \<Rightarrow> bytes \<Rightarrow> LinkFrame \<Rightarrow> bool" where
  "is_conf c b d f \<longleftrightarrow> wire_calls f = [ConfirmedUserData (lc_IsMaster c) b (lc_RemoteAddr c) (lc_LocalAddr c) d]"

definition is_ack :: "LinkConfig \<Rightarrow> LinkFrame \<Rightarrow> bool" where
  "is_ack c f \<longleftrightarrow> wire_calls f = [Ack (lc_IsMaster c) False (lc_RemoteAddr c) (lc_LocalAddr c)]"

definition at_most_one :: "('a \<Rightarrow> bool) \<Rightarrow> 'a list \<Rightarrow> bool" where
  "at_most_one P xs \<longleftrightarrow> xs = [] \<or> (\<exists>x. xs = [x] \<and> P x)"

abbreviation got :: "Line \<Rightarrow> bytes list" where
  "got l \<equiv> delivered (ll_out (ln_B l))"

definition in_sync :: "Line \<Rightarrow> bool" where
  "in_sync l \<longleftrightarrow> ll_secState (ln_B l) = SLLS_Reset \<and> ll_nextReadFCB (ln_B l) = ll_nextWriteFCB (ln_A l)"

definition phase_idle :: "Line \<Rightarrow> bool" where
  "phase_idle l \<longleftrightarrow> ln_toB l = [] \<and> ln_toA l = [] \<and> subseq (ln_confirmed l) (got l) \<and> subseq (got l) (ln_sent l) \<and>
     (ll_priState (ln_A l) = PLLS_SecReset \<longrightarrow> in_sync l)"

definition phase_reset :: "bytes \<Rightarrow> Line \<Rightarrow> bool" where
  "phase_reset d l \<longleftrightarrow> subseq (ln_confirmed l) (got l) \<and> subseq (got l) (butlast (ln_sent l)) \<and>
     (ln_toA l = [] \<and> at_most_one (is_reset (ll_CONFIG (ln_A l))) (ln_toB l) \<or>
      ln_toB l = [] \<and> at_most_one (is_ack (ll_CONFIG (ln_B l))) (ln_toA l) \<and>
      ll_secState (ln_B l) = SLLS_Reset \<and> ll_nextReadFCB (ln_B l))"

definition phase_data :: "bytes \<Rightarrow> Line \<Rightarrow> bool" where
  "phase_data d l \<longleftrightarrow> ll_secState (ln_B l) = SLLS_Reset \<and>
     at_most_one (is_conf (ll_CONFIG (ln_A l)) (ll_nextWriteFCB (ln_A l)) d) (ln_toB l) \<and>
     (if in_sync l
      then ln_toA l = [] \<and> subseq (ln_confirmed l) (got l) \<and> subseq (got l) (butlast (ln_sent l))
      else at_most_one (is_ack (ll_CONFIG (ln_B l))) (ln_toA l) \<and> (ln_toA l = [] \<or> ln_toB l = []) \<and>
        (\<exists>g. got l = g @ [d] \<and> subseq (ln_confirmed l) g \<and> subseq g (butlast (ln_sent l))))"

definition exchange :: "Line \<Rightarrow> bool" where
  "exchange l \<longleftrightarrow>
     link_inv (ln_A l) \<and> link_inv (ln_B l) \<and> ll_isOnline (ln_A l) \<and> ll_isOnline (ln_B l) \<and>
     ll_upper (ln_A l) \<and> ll_upper (ln_B l) \<and> lc_UseConfirms (ll_CONFIG (ln_A l)) \<and>
     peers (ll_CONFIG (ln_A l)) (ll_CONFIG (ln_B l)) \<and>
     (if waiting (ln_A l)
      then \<exists>d b f. ln_sent l \<noteq> [] \<and> last (ln_sent l) = d \<and> pending_frame (ln_A l) b d f \<and>
        (if ll_priState (ln_A l) = PLLS_ResetLinkWait then phase_reset d l else phase_data d l)
      else phase_idle l)"

lemma exchange_start: "line_start l \<Longrightarrow> exchange l"
  by (auto simp: line_start_def ready_def exchange_def phase_idle_def waiting_def intro: link.reachable_inv)

section \<open>What each side does with a frame of the other\<close>

lemma frame_inv: "link_inv s \<Longrightarrow> link_inv (snd (LinkLayer_OnFrame c s))"
  using link.inv_step [of s "Link_Frame c"] by (simp add: link_possible_def)

lemma valid_peer:
  assumes "peers c (ll_CONFIG s)" and "ll_isOnline s"
  shows "when_valid (lc_IsMaster c) (lc_LocalAddr c) (lc_RemoteAddr c) body s = body s"
  using assms by (auto simp: when_valid_def LinkLayer_Validate_def peers_def)

lemma peers_sym: "peers c d \<Longrightarrow> peers d c"
  by (auto simp: peers_def)

text \<open>The receiving side, after the frame: the fields that matter.\<close>

lemma B_gets_reset:
  assumes "link_inv s" and "ll_isOnline s" and "peers c (ll_CONFIG s)" and "is_reset c f"
  shows "\<exists>g. is_ack (ll_CONFIG s) g \<and> run LinkLayer_OnFrame (wire_calls f) s =
     s\<lparr>ll_nextReadFCB := True, ll_SecFrame := g, ll_secState := SLLS_Reset, ll_out := ll_out s @ [Router_Transmit g]\<rparr>"
proof -
  note on = link_inv_online [OF assms(1,2)]
  show ?thesis
    using assms(4) on wire_ctrl(1) [OF on(4), of "ll_CONFIG s"]
    by (intro exI [of _ "ctrl_frame (ll_CONFIG s) FC_SEC_ACK (ll_SecFrame s)"])
      (simp add: is_reset_def is_ack_def valid_peer [OF assms(3,2)] sec_defs handler_simps link_steps Let_def)
qed

lemma B_gets_conf:
  assumes "link_inv s" and "ll_isOnline s" and "peers c (ll_CONFIG s)" and "is_conf c b d f"
    and "ll_secState s = SLLS_Reset" and "ll_upper s"
  shows "\<exists>g. is_ack (ll_CONFIG s) g \<and> run LinkLayer_OnFrame (wire_calls f) s =
     (if ll_nextReadFCB s = b
      then s\<lparr>ll_nextReadFCB := \<not> b, ll_SecFrame := g, ll_out := ll_out s @ [Router_Transmit g, Upper_OnReceive d]\<rparr>
      else s\<lparr>ll_SecFrame := g, ll_out := ll_out s @ [Router_Transmit g]\<rparr>)"
proof -
  note on = link_inv_online [OF assms(1,2)]
  show ?thesis
    using assms(4-6) on wire_ctrl(1) [OF on(4), of "ll_CONFIG s"]
    by (intro exI [of _ "ctrl_frame (ll_CONFIG s) FC_SEC_ACK (ll_SecFrame s)"])
      (simp add: is_conf_def is_ack_def valid_peer [OF assms(3,2)] sec_defs handler_simps link_steps Let_def)
qed

lemma A_gets_ack:
  assumes "ll_isOnline s" and "peers c (ll_CONFIG s)" and "is_ack c f"
  shows "run LinkLayer_OnFrame (wire_calls f) s = snd (PriState_Ack (ll_priState s) False s)"
  using assms by (simp add: is_ack_def valid_peer reading_def)

section \<open>The steps keep the invariant\<close>

lemma at_most_one_simps [simp]: "at_most_one P []" "at_most_one P [x] = P x"
  by (simp_all add: at_most_one_def)

lemma at_most_one_Cons: "at_most_one P (x # xs) \<longleftrightarrow> xs = [] \<and> P x"
  by (auto simp: at_most_one_def)

lemma exchange_lose:
  assumes "exchange l"
  shows "ln_toB l = f # fs \<Longrightarrow> exchange (l\<lparr>ln_toB := fs\<rparr>)" and "ln_toA l = f # fs \<Longrightarrow> exchange (l\<lparr>ln_toA := fs\<rparr>)"
  using assms
  by (auto simp: exchange_def phase_idle_def phase_reset_def phase_data_def in_sync_def at_most_one_Cons split: if_splits)

lemma exchange_deliver_toB:
  assumes "exchange l" and "ln_toB l = f # fs"
  shows "exchange (move_B (run LinkLayer_OnFrame (wire_calls f) (ln_B l)) (l\<lparr>ln_toB := fs\<rparr>))"
proof -
  let ?B = "ln_B l" and ?A = "ln_A l" let ?B' = "run LinkLayer_OnFrame (wire_calls f) ?B"
  let ?m = "move_B ?B' (l\<lparr>ln_toB := fs\<rparr>)"
  have ex: "link_inv ?B" "ll_isOnline ?B" "peers (ll_CONFIG ?A) (ll_CONFIG ?B)" "ll_upper ?B"
    using assms(1) by (simp_all add: exchange_def)
  have w: "waiting ?A" using assms by (auto simp: exchange_def phase_idle_def split: if_splits)
  then obtain b0 f0 where ex2: "ln_sent l \<noteq> []" "pending_frame ?A b0 (last (ln_sent l)) f0"
      and ph: "if ll_priState ?A = PLLS_ResetLinkWait then phase_reset (last (ln_sent l)) l else phase_data (last (ln_sent l)) l"
    using assms(1) by (auto simp: exchange_def)
  show ?thesis
  proof (cases "ll_priState ?A = PLLS_ResetLinkWait")
    case True
    then have ph': "phase_reset (last (ln_sent l)) l" using ph by simp
    then have f: "is_reset (ll_CONFIG ?A) f" "fs = []" "ln_toA l = []"
      using assms(2) by (auto simp: phase_reset_def at_most_one_Cons)
    obtain g where g: "is_ack (ll_CONFIG ?B) g" and B': "?B' = ?B\<lparr>ll_nextReadFCB := True, ll_SecFrame := g,
        ll_secState := SLLS_Reset, ll_out := ll_out ?B @ [Router_Transmit g]\<rparr>"
      using B_gets_reset [OF ex(1-3) f(1)] by blast
    have inv: "link_inv ?B'" using frame_inv [OF ex(1)] f(1) by (simp add: is_reset_def del: LinkLayer_OnFrame.simps)
    have "new_outputs ?B ?B' = [Router_Transmit g]" by (rule new_outputs_append) (simp add: B')
    then have "phase_reset (last (ln_sent l)) ?m"
      using ph' f g by (simp add: phase_reset_def move_B_def) (simp add: B')
    then show ?thesis
      using assms(1) w ex2 inv True by (simp add: exchange_def move_B_def) (simp add: B' peers_def)
  next
    case False
    then have ph': "phase_data (last (ln_sent l)) l" using ph by simp
    let ?d = "last (ln_sent l)"
    have f: "is_conf (ll_CONFIG ?A) (ll_nextWriteFCB ?A) ?d f" "fs = []" "ll_secState ?B = SLLS_Reset" "ln_toA l = []"
      using ph' assms(2) by (auto simp: phase_data_def at_most_one_Cons split: if_splits)
    obtain g where g: "is_ack (ll_CONFIG ?B) g" and B': "?B' = (if ll_nextReadFCB ?B = ll_nextWriteFCB ?A
      then ?B\<lparr>ll_nextReadFCB := \<not> ll_nextWriteFCB ?A, ll_SecFrame := g, ll_out := ll_out ?B @ [Router_Transmit g, Upper_OnReceive ?d]\<rparr>
      else ?B\<lparr>ll_SecFrame := g, ll_out := ll_out ?B @ [Router_Transmit g]\<rparr>)"
      using B_gets_conf [OF ex(1-3) f(1,3) ex(4)] by blast
    have inv: "link_inv ?B'" using frame_inv [OF ex(1)] f(1) by (simp add: is_conf_def del: LinkLayer_OnFrame.simps)
    have "phase_data ?d ?m"
    proof (cases "ll_nextReadFCB ?B = ll_nextWriteFCB ?A")
      case True
      have "new_outputs ?B ?B' = [Router_Transmit g, Upper_OnReceive ?d]" by (rule new_outputs_append) (simp add: B' True)
      then show ?thesis
        using ph' f g True by (simp add: phase_data_def in_sync_def move_B_def) (simp add: B')
    next
      case out: False
      have "new_outputs ?B ?B' = [Router_Transmit g]" by (rule new_outputs_append) (simp add: B' out)
      then show ?thesis
        using ph' f g out by (simp add: phase_data_def in_sync_def move_B_def) (simp add: B')
    qed
    then show ?thesis
      using assms(1) w ex2 inv False by (simp add: exchange_def move_B_def) (simp add: B' peers_def)
  qed
qed

lemma subseq_last:
  assumes "xs \<noteq> []" and "subseq ys (butlast xs)"
  shows "subseq ys xs" and "subseq (ys @ [last xs]) xs"
proof -
  have xs: "xs = butlast xs @ [last xs]" using assms(1) by simp
  show "subseq ys xs" using list_emb_append_mono [OF assms(2), of "[]" "[last xs]"] by (simp flip: xs)
  show "subseq (ys @ [last xs]) xs" using list_emb_append_mono [OF assms(2), of "[last xs]" "[last xs]"] by (simp flip: xs)
qed

text \<open>The frames A has put on the line.\<close>

lemma is_reset_ctrl: "frame_ok f \<Longrightarrow> is_reset c (ctrl_frame c FC_PRI_RESET_LINK_STATES f)"
  by (simp add: is_reset_def wire_ctrl)

lemma is_conf_conf: "frame_ok f \<Longrightarrow> sendable d \<Longrightarrow> is_conf c b d (conf_frame c b d f)"
  by (simp add: is_conf_def wire_conf)

lemma exchange_deliver_toA:
  assumes "exchange l" and "ln_toA l = f # fs"
  shows "exchange (move_A (run LinkLayer_OnFrame (wire_calls f) (ln_A l)) (l\<lparr>ln_toA := fs\<rparr>))"
proof -
  let ?A = "ln_A l" and ?B = "ln_B l" let ?A' = "run LinkLayer_OnFrame (wire_calls f) ?A"
  let ?m = "move_A ?A' (l\<lparr>ln_toA := fs\<rparr>)" let ?d = "last (ln_sent l)"
  have ex: "link_inv ?A" "ll_isOnline ?A" "peers (ll_CONFIG ?A) (ll_CONFIG ?B)" "ll_upper ?A"
    using assms(1) by (simp_all add: exchange_def)
  have w: "waiting ?A" using assms by (auto simp: exchange_def phase_idle_def split: if_splits)
  then obtain b0 f0 where sent: "ln_sent l \<noteq> []" and pend: "pending_frame ?A b0 ?d f0"
      and ph: "if ll_priState ?A = PLLS_ResetLinkWait then phase_reset ?d l else phase_data ?d l"
    using assms(1) by (auto simp: exchange_def)
  have fd: "frame_ok f0" "sendable ?d" using pend by (simp_all add: pending_frame_def)
  have ack: "is_ack (ll_CONFIG ?B) f" and none: "fs = []" "ln_toB l = []"
    using ph assms(2) by (auto simp: phase_reset_def phase_data_def at_most_one_Cons split: if_splits)
  have A': "?A' = snd (PriState_Ack (ll_priState ?A) False ?A)"
    by (rule A_gets_ack [OF ex(2) peers_sym [OF ex(3)] ack])
  have inv: "link_inv ?A'" using frame_inv [OF ex(1)] ack by (simp add: is_ack_def del: LinkLayer_OnFrame.simps)
  show ?thesis
  proof (cases "ll_priState ?A = PLLS_ResetLinkWait")
    case True
    then have ph': "phase_reset ?d l" using ph by simp
    let ?g = "conf_frame (ll_CONFIG ?A) True ?d f0"
    have A2: "?A' = ?A\<lparr>ll_nextWriteFCB := True, ll_timer := True, ll_priState := PLLS_ConfDataWait, ll_DelayedPriFrame := ?g,
          ll_out := ll_out ?A @ [Timer_Cancel, Timer_Start (lc_Timeout (ll_CONFIG ?A)), Router_Transmit ?g]\<rparr>"
      using ack_steps(1) [OF ex(1,2) True pend, of False] unfolding A' by (simp add: Let_def)
    have "new_outputs ?A ?A' = [Timer_Cancel, Timer_Start (lc_Timeout (ll_CONFIG ?A)), Router_Transmit ?g]"
      by (rule new_outputs_append) (simp add: A2)
    then have "phase_data ?d ?m"
      using ph' assms(2) none is_conf_conf [OF fd, of "ll_CONFIG ?A" True]
      by (simp add: phase_reset_def phase_data_def in_sync_def move_A_def Let_def) (simp add: A2)
    moreover have "pending_frame ?A' True ?d f0" using fd by (simp add: pending_frame_def A2)
    moreover have "ll_priState ?A' = PLLS_ConfDataWait" "ll_isOnline ?A'" "ll_upper ?A'" "ll_CONFIG ?A' = ll_CONFIG ?A"
      using ex by (simp_all add: A2)
    ultimately show ?thesis
      using assms(1) inv sent by (auto simp: exchange_def move_A_def Let_def waiting_def)
  next
    case False
    with w have st: "ll_priState ?A = PLLS_ConfDataWait" by (simp add: waiting_def)
    have ph': "phase_data ?d l" using ph False by simp
    have A2: "?A' = completed PLLS_SecReset [Timer_Cancel, Upper_OnSendSuccess] (?A\<lparr>ll_nextWriteFCB := \<not> ll_nextWriteFCB ?A\<rparr>)"
      using ack_steps(2) [OF ex(1,2) st, of False] ex(4) unfolding A' by simp
    have out: "new_outputs ?A ?A' = [Timer_Cancel, Upper_OnSendSuccess]"
      by (rule new_outputs_append) (simp add: A2 completed_def)
    have "\<not> in_sync l" using ph' assms(2) by (auto simp: phase_data_def split: if_splits)
    then obtain g where g: "got l = g @ [?d]" "subseq (ln_confirmed l) g" "subseq g (butlast (ln_sent l))"
        and rst: "ll_secState ?B = SLLS_Reset" "ll_nextReadFCB ?B = (\<not> ll_nextWriteFCB ?A)"
      using ph' by (auto simp: phase_data_def in_sync_def split: if_splits)
    have "subseq (got l) (ln_sent l)"
      using g subseq_last(2) [OF sent] by simp
    moreover have "subseq (ln_confirmed l @ [?d]) (got l)" using g by (simp add: g)
    ultimately have "phase_idle ?m"
      using none rst by (simp add: phase_idle_def in_sync_def move_A_def Let_def out) (simp add: A2 completed_def)
    then show ?thesis
      using assms(1) inv by (simp add: exchange_def move_A_def Let_def) (simp add: A2 completed_def waiting_def)
  qed
qed

lemma exchange_timeout:
  assumes "exchange l" and "ln_toB l = []" and "ln_toA l = []" and "ll_timer (ln_A l)"
  shows "exchange (move_A (snd (LinkLayer_OnTimeout (ln_A l))) l)"
proof -
  let ?A = "ln_A l" and ?B = "ln_B l" let ?A' = "snd (LinkLayer_OnTimeout ?A)"
  let ?m = "move_A ?A' l" let ?d = "last (ln_sent l)"
  have ex: "link_inv ?A" "ll_isOnline ?A" "ll_upper ?A"
    using assms(1) by (simp_all add: exchange_def)
  have w: "waiting ?A" using ex(1) assms(4) by (simp add: link_inv_def)
  then obtain b0 f0 where sent: "ln_sent l \<noteq> []" and pend: "pending_frame ?A b0 ?d f0"
      and ph: "if ll_priState ?A = PLLS_ResetLinkWait then phase_reset ?d l else phase_data ?d l"
    using assms(1) by (auto simp: exchange_def)
  have fd: "frame_ok f0" "sendable ?d" using pend by (simp_all add: pending_frame_def)
  have inv: "link_inv ?A'" using timeout_keeps [OF ex(1) assms(4)] by (simp add: keeps_link_inv_def)
  have sub: "subseq (got l) (ln_sent l)" "subseq (ln_confirmed l) (got l)"
  proof -
    show "subseq (got l) (ln_sent l)" "subseq (ln_confirmed l) (got l)"
      using ph subseq_last [OF sent] by (auto simp: phase_reset_def phase_data_def split: if_splits)
  qed
  show ?thesis
  proof (cases "ll_retryRemaining ?A")
    case 0
    then have A2: "?A' = completed PLLS_SecNotReset [Upper_OnSendFailure] ?A"
      using timeout_steps(2) [OF ex(1,2) w pend] ex(3) by simp
    have "new_outputs ?A ?A' = [Upper_OnSendFailure]" by (rule new_outputs_append) (simp add: A2 completed_def)
    then have "phase_idle ?m"
      using assms(2,3) sub by (simp add: phase_idle_def move_A_def) (simp add: A2 completed_def)
    then show ?thesis
      using assms(1) inv by (simp add: exchange_def move_A_def Let_def) (simp add: A2 completed_def waiting_def)
  next
    case (Suc n)
    let ?t = "?A\<lparr>ll_retryRemaining := n\<rparr>"
    have A2: "?A' = retransmitted ?t ?d f0" using timeout_steps(1) [OF ex(1,2) w pend Suc] by simp
    show ?thesis
    proof (cases "ll_priState ?A = PLLS_ResetLinkWait")
      case True
      let ?g = "ctrl_frame (ll_CONFIG ?A) FC_PRI_RESET_LINK_STATES (ll_PriFrame ?A)"
      have A3: "?A' = ?t\<lparr>ll_PriFrame := ?g, ll_out := ll_out ?A @ [Timer_Start (lc_Timeout (ll_CONFIG ?A)), Router_Transmit ?g]\<rparr>"
        using True by (simp add: A2 retransmitted_def Let_def)
      have "new_outputs ?A ?A' = [Timer_Start (lc_Timeout (ll_CONFIG ?A)), Router_Transmit ?g]"
        by (rule new_outputs_append) (simp add: A3)
      then have "phase_reset ?d ?m"
        using ph True assms(2,3) is_reset_ctrl [of "ll_PriFrame ?A" "ll_CONFIG ?A"] ex(1)
        by (simp add: phase_reset_def move_A_def link_inv_def) (simp add: A3)
      moreover have "pending_frame ?A' b0 ?d f0" using pend by (simp add: pending_frame_def A3)
      moreover have "ll_priState ?A' = ll_priState ?A" "ll_isOnline ?A'" "ll_upper ?A'" "ll_CONFIG ?A' = ll_CONFIG ?A"
        using ex by (simp_all add: A3)
      ultimately show ?thesis
        using assms(1) inv w sent True by (auto simp: exchange_def move_A_def Let_def waiting_def)
    next
      case False
      let ?g = "conf_frame (ll_CONFIG ?A) (ll_nextWriteFCB ?A) ?d f0"
      have A3: "?A' = ?t\<lparr>ll_DelayedPriFrame := ?g, ll_out := ll_out ?A @ [Timer_Start (lc_Timeout (ll_CONFIG ?A)), Router_Transmit ?g]\<rparr>"
        using False by (simp add: A2 retransmitted_def Let_def)
      have "new_outputs ?A ?A' = [Timer_Start (lc_Timeout (ll_CONFIG ?A)), Router_Transmit ?g]"
        by (rule new_outputs_append) (simp add: A3)
      then have "phase_data ?d ?m"
        using ph False assms(2,3) is_conf_conf [OF fd, of "ll_CONFIG ?A" "ll_nextWriteFCB ?A"]
        by (simp add: phase_data_def in_sync_def move_A_def) (simp add: A3)
      moreover have "pending_frame ?A' (ll_nextWriteFCB ?A) ?d f0" using fd by (simp add: pending_frame_def A3)
      moreover have "ll_priState ?A' = ll_priState ?A" "ll_isOnline ?A'" "ll_upper ?A'" "ll_CONFIG ?A' = ll_CONFIG ?A"
        using ex by (simp_all add: A3)
      ultimately show ?thesis
        using assms(1) inv w sent False by (auto simp: exchange_def move_A_def Let_def waiting_def)
    qed
  qed
qed

lemma exchange_send:
  assumes "exchange l" and "ln_toB l = []" and "ln_toA l = []" and "sendable d" and "LinkLayer_Send d (ln_A l) = (None, a)"
  shows "exchange (move_A a (l\<lparr>ln_sent := ln_sent l @ [d]\<rparr>))"
proof -
  let ?A = "ln_A l" let ?m = "move_A a (l\<lparr>ln_sent := ln_sent l @ [d]\<rparr>)"
  have ex: "link_inv ?A" "ll_isOnline ?A" "ll_upper ?A" "lc_UseConfirms (ll_CONFIG ?A)"
    using assms(1) by (simp_all add: exchange_def)
  have idle: "\<not> waiting ?A"
    using assms(5) send_while_waiting(1) [of ?A d] ex(2,4) by (auto simp: LinkLayer_Send_online)
  have ph: "phase_idle l" using assms(1) idle by (simp add: exchange_def)
  have inv: "link_inv a" using send_keeps [OF ex(1) assms(4)] assms(5) by (simp add: keeps_link_inv_def)
  have ok: "frame_ok (ll_PriFrame ?A)" "frame_ok (ll_DelayedPriFrame ?A)" using ex(1) by (simp_all add: link_inv_def)
  have eq: "PriState_SendConfirmed (ll_priState ?A) d ?A = (None, a)"
    using assms(5) ex(2,4) by (simp add: LinkLayer_Send_online)
  note sc = send_confirmed_steps [OF ex(1,2) assms(4) idle]
  have "ll_priState ?A = PLLS_SecNotReset \<or> ll_priState ?A = PLLS_SecReset"
    using idle by (cases "ll_priState ?A") (simp_all add: waiting_def)
  then show ?thesis
  proof
    assume st: "ll_priState ?A = PLLS_SecNotReset"
    let ?g = "ctrl_frame (ll_CONFIG ?A) FC_PRI_RESET_LINK_STATES (ll_PriFrame ?A)"
    have a: "a = ?A\<lparr>ll_retryRemaining := lc_NumRetry (ll_CONFIG ?A), ll_timer := True, ll_priState := PLLS_ResetLinkWait,
         ll_DelayedPriFrame := conf_frame (ll_CONFIG ?A) True d (ll_DelayedPriFrame ?A), ll_PriFrame := ?g,
         ll_out := ll_out ?A @ [Timer_Start (lc_Timeout (ll_CONFIG ?A)), Router_Transmit ?g]\<rparr>"
      using sc(1) [OF st] eq by (simp add: Let_def)
    have "new_outputs ?A a = [Timer_Start (lc_Timeout (ll_CONFIG ?A)), Router_Transmit ?g]"
      by (rule new_outputs_append) (simp add: a)
    then have "phase_reset d ?m"
      using ph is_reset_ctrl [OF ok(1), of "ll_CONFIG ?A"]
      by (simp add: phase_reset_def phase_idle_def move_A_def) (simp add: a)
    moreover have "pending_frame a True d (ll_DelayedPriFrame ?A)" using ok assms(4) by (simp add: pending_frame_def a)
    moreover have "ll_priState a = PLLS_ResetLinkWait" "ll_isOnline a" "ll_upper a" "ll_CONFIG a = ll_CONFIG ?A"
      using ex by (simp_all add: a)
    ultimately show ?thesis using assms(1) inv by (auto simp: exchange_def move_A_def Let_def waiting_def)
  next
    assume st: "ll_priState ?A = PLLS_SecReset"
    let ?g = "conf_frame (ll_CONFIG ?A) (ll_nextWriteFCB ?A) d (ll_DelayedPriFrame ?A)"
    have a: "a = ?A\<lparr>ll_retryRemaining := lc_NumRetry (ll_CONFIG ?A), ll_timer := True, ll_priState := PLLS_ConfDataWait,
         ll_DelayedPriFrame := ?g, ll_out := ll_out ?A @ [Timer_Start (lc_Timeout (ll_CONFIG ?A)), Router_Transmit ?g]\<rparr>"
      using sc(2) [OF st] eq by (simp add: Let_def)
    have "new_outputs ?A a = [Timer_Start (lc_Timeout (ll_CONFIG ?A)), Router_Transmit ?g]"
      by (rule new_outputs_append) (simp add: a)
    then have "phase_data d ?m"
      using ph st is_conf_conf [OF ok(2) assms(4), of "ll_CONFIG ?A" "ll_nextWriteFCB ?A"]
      by (simp add: phase_data_def phase_idle_def in_sync_def move_A_def) (simp add: a)
    moreover have "pending_frame a (ll_nextWriteFCB ?A) d (ll_DelayedPriFrame ?A)"
      using ok assms(4) by (simp add: pending_frame_def a)
    moreover have "ll_priState a = PLLS_ConfDataWait" "ll_isOnline a" "ll_upper a" "ll_CONFIG a = ll_CONFIG ?A"
      using ex by (simp_all add: a)
    ultimately show ?thesis using assms(1) inv by (auto simp: exchange_def move_A_def Let_def waiting_def)
  qed
qed

lemma exchange_step: "line_step l m \<Longrightarrow> exchange l \<Longrightarrow> exchange m"
  by (induction rule: line_step.induct)
    (auto intro: exchange_send exchange_timeout exchange_lose exchange_deliver_toB exchange_deliver_toA)

lemma line_reachable_exchange: "line_reachable l \<Longrightarrow> exchange l"
  by (induction rule: line_reachable.induct) (auto intro: exchange_start exchange_step)

section \<open>Properties\<close>

text \<open>C2: Over a line that may lose any frame, the messages B hands to its user are some of the messages A
  accepted, in the order of sending and each at most once; and every message A reports as sent is
  among them. Retransmissions after lost acknowledgements are recognised by the frame count bit.\<close>

theorem confirmed_data_exactly_once:
  assumes "line_reachable l"
  shows "subseq (ln_confirmed l) (delivered (ll_out (ln_B l))) \<and> subseq (delivered (ll_out (ln_B l))) (ln_sent l)"
proof -
  have ex: "exchange l" by (rule line_reachable_exchange [OF assms])
  show ?thesis
  proof (cases "waiting (ln_A l)")
    case True
    then obtain d where "ln_sent l \<noteq> []" "last (ln_sent l) = d" "phase_reset d l \<or> phase_data d l"
      using ex by (auto simp: exchange_def split: if_splits)
    then show ?thesis using subseq_last [of "ln_sent l"] by (auto simp: phase_reset_def phase_data_def split: if_splits)
  qed (use ex in \<open>simp add: exchange_def phase_idle_def\<close>)
qed

theorem confirmed_data_exactly_once_witness:
  "let l = \<lparr>ln_A = example_link True, ln_B = example_link False, ln_toB = [], ln_toA = [], ln_sent = [], ln_confirmed = []\<rparr>;
       m = move_A (snd (LinkLayer_Send [7] (ln_A l))) (l\<lparr>ln_sent := [[7]]\<rparr>);
       n = move_B (run LinkLayer_OnFrame (wire_calls (hd (ln_toB m))) (ln_B m)) (m\<lparr>ln_toB := []\<rparr>)
   in length (ln_toB m) = 1 \<and> subseq (delivered (ll_out (ln_B n))) [[7]]"
proof -
  let ?l = "\<lparr>ln_A = example_link True, ln_B = example_link False, ln_toB = [], ln_toA = [], ln_sent = [], ln_confirmed = []\<rparr>"
  let ?m = "move_A (snd (LinkLayer_Send [7] (ln_A ?l))) (?l\<lparr>ln_sent := [[7]]\<rparr>)"
  let ?n = "move_B (run LinkLayer_OnFrame (wire_calls (hd (ln_toB ?m))) (ln_B ?m)) (?m\<lparr>ln_toB := []\<rparr>)"
  have start: "line_start ?l"
    by (simp add: line_start_def ready_def example_link_reachable)
      (simp add: example_link_fields new_LinkLayer_def default_LinkConfig_def peers_def)
  then have exl: "exchange ?l" by (rule exchange_start)
  have A: "link_inv (example_link True)" "ll_isOnline (example_link True)" "\<not> waiting (example_link True)"
      "lc_UseConfirms (ll_CONFIG (example_link True))"
    using exl by (simp_all add: exchange_def) (simp_all add: example_link_fields waiting_def new_LinkLayer_def)
  have s: "sendable [7]" by (simp add: sendable_def)
  note snt = send_then_stable [OF A(1-3) s A(4)]
  have send: "LinkLayer_Send [7] (ln_A ?l) = (None, snd (LinkLayer_Send [7] (ln_A ?l)))" using snt(1) by (simp add: prod_eq_iff)
  have step: "line_step ?l ?m" using line_send [OF _ _ s send] by simp
  have toB: "length (ln_toB ?m) = 1" using snt(7) by (simp add: move_A_def Let_def new_outputs_append)
  then obtain f where f: "ln_toB ?m = [f]" by (cases "ln_toB ?m") auto
  have "line_reachable ?m" using line_reachable_step [OF line_reachable_start [OF start] step] .
  moreover have step2: "line_step ?m ?n" using line_deliver_toB [OF f] by (simp only: f list.sel)
  ultimately have reach: "line_reachable ?n" by (rule line_reachable_step)
  have sent: "ln_sent ?n = [[7]]" by (simp add: move_A_def move_B_def Let_def)
  show ?thesis using confirmed_data_exactly_once [OF reach] sent toB by (simp only: Let_def)
qed

end
