(* ===== verification/PhysicalMonitors.thy ===== *)
theory PhysicalMonitors
  imports Prelude
begin

text \<open>
  The lower end of a channel: the state flags of a physical layer (opendnp3/APL/PhysicalLayerAsyncBase.h,
  .cpp) and the monitor that opens, reopens and closes it (PhysicalLayerMonitor.h, .cpp, its fifteen
  states PhysicalLayerMonitorStates.h, .cpp, PhysicalLayerStates.h), with the up and down bookkeeping of
  AsyncLayerInterfaces.cpp. The two call each other synchronously and are one state here. What a derived
  class adds is a record of callbacks; what they may do is the interface \<open>monitored_layer\<close>, under which
  the flags and the monitor's state stay consistent.
\<close>

section \<open>The code\<close>

datatype PhysicalLayerState = PLS_CLOSED | PLS_OPENING | PLS_WAITING | PLS_OPEN | PLS_SHUTDOWN

datatype MonitorState =
    MonitorStateInit
  | MonitorStateSuspended
  | MonitorStateShutdown
  | MonitorStateOpening
  | MonitorStateOpeningOne
  | MonitorStateOpeningClosing
  | MonitorStateOpeningStopping
  | MonitorStateOpeningSuspending
  | MonitorStateOpen
  | MonitorStateOpenOne
  | MonitorStateWaiting
  | MonitorStateWaitingOne
  | MonitorStateClosing
  | MonitorStateSuspending
  | MonitorStateShutingDown

primrec GetState :: "MonitorState \<Rightarrow> PhysicalLayerState" where
  "GetState MonitorStateInit = PLS_CLOSED"
| "GetState MonitorStateSuspended = PLS_CLOSED"
| "GetState MonitorStateShutdown = PLS_SHUTDOWN"
| "GetState MonitorStateOpening = PLS_OPENING"
| "GetState MonitorStateOpeningOne = PLS_OPENING"
| "GetState MonitorStateOpeningClosing = PLS_OPENING"
| "GetState MonitorStateOpeningStopping = PLS_OPENING"
| "GetState MonitorStateOpeningSuspending = PLS_OPENING"
| "GetState MonitorStateOpen = PLS_OPEN"
| "GetState MonitorStateOpenOne = PLS_OPEN"
| "GetState MonitorStateWaiting = PLS_WAITING"
| "GetState MonitorStateWaitingOne = PLS_WAITING"
| "GetState MonitorStateClosing = PLS_CLOSED"
| "GetState MonitorStateSuspending = PLS_CLOSED"
| "GetState MonitorStateShutingDown = PLS_CLOSED"

text \<open>Calls on the concrete layer, the timer source and the observers.\<close>

datatype PhysOut =
    Phys_DoOpen
  | Phys_DoClose
  | Phys_DoOpeningClose
  | Phys_DoOpenCallback
  | Phys_DoOpenSuccess
  | Phys_DoOpenFailure
  | Phys_DoAsyncRead nat
  | Phys_DoAsyncWrite bytes
  | Open_Timer_Start nat
  | Open_Timer_Cancel
  | Observer_OnStateChange PhysicalLayerState
  | Post_DoFinalShutdown

text \<open>\<open>PhysicalLayerAsyncBase::State\<close>, with the calls made so far.\<close>

record PhysicalLayer =
  ph_Open :: bool
  ph_Opening :: bool
  ph_Reading :: bool
  ph_Writing :: bool
  ph_Closing :: bool
  ph_out :: "PhysOut list"

record PhysicalLayerMonitor = PhysicalLayer +
  pm_IsLowerLayerUp :: bool
  pm_State :: MonitorState
  pm_OpenTimer :: bool
  pm_FinalShutdown :: bool
  pm_OPEN_RETRY :: nat

text \<open>The virtual functions a derived class supplies.\<close>

record 's monitor_callbacks =
  OnPhysicalLayerOpenSuccessCallback :: "'s handler"
  OnPhysicalLayerOpenFailureCallback :: "'s handler"
  OnPhysicalLayerCloseCallback :: "'s handler"
  Handler_OnReceive :: "bytes \<Rightarrow> 's handler"
  Handler_OnSendSuccess :: "'s handler"

definition ph_emit :: "PhysOut \<Rightarrow> 'a PhysicalLayer_scheme handler" where
  [handler_simps]: "ph_emit c = modify (\<lambda>s. s\<lparr>ph_out := ph_out s @ [c]\<rparr>)"

subsection \<open>The physical layer\<close>

definition ph_IsClosed :: "'a PhysicalLayer_scheme \<Rightarrow> bool" where
  "ph_IsClosed s \<longleftrightarrow> \<not> (ph_Opening s \<or> ph_Open s \<or> ph_Closing s \<or> ph_Reading s \<or> ph_Writing s)"

definition ph_CanOpen :: "'a PhysicalLayer_scheme \<Rightarrow> bool" where
  "ph_CanOpen s \<longleftrightarrow> ph_IsClosed s"

definition ph_CanClose :: "'a PhysicalLayer_scheme \<Rightarrow> bool" where
  "ph_CanClose s \<longleftrightarrow> (ph_Open s \<or> ph_Opening s) \<and> \<not> ph_Closing s"

definition ph_CanRead :: "'a PhysicalLayer_scheme \<Rightarrow> bool" where
  "ph_CanRead s \<longleftrightarrow> ph_Open s \<and> \<not> ph_Closing s \<and> \<not> ph_Reading s"

definition ph_CanWrite :: "'a PhysicalLayer_scheme \<Rightarrow> bool" where
  "ph_CanWrite s \<longleftrightarrow> ph_Open s \<and> \<not> ph_Closing s \<and> \<not> ph_Writing s"

definition ph_CallbacksPending :: "'a PhysicalLayer_scheme \<Rightarrow> bool" where
  "ph_CallbacksPending s \<longleftrightarrow> ph_Opening s \<or> ph_Reading s \<or> ph_Writing s"

text \<open>\<open>if(mState.CheckForClose()) yes\<close>.\<close>

definition if_CheckForClose :: "'a PhysicalLayer_scheme handler \<Rightarrow> 'a PhysicalLayer_scheme handler" where
  "if_CheckForClose yes =
     if_else (\<lambda>s. ph_Closing s \<and> \<not> ph_CallbacksPending s)
       (in_order [modify (\<lambda>s. s\<lparr>ph_Closing := False, ph_Open := False\<rparr>), yes])
       skip"

definition AsyncOpen :: "'a PhysicalLayer_scheme handler" where
  "AsyncOpen =
     if_else ph_CanOpen
       (in_order [modify (\<lambda>s. s\<lparr>ph_Opening := True\<rparr>), ph_emit Phys_DoOpen])
       (throw InvalidStateException)"

definition StartClose :: "'a PhysicalLayer_scheme handler" where
  "StartClose =
     if_else ph_CanClose
       (in_order
         [modify (\<lambda>s. s\<lparr>ph_Closing := True\<rparr>),
          if_else ph_Opening (ph_emit Phys_DoOpeningClose) (ph_emit Phys_DoClose)])
       (throw InvalidStateException)"

definition AsyncWrite :: "bytes \<Rightarrow> 'a PhysicalLayer_scheme handler" where
  "AsyncWrite xs = in_order
     [throw_if (\<lambda>_. length xs < 1) ArgumentException,
      if_else ph_CanWrite
        (in_order [modify (\<lambda>s. s\<lparr>ph_Writing := True\<rparr>), ph_emit (Phys_DoAsyncWrite xs)])
        (throw InvalidStateException)]"

definition AsyncRead :: "nat \<Rightarrow> 'a PhysicalLayer_scheme handler" where
  "AsyncRead aMaxBytes = in_order
     [throw_if (\<lambda>_. aMaxBytes < 1) ArgumentException,
      if_else ph_CanRead
        (in_order [modify (\<lambda>s. s\<lparr>ph_Reading := True\<rparr>), ph_emit (Phys_DoAsyncRead aMaxBytes)])
        (throw InvalidStateException)]"

subsection \<open>The actions and requests of the monitor's states\<close>

definition ChangeState :: "MonitorState \<Rightarrow> 'a PhysicalLayerMonitor_scheme handler" where
  "ChangeState apState = reading (\<lambda>last. in_order
     [modify (\<lambda>s. s\<lparr>pm_State := apState\<rparr>),
      if_else (\<lambda>_. GetState (pm_State last) \<noteq> GetState apState)
        (in_order
          [ph_emit (Observer_OnStateChange (GetState apState)),
           if_else (\<lambda>s. GetState (pm_State s) = PLS_SHUTDOWN) (ph_emit Post_DoFinalShutdown) skip])
        skip])"

definition StartOpenTimer :: "'a PhysicalLayerMonitor_scheme handler" where
  "StartOpenTimer = in_order
     [assert_that (\<lambda>s. \<not> pm_OpenTimer s),
      reading (\<lambda>s. ph_emit (Open_Timer_Start (pm_OPEN_RETRY s))),
      modify (\<lambda>s. s\<lparr>pm_OpenTimer := True\<rparr>)]"

definition CancelOpenTimer :: "'a PhysicalLayerMonitor_scheme handler" where
  "CancelOpenTimer = in_order
     [assert_that pm_OpenTimer,
      ph_emit Open_Timer_Cancel,
      modify (\<lambda>s. s\<lparr>pm_OpenTimer := False\<rparr>)]"

text \<open>The base classes the states are put together from.\<close>

definition ExceptsOnLayerOpen_OnLayerOpen :: "'a PhysicalLayerMonitor_scheme handler" where
  "ExceptsOnLayerOpen_OnLayerOpen = throw InvalidStateException"

definition NotOpening_OnOpenFailure :: "'a PhysicalLayerMonitor_scheme handler" where
  "NotOpening_OnOpenFailure = throw InvalidStateException"

definition NotOpen_OnLayerClose :: "'a PhysicalLayerMonitor_scheme handler" where
  "NotOpen_OnLayerClose = throw InvalidStateException"

definition NotWaitingForTimer_OnOpenTimeout :: "'a PhysicalLayerMonitor_scheme handler" where
  "NotWaitingForTimer_OnOpenTimeout = throw InvalidStateException"

definition IgnoresClose_OnCloseRequest :: "'a PhysicalLayerMonitor_scheme handler" where
  "IgnoresClose_OnCloseRequest = skip"

definition IgnoresSuspend_OnSuspendRequest :: "'a PhysicalLayerMonitor_scheme handler" where
  "IgnoresSuspend_OnSuspendRequest = skip"

definition IgnoresShutdown_OnShutdownRequest :: "'a PhysicalLayerMonitor_scheme handler" where
  "IgnoresShutdown_OnShutdownRequest = skip"

definition IgnoresStart_OnStartRequest :: "'a PhysicalLayerMonitor_scheme handler" where
  "IgnoresStart_OnStartRequest = skip"

definition IgnoresStartOne_OnStartOneRequest :: "'a PhysicalLayerMonitor_scheme handler" where
  "IgnoresStartOne_OnStartOneRequest = skip"

definition OpenFailureCausesWait_OnOpenFailure :: "'a PhysicalLayerMonitor_scheme handler" where
  "OpenFailureCausesWait_OnOpenFailure = in_order [ChangeState MonitorStateWaiting, StartOpenTimer]"

definition OpenFailureGoesToState_OnOpenFailure :: "MonitorState \<Rightarrow> 'a PhysicalLayerMonitor_scheme handler" where
  "OpenFailureGoesToState_OnOpenFailure T = ChangeState T"

definition MonitorStateWaitingBase_OnSuspendRequest :: "'a PhysicalLayerMonitor_scheme handler" where
  "MonitorStateWaitingBase_OnSuspendRequest = in_order [CancelOpenTimer, ChangeState MonitorStateSuspended]"

definition MonitorStateWaitingBase_OnShutdownRequest :: "'a PhysicalLayerMonitor_scheme handler" where
  "MonitorStateWaitingBase_OnShutdownRequest = in_order [CancelOpenTimer, ChangeState MonitorStateShutdown]"

definition MonitorStateSuspendedBase_OnStartRequest :: "'a PhysicalLayerMonitor_scheme handler" where
  "MonitorStateSuspendedBase_OnStartRequest = in_order [ChangeState MonitorStateOpening, AsyncOpen]"

definition MonitorStateSuspendedBase_OnStartOneRequest :: "'a PhysicalLayerMonitor_scheme handler" where
  "MonitorStateSuspendedBase_OnStartOneRequest = in_order [ChangeState MonitorStateOpeningOne, AsyncOpen]"

text \<open>The virtual functions, state by state.\<close>

primrec OnStartRequest ::
  "MonitorState \<Rightarrow> 'a PhysicalLayerMonitor_scheme handler" where
  "OnStartRequest MonitorStateInit = MonitorStateSuspendedBase_OnStartRequest"
| "OnStartRequest MonitorStateSuspended = MonitorStateSuspendedBase_OnStartRequest"
| "OnStartRequest MonitorStateShutdown = IgnoresStart_OnStartRequest"
| "OnStartRequest MonitorStateOpening = IgnoresStart_OnStartRequest"
| "OnStartRequest MonitorStateOpeningOne = ChangeState MonitorStateOpening"
| "OnStartRequest MonitorStateOpeningClosing = IgnoresStart_OnStartRequest"
| "OnStartRequest MonitorStateOpeningStopping = IgnoresStart_OnStartRequest"
| "OnStartRequest MonitorStateOpeningSuspending = ChangeState MonitorStateOpeningClosing"
| "OnStartRequest MonitorStateOpen = IgnoresStart_OnStartRequest"
| "OnStartRequest MonitorStateOpenOne = ChangeState MonitorStateOpen"
| "OnStartRequest MonitorStateWaiting = IgnoresStart_OnStartRequest"
| "OnStartRequest MonitorStateWaitingOne = ChangeState MonitorStateWaiting"
| "OnStartRequest MonitorStateClosing = IgnoresStart_OnStartRequest"
| "OnStartRequest MonitorStateSuspending = ChangeState MonitorStateClosing"
| "OnStartRequest MonitorStateShutingDown = IgnoresStart_OnStartRequest"

primrec OnStartOneRequest ::
  "MonitorState \<Rightarrow> 'a PhysicalLayerMonitor_scheme handler" where
  "OnStartOneRequest MonitorStateInit = MonitorStateSuspendedBase_OnStartOneRequest"
| "OnStartOneRequest MonitorStateSuspended = MonitorStateSuspendedBase_OnStartOneRequest"
| "OnStartOneRequest MonitorStateShutdown = IgnoresStartOne_OnStartOneRequest"
| "OnStartOneRequest MonitorStateOpening = ChangeState MonitorStateOpeningOne"
| "OnStartOneRequest MonitorStateOpeningOne = IgnoresStartOne_OnStartOneRequest"
| "OnStartOneRequest MonitorStateOpeningClosing = ChangeState MonitorStateOpeningSuspending"
| "OnStartOneRequest MonitorStateOpeningStopping = IgnoresStartOne_OnStartOneRequest"
| "OnStartOneRequest MonitorStateOpeningSuspending = IgnoresStartOne_OnStartOneRequest"
| "OnStartOneRequest MonitorStateOpen = ChangeState MonitorStateOpenOne"
| "OnStartOneRequest MonitorStateOpenOne = IgnoresStartOne_OnStartOneRequest"
| "OnStartOneRequest MonitorStateWaiting = ChangeState MonitorStateWaitingOne"
| "OnStartOneRequest MonitorStateWaitingOne = IgnoresStartOne_OnStartOneRequest"
| "OnStartOneRequest MonitorStateClosing = ChangeState MonitorStateSuspending"
| "OnStartOneRequest MonitorStateSuspending = IgnoresStartOne_OnStartOneRequest"
| "OnStartOneRequest MonitorStateShutingDown = IgnoresStartOne_OnStartOneRequest"

primrec OnOpenTimeout ::
  "MonitorState \<Rightarrow> 'a PhysicalLayerMonitor_scheme handler" where
  "OnOpenTimeout MonitorStateInit = NotWaitingForTimer_OnOpenTimeout"
| "OnOpenTimeout MonitorStateSuspended = NotWaitingForTimer_OnOpenTimeout"
| "OnOpenTimeout MonitorStateShutdown = NotWaitingForTimer_OnOpenTimeout"
| "OnOpenTimeout MonitorStateOpening = NotWaitingForTimer_OnOpenTimeout"
| "OnOpenTimeout MonitorStateOpeningOne = NotWaitingForTimer_OnOpenTimeout"
| "OnOpenTimeout MonitorStateOpeningClosing = NotWaitingForTimer_OnOpenTimeout"
| "OnOpenTimeout MonitorStateOpeningStopping = NotWaitingForTimer_OnOpenTimeout"
| "OnOpenTimeout MonitorStateOpeningSuspending = NotWaitingForTimer_OnOpenTimeout"
| "OnOpenTimeout MonitorStateOpen = NotWaitingForTimer_OnOpenTimeout"
| "OnOpenTimeout MonitorStateOpenOne = NotWaitingForTimer_OnOpenTimeout"
| "OnOpenTimeout MonitorStateWaiting = in_order [ChangeState MonitorStateOpening, AsyncOpen]"
| "OnOpenTimeout MonitorStateWaitingOne = in_order [ChangeState MonitorStateOpeningOne, AsyncOpen]"
| "OnOpenTimeout MonitorStateClosing = NotWaitingForTimer_OnOpenTimeout"
| "OnOpenTimeout MonitorStateSuspending = NotWaitingForTimer_OnOpenTimeout"
| "OnOpenTimeout MonitorStateShutingDown = NotWaitingForTimer_OnOpenTimeout"

primrec State_OnOpenFailure ::
  "MonitorState \<Rightarrow> 'a PhysicalLayerMonitor_scheme handler" where
  "State_OnOpenFailure MonitorStateInit = NotOpening_OnOpenFailure"
| "State_OnOpenFailure MonitorStateSuspended = NotOpening_OnOpenFailure"
| "State_OnOpenFailure MonitorStateShutdown = NotOpening_OnOpenFailure"
| "State_OnOpenFailure MonitorStateOpening = OpenFailureCausesWait_OnOpenFailure"
| "State_OnOpenFailure MonitorStateOpeningOne = ChangeState MonitorStateSuspended"
| "State_OnOpenFailure MonitorStateOpeningClosing = OpenFailureCausesWait_OnOpenFailure"
| "State_OnOpenFailure MonitorStateOpeningStopping = OpenFailureGoesToState_OnOpenFailure MonitorStateShutdown"
| "State_OnOpenFailure MonitorStateOpeningSuspending = OpenFailureGoesToState_OnOpenFailure MonitorStateSuspended"
| "State_OnOpenFailure MonitorStateOpen = NotOpening_OnOpenFailure"
| "State_OnOpenFailure MonitorStateOpenOne = NotOpening_OnOpenFailure"
| "State_OnOpenFailure MonitorStateWaiting = NotOpening_OnOpenFailure"
| "State_OnOpenFailure MonitorStateWaitingOne = NotOpening_OnOpenFailure"
| "State_OnOpenFailure MonitorStateClosing = NotOpening_OnOpenFailure"
| "State_OnOpenFailure MonitorStateSuspending = NotOpening_OnOpenFailure"
| "State_OnOpenFailure MonitorStateShutingDown = NotOpening_OnOpenFailure"

primrec OnLayerOpen ::
  "MonitorState \<Rightarrow> 'a PhysicalLayerMonitor_scheme handler" where
  "OnLayerOpen MonitorStateInit = ExceptsOnLayerOpen_OnLayerOpen"
| "OnLayerOpen MonitorStateSuspended = ExceptsOnLayerOpen_OnLayerOpen"
| "OnLayerOpen MonitorStateShutdown = ExceptsOnLayerOpen_OnLayerOpen"
| "OnLayerOpen MonitorStateOpening = ChangeState MonitorStateOpen"
| "OnLayerOpen MonitorStateOpeningOne = ChangeState MonitorStateOpenOne"
| "OnLayerOpen MonitorStateOpeningClosing = ExceptsOnLayerOpen_OnLayerOpen"
| "OnLayerOpen MonitorStateOpeningStopping = ExceptsOnLayerOpen_OnLayerOpen"
| "OnLayerOpen MonitorStateOpeningSuspending = ExceptsOnLayerOpen_OnLayerOpen"
| "OnLayerOpen MonitorStateOpen = ExceptsOnLayerOpen_OnLayerOpen"
| "OnLayerOpen MonitorStateOpenOne = ExceptsOnLayerOpen_OnLayerOpen"
| "OnLayerOpen MonitorStateWaiting = ExceptsOnLayerOpen_OnLayerOpen"
| "OnLayerOpen MonitorStateWaitingOne = ExceptsOnLayerOpen_OnLayerOpen"
| "OnLayerOpen MonitorStateClosing = ExceptsOnLayerOpen_OnLayerOpen"
| "OnLayerOpen MonitorStateSuspending = ExceptsOnLayerOpen_OnLayerOpen"
| "OnLayerOpen MonitorStateShutingDown = ExceptsOnLayerOpen_OnLayerOpen"

definition Monitor_Start :: "'a PhysicalLayerMonitor_scheme handler" where
  "Monitor_Start = reading (\<lambda>s. OnStartRequest (pm_State s))"

definition Monitor_StartOne :: "'a PhysicalLayerMonitor_scheme handler" where
  "Monitor_StartOne = reading (\<lambda>s. OnStartOneRequest (pm_State s))"

definition StartsOnClose_OnLayerClose :: "'a PhysicalLayerMonitor_scheme handler" where
  "StartsOnClose_OnLayerClose = in_order [ChangeState MonitorStateSuspended, Monitor_Start]"

primrec OnLayerClose ::
  "MonitorState \<Rightarrow> 'a PhysicalLayerMonitor_scheme handler" where
  "OnLayerClose MonitorStateInit = NotOpen_OnLayerClose"
| "OnLayerClose MonitorStateSuspended = NotOpen_OnLayerClose"
| "OnLayerClose MonitorStateShutdown = NotOpen_OnLayerClose"
| "OnLayerClose MonitorStateOpening = NotOpen_OnLayerClose"
| "OnLayerClose MonitorStateOpeningOne = NotOpen_OnLayerClose"
| "OnLayerClose MonitorStateOpeningClosing = NotOpen_OnLayerClose"
| "OnLayerClose MonitorStateOpeningStopping = NotOpen_OnLayerClose"
| "OnLayerClose MonitorStateOpeningSuspending = NotOpen_OnLayerClose"
| "OnLayerClose MonitorStateOpen = StartsOnClose_OnLayerClose"
| "OnLayerClose MonitorStateOpenOne = ChangeState MonitorStateSuspended"
| "OnLayerClose MonitorStateWaiting = NotOpen_OnLayerClose"
| "OnLayerClose MonitorStateWaitingOne = NotOpen_OnLayerClose"
| "OnLayerClose MonitorStateClosing = StartsOnClose_OnLayerClose"
| "OnLayerClose MonitorStateSuspending = ChangeState MonitorStateSuspended"
| "OnLayerClose MonitorStateShutingDown = ChangeState MonitorStateShutdown"

text \<open>
  What the physical layer calls on its handler: \<open>IUpDown\<close> keeps the up flag, then the monitor's state
  and the derived class are told.
\<close>

definition Handler_OnLowerLayerUp :: "'a PhysicalLayerMonitor_scheme monitor_callbacks \<Rightarrow> 'a PhysicalLayerMonitor_scheme handler" where
  "Handler_OnLowerLayerUp cb = in_order
     [throw_if pm_IsLowerLayerUp InvalidStateException,
      modify (\<lambda>s. s\<lparr>pm_IsLowerLayerUp := True\<rparr>),
      reading (\<lambda>s. OnLayerOpen (pm_State s)),
      OnPhysicalLayerOpenSuccessCallback cb]"

definition Handler_OnLowerLayerDown :: "'a PhysicalLayerMonitor_scheme monitor_callbacks \<Rightarrow> 'a PhysicalLayerMonitor_scheme handler" where
  "Handler_OnLowerLayerDown cb = in_order
     [throw_if (\<lambda>s. \<not> pm_IsLowerLayerUp s) InvalidStateException,
      modify (\<lambda>s. s\<lparr>pm_IsLowerLayerUp := False\<rparr>),
      reading (\<lambda>s. OnLayerClose (pm_State s)),
      OnPhysicalLayerCloseCallback cb]"

definition Handler_OnOpenFailure :: "'a PhysicalLayerMonitor_scheme monitor_callbacks \<Rightarrow> 'a PhysicalLayerMonitor_scheme handler" where
  "Handler_OnOpenFailure cb = in_order
     [reading (\<lambda>s. State_OnOpenFailure (pm_State s)),
      OnPhysicalLayerOpenFailureCallback cb]"

definition AsyncClose :: "'a PhysicalLayerMonitor_scheme monitor_callbacks \<Rightarrow> 'a PhysicalLayerMonitor_scheme handler" where
  "AsyncClose cb = in_order
     [StartClose,
      if_CheckForClose (Handler_OnLowerLayerDown cb)]"

definition MonitorStateOpeningBase_OnShutdownRequest :: "'a PhysicalLayerMonitor_scheme monitor_callbacks \<Rightarrow> 'a PhysicalLayerMonitor_scheme handler" where
  "MonitorStateOpeningBase_OnShutdownRequest cb = in_order [ChangeState MonitorStateOpeningStopping, AsyncClose cb]"

definition MonitorStateOpeningBase_OnSuspendRequest :: "'a PhysicalLayerMonitor_scheme monitor_callbacks \<Rightarrow> 'a PhysicalLayerMonitor_scheme handler" where
  "MonitorStateOpeningBase_OnSuspendRequest cb = in_order [ChangeState MonitorStateOpeningSuspending, AsyncClose cb]"

primrec OnCloseRequest ::
  "'a PhysicalLayerMonitor_scheme monitor_callbacks \<Rightarrow> MonitorState \<Rightarrow> 'a PhysicalLayerMonitor_scheme handler" where
  "OnCloseRequest cb MonitorStateInit = IgnoresClose_OnCloseRequest"
| "OnCloseRequest cb MonitorStateSuspended = IgnoresClose_OnCloseRequest"
| "OnCloseRequest cb MonitorStateShutdown = IgnoresClose_OnCloseRequest"
| "OnCloseRequest cb MonitorStateOpening = in_order [ChangeState MonitorStateOpeningClosing, AsyncClose cb]"
| "OnCloseRequest cb MonitorStateOpeningOne = in_order [ChangeState MonitorStateOpeningSuspending, AsyncClose cb]"
| "OnCloseRequest cb MonitorStateOpeningClosing = IgnoresClose_OnCloseRequest"
| "OnCloseRequest cb MonitorStateOpeningStopping = IgnoresClose_OnCloseRequest"
| "OnCloseRequest cb MonitorStateOpeningSuspending = IgnoresClose_OnCloseRequest"
| "OnCloseRequest cb MonitorStateOpen = in_order [ChangeState MonitorStateClosing, AsyncClose cb]"
| "OnCloseRequest cb MonitorStateOpenOne = in_order [ChangeState MonitorStateSuspending, AsyncClose cb]"
| "OnCloseRequest cb MonitorStateWaiting = IgnoresClose_OnCloseRequest"
| "OnCloseRequest cb MonitorStateWaitingOne = IgnoresClose_OnCloseRequest"
| "OnCloseRequest cb MonitorStateClosing = IgnoresClose_OnCloseRequest"
| "OnCloseRequest cb MonitorStateSuspending = IgnoresClose_OnCloseRequest"
| "OnCloseRequest cb MonitorStateShutingDown = IgnoresClose_OnCloseRequest"

primrec OnSuspendRequest ::
  "'a PhysicalLayerMonitor_scheme monitor_callbacks \<Rightarrow> MonitorState \<Rightarrow> 'a PhysicalLayerMonitor_scheme handler" where
  "OnSuspendRequest cb MonitorStateInit = IgnoresSuspend_OnSuspendRequest"
| "OnSuspendRequest cb MonitorStateSuspended = IgnoresSuspend_OnSuspendRequest"
| "OnSuspendRequest cb MonitorStateShutdown = IgnoresSuspend_OnSuspendRequest"
| "OnSuspendRequest cb MonitorStateOpening = MonitorStateOpeningBase_OnSuspendRequest cb"
| "OnSuspendRequest cb MonitorStateOpeningOne = MonitorStateOpeningBase_OnSuspendRequest cb"
| "OnSuspendRequest cb MonitorStateOpeningClosing = ChangeState MonitorStateOpeningSuspending"
| "OnSuspendRequest cb MonitorStateOpeningStopping = IgnoresSuspend_OnSuspendRequest"
| "OnSuspendRequest cb MonitorStateOpeningSuspending = IgnoresSuspend_OnSuspendRequest"
| "OnSuspendRequest cb MonitorStateOpen = in_order [ChangeState MonitorStateSuspending, AsyncClose cb]"
| "OnSuspendRequest cb MonitorStateOpenOne = in_order [ChangeState MonitorStateSuspending, AsyncClose cb]"
| "OnSuspendRequest cb MonitorStateWaiting = MonitorStateWaitingBase_OnSuspendRequest"
| "OnSuspendRequest cb MonitorStateWaitingOne = MonitorStateWaitingBase_OnSuspendRequest"
| "OnSuspendRequest cb MonitorStateClosing = ChangeState MonitorStateSuspending"
| "OnSuspendRequest cb MonitorStateSuspending = IgnoresSuspend_OnSuspendRequest"
| "OnSuspendRequest cb MonitorStateShutingDown = IgnoresSuspend_OnSuspendRequest"

primrec OnShutdownRequest ::
  "'a PhysicalLayerMonitor_scheme monitor_callbacks \<Rightarrow> MonitorState \<Rightarrow> 'a PhysicalLayerMonitor_scheme handler" where
  "OnShutdownRequest cb MonitorStateInit = ChangeState MonitorStateShutdown"
| "OnShutdownRequest cb MonitorStateSuspended = ChangeState MonitorStateShutdown"
| "OnShutdownRequest cb MonitorStateShutdown = IgnoresShutdown_OnShutdownRequest"
| "OnShutdownRequest cb MonitorStateOpening = MonitorStateOpeningBase_OnShutdownRequest cb"
| "OnShutdownRequest cb MonitorStateOpeningOne = MonitorStateOpeningBase_OnShutdownRequest cb"
| "OnShutdownRequest cb MonitorStateOpeningClosing = ChangeState MonitorStateOpeningStopping"
| "OnShutdownRequest cb MonitorStateOpeningStopping = IgnoresShutdown_OnShutdownRequest"
| "OnShutdownRequest cb MonitorStateOpeningSuspending = ChangeState MonitorStateOpeningStopping"
| "OnShutdownRequest cb MonitorStateOpen = in_order [ChangeState MonitorStateShutingDown, AsyncClose cb]"
| "OnShutdownRequest cb MonitorStateOpenOne = in_order [ChangeState MonitorStateShutingDown, AsyncClose cb]"
| "OnShutdownRequest cb MonitorStateWaiting = MonitorStateWaitingBase_OnShutdownRequest"
| "OnShutdownRequest cb MonitorStateWaitingOne = MonitorStateWaitingBase_OnShutdownRequest"
| "OnShutdownRequest cb MonitorStateClosing = ChangeState MonitorStateShutingDown"
| "OnShutdownRequest cb MonitorStateSuspending = ChangeState MonitorStateShutingDown"
| "OnShutdownRequest cb MonitorStateShutingDown = IgnoresShutdown_OnShutdownRequest"

definition Monitor_Close :: "'a PhysicalLayerMonitor_scheme monitor_callbacks \<Rightarrow> 'a PhysicalLayerMonitor_scheme handler" where
  "Monitor_Close cb = reading (\<lambda>s. OnCloseRequest cb (pm_State s))"

definition Monitor_Suspend :: "'a PhysicalLayerMonitor_scheme monitor_callbacks \<Rightarrow> 'a PhysicalLayerMonitor_scheme handler" where
  "Monitor_Suspend cb = reading (\<lambda>s. OnSuspendRequest cb (pm_State s))"

definition Monitor_Shutdown :: "'a PhysicalLayerMonitor_scheme monitor_callbacks \<Rightarrow> 'a PhysicalLayerMonitor_scheme handler" where
  "Monitor_Shutdown cb = reading (\<lambda>s. OnShutdownRequest cb (pm_State s))"

definition OnOpenTimerExpiration :: "'a PhysicalLayerMonitor_scheme handler" where
  "OnOpenTimerExpiration = in_order
     [assert_that pm_OpenTimer,
      modify (\<lambda>s. s\<lparr>pm_OpenTimer := False\<rparr>),
      reading (\<lambda>s. OnOpenTimeout (pm_State s))]"

definition DoFinalShutdown :: "'a PhysicalLayerMonitor_scheme handler" where
  "DoFinalShutdown = modify (\<lambda>s. s\<lparr>pm_FinalShutdown := True\<rparr>)"

subsection \<open>Completion of the asynchronous operations\<close>

definition OnOpenCallback :: "'a PhysicalLayerMonitor_scheme monitor_callbacks \<Rightarrow> bool \<Rightarrow> 'a PhysicalLayerMonitor_scheme handler" where
  "OnOpenCallback cb arErr =
     if_else ph_Opening
       (in_order
         [modify (\<lambda>s. s\<lparr>ph_Opening := False\<rparr>),
          ph_emit Phys_DoOpenCallback,
          if arErr then in_order [if_CheckForClose skip, ph_emit Phys_DoOpenFailure, Handler_OnOpenFailure cb]
          else if_else ph_Closing
            (in_order [if_CheckForClose skip, ph_emit Phys_DoClose, Handler_OnOpenFailure cb])
            (in_order [modify (\<lambda>s. s\<lparr>ph_Open := True\<rparr>), ph_emit Phys_DoOpenSuccess, Handler_OnLowerLayerUp cb])])
       (throw InvalidStateException)"

definition OnReadCallback :: "'a PhysicalLayerMonitor_scheme monitor_callbacks \<Rightarrow> bool \<Rightarrow> bytes \<Rightarrow> 'a PhysicalLayerMonitor_scheme handler" where
  "OnReadCallback cb arErr xs =
     if_else ph_Reading
       (in_order
         [modify (\<lambda>s. s\<lparr>ph_Reading := False\<rparr>),
          if arErr then if_else ph_CanClose StartClose skip
          else if_else ph_Closing skip (Handler_OnReceive cb xs),
          if_CheckForClose (Handler_OnLowerLayerDown cb)])
       (throw InvalidStateException)"

definition OnWriteCallback :: "'a PhysicalLayerMonitor_scheme monitor_callbacks \<Rightarrow> bool \<Rightarrow> 'a PhysicalLayerMonitor_scheme handler" where
  "OnWriteCallback cb arErr =
     if_else ph_Writing
       (in_order
         [modify (\<lambda>s. s\<lparr>ph_Writing := False\<rparr>),
          if arErr then if_else ph_CanClose StartClose skip
          else if_else ph_Closing skip (Handler_OnSendSuccess cb),
          if_CheckForClose (Handler_OnLowerLayerDown cb)])
       (throw InvalidStateException)"

text \<open>What can happen to a monitored layer: the requests of its user, and the completions.\<close>

datatype PhysEvent =
    Request_Start
  | Request_StartOne
  | Request_Close
  | Request_Suspend
  | Request_Shutdown
  | Open_Done bool
  | Read_Done bool bytes
  | Write_Done bool
  | Open_Timer_Expired
  | Final_Shutdown_Posted

primrec monitor_handle ::
  "'a PhysicalLayerMonitor_scheme monitor_callbacks \<Rightarrow> PhysEvent \<Rightarrow> 'a PhysicalLayerMonitor_scheme handler" where
  "monitor_handle cb Request_Start = Monitor_Start"
| "monitor_handle cb Request_StartOne = Monitor_StartOne"
| "monitor_handle cb Request_Close = Monitor_Close cb"
| "monitor_handle cb Request_Suspend = Monitor_Suspend cb"
| "monitor_handle cb Request_Shutdown = Monitor_Shutdown cb"
| "monitor_handle cb (Open_Done arErr) = OnOpenCallback cb arErr"
| "monitor_handle cb (Read_Done arErr xs) = OnReadCallback cb arErr xs"
| "monitor_handle cb (Write_Done arErr) = OnWriteCallback cb arErr"
| "monitor_handle cb Open_Timer_Expired = OnOpenTimerExpiration"
| "monitor_handle cb Final_Shutdown_Posted = DoFinalShutdown"

text \<open>An operation completes only if it was started.\<close>

primrec monitor_possible :: "PhysEvent \<Rightarrow> 'a PhysicalLayerMonitor_scheme \<Rightarrow> bool" where
  "monitor_possible Request_Start s = True"
| "monitor_possible Request_StartOne s = True"
| "monitor_possible Request_Close s = True"
| "monitor_possible Request_Suspend s = True"
| "monitor_possible Request_Shutdown s = True"
| "monitor_possible (Open_Done arErr) s = ph_Opening s"
| "monitor_possible (Read_Done arErr xs) s = ph_Reading s"
| "monitor_possible (Write_Done arErr) s = ph_Writing s"
| "monitor_possible Open_Timer_Expired s = pm_OpenTimer s"
| "monitor_possible Final_Shutdown_Posted s = True"

section \<open>The flags and the state\<close>

text \<open>Which flags each state of the monitor goes with.\<close>

primrec flags_ok :: "MonitorState \<Rightarrow> 'a PhysicalLayer_scheme \<Rightarrow> bool" where
  "flags_ok MonitorStateInit s = ph_IsClosed s"
| "flags_ok MonitorStateSuspended s = ph_IsClosed s"
| "flags_ok MonitorStateShutdown s = ph_IsClosed s"
| "flags_ok MonitorStateOpening s = (ph_Opening s \<and> \<not> ph_Open s \<and> \<not> ph_Closing s \<and> \<not> ph_Reading s \<and> \<not> ph_Writing s)"
| "flags_ok MonitorStateOpeningOne s = (ph_Opening s \<and> \<not> ph_Open s \<and> \<not> ph_Closing s \<and> \<not> ph_Reading s \<and> \<not> ph_Writing s)"
| "flags_ok MonitorStateOpeningClosing s = (ph_Opening s \<and> \<not> ph_Open s \<and> ph_Closing s \<and> \<not> ph_Reading s \<and> \<not> ph_Writing s)"
| "flags_ok MonitorStateOpeningStopping s = (ph_Opening s \<and> \<not> ph_Open s \<and> ph_Closing s \<and> \<not> ph_Reading s \<and> \<not> ph_Writing s)"
| "flags_ok MonitorStateOpeningSuspending s = (ph_Opening s \<and> \<not> ph_Open s \<and> ph_Closing s \<and> \<not> ph_Reading s \<and> \<not> ph_Writing s)"
| "flags_ok MonitorStateOpen s = (\<not> ph_Opening s \<and> ph_Open s \<and> (ph_Closing s \<longrightarrow> ph_Reading s \<or> ph_Writing s))"
| "flags_ok MonitorStateOpenOne s = (\<not> ph_Opening s \<and> ph_Open s \<and> (ph_Closing s \<longrightarrow> ph_Reading s \<or> ph_Writing s))"
| "flags_ok MonitorStateWaiting s = ph_IsClosed s"
| "flags_ok MonitorStateWaitingOne s = ph_IsClosed s"
| "flags_ok MonitorStateClosing s = (\<not> ph_Opening s \<and> ph_Open s \<and> ph_Closing s \<and> (ph_Reading s \<or> ph_Writing s))"
| "flags_ok MonitorStateSuspending s = (\<not> ph_Opening s \<and> ph_Open s \<and> ph_Closing s \<and> (ph_Reading s \<or> ph_Writing s))"
| "flags_ok MonitorStateShutingDown s = (\<not> ph_Opening s \<and> ph_Open s \<and> ph_Closing s \<and> (ph_Reading s \<or> ph_Writing s))"

definition monitor_inv :: "'a PhysicalLayerMonitor_scheme \<Rightarrow> bool" where
  "monitor_inv s \<longleftrightarrow>
     (pm_OpenTimer s \<longleftrightarrow> pm_State s = MonitorStateWaiting \<or> pm_State s = MonitorStateWaitingOne) \<and>
     (pm_IsLowerLayerUp s \<longleftrightarrow> ph_Open s) \<and> flags_ok (pm_State s) s"

text \<open>The only failure of an event: a request to close what is already closing itself after an error.\<close>

definition closing_twice :: "PhysEvent \<Rightarrow> 'a PhysicalLayerMonitor_scheme \<Rightarrow> bool" where
  "closing_twice e s \<longleftrightarrow> (e = Request_Close \<or> e = Request_Suspend \<or> e = Request_Shutdown) \<and> ph_Closing s \<and>
     (pm_State s = MonitorStateOpen \<or> pm_State s = MonitorStateOpenOne)"

lemmas monitor_actions =
  IgnoresStart_OnStartRequest_def IgnoresStartOne_OnStartOneRequest_def IgnoresClose_OnCloseRequest_def
  IgnoresSuspend_OnSuspendRequest_def IgnoresShutdown_OnShutdownRequest_def OpenFailureCausesWait_OnOpenFailure_def
  OpenFailureGoesToState_OnOpenFailure_def MonitorStateWaitingBase_OnSuspendRequest_def
  MonitorStateWaitingBase_OnShutdownRequest_def MonitorStateSuspendedBase_OnStartRequest_def
  MonitorStateSuspendedBase_OnStartOneRequest_def MonitorStateOpeningBase_OnShutdownRequest_def
  MonitorStateOpeningBase_OnSuspendRequest_def StartsOnClose_OnLayerClose_def
  StartOpenTimer_def CancelOpenTimer_def

text \<open>Notifications of a state change.\<close>

definition state_notes :: "MonitorState \<Rightarrow> MonitorState \<Rightarrow> PhysOut list" where
  "state_notes a b = (if GetState a = GetState b then []
     else Observer_OnStateChange (GetState b) # (if GetState b = PLS_SHUTDOWN then [Post_DoFinalShutdown] else []))"

lemma ChangeState_step:
  "ChangeState b s = (None, s\<lparr>pm_State := b, ph_out := ph_out s @ state_notes (pm_State s) b\<rparr>)"
  by (simp add: ChangeState_def handler_simps state_notes_def)

lemma AsyncOpen_step:
  "ph_IsClosed s \<Longrightarrow> AsyncOpen s = (None, s\<lparr>ph_Opening := True, ph_out := ph_out s @ [Phys_DoOpen]\<rparr>)"
  by (simp add: AsyncOpen_def ph_CanOpen_def handler_simps)

lemma StartClose_step:
  "StartClose s = (if ph_CanClose s
     then (None, s\<lparr>ph_Closing := True, ph_out := ph_out s @ [if ph_Opening s then Phys_DoOpeningClose else Phys_DoClose]\<rparr>)
     else (Some InvalidStateException, s))"
  by (simp add: StartClose_def handler_simps)

lemma if_CheckForClose_step:
  "if_CheckForClose f s = (if ph_Closing s \<and> \<not> ph_CallbacksPending s
     then f (s\<lparr>ph_Closing := False, ph_Open := False\<rparr>) else (None, s))"
  by (simp add: if_CheckForClose_def handler_simps split: prod.split option.split)

lemmas monitor_steps = ChangeState_step AsyncOpen_step StartClose_step if_CheckForClose_step

lemmas flag_defs = ph_IsClosed_def ph_CanOpen_def ph_CanClose_def ph_CanRead_def ph_CanWrite_def ph_CallbacksPending_def

section \<open>What a derived class must keep\<close>

text \<open>
  The contract between the monitor and a class derived from it: an invariant \<open>J\<close> of the class's own
  members and of the flags open, closing, reading and writing, and callbacks that neither throw nor
  touch the monitor; they may start a read or a write while the layer is open and not closing. Under
  the contract every event keeps flags and state consistent, and fails only as \<open>closing_twice\<close> says.
\<close>

definition callback_ok ::
  "(bool \<Rightarrow> bool \<Rightarrow> bool \<Rightarrow> bool \<Rightarrow> 'a \<Rightarrow> bool) \<Rightarrow> 'a PhysicalLayerMonitor_scheme \<Rightarrow>
   'a PhysicalLayerMonitor_scheme handler \<Rightarrow> bool" where
  "callback_ok J s f \<longleftrightarrow> (\<exists>t. f s = (None, t) \<and>
     ph_Open t = ph_Open s \<and> ph_Opening t = ph_Opening s \<and> ph_Closing t = ph_Closing s \<and>
     pm_IsLowerLayerUp t = pm_IsLowerLayerUp s \<and> pm_State t = pm_State s \<and> pm_OpenTimer t = pm_OpenTimer s \<and>
     (\<not> (ph_Open s \<and> \<not> ph_Closing s) \<longrightarrow> ph_Reading t = ph_Reading s \<and> ph_Writing t = ph_Writing s) \<and>
     J (ph_Open t) (ph_Closing t) (ph_Reading t) (ph_Writing t) (PhysicalLayerMonitor.more t))"

definition own_inv ::
  "(bool \<Rightarrow> bool \<Rightarrow> bool \<Rightarrow> bool \<Rightarrow> 'a \<Rightarrow> bool) \<Rightarrow> 'a PhysicalLayerMonitor_scheme \<Rightarrow> bool" where
  "own_inv J s \<longleftrightarrow> J (ph_Open s) (ph_Closing s) (ph_Reading s) (ph_Writing s) (PhysicalLayerMonitor.more s)"

definition layer_good ::
  "(bool \<Rightarrow> bool \<Rightarrow> bool \<Rightarrow> bool \<Rightarrow> 'a \<Rightarrow> bool) \<Rightarrow> 'a PhysicalLayerMonitor_scheme \<Rightarrow> bool" where
  "layer_good J s \<longleftrightarrow> monitor_inv s \<and> own_inv J s"

lemma callback_ok_good:
  assumes "callback_ok J s f" and "monitor_inv s"
    and "ph_Open s \<and> \<not> ph_Closing s \<or> (\<not> ph_Open s \<and> \<not> ph_Closing s)"
  shows "\<exists>t. f s = (None, t) \<and> layer_good J t"
proof -
  obtain t where t: "f s = (None, t)" "ph_Open t = ph_Open s" "ph_Opening t = ph_Opening s" "ph_Closing t = ph_Closing s"
     "pm_IsLowerLayerUp t = pm_IsLowerLayerUp s" "pm_State t = pm_State s" "pm_OpenTimer t = pm_OpenTimer s"
     "\<not> (ph_Open s \<and> \<not> ph_Closing s) \<longrightarrow> ph_Reading t = ph_Reading s \<and> ph_Writing t = ph_Writing s"
     "own_inv J t"
    using assms(1) by (auto simp: callback_ok_def own_inv_def)
  have "flags_ok (pm_State s) t"
    using assms(2,3) t(2-4,8) by (cases "pm_State s") (auto simp: monitor_inv_def flag_defs)
  then show ?thesis using t assms(2) by (auto simp: layer_good_def monitor_inv_def)
qed

locale monitored_layer =
  fixes cb :: "'a PhysicalLayerMonitor_scheme monitor_callbacks"
    and J :: "bool \<Rightarrow> bool \<Rightarrow> bool \<Rightarrow> bool \<Rightarrow> 'a \<Rightarrow> bool"
    and fits_room :: "bytes \<Rightarrow> 'a \<Rightarrow> bool"
  assumes J_opened: "J False False False False m \<Longrightarrow> J True False False False m"
    and J_closing: "J True False r w m \<Longrightarrow> J True True r w m"
    and J_read: "J True c True w m \<Longrightarrow> J True c False w m"
    and J_write_failed: "J True True r True m \<Longrightarrow> J True True r False m"
    and opened_ok: "ph_Open s \<Longrightarrow> \<not> ph_Closing s \<Longrightarrow> \<not> ph_Reading s \<Longrightarrow> \<not> ph_Writing s \<Longrightarrow>
      J True False False False (PhysicalLayerMonitor.more s) \<Longrightarrow> callback_ok J s (OnPhysicalLayerOpenSuccessCallback cb)"
    and failed_ok: "\<not> ph_Open s \<Longrightarrow> \<not> ph_Closing s \<Longrightarrow> \<not> ph_Reading s \<Longrightarrow> \<not> ph_Writing s \<Longrightarrow>
      J False False False False (PhysicalLayerMonitor.more s) \<Longrightarrow> callback_ok J s (OnPhysicalLayerOpenFailureCallback cb)"
    and received_ok: "ph_Open s \<Longrightarrow> \<not> ph_Closing s \<Longrightarrow> \<not> ph_Reading s \<Longrightarrow> fits_room xs (PhysicalLayerMonitor.more s) \<Longrightarrow>
      J True False False (ph_Writing s) (PhysicalLayerMonitor.more s) \<Longrightarrow> callback_ok J s (Handler_OnReceive cb xs)"
    and sent_ok: "ph_Open s \<Longrightarrow> \<not> ph_Closing s \<Longrightarrow> \<not> ph_Writing s \<Longrightarrow>
      J True False (ph_Reading s) True (PhysicalLayerMonitor.more s) \<Longrightarrow> callback_ok J s (Handler_OnSendSuccess cb)"
    and closed_ok: "\<not> ph_Open s \<Longrightarrow> \<not> ph_Closing s \<Longrightarrow> \<not> ph_Reading s \<Longrightarrow> \<not> ph_Writing s \<Longrightarrow>
      J True True False False (PhysicalLayerMonitor.more s) \<Longrightarrow> callback_ok J s (OnPhysicalLayerCloseCallback cb)"
    and J_cancelled: "J False True False False m \<Longrightarrow> J False False False False m"
    and J_cancel: "J False False False False m \<Longrightarrow> J False True False False m"
begin

text \<open>The layer goes down: all flags were just cleared, the monitor still thinks it is up.\<close>

lemma layer_down_ok:
  assumes "\<not> ph_Open s" "\<not> ph_Opening s" "\<not> ph_Closing s" "\<not> ph_Reading s" "\<not> ph_Writing s"
    and "pm_IsLowerLayerUp s" and "\<not> pm_OpenTimer s"
    and "pm_State s \<in> {MonitorStateOpen, MonitorStateOpenOne, MonitorStateClosing, MonitorStateSuspending, MonitorStateShutingDown}"
    and "J True True False False (PhysicalLayerMonitor.more s)"
  shows "\<exists>u. Handler_OnLowerLayerDown cb s = (None, u) \<and> layer_good J u"
proof -
  define t where "t = snd (OnLayerClose (pm_State s) (s\<lparr>pm_IsLowerLayerUp := False\<rparr>))"
  have t: "OnLayerClose (pm_State s) (s\<lparr>pm_IsLowerLayerUp := False\<rparr>) = (None, t)"
      "\<not> ph_Open t" "\<not> ph_Closing t" "\<not> ph_Reading t" "\<not> ph_Writing t" "monitor_inv t"
      "PhysicalLayerMonitor.more t = PhysicalLayerMonitor.more s"
    using assms by (auto simp: t_def monitor_actions Monitor_Start_def handler_simps monitor_steps flag_defs monitor_inv_def)
  have "callback_ok J t (OnPhysicalLayerCloseCallback cb)"
    using t assms(9) by (intro closed_ok) auto
  then obtain u where u: "OnPhysicalLayerCloseCallback cb t = (None, u)" "layer_good J u"
    using callback_ok_good t(2,3,6) by blast
  have "Handler_OnLowerLayerDown cb s = (None, u)"
    using assms(6) t(1) u(1) by (simp add: Handler_OnLowerLayerDown_def handler_simps)
  then show ?thesis using u by blast
qed

text \<open>Closing an open layer, whether or not operations are pending.\<close>

lemma async_close_ok:
  assumes "own_inv J s" and "\<not> ph_Closing s" and "pm_IsLowerLayerUp s = ph_Open s" and "\<not> pm_OpenTimer s"
    and "ph_Open s \<and> \<not> ph_Opening s \<and> pm_State s \<in> {MonitorStateClosing, MonitorStateSuspending, MonitorStateShutingDown} \<or>
      \<not> ph_Open s \<and> ph_Opening s \<and> \<not> ph_Reading s \<and> \<not> ph_Writing s \<and>
      pm_State s \<in> {MonitorStateOpeningClosing, MonitorStateOpeningStopping, MonitorStateOpeningSuspending}"
  shows "\<exists>u. AsyncClose cb s = (None, u) \<and> layer_good J u"
proof -
  define t where "t = s\<lparr>ph_Closing := True, ph_out := ph_out s @ [if ph_Opening s then Phys_DoOpeningClose else Phys_DoClose]\<rparr>"
  have st: "StartClose s = (None, t)"
    using assms(2,5) by (auto simp: StartClose_step ph_CanClose_def t_def)
  have own: "own_inv J t"
    using assms(1,2,5) J_closing [of "ph_Reading s" "ph_Writing s"] J_cancel by (auto simp: own_inv_def t_def)
  have eq: "AsyncClose cb s = if_CheckForClose (Handler_OnLowerLayerDown cb) t"
    by (simp add: AsyncClose_def st split: prod.split option.split)
  show ?thesis
  proof (cases "ph_Opening s \<or> ph_Reading s \<or> ph_Writing s")
    case True
    then have "AsyncClose cb s = (None, t)" by (auto simp: eq if_CheckForClose_step ph_CallbacksPending_def t_def)
    moreover have "monitor_inv t" using True assms(2-5) by (auto simp: monitor_inv_def t_def)
    ultimately show ?thesis using own by (simp add: layer_good_def)
  next
    case False
    then have "AsyncClose cb s = Handler_OnLowerLayerDown cb (t\<lparr>ph_Closing := False, ph_Open := False\<rparr>)"
      by (simp add: eq if_CheckForClose_step ph_CallbacksPending_def t_def)
    moreover have "\<exists>u. Handler_OnLowerLayerDown cb (t\<lparr>ph_Closing := False, ph_Open := False\<rparr>) = (None, u) \<and> layer_good J u"
      using False assms own by (intro layer_down_ok) (auto simp: t_def own_inv_def)
    ultimately show ?thesis by simp
  qed
qed

text \<open>A request to close in a state that acts on it: to the new state, then the close.\<close>

lemma change_and_close:
  assumes "layer_good J s"
    and "pm_State s \<in> {MonitorStateOpen, MonitorStateOpenOne} \<and>
        st \<in> {MonitorStateClosing, MonitorStateSuspending, MonitorStateShutingDown} \<or>
      pm_State s \<in> {MonitorStateOpening, MonitorStateOpeningOne} \<and>
        st \<in> {MonitorStateOpeningClosing, MonitorStateOpeningStopping, MonitorStateOpeningSuspending}"
  shows "\<exists>u. in_order [ChangeState st, AsyncClose cb] s =
      (if ph_Closing s then Some InvalidStateException else None, u) \<and> layer_good J u"
proof -
  define t where "t = s\<lparr>pm_State := st, ph_out := ph_out s @ state_notes (pm_State s) st\<rparr>"
  have eq: "in_order [ChangeState st, AsyncClose cb] s = AsyncClose cb t"
    by (simp add: ChangeState_step t_def split: prod.split option.split)
  show ?thesis
  proof (cases "ph_Closing s")
    case True
    then have "AsyncClose cb t = (Some InvalidStateException, t)"
      by (simp add: AsyncClose_def StartClose_step ph_CanClose_def t_def)
    moreover have "layer_good J t"
      using assms True by (auto simp: layer_good_def own_inv_def monitor_inv_def t_def)
    ultimately show ?thesis using True unfolding eq by simp
  next
    case False
    then have "\<exists>u. AsyncClose cb t = (None, u) \<and> layer_good J u"
      using assms by (intro async_close_ok) (auto simp: layer_good_def own_inv_def monitor_inv_def t_def)
    then show ?thesis using False unfolding eq by simp
  qed
qed

definition event_result :: "PhysEvent \<Rightarrow> 'a PhysicalLayerMonitor_scheme \<Rightarrow> bool" where
  "event_result e s \<longleftrightarrow> (\<exists>u. monitor_handle cb e s = (if closing_twice e s then Some InvalidStateException else None, u) \<and>
     layer_good J u)"

lemma start_requests_ok:
  assumes "layer_good J s"
  shows "event_result Request_Start s" and "event_result Request_StartOne s"
  using assms
  by (cases "pm_State s"; simp add: event_result_def closing_twice_def Monitor_Start_def Monitor_StartOne_def monitor_actions
      handler_simps monitor_steps layer_good_def own_inv_def monitor_inv_def flag_defs)+

lemma close_requests_ok:
  assumes "layer_good J s"
  shows "event_result Request_Close s" and "event_result Request_Suspend s" and "event_result Request_Shutdown s"
proof -
  note act = change_and_close [OF assms]
  have closed: "\<not> ph_Closing s" if "pm_State s = MonitorStateOpening \<or> pm_State s = MonitorStateOpeningOne"
    using assms that by (auto simp: layer_good_def monitor_inv_def)
  show "event_result Request_Close s"
    using assms act closed
    by (cases "pm_State s") (auto simp: event_result_def closing_twice_def Monitor_Close_def monitor_actions
      handler_simps(7) skip_def simp del: in_order.simps)
  show "event_result Request_Suspend s"
    using assms act closed
    by (cases "pm_State s") (auto simp: event_result_def closing_twice_def Monitor_Suspend_def monitor_actions
      handler_simps(7) skip_def simp del: in_order.simps,
      auto simp: handler_simps monitor_steps layer_good_def own_inv_def monitor_inv_def flag_defs)
  show "event_result Request_Shutdown s"
    using assms act closed
    by (cases "pm_State s") (auto simp: event_result_def closing_twice_def Monitor_Shutdown_def monitor_actions
      handler_simps(7) skip_def simp del: in_order.simps,
      auto simp: handler_simps monitor_steps layer_good_def own_inv_def monitor_inv_def flag_defs)
qed

lemma timer_ok:
  assumes "layer_good J s" and "pm_OpenTimer s"
  shows "event_result Open_Timer_Expired s"
  using assms
  by (cases "pm_State s"; simp add: event_result_def closing_twice_def OnOpenTimerExpiration_def
      handler_simps monitor_steps layer_good_def own_inv_def monitor_inv_def flag_defs)

text \<open>The completion of an open: failed, successful, or successful but closed meanwhile.\<close>

lemma open_failed_ok:
  assumes "monitor_inv (s\<lparr>ph_Opening := True, ph_Closing := c\<rparr>)" and "J False False False False (PhysicalLayerMonitor.more s)"
    and "\<not> ph_Opening s" and "\<not> ph_Closing s" and "\<not> ph_Open s"
    and "pm_State s \<in> {MonitorStateOpening, MonitorStateOpeningOne, MonitorStateOpeningClosing,
      MonitorStateOpeningStopping, MonitorStateOpeningSuspending}"
  shows "\<exists>u. Handler_OnOpenFailure cb s = (None, u) \<and> layer_good J u"
proof -
  define t where "t = snd (State_OnOpenFailure (pm_State s) s)"
  have t: "State_OnOpenFailure (pm_State s) s = (None, t)" "monitor_inv t" "\<not> ph_Open t" "\<not> ph_Closing t"
      "\<not> ph_Reading t" "\<not> ph_Writing t" "PhysicalLayerMonitor.more t = PhysicalLayerMonitor.more s"
    using assms by (auto simp: t_def monitor_actions handler_simps monitor_steps monitor_inv_def flag_defs)
  have "callback_ok J t (OnPhysicalLayerOpenFailureCallback cb)"
    using t assms(2) by (intro failed_ok) auto
  then obtain u where "OnPhysicalLayerOpenFailureCallback cb t = (None, u)" "layer_good J u"
    using callback_ok_good t(2-4) by blast
  then show ?thesis using t(1) by (simp add: Handler_OnOpenFailure_def handler_simps)
qed

lemma open_done_ok:
  assumes "layer_good J s" and "ph_Opening s"
  shows "event_result (Open_Done arErr) s"
proof -
  have st: "pm_State s \<in> {MonitorStateOpening, MonitorStateOpeningOne, MonitorStateOpeningClosing,
      MonitorStateOpeningStopping, MonitorStateOpeningSuspending}"
    using assms by (cases "pm_State s") (auto simp: layer_good_def monitor_inv_def flag_defs)
  have fl: "\<not> ph_Open s" "\<not> ph_Reading s" "\<not> ph_Writing s" "\<not> pm_IsLowerLayerUp s" "\<not> pm_OpenTimer s"
    using assms st by (auto simp: layer_good_def monitor_inv_def)
  have own: "J False False False False (PhysicalLayerMonitor.more s)"
    using assms(1) fl J_cancelled by (cases "ph_Closing s") (auto simp: layer_good_def own_inv_def)
  show ?thesis
  proof (cases "arErr \<or> ph_Closing s")
    case True
    define s1 where "s1 = s\<lparr>ph_Opening := False, ph_out := ph_out s @ [Phys_DoOpenCallback]\<rparr>"
    define s2 where "s2 = snd (if_CheckForClose skip s1)"
    define t where "t = s2\<lparr>ph_out := ph_out s2 @ [if arErr then Phys_DoOpenFailure else Phys_DoClose]\<rparr>"
    have s2: "if_CheckForClose skip s1 = (None, s2)" "\<not> ph_Opening s2" "\<not> ph_Closing s2" "\<not> ph_Open s2"
        "\<not> ph_Reading s2" "\<not> ph_Writing s2" "pm_State s2 = pm_State s" "pm_OpenTimer s2 = pm_OpenTimer s"
        "pm_IsLowerLayerUp s2 = pm_IsLowerLayerUp s" "PhysicalLayerMonitor.more s2 = PhysicalLayerMonitor.more s"
      using fl by (auto simp: s2_def s1_def if_CheckForClose_step ph_CallbacksPending_def handler_simps)
    have s1: "in_order [if_CheckForClose skip, ph_emit c, Handler_OnOpenFailure cb] s1
        = Handler_OnOpenFailure cb (s2\<lparr>ph_out := ph_out s2 @ [c]\<rparr>)" for c
      by (simp add: s2(1) handler_simps split: prod.split option.split)
    have "OnOpenCallback cb arErr s = in_order [if_CheckForClose skip, ph_emit (if arErr then Phys_DoOpenFailure else Phys_DoClose),
        Handler_OnOpenFailure cb] s1"
      using True assms(2) by (cases arErr) (simp_all add: OnOpenCallback_def handler_simps s1_def)
    then have "OnOpenCallback cb arErr s = Handler_OnOpenFailure cb t" unfolding s1 t_def .
    moreover have "\<exists>u. Handler_OnOpenFailure cb t = (None, u) \<and> layer_good J u"
      using assms st fl own s2
      by (intro open_failed_ok [where c = "ph_Closing s"]) (auto simp: t_def layer_good_def monitor_inv_def)
    ultimately show ?thesis by (simp add: event_result_def closing_twice_def)
  next
    case False
    define t where "t = snd (OnLayerOpen (pm_State s) (s\<lparr>ph_Opening := False, ph_Open := True,
      ph_out := ph_out s @ [Phys_DoOpenCallback, Phys_DoOpenSuccess], pm_IsLowerLayerUp := True\<rparr>))"
    have t: "OnLayerOpen (pm_State s) (s\<lparr>ph_Opening := False, ph_Open := True,
      ph_out := ph_out s @ [Phys_DoOpenCallback, Phys_DoOpenSuccess], pm_IsLowerLayerUp := True\<rparr>) = (None, t)" "monitor_inv t" "ph_Open t"
      "\<not> ph_Closing t" "\<not> ph_Reading t" "\<not> ph_Writing t" "PhysicalLayerMonitor.more t = PhysicalLayerMonitor.more s"
      using False assms st fl by (auto simp: t_def handler_simps monitor_steps layer_good_def monitor_inv_def)
    have "callback_ok J t (OnPhysicalLayerOpenSuccessCallback cb)"
      using t own J_opened by (intro opened_ok) auto
    then obtain u where "OnPhysicalLayerOpenSuccessCallback cb t = (None, u)" "layer_good J u"
      using callback_ok_good t(2-4) by blast
    then have "OnOpenCallback cb arErr s = (None, u)"
      using False assms(2) fl t(1) by (simp add: OnOpenCallback_def Handler_OnLowerLayerUp_def handler_simps)
    then show ?thesis using \<open>layer_good J u\<close> by (simp add: event_result_def closing_twice_def)
  qed
qed

text \<open>After a completed read or write: close if that was the last thing a closing layer waited for.\<close>

lemma check_for_close_ok:
  assumes "own_inv J s" and "ph_Open s" and "\<not> ph_Opening s" and "pm_IsLowerLayerUp s" and "\<not> pm_OpenTimer s"
    and "pm_State s \<in> {MonitorStateOpen, MonitorStateOpenOne} \<or>
      ph_Closing s \<and> pm_State s \<in> {MonitorStateClosing, MonitorStateSuspending, MonitorStateShutingDown}"
  shows "\<exists>u. if_CheckForClose (Handler_OnLowerLayerDown cb) s = (None, u) \<and> layer_good J u"
proof (cases "ph_Closing s \<and> \<not> ph_CallbacksPending s")
  case True
  then have "\<exists>u. Handler_OnLowerLayerDown cb (s\<lparr>ph_Closing := False, ph_Open := False\<rparr>) = (None, u) \<and> layer_good J u"
    using assms by (intro layer_down_ok) (auto simp: own_inv_def ph_CallbacksPending_def)
  then show ?thesis using True by (simp add: if_CheckForClose_step)
next
  case False
  then have "monitor_inv s" using assms by (auto simp: monitor_inv_def ph_CallbacksPending_def)
  then show ?thesis using False assms(1) by (auto simp: if_CheckForClose_step layer_good_def)
qed

text \<open>The failed completion of an operation starts the close, unless it is under way.\<close>

lemma start_close_on_error:
  assumes "own_inv J s" and "ph_Open s" and "\<not> ph_Opening s"
  shows "\<exists>t. if_else ph_CanClose StartClose skip s = (None, t) \<and> own_inv J t \<and> ph_Open t \<and> \<not> ph_Opening t \<and>
    ph_Closing t \<and> pm_IsLowerLayerUp t = pm_IsLowerLayerUp s \<and> pm_OpenTimer t = pm_OpenTimer s \<and> pm_State t = pm_State s"
proof (cases "ph_Closing s")
  case True
  then show ?thesis using assms by (auto simp: handler_simps ph_CanClose_def)
next
  case False
  then have "own_inv J (s\<lparr>ph_Closing := True, ph_out := ph_out s @ [Phys_DoClose]\<rparr>)"
    using assms J_closing by (simp add: own_inv_def)
  then show ?thesis using assms False by (simp add: handler_simps ph_CanClose_def StartClose_step)
qed

lemma open_state:
  assumes "layer_good J s" and "ph_Reading s \<or> ph_Writing s"
  shows "ph_Open s" and "\<not> ph_Opening s" and "pm_IsLowerLayerUp s" and "\<not> pm_OpenTimer s" and "own_inv J s"
    and "pm_State s \<in> {MonitorStateOpen, MonitorStateOpenOne} \<or>
      ph_Closing s \<and> pm_State s \<in> {MonitorStateClosing, MonitorStateSuspending, MonitorStateShutingDown}"
  using assms by (cases "pm_State s"; auto simp: layer_good_def monitor_inv_def flag_defs)+

lemma read_done_ok:
  assumes "layer_good J s" and "ph_Reading s" and "fits_room xs (PhysicalLayerMonitor.more s)"
  shows "event_result (Read_Done arErr xs) s"
proof -
  have op: "ph_Open s" "\<not> ph_Opening s" "pm_IsLowerLayerUp s" "\<not> pm_OpenTimer s" "own_inv J s"
      "pm_State s \<in> {MonitorStateOpen, MonitorStateOpenOne} \<or>
       ph_Closing s \<and> pm_State s \<in> {MonitorStateClosing, MonitorStateSuspending, MonitorStateShutingDown}"
    using open_state [OF assms(1)] assms(2) by blast+
  define r where "r = s\<lparr>ph_Reading := False\<rparr>"
  have own: "own_inv J r" using op(1,5) assms(2) J_read by (auto simp: own_inv_def r_def)
  have eq: "OnReadCallback cb arErr xs s = in_order
     [if arErr then if_else ph_CanClose StartClose skip else if_else ph_Closing skip (Handler_OnReceive cb xs),
      if_CheckForClose (Handler_OnLowerLayerDown cb)] r"
    using assms(2) by (simp add: OnReadCallback_def handler_simps r_def)
  obtain t where t: "(if arErr then if_else ph_CanClose StartClose skip else if_else ph_Closing skip (Handler_OnReceive cb xs)) r = (None, t)"
      "own_inv J t" "ph_Open t" "\<not> ph_Opening t" "ph_Closing t \<or> \<not> ph_Closing s"
      "pm_IsLowerLayerUp t" "\<not> pm_OpenTimer t" "pm_State t = pm_State s"
  proof (cases arErr)
    case True
    then show thesis using start_close_on_error [OF own] op(1-4) that by (auto simp: r_def)
  next
    case noerr: False
    show thesis
    proof (cases "ph_Closing s")
      case True
      then show thesis using that [of r] noerr own op by (simp add: handler_simps r_def)
    next
      case False
      then have "callback_ok J r (Handler_OnReceive cb xs)"
        using op own assms(3) by (intro received_ok) (auto simp: r_def own_inv_def)
      then show thesis using that noerr False op by (auto simp: callback_ok_def own_inv_def handler_simps r_def)
    qed
  qed
  have "OnReadCallback cb arErr xs s = if_CheckForClose (Handler_OnLowerLayerDown cb) t" by (simp add: eq t(1))
  moreover have "\<exists>u. if_CheckForClose (Handler_OnLowerLayerDown cb) t = (None, u) \<and> layer_good J u"
    using t op(6) by (intro check_for_close_ok) auto
  ultimately show ?thesis by (simp add: event_result_def closing_twice_def)
qed

lemma write_done_ok:
  assumes "layer_good J s" and "ph_Writing s"
  shows "event_result (Write_Done arErr) s"
proof -
  have op: "ph_Open s" "\<not> ph_Opening s" "pm_IsLowerLayerUp s" "\<not> pm_OpenTimer s" "own_inv J s"
      "pm_State s \<in> {MonitorStateOpen, MonitorStateOpenOne} \<or>
       ph_Closing s \<and> pm_State s \<in> {MonitorStateClosing, MonitorStateSuspending, MonitorStateShutingDown}"
    using open_state [OF assms(1)] assms(2) by blast+
  define r where "r = s\<lparr>ph_Writing := False\<rparr>"
  have eq: "OnWriteCallback cb arErr s = in_order
     [if arErr then if_else ph_CanClose StartClose skip else if_else ph_Closing skip (Handler_OnSendSuccess cb),
      if_CheckForClose (Handler_OnLowerLayerDown cb)] r"
    using assms(2) by (simp add: OnWriteCallback_def handler_simps r_def)
  have failed: "J True True (ph_Reading s) False (PhysicalLayerMonitor.more s)"
    using op(1,5) assms(2) J_write_failed J_closing by (cases "ph_Closing s") (auto simp: own_inv_def)
  obtain t where t: "(if arErr then if_else ph_CanClose StartClose skip else if_else ph_Closing skip (Handler_OnSendSuccess cb)) r = (None, t)"
      "own_inv J t" "ph_Open t" "\<not> ph_Opening t" "ph_Closing t \<or> \<not> ph_Closing s"
      "pm_IsLowerLayerUp t" "\<not> pm_OpenTimer t" "pm_State t = pm_State s"
  proof (cases "ph_Closing s")
    case True
    then have "(if arErr then if_else ph_CanClose StartClose skip else if_else ph_Closing skip (Handler_OnSendSuccess cb)) r = (None, r)"
      by (simp add: handler_simps ph_CanClose_def r_def)
    then show thesis using that [of r] True op failed by (simp add: own_inv_def r_def)
  next
    case open_: False
    show thesis
    proof (cases arErr)
      case True
      then show thesis
        using that [of "r\<lparr>ph_Closing := True, ph_out := ph_out r @ [Phys_DoClose]\<rparr>"] open_ op failed
        by (simp add: handler_simps ph_CanClose_def StartClose_step own_inv_def r_def)
    next
      case False
      have "callback_ok J r (Handler_OnSendSuccess cb)"
        using op open_ assms(2) by (intro sent_ok) (auto simp: r_def own_inv_def)
      then show thesis using that False open_ op by (auto simp: callback_ok_def own_inv_def handler_simps r_def)
    qed
  qed
  have "OnWriteCallback cb arErr s = if_CheckForClose (Handler_OnLowerLayerDown cb) t" by (simp add: eq t(1))
  moreover have "\<exists>u. if_CheckForClose (Handler_OnLowerLayerDown cb) t = (None, u) \<and> layer_good J u"
    using t op(6) by (intro check_for_close_ok) auto
  ultimately show ?thesis by (simp add: event_result_def closing_twice_def)
qed

text \<open>Every event that can happen.\<close>

lemma every_event_ok:
  assumes "layer_good J s" and "monitor_possible e s"
    and "\<And>b xs. e = Read_Done b xs \<Longrightarrow> fits_room xs (PhysicalLayerMonitor.more s)"
  shows "\<exists>u. monitor_handle cb e s = (if closing_twice e s then Some InvalidStateException else None, u) \<and> layer_good J u"
proof -
  have "event_result Final_Shutdown_Posted s"
    using assms(1) by (cases "pm_State s") (auto simp: event_result_def closing_twice_def DoFinalShutdown_def handler_simps
        layer_good_def own_inv_def monitor_inv_def flag_defs)
  then have "event_result e s"
    using assms by (cases e) (auto intro: start_requests_ok close_requests_ok timer_ok open_done_ok read_done_ok write_done_ok)
  then show ?thesis by (simp add: event_result_def)
qed

end

end
