(* ===== verification/LinkRouters.thy ===== *)
theory LinkRouters
  imports PhysicalMonitors LinkReceivers
begin

text \<open>
  The router of a channel: opendnp3/DNP3/LinkLayerRouter.h, .cpp, a monitored physical layer that
  parses what it receives and hands each frame to the link layer its addresses are bound to
  (LinkRoute.h, .cpp), and that writes the frames of all link layers one after the other. Calls on
  the contexts (ILinkContext.h) are recorded in \<open>rt_out\<close>; what they call back is a later event. Proved
  are the contract with the monitor, that frames are written in the order they were accepted with one
  write at a time, that received frames reach exactly the context bound to their addresses, and where
  the code fails: removing a context whose frame is being written, and closing a layer that is already
  closing itself.
\<close>

section \<open>Routes\<close>

datatype LinkRoute = LinkRoute (remote: u16) (local: u16)

definition LessThan :: "LinkRoute \<Rightarrow> LinkRoute \<Rightarrow> bool" where
  "LessThan a b = (if remote a < remote b then True
     else if remote b < remote a then False
     else local a < local b)"

text \<open>The comparison the address map is ordered by is a linear order.\<close>

instantiation LinkRoute :: linorder
begin

definition less_LinkRoute :: "LinkRoute \<Rightarrow> LinkRoute \<Rightarrow> bool" where
  "less_LinkRoute = LessThan"

definition less_eq_LinkRoute :: "LinkRoute \<Rightarrow> LinkRoute \<Rightarrow> bool" where
  "less_eq_LinkRoute a b \<longleftrightarrow> a = b \<or> LessThan a b"

instance
  by standard (auto simp: less_LinkRoute_def less_eq_LinkRoute_def LessThan_def LinkRoute.expand split: if_splits)

end

text \<open>\<open>std::map\<close>: bindings in the order of the keys; \<open>m[k] = v\<close> and \<open>erase\<close>.\<close>

primrec bind_route :: "LinkRoute \<Rightarrow> 'v \<Rightarrow> (LinkRoute \<times> 'v) list \<Rightarrow> (LinkRoute \<times> 'v) list" where
  "bind_route k v [] = [(k, v)]"
| "bind_route k v (p # ps) =
     (if k < fst p then (k, v) # p # ps else if k = fst p then (k, v) # ps else p # bind_route k v ps)"

definition erase_route :: "LinkRoute \<Rightarrow> (LinkRoute \<times> 'v) list \<Rightarrow> (LinkRoute \<times> 'v) list" where
  "erase_route k ps = filter (\<lambda>p. fst p \<noteq> k) ps"

lemma map_of_bind: "map_of (bind_route k v ps) = (map_of ps)(k \<mapsto> v)"
  by (induction ps) (auto simp: fun_eq_iff)

lemma map_of_erase: "map_of (erase_route k ps) = (map_of ps)(k := None)"
  by (induction ps) (auto simp: erase_route_def fun_eq_iff)

lemma set_bind: "map_of ps k = None \<Longrightarrow> set (bind_route k v ps) = insert (k, v) (set ps)"
  by (induction ps) (auto split: if_splits)

lemma distinct_bind:
  "map_of ps k = None \<Longrightarrow> v \<notin> snd ` set ps \<Longrightarrow> distinct (map snd ps) \<Longrightarrow> distinct (map snd (bind_route k v ps))"
  by (induction ps) (auto simp: set_bind split: if_splits)

lemma sorted_bind: "sorted (map fst ps) \<Longrightarrow> distinct (map fst ps) \<Longrightarrow>
    sorted (map fst (bind_route k v ps)) \<and> distinct (map fst (bind_route k v ps))"
proof (induction ps)
  case (Cons p ps)
  have "fst ` set (bind_route k v ps) \<subseteq> insert k (fst ` set ps)"
    by (induction ps) (auto split: if_splits)
  with Cons show ?case by (auto simp: image_iff) force+
qed simp

section \<open>The code\<close>

text \<open>Calls on the contexts, which are numbered by the pointer.\<close>

datatype RouterOut =
    Context_OnFrame nat FrameSinkCall
  | Context_OnLowerLayerUp nat
  | Context_OnLowerLayerDown nat

record LinkLayerRouter = PhysicalLayerMonitor +
  rt_AddressMap :: "(LinkRoute \<times> nat) list"
  rt_TransmitQueue :: "LinkFrame list"
  rt_Receiver :: LinkLayerReceiver
  rt_Transmitting :: bool
  rt_out :: "RouterOut list"

definition new_LinkLayerRouter :: "nat \<Rightarrow> LinkLayerReceiver \<Rightarrow> LinkLayerRouter" where
  "new_LinkLayerRouter aOpenRetry rcv =
     \<lparr>ph_Open = False, ph_Opening = False, ph_Reading = False, ph_Writing = False, ph_Closing = False, ph_out = [],
      pm_IsLowerLayerUp = False, pm_State = MonitorStateInit, pm_OpenTimer = False, pm_FinalShutdown = False,
      pm_OPEN_RETRY = aOpenRetry,
      rt_AddressMap = [], rt_TransmitQueue = [], rt_Receiver = rcv, rt_Transmitting = False, rt_out = []\<rparr>"

definition rt_emit :: "RouterOut list \<Rightarrow> LinkLayerRouter handler" where
  [handler_simps]: "rt_emit cs = modify (\<lambda>s. s\<lparr>rt_out := rt_out s @ cs\<rparr>)"

definition GetContext :: "LinkLayerRouter \<Rightarrow> LinkRoute \<Rightarrow> nat option" where
  "GetContext s arRoute = map_of (rt_AddressMap s) arRoute"

definition GetDestination :: "LinkLayerRouter \<Rightarrow> u16 \<Rightarrow> u16 \<Rightarrow> nat option" where
  "GetDestination s aDest aSrc = GetContext s (LinkRoute aSrc aDest)"

definition frame_route :: "LinkFrame \<Rightarrow> LinkRoute" where
  "frame_route f = LinkRoute (lh_dest (lf_header f)) (lh_src (lf_header f))"

text \<open>The nine functions of \<open>IFrameSink\<close> all do this with their own arguments.\<close>

definition Router_OnFrame :: "FrameSinkCall \<Rightarrow> LinkLayerRouter handler" where
  "Router_OnFrame c = reading (\<lambda>s. case GetDestination s (dest c) (src c) of
     Some pDest \<Rightarrow> rt_emit [Context_OnFrame pDest c] | None \<Rightarrow> skip)"

definition CheckForSend :: "LinkLayerRouter handler" where
  "CheckForSend = if_else (\<lambda>s. rt_TransmitQueue s \<noteq> [] \<and> \<not> rt_Transmitting s)
     (in_order
       [modify (\<lambda>s. s\<lparr>rt_Transmitting := True\<rparr>),
        reading (\<lambda>s. AsyncWrite (frame_bytes (hd (rt_TransmitQueue s))))])
     skip"

definition Router_Transmit :: "LinkFrame \<Rightarrow> LinkLayerRouter handler" where
  "Router_Transmit arFrame = if_else (\<lambda>s. GetContext s (frame_route arFrame) \<noteq> None)
     (in_order
       [throw_if (\<lambda>s. \<not> pm_IsLowerLayerUp s) InvalidStateException,
        modify (\<lambda>s. s\<lparr>rt_TransmitQueue := rt_TransmitQueue s @ [arFrame]\<rparr>),
        CheckForSend])
     (throw ArgumentException)"

definition Router_OnSendSuccess :: "LinkLayerRouter handler" where
  "Router_OnSendSuccess = in_order
     [assert_that (\<lambda>s. length (rt_TransmitQueue s) > 0),
      assert_that rt_Transmitting,
      assert_that (\<lambda>s. GetContext s (frame_route (hd (rt_TransmitQueue s))) \<noteq> None),
      modify (\<lambda>s. s\<lparr>rt_Transmitting := False\<rparr>),
      modify (\<lambda>s. s\<lparr>rt_TransmitQueue := tl (rt_TransmitQueue s)\<rparr>),
      CheckForSend]"

definition Router_OnSendFailure :: "LinkLayerRouter handler" where
  "Router_OnSendFailure = in_order
     [modify (\<lambda>s. s\<lparr>rt_Transmitting := False\<rparr>),
      CheckForSend]"

text \<open>The receiver reads the bytes; the calls it makes on its sink, the router, are routed in order.\<close>

definition Router_OnRead :: "bytes \<Rightarrow> LinkLayerRouter handler" where
  "Router_OnRead xs s = (case receive xs ((rt_Receiver s)\<lparr>lr_sink := []\<rparr>) of
     (e, rcv) \<Rightarrow> (e, snd (in_order (map Router_OnFrame (lr_sink rcv)) (s\<lparr>rt_Receiver := rcv\<rparr>))))"

definition Router_StartRead :: "LinkLayerRouter handler" where
  "Router_StartRead = if_else ph_CanRead
     (reading (\<lambda>s. AsyncRead (NumWriteBytes (lr_buffer (rt_Receiver s)))))
     skip"

definition Router_OnReceive :: "bytes \<Rightarrow> LinkLayerRouter handler" where
  "Router_OnReceive xs = in_order [Router_OnRead xs, Router_StartRead]"

definition Router_OnPhysicalLayerOpenSuccess :: "LinkLayerRouter handler" where
  "Router_OnPhysicalLayerOpenSuccess = in_order
     [Router_StartRead,
      reading (\<lambda>s. rt_emit (map (\<lambda>p. Context_OnLowerLayerUp (snd p)) (rt_AddressMap s)))]"

definition Router_OnPhysicalLayerClose :: "LinkLayerRouter handler" where
  "Router_OnPhysicalLayerClose = in_order
     [modify (\<lambda>s. s\<lparr>rt_Transmitting := False\<rparr>),
      modify (\<lambda>s. s\<lparr>rt_TransmitQueue := []\<rparr>),
      reading (\<lambda>s. rt_emit (map (\<lambda>p. Context_OnLowerLayerDown (snd p)) (rt_AddressMap s)))]"

definition router_callbacks :: "LinkLayerRouter monitor_callbacks" where
  "router_callbacks =
     \<lparr>OnPhysicalLayerOpenSuccessCallback = Router_OnPhysicalLayerOpenSuccess,
      OnPhysicalLayerOpenFailureCallback = skip,
      OnPhysicalLayerCloseCallback = Router_OnPhysicalLayerClose,
      Handler_OnReceive = Router_OnReceive,
      Handler_OnSendSuccess = Router_OnSendSuccess\<rparr>"

definition AddContext :: "nat \<Rightarrow> LinkRoute \<Rightarrow> LinkLayerRouter handler" where
  "AddContext apContext arRoute = in_order
     [throw_if (\<lambda>s. GetContext s arRoute \<noteq> None) ArgumentException,
      throw_if (\<lambda>s. \<exists>p \<in> set (rt_AddressMap s). snd p = apContext) ArgumentException,
      modify (\<lambda>s. s\<lparr>rt_AddressMap := bind_route arRoute apContext (rt_AddressMap s)\<rparr>),
      if_else (\<lambda>s. GetState (pm_State s) = PLS_OPEN) (rt_emit [Context_OnLowerLayerUp apContext]) skip,
      Monitor_Start]"

definition RemoveContext :: "LinkRoute \<Rightarrow> LinkLayerRouter handler" where
  "RemoveContext arRoute = reading (\<lambda>s. case GetContext s arRoute of
       None \<Rightarrow> throw ArgumentException
     | Some pContext \<Rightarrow> in_order
         [modify (\<lambda>s. s\<lparr>rt_AddressMap := erase_route arRoute (rt_AddressMap s)\<rparr>),
          if_else (\<lambda>s. GetState (pm_State s) = PLS_OPEN) (rt_emit [Context_OnLowerLayerDown pContext]) skip,
          if_else (\<lambda>s. rt_AddressMap s = []) (Monitor_Suspend router_callbacks) skip])"

text \<open>What can happen to a router.\<close>

datatype RouterEvent =
    Router_Phys PhysEvent
  | Router_Add nat LinkRoute
  | Router_Remove LinkRoute
  | Router_Send LinkFrame

primrec router_handle :: "RouterEvent \<Rightarrow> LinkLayerRouter handler" where
  "router_handle (Router_Phys e) = monitor_handle router_callbacks e"
| "router_handle (Router_Add c r) = AddContext c r"
| "router_handle (Router_Remove r) = RemoveContext r"
| "router_handle (Router_Send f) = Router_Transmit f"

text \<open>
  The environment: operations complete that were started, a read returns no more than was asked for,
  frames have at least one byte, and a context is not removed while a frame of its route is queued
  (the code does not check that; the last property below shows what happens then).
\<close>

primrec router_possible_event :: "RouterEvent \<Rightarrow> LinkLayerRouter \<Rightarrow> bool" where
  "router_possible_event (Router_Phys e) s = (monitor_possible e s \<and>
     (case e of Read_Done b xs \<Rightarrow> length xs \<le> rcv_room (rt_Receiver s) | _ \<Rightarrow> True))"
| "router_possible_event (Router_Add c r) s = True"
| "router_possible_event (Router_Remove r) s = (\<forall>f \<in> set (rt_TransmitQueue s). frame_route f \<noteq> r)"
| "router_possible_event (Router_Send f) s = (frame_bytes f \<noteq> [])"

definition router_possible :: "LinkLayerRouter \<Rightarrow> RouterEvent \<Rightarrow> bool" where
  "router_possible s e = router_possible_event e s"

definition router_start :: "LinkLayerRouter \<Rightarrow> bool" where
  "router_start s \<longleftrightarrow> (\<exists>n r. fresh_receiver r \<and> s = new_LinkLayerRouter n r)"

section \<open>The contract with the monitor\<close>

text \<open>The router's own members, from the part of the record that extends the monitor.\<close>

definition of_more :: "unit LinkLayerRouter_ext \<Rightarrow> LinkLayerRouter" where
  "of_more m = PhysicalLayerMonitor.extend
     \<lparr>ph_Open = False, ph_Opening = False, ph_Reading = False, ph_Writing = False, ph_Closing = False, ph_out = [],
      pm_IsLowerLayerUp = False, pm_State = MonitorStateInit, pm_OpenTimer = False, pm_FinalShutdown = False,
      pm_OPEN_RETRY = 0\<rparr> m"

lemma of_more_fields [simp]:
  "rt_AddressMap (of_more (PhysicalLayerMonitor.more s)) = rt_AddressMap s"
  "rt_TransmitQueue (of_more (PhysicalLayerMonitor.more s)) = rt_TransmitQueue s"
  "rt_Receiver (of_more (PhysicalLayerMonitor.more s)) = rt_Receiver s"
  "rt_Transmitting (of_more (PhysicalLayerMonitor.more s)) = rt_Transmitting s"
  by (cases s; simp add: of_more_def PhysicalLayerMonitor.extend_def)+

definition routes_ok :: "LinkLayerRouter \<Rightarrow> bool" where
  "routes_ok s \<longleftrightarrow> sorted (map fst (rt_AddressMap s)) \<and> distinct (map fst (rt_AddressMap s)) \<and>
     distinct (map snd (rt_AddressMap s)) \<and> rcv_idle (rt_Receiver s) \<and>
     (\<forall>f \<in> set (rt_TransmitQueue s). frame_bytes f \<noteq> [] \<and> GetContext s (frame_route f) \<noteq> None) \<and>
     (rt_Transmitting s \<longrightarrow> rt_TransmitQueue s \<noteq> [])"

text \<open>
  While the layer is open, a write is pending exactly when a frame is queued; a closed layer has
  nothing queued.
\<close>

definition router_J :: "bool \<Rightarrow> bool \<Rightarrow> bool \<Rightarrow> bool \<Rightarrow> unit LinkLayerRouter_ext \<Rightarrow> bool" where
  "router_J op cl rd wr m \<longleftrightarrow> (let s = of_more m in
     routes_ok s \<and>
     (op \<and> \<not> cl \<longrightarrow> (rt_Transmitting s \<longleftrightarrow> wr) \<and> (wr \<longleftrightarrow> rt_TransmitQueue s \<noteq> [])) \<and>
     (\<not> op \<longrightarrow> \<not> rt_Transmitting s \<and> rt_TransmitQueue s = []))"

lemma routes_ok_of_more [simp]: "routes_ok (of_more (PhysicalLayerMonitor.more s)) = routes_ok s"
  by (simp add: routes_ok_def GetContext_def)

lemma GetContext_updates [simp]:
  "GetContext (s\<lparr>rt_Transmitting := b\<rparr>) = GetContext s" "GetContext (s\<lparr>rt_TransmitQueue := q\<rparr>) = GetContext s"
  "GetContext (s\<lparr>rt_Receiver := rcv\<rparr>) = GetContext s"
  by (simp_all add: GetContext_def fun_eq_iff)

lemma routes_ok_cong:
  "rt_AddressMap s = rt_AddressMap t \<Longrightarrow> rt_TransmitQueue s = rt_TransmitQueue t \<Longrightarrow>
   rt_Receiver s = rt_Receiver t \<Longrightarrow> rt_Transmitting s = rt_Transmitting t \<Longrightarrow> routes_ok s = routes_ok t"
  by (simp add: routes_ok_def GetContext_def)

lemma routes_ok_updates [simp]:
  "routes_ok (s\<lparr>ph_Reading := b\<rparr>) = routes_ok s" "routes_ok (s\<lparr>ph_Writing := b\<rparr>) = routes_ok s"
  "routes_ok (s\<lparr>ph_out := xs\<rparr>) = routes_ok s" "routes_ok (s\<lparr>rt_out := ys\<rparr>) = routes_ok s"
  by (rule routes_ok_cong; simp)+

lemma router_J_at:
  "router_J op cl rd wr (PhysicalLayerMonitor.more s) \<longleftrightarrow> routes_ok s \<and>
     (op \<and> \<not> cl \<longrightarrow> (rt_Transmitting s \<longleftrightarrow> wr) \<and> (wr \<longleftrightarrow> rt_TransmitQueue s \<noteq> [])) \<and>
     (\<not> op \<longrightarrow> \<not> rt_Transmitting s \<and> rt_TransmitQueue s = [])"
  by (simp add: router_J_def Let_def)

text \<open>What reading does: the routed calls, the receiver's next state, and the next read.\<close>

definition routed :: "LinkLayerRouter \<Rightarrow> FrameSinkCall \<Rightarrow> RouterOut list" where
  "routed s c = (case GetDestination s (dest c) (src c) of Some p \<Rightarrow> [Context_OnFrame p c] | None \<Rightarrow> [])"

lemma route_frames:
  "in_order (map Router_OnFrame cs) s = (None, s\<lparr>rt_out := rt_out s @ concat (map (routed s) cs)\<rparr>)"
proof (induction cs arbitrary: s)
  case (Cons c cs)
  have "Router_OnFrame c s = (None, s\<lparr>rt_out := rt_out s @ routed s c\<rparr>)"
    by (simp add: Router_OnFrame_def handler_simps routed_def split: option.split)
  moreover have "routed (s\<lparr>rt_out := ys\<rparr>) = routed s" for ys
    by (simp add: routed_def GetDestination_def GetContext_def fun_eq_iff)
  ultimately show ?case by (simp add: in_order.simps(2) Cons.IH)
qed simp

lemma rcv_idle_sink [simp]: "rcv_idle (r\<lparr>lr_sink := xs\<rparr>) = rcv_idle r" "rcv_room (r\<lparr>lr_sink := xs\<rparr>) = rcv_room r"
  by (simp_all add: rcv_idle_def rcv_inv_def rcv_room_def split: LRS.split)

lemma Router_OnRead_step:
  assumes "rcv_idle (rt_Receiver s)" and "length xs \<le> rcv_room (rt_Receiver s)"
  shows "\<exists>rcv. Router_OnRead xs s = (None, s\<lparr>rt_Receiver := rcv, rt_out := rt_out s @
      concat (map (routed s) (fst (decode (stream (rt_Receiver s) @ xs))))\<rparr>) \<and>
    rcv_idle rcv \<and> resync (stream rcv) = snd (decode (stream (rt_Receiver s) @ xs))"
proof -
  let ?r = "(rt_Receiver s)\<lparr>lr_sink := []\<rparr>"
  have "rcv_idle ?r" "length xs \<le> rcv_room ?r" using assms by simp_all
  note rc = receive_stream [OF this]
  obtain rcv where rcv: "receive xs ?r = (None, rcv)" using rc(1) by (cases "receive xs ?r") simp
  have "routed (s\<lparr>rt_Receiver := rcv\<rparr>) = routed s"
    by (simp add: routed_def GetDestination_def GetContext_def fun_eq_iff)
  then have "Router_OnRead xs s = (None, s\<lparr>rt_Receiver := rcv, rt_out := rt_out s @
      concat (map (routed s) (fst (decode (stream (rt_Receiver s) @ xs))))\<rparr>)"
    using rc(3) by (simp add: Router_OnRead_def route_frames rcv)
  then show ?thesis using rc(2,4) by (intro exI [of _ rcv]) (simp add: rcv)
qed

lemma Router_StartRead_step:
  assumes "rcv_idle (rt_Receiver s)"
  shows "\<exists>outs. Router_StartRead s = (None, if ph_CanRead s then s\<lparr>ph_Reading := True, ph_out := outs\<rparr> else s)"
proof -
  have "1 \<le> NumWriteBytes (lr_buffer (rt_Receiver s))"
    using rcv_room_bound [OF assms] by (simp add: rcv_room_def)
  then show ?thesis by (auto simp: Router_StartRead_def AsyncRead_def handler_simps)
qed

lemma CheckForSend_step:
  assumes "\<forall>f \<in> set (rt_TransmitQueue s). frame_bytes f \<noteq> []"
  shows "CheckForSend s = (if rt_TransmitQueue s = [] \<or> rt_Transmitting s then (None, s)
     else if ph_CanWrite s
       then (None, s\<lparr>rt_Transmitting := True, ph_Writing := True,
         ph_out := ph_out s @ [Phys_DoAsyncWrite (frame_bytes (hd (rt_TransmitQueue s)))]\<rparr>)
       else (Some InvalidStateException, s\<lparr>rt_Transmitting := True\<rparr>))"
proof (cases "rt_TransmitQueue s")
  case (Cons f fs)
  then have "1 \<le> length (frame_bytes f)" using assms by (simp add: Suc_le_eq)
  then show ?thesis using Cons by (auto simp: CheckForSend_def AsyncWrite_def handler_simps ph_CanWrite_def)
qed (simp add: CheckForSend_def handler_simps)

lemma CheckForSend_own:
  assumes "routes_ok s" and "\<not> rt_Transmitting s"
  shows "fst (CheckForSend s) = None \<or> (rt_TransmitQueue s \<noteq> [] \<and> \<not> ph_CanWrite s \<and>
      fst (CheckForSend s) = Some InvalidStateException)"
    and "routes_ok (snd (CheckForSend s))"
    and "rt_Transmitting (snd (CheckForSend s)) \<longleftrightarrow> rt_TransmitQueue s \<noteq> []"
    and "rt_TransmitQueue (snd (CheckForSend s)) = rt_TransmitQueue s"
    and "ph_Writing (snd (CheckForSend s)) \<longleftrightarrow> ph_Writing s \<or> (rt_TransmitQueue s \<noteq> [] \<and> ph_CanWrite s)"
proof -
  have "\<forall>f \<in> set (rt_TransmitQueue s). frame_bytes f \<noteq> []" using assms(1) by (simp add: routes_ok_def)
  note step = CheckForSend_step [OF this]
  have "routes_ok (s\<lparr>rt_Transmitting := True\<rparr>)" if "rt_TransmitQueue s \<noteq> []"
    using assms(1) that by (simp add: routes_ok_def)
  then show "fst (CheckForSend s) = None \<or> (rt_TransmitQueue s \<noteq> [] \<and> \<not> ph_CanWrite s \<and>
      fst (CheckForSend s) = Some InvalidStateException)" "routes_ok (snd (CheckForSend s))"
    "rt_Transmitting (snd (CheckForSend s)) \<longleftrightarrow> rt_TransmitQueue s \<noteq> []"
    "rt_TransmitQueue (snd (CheckForSend s)) = rt_TransmitQueue s"
    "ph_Writing (snd (CheckForSend s)) \<longleftrightarrow> ph_Writing s \<or> (rt_TransmitQueue s \<noteq> [] \<and> ph_CanWrite s)"
    using assms by (simp_all add: step)
qed

lemma routes_ok_popped:
  "routes_ok s \<Longrightarrow> routes_ok (s\<lparr>rt_Transmitting := False, rt_TransmitQueue := tl (rt_TransmitQueue s)\<rparr>)"
  by (cases "rt_TransmitQueue s") (auto simp: routes_ok_def GetContext_def)

interpretation router: monitored_layer router_callbacks router_J "\<lambda>xs m. length xs \<le> rcv_room (rt_Receiver (of_more m))"
proof (unfold_locales, goal_cases)
  case (5 s)
  let ?outs = "map (\<lambda>p. Context_OnLowerLayerUp (snd p)) (rt_AddressMap s)"
  obtain outs where "Router_StartRead s = (None, s\<lparr>ph_Reading := True, ph_out := outs\<rparr>)"
    using 5 Router_StartRead_step [of s] by (auto simp: router_J_at routes_ok_def ph_CanRead_def)
  then show ?case
    using 5 by (simp add: router_callbacks_def Router_OnPhysicalLayerOpenSuccess_def handler_simps callback_ok_def router_J_at)
next
  case (6 s)
  then show ?case by (simp add: router_callbacks_def handler_simps callback_ok_def router_J_at)
next
  case (7 s xs)
  have "rcv_idle (rt_Receiver s)" "length xs \<le> rcv_room (rt_Receiver s)"
    using 7 by (simp_all add: router_J_at routes_ok_def)
  then obtain rcv outs where rd: "Router_OnRead xs s = (None, s\<lparr>rt_Receiver := rcv, rt_out := outs\<rparr>)" "rcv_idle rcv"
    using Router_OnRead_step by blast
  then obtain outs2 where st: "Router_StartRead (s\<lparr>rt_Receiver := rcv, rt_out := outs\<rparr>)
      = (None, s\<lparr>rt_Receiver := rcv, rt_out := outs, ph_Reading := True, ph_out := outs2\<rparr>)"
    using Router_StartRead_step [of "s\<lparr>rt_Receiver := rcv, rt_out := outs\<rparr>"] 7 by (auto simp: ph_CanRead_def)
  have "routes_ok (s\<lparr>rt_Receiver := rcv\<rparr>)" using 7 rd(2) by (simp add: router_J_at routes_ok_def)
  then show ?case
    using 7 by (simp add: router_callbacks_def Router_OnReceive_def rd(1) st callback_ok_def router_J_at)
next
  case (8 s)
  let ?t = "s\<lparr>rt_Transmitting := False, rt_TransmitQueue := tl (rt_TransmitQueue s)\<rparr>"
  have q: "rt_Transmitting s" "rt_TransmitQueue s \<noteq> []" "routes_ok s" using 8 by (simp_all add: router_J_at)
  then have "GetContext s (frame_route (hd (rt_TransmitQueue s))) \<noteq> None" by (simp add: routes_ok_def)
  then have eq: "Handler_OnSendSuccess router_callbacks s = CheckForSend ?t"
    using q by (simp add: router_callbacks_def Router_OnSendSuccess_def handler_simps)
  note own = CheckForSend_own [OF routes_ok_popped [OF q(3)]]
  have "ph_CanWrite ?t" using 8 by (simp add: ph_CanWrite_def)
  with own have t: "fst (CheckForSend ?t) = None" "routes_ok (snd (CheckForSend ?t))"
    "rt_Transmitting (snd (CheckForSend ?t)) = ph_Writing (snd (CheckForSend ?t))"
    "ph_Writing (snd (CheckForSend ?t)) \<longleftrightarrow> rt_TransmitQueue (snd (CheckForSend ?t)) \<noteq> []"
    using 8 by auto
  have "\<forall>f \<in> set (rt_TransmitQueue ?t). frame_bytes f \<noteq> []" using routes_ok_popped [OF q(3)] by (simp add: routes_ok_def)
  from CheckForSend_step [OF this] t show ?case
    unfolding callback_ok_def eq using 8 \<open>ph_CanWrite ?t\<close>
    by (intro exI [of _ "snd (CheckForSend ?t)"]) (auto simp: router_J_at prod_eq_iff)
next
  case (9 s)
  have "routes_ok (s\<lparr>rt_Transmitting := False, rt_TransmitQueue := []\<rparr>)"
    using 9 by (simp add: router_J_at routes_ok_def GetContext_def)
  then show ?case
    using 9 by (simp add: router_callbacks_def Router_OnPhysicalLayerClose_def handler_simps callback_ok_def router_J_at)
qed (auto simp: router_J_def Let_def)

section \<open>The router as a machine\<close>

abbreviation router_inv :: "LinkLayerRouter \<Rightarrow> bool" where
  "router_inv \<equiv> layer_good router_J"

lemma router_inv_start: "router_start s \<Longrightarrow> router_inv s"
  by (auto simp: router_start_def layer_good_def monitor_inv_def own_inv_def router_J_at routes_ok_def
      new_LinkLayerRouter_def flag_defs dest: fresh_receiver_idle)

lemma router_inv_own: "router_inv s \<Longrightarrow> routes_ok s"
  by (simp add: layer_good_def own_inv_def router_J_at)

lemma router_phys_result:
  assumes "router_inv s" and "router_possible s (Router_Phys e)"
  shows "\<exists>u. monitor_handle router_callbacks e s = (if closing_twice e s then Some InvalidStateException else None, u) \<and>
    router_inv u"
  using assms by (intro router.every_event_ok) (auto simp: router_possible_def)

text \<open>Changing the bindings, then a request to the monitor.\<close>

lemma router_inv_rebound:
  assumes "router_inv s" and "routes_ok (s\<lparr>rt_AddressMap := m\<rparr>)"
  shows "router_inv (s\<lparr>rt_AddressMap := m, rt_out := outs\<rparr>)"
proof -
  have "flags_ok (pm_State s) (s\<lparr>rt_AddressMap := m, rt_out := outs\<rparr>) = flags_ok (pm_State s) s"
    by (cases "pm_State s") (simp_all add: flag_defs)
  then show ?thesis using assms by (simp add: layer_good_def monitor_inv_def own_inv_def router_J_at)
qed

lemma AddContext_result:
  assumes "router_inv s"
  shows "\<exists>u. AddContext c r s = (if GetContext s r \<noteq> None \<or> c \<in> snd ` set (rt_AddressMap s) then Some ArgumentException else None, u)
    \<and> router_inv u"
proof (cases "GetContext s r \<noteq> None \<or> c \<in> snd ` set (rt_AddressMap s)")
  case True
  then show ?thesis using assms by (auto simp: AddContext_def handler_simps)
next
  case False
  let ?m = "bind_route r c (rt_AddressMap s)"
  let ?outs = "rt_out s @ (if GetState (pm_State s) = PLS_OPEN then [Context_OnLowerLayerUp c] else [])"
  have own: "routes_ok s" by (rule router_inv_own [OF assms])
  have new: "map_of (rt_AddressMap s) r = None" using False by (simp add: GetContext_def)
  have "distinct (map snd ?m)"
    using own False new by (intro distinct_bind) (auto simp: routes_ok_def)
  then have "routes_ok (s\<lparr>rt_AddressMap := ?m\<rparr>)"
    using own sorted_bind [of "rt_AddressMap s" r c] by (auto simp: routes_ok_def GetContext_def map_of_bind)
  then have inv: "router_inv (s\<lparr>rt_AddressMap := ?m, rt_out := ?outs\<rparr>)" by (rule router_inv_rebound [OF assms])
  have "\<forall>p \<in> set (rt_AddressMap s). snd p \<noteq> c" using False by force
  then have "AddContext c r s = Monitor_Start (s\<lparr>rt_AddressMap := ?m, rt_out := ?outs\<rparr>)"
    using False by (auto simp: AddContext_def handler_simps)
  then show ?thesis using router_phys_result [OF inv, of Request_Start] False
    by (auto simp: router_possible_def closing_twice_def)
qed

lemma RemoveContext_result:
  assumes "router_inv s" and "\<forall>f \<in> set (rt_TransmitQueue s). frame_route f \<noteq> r"
  shows "router_inv (snd (RemoveContext r s)) \<and> fst (RemoveContext r s) \<noteq> Some AssertionFailed"
proof (cases "GetContext s r")
  case None
  then show ?thesis using assms by (simp add: RemoveContext_def handler_simps)
next
  case (Some c)
  let ?m = "erase_route r (rt_AddressMap s)"
  let ?outs = "rt_out s @ (if GetState (pm_State s) = PLS_OPEN then [Context_OnLowerLayerDown c] else [])"
  let ?t = "s\<lparr>rt_AddressMap := ?m, rt_out := ?outs\<rparr>"
  have own: "routes_ok s" by (rule router_inv_own [OF assms(1)])
  have "sorted (map fst ?m)" "distinct (map fst ?m)" "distinct (map snd ?m)"
    using own by (auto simp: routes_ok_def erase_route_def sorted_filter distinct_map_filter)
  then have "routes_ok (s\<lparr>rt_AddressMap := ?m\<rparr>)"
    using own assms(2) by (auto simp: routes_ok_def GetContext_def map_of_erase)
  then have inv: "router_inv ?t" by (rule router_inv_rebound [OF assms(1)])
  have "RemoveContext r s = (if ?m = [] then Monitor_Suspend router_callbacks ?t else (None, ?t))"
    using Some by (auto simp: RemoveContext_def handler_simps)
  then show ?thesis using router_phys_result [OF inv, of Request_Suspend] inv
    by (auto simp: router_possible_def split: if_splits)
qed

lemma Transmit_result:
  assumes "router_inv s" and "frame_bytes f \<noteq> []"
  shows "\<exists>u. Router_Transmit f s =
    (if GetContext s (frame_route f) = None then Some ArgumentException
     else if \<not> ph_Open s \<or> (ph_Closing s \<and> \<not> rt_Transmitting s) then Some InvalidStateException else None, u) \<and> router_inv u"
proof (cases "GetContext s (frame_route f) = None \<or> \<not> ph_Open s")
  case True
  have "pm_IsLowerLayerUp s = ph_Open s" using assms(1) by (simp add: layer_good_def monitor_inv_def)
  then show ?thesis using True assms(1) by (auto simp: Router_Transmit_def handler_simps)
next
  case False
  have up: "pm_IsLowerLayerUp s" using assms(1) False by (simp add: layer_good_def monitor_inv_def)
  let ?t = "s\<lparr>rt_TransmitQueue := rt_TransmitQueue s @ [f]\<rparr>"
  have eq: "Router_Transmit f s = CheckForSend ?t" using False up by (auto simp: Router_Transmit_def handler_simps)
  have own: "routes_ok ?t" using router_inv_own [OF assms(1)] assms(2) False by (auto simp: routes_ok_def)
  then have "\<forall>f \<in> set (rt_TransmitQueue ?t). frame_bytes f \<noteq> []" by (simp add: routes_ok_def)
  note step = CheckForSend_step [OF this]
  have w: "ph_Closing s \<or> rt_Transmitting s = ph_Writing s"
    using assms(1) False by (auto simp: layer_good_def own_inv_def router_J_at)
  have kept: "router_inv v" if "routes_ok v" "ph_Open v" "ph_Closing v = ph_Closing s" "ph_Reading v = ph_Reading s"
      "ph_Writing v \<longleftrightarrow> ph_Writing s \<or> \<not> ph_Closing s" "ph_Opening v = ph_Opening s" "pm_State v = pm_State s"
      "pm_OpenTimer v = pm_OpenTimer s" "pm_IsLowerLayerUp v" "\<not> ph_Closing s \<longrightarrow> rt_Transmitting v"
      "rt_TransmitQueue v \<noteq> []" for v
    using that assms(1) False
    by (cases "pm_State s") (auto simp: layer_good_def monitor_inv_def own_inv_def router_J_at flag_defs)
  have tr: "routes_ok (?t\<lparr>rt_Transmitting := True\<rparr>)" using own by (simp add: routes_ok_def)
  show ?thesis
    unfolding eq step using False own up w tr
    by (auto simp: ph_CanWrite_def intro!: kept)
qed

lemma router_step:
  assumes "router_inv s" and "router_possible s e"
  shows "router_inv (snd (router_handle e s)) \<and> \<not> internal_error (fst (router_handle e s))"
proof (cases e)
  case (Router_Phys x)
  then show ?thesis using router_phys_result [OF assms(1), of x] assms(2)
    by (auto simp: internal_error_def split: if_splits)
next
  case (Router_Add c r)
  then show ?thesis using AddContext_result [OF assms(1), of c r] by (auto simp: internal_error_def split: if_splits)
next
  case (Router_Remove r)
  then show ?thesis using RemoveContext_result [OF assms(1), of r] assms(2) by (auto simp: internal_error_def router_possible_def)
next
  case (Router_Send f)
  then show ?thesis using Transmit_result [OF assms(1), of f] assms(2)
    by (auto simp: internal_error_def router_possible_def split: if_splits)
qed

interpretation router_machine: assertion_free_machine router_handle router_possible router_start router_inv
  by unfold_locales (auto simp: router_inv_start dest: router_step)

section \<open>The order of writing\<close>

primrec writes :: "PhysOut list \<Rightarrow> bytes list" where
  "writes [] = []"
| "writes (c # cs) = (case c of Phys_DoAsyncWrite xs \<Rightarrow> xs # writes cs | _ \<Rightarrow> writes cs)"

lemma writes_append [simp]: "writes (xs @ ys) = writes xs @ writes ys"
  by (induction xs) (auto split: PhysOut.split)

text \<open>What was handed to the physical layer, followed by what still waits its turn.\<close>

definition line_bytes :: "LinkLayerRouter \<Rightarrow> bytes list" where
  "line_bytes s = writes (ph_out s) @
     map frame_bytes (if rt_Transmitting s then tl (rt_TransmitQueue s) else rt_TransmitQueue s)"

definition line_kept :: "bytes list \<Rightarrow> LinkLayerRouter \<Rightarrow> bool" where
  "line_kept w s \<longleftrightarrow> (ph_Open s \<longrightarrow> line_bytes s = w)"

lemma line_kept_actions [keeps_intros]:
  "keeps (line_kept w) (ChangeState st)" "keeps (line_kept w) AsyncOpen" "keeps (line_kept w) StartClose"
  "keeps (line_kept w) (AsyncRead n)" "keeps (line_kept w) StartOpenTimer" "keeps (line_kept w) CancelOpenTimer"
  by (auto simp: ChangeState_def AsyncOpen_def StartClose_def AsyncRead_def StartOpenTimer_def CancelOpenTimer_def handler_simps
      line_kept_def line_bytes_def intro!: keeps_intros)

lemma keeps_ignored [keeps_intros]:
  "keeps P IgnoresStart_OnStartRequest" "keeps P IgnoresStartOne_OnStartOneRequest" "keeps P IgnoresClose_OnCloseRequest"
  "keeps P IgnoresSuspend_OnSuspendRequest" "keeps P IgnoresShutdown_OnShutdownRequest"
  "keeps P NotOpening_OnOpenFailure" "keeps P NotWaitingForTimer_OnOpenTimeout" "keeps P NotOpen_OnLayerClose"
  "keeps P ExceptsOnLayerOpen_OnLayerOpen"
  by (simp_all only: IgnoresStart_OnStartRequest_def IgnoresStartOne_OnStartOneRequest_def IgnoresClose_OnCloseRequest_def
      IgnoresSuspend_OnSuspendRequest_def IgnoresShutdown_OnShutdownRequest_def NotOpening_OnOpenFailure_def
      NotWaitingForTimer_OnOpenTimeout_def NotOpen_OnLayerClose_def ExceptsOnLayerOpen_OnLayerOpen_def keeps_leaf)

lemma keeps_pair: "keeps P f \<Longrightarrow> keeps P g \<Longrightarrow> keeps P (in_order [f, g])"
  by (rule keeps_in_order) auto

lemma line_kept_bases [keeps_intros]:
  "keeps (line_kept w) MonitorStateSuspendedBase_OnStartRequest" "keeps (line_kept w) MonitorStateSuspendedBase_OnStartOneRequest"
  "keeps (line_kept w) OpenFailureCausesWait_OnOpenFailure" "keeps (line_kept w) (OpenFailureGoesToState_OnOpenFailure st)"
  "keeps (line_kept w) MonitorStateWaitingBase_OnSuspendRequest" "keeps (line_kept w) MonitorStateWaitingBase_OnShutdownRequest"
  unfolding MonitorStateSuspendedBase_OnStartRequest_def MonitorStateSuspendedBase_OnStartOneRequest_def
    OpenFailureCausesWait_OnOpenFailure_def OpenFailureGoesToState_OnOpenFailure_def
    MonitorStateWaitingBase_OnSuspendRequest_def MonitorStateWaitingBase_OnShutdownRequest_def
  by (intro keeps_pair line_kept_actions)+

lemma line_kept_states [keeps_intros]:
  "keeps (line_kept w) (OnStartRequest st)" "keeps (line_kept w) (OnStartOneRequest st)"
  "keeps (line_kept w) (OnOpenTimeout st)" "keeps (line_kept w) (State_OnOpenFailure st)"
  by (cases st; simp; intro keeps_ignored keeps_pair line_kept_actions line_kept_bases)+

lemma line_kept_OnLayer [keeps_intros]:
  "keeps (line_kept w) (OnLayerClose st)" "keeps (line_kept w) (OnLayerOpen st)"
  unfolding StartsOnClose_OnLayerClose_def Monitor_Start_def
  by (cases st; simp add: StartsOnClose_OnLayerClose_def Monitor_Start_def;
      intro keeps_ignored keeps_pair keeps_branch line_kept_actions line_kept_states)+

lemma router_callbacks_simps [simp]:
  "OnPhysicalLayerOpenSuccessCallback router_callbacks = Router_OnPhysicalLayerOpenSuccess"
  "OnPhysicalLayerOpenFailureCallback router_callbacks = skip"
  "OnPhysicalLayerCloseCallback router_callbacks = Router_OnPhysicalLayerClose"
  "Handler_OnReceive router_callbacks = Router_OnReceive"
  "Handler_OnSendSuccess router_callbacks = Router_OnSendSuccess"
  by (simp_all add: router_callbacks_def)

text \<open>Handlers that touch neither the queue nor the open flag also leave a closed layer closed.\<close>

lemma closed_kept:
  assumes "\<And>w. keeps (line_kept w) h"
  shows "keeps (\<lambda>s :: LinkLayerRouter. \<not> ph_Open s) h"
  unfolding keeps_def
proof (intro allI impI)
  fix s :: LinkLayerRouter
  assume "\<not> ph_Open s"
  then have "line_kept [] s" "line_kept [[]] s" by (simp_all add: line_kept_def)
  then have "line_kept [] (snd (h s))" "line_kept [[]] (snd (h s))" using assms by (auto dest: keepsD)
  then show "\<not> ph_Open (snd (h s))" by (auto simp: line_kept_def)
qed

lemma closed_kept_down: "keeps (\<lambda>s :: LinkLayerRouter. \<not> ph_Open s) (Handler_OnLowerLayerDown router_callbacks)"
proof -
  have "keeps (\<lambda>s :: LinkLayerRouter. \<not> ph_Open s) Router_OnPhysicalLayerClose"
    by (auto simp: keeps_def Router_OnPhysicalLayerClose_def handler_simps)
  moreover have "keeps (\<lambda>s :: LinkLayerRouter. \<not> ph_Open s) (OnLayerClose st)" for st
    by (rule closed_kept) (rule line_kept_OnLayer)
  ultimately show ?thesis
    by (auto simp: Handler_OnLowerLayerDown_def intro!: keeps_in_order keeps_leaf keeps_modify keeps_branch)
qed

lemma line_kept_close [keeps_intros]:
  "keeps (line_kept w) (if_CheckForClose (Handler_OnLowerLayerDown router_callbacks))"
  "keeps (line_kept w) (AsyncClose router_callbacks)"
proof -
  show c: "keeps (line_kept w) (if_CheckForClose (Handler_OnLowerLayerDown router_callbacks))"
    using keepsD [OF closed_kept_down]
    by (auto simp: keeps_def if_CheckForClose_step line_kept_def)
  show "keeps (line_kept w) (AsyncClose router_callbacks)"
    unfolding AsyncClose_def by (intro keeps_pair line_kept_actions c)
qed

lemma line_kept_requests [keeps_intros]:
  "keeps (line_kept w) (OnCloseRequest router_callbacks st)" "keeps (line_kept w) (OnSuspendRequest router_callbacks st)"
  "keeps (line_kept w) (OnShutdownRequest router_callbacks st)"
  by (cases st; simp add: MonitorStateOpeningBase_OnShutdownRequest_def MonitorStateOpeningBase_OnSuspendRequest_def;
      intro keeps_ignored keeps_pair line_kept_actions line_kept_bases line_kept_close)+

lemma line_kept_frames [keeps_intros]: "keeps (line_kept w) (Router_OnRead xs)" "keeps (line_kept w) Router_StartRead"
proof -
  show "keeps (line_kept w) (Router_OnRead xs)"
    by (auto simp: keeps_def Router_OnRead_def route_frames line_kept_def line_bytes_def split: prod.split)
  show "keeps (line_kept w) Router_StartRead"
    unfolding Router_StartRead_def by (intro keeps_branch keeps_leaf line_kept_actions)
qed

lemma line_kept_other_events:
  "keeps (line_kept w) Monitor_Start" "keeps (line_kept w) Monitor_StartOne" "keeps (line_kept w) (Monitor_Close router_callbacks)"
  "keeps (line_kept w) (Monitor_Suspend router_callbacks)" "keeps (line_kept w) (Monitor_Shutdown router_callbacks)"
  "keeps (line_kept w) OnOpenTimerExpiration" "keeps (line_kept w) DoFinalShutdown"
  "keeps (line_kept w) (OnReadCallback router_callbacks arErr xs)"
  "keeps (line_kept w) (Handler_OnLowerLayerUp router_callbacks)" "keeps (line_kept w) (Handler_OnOpenFailure router_callbacks)"
  by (auto simp: Monitor_Start_def Monitor_StartOne_def Monitor_Close_def Monitor_Suspend_def Monitor_Shutdown_def
      OnOpenTimerExpiration_def DoFinalShutdown_def OnReadCallback_def Router_OnReceive_def Handler_OnLowerLayerUp_def
      Handler_OnOpenFailure_def Router_OnPhysicalLayerOpenSuccess_def rt_emit_def
      line_kept_def line_bytes_def intro!: keeps_intros)

lemma line_kept_open_done:
  assumes "line_bytes s = w" and "ph_Open (snd (OnOpenCallback router_callbacks arErr s))"
  shows "line_bytes (snd (OnOpenCallback router_callbacks arErr s)) = w"
proof -
  have opened: "line_kept w (snd (in_order [modify (\<lambda>s. s\<lparr>ph_Open := True\<rparr>), ph_emit Phys_DoOpenSuccess,
      Handler_OnLowerLayerUp router_callbacks] t))" if "line_bytes t = w" for t
  proof -
    have "line_bytes (t\<lparr>ph_Open := True, ph_out := ph_out t @ [Phys_DoOpenSuccess]\<rparr>) = line_bytes t"
      by (simp add: line_bytes_def)
    then have "line_kept w (t\<lparr>ph_Open := True, ph_out := ph_out t @ [Phys_DoOpenSuccess]\<rparr>)"
      using that by (simp add: line_kept_def)
    then show ?thesis using keepsD [OF line_kept_other_events(9)] by (simp add: handler_simps)
  qed
  have failed: "keeps (line_kept w) (in_order [if_CheckForClose skip, ph_emit c, Handler_OnOpenFailure router_callbacks])"
    if "c = Phys_DoOpenFailure \<or> c = Phys_DoClose" for c
  proof -
    have "keeps (line_kept w) (if_CheckForClose skip)"
      by (auto simp: keeps_def if_CheckForClose_step handler_simps line_kept_def line_bytes_def)
    moreover have "keeps (line_kept w) (ph_emit c)"
      using that by (auto simp: ph_emit_def line_kept_def line_bytes_def intro!: keeps_modify)
    ultimately show ?thesis using line_kept_other_events(10) by (intro keeps_in_order) auto
  qed
  let ?t = "s\<lparr>ph_Opening := False, ph_out := ph_out s @ [Phys_DoOpenCallback]\<rparr>"
  have "line_bytes ?t = line_bytes s" by (simp add: line_bytes_def)
  then have t: "line_bytes ?t = w" "line_kept w ?t" using assms(1) by (simp_all add: line_kept_def)
  have "line_kept w (snd (OnOpenCallback router_callbacks arErr s))"
  proof (cases "ph_Opening s")
    case False
    then show ?thesis using assms(1) by (simp add: OnOpenCallback_def handler_simps line_kept_def)
  next
    case True
    then have "OnOpenCallback router_callbacks arErr s =
      (if arErr then in_order [if_CheckForClose skip, ph_emit Phys_DoOpenFailure, Handler_OnOpenFailure router_callbacks] ?t
       else if ph_Closing s then in_order [if_CheckForClose skip, ph_emit Phys_DoClose, Handler_OnOpenFailure router_callbacks] ?t
       else in_order [modify (\<lambda>s. s\<lparr>ph_Open := True\<rparr>), ph_emit Phys_DoOpenSuccess, Handler_OnLowerLayerUp router_callbacks] ?t)"
      by (simp add: OnOpenCallback_def handler_simps)
    then show ?thesis using keepsD [OF failed t(2)] opened [OF t(1)] by auto
  qed
  then show ?thesis using assms(2) by (simp add: line_kept_def)
qed

text \<open>A successful write moves the queue on; a failed one closes.\<close>

lemma line_kept_write_done:
  assumes "router_inv s" and "ph_Writing s" and "line_bytes s = w"
  shows "line_kept w (snd (OnWriteCallback router_callbacks arErr s))"
proof -
  let ?r = "s\<lparr>ph_Writing := False\<rparr>"
  let ?mid = "if arErr then if_else ph_CanClose StartClose skip else if_else ph_Closing skip (Handler_OnSendSuccess router_callbacks)"
  have eq: "OnWriteCallback router_callbacks arErr s = in_order [?mid, if_CheckForClose (Handler_OnLowerLayerDown router_callbacks)] ?r"
    using assms(2) by (simp add: OnWriteCallback_def handler_simps)
  have "line_bytes ?r = line_bytes s" by (simp add: line_bytes_def)
  then have r: "line_kept w ?r" "line_bytes ?r = w" using assms(3) by (simp_all add: line_kept_def)
  have "line_kept w (snd (?mid ?r))"
  proof (cases "arErr \<or> ph_Closing s")
    case True
    then show ?thesis using keepsD [OF line_kept_actions(3) r(1)] r(1) by (auto simp: handler_simps)
  next
    case False
    have op: "ph_Open s" using router.open_state(1) [OF assms(1)] assms(2) by blast
    have own: "rt_Transmitting s" "rt_TransmitQueue s \<noteq> []" "routes_ok s"
      using assms(1,2) False op by (auto simp: layer_good_def own_inv_def router_J_at)
    then have "GetContext s (frame_route (hd (rt_TransmitQueue s))) \<noteq> None" by (simp add: routes_ok_def)
    moreover have "GetContext ?r = GetContext s" by (simp add: GetContext_def fun_eq_iff)
    ultimately have mid: "?mid ?r = CheckForSend (?r\<lparr>rt_Transmitting := False, rt_TransmitQueue := tl (rt_TransmitQueue s)\<rparr>)"
      using False own by (simp add: handler_simps Router_OnSendSuccess_def)
    let ?t = "?r\<lparr>rt_Transmitting := False, rt_TransmitQueue := tl (rt_TransmitQueue s)\<rparr>"
    have "\<forall>f \<in> set (rt_TransmitQueue ?t). frame_bytes f \<noteq> []"
      using own(3) by (cases "rt_TransmitQueue s") (auto simp: routes_ok_def)
    note step = CheckForSend_step [OF this]
    have w: "writes (ph_out s) @ map frame_bytes (tl (rt_TransmitQueue s)) = w" using assms(3) own(1) by (simp add: line_bytes_def)
    show ?thesis
    proof (cases "tl (rt_TransmitQueue s)")
      case Nil
      then show ?thesis unfolding mid step using w by (simp add: line_kept_def line_bytes_def)
    next
      case (Cons g gs)
      then show ?thesis unfolding mid step using w op False by (simp add: line_kept_def line_bytes_def ph_CanWrite_def)
    qed
  qed
  moreover obtain e t where mid: "?mid ?r = (e, t)" by (cases "?mid ?r")
  ultimately have "line_kept w t" by simp
  then show ?thesis
    unfolding eq in_order_more mid using keepsD [OF line_kept_close(1), of w t] by (cases e) simp_all
qed

lemma line_kept_phys:
  assumes "router_inv s" and "router_possible s (Router_Phys e)" and "ph_Open (snd (monitor_handle router_callbacks e s))"
  shows "line_bytes (snd (monitor_handle router_callbacks e s)) = line_bytes s"
proof -
  have kept: "line_kept (line_bytes s) (snd (h s))" if "keeps (line_kept (line_bytes s)) h" for h
    using keepsD [OF that] by (simp add: line_kept_def)
  have "line_kept (line_bytes s) (snd (monitor_handle router_callbacks e s)) \<or> (\<exists>b. e = Open_Done b)"
    using line_kept_write_done [OF assms(1) _ refl] assms(2)
    by (cases e) (auto simp: router_possible_def intro: kept line_kept_other_events)
  then show ?thesis using assms(3) line_kept_open_done [OF refl] by (auto simp: line_kept_def)
qed

lemma line_bytes_rebound: "line_bytes (s\<lparr>rt_AddressMap := m, rt_out := outs\<rparr>) = line_bytes s"
  by (simp add: line_bytes_def)

lemma line_kept_contexts:
  "keeps (line_kept w) (AddContext c r)" "keeps (line_kept w) (RemoveContext r)"
proof -
  have emit: "keeps (line_kept w) (rt_emit cs)" for cs
    by (auto simp: rt_emit_def line_kept_def line_bytes_def intro!: keeps_modify)
  have m: "keeps (line_kept w) (modify (\<lambda>s. s\<lparr>rt_AddressMap := g s\<rparr>))" for g
    by (auto simp: line_kept_def line_bytes_def intro!: keeps_modify)
  show "keeps (line_kept w) (AddContext c r)"
    unfolding AddContext_def
    by (intro keeps_in_order) (auto intro: emit m keeps_leaf keeps_branch line_kept_other_events)
  have "keeps (line_kept w) (case x of None \<Rightarrow> throw ArgumentException
     | Some pContext \<Rightarrow> in_order
         [modify (\<lambda>s. s\<lparr>rt_AddressMap := erase_route r (rt_AddressMap s)\<rparr>),
          if_else (\<lambda>s. GetState (pm_State s) = PLS_OPEN) (rt_emit [Context_OnLowerLayerDown pContext]) skip,
          if_else (\<lambda>s. rt_AddressMap s = []) (Monitor_Suspend router_callbacks) skip])" for x
    by (cases x) (auto intro!: keeps_in_order keeps_leaf keeps_branch emit m line_kept_other_events)
  then show "keeps (line_kept w) (RemoveContext r)"
    unfolding RemoveContext_def by (intro keeps_branch)
qed

lemma line_bytes_send:
  assumes "router_inv s" and "frame_bytes f \<noteq> []" and "Router_Transmit f s = (None, t)" and "\<not> ph_Closing t"
  shows "line_bytes t = line_bytes s @ [frame_bytes f]"
proof -
  let ?q = "s\<lparr>rt_TransmitQueue := rt_TransmitQueue s @ [f]\<rparr>"
  have ctx: "GetContext s (frame_route f) \<noteq> None" "pm_IsLowerLayerUp s"
    using assms(3) by (auto simp: Router_Transmit_def handler_simps split: if_splits)
  then have eq: "CheckForSend ?q = (None, t)" using assms(3) by (auto simp: Router_Transmit_def handler_simps)
  have own: "routes_ok ?q" using router_inv_own [OF assms(1)] assms(2) ctx by (auto simp: routes_ok_def)
  then have "\<forall>f \<in> set (rt_TransmitQueue ?q). frame_bytes f \<noteq> []" by (simp add: routes_ok_def)
  note step = CheckForSend_step [OF this]
  have op: "ph_Open s" using assms(1) ctx(2) by (simp add: layer_good_def monitor_inv_def)
  have cl: "\<not> ph_Closing s" using eq assms(4) unfolding step by (auto split: if_splits)
  have tr: "rt_Transmitting s \<longleftrightarrow> rt_TransmitQueue s \<noteq> []"
    using assms(1) op cl by (auto simp: layer_good_def own_inv_def router_J_at)
  show ?thesis
  proof (cases "rt_Transmitting s")
    case True
    then have t: "t = ?q" using eq unfolding step by simp
    have "rt_TransmitQueue s \<noteq> []" using True tr by simp
    then show ?thesis using True by (simp add: t line_bytes_def)
  next
    case False
    then have q: "rt_TransmitQueue s = []" using tr by simp
    then have "t = s\<lparr>rt_TransmitQueue := [f], rt_Transmitting := True, ph_Writing := True,
        ph_out := ph_out s @ [Phys_DoAsyncWrite (frame_bytes f)]\<rparr>"
      using eq False unfolding step by (auto split: if_splits)
    then show ?thesis using False q by (simp add: line_bytes_def)
  qed
qed

section \<open>Properties\<close>


text \<open>Two contexts, the line open, and a read pending.\<close>

definition example_router :: LinkLayerRouter where
  "example_router = run router_handle
     [Router_Add 0 (LinkRoute 1024 1), Router_Add 1 (LinkRoute 1025 1), Router_Phys (Open_Done False)]
     (new_LinkLayerRouter 5000 example_receiver)"

definition example_frame :: LinkFrame where
  "example_frame = snd (FormatUnconfirmedUserData True 1024 1 [7] 1 blank_frame)"

lemma example_frame_bytes: "frame_bytes example_frame \<noteq> []" "frame_route example_frame = LinkRoute 1024 1"
proof -
  have "carries example_frame (formatted_header 1 True False False FC_PRI_UNCONFIRMED_USER_DATA 1024 1) [7]"
    using FormatUnconfirmedUserData_carries(2) [OF frame_ok_blank, of 1 "[7]" True 1024 1] by (simp add: example_frame_def)
  then show "frame_bytes example_frame \<noteq> []" "frame_route example_frame = LinkRoute 1024 1"
    by (auto simp: carries_def frame_route_def formatted_header_def header_bytes_def sealed_def header_block_def)
qed

lemma example_receiver_room: "NumWriteBytes (lr_buffer example_receiver) = BUFFER_SIZE"
  by (simp add: example_receiver_def new_LinkLayerReceiver_def new_ShiftableBuffer_def NumWriteBytes_def)

lemma example_router_fields:
  "ph_Open example_router" "\<not> ph_Opening example_router" "ph_Reading example_router" "\<not> ph_Writing example_router"
  "\<not> ph_Closing example_router" "pm_State example_router = MonitorStateOpen" "pm_IsLowerLayerUp example_router"
  "rt_AddressMap example_router = [(LinkRoute 1024 1, 0), (LinkRoute 1025 1, 1)]" "rt_TransmitQueue example_router = []"
  "rt_Transmitting example_router = False" "rt_Receiver example_router = example_receiver"
  "writes (ph_out example_router) = []"
  by (simp_all add: example_router_def new_LinkLayerRouter_def AddContext_def GetContext_def Monitor_Start_def monitor_actions
      handler_simps monitor_steps flag_defs OnOpenCallback_def Handler_OnLowerLayerUp_def
      Router_OnPhysicalLayerOpenSuccess_def Router_StartRead_def AsyncRead_def example_receiver_room BUFFER_SIZE_def
      state_notes_def less_LinkRoute_def LessThan_def)

lemma example_router_reachable: "reachable router_handle router_possible router_start example_router"
  unfolding example_router_def
proof (rule router_machine.reachable_run)
  show "reachable router_handle router_possible router_start (new_LinkLayerRouter 5000 example_receiver)"
    unfolding router_start_def by (rule reachable_start) (use example_receiver_fresh in blast)
  show "feasible router_possible router_handle
     [Router_Add 0 (LinkRoute 1024 1), Router_Add 1 (LinkRoute 1025 1), Router_Phys (Open_Done False)]
     (new_LinkLayerRouter 5000 example_receiver)"
    by (simp add: router_possible_def new_LinkLayerRouter_def AddContext_def GetContext_def Monitor_Start_def monitor_actions
      handler_simps monitor_steps flag_defs)
qed

lemma example_send:
  "Router_Transmit example_frame example_router = (None, example_router
      \<lparr>rt_TransmitQueue := [example_frame], rt_Transmitting := True, ph_Writing := True,
       ph_out := ph_out example_router @ [Phys_DoAsyncWrite (frame_bytes example_frame)]\<rparr>)"
  using example_router_fields example_frame_bytes
  by (simp add: Router_Transmit_def CheckForSend_def AsyncWrite_def handler_simps ph_CanWrite_def GetContext_def)


text \<open>While the layer stays open the frames go to the physical layer in the order the router accepted
  them: an event adds to the frames written and waiting exactly the frame it accepts, at the end, and
  no other event loses, repeats or reorders one.\<close>

theorem frames_written_in_order:
  assumes "reachable router_handle router_possible router_start s" and "router_possible s e"
    and "router_handle e s = (r, t)" and "ph_Open t" and "\<not> ph_Closing t"
  shows "line_bytes t = line_bytes s @ (case e of Router_Send f \<Rightarrow> if r = None then [frame_bytes f] else [] | _ \<Rightarrow> [])"
proof -
  have inv: "router_inv s" by (rule router_machine.reachable_inv [OF assms(1)])
  show ?thesis
  proof (cases e)
    case (Router_Phys x)
    then show ?thesis using line_kept_phys [OF inv, of x] assms(2-4) by simp
  next
    case (Router_Add c k)
    have "line_kept (line_bytes s) s" by (simp add: line_kept_def)
    from keepsD [OF line_kept_contexts(1) this, of c k] show ?thesis
      using assms(3,4) by (simp add: line_kept_def Router_Add)
  next
    case (Router_Remove k)
    have "line_kept (line_bytes s) s" by (simp add: line_kept_def)
    from keepsD [OF line_kept_contexts(2) this, of k] show ?thesis
      using assms(3,4) by (simp add: line_kept_def Router_Remove)
  next
    case (Router_Send f)
    have ne: "frame_bytes f \<noteq> []" using assms(2) by (simp add: Router_Send router_possible_def)
    show ?thesis
    proof (cases r)
      case None
      then show ?thesis using line_bytes_send [OF inv ne _ assms(5)] assms(3) by (simp add: Router_Send)
    next
      case (Some x)
      obtain u where u: "Router_Transmit f s =
        (if GetContext s (frame_route f) = None then Some ArgumentException
         else if \<not> ph_Open s \<or> (ph_Closing s \<and> \<not> rt_Transmitting s) then Some InvalidStateException else None, u)"
        using Transmit_result [OF inv ne] by blast
      have "t = s"
        using assms(3-5) u Some
        by (auto simp: Router_Send Router_Transmit_def CheckForSend_def AsyncWrite_def handler_simps ph_CanWrite_def split: if_splits)
      then show ?thesis using Some by (simp add: Router_Send)
    qed
  qed
qed

theorem frames_written_in_order_witness:
  "line_bytes (snd (router_handle (Router_Send example_frame) example_router)) = [frame_bytes example_frame]"
proof -
  have "router_possible example_router (Router_Send example_frame)" by (simp add: router_possible_def example_frame_bytes)
  from frames_written_in_order [OF example_router_reachable this, of None] show ?thesis
    by (simp add: example_send example_router_fields line_bytes_def)
qed

text \<open>C28: The frames found in the bytes of a completed read are passed on in order, each to the one context
  bound to its source and destination addresses and frames of unknown routes to none, and the next read
  is started.\<close>

theorem received_frames_routed:
  assumes "reachable router_handle router_possible router_start s" and "ph_Reading s" and "\<not> ph_Closing s"
    and "length xs \<le> rcv_room (rt_Receiver s)"
  defines "t \<equiv> snd (router_handle (Router_Phys (Read_Done False xs)) s)"
  shows "rt_out t = rt_out s @ concat (map (\<lambda>c. case map_of (rt_AddressMap s) (LinkRoute (src c) (dest c)) of
      Some p \<Rightarrow> [Context_OnFrame p c] | None \<Rightarrow> []) (fst (decode (stream (rt_Receiver s) @ xs))))
    \<and> resync (stream (rt_Receiver t)) = snd (decode (stream (rt_Receiver s) @ xs)) \<and> ph_Reading t"
proof -
  have inv: "router_inv s" by (rule router_machine.reachable_inv [OF assms(1)])
  then have idle: "rcv_idle (rt_Receiver s)" using router_inv_own by (auto simp: routes_ok_def)
  let ?r = "s\<lparr>ph_Reading := False\<rparr>"
  have same: "routed ?r = routed s" by (simp add: routed_def GetDestination_def GetContext_def fun_eq_iff)
  obtain rcv where rd: "Router_OnRead xs ?r = (None, ?r\<lparr>rt_Receiver := rcv, rt_out := rt_out s @
      concat (map (routed s) (fst (decode (stream (rt_Receiver s) @ xs))))\<rparr>)" "rcv_idle rcv"
      "resync (stream rcv) = snd (decode (stream (rt_Receiver s) @ xs))"
    using Router_OnRead_step [of ?r xs] idle assms(4) by (auto simp: same)
  let ?u = "?r\<lparr>rt_Receiver := rcv, rt_out := rt_out s @ concat (map (routed s) (fst (decode (stream (rt_Receiver s) @ xs))))\<rparr>"
  have "ph_Open s" using router.open_state(1) [OF inv] assms(2) by blast
  then obtain outs where st: "Router_StartRead ?u = (None, ?u\<lparr>ph_Reading := True, ph_out := outs\<rparr>)"
    using Router_StartRead_step [of ?u] rd(2) assms(3) by (auto simp: ph_CanRead_def)
  have "router_handle (Router_Phys (Read_Done False xs)) s = (None, ?u\<lparr>ph_Reading := True, ph_out := outs\<rparr>)"
    using assms(2,3) rd(1) st by (simp add: OnReadCallback_def handler_simps Router_OnReceive_def if_CheckForClose_step)
  moreover have "routed s = (\<lambda>c. case map_of (rt_AddressMap s) (LinkRoute (src c) (dest c)) of
      Some p \<Rightarrow> [Context_OnFrame p c] | None \<Rightarrow> [])"
    by (simp add: routed_def GetDestination_def GetContext_def fun_eq_iff)
  ultimately show ?thesis using rd(3) by (simp add: t_def)
qed

theorem received_frames_routed_witness:
  "ph_Reading (snd (router_handle (Router_Phys (Read_Done False [5, 0x64])) example_router))"
proof -
  have "4673 \<le> rcv_room example_receiver"
    using fresh_receiver_idle [OF example_receiver_fresh] rcv_room_bound by blast
  then have "length [5, 0x64 :: byte] \<le> rcv_room (rt_Receiver example_router)" by (simp add: example_router_fields)
  from received_frames_routed [OF example_router_reachable example_router_fields(3,5) this] show ?thesis by blast
qed

text \<open>A request to close, suspend or shut down throws exactly when the layer is already closing itself
  after an error and still waits for a pending operation; every other request and every completion of
  an operation of the physical layer returns normally.\<close>

theorem monitor_throws_iff_closing_itself:
  assumes "reachable router_handle router_possible router_start s" and "router_possible s (Router_Phys e)"
  shows "fst (router_handle (Router_Phys e) s) =
    (if (e = Request_Close \<or> e = Request_Suspend \<or> e = Request_Shutdown) \<and> ph_Closing s \<and>
        (pm_State s = MonitorStateOpen \<or> pm_State s = MonitorStateOpenOne)
     then Some InvalidStateException else None)"
proof -
  have "router_inv s" by (rule router_machine.reachable_inv [OF assms(1)])
  from router_phys_result [OF this assms(2)] show ?thesis by (auto simp: closing_twice_def)
qed

text \<open>A frame is being written, the read fails, and then the user closes.\<close>

theorem monitor_throws_iff_closing_itself_witness:
  "fst (router_handle (Router_Phys Request_Close)
     (run router_handle [Router_Send example_frame, Router_Phys (Read_Done True [])] example_router)) = Some InvalidStateException"
proof -
  let ?es = "[Router_Send example_frame, Router_Phys (Read_Done True [])]"
  let ?s = "run router_handle ?es example_router"
  have s: "ph_Closing ?s" "pm_State ?s = MonitorStateOpen"
    using example_router_fields
    by (simp_all add: example_send OnReadCallback_def handler_simps ph_CanClose_def StartClose_step if_CheckForClose_step ph_CallbacksPending_def)
  have "feasible router_possible router_handle ?es example_router"
    using example_router_fields by (simp add: router_possible_def example_frame_bytes example_send)
  then have "reachable router_handle router_possible router_start ?s"
    by (rule router_machine.reachable_run [OF example_router_reachable])
  from monitor_throws_iff_closing_itself [OF this, of Request_Close] show ?thesis
    using s by (simp add: router_possible_def)
qed

text \<open>Removing a context while its frame is being written, with another context still bound, succeeds;
  but the completion of that write then fails an assertion, which ends the program: the queue keeps
  frames of a route that no longer exists.\<close>

theorem removing_busy_context_breaks_router:
  assumes "reachable router_handle router_possible router_start s"
    and "ph_Open s" and "\<not> ph_Closing s" and "ph_Writing s" and "r = frame_route (hd (rt_TransmitQueue s))"
    and "p \<in> set (rt_AddressMap s)" and "fst p \<noteq> r"
  shows "fst (router_handle (Router_Remove r) s) = None
    \<and> fst (router_handle (Router_Phys (Write_Done False)) (snd (router_handle (Router_Remove r) s))) = Some AssertionFailed"
proof -
  have inv: "router_inv s" by (rule router_machine.reachable_inv [OF assms(1)])
  have q: "rt_Transmitting s" "rt_TransmitQueue s \<noteq> []" "routes_ok s"
    using inv assms(2-4) by (auto simp: layer_good_def own_inv_def router_J_at)
  then have "\<forall>f \<in> set (rt_TransmitQueue s). GetContext s (frame_route f) \<noteq> None"
    by (auto simp: routes_ok_def)
  from bspec [OF this hd_in_set [OF q(2)]] obtain c where c: "GetContext s r = Some c" using assms(5) by auto
  let ?outs = "rt_out s @ (if GetState (pm_State s) = PLS_OPEN then [Context_OnLowerLayerDown c] else [])"
  let ?t = "s\<lparr>rt_AddressMap := erase_route r (rt_AddressMap s), rt_out := ?outs\<rparr>"
  have ne: "erase_route r (rt_AddressMap s) \<noteq> []"
    using assms(6,7) by (auto simp: erase_route_def filter_empty_conv)
  then have rm: "RemoveContext r s = (None, ?t)" using c by (auto simp: RemoveContext_def handler_simps)
  have "map_of (rt_AddressMap ?t) (frame_route (hd (rt_TransmitQueue s))) = None"
    by (simp add: map_of_erase assms(5))
  then have "fst (OnWriteCallback router_callbacks False ?t) = Some AssertionFailed"
    using assms(3,4) q by (simp add: OnWriteCallback_def handler_simps Router_OnSendSuccess_def GetContext_def)
  then show ?thesis by (simp add: rm)
qed

theorem removing_busy_context_breaks_router_witness:
  "fst (router_handle (Router_Phys (Write_Done False)) (run router_handle
     [Router_Send example_frame, Router_Remove (LinkRoute 1024 1)] example_router)) = Some AssertionFailed"
proof -
  let ?s = "run router_handle [Router_Send example_frame] example_router"
  have "feasible router_possible router_handle [Router_Send example_frame] example_router"
    by (simp add: router_possible_def example_frame_bytes)
  then have reach: "reachable router_handle router_possible router_start ?s"
    by (rule router_machine.reachable_run [OF example_router_reachable])
  have "ph_Open ?s" "\<not> ph_Closing ?s" "ph_Writing ?s" "LinkRoute 1024 1 = frame_route (hd (rt_TransmitQueue ?s))"
    "(LinkRoute 1025 1, 1) \<in> set (rt_AddressMap ?s)" "fst (LinkRoute 1025 1, 1 :: nat) \<noteq> LinkRoute 1024 1"
    using example_router_fields by (simp_all add: example_send example_frame_bytes)
  from removing_busy_context_breaks_router [OF reach this] show ?thesis by simp
qed

end
