(* ===== verification/Transports.thy ===== *)
theory Transports
  imports Prelude "HOL-Library.Sublist"
begin

text \<open>
  The transport function (opendnp3/DNP3/TransportLayer, TransportTx, TransportRx, TransportStates,
  TLS_Base) and the part of the layer interfaces it inherits (opendnp3/APL/AsyncLayerInterfaces).
  It cuts a fragment of the application layer into segments of at most 249 bytes, each with a header
  octet (first, final, sequence number modulo 64), sends them one at a time, each after the lower
  layer has reported success for the one before, and puts received segments together again.

  Calls on the upper and lower layer are recorded in \<open>tl_out\<close>. Each is the last thing the function
  making it does (what follows it is at most a return), so the calls back into this layer that
  it causes are later events. Shown are the round trip from any state of the receiver, what a
  delivered fragment is made of, that the receive buffer is never overrun, the segments a send puts
  out, and the invariant of the layer with its three states.
\<close>

section \<open>The code\<close>

named_theorems transport_consts \<open>the constants of the transport function\<close>

definition TL_HDR_FIN :: byte where [transport_consts]: "TL_HDR_FIN = 0x80"
definition TL_HDR_FIR :: byte where [transport_consts]: "TL_HDR_FIR = 0x40"
definition TL_HDR_SEQ :: byte where [transport_consts]: "TL_HDR_SEQ = 0x3F"
definition TL_MAX_TPDU_LENGTH :: nat where [transport_consts]: "TL_MAX_TPDU_LENGTH = 250"
definition TL_MAX_TPDU_PAYLOAD :: nat where [transport_consts]: "TL_MAX_TPDU_PAYLOAD = 249"

datatype TLS = TLS_Closed | TLS_Ready | TLS_Sending

text \<open>Calls on the layers above and below.\<close>

datatype TransportOut =
    Lower_Send bytes
  | App_OnReceive bytes
  | App_OnSendSuccess
  | App_OnSendFailure
  | App_OnLowerLayerUp
  | App_OnLowerLayerDown

text \<open>The sequence numbers are ints of the code that never leave the range 0 to 63.\<close>

record TransportTx =
  tx_BufferAPDU :: bytes
  tx_BufferTPDU :: bytes
  tx_NumBytesSent :: nat
  tx_NumBytesToSend :: nat
  tx_Seq :: nat

record TransportRx =
  rx_Buffer :: bytes
  rx_NumBytesRead :: nat
  rx_Seq :: nat

record TransportLayer =
  tl_State :: TLS
  tl_FRAG_SIZE :: nat
  tl_Receiver :: TransportRx
  tl_Transmitter :: TransportTx
  tl_ThisLayerUp :: bool
  tl_IsLowerLayerUp :: bool
  tl_UpperLayer :: bool
  tl_LowerLayer :: bool
  tl_out :: "TransportOut list"

text \<open>\<open>CopyableBuffer(aSize)\<close> is filled with zeros.\<close>

definition new_CopyableBuffer :: "nat \<Rightarrow> bytes" where
  "new_CopyableBuffer aSize = replicate aSize 0"

definition new_TransportTx :: "nat \<Rightarrow> TransportTx" where
  "new_TransportTx aFragSize =
     \<lparr>tx_BufferAPDU = new_CopyableBuffer aFragSize, tx_BufferTPDU = new_CopyableBuffer TL_MAX_TPDU_LENGTH,
      tx_NumBytesSent = 0, tx_NumBytesToSend = 0, tx_Seq = 0\<rparr>"

definition new_TransportRx :: "nat \<Rightarrow> TransportRx" where
  "new_TransportRx aFragSize =
     \<lparr>rx_Buffer = new_CopyableBuffer aFragSize, rx_NumBytesRead = 0, rx_Seq = 0\<rparr>"

definition new_TransportLayer :: "nat \<Rightarrow> TransportLayer" where
  "new_TransportLayer aFragSize =
     \<lparr>tl_State = TLS_Closed, tl_FRAG_SIZE = aFragSize, tl_Receiver = new_TransportRx aFragSize,
      tl_Transmitter = new_TransportTx aFragSize, tl_ThisLayerUp = False, tl_IsLowerLayerUp = False,
      tl_UpperLayer = False, tl_LowerLayer = False, tl_out = []\<rparr>"

subsection \<open>Actions of the layer\<close>

definition tl_emit :: "TransportOut \<Rightarrow> TransportLayer handler" where
  [handler_simps]: "tl_emit c = modify (\<lambda>s. s\<lparr>tl_out := tl_out s @ [c]\<rparr>)"

definition call_upper :: "TransportOut \<Rightarrow> TransportLayer handler" where
  [handler_simps]: "call_upper c = if_else tl_UpperLayer (tl_emit c) skip"

definition Rx_Reset :: "TransportRx \<Rightarrow> TransportRx" where
  "Rx_Reset rx = rx\<lparr>rx_NumBytesRead := 0, rx_Seq := 0\<rparr>"

definition ThisLayerUp :: "TransportLayer handler" where
  "ThisLayerUp = in_order [modify (\<lambda>s. s\<lparr>tl_ThisLayerUp := True\<rparr>), call_upper App_OnLowerLayerUp]"

definition ThisLayerDown :: "TransportLayer handler" where
  "ThisLayerDown = in_order
     [modify (\<lambda>s. s\<lparr>tl_Receiver := Rx_Reset (tl_Receiver s)\<rparr>),
      modify (\<lambda>s. s\<lparr>tl_ThisLayerUp := False\<rparr>),
      call_upper App_OnLowerLayerDown]"

definition Tl_ChangeState :: "TLS \<Rightarrow> TransportLayer handler" where
  "Tl_ChangeState st = modify (\<lambda>s. s\<lparr>tl_State := st\<rparr>)"

definition TransmitTPDU :: "bytes \<Rightarrow> TransportLayer handler" where
  "TransmitTPDU d = if_else tl_LowerLayer (tl_emit (Lower_Send d)) skip"

definition ReceiveAPDU :: "bytes \<Rightarrow> TransportLayer handler" where
  "ReceiveAPDU d = call_upper (App_OnReceive d)"

definition SignalSendSuccess :: "TransportLayer handler" where
  "SignalSendSuccess = call_upper App_OnSendSuccess"

definition SignalSendFailure :: "TransportLayer handler" where
  "SignalSendFailure = call_upper App_OnSendFailure"

subsection \<open>The transmitter\<close>

definition Tx_GetHeader :: "bool \<Rightarrow> bool \<Rightarrow> nat \<Rightarrow> byte" where
  "Tx_GetHeader aFir aFin aSeq =
     (let hdr = 0;
          hdr = (if aFir then hdr OR TL_HDR_FIR else hdr);
          hdr = (if aFin then hdr OR TL_HDR_FIN else hdr)
      in hdr OR (TL_HDR_SEQ AND of_nat aSeq))"

definition BytesRemaining :: "TransportTx \<Rightarrow> nat" where
  "BytesRemaining tx = tx_NumBytesToSend tx - tx_NumBytesSent tx"

text \<open>
  \<open>CheckForSend\<close> returns whether everything was sent; the segment is written to the TPDU buffer behind
  the place of the header, then the header, and the used part of the buffer goes to the lower layer.
\<close>

definition Tx_CheckForSend :: "TransportLayer \<Rightarrow> bool \<times> TransportLayer" where
  "Tx_CheckForSend s =
     (let tx = tl_Transmitter s; remainder = BytesRemaining tx in
      if remainder > 0 then
        (let num_to_send = (if remainder < TL_MAX_TPDU_PAYLOAD then remainder else TL_MAX_TPDU_PAYLOAD);
             tpdu = blit (tx_BufferTPDU tx) 1 (take num_to_send (drop (tx_NumBytesSent tx) (tx_BufferAPDU tx)));
             fir = (tx_NumBytesSent tx = 0);
             sent = tx_NumBytesSent tx + num_to_send;
             fin = (sent = tx_NumBytesToSend tx);
             tpdu = tpdu[0 := Tx_GetHeader fir fin (tx_Seq tx)];
             s = s\<lparr>tl_Transmitter := tx\<lparr>tx_BufferTPDU := tpdu, tx_NumBytesSent := sent\<rparr>\<rparr>
         in (False, snd (TransmitTPDU (take (num_to_send + 1) tpdu) s)))
      else (True, s\<lparr>tl_Transmitter := tx\<lparr>tx_NumBytesSent := 0, tx_NumBytesToSend := 0\<rparr>\<rparr>))"

definition Tx_Send :: "bytes \<Rightarrow> TransportLayer handler" where
  "Tx_Send apData = in_order
     [assert_that (\<lambda>_. length apData > 0),
      assert_that (\<lambda>s. length apData \<le> length (tx_BufferAPDU (tl_Transmitter s))),
      modify (\<lambda>s. s\<lparr>tl_Transmitter := (tl_Transmitter s)
        \<lparr>tx_BufferAPDU := blit (tx_BufferAPDU (tl_Transmitter s)) 0 apData,
         tx_NumBytesSent := 0, tx_NumBytesToSend := length apData\<rparr>\<rparr>),
      modify (\<lambda>s. snd (Tx_CheckForSend s))]"

definition Tx_SendSuccess :: "TransportLayer \<Rightarrow> bool \<times> TransportLayer" where
  "Tx_SendSuccess s = Tx_CheckForSend (s\<lparr>tl_Transmitter := (tl_Transmitter s)
     \<lparr>tx_Seq := (tx_Seq (tl_Transmitter s) + 1) mod 64\<rparr>\<rparr>)"

subsection \<open>The receiver\<close>

definition BufferRemaining :: "TransportRx \<Rightarrow> nat" where
  "BufferRemaining rx = length (rx_Buffer rx) - rx_NumBytesRead rx"

definition Rx_ValidateHeader ::
  "bool \<Rightarrow> bool \<Rightarrow> nat \<Rightarrow> nat \<Rightarrow> TransportRx \<Rightarrow> bool \<times> TransportRx" where
  "Rx_ValidateHeader aFir aFin aSeq aPayloadSize rx =
     (let rx' = (if aFir then
                   (let rx = rx\<lparr>rx_Seq := aSeq\<rparr>
                    in if rx_NumBytesRead rx > 0 then rx\<lparr>rx_NumBytesRead := 0\<rparr> else rx)
                 else rx)
      in if \<not> aFir \<and> rx_NumBytesRead rx = 0 then (False, rx')
         else if \<not> aFin \<and> aPayloadSize \<noteq> TL_MAX_TPDU_PAYLOAD then (False, rx')
         else if aSeq \<noteq> rx_Seq rx' then (False, rx')
         else (True, rx'))"

definition Rx_HandleReceive :: "bytes \<Rightarrow> TransportLayer handler" where
  "Rx_HandleReceive apData s =
     (let aNumBytes = length apData in
      if aNumBytes = 1 then (None, s)
      else if aNumBytes = 0 then (Some ArgumentException, s)
      else if aNumBytes > TL_MAX_TPDU_LENGTH then (Some ArgumentException, s)
      else
        (let hdr = apData ! 0;
             first = (hdr AND TL_HDR_FIR \<noteq> 0);
             last = (hdr AND TL_HDR_FIN \<noteq> 0);
             seq = unat (hdr AND TL_HDR_SEQ);
             payload_len = aNumBytes - 1;
             (valid, rx) = Rx_ValidateHeader first last seq payload_len (tl_Receiver s)
         in if \<not> valid then (None, s\<lparr>tl_Receiver := rx\<rparr>)
            else if BufferRemaining rx < payload_len then
              (None, s\<lparr>tl_Receiver := rx\<lparr>rx_NumBytesRead := 0\<rparr>\<rparr>)
            else
              (let rx = rx\<lparr>rx_Buffer := blit (rx_Buffer rx) (rx_NumBytesRead rx) (take payload_len (drop 1 apData)),
                           rx_NumBytesRead := rx_NumBytesRead rx + payload_len,
                           rx_Seq := (rx_Seq rx + 1) mod 64\<rparr>
               in if last then
                    (let tmp = rx_NumBytesRead rx
                     in ReceiveAPDU (take tmp (rx_Buffer rx)) (s\<lparr>tl_Receiver := rx\<lparr>rx_NumBytesRead := 0\<rparr>\<rparr>))
                  else (None, s\<lparr>tl_Receiver := rx\<rparr>))))"

subsection \<open>The states\<close>

definition TLS_Base_throw :: "TransportLayer handler" where
  "TLS_Base_throw = throw InvalidStateException"

definition TransmitAPDU :: "bytes \<Rightarrow> TransportLayer handler" where
  "TransmitAPDU d = Tx_Send d"

definition ReceiveTPDU :: "bytes \<Rightarrow> TransportLayer handler" where
  "ReceiveTPDU d = Rx_HandleReceive d"

text \<open>\<open>if(!apContext->ContinueSend()) body\<close>; \<open>ContinueSend\<close> returns \<open>!mTransmitter.SendSuccess()\<close>.\<close>

definition unless_ContinueSend :: "TransportLayer handler \<Rightarrow> TransportLayer handler" where
  "unless_ContinueSend body s = (case Tx_SendSuccess s of (done, s') \<Rightarrow> if done then body s' else (None, s'))"

primrec TLS_Send :: "TLS \<Rightarrow> bytes \<Rightarrow> TransportLayer handler" where
  "TLS_Send TLS_Closed d = TLS_Base_throw"
| "TLS_Send TLS_Ready d = in_order [Tl_ChangeState TLS_Sending, TransmitAPDU d]"
| "TLS_Send TLS_Sending d = TLS_Base_throw"

primrec TLS_HandleReceive :: "TLS \<Rightarrow> bytes \<Rightarrow> TransportLayer handler" where
  "TLS_HandleReceive TLS_Closed d = TLS_Base_throw"
| "TLS_HandleReceive TLS_Ready d = ReceiveTPDU d"
| "TLS_HandleReceive TLS_Sending d = ReceiveTPDU d"

primrec TLS_HandleSendSuccess :: "TLS \<Rightarrow> TransportLayer handler" where
  "TLS_HandleSendSuccess TLS_Closed = TLS_Base_throw"
| "TLS_HandleSendSuccess TLS_Ready = TLS_Base_throw"
| "TLS_HandleSendSuccess TLS_Sending =
     unless_ContinueSend (in_order [Tl_ChangeState TLS_Ready, SignalSendSuccess])"

primrec TLS_HandleSendFailure :: "TLS \<Rightarrow> TransportLayer handler" where
  "TLS_HandleSendFailure TLS_Closed = TLS_Base_throw"
| "TLS_HandleSendFailure TLS_Ready = TLS_Base_throw"
| "TLS_HandleSendFailure TLS_Sending = in_order [Tl_ChangeState TLS_Ready, SignalSendFailure]"

primrec TLS_LowerLayerUp :: "TLS \<Rightarrow> TransportLayer handler" where
  "TLS_LowerLayerUp TLS_Closed = in_order [Tl_ChangeState TLS_Ready, ThisLayerUp]"
| "TLS_LowerLayerUp TLS_Ready = TLS_Base_throw"
| "TLS_LowerLayerUp TLS_Sending = TLS_Base_throw"

primrec TLS_LowerLayerDown :: "TLS \<Rightarrow> TransportLayer handler" where
  "TLS_LowerLayerDown TLS_Closed = TLS_Base_throw"
| "TLS_LowerLayerDown TLS_Ready = in_order [Tl_ChangeState TLS_Closed, ThisLayerDown]"
| "TLS_LowerLayerDown TLS_Sending = in_order [Tl_ChangeState TLS_Closed, ThisLayerDown]"

subsection \<open>The calls of the neighbours\<close>

definition Transport_Send :: "bytes \<Rightarrow> TransportLayer handler" where
  "Transport_Send d = in_order
     [throw_if (\<lambda>s. length d = 0 \<or> length d > tl_FRAG_SIZE s) ArgumentException,
      reading (\<lambda>s. TLS_Send (tl_State s) d)]"

definition Transport_OnReceive :: "bytes \<Rightarrow> TransportLayer handler" where
  "Transport_OnReceive d = reading (\<lambda>s. TLS_HandleReceive (tl_State s) d)"

definition Transport_OnSendSuccess :: "TransportLayer handler" where
  "Transport_OnSendSuccess = reading (\<lambda>s. TLS_HandleSendSuccess (tl_State s))"

definition Transport_OnSendFailure :: "TransportLayer handler" where
  "Transport_OnSendFailure = reading (\<lambda>s. TLS_HandleSendFailure (tl_State s))"

text \<open>\<open>IUpDown\<close> checks and records the state of the lower layer, then calls the layer.\<close>

definition Transport_OnLowerLayerUp :: "TransportLayer handler" where
  "Transport_OnLowerLayerUp = in_order
     [throw_if tl_IsLowerLayerUp InvalidStateException,
      modify (\<lambda>s. s\<lparr>tl_IsLowerLayerUp := True\<rparr>),
      reading (\<lambda>s. TLS_LowerLayerUp (tl_State s))]"

definition Transport_OnLowerLayerDown :: "TransportLayer handler" where
  "Transport_OnLowerLayerDown = in_order
     [throw_if (\<lambda>s. \<not> tl_IsLowerLayerUp s) InvalidStateException,
      modify (\<lambda>s. s\<lparr>tl_IsLowerLayerUp := False\<rparr>),
      reading (\<lambda>s. TLS_LowerLayerDown (tl_State s))]"

definition Transport_SetLowerLayer :: "TransportLayer handler" where
  "Transport_SetLowerLayer = modify (\<lambda>s. s\<lparr>tl_LowerLayer := True\<rparr>)"

definition Transport_SetUpperLayer :: "TransportLayer handler" where
  "Transport_SetUpperLayer = modify (\<lambda>s. s\<lparr>tl_UpperLayer := True\<rparr>)"

datatype TransportEvent =
    Tl_SetLowerLayer
  | Tl_SetUpperLayer
  | Tl_LowerLayerUp
  | Tl_LowerLayerDown
  | Tl_Send bytes
  | Tl_Receive bytes
  | Tl_SendSuccess
  | Tl_SendFailure

primrec transport_handle :: "TransportEvent \<Rightarrow> TransportLayer handler" where
  "transport_handle Tl_SetLowerLayer = Transport_SetLowerLayer"
| "transport_handle Tl_SetUpperLayer = Transport_SetUpperLayer"
| "transport_handle Tl_LowerLayerUp = Transport_OnLowerLayerUp"
| "transport_handle Tl_LowerLayerDown = Transport_OnLowerLayerDown"
| "transport_handle (Tl_Send d) = Transport_Send d"
| "transport_handle (Tl_Receive d) = Transport_OnReceive d"
| "transport_handle Tl_SendSuccess = Transport_OnSendSuccess"
| "transport_handle Tl_SendFailure = Transport_OnSendFailure"

section \<open>Segments\<close>

text \<open>The fields of a segment as the receiver reads them.\<close>

definition seg_fir :: "bytes \<Rightarrow> bool" where
  "seg_fir t \<longleftrightarrow> t ! 0 AND TL_HDR_FIR \<noteq> 0"

definition seg_fin :: "bytes \<Rightarrow> bool" where
  "seg_fin t \<longleftrightarrow> t ! 0 AND TL_HDR_FIN \<noteq> 0"

definition seg_seq :: "bytes \<Rightarrow> nat" where
  "seg_seq t = unat (t ! 0 AND TL_HDR_SEQ)"

lemma GetHeader_table:
  "list_all (\<lambda>q. list_all (\<lambda>f. list_all (\<lambda>l.
     (Tx_GetHeader f l q AND TL_HDR_FIR \<noteq> 0) = f \<and> (Tx_GetHeader f l q AND TL_HDR_FIN \<noteq> 0) = l \<and>
     unat (Tx_GetHeader f l q AND TL_HDR_SEQ) = q) [False, True]) [False, True]) [0..<64]"
  by code_simp

lemma GetHeader_fields:
  assumes "q < 64"
  shows "seg_fir (Tx_GetHeader f l q # p) = f" "seg_fin (Tx_GetHeader f l q # p) = l"
    "seg_seq (Tx_GetHeader f l q # p) = q"
proof -
  have "(Tx_GetHeader f l q AND TL_HDR_FIR \<noteq> 0) = f \<and> (Tx_GetHeader f l q AND TL_HDR_FIN \<noteq> 0) = l \<and>
     unat (Tx_GetHeader f l q AND TL_HDR_SEQ) = q"
    using GetHeader_table assms by (cases f; cases l) (simp_all add: list_all_iff)
  then show "seg_fir (Tx_GetHeader f l q # p) = f" "seg_fin (Tx_GetHeader f l q # p) = l"
    "seg_seq (Tx_GetHeader f l q # p) = q"
    by (simp_all add: seg_fir_def seg_fin_def seg_seq_def)
qed

lemma seg_seq_less: "seg_seq t < 64"
proof -
  have "t ! 0 AND 0x3F < 64" by (rule le_less_trans [OF word_and_le1]) simp
  then show ?thesis by (simp add: seg_seq_def TL_HDR_SEQ_def word_less_nat_alt)
qed

text \<open>
  The specification of the transmitter: the segments of a fragment from sequence number \<open>q\<close> on;
  \<open>first\<close> says whether nothing of it was sent before.
\<close>

function segments :: "nat \<Rightarrow> bool \<Rightarrow> bytes \<Rightarrow> bytes list" where
  "segments q first d = (if d = [] then [] else
     (Tx_GetHeader first (length d \<le> 249) q # take 249 d) # segments ((q + 1) mod 64) False (drop 249 d))"
  by pat_completeness auto
termination
  by (relation "measure (\<lambda>(q, first, d). length d)") auto

declare segments.simps [simp del]

lemma segments_Nil [simp]: "segments q f [] = []"
  by (simp add: segments.simps)

lemma segments_step:
  "d \<noteq> [] \<Longrightarrow> segments q f d = (Tx_GetHeader f (length d \<le> 249) q # take 249 d) #
     segments ((q + 1) mod 64) False (drop 249 d)"
  by (subst segments.simps) simp

lemma segments_eq_Nil [simp]: "segments q f d = [] \<longleftrightarrow> d = []"
  by (subst segments.simps) simp

lemma length_segments: "length (segments q f d) = (length d + 248) div 249"
proof (induction q f d rule: segments.induct)
  case (1 q f d)
  show ?case
  proof (cases "d = []")
    case False
    have "length (drop 249 d) + 248 = length d - 249 + 248" by simp
    moreover have "Suc ((length d - 249 + 248) div 249) = (length d + 248) div 249"
      using False by (cases "249 \<le> length d") (simp_all add: Suc_le_eq le_div_geq div_eq_0_iff)
    ultimately show ?thesis using 1 [OF False] False by (simp add: segments_step)
  qed simp
qed

lemma segments_length: "t \<in> set (segments q f d) \<Longrightarrow> 2 \<le> length t \<and> length t \<le> 250"
proof (induction q f d rule: segments.induct)
  case (1 q f d)
  then show ?case by (cases "d = []") (auto simp: segments_step Suc_le_eq)
qed

lemma segments_payload: "concat (map tl (segments q f d)) = d"
proof (induction q f d rule: segments.induct)
  case (1 q f d)
  then show ?case by (cases "d = []") (auto simp: segments_step)
qed

section \<open>The transmitter puts out the segments\<close>

definition tx_ok :: "TransportTx \<Rightarrow> bool" where
  "tx_ok tx \<longleftrightarrow> tx_NumBytesSent tx \<le> tx_NumBytesToSend tx \<and> tx_NumBytesToSend tx \<le> length (tx_BufferAPDU tx) \<and>
     length (tx_BufferTPDU tx) = 250 \<and> tx_Seq tx < 64"

text \<open>The bytes not yet put out.\<close>

definition pending :: "TransportTx \<Rightarrow> bytes" where
  "pending tx = drop (tx_NumBytesSent tx) (take (tx_NumBytesToSend tx) (tx_BufferAPDU tx))"

lemma length_pending: "tx_ok tx \<Longrightarrow> length (pending tx) = BytesRemaining tx"
  by (simp add: pending_def tx_ok_def BytesRemaining_def)

lemma segment_in_buffer:
  assumes "length buf = 250" and "length seg = n" and "n \<le> 249"
  shows "take (n + 1) ((blit buf 1 seg)[0 := h]) = h # seg"
  using assms by (cases buf) (auto simp: blit_def)

lemma CheckForSend_done:
  "tx_ok (tl_Transmitter s) \<Longrightarrow> pending (tl_Transmitter s) = [] \<Longrightarrow>
   Tx_CheckForSend s = (True, s\<lparr>tl_Transmitter := (tl_Transmitter s)\<lparr>tx_NumBytesSent := 0, tx_NumBytesToSend := 0\<rparr>\<rparr>)"
  using length_pending [of "tl_Transmitter s"] by (simp add: Tx_CheckForSend_def Let_def)

lemma CheckForSend_send:
  fixes s :: TransportLayer
  defines "tx \<equiv> tl_Transmitter s"
  assumes ok: "tx_ok tx" and "pending tx \<noteq> []"
  obtains tx' where "Tx_CheckForSend s = (False, snd (TransmitTPDU
        (hd (segments (tx_Seq tx) (tx_NumBytesSent tx = 0) (pending tx))) (s\<lparr>tl_Transmitter := tx'\<rparr>)))"
    and "tx_ok tx'" and "pending tx' = drop 249 (pending tx)" and "tx_NumBytesSent tx' > 0"
    and "tx_Seq tx' = tx_Seq tx" and "length (tx_BufferAPDU tx') = length (tx_BufferAPDU tx)"
proof -
  define n where "n = (if BytesRemaining tx < TL_MAX_TPDU_PAYLOAD then BytesRemaining tx else TL_MAX_TPDU_PAYLOAD)"
  define h where "h = Tx_GetHeader (tx_NumBytesSent tx = 0) (tx_NumBytesSent tx + n = tx_NumBytesToSend tx) (tx_Seq tx)"
  define tpdu where "tpdu = (blit (tx_BufferTPDU tx) 1 (take n (drop (tx_NumBytesSent tx) (tx_BufferAPDU tx))))[0 := h]"
  define tx' where "tx' = tx\<lparr>tx_BufferTPDU := tpdu, tx_NumBytesSent := tx_NumBytesSent tx + n\<rparr>"
  have "0 < length (pending tx)" using assms(3) by simp
  then have rem: "BytesRemaining tx > 0" "BytesRemaining tx = length (pending tx)"
    by (simp_all add: length_pending [OF ok])
  then have n: "0 < n" "n \<le> 249" "n = min 249 (length (pending tx))"
    by (auto simp: n_def TL_MAX_TPDU_PAYLOAD_def)
  have sent: "tx_NumBytesSent tx + n \<le> tx_NumBytesToSend tx"
  proof -
    have "n \<le> tx_NumBytesToSend tx - tx_NumBytesSent tx" using n(3) rem(2) by (simp add: BytesRemaining_def)
    then show ?thesis using n(1) by linarith
  qed
  have seg: "take n (drop (tx_NumBytesSent tx) (tx_BufferAPDU tx)) = take 249 (pending tx)"
    using n sent by (simp add: pending_def drop_take min_def split: if_splits)
  have len: "length (take 249 (pending tx)) = n" using n(3) by simp
  have "take (n + 1) tpdu = h # take 249 (pending tx)"
    using segment_in_buffer [OF _ len n(2)] ok by (simp add: tpdu_def seg tx_ok_def)
  moreover have "(tx_NumBytesSent tx + n = tx_NumBytesToSend tx) = (length (pending tx) \<le> 249)"
    using n rem(2) ok by (auto simp: BytesRemaining_def tx_ok_def min_def)
  ultimately have "take (n + 1) tpdu = hd (segments (tx_Seq tx) (tx_NumBytesSent tx = 0) (pending tx))"
    using assms(3) by (simp add: segments_step h_def)
  moreover have "Tx_CheckForSend s = (False, snd (TransmitTPDU (take (n + 1) tpdu) (s\<lparr>tl_Transmitter := tx'\<rparr>)))"
    using rem(1) by (simp add: Tx_CheckForSend_def Let_def n_def h_def tpdu_def tx'_def tx_def)
  moreover have "length tpdu = 250"
    using ok n(2) len by (simp add: tpdu_def seg tx_ok_def)
  then have "tx_ok tx'" using ok sent by (simp add: tx'_def tx_ok_def)
  moreover have "pending tx' = drop 249 (pending tx)"
    using n sent by (auto simp: pending_def tx'_def min_def add.commute split: if_splits)
  ultimately show thesis using n(1) that [of tx'] by (simp add: tx'_def)
qed

text \<open>The segments handed down and the fragments handed up, in order, and how often a send was completed.\<close>

primrec sent_down :: "TransportOut list \<Rightarrow> bytes list" where
  "sent_down [] = []"
| "sent_down (x # xs) = (case x of Lower_Send d \<Rightarrow> [d] | _ \<Rightarrow> []) @ sent_down xs"

primrec handed_up :: "TransportOut list \<Rightarrow> bytes list" where
  "handed_up [] = []"
| "handed_up (x # xs) = (case x of App_OnReceive d \<Rightarrow> [d] | _ \<Rightarrow> []) @ handed_up xs"

definition successes :: "TransportOut list \<Rightarrow> nat" where
  "successes xs = count_list xs App_OnSendSuccess"

lemma outputs_append [simp]:
  "sent_down (xs @ ys) = sent_down xs @ sent_down ys"
  "handed_up (xs @ ys) = handed_up xs @ handed_up ys"
  "successes (xs @ ys) = successes xs + successes ys"
  by (induction xs) (auto simp: successes_def)

lemma outputs_single [simp]:
  "successes [] = 0" "successes [App_OnSendSuccess] = 1" "successes [Lower_Send d] = 0" "successes [App_OnReceive d] = 0"
  "successes [App_OnSendFailure] = 0" "successes [App_OnLowerLayerUp] = 0" "successes [App_OnLowerLayerDown] = 0"
  by (simp_all add: successes_def)

text \<open>What receiving a segment of legal length does: the new receiver, and the fragment handed up.\<close>

definition rx_segment :: "bytes \<Rightarrow> TransportRx \<Rightarrow> TransportRx \<times> bytes option" where
  "rx_segment t rx =
     (case Rx_ValidateHeader (seg_fir t) (seg_fin t) (seg_seq t) (length t - 1) rx of (valid, rx) \<Rightarrow>
        if \<not> valid then (rx, None)
        else if BufferRemaining rx < length t - 1 then (rx\<lparr>rx_NumBytesRead := 0\<rparr>, None)
        else (let n = rx_NumBytesRead rx + (length t - 1);
                  rx = rx\<lparr>rx_Buffer := blit (rx_Buffer rx) (rx_NumBytesRead rx) (tl t),
                          rx_NumBytesRead := n, rx_Seq := (rx_Seq rx + 1) mod 64\<rparr>
              in if seg_fin t then (rx\<lparr>rx_NumBytesRead := 0\<rparr>, Some (take n (rx_Buffer rx))) else (rx, None)))"

lemma HandleReceive_illegal:
  "length t = 0 \<or> length t > 250 \<Longrightarrow> Rx_HandleReceive t s = (Some ArgumentException, s)"
  "length t = 1 \<Longrightarrow> Rx_HandleReceive t s = (None, s)"
  by (auto simp: Rx_HandleReceive_def Let_def TL_MAX_TPDU_LENGTH_def)

lemma HandleReceive_legal:
  assumes "2 \<le> length t" and "length t \<le> 250"
  shows "Rx_HandleReceive t s = (case rx_segment t (tl_Receiver s) of
      (rx, None) \<Rightarrow> (None, s\<lparr>tl_Receiver := rx\<rparr>)
    | (rx, Some f) \<Rightarrow> ReceiveAPDU f (s\<lparr>tl_Receiver := rx\<rparr>))"
proof -
  obtain valid rx where v: "Rx_ValidateHeader (seg_fir t) (seg_fin t) (seg_seq t) (length t - 1) (tl_Receiver s) = (valid, rx)"
    by (cases "Rx_ValidateHeader (seg_fir t) (seg_fin t) (seg_seq t) (length t - 1) (tl_Receiver s)")
  have "take (length t - 1) (drop 1 t) = tl t" by (simp add: drop_Suc)
  moreover have "length t \<noteq> 1" "length t \<noteq> 0" "\<not> TL_MAX_TPDU_LENGTH < length t"
    using assms by (auto simp: TL_MAX_TPDU_LENGTH_def)
  ultimately show ?thesis
    unfolding Rx_HandleReceive_def rx_segment_def Let_def v
    using v by (simp only: seg_fir_def seg_fin_def seg_seq_def) simp
qed

text \<open>Receiving touches the receiver only and hands up at most one fragment.\<close>

lemma HandleReceive_frame:
  obtains rx outs where "snd (Rx_HandleReceive d s) = s\<lparr>tl_Receiver := rx, tl_out := tl_out s @ outs\<rparr>"
    and "outs = [] \<or> (\<exists>f. outs = [App_OnReceive f])"
proof (cases "2 \<le> length d \<and> length d \<le> 250")
  case True
  obtain rx f where rx: "rx_segment d (tl_Receiver s) = (rx, f)" by (cases "rx_segment d (tl_Receiver s)")
  show thesis
  proof (cases "\<exists>x. f = Some x \<and> tl_UpperLayer s")
    case yes: True
    then obtain x where "f = Some x" "tl_UpperLayer s" by blast
    then show thesis using True rx that [of "[App_OnReceive x]" rx]
      by (simp add: HandleReceive_legal ReceiveAPDU_def handler_simps)
  next
    case False
    then show thesis using True rx that [of "[]" rx]
      by (cases f) (auto simp: HandleReceive_legal ReceiveAPDU_def handler_simps)
  qed
next
  case False
  then have "snd (Rx_HandleReceive d s) = s"
    using HandleReceive_illegal [of d s] by (metis One_nat_def Suc_1 not_less_eq_eq le_SucE le_zero_eq not_le snd_conv)
  then show thesis using that [of "[]" "tl_Receiver s"] by simp
qed

text \<open>
  A send under way: of the segments \<open>ts\<close> the first \<open>k + 1\<close> are down, after \<open>k\<close> successes; when all are
  acknowledged the send is complete.
\<close>

definition sending_at :: "bytes list \<Rightarrow> nat \<Rightarrow> bytes list \<Rightarrow> nat \<Rightarrow> TransportLayer \<Rightarrow> bool" where
  "sending_at before done ts k s \<longleftrightarrow>
     tl_UpperLayer s \<and> tl_LowerLayer s \<and> tx_ok (tl_Transmitter s) \<and> k \<le> length ts \<and>
     sent_down (tl_out s) = before @ take (Suc k) ts \<and>
     (if k < length ts then tl_State s = TLS_Sending \<and> successes (tl_out s) = done \<and>
        tx_NumBytesSent (tl_Transmitter s) > 0 \<and>
        drop (Suc k) ts = segments (Suc (tx_Seq (tl_Transmitter s)) mod 64) False (pending (tl_Transmitter s))
      else tl_State s = TLS_Ready \<and> successes (tl_out s) = done + 1)"

lemma sending_at_receive:
  assumes "sending_at b n ts k s"
  shows "sending_at b n ts k (snd (transport_handle (Tl_Receive d) s))"
proof -
  have st: "tl_State s \<noteq> TLS_Closed" using assms by (auto simp: sending_at_def split: if_splits)
  obtain rx outs where r: "snd (Rx_HandleReceive d s) = s\<lparr>tl_Receiver := rx, tl_out := tl_out s @ outs\<rparr>"
    and "outs = [] \<or> (\<exists>f. outs = [App_OnReceive f])" by (rule HandleReceive_frame)
  then have "sent_down outs = []" "successes outs = 0" by auto
  moreover have "snd (Transport_OnReceive d s) = snd (Rx_HandleReceive d s)"
    using st by (cases "tl_State s") (simp_all add: Transport_OnReceive_def handler_simps ReceiveTPDU_def)
  ultimately show ?thesis using assms by (simp add: r sending_at_def)
qed

lemma sending_at_success:
  assumes "sending_at b n ts k s" and "k < length ts"
  shows "sending_at b n ts (Suc k) (snd (transport_handle Tl_SendSuccess s))"
proof -
  let ?q = "Suc (tx_Seq (tl_Transmitter s)) mod 64"
  let ?u = "s\<lparr>tl_Transmitter := (tl_Transmitter s)\<lparr>tx_Seq := ?q\<rparr>\<rparr>"
  have s: "tl_UpperLayer s" "tl_LowerLayer s" "tx_ok (tl_Transmitter s)" "tl_State s = TLS_Sending"
      "sent_down (tl_out s) = b @ take (Suc k) ts" "successes (tl_out s) = n" "tx_NumBytesSent (tl_Transmitter s) > 0"
      "drop (Suc k) ts = segments ?q False (pending (tl_Transmitter s))"
    using assms by (simp_all add: sending_at_def)
  have ok: "tx_ok (tl_Transmitter ?u)" using s(3) by (simp add: tx_ok_def)
  have pend: "pending (tl_Transmitter ?u) = pending (tl_Transmitter s)" by (simp add: pending_def)
  have handle: "snd (Transport_OnSendSuccess s) =
      (case Tx_CheckForSend ?u of (done, t) \<Rightarrow>
        if done then snd (in_order [Tl_ChangeState TLS_Ready, SignalSendSuccess] t) else t)"
    using s(4) by (simp add: Transport_OnSendSuccess_def handler_simps unless_ContinueSend_def Tx_SendSuccess_def
        split: prod.split)
  show ?thesis
  proof (cases "pending (tl_Transmitter s) = []")
    case True
    then have "ts = take (Suc k) ts" "Suc k = length ts" using s(8) assms(2) by simp_all
    moreover have "tx_ok ((tl_Transmitter s)\<lparr>tx_Seq := ?q, tx_NumBytesSent := 0, tx_NumBytesToSend := 0\<rparr>)"
      using s(3) by (simp add: tx_ok_def)
    moreover have all: "Tx_CheckForSend ?u =
        (True, ?u\<lparr>tl_Transmitter := (tl_Transmitter ?u)\<lparr>tx_NumBytesSent := 0, tx_NumBytesToSend := 0\<rparr>\<rparr>)"
      using True pend by (intro CheckForSend_done [OF ok]) simp
    ultimately show ?thesis unfolding transport_handle.simps handle all using s True
      by (simp add: sending_at_def Tl_ChangeState_def SignalSendSuccess_def handler_simps)
  next
    case False
    with CheckForSend_send [OF ok] pend obtain tx' where
      c: "Tx_CheckForSend ?u = (False, snd (TransmitTPDU
        (hd (segments ?q (tx_NumBytesSent (tl_Transmitter s) = 0) (pending (tl_Transmitter s)))) (?u\<lparr>tl_Transmitter := tx'\<rparr>)))"
      and tx': "tx_ok tx'" "pending tx' = drop 249 (pending (tl_Transmitter s))" "tx_NumBytesSent tx' > 0" "tx_Seq tx' = ?q"
      by auto
    have more: "drop (Suc k) ts \<noteq> []" using s(8) False by simp
    then have k: "Suc k < length ts" by simp
    have seg: "segments ?q (tx_NumBytesSent (tl_Transmitter s) = 0) (pending (tl_Transmitter s)) = drop (Suc k) ts"
      using s(7,8) by simp
    have next_segment: "take (Suc (Suc k)) ts = take (Suc k) ts @ [hd (drop (Suc k) ts)]"
      using k by (simp add: take_Suc_conv_app_nth hd_drop_conv_nth)
    have rest: "drop (Suc (Suc k)) ts = segments (Suc ?q mod 64) False (pending tx')"
      using s(8) False tx'(2) by (simp add: segments_step drop_Suc tl_drop [symmetric])
    show ?thesis unfolding transport_handle.simps handle c using s k tx' rest next_segment
      by (simp add: sending_at_def TransmitTPDU_def handler_simps seg)
  qed
qed

lemma sending_at_start:
  assumes "tl_State s = TLS_Ready" "tl_UpperLayer s" "tl_LowerLayer s" "tx_ok (tl_Transmitter s)"
    and "d \<noteq> []" "length d \<le> tl_FRAG_SIZE s" "tl_FRAG_SIZE s = length (tx_BufferAPDU (tl_Transmitter s))"
  shows "fst (transport_handle (Tl_Send d) s) = None"
    and "sending_at (sent_down (tl_out s)) (successes (tl_out s)) (segments (tx_Seq (tl_Transmitter s)) True d) 0
      (snd (transport_handle (Tl_Send d) s))"
proof -
  let ?tx = "(tl_Transmitter s)\<lparr>tx_BufferAPDU := blit (tx_BufferAPDU (tl_Transmitter s)) 0 d,
    tx_NumBytesSent := 0, tx_NumBytesToSend := length d\<rparr>"
  let ?u = "s\<lparr>tl_State := TLS_Sending, tl_Transmitter := ?tx\<rparr>"
  have ok: "tx_ok (tl_Transmitter ?u)" using assms by (simp add: tx_ok_def)
  have p: "pending ?tx = d" using assms by (simp add: pending_def blit_def)
  have handle: "Transport_Send d s = (None, snd (Tx_CheckForSend ?u))"
    using assms by (simp add: Transport_Send_def handler_simps Tl_ChangeState_def TransmitAPDU_def Tx_Send_def)
  then show "fst (transport_handle (Tl_Send d) s) = None" by simp
  obtain tx' where
    c: "Tx_CheckForSend ?u = (False, snd (TransmitTPDU
        (hd (segments (tx_Seq (tl_Transmitter s)) True d)) (?u\<lparr>tl_Transmitter := tx'\<rparr>)))"
    and tx': "tx_ok tx'" "pending tx' = drop 249 d" "tx_NumBytesSent tx' > 0" "tx_Seq tx' = tx_Seq (tl_Transmitter s)"
    using CheckForSend_send [OF ok] assms(5) by (auto simp: p)
  show "sending_at (sent_down (tl_out s)) (successes (tl_out s)) (segments (tx_Seq (tl_Transmitter s)) True d) 0
      (snd (transport_handle (Tl_Send d) s))"
    unfolding transport_handle.simps handle c using assms tx' by (simp add: sending_at_def TransmitTPDU_def handler_simps segments_step)
qed

section \<open>The receiver puts them together\<close>

definition rx_ok :: "nat \<Rightarrow> TransportRx \<Rightarrow> bool" where
  "rx_ok n rx \<longleftrightarrow> length (rx_Buffer rx) = n \<and> rx_NumBytesRead rx \<le> n \<and> rx_Seq rx < 64"

lemma ValidateHeader_valid:
  "Rx_ValidateHeader fir fin q len rx = (True, rx') \<longleftrightarrow>
     (fir \<or> 0 < rx_NumBytesRead rx \<and> q = rx_Seq rx) \<and> (fin \<or> len = 249) \<and>
     rx' = (if fir then rx\<lparr>rx_Seq := q, rx_NumBytesRead := 0\<rparr> else rx)"
  by (auto simp: Rx_ValidateHeader_def Let_def TL_MAX_TPDU_PAYLOAD_def)

lemma ValidateHeader_invalid:
  "Rx_ValidateHeader fir fin q len rx = (False, rx') \<Longrightarrow>
     rx' = (if fir then rx\<lparr>rx_Seq := q, rx_NumBytesRead := 0\<rparr> else rx)"
  by (auto simp: Rx_ValidateHeader_def Let_def split: if_splits)

text \<open>A segment the receiver accepts, and one it drops.\<close>

definition accepts :: "bytes \<Rightarrow> TransportRx \<Rightarrow> bool" where
  "accepts t rx \<longleftrightarrow> (seg_fir t \<or> 0 < rx_NumBytesRead rx \<and> seg_seq t = rx_Seq rx) \<and>
     (seg_fin t \<or> length t = 250) \<and>
     (if seg_fir t then 0 else rx_NumBytesRead rx) + (length t - 1) \<le> length (rx_Buffer rx)"

definition gathered :: "bytes \<Rightarrow> TransportRx \<Rightarrow> bytes" where
  "gathered t rx = (if seg_fir t then [] else take (rx_NumBytesRead rx) (rx_Buffer rx)) @ tl t"

lemma rx_segment_accepts:
  assumes "accepts t rx" and "rx_ok n rx" and "2 \<le> length t"
  obtains rx' where "rx_segment t rx = (rx', if seg_fin t then Some (gathered t rx) else None)"
    and "rx_ok n rx'" and "rx_NumBytesRead rx' = (if seg_fin t then 0 else length (gathered t rx))"
    and "take (length (gathered t rx)) (rx_Buffer rx') = gathered t rx"
    and "rx_Seq rx' = (seg_seq t + 1) mod 64"
proof -
  define r where "r = (if seg_fir t then rx\<lparr>rx_Seq := seg_seq t, rx_NumBytesRead := 0\<rparr> else rx)"
  have v: "Rx_ValidateHeader (seg_fir t) (seg_fin t) (seg_seq t) (length t - 1) rx = (True, r)"
    using assms by (auto simp: ValidateHeader_valid accepts_def r_def)
  have room: "rx_NumBytesRead r + (length t - 1) \<le> length (rx_Buffer r)"
    using assms(1) by (auto simp: accepts_def r_def split: if_splits)
  then have room_left: "\<not> BufferRemaining r < length t - 1" by (simp add: BufferRemaining_def)
  have len: "length (gathered t rx) = rx_NumBytesRead r + (length t - 1)"
    using assms(2) by (simp add: gathered_def r_def rx_ok_def)
  have buf: "take (rx_NumBytesRead r + (length t - 1)) (blit (rx_Buffer r) (rx_NumBytesRead r) (tl t)) = gathered t rx"
    using take_blit_upto [of "rx_NumBytesRead r" "rx_Buffer r" "tl t"] room by (simp add: gathered_def r_def)
  let ?rx = "r\<lparr>rx_Buffer := blit (rx_Buffer r) (rx_NumBytesRead r) (tl t),
     rx_NumBytesRead := if seg_fin t then 0 else rx_NumBytesRead r + (length t - 1), rx_Seq := (rx_Seq r + 1) mod 64\<rparr>"
  have "rx_segment t rx = (?rx, if seg_fin t then Some (gathered t rx) else None)"
    unfolding rx_segment_def v using room_left buf by (simp add: Let_def)
  moreover have "rx_ok n ?rx" using assms(2) room by (auto simp: rx_ok_def r_def split: if_splits)
  moreover have "rx_Seq r = seg_seq t" using assms(1) by (auto simp: accepts_def r_def)
  ultimately show thesis using that [of ?rx] buf by (simp add: len)
qed

lemma rx_segment_drops:
  assumes "\<not> accepts t rx" and "rx_ok n rx" and "2 \<le> length t"
  obtains rx' where "rx_segment t rx = (rx', None)" and "rx_ok n rx'" and "rx' = rx \<or> rx_NumBytesRead rx' = 0"
proof -
  obtain valid r where v: "Rx_ValidateHeader (seg_fir t) (seg_fin t) (seg_seq t) (length t - 1) rx = (valid, r)"
    by (cases "Rx_ValidateHeader (seg_fir t) (seg_fin t) (seg_seq t) (length t - 1) rx")
  have r: "r = (if seg_fir t then rx\<lparr>rx_Seq := seg_seq t, rx_NumBytesRead := 0\<rparr> else rx)"
    using v by (cases valid) (auto simp: ValidateHeader_valid dest: ValidateHeader_invalid)
  then have ok: "rx_ok n r" "r = rx \<or> rx_NumBytesRead r = 0" using assms(2) seg_seq_less by (auto simp: rx_ok_def)
  show thesis
  proof (cases valid)
    case True
    then have "BufferRemaining r < length t - 1"
      using assms v by (auto simp: ValidateHeader_valid accepts_def BufferRemaining_def r rx_ok_def split: if_splits)
    then have "rx_segment t rx = (r\<lparr>rx_NumBytesRead := 0\<rparr>, None)"
      unfolding rx_segment_def v using True by simp
    then show thesis using that ok by (simp add: rx_ok_def)
  next
    case False
    then have "rx_segment t rx = (r, None)" unfolding rx_segment_def v by simp
    then show thesis using that ok by blast
  qed
qed

subsection \<open>Round trip\<close>

lemma receive_legal_step:
  assumes "tl_State s \<noteq> TLS_Closed" and "tl_UpperLayer s" and "2 \<le> length t" and "length t \<le> 250"
    and "rx_segment t (tl_Receiver s) = (rx, f)"
  shows "transport_handle (Tl_Receive t) s = (None, s\<lparr>tl_Receiver := rx,
    tl_out := tl_out s @ (case f of None \<Rightarrow> [] | Some d \<Rightarrow> [App_OnReceive d])\<rparr>)"
  using assms by (cases "tl_State s"; cases f)
    (simp_all add: Transport_OnReceive_def handler_simps ReceiveTPDU_def HandleReceive_legal ReceiveAPDU_def)

lemma receive_segments:
  assumes "tl_State s \<noteq> TLS_Closed" and "tl_UpperLayer s" and "rx_ok n (tl_Receiver s)" and "d \<noteq> []" and "q < 64"
    and "first \<or> 0 < rx_NumBytesRead (tl_Receiver s) \<and> q = rx_Seq (tl_Receiver s)"
    and "(if first then 0 else rx_NumBytesRead (tl_Receiver s)) + length d \<le> n"
  shows "\<exists>rx. run transport_handle (map Tl_Receive (segments q first d)) s = s\<lparr>tl_Receiver := rx, tl_out := tl_out s @
      [App_OnReceive ((if first then [] else take (rx_NumBytesRead (tl_Receiver s)) (rx_Buffer (tl_Receiver s))) @ d)]\<rparr>
    \<and> rx_ok n rx \<and> rx_NumBytesRead rx = 0"
  using assms
proof (induction q first d arbitrary: s rule: segments.induct)
  case (1 q first d)
  let ?rx = "tl_Receiver s"
  let ?t = "Tx_GetHeader first (length d \<le> 249) q # take 249 d"
  note fields = GetHeader_fields [OF \<open>q < 64\<close>]
  have len: "2 \<le> length ?t" "length ?t \<le> 250" using \<open>d \<noteq> []\<close> by (auto simp: Suc_le_eq)
  have acc: "accepts ?t ?rx"
    using 1(7,8) 1(4) by (auto simp: accepts_def fields rx_ok_def min_def)
  obtain rx' where rx': "rx_segment ?t ?rx = (rx', if length d \<le> 249 then Some (gathered ?t ?rx) else None)"
      "rx_ok n rx'" "rx_NumBytesRead rx' = (if length d \<le> 249 then 0 else length (gathered ?t ?rx))"
      "take (length (gathered ?t ?rx)) (rx_Buffer rx') = gathered ?t ?rx" "rx_Seq rx' = (q + 1) mod 64"
    using rx_segment_accepts [OF acc 1(4) len(1)] by (simp add: fields) blast
  let ?base = "if first then [] else take (rx_NumBytesRead ?rx) (rx_Buffer ?rx)"
  have gath: "gathered ?t ?rx = ?base @ take 249 d" by (simp add: gathered_def fields)
  have ne: "gathered ?t ?rx \<noteq> []" using \<open>d \<noteq> []\<close> by (simp add: gath)
  note step = receive_legal_step [OF 1(2,3) len rx'(1)]
  show ?case
  proof (cases "length d \<le> 249")
    case True
    then show ?thesis using step rx'(2,3) \<open>d \<noteq> []\<close> gath
      by (intro exI [of _ rx']) (simp add: segments_step)
  next
    case False
    let ?u = "s\<lparr>tl_Receiver := rx', tl_out := tl_out s\<rparr>"
    have st: "transport_handle (Tl_Receive ?t) s = (None, ?u)" using step False by simp
    have read: "rx_NumBytesRead rx' = length ?base + 249" using rx'(3) gath False by simp
    have room: "rx_NumBytesRead rx' + length (drop 249 d) \<le> n"
      using read False 1(8) 1(4) by (simp add: rx_ok_def split: if_splits)
    have "\<exists>rx. run transport_handle (map Tl_Receive (segments ((q + 1) mod 64) False (drop 249 d))) ?u = ?u\<lparr>tl_Receiver := rx,
        tl_out := tl_out ?u @ [App_OnReceive ((if False then [] else take (rx_NumBytesRead (tl_Receiver ?u)) (rx_Buffer (tl_Receiver ?u)))
          @ drop 249 d)]\<rparr> \<and> rx_ok n rx \<and> rx_NumBytesRead rx = 0"
      by (rule 1(1)) (use 1 False rx' read room ne in simp_all)
    moreover have "take (rx_NumBytesRead rx') (rx_Buffer rx') = ?base @ take 249 d" using rx'(3,4) False gath by simp
    ultimately show ?thesis using \<open>d \<noteq> []\<close> False st by (simp add: segments_step)
  qed
qed

subsection \<open>What a delivered fragment is made of\<close>

text \<open>
  A chain of segments: it starts with a first segment, each but the last is full and not final, and
  each but the first continues the one before it.
\<close>

definition follows :: "bytes \<Rightarrow> bytes \<Rightarrow> bool" where
  "follows t u \<longleftrightarrow> \<not> seg_fin t \<and> length t = 250 \<and> \<not> seg_fir u \<and> seg_seq u = (seg_seq t + 1) mod 64"

fun continues :: "bytes \<Rightarrow> bytes list \<Rightarrow> bool" where
  "continues t [] = True"
| "continues t (u # us) = (follows t u \<and> continues u us)"

definition chain :: "bytes list \<Rightarrow> bool" where
  "chain ts \<longleftrightarrow> ts \<noteq> [] \<and> seg_fir (hd ts) \<and> continues (hd ts) (tl ts)"

lemma continues_snoc [simp]: "continues t (us @ [v]) \<longleftrightarrow> continues t us \<and> follows (last (t # us)) v"
  by (induction t us rule: continues.induct) auto

lemma chain_single: "seg_fir t \<Longrightarrow> chain [t]"
  by (simp add: chain_def)

lemma chain_snoc: "chain ts \<Longrightarrow> follows (last ts) t \<Longrightarrow> chain (ts @ [t])"
  by (cases ts) (auto simp: chain_def)

definition fragment_of :: "bytes list \<Rightarrow> bytes \<Rightarrow> bool" where
  "fragment_of rs d \<longleftrightarrow> (\<exists>ts. subseq ts rs \<and> chain ts \<and> seg_fin (last ts) \<and> d = concat (map tl ts))"

text \<open>What the bytes gathered so far are, of the segments \<open>rs\<close> received so far.\<close>

definition rx_history :: "bytes list \<Rightarrow> TransportRx \<Rightarrow> bool" where
  "rx_history rs rx \<longleftrightarrow> rx_NumBytesRead rx = 0 \<or> (\<exists>ts. subseq ts rs \<and> chain ts \<and> \<not> seg_fin (last ts) \<and>
     length (last ts) = 250 \<and> take (rx_NumBytesRead rx) (rx_Buffer rx) = concat (map tl ts) \<and>
     rx_Seq rx = (seg_seq (last ts) + 1) mod 64)"

lemma rx_history_more: "rx_history rs rx \<Longrightarrow> rx_history (rs @ [t]) rx"
  unfolding rx_history_def by (blast intro: subseq_rev_drop_many)

lemma fragment_of_more: "fragment_of rs d \<Longrightarrow> fragment_of (rs @ [t]) d"
  unfolding fragment_of_def by (blast intro: subseq_rev_drop_many)

lemma rx_segment_history:
  assumes "rx_segment t rx = (rx', f)" and "rx_ok n rx" and "rx_history rs rx" and "2 \<le> length t" and "length t \<le> 250"
  shows "rx_ok n rx' \<and> rx_history (rs @ [t]) rx' \<and> (\<forall>d. f = Some d \<longrightarrow> fragment_of (rs @ [t]) d \<and> length d \<le> n)"
proof (cases "accepts t rx")
  case True
  obtain r where r: "rx_segment t rx = (r, if seg_fin t then Some (gathered t rx) else None)" "rx_ok n r"
      "rx_NumBytesRead r = (if seg_fin t then 0 else length (gathered t rx))"
      "take (length (gathered t rx)) (rx_Buffer r) = gathered t rx" "rx_Seq r = (seg_seq t + 1) mod 64"
    using rx_segment_accepts [OF True assms(2,4)] by blast
  have len: "length (gathered t rx) \<le> n"
    using arg_cong [OF r(4), of length] r(2) by (simp add: rx_ok_def)
  obtain ts where ts: "subseq ts (rs @ [t])" "chain ts" "last ts = t" "gathered t rx = concat (map tl ts)"
  proof (cases "seg_fir t")
    case first: True
    show thesis by (rule that [of "[t]"]) (simp_all add: first chain_single gathered_def subseq_singleton_left)
  next
    case False
    with True have n: "rx_NumBytesRead rx \<noteq> 0" "seg_seq t = rx_Seq rx" by (auto simp: accepts_def)
    then obtain us where us: "subseq us rs" "chain us" "\<not> seg_fin (last us)" "length (last us) = 250"
        "take (rx_NumBytesRead rx) (rx_Buffer rx) = concat (map tl us)" "rx_Seq rx = (seg_seq (last us) + 1) mod 64"
      using assms(3) by (auto simp: rx_history_def)
    show thesis
    proof (rule that [of "us @ [t]"])
      show "subseq (us @ [t]) (rs @ [t])" using us(1) by simp
      show "chain (us @ [t])" using us n False by (intro chain_snoc) (simp_all add: follows_def)
    qed (use us False in \<open>simp_all add: gathered_def\<close>)
  qed
  then have "fragment_of (rs @ [t]) (gathered t rx)" if "seg_fin t" using that unfolding fragment_of_def by blast
  moreover have "rx_history (rs @ [t]) r"
  proof (cases "seg_fin t")
    case False
    then have "length t = 250" using True by (simp add: accepts_def)
    then show ?thesis unfolding rx_history_def using ts r False by (intro disjI2 exI [of _ ts]) simp
  qed (simp add: rx_history_def r(3))
  ultimately show ?thesis using assms(1) r(1,2) len by (auto split: if_splits)
next
  case False
  from rx_segment_drops [OF this assms(2,4)] obtain r where r: "rx_segment t rx = (r, None)" "rx_ok n r"
      "r = rx \<or> rx_NumBytesRead r = 0" by blast
  then have "rx_history (rs @ [t]) r" using rx_history_more [OF assms(3)] by (auto simp: rx_history_def)
  then show ?thesis using r assms(1) by simp
qed

section \<open>The layer\<close>

text \<open>
  The environment: the lower layer reports itself up and down in turns and after it was set, hands up
  segments only while up and only such as fit into a frame, and completes a send only while one of
  this layer's is under way.
\<close>

primrec transport_possible_event :: "TransportEvent \<Rightarrow> TransportLayer \<Rightarrow> bool" where
  "transport_possible_event Tl_SetLowerLayer s = True"
| "transport_possible_event Tl_SetUpperLayer s = True"
| "transport_possible_event Tl_LowerLayerUp s = (tl_LowerLayer s \<and> \<not> tl_IsLowerLayerUp s)"
| "transport_possible_event Tl_LowerLayerDown s = tl_IsLowerLayerUp s"
| "transport_possible_event (Tl_Send d) s = True"
| "transport_possible_event (Tl_Receive d) s = (tl_IsLowerLayerUp s \<and> 1 \<le> length d \<and> length d \<le> 250)"
| "transport_possible_event Tl_SendSuccess s = (tl_State s = TLS_Sending)"
| "transport_possible_event Tl_SendFailure s = (tl_State s = TLS_Sending)"

definition transport_possible :: "TransportLayer \<Rightarrow> TransportEvent \<Rightarrow> bool" where
  "transport_possible s e = transport_possible_event e s"

definition transport_start :: "TransportLayer \<Rightarrow> bool" where
  "transport_start s \<longleftrightarrow> (\<exists>n. s = new_TransportLayer n)"

definition transport_inv :: "TransportLayer \<Rightarrow> bool" where
  "transport_inv s \<longleftrightarrow> (tl_State s = TLS_Closed \<longleftrightarrow> \<not> tl_IsLowerLayerUp s) \<and> tl_ThisLayerUp s = tl_IsLowerLayerUp s \<and>
     tx_ok (tl_Transmitter s) \<and> length (tx_BufferAPDU (tl_Transmitter s)) = tl_FRAG_SIZE s \<and>
     rx_ok (tl_FRAG_SIZE s) (tl_Receiver s)"

text \<open>When an event throws, and what.\<close>

definition transport_result :: "TransportEvent \<Rightarrow> TransportLayer \<Rightarrow> exn option" where
  "transport_result e s = (case e of
     Tl_Send d \<Rightarrow> if d = [] \<or> length d > tl_FRAG_SIZE s then Some ArgumentException
                 else if tl_State s \<noteq> TLS_Ready then Some InvalidStateException else None
   | _ \<Rightarrow> None)"

lemma CheckForSend_inv:
  assumes "tx_ok (tl_Transmitter s)"
  obtains tx' outs where "snd (Tx_CheckForSend s) = s\<lparr>tl_Transmitter := tx', tl_out := tl_out s @ outs\<rparr>"
    and "tx_ok tx'" and "length (tx_BufferAPDU tx') = length (tx_BufferAPDU (tl_Transmitter s))" and "handed_up outs = []"
proof (cases "pending (tl_Transmitter s) = []")
  case True
  let ?tx = "(tl_Transmitter s)\<lparr>tx_NumBytesSent := 0, tx_NumBytesToSend := 0\<rparr>"
  show thesis
    by (rule that [of "[]" ?tx])
      (use assms CheckForSend_done [OF assms True] in \<open>simp_all add: tx_ok_def\<close>)
next
  case False
  from CheckForSend_send [OF assms False] obtain tx' where tx':
    "Tx_CheckForSend s = (False, snd (TransmitTPDU (hd (segments (tx_Seq (tl_Transmitter s))
       (tx_NumBytesSent (tl_Transmitter s) = 0) (pending (tl_Transmitter s)))) (s\<lparr>tl_Transmitter := tx'\<rparr>)))"
    "tx_ok tx'" "length (tx_BufferAPDU tx') = length (tx_BufferAPDU (tl_Transmitter s))" by blast
  show thesis
  proof (cases "tl_LowerLayer s")
    case True
    show thesis
      by (rule that [of "[Lower_Send (hd (segments (tx_Seq (tl_Transmitter s)) (tx_NumBytesSent (tl_Transmitter s) = 0)
          (pending (tl_Transmitter s))))]" tx'])
        (use tx' True in \<open>simp_all add: TransmitTPDU_def handler_simps\<close>)
  next
    case False
    show thesis
      by (rule that [of "[]" tx']) (use tx' False in \<open>simp_all add: TransmitTPDU_def handler_simps\<close>)
  qed
qed

lemma transport_inv_receive:
  assumes "transport_inv s" and "tl_IsLowerLayerUp s" and "1 \<le> length d" and "length d \<le> 250"
  shows "\<exists>rx outs. transport_handle (Tl_Receive d) s = (None, s\<lparr>tl_Receiver := rx, tl_out := tl_out s @ outs\<rparr>) \<and>
    rx_ok (tl_FRAG_SIZE s) rx \<and>
    (\<forall>rs. rx_history rs (tl_Receiver s) \<longrightarrow> rx_history (rs @ [d]) rx \<and>
      (\<forall>x \<in> set (handed_up outs). fragment_of (rs @ [d]) x \<and> length x \<le> tl_FRAG_SIZE s))"
proof -
  have st: "tl_State s \<noteq> TLS_Closed" using assms by (simp add: transport_inv_def)
  then have h: "transport_handle (Tl_Receive d) s = Rx_HandleReceive d s"
    by (cases "tl_State s") (simp_all add: Transport_OnReceive_def handler_simps ReceiveTPDU_def)
  have ok: "rx_ok (tl_FRAG_SIZE s) (tl_Receiver s)" using assms(1) by (simp add: transport_inv_def)
  show ?thesis
  proof (cases "length d = 1")
    case True
    then show ?thesis unfolding h HandleReceive_illegal(2) [OF True] using ok rx_history_more
      by (intro exI [of _ "tl_Receiver s"] exI [of _ "[]"]) simp
  next
    case False
    then have len: "2 \<le> length d" using assms(3) by simp
    obtain rx f where rx: "rx_segment d (tl_Receiver s) = (rx, f)" by (cases "rx_segment d (tl_Receiver s)")
    have step: "Rx_HandleReceive d s = (None, s\<lparr>tl_Receiver := rx,
        tl_out := tl_out s @ (if tl_UpperLayer s then (case f of None \<Rightarrow> [] | Some x \<Rightarrow> [App_OnReceive x]) else [])\<rparr>)"
      using rx by (cases f) (simp_all add: HandleReceive_legal [OF len assms(4)] ReceiveAPDU_def handler_simps)
    have ok': "rx_ok (tl_FRAG_SIZE s) rx"
      using rx_segment_history [OF rx ok _ len assms(4)] rx_segment_history [OF rx ok _ len assms(4), of "[]"]
        rx_segment_accepts [OF _ ok len] rx_segment_drops [OF _ ok len] rx by (metis fst_conv)
    show ?thesis unfolding h step
      using ok' rx_segment_history [OF rx ok _ len assms(4)]
      by (intro exI [of _ rx] exI [of _ "if tl_UpperLayer s then (case f of None \<Rightarrow> [] | Some x \<Rightarrow> [App_OnReceive x]) else []"])
        (auto split: option.splits if_splits)
  qed
qed

lemma transport_step_send:
  assumes inv: "transport_inv s"
  shows "transport_inv (snd (transport_handle (Tl_Send d) s)) \<and> fst (transport_handle (Tl_Send d) s) = transport_result (Tl_Send d) s"
    and "handed_up (tl_out (snd (transport_handle (Tl_Send d) s))) = handed_up (tl_out s)"
    and "tl_Receiver (snd (transport_handle (Tl_Send d) s)) = tl_Receiver s \<and>
      tl_FRAG_SIZE (snd (transport_handle (Tl_Send d) s)) = tl_FRAG_SIZE s"
proof -
  let ?t = "snd (transport_handle (Tl_Send d) s)"
  have "(transport_inv ?t \<and> fst (transport_handle (Tl_Send d) s) = transport_result (Tl_Send d) s) \<and>
    handed_up (tl_out ?t) = handed_up (tl_out s) \<and> tl_Receiver ?t = tl_Receiver s \<and> tl_FRAG_SIZE ?t = tl_FRAG_SIZE s"
  proof (cases "d \<noteq> [] \<and> length d \<le> tl_FRAG_SIZE s \<and> tl_State s = TLS_Ready")
    case True
    let ?tx = "(tl_Transmitter s)\<lparr>tx_BufferAPDU := blit (tx_BufferAPDU (tl_Transmitter s)) 0 d,
      tx_NumBytesSent := 0, tx_NumBytesToSend := length d\<rparr>"
    let ?u = "s\<lparr>tl_State := TLS_Sending, tl_Transmitter := ?tx\<rparr>"
    have ok: "tx_ok (tl_Transmitter ?u)" using inv True by (simp add: transport_inv_def tx_ok_def)
    obtain tx' outs where c: "snd (Tx_CheckForSend ?u) = ?u\<lparr>tl_Transmitter := tx', tl_out := tl_out ?u @ outs\<rparr>"
        "tx_ok tx'" "length (tx_BufferAPDU tx') = length (tx_BufferAPDU (tl_Transmitter ?u))" "handed_up outs = []"
      by (rule CheckForSend_inv [OF ok])
    have "transport_handle (Tl_Send d) s = (None, snd (Tx_CheckForSend ?u))"
      using True inv by (simp add: Transport_Send_def handler_simps Tl_ChangeState_def TransmitAPDU_def Tx_Send_def transport_inv_def)
    then show ?thesis using True inv c by (auto simp: transport_inv_def transport_result_def)
  next
    case False
    then show ?thesis using inv
      by (cases "tl_State s") (auto simp: Transport_Send_def handler_simps TLS_Base_throw_def transport_result_def)
  qed
  then show "transport_inv ?t \<and> fst (transport_handle (Tl_Send d) s) = transport_result (Tl_Send d) s"
    "handed_up (tl_out ?t) = handed_up (tl_out s)"
    "tl_Receiver ?t = tl_Receiver s \<and> tl_FRAG_SIZE ?t = tl_FRAG_SIZE s" by simp_all
qed

lemma transport_step_success:
  assumes inv: "transport_inv s" and st: "tl_State s = TLS_Sending"
  shows "transport_inv (snd (transport_handle Tl_SendSuccess s)) \<and> fst (transport_handle Tl_SendSuccess s) = None"
    and "handed_up (tl_out (snd (transport_handle Tl_SendSuccess s))) = handed_up (tl_out s)"
    and "tl_Receiver (snd (transport_handle Tl_SendSuccess s)) = tl_Receiver s \<and>
      tl_FRAG_SIZE (snd (transport_handle Tl_SendSuccess s)) = tl_FRAG_SIZE s"
proof -
  let ?t = "snd (transport_handle Tl_SendSuccess s)"
  let ?u = "s\<lparr>tl_Transmitter := (tl_Transmitter s)\<lparr>tx_Seq := (tx_Seq (tl_Transmitter s) + 1) mod 64\<rparr>\<rparr>"
  have ok: "tx_ok (tl_Transmitter ?u)" using inv by (simp add: transport_inv_def tx_ok_def)
  obtain tx' outs where c: "snd (Tx_CheckForSend ?u) = ?u\<lparr>tl_Transmitter := tx', tl_out := tl_out ?u @ outs\<rparr>"
      "tx_ok tx'" "length (tx_BufferAPDU tx') = length (tx_BufferAPDU (tl_Transmitter ?u))" "handed_up outs = []"
    by (rule CheckForSend_inv [OF ok])
  have up: "tl_IsLowerLayerUp s" using inv st by (simp add: transport_inv_def)
  have "transport_handle Tl_SendSuccess s =
      (if fst (Tx_CheckForSend ?u) then in_order [Tl_ChangeState TLS_Ready, SignalSendSuccess] (snd (Tx_CheckForSend ?u))
       else (None, snd (Tx_CheckForSend ?u)))"
    using st by (simp add: Transport_OnSendSuccess_def handler_simps unless_ContinueSend_def Tx_SendSuccess_def split: prod.split)
  then have "(transport_inv ?t \<and> fst (transport_handle Tl_SendSuccess s) = None) \<and>
      handed_up (tl_out ?t) = handed_up (tl_out s) \<and> tl_Receiver ?t = tl_Receiver s \<and> tl_FRAG_SIZE ?t = tl_FRAG_SIZE s"
    using inv c st up by (simp add: c(1) Tl_ChangeState_def SignalSendSuccess_def handler_simps transport_inv_def)
  then show "transport_inv ?t \<and> fst (transport_handle Tl_SendSuccess s) = None"
    "handed_up (tl_out ?t) = handed_up (tl_out s)"
    "tl_Receiver ?t = tl_Receiver s \<and> tl_FRAG_SIZE ?t = tl_FRAG_SIZE s" by simp_all
qed

lemmas transport_simple = Transport_SetLowerLayer_def Transport_SetUpperLayer_def Transport_OnLowerLayerUp_def
  Transport_OnLowerLayerDown_def Transport_OnSendFailure_def Tl_ChangeState_def ThisLayerUp_def ThisLayerDown_def
  SignalSendFailure_def handler_simps

lemma transport_step:
  assumes "transport_inv s" and "transport_possible s e"
  shows "transport_inv (snd (transport_handle e s)) \<and> fst (transport_handle e s) = transport_result e s"
proof (cases e)
  case (Tl_Receive d)
  then have "tl_IsLowerLayerUp s" "1 \<le> length d" "length d \<le> 250" using assms(2) by (simp_all add: transport_possible_def)
  from transport_inv_receive [OF assms(1) this] show ?thesis using assms(1)
    by (auto simp: Tl_Receive transport_inv_def transport_result_def)
next
  case (Tl_Send d)
  then show ?thesis using transport_step_send(1) [OF assms(1)] by simp
next
  case Tl_SendSuccess
  then show ?thesis using transport_step_success(1) [OF assms(1)] assms(2)
    by (simp add: transport_possible_def transport_result_def)
next
  case Tl_LowerLayerDown
  then show ?thesis using assms
    by (cases "tl_State s")
      (auto simp: transport_possible_def transport_inv_def transport_result_def transport_simple Rx_Reset_def rx_ok_def)
qed (use assms in \<open>cases "tl_State s",
    auto simp: transport_possible_def transport_inv_def transport_result_def transport_simple\<close>)

interpretation transport: assertion_free_machine transport_handle transport_possible transport_start transport_inv
proof
  show "transport_inv s" if "transport_start s" for s
    using that by (auto simp: transport_start_def new_TransportLayer_def transport_inv_def tx_ok_def rx_ok_def
        new_TransportTx_def new_TransportRx_def new_CopyableBuffer_def TL_MAX_TPDU_LENGTH_def)
  show "transport_inv (snd (transport_handle e s))" if "transport_inv s" "transport_possible s e" for s e
    using transport_step [OF that] by blast
  show "\<not> internal_error (fst (transport_handle e s))" if "transport_inv s" "transport_possible s e" for s e
    using transport_step [OF that] by (auto simp: internal_error_def transport_result_def split: TransportEvent.splits)
qed

text \<open>The segments a list of events brings in.\<close>

primrec received_segments :: "TransportEvent list \<Rightarrow> bytes list" where
  "received_segments [] = []"
| "received_segments (e # es) = (case e of Tl_Receive d \<Rightarrow> [d] | _ \<Rightarrow> []) @ received_segments es"

lemma received_segments_append [simp]: "received_segments (es @ fs) = received_segments es @ received_segments fs"
  by (induction es) auto

definition history_ok :: "bytes list \<Rightarrow> TransportLayer \<Rightarrow> bool" where
  "history_ok rs s \<longleftrightarrow> rx_history rs (tl_Receiver s) \<and>
     (\<forall>d \<in> set (handed_up (tl_out s)). fragment_of rs d \<and> length d \<le> tl_FRAG_SIZE s)"

lemma history_step:
  assumes "transport_inv s" and "transport_possible s e" and "history_ok rs s"
  shows "history_ok (rs @ received_segments [e]) (snd (transport_handle e s)) \<and>
    tl_FRAG_SIZE (snd (transport_handle e s)) = tl_FRAG_SIZE s"
proof (cases e)
  case (Tl_Receive d)
  then have "tl_IsLowerLayerUp s" "1 \<le> length d" "length d \<le> 250" using assms(2) by (simp_all add: transport_possible_def)
  from transport_inv_receive [OF assms(1) this] obtain rx outs where
    "transport_handle (Tl_Receive d) s = (None, s\<lparr>tl_Receiver := rx, tl_out := tl_out s @ outs\<rparr>)"
    "\<forall>rs. rx_history rs (tl_Receiver s) \<longrightarrow> rx_history (rs @ [d]) rx \<and>
      (\<forall>x \<in> set (handed_up outs). fragment_of (rs @ [d]) x \<and> length x \<le> tl_FRAG_SIZE s)" by blast
  then show ?thesis using assms(3) fragment_of_more by (auto simp: Tl_Receive history_ok_def)
next
  case (Tl_Send d)
  then show ?thesis using transport_step_send(2,3) [OF assms(1), of d] assms(3) by (simp add: history_ok_def)
next
  case Tl_SendSuccess
  then show ?thesis using transport_step_success(2,3) [OF assms(1)] assms(2,3)
    by (simp add: history_ok_def transport_possible_def)
next
  case Tl_LowerLayerUp
  then show ?thesis using assms by (cases "tl_State s") (auto simp: history_ok_def transport_simple TLS_Base_throw_def)
next
  case Tl_LowerLayerDown
  then show ?thesis using assms
    by (cases "tl_State s") (auto simp: history_ok_def transport_simple TLS_Base_throw_def rx_history_def Rx_Reset_def)
next
  case Tl_SendFailure
  then show ?thesis using assms by (cases "tl_State s") (auto simp: history_ok_def transport_simple TLS_Base_throw_def)
qed (use assms in \<open>auto simp: history_ok_def transport_simple\<close>)

lemma history_run:
  "transport_inv s \<Longrightarrow> feasible transport_possible transport_handle es s \<Longrightarrow> history_ok rs s \<Longrightarrow>
   history_ok (rs @ received_segments es) (run transport_handle es s) \<and>
   tl_FRAG_SIZE (run transport_handle es s) = tl_FRAG_SIZE s"
proof (induction es arbitrary: rs s)
  case (Cons e es)
  then have "transport_inv (snd (transport_handle e s))" "history_ok (rs @ received_segments [e]) (snd (transport_handle e s))"
    "tl_FRAG_SIZE (snd (transport_handle e s)) = tl_FRAG_SIZE s"
    using transport_step [of s e] history_step [of s e rs] by simp_all
  with Cons.IH Cons.prems(2) show ?case by fastforce
qed simp

section \<open>Properties\<close>

text \<open>A layer that is up, with both neighbours set.\<close>

definition example_up :: "TransportEvent list" where
  "example_up = [Tl_SetLowerLayer, Tl_SetUpperLayer, Tl_LowerLayerUp]"

definition example_transport :: TransportLayer where
  "example_transport = run transport_handle example_up (new_TransportLayer 2048)"

lemma example_transport_fields:
  "tl_State example_transport = TLS_Ready" "tl_IsLowerLayerUp example_transport" "tl_UpperLayer example_transport"
  "tl_LowerLayer example_transport" "tl_FRAG_SIZE example_transport = 2048" "tl_out example_transport = [App_OnLowerLayerUp]"
  "tx_Seq (tl_Transmitter example_transport) = 0"
  by (simp_all add: example_transport_def example_up_def transport_simple new_TransportLayer_def new_TransportTx_def)

lemma example_transport_reachable: "reachable transport_handle transport_possible transport_start example_transport"
  unfolding example_transport_def
  by (rule transport.reachable_run, rule reachable_start)
    (auto simp: example_up_def transport_start_def transport_possible_def transport_simple new_TransportLayer_def)

text \<open>C18: A fragment cut into segments from any sequence number and received, without loss, by a layer that is
  up is handed to the upper layer exactly once and unchanged, whatever the receiver had read before (a
  fragment broken off half way included), and the receiver is then ready for the next.\<close>

theorem fragment_round_trip:
  assumes "reachable transport_handle transport_possible transport_start s" and "tl_IsLowerLayerUp s" and "tl_UpperLayer s"
    and "d \<noteq> []" and "length d \<le> tl_FRAG_SIZE s" and "q < 64"
  defines "t \<equiv> run transport_handle (map Tl_Receive (segments q True d)) s"
  shows "tl_out t = tl_out s @ [App_OnReceive d] \<and> rx_NumBytesRead (tl_Receiver t) = 0 \<and> tl_State t = tl_State s"
proof -
  have "transport_inv s" by (rule transport.reachable_inv [OF assms(1)])
  then have "tl_State s \<noteq> TLS_Closed" "rx_ok (tl_FRAG_SIZE s) (tl_Receiver s)"
    using assms(2) by (auto simp: transport_inv_def)
  from receive_segments [OF this(1) assms(3) this(2) assms(4,6), of True] assms(5) show ?thesis
    by (auto simp: t_def)
qed

text \<open>A fragment of two segments, numbered 63 and 0, after the first segment of another one.\<close>

theorem fragment_round_trip_witness:
  "tl_out (run transport_handle (map Tl_Receive (segments 63 True (replicate 300 7)))
     (run transport_handle [Tl_Receive (0x45 # replicate 249 1)] example_transport))
   = tl_out (run transport_handle [Tl_Receive (0x45 # replicate 249 1)] example_transport) @ [App_OnReceive (replicate 300 7)]"
proof -
  let ?s = "run transport_handle [Tl_Receive (0x45 # replicate 249 1)] example_transport"
  have reach: "reachable transport_handle transport_possible transport_start ?s"
    by (rule transport.reachable_run [OF example_transport_reachable])
      (simp add: transport_possible_def example_transport_fields)
  have inv: "transport_inv example_transport" by (rule transport.reachable_inv [OF example_transport_reachable])
  obtain rx outs where r: "transport_handle (Tl_Receive (0x45 # replicate 249 1)) example_transport =
      (None, example_transport\<lparr>tl_Receiver := rx, tl_out := tl_out example_transport @ outs\<rparr>)"
    using transport_inv_receive [OF inv example_transport_fields(2), of "0x45 # replicate 249 1"] by auto
  have f: "tl_IsLowerLayerUp ?s" "tl_UpperLayer ?s" "tl_FRAG_SIZE ?s = 2048"
    unfolding run.simps r by (simp_all add: example_transport_fields)
  from fragment_round_trip [OF reach f(1,2), of "replicate 300 7" 63] show ?thesis using f(3) by simp
qed

text \<open>C19: A fragment given to a layer that is ready goes down as its segments, in order and one at a time: the
  first at once and one more after each success the lower layer reports, whatever is received in between;
  after the success of the last one the send is reported complete, once, and the layer is ready again.\<close>

theorem send_puts_out_segments:
  assumes "reachable transport_handle transport_possible transport_start s" and "tl_State s = TLS_Ready"
    and "tl_UpperLayer s" and "tl_LowerLayer s" and "d \<noteq> []" and "length d \<le> tl_FRAG_SIZE s"
    and "set es \<subseteq> insert Tl_SendSuccess (range Tl_Receive)"
  defines "ts \<equiv> segments (tx_Seq (tl_Transmitter s)) True d" and "k \<equiv> count_list es Tl_SendSuccess"
    and "t \<equiv> run transport_handle (Tl_Send d # es) s"
  assumes "k \<le> length ts"
  shows "sent_down (tl_out t) = sent_down (tl_out s) @ take (k + 1) ts \<and>
    successes (tl_out t) = successes (tl_out s) + (if k = length ts then 1 else 0) \<and>
    (tl_State t = TLS_Ready \<longleftrightarrow> k = length ts)"
proof -
  have inv: "transport_inv s" by (rule transport.reachable_inv [OF assms(1)])
  let ?P = "sending_at (sent_down (tl_out s)) (successes (tl_out s)) ts"
  have start: "?P 0 (snd (transport_handle (Tl_Send d) s))"
    unfolding ts_def by (rule sending_at_start(2)) (use assms inv in \<open>simp_all add: transport_inv_def\<close>)
  have "?P (count_list es Tl_SendSuccess) (run transport_handle es (snd (transport_handle (Tl_Send d) s)))"
    using assms(7,11) unfolding k_def
  proof (induction es rule: rev_induct)
    case (snoc e es)
    then show ?case
      using sending_at_success [of _ _ ts "count_list es Tl_SendSuccess"] sending_at_receive [of _ _ ts "count_list es Tl_SendSuccess"]
      by (auto simp: run_append)
  qed (use start in simp)
  then have "?P k t" by (simp add: k_def t_def)
  then show ?thesis using assms(11) by (auto simp: sending_at_def split: if_splits)
qed

theorem send_puts_out_segments_witness:
  "sent_down (tl_out (run transport_handle [Tl_Send [1, 2, 3], Tl_Receive [7, 7], Tl_SendSuccess] example_transport)) = [[0xC0, 1, 2, 3]]
   \<and> tl_State (run transport_handle [Tl_Send [1, 2, 3], Tl_Receive [7, 7], Tl_SendSuccess] example_transport) = TLS_Ready"
proof -
  have "segments 0 True [1, 2, 3] = [[0xC0, 1, 2, 3]]"
    by (simp add: segments_step Tx_GetHeader_def transport_consts)
  then show ?thesis
    using send_puts_out_segments [OF example_transport_reachable example_transport_fields(1,3,4),
        of "[1, 2, 3]" "[Tl_Receive [7, 7], Tl_SendSuccess]"]
    by (simp add: example_transport_fields)
qed



text \<open>In every state the layer can reach its state agrees with what the lower layer reported, the bytes
  read and to be sent lie within its buffers and the sequence numbers below 64; and a possible event throws
  only when a send has an illegal length or the layer is not ready for it.\<close>

theorem transport_layer_invariant:
  assumes "reachable transport_handle transport_possible transport_start s"
  shows "(tl_State s = TLS_Closed \<longleftrightarrow> \<not> tl_IsLowerLayerUp s)
    \<and> rx_NumBytesRead (tl_Receiver s) \<le> length (rx_Buffer (tl_Receiver s)) \<and> rx_Seq (tl_Receiver s) < 64
    \<and> tx_NumBytesSent (tl_Transmitter s) \<le> tx_NumBytesToSend (tl_Transmitter s)
    \<and> tx_NumBytesToSend (tl_Transmitter s) \<le> length (tx_BufferAPDU (tl_Transmitter s)) \<and> tx_Seq (tl_Transmitter s) < 64
    \<and> (transport_possible s e \<longrightarrow> fst (transport_handle e s) = (case e of
        Tl_Send d \<Rightarrow> if d = [] \<or> length d > tl_FRAG_SIZE s then Some ArgumentException
                    else if tl_State s \<noteq> TLS_Ready then Some InvalidStateException else None
      | _ \<Rightarrow> None))"
proof -
  have inv: "transport_inv s" by (rule transport.reachable_inv [OF assms])
  then show ?thesis using transport_step [OF inv, of e]
    by (auto simp: transport_inv_def rx_ok_def tx_ok_def transport_result_def)
qed

theorem transport_layer_invariant_witness:
  "fst (transport_handle (Tl_Send []) example_transport) = Some ArgumentException
   \<and> fst (transport_handle (Tl_Send [1]) example_transport) = None"
  using transport_layer_invariant [OF example_transport_reachable, of "Tl_Send []"]
    transport_layer_invariant [OF example_transport_reachable, of "Tl_Send [1]"]
  by (simp add: transport_possible_def example_transport_fields)

end
