(* ===== verification/AppHeaders.thy ===== *)
theory AppHeaders
  imports Packing "HOL-Library.Signed_Division"
begin

text \<open>
  The header of an application layer message: the function codes (opendnp3/DNP3/APDUConstants.h
  and .cpp), the control byte, the internal indications and the request and response headers
  (AppHeader.h, AppHeader.cpp). The lemmas are the round trips through the header bytes.
\<close>

section \<open>Function codes\<close>

datatype FunctionCodes =
    FC_CONFIRM
  | FC_READ
  | FC_WRITE
  | FC_SELECT
  | FC_OPERATE
  | FC_DIRECT_OPERATE
  | FC_DIRECT_OPERATE_NO_ACK
  | FC_FREEZE
  | FC_FREEZE_NO_ACK
  | FC_FREEZE_CLEAR
  | FC_FREEZE_CLEAR_NO_ACK
  | FC_FREEZE_AT_TIME
  | FC_FREEZE_AT_TIME_NO_ACK
  | FC_COLD_RESTART
  | FC_WARM_RESTART
  | FC_INITIALIZE_DATA
  | FC_INITIALIZE_APPLICATION
  | FC_START_APPLICATION
  | FC_STOP_APPLICATION
  | FC_SAVE_CONFIGURATION
  | FC_ENABLE_UNSOLICITED
  | FC_DISABLE_UNSOLICITED
  | FC_ASSIGN_CLASS
  | FC_DELAY_MEASURE
  | FC_RECORD_TIME
  | FC_FILE_OPEN
  | FC_FILE_CLOSE
  | FC_FILE_DELETE
  | FC_FILE_INFO
  | FC_FILE_AUTHENTICATE
  | FC_FILE_ABORT
  | FC_PROPRIETARY_VTO_TRANSFER
  | FC_RESPONSE
  | FC_UNSOLICITED_RESPONSE
  | FC_UNKNOWN

text \<open>The values of the enumerators.\<close>

fun FunctionByte :: "FunctionCodes \<Rightarrow> byte" where
  "FunctionByte FC_CONFIRM = 0"
| "FunctionByte FC_READ = 1"
| "FunctionByte FC_WRITE = 2"
| "FunctionByte FC_SELECT = 3"
| "FunctionByte FC_OPERATE = 4"
| "FunctionByte FC_DIRECT_OPERATE = 5"
| "FunctionByte FC_DIRECT_OPERATE_NO_ACK = 6"
| "FunctionByte FC_FREEZE = 7"
| "FunctionByte FC_FREEZE_NO_ACK = 8"
| "FunctionByte FC_FREEZE_CLEAR = 9"
| "FunctionByte FC_FREEZE_CLEAR_NO_ACK = 10"
| "FunctionByte FC_FREEZE_AT_TIME = 11"
| "FunctionByte FC_FREEZE_AT_TIME_NO_ACK = 12"
| "FunctionByte FC_COLD_RESTART = 13"
| "FunctionByte FC_WARM_RESTART = 14"
| "FunctionByte FC_INITIALIZE_DATA = 15"
| "FunctionByte FC_INITIALIZE_APPLICATION = 16"
| "FunctionByte FC_START_APPLICATION = 17"
| "FunctionByte FC_STOP_APPLICATION = 18"
| "FunctionByte FC_SAVE_CONFIGURATION = 19"
| "FunctionByte FC_ENABLE_UNSOLICITED = 20"
| "FunctionByte FC_DISABLE_UNSOLICITED = 21"
| "FunctionByte FC_ASSIGN_CLASS = 22"
| "FunctionByte FC_DELAY_MEASURE = 23"
| "FunctionByte FC_RECORD_TIME = 24"
| "FunctionByte FC_FILE_OPEN = 25"
| "FunctionByte FC_FILE_CLOSE = 26"
| "FunctionByte FC_FILE_DELETE = 27"
| "FunctionByte FC_FILE_INFO = 28"
| "FunctionByte FC_FILE_AUTHENTICATE = 29"
| "FunctionByte FC_FILE_ABORT = 30"
| "FunctionByte FC_PROPRIETARY_VTO_TRANSFER = 100"
| "FunctionByte FC_RESPONSE = 129"
| "FunctionByte FC_UNSOLICITED_RESPONSE = 130"
| "FunctionByte FC_UNKNOWN = 255"

definition IntToFunction :: "int \<Rightarrow> FunctionCodes" where
  "IntToFunction aFunction =
     (if aFunction = 0 then FC_CONFIRM
      else if aFunction = 1 then FC_READ
      else if aFunction = 2 then FC_WRITE
      else if aFunction = 3 then FC_SELECT
      else if aFunction = 4 then FC_OPERATE
      else if aFunction = 5 then FC_DIRECT_OPERATE
      else if aFunction = 6 then FC_DIRECT_OPERATE_NO_ACK
      else if aFunction = 7 then FC_FREEZE
      else if aFunction = 8 then FC_FREEZE_NO_ACK
      else if aFunction = 9 then FC_FREEZE_CLEAR
      else if aFunction = 10 then FC_FREEZE_CLEAR_NO_ACK
      else if aFunction = 11 then FC_FREEZE_AT_TIME
      else if aFunction = 12 then FC_FREEZE_AT_TIME_NO_ACK
      else if aFunction = 13 then FC_COLD_RESTART
      else if aFunction = 14 then FC_WARM_RESTART
      else if aFunction = 15 then FC_INITIALIZE_DATA
      else if aFunction = 16 then FC_INITIALIZE_APPLICATION
      else if aFunction = 17 then FC_START_APPLICATION
      else if aFunction = 18 then FC_STOP_APPLICATION
      else if aFunction = 19 then FC_SAVE_CONFIGURATION
      else if aFunction = 20 then FC_ENABLE_UNSOLICITED
      else if aFunction = 21 then FC_DISABLE_UNSOLICITED
      else if aFunction = 22 then FC_ASSIGN_CLASS
      else if aFunction = 23 then FC_DELAY_MEASURE
      else if aFunction = 24 then FC_RECORD_TIME
      else if aFunction = 25 then FC_FILE_OPEN
      else if aFunction = 26 then FC_FILE_CLOSE
      else if aFunction = 27 then FC_FILE_DELETE
      else if aFunction = 28 then FC_FILE_INFO
      else if aFunction = 29 then FC_FILE_AUTHENTICATE
      else if aFunction = 30 then FC_FILE_ABORT
      else if aFunction = 100 then FC_PROPRIETARY_VTO_TRANSFER
      else if aFunction = 129 then FC_RESPONSE
      else if aFunction = 130 then FC_UNSOLICITED_RESPONSE
      else FC_UNKNOWN)"

definition IsResponse :: "FunctionCodes \<Rightarrow> bool" where
  "IsResponse aCode \<longleftrightarrow> aCode = FC_RESPONSE \<or> aCode = FC_UNSOLICITED_RESPONSE"

definition IsRequest :: "FunctionCodes \<Rightarrow> bool" where
  "IsRequest aCode \<longleftrightarrow> \<not> (aCode = FC_CONFIRM \<or> aCode = FC_RESPONSE \<or> aCode = FC_UNSOLICITED_RESPONSE)"

lemma IntToFunction_FunctionByte [simp]: "IntToFunction (uint (FunctionByte c)) = c"
  by (cases c) (simp_all add: IntToFunction_def)

lemma FunctionByte_inject: "FunctionByte c = FunctionByte d \<longleftrightarrow> c = d"
  by (metis IntToFunction_FunctionByte)

section \<open>The control byte\<close>

named_theorems apdu_consts \<open>the enumerators of APDUConstants.h\<close>

definition ACM_FIR :: byte where [apdu_consts]: "ACM_FIR = 0x80"
definition ACM_FIN :: byte where [apdu_consts]: "ACM_FIN = 0x40"
definition ACM_CON :: byte where [apdu_consts]: "ACM_CON = 0x20"
definition ACM_UNS :: byte where [apdu_consts]: "ACM_UNS = 0x10"
definition ACM_SEQ :: byte where [apdu_consts]: "ACM_SEQ = 0x0F"

record AppControlField =
  FIR :: bool
  FIN :: bool
  CON :: bool
  UNS :: bool
  SEQ :: int

text \<open>
  \<open>SEQ % 16\<close> is the remainder of C++, whose sign is that of \<open>SEQ\<close>; the or with the byte keeps
  the low eight bits of the result.
\<close>

definition control_byte :: "AppControlField \<Rightarrow> byte" where
  "control_byte arControl =
     (let b = (0 :: byte);
          b = (if FIR arControl then b OR ACM_FIR else b);
          b = (if FIN arControl then b OR ACM_FIN else b);
          b = (if CON arControl then b OR ACM_CON else b);
          b = (if UNS arControl then b OR ACM_UNS else b)
      in b OR word_of_int (SEQ arControl smod 16))"

definition SetControl :: "bytes \<Rightarrow> AppControlField \<Rightarrow> bytes" where
  "SetControl apStart arControl = apStart[0 := control_byte arControl]"

definition control_of :: "byte \<Rightarrow> AppControlField" where
  "control_of b = \<lparr>FIR = b AND ACM_FIR \<noteq> 0, FIN = b AND ACM_FIN \<noteq> 0, CON = b AND ACM_CON \<noteq> 0,
     UNS = b AND ACM_UNS \<noteq> 0, SEQ = uint (b AND ACM_SEQ)\<rparr>"

definition GetControl :: "bytes \<Rightarrow> AppControlField" where
  "GetControl apStart = control_of (apStart ! 0)"

definition SetFunction :: "bytes \<Rightarrow> FunctionCodes \<Rightarrow> bytes" where
  "SetFunction apStart aCode = apStart[1 := FunctionByte aCode]"

definition GetFunction :: "bytes \<Rightarrow> FunctionCodes" where
  "GetFunction apStart = IntToFunction (uint (apStart ! 1))"

section \<open>Internal indications\<close>

text \<open>
  The sixteen indications, the mask of each within its byte, and which of the two bytes holds it.
  The get and set members of the source are one macro each, \<open>MACRO_GET_BIT\<close> and
  \<open>MACRO_SET_BIT\<close>, instantiated with the byte and the mask of each indication.
\<close>

datatype IINIndices =
    IINI_ALL_STATIONS
  | IINI_CLASS1_EVENTS
  | IINI_CLASS2_EVENTS
  | IINI_CLASS3_EVENTS
  | IINI_NEED_TIME
  | IINI_LOCAL_CONTROL
  | IINI_DEVICE_TROUBLE
  | IINI_DEVICE_RESTART
  | IINI_FUNC_NOT_SUPPORTED
  | IINI_OBJECT_UNKNOWN
  | IINI_PARAM_ERROR
  | IINI_EVENT_BUFFER_OVERFLOW
  | IINI_ALREADY_EXECUTING
  | IINI_CONFIG_CORRUPT
  | IINI_RESERVED1
  | IINI_RESERVED2

fun IINMask :: "IINIndices \<Rightarrow> byte" where
  "IINMask IINI_ALL_STATIONS = 0x01"
| "IINMask IINI_CLASS1_EVENTS = 0x02"
| "IINMask IINI_CLASS2_EVENTS = 0x04"
| "IINMask IINI_CLASS3_EVENTS = 0x08"
| "IINMask IINI_NEED_TIME = 0x10"
| "IINMask IINI_LOCAL_CONTROL = 0x20"
| "IINMask IINI_DEVICE_TROUBLE = 0x40"
| "IINMask IINI_DEVICE_RESTART = 0x80"
| "IINMask IINI_FUNC_NOT_SUPPORTED = 0x01"
| "IINMask IINI_OBJECT_UNKNOWN = 0x02"
| "IINMask IINI_PARAM_ERROR = 0x04"
| "IINMask IINI_EVENT_BUFFER_OVERFLOW = 0x08"
| "IINMask IINI_ALREADY_EXECUTING = 0x10"
| "IINMask IINI_CONFIG_CORRUPT = 0x20"
| "IINMask IINI_RESERVED1 = 0x40"
| "IINMask IINI_RESERVED2 = 0x80"

fun in_LSB :: "IINIndices \<Rightarrow> bool" where
  "in_LSB IINI_ALL_STATIONS = True"
| "in_LSB IINI_CLASS1_EVENTS = True"
| "in_LSB IINI_CLASS2_EVENTS = True"
| "in_LSB IINI_CLASS3_EVENTS = True"
| "in_LSB IINI_NEED_TIME = True"
| "in_LSB IINI_LOCAL_CONTROL = True"
| "in_LSB IINI_DEVICE_TROUBLE = True"
| "in_LSB IINI_DEVICE_RESTART = True"
| "in_LSB IINI_FUNC_NOT_SUPPORTED = False"
| "in_LSB IINI_OBJECT_UNKNOWN = False"
| "in_LSB IINI_PARAM_ERROR = False"
| "in_LSB IINI_EVENT_BUFFER_OVERFLOW = False"
| "in_LSB IINI_ALREADY_EXECUTING = False"
| "in_LSB IINI_CONFIG_CORRUPT = False"
| "in_LSB IINI_RESERVED1 = False"
| "in_LSB IINI_RESERVED2 = False"

record IINField =
  mLSB :: byte
  mMSB :: byte

definition GetIndication :: "IINIndices \<Rightarrow> IINField \<Rightarrow> bool" where
  "GetIndication i f \<longleftrightarrow> IINMask i AND (if in_LSB i then mLSB f else mMSB f) \<noteq> 0"

definition set_bit_of :: "byte \<Rightarrow> bool \<Rightarrow> byte \<Rightarrow> byte" where
  "set_bit_of m aVal value = (if aVal then value OR m else value AND NOT m)"

definition SetIndication :: "IINIndices \<Rightarrow> bool \<Rightarrow> IINField \<Rightarrow> IINField" where
  "SetIndication i aVal f =
     (if in_LSB i then f\<lparr>mLSB := set_bit_of (IINMask i) aVal (mLSB f)\<rparr>
      else f\<lparr>mMSB := set_bit_of (IINMask i) aVal (mMSB f)\<rparr>)"

definition IINField_Zero :: "IINField \<Rightarrow> IINField" where
  "IINField_Zero f = f\<lparr>mLSB := 0, mMSB := 0\<rparr>"

definition IINField_BitwiseOR :: "IINField \<Rightarrow> IINField \<Rightarrow> IINField" where
  "IINField_BitwiseOR arIIN f = f\<lparr>mLSB := mLSB f OR mLSB arIIN, mMSB := mMSB f OR mMSB arIIN\<rparr>"

definition SetIIN :: "bytes \<Rightarrow> IINField \<Rightarrow> bytes" where
  "SetIIN apStart arIIN = (apStart[2 := mLSB arIIN])[3 := mMSB arIIN]"

definition GetIIN :: "bytes \<Rightarrow> IINField" where
  "GetIIN apStart = \<lparr>mLSB = apStart ! 2, mMSB = apStart ! 3\<rparr>"

section \<open>Header types\<close>

datatype AppHeaderTypes = AHT_RESPONSE | AHT_REQUEST

fun AppHeader_GetSize :: "AppHeaderTypes \<Rightarrow> nat" where
  "AppHeader_GetSize AHT_REQUEST = 2"
| "AppHeader_GetSize AHT_RESPONSE = 4"

section \<open>Round trips\<close>

lemma control_of_control_byte_all:
  "list_all (\<lambda>s. list_all (\<lambda>(a, b, c, d).
       control_of (control_byte \<lparr>FIR = a, FIN = b, CON = c, UNS = d, SEQ = s\<rparr>)
         = \<lparr>FIR = a, FIN = b, CON = c, UNS = d, SEQ = s\<rparr>)
     [(a, b, c, d). a \<leftarrow> [False, True], b \<leftarrow> [False, True], c \<leftarrow> [False, True], d \<leftarrow> [False, True]])
   [0..15]"
  by code_simp

lemma control_of_control_byte:
  assumes "0 \<le> SEQ f" and "SEQ f < 16"
  shows "control_of (control_byte f) = f"
proof -
  obtain a b c d s where f: "f = \<lparr>FIR = a, FIN = b, CON = c, UNS = d, SEQ = s\<rparr>"
    by (cases f) blast
  have "s \<in> set [0..15]" using assms by (simp add: f)
  with control_of_control_byte_all show ?thesis
    unfolding list_all_iff f by (cases a; cases b; cases c; cases d) fastforce+
qed

lemma control_byte_control_of_all:
  "list_all (\<lambda>n. control_byte (control_of (word_of_nat n)) = word_of_nat n) [0..<256]"
  by code_simp

lemma control_byte_control_of [simp]: "control_byte (control_of b) = b"
proof -
  have "unat b \<in> set [0..<256]" using unsigned_less [of b] by simp
  with control_byte_control_of_all have
    "control_byte (control_of (word_of_nat (unat b))) = word_of_nat (unat b)"
    unfolding list_all_iff by blast
  then show ?thesis by simp
qed

lemma set_bit_of_masks:
  "i \<noteq> j \<Longrightarrow> in_LSB i = in_LSB j \<Longrightarrow> IINMask i AND IINMask j = 0"
  by (cases i; cases j) simp_all

lemma mask_not_zero: "IINMask i \<noteq> 0"
  by (cases i) simp_all

lemma set_bit_of_same:
  assumes "m \<noteq> 0"
  shows "(m AND set_bit_of m v x \<noteq> 0) = v"
proof -
  have "m AND (x AND NOT m) = 0" by (rule bit_word_eqI) (auto simp: bit_simps)
  then show ?thesis
    using assms by (cases v) (simp_all add: set_bit_of_def bit.conj_disj_distrib or_eq_0_iff)
qed

lemma set_bit_of_other:
  assumes "m AND k = 0"
  shows "m AND set_bit_of k v x = m AND x"
proof (rule bit_word_eqI)
  fix n assume "n < LENGTH(8)"
  have "bit (m AND k) n = False" by (simp add: assms)
  then show "bit (m AND set_bit_of k v x) n = bit (m AND x) n"
    using \<open>n < LENGTH(8)\<close> by (auto simp: set_bit_of_def bit_simps)
qed

lemma GetIndication_SetIndication:
  "GetIndication i (SetIndication j v f) = (if i = j then v else GetIndication i f)"
proof (cases "i = j")
  case True
  then show ?thesis
    using set_bit_of_same [OF mask_not_zero [of i]] by (simp add: GetIndication_def SetIndication_def)
next
  case False
  then show ?thesis
    using set_bit_of_other [OF set_bit_of_masks [of i j]]
    by (simp add: GetIndication_def SetIndication_def)
qed

lemma GetIndication_BitwiseOR:
  "GetIndication i (IINField_BitwiseOR g f) \<longleftrightarrow> GetIndication i f \<or> GetIndication i g"
  by (simp add: GetIndication_def IINField_BitwiseOR_def bit.conj_disj_distrib or_eq_0_iff)

lemma header_lengths [simp]:
  "length (SetControl p c) = length p" "length (SetFunction p f) = length p" "length (SetIIN p i) = length p"
  by (simp_all add: SetControl_def SetFunction_def SetIIN_def)

lemma header_fields [simp]:
  "0 < length p \<Longrightarrow> 0 \<le> SEQ c \<Longrightarrow> SEQ c < 16 \<Longrightarrow> GetControl (SetControl p c) = c"
  "GetControl (SetFunction p f) = GetControl p" "GetControl (SetIIN p i) = GetControl p"
  "1 < length p \<Longrightarrow> GetFunction (SetFunction p f) = f"
  "GetFunction (SetControl p c) = GetFunction p" "GetFunction (SetIIN p i) = GetFunction p"
  "3 < length p \<Longrightarrow> GetIIN (SetIIN p i) = i"
  "GetIIN (SetControl p c) = GetIIN p" "GetIIN (SetFunction p f) = GetIIN p"
  by (simp_all add: GetControl_def SetControl_def GetFunction_def SetFunction_def GetIIN_def
      SetIIN_def control_of_control_byte)

section \<open>Properties\<close>

text \<open>The application header is read back as it was set: the four flags and the sequence number of
  the control byte, the function code and both bytes of the internal indications, whatever the
  order of the other fields; every control byte is the encoding of what is read from it; and
  setting one of the sixteen indications changes that one and no other.\<close>

theorem application_header_round_trip:
  assumes "4 \<le> length p" and "0 \<le> SEQ c" "SEQ c < 16"
  shows "GetControl (SetIIN (SetFunction (SetControl p c) f) iin) = c \<and>
    GetFunction (SetIIN (SetFunction (SetControl p c) f) iin) = f \<and>
    GetIIN (SetIIN (SetFunction (SetControl p c) f) iin) = iin \<and>
    SetControl p (GetControl p) = p \<and>
    GetIndication i (SetIndication j v iin) = (if i = j then v else GetIndication i iin)"
proof -
  have "p \<noteq> []" using assms(1) by auto
  then have "SetControl p (GetControl p) = p"
    by (simp add: SetControl_def GetControl_def)
  moreover have "3 < length (SetFunction (SetControl p c) f)" "1 < length (SetControl p c)"
    using assms(1) by simp_all
  ultimately show ?thesis
    using assms \<open>p \<noteq> []\<close> by (simp add: GetIndication_SetIndication)
qed

theorem application_header_round_trip_witness:
  "GetControl (SetIIN (SetFunction (SetControl [0, 0, 0, 0]
     \<lparr>FIR = True, FIN = True, CON = False, UNS = True, SEQ = 13\<rparr>) FC_RESPONSE) \<lparr>mLSB = 0x80, mMSB = 0\<rparr>)
   = \<lparr>FIR = True, FIN = True, CON = False, UNS = True, SEQ = 13\<rparr>"
  using application_header_round_trip [of "[0, 0, 0, 0]"
      "\<lparr>FIR = True, FIN = True, CON = False, UNS = True, SEQ = 13\<rparr>"] by simp

end
