(* ===== verification/DNPObjects.thy ===== *)
theory DNPObjects
  imports Packing
begin

text \<open>
  The objects of the DNP3 object library: their kinds (opendnp3/DNP3/ObjectInterfaces.h), the table
  of every group and variation with its size and its fields (Objects.h), the lookup by group and
  variation (ObjectInterfaces.cpp) and the packing of bits (\<open>BitfieldObject\<close>). The lemmas say which
  object a lookup finds, that the fields of an object tile its bytes, and that bits do not disturb
  one another.
\<close>

section \<open>Objects\<close>

datatype ObjectTypes =
    OT_PLACEHOLDER
  | OT_FIXED
  | OT_BITFIELD
  | OT_VARIABLE
  | OT_SIZE_BY_VARIATION

text \<open>The packers of opendnp3/APL/PackingUnpacking.h and the bytes each reads and writes.\<close>

datatype packer = UInt8 | UInt16LE | UInt32LE | UInt48LE | Int16LE | Int32LE | SingleFloat | DoubleFloat

fun packer_Size :: "packer \<Rightarrow> nat" where
  "packer_Size UInt8 = 1"
| "packer_Size UInt16LE = 2"
| "packer_Size UInt32LE = 4"
| "packer_Size UInt48LE = 6"
| "packer_Size Int16LE = 2"
| "packer_Size Int32LE = 4"
| "packer_Size SingleFloat = 4"
| "packer_Size DoubleFloat = 8"

text \<open>
  The \<open>Pack<packer, position>\<close> members. \<open>mValueOverRange\<close> is an \<open>mValue\<close> declared by
  \<open>MACRO_DECLARE_VALUE_OVERRANGE\<close>, whose mask is \<open>AQ_OVERRANGE\<close> everywhere.
\<close>

datatype field_name =
    mFlag | mValue | mValueOverRange | mTime | mCode | mCount | mOnTime | mOffTime | mStatus | mInterval

type_synonym field = "field_name \<times> packer \<times> nat"

text \<open>An object class: what its virtual members return. Only a fixed object has a size of its own.\<close>

record DNPObject =
  ob_group :: nat
  ob_var :: nat
  ob_type :: ObjectTypes
  ob_size :: nat
  ob_event :: bool
  ob_cto :: bool
  ob_fields :: "field list"

named_theorems object_kinds \<open>the object classes\<close>

definition PlaceHolderObject :: "nat \<Rightarrow> nat \<Rightarrow> DNPObject" where
  [object_kinds]: "PlaceHolderObject g v = \<lparr>ob_group = g, ob_var = v, ob_type = OT_PLACEHOLDER,
     ob_size = 0, ob_event = False, ob_cto = False, ob_fields = []\<rparr>"

definition BitfieldObject :: "nat \<Rightarrow> nat \<Rightarrow> DNPObject" where
  [object_kinds]: "BitfieldObject g v = \<lparr>ob_group = g, ob_var = v, ob_type = OT_BITFIELD,
     ob_size = 0, ob_event = False, ob_cto = False, ob_fields = []\<rparr>"

definition SizeByVariationObject :: "nat \<Rightarrow> nat \<Rightarrow> DNPObject" where
  [object_kinds]: "SizeByVariationObject g v = \<lparr>ob_group = g, ob_var = v, ob_type = OT_SIZE_BY_VARIATION,
     ob_size = 0, ob_event = False, ob_cto = False, ob_fields = []\<rparr>"

definition FixedObject :: "nat \<Rightarrow> nat \<Rightarrow> nat \<Rightarrow> field list \<Rightarrow> DNPObject" where
  [object_kinds]: "FixedObject g v n fs = \<lparr>ob_group = g, ob_var = v, ob_type = OT_FIXED,
     ob_size = n, ob_event = False, ob_cto = False, ob_fields = fs\<rparr>"

definition EventObject :: "nat \<Rightarrow> nat \<Rightarrow> nat \<Rightarrow> field list \<Rightarrow> DNPObject" where
  [object_kinds]: "EventObject g v n fs = (FixedObject g v n fs)\<lparr>ob_event := True\<rparr>"

section \<open>The object table\<close>

named_theorems object_tables \<open>the declarations of Objects.h\<close>

definition binary_objects :: "DNPObject list" where
  [object_tables]: "binary_objects =
    [PlaceHolderObject 1 0,
     BitfieldObject 1 1,
     FixedObject 1 2 1 [(mFlag, UInt8, 0)],
     PlaceHolderObject 2 0,
     EventObject 2 1 1 [(mFlag, UInt8, 0)],
     EventObject 2 2 7 [(mFlag, UInt8, 0), (mTime, UInt48LE, 1)],
     (EventObject 2 3 3 [(mFlag, UInt8, 0), (mTime, UInt16LE, 1)])\<lparr>ob_cto := True\<rparr>,
     PlaceHolderObject 10 0,
     BitfieldObject 10 1,
     FixedObject 10 2 1 [(mFlag, UInt8, 0)],
     FixedObject 12 1 11 [(mCode, UInt8, 0), (mCount, UInt8, 1), (mOnTime, UInt32LE, 2), (mOffTime, UInt32LE, 6), (mStatus, UInt8, 10)],
     FixedObject 12 2 11 [(mCode, UInt8, 0), (mCount, UInt8, 1), (mOnTime, UInt32LE, 2), (mOffTime, UInt32LE, 6), (mStatus, UInt8, 10)],
     BitfieldObject 12 3]"

definition counter_objects :: "DNPObject list" where
  [object_tables]: "counter_objects =
    [PlaceHolderObject 20 0,
     FixedObject 20 1 5 [(mFlag, UInt8, 0), (mValue, UInt32LE, 1)],
     FixedObject 20 2 3 [(mFlag, UInt8, 0), (mValue, UInt16LE, 1)],
     FixedObject 20 3 5 [(mFlag, UInt8, 0), (mValue, UInt32LE, 1)],
     FixedObject 20 4 3 [(mFlag, UInt8, 0), (mValue, UInt16LE, 1)],
     FixedObject 20 5 4 [(mValue, UInt32LE, 0)],
     FixedObject 20 6 2 [(mValue, UInt16LE, 0)],
     FixedObject 20 7 4 [(mValue, UInt32LE, 0)],
     FixedObject 20 8 2 [(mValue, UInt16LE, 0)]]"

definition frozen_counter_objects :: "DNPObject list" where
  [object_tables]: "frozen_counter_objects =
    [PlaceHolderObject 21 0,
     FixedObject 21 1 5 [(mFlag, UInt8, 0), (mValue, UInt32LE, 1)],
     FixedObject 21 2 3 [(mFlag, UInt8, 0), (mValue, UInt16LE, 1)],
     FixedObject 21 3 5 [(mFlag, UInt8, 0), (mValue, UInt32LE, 1)],
     FixedObject 21 4 3 [(mFlag, UInt8, 0), (mValue, UInt16LE, 1)],
     FixedObject 21 5 11 [(mFlag, UInt8, 0), (mValue, UInt32LE, 1), (mTime, UInt48LE, 5)],
     FixedObject 21 6 9 [(mFlag, UInt8, 0), (mValue, UInt16LE, 1), (mTime, UInt48LE, 3)],
     FixedObject 21 7 11 [(mFlag, UInt8, 0), (mValue, UInt32LE, 1), (mTime, UInt48LE, 5)],
     FixedObject 21 8 9 [(mFlag, UInt8, 0), (mValue, UInt16LE, 1), (mTime, UInt48LE, 3)],
     FixedObject 21 9 4 [(mValue, UInt32LE, 0)],
     FixedObject 21 10 2 [(mValue, UInt16LE, 0)],
     FixedObject 21 11 4 [(mValue, UInt32LE, 0)],
     FixedObject 21 12 2 [(mValue, UInt16LE, 0)]]"

definition counter_events :: "DNPObject list" where
  [object_tables]: "counter_events =
    [PlaceHolderObject 22 0,
     EventObject 22 1 5 [(mFlag, UInt8, 0), (mValue, UInt32LE, 1)],
     EventObject 22 2 3 [(mFlag, UInt8, 0), (mValue, UInt16LE, 1)],
     EventObject 22 3 5 [(mFlag, UInt8, 0), (mValue, UInt32LE, 1)],
     FixedObject 22 4 3 [(mFlag, UInt8, 0), (mValue, UInt16LE, 1)],
     EventObject 22 5 11 [(mFlag, UInt8, 0), (mValue, UInt32LE, 1), (mTime, UInt48LE, 5)],
     EventObject 22 6 9 [(mFlag, UInt8, 0), (mValue, UInt16LE, 1), (mTime, UInt48LE, 3)],
     EventObject 22 7 11 [(mFlag, UInt8, 0), (mValue, UInt32LE, 1), (mTime, UInt48LE, 5)],
     EventObject 22 8 9 [(mFlag, UInt8, 0), (mValue, UInt16LE, 1), (mTime, UInt48LE, 3)],
     PlaceHolderObject 23 0,
     EventObject 23 1 5 [(mFlag, UInt8, 0), (mValue, UInt32LE, 1)],
     EventObject 23 2 3 [(mFlag, UInt8, 0), (mValue, UInt16LE, 1)],
     EventObject 23 3 5 [(mFlag, UInt8, 0), (mValue, UInt32LE, 1)],
     EventObject 23 4 3 [(mFlag, UInt8, 0), (mValue, UInt16LE, 1)],
     EventObject 23 5 11 [(mFlag, UInt8, 0), (mValue, UInt32LE, 1), (mTime, UInt48LE, 5)],
     EventObject 23 6 9 [(mFlag, UInt8, 0), (mValue, UInt16LE, 1), (mTime, UInt48LE, 3)],
     EventObject 23 7 11 [(mFlag, UInt8, 0), (mValue, UInt32LE, 1), (mTime, UInt48LE, 5)],
     EventObject 23 8 9 [(mFlag, UInt8, 0), (mValue, UInt16LE, 1), (mTime, UInt48LE, 3)]]"

definition analog_objects :: "DNPObject list" where
  [object_tables]: "analog_objects =
    [PlaceHolderObject 30 0,
     FixedObject 30 1 5 [(mFlag, UInt8, 0), (mValueOverRange, Int32LE, 1)],
     FixedObject 30 2 3 [(mFlag, UInt8, 0), (mValueOverRange, Int16LE, 1)],
     FixedObject 30 3 4 [(mValue, Int32LE, 0)],
     FixedObject 30 4 2 [(mValue, Int16LE, 0)],
     FixedObject 30 5 5 [(mFlag, UInt8, 0), (mValueOverRange, SingleFloat, 1)],
     FixedObject 30 6 9 [(mFlag, UInt8, 0), (mValueOverRange, DoubleFloat, 1)],
     PlaceHolderObject 31 0,
     FixedObject 31 1 5 [(mFlag, UInt8, 0), (mValueOverRange, Int32LE, 1)],
     FixedObject 31 2 3 [(mFlag, UInt8, 0), (mValueOverRange, Int16LE, 1)],
     FixedObject 31 3 11 [(mFlag, UInt8, 0), (mValueOverRange, Int32LE, 1), (mTime, UInt48LE, 5)],
     FixedObject 31 4 9 [(mFlag, UInt8, 0), (mValueOverRange, Int16LE, 1), (mTime, UInt48LE, 3)],
     FixedObject 31 5 4 [(mValue, Int32LE, 0)],
     FixedObject 31 6 2 [(mValue, Int16LE, 0)],
     FixedObject 31 7 5 [(mFlag, UInt8, 0), (mValue, SingleFloat, 1)],
     FixedObject 31 8 9 [(mFlag, UInt8, 0), (mValue, DoubleFloat, 1)]]"

definition analog_events :: "DNPObject list" where
  [object_tables]: "analog_events =
    [PlaceHolderObject 32 0,
     EventObject 32 1 5 [(mFlag, UInt8, 0), (mValueOverRange, Int32LE, 1)],
     EventObject 32 2 3 [(mFlag, UInt8, 0), (mValueOverRange, Int16LE, 1)],
     EventObject 32 3 11 [(mFlag, UInt8, 0), (mValueOverRange, Int32LE, 1), (mTime, UInt48LE, 5)],
     EventObject 32 4 9 [(mFlag, UInt8, 0), (mValueOverRange, Int16LE, 1), (mTime, UInt48LE, 3)],
     EventObject 32 5 5 [(mFlag, UInt8, 0), (mValue, SingleFloat, 1)],
     EventObject 32 6 9 [(mFlag, UInt8, 0), (mValue, DoubleFloat, 1)],
     EventObject 32 7 11 [(mFlag, UInt8, 0), (mValue, SingleFloat, 1), (mTime, UInt48LE, 5)],
     EventObject 32 8 15 [(mFlag, UInt8, 0), (mValue, DoubleFloat, 1), (mTime, UInt48LE, 9)],
     PlaceHolderObject 33 0,
     EventObject 33 1 5 [(mFlag, UInt8, 0), (mValueOverRange, Int32LE, 1)],
     EventObject 33 2 3 [(mFlag, UInt8, 0), (mValueOverRange, Int16LE, 1)],
     EventObject 33 3 11 [(mFlag, UInt8, 0), (mValueOverRange, Int32LE, 1), (mTime, UInt48LE, 5)],
     EventObject 33 4 9 [(mFlag, UInt8, 0), (mValueOverRange, Int16LE, 1), (mTime, UInt48LE, 3)],
     EventObject 33 5 5 [(mFlag, UInt8, 0), (mValue, SingleFloat, 1)],
     EventObject 33 6 9 [(mFlag, UInt8, 0), (mValue, DoubleFloat, 1)],
     EventObject 33 7 11 [(mFlag, UInt8, 0), (mValue, SingleFloat, 1), (mTime, UInt48LE, 5)],
     EventObject 33 8 15 [(mFlag, UInt8, 0), (mValue, DoubleFloat, 1), (mTime, UInt48LE, 9)]]"

definition output_objects :: "DNPObject list" where
  [object_tables]: "output_objects =
    [PlaceHolderObject 40 0,
     FixedObject 40 1 5 [(mFlag, UInt8, 0), (mValue, Int32LE, 1)],
     FixedObject 40 2 3 [(mFlag, UInt8, 0), (mValue, Int16LE, 1)],
     FixedObject 40 3 5 [(mFlag, UInt8, 0), (mValue, SingleFloat, 1)],
     FixedObject 40 4 9 [(mFlag, UInt8, 0), (mValue, DoubleFloat, 1)],
     FixedObject 41 1 5 [(mValue, Int32LE, 0), (mStatus, UInt8, 4)],
     FixedObject 41 2 3 [(mValue, Int16LE, 0), (mStatus, UInt8, 2)],
     FixedObject 41 3 5 [(mValue, SingleFloat, 0), (mStatus, UInt8, 4)],
     FixedObject 41 4 9 [(mValue, DoubleFloat, 0), (mStatus, UInt8, 8)]]"

definition other_objects :: "DNPObject list" where
  [object_tables]: "other_objects =
    [FixedObject 50 1 6 [(mTime, UInt48LE, 0)],
     FixedObject 50 2 10 [(mTime, UInt48LE, 0), (mInterval, UInt32LE, 0)],
     FixedObject 51 1 6 [(mTime, UInt48LE, 0)],
     FixedObject 51 2 6 [(mTime, UInt48LE, 0)],
     FixedObject 52 1 2 [(mTime, UInt16LE, 0)],
     FixedObject 52 2 2 [(mTime, UInt16LE, 0)],
     PlaceHolderObject 60 1,
     PlaceHolderObject 60 2,
     PlaceHolderObject 60 3,
     PlaceHolderObject 60 4,
     BitfieldObject 80 1,
     SizeByVariationObject 110 0,
     SizeByVariationObject 111 0,
     SizeByVariationObject 112 0,
     SizeByVariationObject 113 0]"

definition DNPObjects :: "DNPObject list" where
  "DNPObjects = binary_objects @ counter_objects @ frozen_counter_objects @ counter_events @ analog_objects @ analog_events @ output_objects @ other_objects"

text \<open>\<open>Group<g>Var<v>::Inst()\<close>.\<close>

definition object_Inst :: "nat \<Rightarrow> nat \<Rightarrow> DNPObject option" where
  "object_Inst g v = List.find (\<lambda>ob. ob_group ob = g \<and> ob_var ob = v) DNPObjects"

section \<open>Lookup\<close>

definition RADIX :: "nat \<Rightarrow> nat \<Rightarrow> nat" where
  "RADIX g v = push_bit 4 g OR v"

text \<open>The \<open>MACRO_RADIX_CASE\<close>s and the \<open>MACRO_GROUP_CASE\<close>s.\<close>

definition registered_cases :: "(nat \<times> nat) list" where
  [object_tables]: "registered_cases =
    [(1, 0), (1, 1), (1, 2),
     (2, 0), (2, 1), (2, 2), (2, 3),
     (10, 0), (10, 1), (10, 2),
     (12, 1), (12, 2), (12, 3),
     (20, 0), (20, 1), (20, 2), (20, 3), (20, 4), (20, 5), (20, 6), (20, 7), (20, 8),
     (21, 0), (21, 1), (21, 2), (21, 3), (21, 4), (21, 5), (21, 6), (21, 7), (21, 8), (21, 9), (21, 10), (21, 11), (21, 12),
     (22, 0), (22, 1), (22, 2), (22, 3), (22, 4), (22, 5), (22, 6), (22, 7), (22, 8),
     (23, 0), (23, 1), (23, 2), (23, 3), (23, 4), (23, 5), (23, 6), (23, 7), (23, 8),
     (30, 0), (30, 1), (30, 2), (30, 3), (30, 4), (30, 5), (30, 6),
     (31, 0), (31, 1), (31, 2), (31, 3), (31, 4), (31, 5), (31, 6),
     (32, 0), (32, 1), (32, 2), (32, 3), (32, 4), (32, 5), (32, 6), (32, 7), (32, 8),
     (33, 0), (33, 1), (33, 2), (33, 3), (33, 4), (33, 5), (33, 6), (33, 7), (33, 8),
     (40, 0), (40, 1), (40, 2), (40, 3), (40, 4),
     (41, 1), (41, 2), (41, 3), (41, 4),
     (50, 1), (50, 2),
     (51, 1), (51, 2),
     (52, 1), (52, 2),
     (60, 1), (60, 2), (60, 3), (60, 4),
     (80, 1)]"

definition group_cases :: "nat list" where
  "group_cases = [110, 111, 112, 113]"

definition ObjectBase_Get :: "nat \<Rightarrow> nat \<Rightarrow> DNPObject option" where
  "ObjectBase_Get aGroup aVariation =
     (case List.find (\<lambda>(g, v). RADIX g v = RADIX aGroup aVariation) registered_cases of
        Some (g, v) \<Rightarrow> object_Inst g v
      | None \<Rightarrow> if aGroup \<in> set group_cases then object_Inst aGroup 0 else None)"

section \<open>Bitfields\<close>

definition Bitfield_GetSize :: "nat \<Rightarrow> nat" where
  "Bitfield_GetSize aNumValues =
     (let ret = drop_bit 3 aNumValues in if aNumValues AND 0x07 \<noteq> 0 then ret + 1 else ret)"

text \<open>\<open>apPos\<close> is the offset \<open>off\<close> in the buffer \<open>p\<close>.\<close>

definition Bitfield_Zero :: "bytes \<Rightarrow> nat \<Rightarrow> nat \<Rightarrow> bytes" where
  "Bitfield_Zero p off aNumValues =
     fold (\<lambda>i p. p[off + i := 0]) [0..<Bitfield_GetSize aNumValues] p"

definition Bitfield_Read :: "bytes \<Rightarrow> nat \<Rightarrow> nat \<Rightarrow> nat \<Rightarrow> exn + bool" where
  "Bitfield_Read p off aStartIndex aIndex =
     (if aIndex < aStartIndex then Inl AssertionFailed
      else let pos = aIndex - aStartIndex
           in Inr (p ! (off + drop_bit 3 pos) AND push_bit (pos AND 0x07) 1 \<noteq> 0))"

definition Bitfield_Write :: "bytes \<Rightarrow> nat \<Rightarrow> nat \<Rightarrow> nat \<Rightarrow> bool \<Rightarrow> exn + bytes" where
  "Bitfield_Write p off aStartIndex aIndex aValue =
     (if aIndex < aStartIndex then Inl AssertionFailed
      else let pos = aIndex - aStartIndex;
               at = off + drop_bit 3 pos;
               bit_mask = push_bit (pos AND 0x07) 1
           in Inr (if aValue then p[at := p ! at OR bit_mask] else p[at := p ! at AND NOT bit_mask]))"

section \<open>What a lookup finds\<close>

text \<open>The cases of the switch are all the objects of the table but two, and those found by group.\<close>

lemma registered_keys:
  "registered_cases = filter (\<lambda>(g, v). g < 110 \<and> \<not> (g = 31 \<and> 6 < v))
     (map (\<lambda>ob. (ob_group ob, ob_var ob)) DNPObjects)"
  by (simp add: DNPObjects_def object_tables object_kinds)

lemma registered_small_all: "list_all (\<lambda>(g, v). v < 16) registered_cases"
  by (simp add: object_tables)

lemma object_Inst_registered:
  assumes "(g, v) \<in> set registered_cases"
  shows "g \<notin> set group_cases" "\<exists>ob. object_Inst g v = Some ob"
proof -
  have g: "g < 110" "\<exists>ob \<in> set DNPObjects. ob_group ob = g \<and> ob_var ob = v"
    using assms unfolding registered_keys by auto
  show "g \<notin> set group_cases" using g(1) by (auto simp: group_cases_def)
  show "\<exists>ob. object_Inst g v = Some ob"
    using g(2) by (cases "object_Inst g v") (auto simp: object_Inst_def find_None_iff)
qed

lemma object_Inst_by_group:
  "list_all (\<lambda>g. map_option ob_type (object_Inst g 0) = Some OT_SIZE_BY_VARIATION) group_cases"
  by (simp add: group_cases_def object_Inst_def DNPObjects_def object_tables object_kinds)

lemma object_Inst_fields: "object_Inst g v = Some ob \<Longrightarrow> ob_group ob = g \<and> ob_var ob = v"
  by (auto simp: object_Inst_def find_Some_iff)

lemma RADIX_small: "v < 16 \<Longrightarrow> RADIX g v = 16 * g + v"
proof -
  assume "v < 16"
  then have v: "v = take_bit 4 v" by (simp add: take_bit_nat_eq_self)
  have "push_bit 4 g AND take_bit 4 v = 0"
    by (rule bit_eqI) (auto simp: bit_simps)
  then have "push_bit 4 g OR take_bit 4 v = push_bit 4 g + take_bit 4 v"
    by (rule disjunctive_add_eq_or [symmetric])
  with v show ?thesis by (simp add: RADIX_def push_bit_eq_mult)
qed

lemma RADIX_inject: "v < 16 \<Longrightarrow> w < 16 \<Longrightarrow> RADIX g v = RADIX h w \<longleftrightarrow> g = h \<and> v = w"
  by (auto simp: RADIX_small) presburger+

lemma registered_small: "(g, v) \<in> set registered_cases \<Longrightarrow> v < 16"
  using registered_small_all by (auto simp: list_all_iff)

lemma find_equal: "List.find (\<lambda>y. y = x) xs = (if x \<in> set xs then Some x else None)"
  by (induction xs) auto

lemma find_registered:
  assumes "v < 16"
  shows "List.find (\<lambda>(h, w). RADIX h w = RADIX g v) registered_cases =
    (if (g, v) \<in> set registered_cases then Some (g, v) else None)"
proof -
  have eq: "RADIX h w = RADIX g v \<longleftrightarrow> (h, w) = (g, v)" if "(h, w) \<in> set registered_cases" for h w
    using RADIX_inject [OF registered_small [OF that] assms] by auto
  have "List.find (\<lambda>(h, w). RADIX h w = RADIX g v) registered_cases =
      List.find (\<lambda>hw. hw = (g, v)) registered_cases"
    by (rule find_cong) (auto simp: eq)
  also have "\<dots> = (if (g, v) \<in> set registered_cases then Some (g, v) else None)"
    by (rule find_equal)
  finally show ?thesis .
qed

lemma ObjectBase_Get_small:
  "v < 16 \<Longrightarrow> ObjectBase_Get g v =
     (if (g, v) \<in> set registered_cases then object_Inst g v
      else if g \<in> set group_cases then object_Inst g 0 else None)"
  by (simp add: ObjectBase_Get_def find_registered)

text \<open>A variation of sixteen or more runs into the bits of the group.\<close>

lemma RADIX_large:
  assumes "v < 16"
  shows "RADIX g (16 + v) = RADIX (g OR 1) v"
proof -
  have "(16 :: nat) + v = push_bit 4 1 OR v"
    using RADIX_small [OF assms, of 1] by (simp add: RADIX_def)
  then show ?thesis by (simp add: RADIX_def push_bit_or or.assoc)
qed

section \<open>Bitfields\<close>

lemma drop3: "drop_bit 3 n = n div 8" for n :: nat
  by (simp add: drop_bit_eq_div)

lemma and7: "n AND 7 = n mod 8" for n :: nat
  using take_bit_eq_mask [of 3 n] by (simp add: take_bit_eq_mod mask_eq_exp_minus_1)

lemma Bitfield_GetSize_ceiling: "Bitfield_GetSize n = (n + 7) div 8"
proof -
  have "(n + 7) div 8 = n div 8 + (if n mod 8 = 0 then 0 else 1)" by presburger
  then show ?thesis by (simp add: Bitfield_GetSize_def drop3 and7)
qed

lemma bit_pos_in_size: "pos < n \<Longrightarrow> pos div 8 < Bitfield_GetSize n"
  by (simp add: Bitfield_GetSize_ceiling)

lemma length_Bitfield_Write: "Bitfield_Write p off start i v = Inr q \<Longrightarrow> length q = length p"
  by (auto simp: Bitfield_Write_def Let_def split: if_splits)

lemma mask_bit: "(x AND 2 ^ k = 0) = (\<not> bit x k)" for x :: byte
  by (simp add: bit_iff_and_push_bit_not_eq_0)

lemma Bitfield_Read_bit:
  "start \<le> i \<Longrightarrow> Bitfield_Read p off start i =
     Inr (bit (p ! (off + (i - start) div 8)) ((i - start) mod 8))"
  by (simp add: Bitfield_Read_def Let_def drop3 and7 mask_bit)

lemma Bitfield_Write_bit:
  "start \<le> i \<Longrightarrow> Bitfield_Write p off start i v =
     Inr (p[off + (i - start) div 8 :=
       (if v then set_bit else unset_bit) ((i - start) mod 8) (p ! (off + (i - start) div 8))])"
  by (simp add: Bitfield_Write_def drop3 and7 Let_def set_bit_eq_or unset_bit_eq_and_not)

lemma Bitfield_Read_Write:
  assumes i: "start \<le> i" "i < start + n" and j: "start \<le> j" "j < start + n"
    and room: "off + Bitfield_GetSize n \<le> length p"
  obtains q where "Bitfield_Write p off start i v = Inr q"
    and "Bitfield_Read q off start j = (if j = i then Inr v else Bitfield_Read p off start j)"
    and "length q = length p"
    and "\<And>k. k < off \<or> off + Bitfield_GetSize n \<le> k \<Longrightarrow> q ! k = p ! k"
proof -
  define a where "a = (i - start) div 8"
  define b where "b = (i - start) mod 8"
  define x where "x = (if v then set_bit else unset_bit) b (p ! (off + a))"
  define q where "q = p[off + a := x]"
  have at: "a < Bitfield_GetSize n" unfolding a_def using i by (intro bit_pos_in_size) auto
  have same: "j = i \<longleftrightarrow> (j - start) div 8 = a \<and> (j - start) mod 8 = b"
    using i(1) j(1) unfolding a_def b_def by (metis le_add_diff_inverse div_mod_decomp)
  have b: "b < LENGTH(8)" by (simp add: b_def)
  have "Bitfield_Write p off start i v = Inr q"
    using i by (simp add: Bitfield_Write_bit a_def b_def x_def q_def)
  moreover have "Bitfield_Read q off start j = (if j = i then Inr v else Bitfield_Read p off start j)"
    using j at room b same
    by (auto simp: Bitfield_Read_bit q_def x_def nth_list_update bit_set_bit_iff bit_unset_bit_iff)
  moreover have "q ! k = p ! k" if "k < off \<or> off + Bitfield_GetSize n \<le> k" for k
    using that at by (auto simp: q_def)
  ultimately show thesis using that by (auto simp: q_def)
qed

section \<open>Field layouts\<close>

text \<open>The fields follow one another from \<open>at\<close> on, with no gap and no overlap, and end at \<open>n\<close>.\<close>

fun tiles :: "nat \<Rightarrow> field list \<Rightarrow> nat \<Rightarrow> bool" where
  "tiles at [] n = (at = n)"
| "tiles at ((name, packer, pos) # fs) n = (pos = at \<and> tiles (at + packer_Size packer) fs n)"

definition field_pos :: "field \<Rightarrow> nat" where
  "field_pos f = snd (snd f)"

definition field_end :: "field \<Rightarrow> nat" where
  "field_end f = field_pos f + packer_Size (fst (snd f))"

lemma tiles_bounds:
  "tiles at fs n \<Longrightarrow> at \<le> n \<and> (\<forall>f \<in> set fs. at \<le> field_pos f \<and> field_end f \<le> n)"
proof (induction at fs n rule: tiles.induct)
  case (2 at name packer pos fs n)
  then show ?case by (fastforce simp: field_pos_def field_end_def)
qed simp

lemma tiles_disjoint:
  "tiles at fs n \<Longrightarrow> i < j \<Longrightarrow> j < length fs \<Longrightarrow> field_end (fs ! i) \<le> field_pos (fs ! j)"
proof (induction at fs n arbitrary: i j rule: tiles.induct)
  case (2 at name packer pos fs n)
  show ?case
  proof (cases i)
    case 0
    with 2 tiles_bounds [of "at + packer_Size packer" fs n] show ?thesis
      by (auto simp: field_end_def field_pos_def nth_Cons' dest!: nth_mem)
  next
    case (Suc k)
    with 2 show ?thesis by (auto simp: nth_Cons')
  qed
qed simp

lemma fixed_objects_tile:
  "list_all (\<lambda>ob. ob_type ob = OT_FIXED \<and> \<not> (ob_group ob = 50 \<and> ob_var ob = 2) \<longrightarrow>
     tiles 0 (ob_fields ob) (ob_size ob)) DNPObjects"
  by (simp add: DNPObjects_def object_tables object_kinds)

section \<open>Properties\<close>

text \<open>For a variation below sixteen, the range the lookup's key leaves for it, \<open>ObjectBase::Get\<close>
  answers with the object of exactly that group and variation, or with the object of the group
  when its size is encoded in the variation; it answers NULL exactly for the groups and variations
  that are in neither switch.\<close>

theorem object_lookup_exact:
  assumes "aVariation < 16"
  shows "case ObjectBase_Get aGroup aVariation of
      Some ob \<Rightarrow> ob_group ob = aGroup \<and> (ob_var ob = aVariation \<or> ob_type ob = OT_SIZE_BY_VARIATION)
    | None \<Rightarrow> (aGroup, aVariation) \<notin> set registered_cases \<and> aGroup \<notin> set group_cases"
proof (cases "(aGroup, aVariation) \<in> set registered_cases")
  case True
  then show ?thesis
    using object_Inst_registered(2) [OF True] object_Inst_fields
    by (fastforce simp: ObjectBase_Get_small [OF assms])
next
  case notin: False
  show ?thesis
  proof (cases "aGroup \<in> set group_cases")
    case True
    with object_Inst_by_group obtain ob where
      "object_Inst aGroup 0 = Some ob" "ob_type ob = OT_SIZE_BY_VARIATION"
      by (auto simp: list_all_iff)
    with True notin object_Inst_fields show ?thesis
      by (fastforce simp: ObjectBase_Get_small [OF assms])
  qed (use notin in \<open>simp add: ObjectBase_Get_small [OF assms]\<close>)
qed

theorem object_lookup_exact_witness:
  "\<exists>ob. ObjectBase_Get 30 5 = Some ob \<and> ob_group ob = 30 \<and>
     (ob_var ob = 5 \<or> ob_type ob = OT_SIZE_BY_VARIATION)"
  using object_lookup_exact [of 5 30]
  by (cases "ObjectBase_Get 30 5") (simp_all add: object_tables)

text \<open>A variation of sixteen or more changes the group the lookup finds: with an odd group it is
  taken for the variation sixteen less, with an even group for that variation of the next group. So
  the reserved group 0 with variation 17 is read as group 1 variation 1, binary inputs packed
  in bits, and not refused as an undefined object.\<close>

theorem large_variation_misread:
  assumes "v < 16"
  shows "(odd g \<longrightarrow> ObjectBase_Get g (16 + v) = ObjectBase_Get g v) \<and>
    (even g \<and> (g + 1, v) \<in> set registered_cases \<longrightarrow>
      ObjectBase_Get g (16 + v) = ObjectBase_Get (g + 1) v) \<and>
    ObjectBase_Get 0 17 = Some (BitfieldObject 1 1)"
proof (intro conjI impI)
  have or1: "g OR 1 = (if odd g then g else g + 1)"
    using or_one_eq [of g] by simp
  show "ObjectBase_Get g (16 + v) = ObjectBase_Get g v" if "odd g"
    using that by (simp add: ObjectBase_Get_def RADIX_large [OF assms] or1 del: One_nat_def)
  show "ObjectBase_Get g (16 + v) = ObjectBase_Get (g + 1) v"
    if even: "even g \<and> (g + 1, v) \<in> set registered_cases"
  proof -
    have "List.find (\<lambda>(h, w). RADIX h w = RADIX g (16 + v)) registered_cases = Some (g + 1, v)"
      using even find_registered [OF assms, of "g + 1"]
      by (simp add: RADIX_large [OF assms] or1 del: One_nat_def)
    with even show ?thesis
      unfolding ObjectBase_Get_def [of g] ObjectBase_Get_small [OF assms] by simp
  qed
  show "ObjectBase_Get 0 17 = Some (BitfieldObject 1 1)"
    by (simp add: ObjectBase_Get_def RADIX_def object_Inst_def DNPObjects_def object_tables object_kinds)
qed

theorem large_variation_misread_witness:
  "ObjectBase_Get 0 (16 + 2) = ObjectBase_Get (0 + 1) 2 \<and> ObjectBase_Get 1 (16 + 2) = ObjectBase_Get 1 2"
  using large_variation_misread [of 2 1] large_variation_misread [of 2 0]
  by (simp add: object_tables)

text \<open>C38: The fields of every fixed object but one follow one another without gap or overlap and fill
  the object's size exactly, so that a write of one field leaves every other as it was and no field
  reaches beyond the object. The exception is the interval time, group 50 variation 2.\<close>

theorem object_fields_tile:
  assumes "ob \<in> set DNPObjects" and "ob_type ob = OT_FIXED"
    and "\<not> (ob_group ob = 50 \<and> ob_var ob = 2)" and "j < length (ob_fields ob)"
  shows "field_end (ob_fields ob ! j) \<le> ob_size ob \<and>
    (\<forall>i < j. field_end (ob_fields ob ! i) \<le> field_pos (ob_fields ob ! j)) \<and>
    (\<Sum>f \<leftarrow> ob_fields ob. packer_Size (fst (snd f))) = ob_size ob"
proof (intro conjI allI impI)
  have t: "tiles 0 (ob_fields ob) (ob_size ob)"
    using fixed_objects_tile assms(1-3) by (auto simp: list_all_iff)
  show "field_end (ob_fields ob ! j) \<le> ob_size ob"
    using tiles_bounds [OF t] assms(4) by auto
  show "field_end (ob_fields ob ! i) \<le> field_pos (ob_fields ob ! j)" if "i < j" for i
    using tiles_disjoint [OF t that assms(4)] .
  have "tiles at fs n \<Longrightarrow> at + (\<Sum>f \<leftarrow> fs. packer_Size (fst (snd f))) = n" for at fs n
    by (induction at fs n rule: tiles.induct) auto
  from this [OF t] show "(\<Sum>f \<leftarrow> ob_fields ob. packer_Size (fst (snd f))) = ob_size ob" by simp
qed

theorem object_fields_tile_witness:
  "field_end (mValue, UInt32LE, 1) \<le> 5"
  using object_fields_tile [of "FixedObject 20 1 5 [(mFlag, UInt8, 0), (mValue, UInt32LE, 1)]" 1]
  by (simp add: DNPObjects_def object_tables object_kinds)

text \<open>The interval time object, group 50 variation 2, declares ten bytes but puts its time and its
  interval at the same byte: the two fields overlap and the last four bytes belong to neither.\<close>

theorem interval_time_fields_overlap:
  "\<exists>ob. object_Inst 50 2 = Some ob \<and> ob_size ob = 10 \<and>
     map field_pos (ob_fields ob) = [0, 0] \<and> map field_end (ob_fields ob) = [6, 4]"
  by (simp add: object_Inst_def DNPObjects_def object_tables object_kinds field_pos_def field_end_def)

text \<open>Writing one bit of a packed array changes that bit and no other: a read of the written index
  gives the value, a read of any other index of the array gives what it gave before, and no byte
  outside the \<open>GetSize\<close> bytes of the array changes.\<close>

theorem bits_do_not_interfere:
  assumes "aStart \<le> i" "i < aStart + n" and "aStart \<le> j" "j < aStart + n"
    and "off + Bitfield_GetSize n \<le> length p"
  shows "\<exists>q. Bitfield_Write p off aStart i v = Inr q \<and> length q = length p \<and>
    Bitfield_Read q off aStart j = (if j = i then Inr v else Bitfield_Read p off aStart j) \<and>
    (\<forall>k. k < off \<or> off + Bitfield_GetSize n \<le> k \<longrightarrow> q ! k = p ! k)"
  using Bitfield_Read_Write [OF assms] by metis

theorem bits_do_not_interfere_witness:
  "\<exists>q. Bitfield_Write [0, 0, 0] 1 5 14 True = Inr q \<and> length q = length [0, 0, 0 :: byte] \<and>
    Bitfield_Read q 1 5 6 = (if 6 = (14 :: nat) then Inr True else Bitfield_Read [0, 0, 0] 1 5 6) \<and>
    (\<forall>k. k < 1 \<or> 1 + Bitfield_GetSize 10 \<le> k \<longrightarrow> q ! k = [0, 0, 0 :: byte] ! k)"
  by (rule bits_do_not_interfere) (simp_all add: Bitfield_GetSize_ceiling)

end
