(* ===== verification/ObjectHeaders.thy ===== *)
theory ObjectHeaders
  imports Packing
begin

text \<open>
  The object headers of an application layer message (opendnp3/DNP3/ObjectHeader.h and .cpp): the
  qualifier codes (APDUConstants.h), the group, variation and qualifier every header starts with,
  and the range or count that follows. The lemmas are the round trips through the bytes of a header.
\<close>

section \<open>Qualifier codes\<close>

datatype QualifierCode =
    QC_1B_START_STOP
  | QC_2B_START_STOP
  | QC_4B_START_STOP
  | QC_ALL_OBJ
  | QC_1B_CNT
  | QC_2B_CNT
  | QC_4B_CNT
  | QC_1B_CNT_1B_INDEX
  | QC_2B_CNT_2B_INDEX
  | QC_4B_CNT_4B_INDEX
  | QC_1B_VCNT_1B_SIZE
  | QC_1B_VCNT_2B_SIZE
  | QC_1B_VCNT_4B_SIZE
  | QC_UNDEFINED

fun QualifierByte :: "QualifierCode \<Rightarrow> byte" where
  "QualifierByte QC_1B_START_STOP = 0x00"
| "QualifierByte QC_2B_START_STOP = 0x01"
| "QualifierByte QC_4B_START_STOP = 0x02"
| "QualifierByte QC_ALL_OBJ = 0x06"
| "QualifierByte QC_1B_CNT = 0x07"
| "QualifierByte QC_2B_CNT = 0x08"
| "QualifierByte QC_4B_CNT = 0x09"
| "QualifierByte QC_1B_CNT_1B_INDEX = 0x17"
| "QualifierByte QC_2B_CNT_2B_INDEX = 0x28"
| "QualifierByte QC_4B_CNT_4B_INDEX = 0x39"
| "QualifierByte QC_1B_VCNT_1B_SIZE = 0x4B"
| "QualifierByte QC_1B_VCNT_2B_SIZE = 0x5B"
| "QualifierByte QC_1B_VCNT_4B_SIZE = 0x6B"
| "QualifierByte QC_UNDEFINED = 0xFF"

definition ByteToQualifierCode :: "byte \<Rightarrow> QualifierCode" where
  "ByteToQualifierCode aCode =
     (if aCode = 0x00 then QC_1B_START_STOP
      else if aCode = 0x01 then QC_2B_START_STOP
      else if aCode = 0x02 then QC_4B_START_STOP
      else if aCode = 0x06 then QC_ALL_OBJ
      else if aCode = 0x07 then QC_1B_CNT
      else if aCode = 0x08 then QC_2B_CNT
      else if aCode = 0x09 then QC_4B_CNT
      else if aCode = 0x17 then QC_1B_CNT_1B_INDEX
      else if aCode = 0x28 then QC_2B_CNT_2B_INDEX
      else if aCode = 0x39 then QC_4B_CNT_4B_INDEX
      else if aCode = 0x4B then QC_1B_VCNT_1B_SIZE
      else if aCode = 0x5B then QC_1B_VCNT_2B_SIZE
      else if aCode = 0x6B then QC_1B_VCNT_4B_SIZE
      else QC_UNDEFINED)"

lemma ByteToQualifierCode_QualifierByte [simp]: "ByteToQualifierCode (QualifierByte q) = q"
  by (cases q) (simp_all add: ByteToQualifierCode_def)

section \<open>The common part of a header\<close>

record ObjectHeaderField =
  Group :: byte
  Variation :: byte
  Qualifier :: QualifierCode

text \<open>\<open>apStart\<close> is the offset \<open>off\<close> in the buffer \<open>p\<close>.\<close>

definition ObjectHeader_Get :: "bytes \<Rightarrow> nat \<Rightarrow> ObjectHeaderField" where
  "ObjectHeader_Get p off = \<lparr>Group = p ! off, Variation = p ! (off + 1),
     Qualifier = ByteToQualifierCode (p ! (off + 2))\<rparr>"

definition ObjectHeader_Set :: "bytes \<Rightarrow> nat \<Rightarrow> byte \<Rightarrow> byte \<Rightarrow> QualifierCode \<Rightarrow> bytes" where
  "ObjectHeader_Set p off aGrp aVar aQual =
     ((p[off := aGrp])[off + 1 := aVar])[off + 2 := QualifierByte aQual]"

section \<open>Ranges and counts\<close>

text \<open>
  The templates \<open>RangedHeader<T, U>\<close> and \<open>CountHeader<T, U>\<close>: the members of the codec \<open>T\<close> they use
  are arguments.
\<close>

definition RangedHeader_GetRange :: "(bytes \<Rightarrow> nat \<Rightarrow> 'a::len word) \<Rightarrow> nat \<Rightarrow> bytes \<Rightarrow> nat \<Rightarrow> nat \<times> nat" where
  "RangedHeader_GetRange T_Read T_Size p off =
     (unat (T_Read p (off + 3)), unat (T_Read p (off + 3 + T_Size)))"

definition RangedHeader_SetRange ::
  "(bytes \<Rightarrow> nat \<Rightarrow> 'a::len word \<Rightarrow> bytes) \<Rightarrow> nat \<Rightarrow> nat \<Rightarrow> bytes \<Rightarrow> nat \<Rightarrow> nat \<Rightarrow> nat \<Rightarrow> exn + bytes" where
  "RangedHeader_SetRange T_Write T_Size T_Max p off Start Stop =
     (if Start > Stop then Inl ArgumentException
      else if Stop > T_Max then Inl ArgumentException
      else Inr (T_Write (T_Write p (off + 3) (word_of_nat Start)) (off + 3 + T_Size) (word_of_nat Stop)))"

definition CountHeader_GetCount :: "(bytes \<Rightarrow> nat \<Rightarrow> 'a::len word) \<Rightarrow> bytes \<Rightarrow> nat \<Rightarrow> nat" where
  "CountHeader_GetCount T_Read p off = unat (T_Read p (off + 3))"

definition CountHeader_SetCount ::
  "(bytes \<Rightarrow> nat \<Rightarrow> 'a::len word \<Rightarrow> bytes) \<Rightarrow> nat \<Rightarrow> bytes \<Rightarrow> nat \<Rightarrow> nat \<Rightarrow> exn + bytes" where
  "CountHeader_SetCount T_Write T_Max p off aCount =
     (if aCount > T_Max then Inl ArgumentException else Inr (T_Write p (off + 3) (word_of_nat aCount)))"

datatype ObjectHeaderTypes =
    OHT_ALL_OBJECTS
  | OHT_RANGED_2_OCTET
  | OHT_RANGED_4_OCTET
  | OHT_RANGED_8_OCTET
  | OHT_COUNT_1_OCTET
  | OHT_COUNT_2_OCTET
  | OHT_COUNT_4_OCTET

fun ObjectHeader_GetSize :: "ObjectHeaderTypes \<Rightarrow> nat" where
  "ObjectHeader_GetSize OHT_ALL_OBJECTS = 3"
| "ObjectHeader_GetSize OHT_RANGED_2_OCTET = 3 + 2 * UInt8_Size"
| "ObjectHeader_GetSize OHT_RANGED_4_OCTET = 3 + 2 * UInt16LE_Size"
| "ObjectHeader_GetSize OHT_RANGED_8_OCTET = 3 + 2 * UInt32LE_Size"
| "ObjectHeader_GetSize OHT_COUNT_1_OCTET = 3 + UInt8_Size"
| "ObjectHeader_GetSize OHT_COUNT_2_OCTET = 3 + UInt16LE_Size"
| "ObjectHeader_GetSize OHT_COUNT_4_OCTET = 3 + UInt32LE_Size"

text \<open>
  The virtual members of \<open>IRangeHeader\<close> and \<open>ICountHeader\<close>, through the typedefs that name the
  instances of the templates; None where the header is not of that interface.
\<close>

fun GetRange :: "ObjectHeaderTypes \<Rightarrow> bytes \<Rightarrow> nat \<Rightarrow> (nat \<times> nat) option" where
  "GetRange OHT_RANGED_2_OCTET p off = Some (RangedHeader_GetRange UInt8_Read UInt8_Size p off)"
| "GetRange OHT_RANGED_4_OCTET p off = Some (RangedHeader_GetRange UInt16LE_Read UInt16LE_Size p off)"
| "GetRange OHT_RANGED_8_OCTET p off = Some (RangedHeader_GetRange UInt32LE_Read UInt32LE_Size p off)"
| "GetRange _ p off = None"

fun SetRange :: "ObjectHeaderTypes \<Rightarrow> bytes \<Rightarrow> nat \<Rightarrow> nat \<Rightarrow> nat \<Rightarrow> (exn + bytes) option" where
  "SetRange OHT_RANGED_2_OCTET p off a b =
     Some (RangedHeader_SetRange UInt8_Write UInt8_Size UInt8_Max p off a b)"
| "SetRange OHT_RANGED_4_OCTET p off a b =
     Some (RangedHeader_SetRange UInt16LE_Write UInt16LE_Size UInt16LE_Max p off a b)"
| "SetRange OHT_RANGED_8_OCTET p off a b =
     Some (RangedHeader_SetRange UInt32LE_Write UInt32LE_Size UInt32LE_Max p off a b)"
| "SetRange _ p off a b = None"

fun GetCount :: "ObjectHeaderTypes \<Rightarrow> bytes \<Rightarrow> nat \<Rightarrow> nat option" where
  "GetCount OHT_COUNT_1_OCTET p off = Some (CountHeader_GetCount UInt8_Read p off)"
| "GetCount OHT_COUNT_2_OCTET p off = Some (CountHeader_GetCount UInt16LE_Read p off)"
| "GetCount OHT_COUNT_4_OCTET p off = Some (CountHeader_GetCount UInt32LE_Read p off)"
| "GetCount _ p off = None"

fun SetCount :: "ObjectHeaderTypes \<Rightarrow> bytes \<Rightarrow> nat \<Rightarrow> nat \<Rightarrow> (exn + bytes) option" where
  "SetCount OHT_COUNT_1_OCTET p off n = Some (CountHeader_SetCount UInt8_Write UInt8_Max p off n)"
| "SetCount OHT_COUNT_2_OCTET p off n = Some (CountHeader_SetCount UInt16LE_Write UInt16LE_Max p off n)"
| "SetCount OHT_COUNT_4_OCTET p off n = Some (CountHeader_SetCount UInt32LE_Write UInt32LE_Max p off n)"
| "SetCount _ p off n = None"

section \<open>Round trips\<close>

text \<open>
  What the templates ask of their codec, beside the laws of a codec: \<open>Max\<close> is the largest value.
\<close>

locale header_codec = byte_codec read "write" width
  for read :: "bytes \<Rightarrow> nat \<Rightarrow> 'a::len word"
    and "write" :: "bytes \<Rightarrow> nat \<Rightarrow> 'a word \<Rightarrow> bytes"
    and width :: nat +
  fixes max_value :: nat
  assumes max_value: "max_value < 2 ^ LENGTH('a)"
begin

lemma fits: "n \<le> max_value \<Longrightarrow> unat (word_of_nat n :: 'a word) = n"
  using max_value by (simp add: unat_of_nat take_bit_nat_eq_self)

lemma range_round_trip:
  assumes "RangedHeader_SetRange write width max_value p off a b = Inr q"
    and "off + 3 + 2 * width \<le> length p"
  shows "RangedHeader_GetRange read width q off = (a, b)"
proof -
  have le: "a \<le> b" "b \<le> max_value"
    and q: "q = write (write p (off + 3) (word_of_nat a)) (off + 3 + width) (word_of_nat b)"
    using assms(1) by (auto simp: RangedHeader_SetRange_def split: if_splits)
  have "read q (off + 3) = word_of_nat a"
    using assms(2) unfolding q by (subst read_write_disjoint) (auto simp: length_write read_write)
  moreover have "read q (off + 3 + width) = word_of_nat b"
    using assms(2) unfolding q by (intro read_write) (auto simp: length_write)
  ultimately show ?thesis
    using le fits [of a] fits [of b] by (simp add: RangedHeader_GetRange_def)
qed

lemma range_keeps:
  assumes "RangedHeader_SetRange write width max_value p off a b = Inr q"
  shows "length q = length p" and "i < off + 3 \<or> off + 3 + 2 * width \<le> i \<Longrightarrow> q ! i = p ! i"
  using assms
  by (auto simp: RangedHeader_SetRange_def length_write nth_write split: if_splits)

lemma count_round_trip:
  "CountHeader_SetCount write max_value p off n = Inr q \<Longrightarrow> off + 3 + width \<le> length p \<Longrightarrow>
   CountHeader_GetCount read q off = n"
  using fits [of n]
  by (auto simp: CountHeader_SetCount_def CountHeader_GetCount_def read_write split: if_splits)

lemma count_keeps:
  assumes "CountHeader_SetCount write max_value p off n = Inr q"
  shows "length q = length p" and "i < off + 3 \<or> off + 3 + width \<le> i \<Longrightarrow> q ! i = p ! i"
  using assms by (auto simp: CountHeader_SetCount_def length_write nth_write split: if_splits)

lemma range_local:
  "take (3 + 2 * width) (drop off p) = take (3 + 2 * width) (drop off' q) \<Longrightarrow>
   off + 3 + 2 * width \<le> length p \<Longrightarrow> off' + 3 + 2 * width \<le> length q \<Longrightarrow>
   RangedHeader_GetRange read width p off = RangedHeader_GetRange read width q off'"
  unfolding RangedHeader_GetRange_def
  by (intro arg_cong2 [where f = Pair] arg_cong [where f = unat] read_local nth_equalityI)
    (auto simp: add.assoc intro: slice_nth_eq [where w = "3 + 2 * width", simplified add.assoc])

end

interpretation h8: header_codec UInt8_Read UInt8_Write UInt8_Size UInt8_Max
  by unfold_locales (simp add: codec_maxima)

interpretation h16: header_codec UInt16LE_Read UInt16LE_Write UInt16LE_Size UInt16LE_Max
  by unfold_locales (simp add: codec_maxima)

interpretation h32: header_codec UInt32LE_Read UInt32LE_Write UInt32LE_Size UInt32LE_Max
  by unfold_locales (simp add: codec_maxima)

lemma length_ObjectHeader_Set [simp]: "length (ObjectHeader_Set p off g v c) = length p"
  by (simp add: ObjectHeader_Set_def)

lemma ObjectHeader_Get_Set [simp]:
  "off + 3 \<le> length p \<Longrightarrow>
   ObjectHeader_Get (ObjectHeader_Set p off g v c) off = \<lparr>Group = g, Variation = v, Qualifier = c\<rparr>"
  by (simp add: ObjectHeader_Get_def ObjectHeader_Set_def nth_list_update)

lemma nth_ObjectHeader_Set:
  "i < off \<or> off + 3 \<le> i \<Longrightarrow> ObjectHeader_Set p off g v c ! i = p ! i"
  by (auto simp: ObjectHeader_Set_def nth_list_update)

lemma ObjectHeader_GetSize_ge: "3 \<le> ObjectHeader_GetSize t"
  by (cases t) simp_all

lemma GetRange_SetRange:
  assumes "SetRange t p off a b = Some (Inr q)" and "off + ObjectHeader_GetSize t \<le> length p"
  shows "GetRange t q off = Some (a, b)"
  using assms
  by (cases t)
    (auto simp: add.assoc intro: h8.range_round_trip h16.range_round_trip h32.range_round_trip)

lemma SetRange_keeps:
  assumes "SetRange t p off a b = Some (Inr q)"
  shows "length q = length p"
    and "i < off + 3 \<or> off + ObjectHeader_GetSize t \<le> i \<Longrightarrow> q ! i = p ! i"
  using assms
  by (cases t; auto simp: add.assoc dest: h8.range_keeps h16.range_keeps h32.range_keeps)+

lemma GetCount_SetCount:
  assumes "SetCount t p off n = Some (Inr q)" and "off + ObjectHeader_GetSize t \<le> length p"
  shows "GetCount t q off = Some n"
  using assms
  by (cases t)
    (auto simp: add.assoc intro: h8.count_round_trip h16.count_round_trip h32.count_round_trip)

lemma SetCount_keeps:
  assumes "SetCount t p off n = Some (Inr q)"
  shows "length q = length p"
    and "i < off + 3 \<or> off + ObjectHeader_GetSize t \<le> i \<Longrightarrow> q ! i = p ! i"
  using assms
  by (cases t; auto simp: add.assoc dest: h8.count_keeps h16.count_keeps h32.count_keeps)+

end
