(* ===== verification/APDUs.thy ===== *)
theory APDUs
  imports AppHeaders DNPObjects ObjectHeaders
begin

text \<open>
  Application layer messages (opendnp3/DNP3/APDU.h, APDU.cpp): the fragment with its interpretation,
  the parser of a received fragment, the writers of a fragment to send, and the iterators over
  the objects of either (HeaderReadIterator.h, ObjectReadIterator.h and .cpp, ObjectWriteIterator.h and
  .cpp, IndexedWriteIterator.h and .cpp). A pointer into the fragment's buffer is an offset.

  The lemmas show that what the parser accepts lies inside the fragment, so that no iterator leaves
  it, and that the parser gives back what the writers wrote.
\<close>

section \<open>The message\<close>

record HeaderInfo =
  mPos :: nat
  mHeaderData :: ObjectHeaderField
  mHeaderCount :: nat
  mPrefixSize :: nat
  mpHeader :: ObjectHeaderTypes
  mpObjectBase :: DNPObject

record APDU =
  mIsInterpreted :: bool
  mpAppHeader :: "AppHeaderTypes option"
  mObjectHeaders :: "HeaderInfo list"
  mBuffer :: bytes
  mFragmentSize :: nat

text \<open>
  A member function with a result: the exception it ends with or the result, and the object it
  leaves.
\<close>

type_synonym 'a member = "APDU \<Rightarrow> (exn + 'a) \<times> APDU"

definition APDU_new :: "bytes \<Rightarrow> APDU" where
  "APDU_new buf = \<lparr>mIsInterpreted = False, mpAppHeader = None, mObjectHeaders = [],
     mBuffer = buf, mFragmentSize = 0\<rparr>"

text \<open>Operator \<open>==\<close> compares the bytes written.\<close>

definition APDU_equal :: "APDU \<Rightarrow> APDU \<Rightarrow> bool" where
  "APDU_equal a rhs \<longleftrightarrow>
     mFragmentSize a = mFragmentSize rhs \<and>
     list_all (\<lambda>i. mBuffer a ! i = mBuffer rhs ! i) [0..<mFragmentSize a]"

definition APDU_Reset :: "APDU \<Rightarrow> APDU" where
  "APDU_Reset a = a\<lparr>mFragmentSize := 0, mIsInterpreted := False, mpAppHeader := None, mObjectHeaders := []\<rparr>"

definition APDU_Write :: "bytes \<Rightarrow> APDU handler" where
  "APDU_Write apData =
     in_order [throw_if (\<lambda>a. length apData > length (mBuffer a)) ArgumentException,
       modify APDU_Reset,
       modify (\<lambda>a. a\<lparr>mBuffer := blit (mBuffer a) 0 apData, mFragmentSize := length apData\<rparr>)]"

definition APDU_GetControl :: "APDU \<Rightarrow> exn + AppControlField" where
  "APDU_GetControl a =
     (case mpAppHeader a of None \<Rightarrow> Inl AssertionFailed | Some h \<Rightarrow> Inr (GetControl (mBuffer a)))"

definition APDU_GetIIN :: "APDU \<Rightarrow> exn + IINField" where
  "APDU_GetIIN a =
     (case mpAppHeader a of
        None \<Rightarrow> Inl AssertionFailed
      | Some h \<Rightarrow> if h \<noteq> AHT_RESPONSE then Inl (Exception ERR_DEFAULT) else Inr (GetIIN (mBuffer a)))"

definition APDU_GetFunction :: "APDU \<Rightarrow> exn + FunctionCodes" where
  "APDU_GetFunction a =
     (case mpAppHeader a of None \<Rightarrow> Inl AssertionFailed | Some h \<Rightarrow> Inr (GetFunction (mBuffer a)))"

definition APDU_SetFunction :: "FunctionCodes \<Rightarrow> APDU handler" where
  "APDU_SetFunction aCode =
     in_order [assert_that (\<lambda>a. mpAppHeader a = None),
       modify (\<lambda>a.
         let h = (if aCode = FC_RESPONSE \<or> aCode = FC_UNSOLICITED_RESPONSE then AHT_RESPONSE else AHT_REQUEST)
         in a\<lparr>mpAppHeader := Some h, mFragmentSize := AppHeader_GetSize h,
              mBuffer := SetFunction (mBuffer a) aCode\<rparr>)]"

definition APDU_SetControl :: "AppControlField \<Rightarrow> APDU handler" where
  "APDU_SetControl arControl =
     in_order [assert_that (\<lambda>a. mpAppHeader a \<noteq> None),
       modify (\<lambda>a. a\<lparr>mBuffer := SetControl (mBuffer a) arControl\<rparr>)]"

text \<open>The overload with a parameter for each part, and \<open>Set\<close>, which uses it.\<close>

definition APDU_SetControlParts :: "bool \<Rightarrow> bool \<Rightarrow> bool \<Rightarrow> bool \<Rightarrow> int \<Rightarrow> APDU handler" where
  "APDU_SetControlParts aFIR aFIN aCON aUNS aSEQ =
     in_order [throw_if (\<lambda>a. aSEQ < 0 \<or> aSEQ > 15) ArgumentException,
       APDU_SetControl \<lparr>FIR = aFIR, FIN = aFIN, CON = aCON, UNS = aUNS, SEQ = aSEQ\<rparr>]"

definition APDU_Set :: "FunctionCodes \<Rightarrow> bool \<Rightarrow> bool \<Rightarrow> bool \<Rightarrow> bool \<Rightarrow> int \<Rightarrow> APDU handler" where
  "APDU_Set aCode aFIR aFIN aCON aUNS aSEQ =
     in_order [modify APDU_Reset, APDU_SetFunction aCode, APDU_SetControlParts aFIR aFIN aCON aUNS aSEQ]"

definition APDU_SetIIN :: "IINField \<Rightarrow> APDU handler" where
  "APDU_SetIIN arIIN =
     in_order [assert_that (\<lambda>a. mpAppHeader a \<noteq> None),
       assert_that (\<lambda>a. mpAppHeader a = Some AHT_RESPONSE),
       modify (\<lambda>a. a\<lparr>mBuffer := SetIIN (mBuffer a) arIIN\<rparr>)]"

definition HasData :: "FunctionCodes \<Rightarrow> bool" where
  "HasData aCode \<longleftrightarrow> \<not> (aCode = FC_READ \<or> aCode = FC_ASSIGN_CLASS)"

section \<open>Interpretation\<close>

definition ParseHeader :: "APDU \<Rightarrow> exn + AppHeaderTypes" where
  "ParseHeader a =
     (if mFragmentSize a < 2 then Inl (Exception ALERR_INSUFFICIENT_DATA_FOR_FRAG)
      else if IsResponse (GetFunction (mBuffer a)) then
        if mFragmentSize a < 4 then Inl (Exception ALERR_INSUFFICIENT_DATA_FOR_RESPONSE)
        else Inr AHT_RESPONSE
      else Inr AHT_REQUEST)"

definition InterpretHeader :: "APDU handler" where
  "InterpretHeader a =
     (if mpAppHeader a \<noteq> None then (None, a)
      else case ParseHeader a of
        Inl e \<Rightarrow> (Some e, a)
      | Inr h \<Rightarrow> (None, a\<lparr>mpAppHeader := Some h\<rparr>))"

fun GetObjectHeader :: "QualifierCode \<Rightarrow> exn + ObjectHeaderTypes" where
  "GetObjectHeader QC_1B_START_STOP = Inr OHT_RANGED_2_OCTET"
| "GetObjectHeader QC_2B_START_STOP = Inr OHT_RANGED_4_OCTET"
| "GetObjectHeader QC_4B_START_STOP = Inr OHT_RANGED_8_OCTET"
| "GetObjectHeader QC_ALL_OBJ = Inr OHT_ALL_OBJECTS"
| "GetObjectHeader QC_1B_CNT = Inr OHT_COUNT_1_OCTET"
| "GetObjectHeader QC_1B_CNT_1B_INDEX = Inr OHT_COUNT_1_OCTET"
| "GetObjectHeader QC_1B_VCNT_1B_SIZE = Inr OHT_COUNT_1_OCTET"
| "GetObjectHeader QC_1B_VCNT_2B_SIZE = Inr OHT_COUNT_1_OCTET"
| "GetObjectHeader QC_1B_VCNT_4B_SIZE = Inr OHT_COUNT_1_OCTET"
| "GetObjectHeader QC_2B_CNT = Inr OHT_COUNT_2_OCTET"
| "GetObjectHeader QC_2B_CNT_2B_INDEX = Inr OHT_COUNT_2_OCTET"
| "GetObjectHeader QC_4B_CNT = Inr OHT_COUNT_4_OCTET"
| "GetObjectHeader QC_4B_CNT_4B_INDEX = Inr OHT_COUNT_4_OCTET"
| "GetObjectHeader QC_UNDEFINED = Inl (Exception ERR_DEFAULT)"

text \<open>
  The \<open>switch\<close> on the type of the header: the all objects header, the range headers, the count
  headers; no header is anything else.
\<close>

definition GetNumObjects :: "ObjectHeaderTypes \<Rightarrow> bytes \<Rightarrow> nat \<Rightarrow> exn + nat" where
  "GetNumObjects apHeader p off =
     (if apHeader = OHT_ALL_OBJECTS then Inr 0
      else case GetRange apHeader p off of
        Some (Start, Stop) \<Rightarrow>
          if Start > Stop then Inl (Exception ALERR_START_STOP_MISMATCH) else Inr (Stop - Start + 1)
      | None \<Rightarrow>
          (case GetCount apHeader p off of Some n \<Rightarrow> Inr n | None \<Rightarrow> Inl AssertionFailed))"

definition GetPrefixSizeAndValidate :: "QualifierCode \<Rightarrow> ObjectTypes \<Rightarrow> exn + nat" where
  "GetPrefixSizeAndValidate aCode aType =
     (if aCode \<in> set [QC_ALL_OBJ, QC_1B_START_STOP, QC_2B_START_STOP, QC_4B_START_STOP,
                     QC_1B_CNT, QC_2B_CNT, QC_4B_CNT]
         \<and> aType \<in> set [OT_PLACEHOLDER, OT_FIXED, OT_BITFIELD] then Inr 0
      else if aType \<in> set [OT_FIXED, OT_SIZE_BY_VARIATION] \<and> aCode = QC_1B_CNT_1B_INDEX then Inr 1
      else if aType \<in> set [OT_FIXED, OT_SIZE_BY_VARIATION] \<and> aCode = QC_2B_CNT_2B_INDEX then Inr 2
      else if aType \<in> set [OT_FIXED, OT_SIZE_BY_VARIATION] \<and> aCode = QC_4B_CNT_4B_INDEX then Inr 4
      else if aType = OT_VARIABLE \<and> aCode = QC_1B_VCNT_1B_SIZE then Inr 1
      else if aType = OT_VARIABLE \<and> aCode = QC_1B_VCNT_2B_SIZE then Inr 2
      else if aType = OT_VARIABLE \<and> aCode = QC_1B_VCNT_4B_SIZE then Inr 4
      else Inl (Exception ALERR_ILLEGAL_QUALIFIER_AND_OBJECT))"

text \<open>The bytes the objects of a header take: the \<open>switch\<close> on the type of the object.\<close>

definition object_data_size :: "DNPObject \<Rightarrow> bool \<Rightarrow> nat \<Rightarrow> nat \<Rightarrow> byte \<Rightarrow> exn + nat" where
  "object_data_size ob has_data prefixSize objCount aVariation =
     (case ob_type ob of
        OT_PLACEHOLDER \<Rightarrow> Inr 0
      | OT_FIXED \<Rightarrow> Inr ((prefixSize + (if has_data then ob_size ob else 0)) * objCount)
      | OT_BITFIELD \<Rightarrow> Inr (if has_data then Bitfield_GetSize objCount else 0)
      | OT_SIZE_BY_VARIATION \<Rightarrow> Inr (prefixSize + (if has_data then unat aVariation else 0))
      | OT_VARIABLE \<Rightarrow> Inl (Exception ERR_DEFAULT))"

definition ReadObjectHeader :: "nat \<Rightarrow> nat \<Rightarrow> nat member" where
  "ReadObjectHeader aOffset aRemainder a =
     (if aRemainder < ObjectHeader_GetSize OHT_ALL_OBJECTS then
        (Inl (Exception ALERR_INSUFFICIENT_DATA_FOR_HEADER), a)
      else let hdrData = ObjectHeader_Get (mBuffer a) aOffset in
        if Qualifier hdrData = QC_UNDEFINED then (Inl (Exception ALERR_UNKNOWN_QUALIFIER), a)
        else case GetObjectHeader (Qualifier hdrData) of Inl e \<Rightarrow> (Inl e, a) | Inr hdr \<Rightarrow>
        (case ObjectBase_Get (unat (Group hdrData)) (unat (Variation hdrData)) of
           None \<Rightarrow> (Inl ObjectException, a)
         | Some ob \<Rightarrow>
           if aRemainder < ObjectHeader_GetSize hdr then
             (Inl (Exception ALERR_INSUFFICIENT_DATA_FOR_HEADER), a)
           else let rem = aRemainder - ObjectHeader_GetSize hdr in
             case GetPrefixSizeAndValidate (Qualifier hdrData) (ob_type ob) of Inl e \<Rightarrow> (Inl e, a) | Inr prefixSize \<Rightarrow>
             (case GetNumObjects hdr (mBuffer a) aOffset of Inl e \<Rightarrow> (Inl e, a) | Inr objCount \<Rightarrow>
             (case APDU_GetFunction a of Inl e \<Rightarrow> (Inl e, a) | Inr func \<Rightarrow>
             (case object_data_size ob (HasData func) prefixSize objCount (Variation hdrData) of
                Inl e \<Rightarrow> (Inl e, a)
              | Inr data_size \<Rightarrow>
                if data_size > rem then (Inl (Exception ALERR_INSUFFICIENT_DATA_FOR_OBJECTS), a)
                else (Inr (ObjectHeader_GetSize hdr + data_size),
                  a\<lparr>mObjectHeaders := mObjectHeaders a @
                    [\<lparr>mPos = aOffset, mHeaderData = hdrData, mHeaderCount = objCount,
                      mPrefixSize = prefixSize, mpHeader = hdr, mpObjectBase = ob\<rparr>]\<rparr>))))))"

text \<open>
  The header a fragment has at an offset, and the bytes it takes with its objects: what the steps of
  \<open>ReadObjectHeader\<close> establish before the header is recorded.
\<close>

definition header_at :: "bytes \<Rightarrow> nat \<Rightarrow> HeaderInfo \<Rightarrow> bool" where
  "header_at buf off hi \<longleftrightarrow>
     mPos hi = off \<and> mHeaderData hi = ObjectHeader_Get buf off \<and>
     Qualifier (mHeaderData hi) \<noteq> QC_UNDEFINED \<and>
     GetObjectHeader (Qualifier (mHeaderData hi)) = Inr (mpHeader hi) \<and>
     ObjectBase_Get (unat (Group (mHeaderData hi))) (unat (Variation (mHeaderData hi))) = Some (mpObjectBase hi) \<and>
     GetPrefixSizeAndValidate (Qualifier (mHeaderData hi)) (ob_type (mpObjectBase hi)) = Inr (mPrefixSize hi) \<and>
     GetNumObjects (mpHeader hi) buf off = Inr (mHeaderCount hi)"

definition data_size_of :: "bool \<Rightarrow> HeaderInfo \<Rightarrow> exn + nat" where
  "data_size_of has_data hi =
     object_data_size (mpObjectBase hi) has_data (mPrefixSize hi) (mHeaderCount hi)
       (Variation (mHeaderData hi))"

definition header_span :: "bool \<Rightarrow> HeaderInfo \<Rightarrow> nat" where
  "header_span has_data hi =
     ObjectHeader_GetSize (mpHeader hi) +
     (case data_size_of has_data hi of Inr n \<Rightarrow> n | Inl e \<Rightarrow> 0)"

lemma header_span_ge: "3 \<le> header_span d hi"
  unfolding header_span_def by (rule trans_le_add1) (rule ObjectHeader_GetSize_ge)

lemma ReadObjectHeader_accepts:
  assumes "ReadObjectHeader off rem a = (Inr n, a')"
  obtains hi func data where "header_at (mBuffer a) off hi" "APDU_GetFunction a = Inr func"
    "data_size_of (HasData func) hi = Inr data" "n = header_span (HasData func) hi" "n \<le> rem"
    "a' = a\<lparr>mObjectHeaders := mObjectHeaders a @ [hi]\<rparr>"
proof -
  define hd where "hd = ObjectHeader_Get (mBuffer a) off"
  from assms obtain hdr ob prefix cnt func data where
    q: "Qualifier hd \<noteq> QC_UNDEFINED" "GetObjectHeader (Qualifier hd) = Inr hdr"
      "ObjectBase_Get (unat (Group hd)) (unat (Variation hd)) = Some ob"
      "GetPrefixSizeAndValidate (Qualifier hd) (ob_type ob) = Inr prefix"
      "GetNumObjects hdr (mBuffer a) off = Inr cnt" "APDU_GetFunction a = Inr func"
      "object_data_size ob (HasData func) prefix cnt (Variation hd) = Inr data"
      "\<not> rem < ObjectHeader_GetSize hdr" "\<not> rem - ObjectHeader_GetSize hdr < data"
    and n: "n = ObjectHeader_GetSize hdr + data"
    and a': "a' = a\<lparr>mObjectHeaders := mObjectHeaders a @
      [\<lparr>mPos = off, mHeaderData = hd, mHeaderCount = cnt, mPrefixSize = prefix, mpHeader = hdr,
        mpObjectBase = ob\<rparr>]\<rparr>"
    by (auto simp: ReadObjectHeader_def Let_def hd_def [symmetric] split: if_splits sum.splits option.splits)
  show thesis
    by (rule that [of "\<lparr>mPos = off, mHeaderData = hd, mHeaderCount = cnt, mPrefixSize = prefix,
        mpHeader = hdr, mpObjectBase = ob\<rparr>" func data])
      (use q n a' in \<open>auto simp: header_at_def data_size_of_def header_span_def hd_def\<close>)
qed

lemma ReadObjectHeader_progress:
  "ReadObjectHeader off rem a = (Inr n, a') \<Longrightarrow> 3 \<le> n \<and> n \<le> rem"
  by (metis ReadObjectHeader_accepts header_span_ge)

lemma ReadObjectHeader_accepted:
  assumes "header_at (mBuffer a) off hi" and "APDU_GetFunction a = Inr func"
    and "data_size_of (HasData func) hi = Inr data" and "header_span (HasData func) hi \<le> rem"
  shows "ReadObjectHeader off rem a =
    (Inr (header_span (HasData func) hi), a\<lparr>mObjectHeaders := mObjectHeaders a @ [hi]\<rparr>)"
  using assms header_span_ge [of "HasData func" hi]
  by (cases hi)
    (auto simp: ReadObjectHeader_def header_at_def data_size_of_def header_span_def Let_def)

lemma ReadObjectHeader_refuses: "ReadObjectHeader off rem a = (Inl e, a') \<Longrightarrow> a' = a"
  by (auto simp: ReadObjectHeader_def Let_def split: if_splits sum.splits option.splits)

text \<open>The \<open>while\<close> loop of \<open>Interpret\<close>.\<close>

function ReadHeaders :: "nat \<Rightarrow> nat \<Rightarrow> APDU handler" where
  "ReadHeaders consumed remainder a =
     (if remainder > 0 then
        case ReadObjectHeader consumed remainder a of
          (Inl e, a') \<Rightarrow> (Some e, a')
        | (Inr header_size, a') \<Rightarrow> ReadHeaders (consumed + header_size) (remainder - header_size) a'
      else (None, a))"
  by pat_completeness auto
termination
  by (relation "measure (\<lambda>(consumed, remainder, a). remainder)")
    (auto dest!: ReadObjectHeader_progress [OF sym])

declare ReadHeaders.simps [simp del]

definition Interpret :: "APDU handler" where
  "Interpret =
     if_else mIsInterpreted skip
       (in_order [InterpretHeader,
         reading (\<lambda>a.
           case mpAppHeader a of
             None \<Rightarrow> throw AssertionFailed
           | Some h \<Rightarrow>
             let consumed = AppHeader_GetSize h in ReadHeaders consumed (mFragmentSize a - consumed)),
         modify (\<lambda>a. a\<lparr>mIsInterpreted := True\<rparr>)])"

section \<open>Reading the objects\<close>

text \<open>
  \<open>HeaderReadIterator\<close>: the headers it walks, whether the objects carry data, and how far it is.
  Its accesses throw once it is at the end.
\<close>

record HeaderReadIterator =
  hr_headers :: "HeaderInfo list"
  hr_hasdata :: bool
  hr_index :: nat

definition APDU_BeginRead :: "APDU \<Rightarrow> exn + HeaderReadIterator" where
  "APDU_BeginRead a =
     (case APDU_GetFunction a of
        Inl e \<Rightarrow> Inl e
      | Inr func \<Rightarrow> Inr \<lparr>hr_headers = mObjectHeaders a, hr_hasdata = HasData func, hr_index = 0\<rparr>)"

definition HeaderRead_IsEnd :: "HeaderReadIterator \<Rightarrow> bool" where
  "HeaderRead_IsEnd it \<longleftrightarrow> hr_index it \<ge> length (hr_headers it)"

definition HeaderRead_info :: "HeaderReadIterator \<Rightarrow> exn + HeaderInfo" where
  "HeaderRead_info it =
     (if HeaderRead_IsEnd it then Inl (Exception ALERR_ITERATOR_OUT_OF_BOUNDS)
      else Inr (hr_headers it ! hr_index it))"

definition HeaderRead_next :: "HeaderReadIterator \<Rightarrow> exn + HeaderReadIterator" where
  "HeaderRead_next it =
     (if HeaderRead_IsEnd it then Inl (Exception ALERR_ITERATOR_OUT_OF_BOUNDS)
      else Inr (it\<lparr>hr_index := hr_index it + 1\<rparr>))"

text \<open>
  \<open>ObjectReadIterator\<close>. The buffer is the fragment's; \<open>or_prefix\<close> and \<open>or_position\<close> are offsets in
  it. What the constructor leaves uninitialised when there is no object is None.
\<close>

record ObjectReadIterator =
  or_header :: HeaderInfo
  or_num :: nat
  or_index :: "nat option"
  or_start :: "nat option"
  or_prefix :: "nat option"
  or_position :: "nat option"
  or_hasdata :: bool

definition ObjectRead_IsEnd :: "ObjectReadIterator \<Rightarrow> bool" where
  "ObjectRead_IsEnd it \<longleftrightarrow> or_num it \<ge> mHeaderCount (or_header it)"

definition CalcCountIndex :: "bytes \<Rightarrow> ObjectReadIterator \<Rightarrow> QualifierCode \<Rightarrow> nat \<Rightarrow> exn + nat" where
  "CalcCountIndex buf it aCode apPrefixPos =
     (if aCode \<in> set [QC_1B_CNT, QC_2B_CNT, QC_4B_CNT, QC_ALL_OBJ] then Inr (or_num it)
      else if aCode = QC_1B_CNT_1B_INDEX then Inr (unat (UInt8_Read buf apPrefixPos))
      else if aCode = QC_2B_CNT_2B_INDEX then Inr (unat (UInt16LE_Read buf apPrefixPos))
      else if aCode = QC_4B_CNT_4B_INDEX then Inr (unat (UInt32LE_Read buf apPrefixPos))
      else Inl (Exception ERR_DEFAULT))"

definition CalcIndex :: "bytes \<Rightarrow> ObjectReadIterator \<Rightarrow> nat \<Rightarrow> exn + nat" where
  "CalcIndex buf it prefixPos =
     (case mpHeader (or_header it) of
        OHT_COUNT_1_OCTET \<Rightarrow> CalcCountIndex buf it (Qualifier (mHeaderData (or_header it))) prefixPos
      | OHT_COUNT_2_OCTET \<Rightarrow> CalcCountIndex buf it (Qualifier (mHeaderData (or_header it))) prefixPos
      | OHT_COUNT_4_OCTET \<Rightarrow> CalcCountIndex buf it (Qualifier (mHeaderData (or_header it))) prefixPos
      | OHT_ALL_OBJECTS \<Rightarrow> Inr 0
      | h \<Rightarrow> (case GetRange h buf (mPos (or_header it)) of
                Some (Start, Stop) \<Rightarrow> Inr (Start + or_num it)
              | None \<Rightarrow> Inr 0))"

definition CalcObjSize :: "bytes \<Rightarrow> ObjectReadIterator \<Rightarrow> nat \<Rightarrow> exn + nat" where
  "CalcObjSize buf it apPrefixPos =
     (if \<not> or_hasdata it then Inr 0
      else case Qualifier (mHeaderData (or_header it)) of
        QC_1B_VCNT_1B_SIZE \<Rightarrow> Inr (unat (UInt8_Read buf apPrefixPos))
      | QC_1B_VCNT_2B_SIZE \<Rightarrow> Inr (unat (UInt16LE_Read buf apPrefixPos))
      | QC_1B_VCNT_4B_SIZE \<Rightarrow> Inr (unat (UInt32LE_Read buf apPrefixPos))
      | _ \<Rightarrow>
        (case ob_type (mpObjectBase (or_header it)) of
           OT_FIXED \<Rightarrow> Inr (ob_size (mpObjectBase (or_header it)))
         | OT_BITFIELD \<Rightarrow> Inr (Bitfield_GetSize (mHeaderCount (or_header it)))
         | _ \<Rightarrow> Inl (Exception ERR_DEFAULT)))"

text \<open>\<open>SetObjectInfo\<close> with the prefix position \<open>pos\<close> it finds in the iterator.\<close>

definition SetObjectInfo :: "bytes \<Rightarrow> nat \<Rightarrow> ObjectReadIterator \<Rightarrow> exn + ObjectReadIterator" where
  "SetObjectInfo buf pos it =
     (let it = (if or_hasdata it then it\<lparr>or_position := Some (pos + mPrefixSize (or_header it))\<rparr> else it)
      in case CalcIndex buf it pos of
        Inl e \<Rightarrow> Inl e
      | Inr index \<Rightarrow> Inr (it\<lparr>or_index := Some index\<rparr>))"

definition ObjectReadIterator_new :: "HeaderInfo \<Rightarrow> bytes \<Rightarrow> bool \<Rightarrow> exn + ObjectReadIterator" where
  "ObjectReadIterator_new arInfo buf aHasData =
     (let it = \<lparr>or_header = arInfo, or_num = 0, or_index = None, or_start = None, or_prefix = None,
                or_position = None, or_hasdata = aHasData\<rparr>;
          pos = mPos arInfo + ObjectHeader_GetSize (mpHeader arInfo)
      in case (if ObjectRead_IsEnd it then Inr it else SetObjectInfo buf pos (it\<lparr>or_prefix := Some pos\<rparr>)) of
        Inl e \<Rightarrow> Inl e
      | Inr it \<Rightarrow>
        Inr (it\<lparr>or_start := if ob_type (mpObjectBase arInfo) = OT_BITFIELD then or_index it else Some 0\<rparr>))"

definition HeaderRead_BeginRead :: "bytes \<Rightarrow> HeaderReadIterator \<Rightarrow> exn + ObjectReadIterator" where
  "HeaderRead_BeginRead buf it = ObjectReadIterator_new (hr_headers it ! hr_index it) buf (hr_hasdata it)"

definition ObjectRead_deref :: "ObjectReadIterator \<Rightarrow> exn + nat" where
  "ObjectRead_deref it =
     (if ObjectRead_IsEnd it then Inl (Exception ALERR_ITERATOR_OUT_OF_BOUNDS)
      else if \<not> or_hasdata it then Inl (Exception ALERR_ITERATOR_NO_DATA)
      else case or_position it of Some p \<Rightarrow> Inr p | None \<Rightarrow> Inl AssertionFailed)"

definition ObjectRead_next :: "bytes \<Rightarrow> ObjectReadIterator \<Rightarrow> exn + ObjectReadIterator" where
  "ObjectRead_next buf it =
     (if ObjectRead_IsEnd it then Inl (Exception ALERR_ITERATOR_OUT_OF_BOUNDS)
      else let it = it\<lparr>or_num := or_num it + 1\<rparr> in
        if ObjectRead_IsEnd it then Inr it
        else case or_prefix it of
          None \<Rightarrow> Inl AssertionFailed
        | Some pos \<Rightarrow>
          (case (if ob_type (mpObjectBase (or_header it)) = OT_BITFIELD then Inr pos
                 else case CalcObjSize buf it pos of
                   Inl e \<Rightarrow> Inl e
                 | Inr n \<Rightarrow> Inr (pos + (mPrefixSize (or_header it) + n))) of
             Inl e \<Rightarrow> Inl e
           | Inr pos \<Rightarrow> SetObjectInfo buf pos (it\<lparr>or_prefix := Some pos\<rparr>)))"

section \<open>Writing objects\<close>

text \<open>Arithmetic on \<open>size_t\<close>, 64 bits wide.\<close>

definition size_t :: "nat \<Rightarrow> nat" where
  "size_t n = n mod 2 ^ 64"

definition size_sub :: "nat \<Rightarrow> nat \<Rightarrow> nat" where
  "size_sub a b = nat ((int a - int b) mod 2 ^ 64)"

definition Remainder :: "APDU \<Rightarrow> nat" where
  "Remainder a = length (mBuffer a) - mFragmentSize a"

definition CheckWriteState :: "APDU \<Rightarrow> exn option" where
  "CheckWriteState a =
     (if mpAppHeader a = None then Some InvalidStateException
      else if mIsInterpreted a then Some InvalidStateException
      else None)"

definition GetContiguousQualifier :: "nat \<Rightarrow> nat \<Rightarrow> QualifierCode" where
  "GetContiguousQualifier aStart aStop =
     (if aStop \<le> UInt8_Max then QC_1B_START_STOP
      else if aStop \<le> UInt16LE_Max then QC_2B_START_STOP
      else QC_4B_START_STOP)"

definition GetIndexedQualifier :: "nat \<Rightarrow> nat \<Rightarrow> QualifierCode" where
  "GetIndexedQualifier aMaxIndex aCount =
     (if aMaxIndex \<le> UInt8_Max \<and> aCount \<le> UInt8_Max then QC_1B_CNT_1B_INDEX
      else if aMaxIndex \<le> UInt16LE_Max \<and> aCount \<le> UInt16LE_Max then QC_2B_CNT_2B_INDEX
      else QC_4B_CNT_4B_INDEX)"

fun GetCountHeader :: "QualifierCode \<Rightarrow> exn + ObjectHeaderTypes" where
  "GetCountHeader QC_1B_CNT = Inr OHT_COUNT_1_OCTET"
| "GetCountHeader QC_1B_CNT_1B_INDEX = Inr OHT_COUNT_1_OCTET"
| "GetCountHeader QC_1B_VCNT_1B_SIZE = Inr OHT_COUNT_1_OCTET"
| "GetCountHeader QC_1B_VCNT_2B_SIZE = Inr OHT_COUNT_1_OCTET"
| "GetCountHeader QC_1B_VCNT_4B_SIZE = Inr OHT_COUNT_1_OCTET"
| "GetCountHeader QC_2B_CNT = Inr OHT_COUNT_2_OCTET"
| "GetCountHeader QC_2B_CNT_2B_INDEX = Inr OHT_COUNT_2_OCTET"
| "GetCountHeader QC_4B_CNT = Inr OHT_COUNT_4_OCTET"
| "GetCountHeader QC_4B_CNT_4B_INDEX = Inr OHT_COUNT_4_OCTET"
| "GetCountHeader _ = Inl ArgumentException"

text \<open>\<open>ObjectWriteIterator\<close>; the position of the one at the end from the start is NULL.\<close>

record ObjectWriteIterator =
  ow_pos :: "nat option"
  ow_index :: nat
  ow_start :: nat
  ow_stop :: nat
  ow_size :: nat

definition ObjectWriteIterator_end :: ObjectWriteIterator where
  "ObjectWriteIterator_end = \<lparr>ow_pos = None, ow_index = 1, ow_start = 0, ow_stop = 0, ow_size = 0\<rparr>"

definition ObjectWrite_IsEnd :: "ObjectWriteIterator \<Rightarrow> bool" where
  "ObjectWrite_IsEnd it \<longleftrightarrow> ow_index it > ow_stop it"

definition ObjectWrite_deref :: "ObjectWriteIterator \<Rightarrow> exn + nat option" where
  "ObjectWrite_deref it = (if ObjectWrite_IsEnd it then Inl InvalidStateException else Inr (ow_pos it))"

definition ObjectWrite_next :: "ObjectWriteIterator \<Rightarrow> exn + ObjectWriteIterator" where
  "ObjectWrite_next it =
     (if ObjectWrite_IsEnd it then Inl InvalidStateException
      else Inr (it\<lparr>ow_index := ow_index it + 1, ow_pos := map_option (\<lambda>p. p + ow_size it) (ow_pos it)\<rparr>))"

definition WriteContiguousHeader :: "ObjectHeaderTypes \<Rightarrow> bytes \<Rightarrow> nat \<Rightarrow> nat \<Rightarrow> nat \<Rightarrow> exn + bytes" where
  "WriteContiguousHeader apHdr p apPos aStart aStop =
     (case SetCount apHdr p apPos (size_t (size_sub aStop aStart + 1)) of
        Some r \<Rightarrow> r
      | None \<Rightarrow>
        (case SetRange apHdr p apPos aStart aStop of
           Some r \<Rightarrow> r
         | None \<Rightarrow> Inl (Exception ERR_DEFAULT)))"

text \<open>\<open>WriteContiguous\<close> of a fixed object.\<close>

definition WriteContiguous :: "DNPObject \<Rightarrow> nat \<Rightarrow> nat \<Rightarrow> QualifierCode \<Rightarrow> ObjectWriteIterator member" where
  "WriteContiguous apObj aStart aStop aCode a =
     (case CheckWriteState a of Some e \<Rightarrow> (Inl e, a) | None \<Rightarrow>
      let aCode = (if aCode = QC_UNDEFINED then GetContiguousQualifier aStart aStop else aCode) in
      case GetObjectHeader aCode of Inl e \<Rightarrow> (Inl e, a) | Inr hdr \<Rightarrow>
      if ObjectHeader_GetSize hdr > Remainder a then (Inr ObjectWriteIterator_end, a)
      else let maxObjects = (Remainder a - ObjectHeader_GetSize hdr) div ob_size apObj in
      if maxObjects = 0 then (Inr ObjectWriteIterator_end, a)
      else let requested = size_t (size_sub aStop aStart + 1);
               count = (if requested < maxObjects then requested else maxObjects);
               stop = size_sub (size_t (aStart + count)) 1;
               pHeaderPos = mFragmentSize a;
               a = a\<lparr>mBuffer := ObjectHeader_Set (mBuffer a) pHeaderPos
                      (word_of_nat (ob_group apObj)) (word_of_nat (ob_var apObj)) aCode\<rparr>;
               pPos = pHeaderPos + ObjectHeader_GetSize hdr
      in case WriteContiguousHeader hdr (mBuffer a) pHeaderPos aStart stop of
        Inl e \<Rightarrow> (Inl e, a)
      | Inr buf \<Rightarrow>
        let a = a\<lparr>mBuffer := buf, mFragmentSize := mFragmentSize a + ObjectHeader_GetSize hdr\<rparr> in
        case APDU_GetFunction a of Inl e \<Rightarrow> (Inl e, a) | Inr func \<Rightarrow>
        let obj_size = (if HasData func then ob_size apObj else 0) in
        (Inr \<lparr>ow_pos = Some pPos, ow_index = aStart, ow_start = aStart, ow_stop = stop, ow_size = obj_size\<rparr>,
         a\<lparr>mFragmentSize := mFragmentSize a + count * obj_size\<rparr>))"

text \<open>\<open>WriteContiguous\<close> of a bitfield: eight objects to the byte, zeroed before the header is set.\<close>

definition WriteContiguous_Bitfield :: "DNPObject \<Rightarrow> nat \<Rightarrow> nat \<Rightarrow> QualifierCode \<Rightarrow> ObjectWriteIterator member" where
  "WriteContiguous_Bitfield apObj aStart aStop aCode a =
     (case CheckWriteState a of Some e \<Rightarrow> (Inl e, a) | None \<Rightarrow>
      let aCode = (if aCode = QC_UNDEFINED then GetContiguousQualifier aStart aStop else aCode) in
      case GetObjectHeader aCode of Inl e \<Rightarrow> (Inl e, a) | Inr hdr \<Rightarrow>
      if ObjectHeader_GetSize hdr > Remainder a then (Inr ObjectWriteIterator_end, a)
      else let maxObjects = (Remainder a - ObjectHeader_GetSize hdr) * 8 in
      if maxObjects = 0 then (Inr ObjectWriteIterator_end, a)
      else let requested = size_t (size_sub aStop aStart + 1);
               count = (if requested < maxObjects then requested else maxObjects);
               stop = size_sub (size_t (aStart + count)) 1;
               pHeaderPos = mFragmentSize a;
               pPos = pHeaderPos + ObjectHeader_GetSize hdr;
               buf = ObjectHeader_Set (mBuffer a) pHeaderPos
                      (word_of_nat (ob_group apObj)) (word_of_nat (ob_var apObj)) aCode;
               a = a\<lparr>mBuffer := Bitfield_Zero buf pPos count\<rparr>
      in case WriteContiguousHeader hdr (mBuffer a) pHeaderPos aStart stop of
        Inl e \<Rightarrow> (Inl e, a)
      | Inr buf \<Rightarrow>
        let a = a\<lparr>mBuffer := buf, mFragmentSize := mFragmentSize a + ObjectHeader_GetSize hdr\<rparr> in
        case APDU_GetFunction a of Inl e \<Rightarrow> (Inl e, a) | Inr func \<Rightarrow>
        let data_size = (if HasData func then Bitfield_GetSize count else 0) in
        (Inr \<lparr>ow_pos = Some pPos, ow_index = aStart, ow_start = aStart, ow_stop = stop, ow_size = 0\<rparr>,
         a\<lparr>mFragmentSize := mFragmentSize a + data_size\<rparr>))"

definition DoPlaceholderWrite :: "DNPObject \<Rightarrow> bool member" where
  "DoPlaceholderWrite apObj a =
     (case CheckWriteState a of Some e \<Rightarrow> (Inl e, a) | None \<Rightarrow>
      if ObjectHeader_GetSize OHT_ALL_OBJECTS > length (mBuffer a) - mFragmentSize a then (Inr False, a)
      else (Inr True,
        a\<lparr>mBuffer := ObjectHeader_Set (mBuffer a) (mFragmentSize a)
             (word_of_nat (ob_group apObj)) (word_of_nat (ob_var apObj)) QC_ALL_OBJ,
          mFragmentSize := mFragmentSize a + ObjectHeader_GetSize OHT_ALL_OBJECTS\<rparr>))"

text \<open>
  \<open>IndexedWriteIterator\<close>. The default constructor leaves the index mode uninitialised, here None;
  the other stores the size of the index that precedes each object.
\<close>

record IndexedWriteIterator =
  iw_pos :: "nat option"
  iw_mode :: "nat option"
  iw_index :: nat
  iw_count :: nat
  iw_size :: nat
  iw_set :: bool

definition IndexedWriteIterator_end :: IndexedWriteIterator where
  "IndexedWriteIterator_end =
     \<lparr>iw_pos = None, iw_mode = None, iw_index = 0, iw_count = 0, iw_size = 0, iw_set = False\<rparr>"

definition GetIndexMode :: "QualifierCode \<Rightarrow> exn + nat" where
  "GetIndexMode aCode =
     (if aCode = QC_1B_CNT_1B_INDEX then Inr 1
      else if aCode = QC_2B_CNT_2B_INDEX then Inr 2
      else if aCode = QC_4B_CNT_4B_INDEX then Inr 4
      else if aCode \<in> set [QC_1B_CNT, QC_2B_CNT, QC_4B_CNT] then Inr 0
      else Inl (Exception ERR_DEFAULT))"

definition IndexedWrite_IsEnd :: "IndexedWriteIterator \<Rightarrow> bool" where
  "IndexedWrite_IsEnd it \<longleftrightarrow> iw_index it \<ge> iw_count it"

text \<open>\<open>SetIndex\<close> writes through the iterator's position into the fragment's buffer.\<close>

definition IndexedWrite_SetIndex ::
  "nat \<Rightarrow> IndexedWriteIterator \<Rightarrow> bytes \<Rightarrow> exn + IndexedWriteIterator \<times> bytes" where
  "IndexedWrite_SetIndex aIndex it buf =
     (if iw_set it then Inl InvalidStateException
      else if IndexedWrite_IsEnd it then Inl InvalidStateException
      else case (iw_mode it, iw_pos it) of
        (Some mode, Some pos) \<Rightarrow>
          if mode = 1 then
            if aIndex > UInt8_Max then Inl ArgumentException
            else Inr (it\<lparr>iw_set := True\<rparr>, UInt8_Write buf pos (word_of_nat aIndex))
          else if mode = 2 then
            if aIndex > UInt16LE_Max then Inl ArgumentException
            else Inr (it\<lparr>iw_set := True\<rparr>, UInt16LE_Write buf pos (word_of_nat aIndex))
          else if mode = 4 then
            if aIndex > UInt32LE_Max then Inl ArgumentException
            else Inr (it\<lparr>iw_set := True\<rparr>, UInt32LE_Write buf pos (word_of_nat aIndex))
          else Inr (it\<lparr>iw_set := True\<rparr>, buf)
      | _ \<Rightarrow> Inl AssertionFailed)"

definition IndexedWrite_deref :: "IndexedWriteIterator \<Rightarrow> exn + nat" where
  "IndexedWrite_deref it =
     (if \<not> iw_set it then Inl InvalidStateException
      else case (iw_mode it, iw_pos it) of
        (Some mode, Some pos) \<Rightarrow> Inr (pos + mode)
      | _ \<Rightarrow> Inl AssertionFailed)"

definition IndexedWrite_next :: "IndexedWriteIterator \<Rightarrow> exn + IndexedWriteIterator" where
  "IndexedWrite_next it =
     (if IndexedWrite_IsEnd it then Inl InvalidStateException
      else if \<not> iw_set it then Inl InvalidStateException
      else case (iw_mode it, iw_pos it) of
        (Some mode, Some pos) \<Rightarrow>
          Inr (it\<lparr>iw_index := iw_index it + 1, iw_set := False, iw_pos := Some (pos + (iw_size it + mode))\<rparr>)
      | _ \<Rightarrow> Inl AssertionFailed)"

text \<open>
  \<open>WriteCountHeader\<close>. A message without data whose qualifier has no index prefix makes the divisor
  zero; the division then ends the process, kept apart from the exceptions like a failed assertion.
\<close>

definition WriteCountHeader ::
  "nat \<Rightarrow> nat \<Rightarrow> byte \<Rightarrow> byte \<Rightarrow> nat \<Rightarrow> QualifierCode \<Rightarrow> IndexedWriteIterator member" where
  "WriteCountHeader aObjectSize aPrefixSize aGrp aVar aCount aQual a =
     (case GetCountHeader aQual of Inl e \<Rightarrow> (Inl e, a) | Inr hdr \<Rightarrow>
      if ObjectHeader_GetSize hdr > Remainder a then (Inr IndexedWriteIterator_end, a)
      else let obj_plus_prefix_size = aObjectSize + aPrefixSize in
      if obj_plus_prefix_size = 0 then (Inl AssertionFailed, a)
      else let max_num = (Remainder a - ObjectHeader_GetSize hdr) div obj_plus_prefix_size in
      if max_num = 0 then (Inr IndexedWriteIterator_end, a)
      else let count = (if aCount < max_num then aCount else max_num);
               data_size = count * obj_plus_prefix_size;
               pHeaderPos = mFragmentSize a;
               a = a\<lparr>mBuffer := ObjectHeader_Set (mBuffer a) pHeaderPos aGrp aVar aQual\<rparr>
      in case SetCount hdr (mBuffer a) pHeaderPos count of
        None \<Rightarrow> (Inl AssertionFailed, a)
      | Some (Inl e) \<Rightarrow> (Inl e, a)
      | Some (Inr buf) \<Rightarrow>
        let pObjectPos = mFragmentSize a + ObjectHeader_GetSize hdr;
            a = a\<lparr>mBuffer := buf, mFragmentSize := pObjectPos + data_size\<rparr>
        in case GetIndexMode aQual of
          Inl e \<Rightarrow> (Inl e, a)
        | Inr mode \<Rightarrow>
          (Inr \<lparr>iw_pos = Some pObjectPos, iw_mode = Some mode, iw_index = 0, iw_count = count,
                iw_size = aObjectSize, iw_set = False\<rparr>, a))"

definition WriteIndexed :: "DNPObject \<Rightarrow> nat \<Rightarrow> QualifierCode \<Rightarrow> IndexedWriteIterator member" where
  "WriteIndexed apObj aCount aCode a =
     (case CheckWriteState a of Some e \<Rightarrow> (Inl e, a) | None \<Rightarrow>
      case APDU_GetFunction a of Inl e \<Rightarrow> (Inl e, a) | Inr func \<Rightarrow>
      let obj_size = (if HasData func then ob_size apObj else 0) in
      case GetPrefixSizeAndValidate aCode (ob_type apObj) of Inl e \<Rightarrow> (Inl e, a) | Inr prefix_size \<Rightarrow>
      WriteCountHeader obj_size prefix_size (word_of_nat (ob_group apObj)) (word_of_nat (ob_var apObj))
        aCount aCode a)"

definition WriteIndexed_MaxIndex :: "DNPObject \<Rightarrow> nat \<Rightarrow> nat \<Rightarrow> IndexedWriteIterator member" where
  "WriteIndexed_MaxIndex apObj aCount aMaxIndex =
     WriteIndexed apObj aCount (GetIndexedQualifier aMaxIndex aCount)"

text \<open>
  The overloads for objects whose variation is their size. \<open>convert\<close> is
  \<open>boost::numeric::converter<uint8_t, size_t>::convert\<close>, code of the Boost library.
\<close>

definition WriteIndexed_SizeByVariation ::
  "(nat \<Rightarrow> exn + byte) \<Rightarrow> DNPObject \<Rightarrow> nat \<Rightarrow> QualifierCode \<Rightarrow> IndexedWriteIterator member" where
  "WriteIndexed_SizeByVariation convert apObj aSize aCode a =
     (case CheckWriteState a of Some e \<Rightarrow> (Inl e, a) | None \<Rightarrow>
      case convert aSize of Inl e \<Rightarrow> (Inl e, a) | Inr variation \<Rightarrow>
      case APDU_GetFunction a of Inl e \<Rightarrow> (Inl e, a) | Inr func \<Rightarrow>
      let obj_size = (if HasData func then aSize else 0) in
      case GetPrefixSizeAndValidate aCode (ob_type apObj) of Inl e \<Rightarrow> (Inl e, a) | Inr prefix_size \<Rightarrow>
      WriteCountHeader obj_size prefix_size (word_of_nat (ob_group apObj)) variation 1 aCode a)"

definition WriteIndexed_SizeByVariation_Index ::
  "(nat \<Rightarrow> exn + byte) \<Rightarrow> DNPObject \<Rightarrow> nat \<Rightarrow> nat \<Rightarrow> IndexedWriteIterator member" where
  "WriteIndexed_SizeByVariation_Index convert apObj aSize aIndex =
     WriteIndexed_SizeByVariation convert apObj aSize (GetIndexedQualifier aIndex 1)"

end
