(* ===== verification/FragmentParsing.thy ===== *)
theory FragmentParsing
  imports APDUs
begin

text \<open>
  What the parser of APDUs accepts. A fragment is accepted exactly when, after the application header,
  it is a sequence of object headers each followed by its data, with nothing left over
  (\<open>headers_span\<close>); every object an iterator then visits lies inside the fragment. The parser fails
  with the exceptions of its checks and with no other.
\<close>

section \<open>The sequence of headers\<close>

fun headers_span :: "bool \<Rightarrow> bytes \<Rightarrow> nat \<Rightarrow> HeaderInfo list \<Rightarrow> nat \<Rightarrow> bool" where
  "headers_span d buf at [] n = (at = n)"
| "headers_span d buf at (hi # his) n =
     (header_at buf at hi \<and> \<not> isl (data_size_of d hi) \<and>
      headers_span d buf (at + header_span d hi) his n)"

lemma headers_span_le: "headers_span d buf at his n \<Longrightarrow> at \<le> n"
  by (induction d buf at his n rule: headers_span.induct) auto

lemma headers_span_append:
  "headers_span d buf at (his @ his') n \<longleftrightarrow>
   (\<exists>m. headers_span d buf at his m \<and> headers_span d buf m his' n)"
  by (induction his arbitrary: at) auto

lemma headers_span_member:
  "headers_span d buf at his n \<Longrightarrow> hi \<in> set his \<Longrightarrow>
   header_at buf (mPos hi) hi \<and> \<not> isl (data_size_of d hi) \<and> at \<le> mPos hi \<and> mPos hi + header_span d hi \<le> n"
proof (induction d buf at his n rule: headers_span.induct)
  case (2 d buf at hi' his n)
  then show ?case
    using headers_span_le [of d buf "at + header_span d hi'" his n] by (auto simp: header_at_def)
qed simp

text \<open>The headers a fragment consists of are determined by its bytes.\<close>

lemma header_at_unique: "header_at buf off hi \<Longrightarrow> header_at buf off hi' \<Longrightarrow> hi = hi'"
  by (cases hi; cases hi') (auto simp: header_at_def)

lemma headers_span_unique:
  "headers_span d buf at his n \<Longrightarrow> headers_span d buf at his' n \<Longrightarrow> his = his'"
proof (induction his arbitrary: at his')
  case Nil
  show ?case
  proof (cases his')
    case Cons
    with Nil show ?thesis using header_span_ge [of d] headers_span_le
      by (metis add_le_same_cancel1 headers_span.simps list.inject not_numeral_le_zero order_trans)
  qed simp
next
  case (Cons hi his)
  from Cons.prems show ?case
  proof (cases his')
    case Nil
    with Cons.prems show ?thesis
      using header_span_ge [of d hi] by (auto dest: headers_span_le)
  next
    case (Cons hi' his'')
    with Cons.prems header_at_unique [of buf at hi hi'] have "hi = hi'" by simp
    with Cons Cons.prems Cons.IH [of "at + header_span d hi" his''] show ?thesis by simp
  qed
qed

section \<open>The loop of the parser\<close>

lemma GetFunction_headers [simp]:
  "APDU_GetFunction (a\<lparr>mObjectHeaders := his\<rparr>) = APDU_GetFunction a"
  by (simp add: APDU_GetFunction_def split: option.split)

lemma ReadHeaders_accepts:
  "ReadHeaders c r a = (None, a') \<Longrightarrow> APDU_GetFunction a = Inr func \<Longrightarrow>
   \<exists>his. headers_span (HasData func) (mBuffer a) c his (c + r) \<and>
     a' = a\<lparr>mObjectHeaders := mObjectHeaders a @ his\<rparr>"
proof (induction c r a arbitrary: a' rule: ReadHeaders.induct)
  case (1 c r a)
  show ?case
  proof (cases "r > 0")
    case False
    with "1.prems" show ?thesis
      by (intro exI [of _ "[]"]) (simp add: ReadHeaders.simps [of c r a])
  next
    case True
    with "1.prems" obtain n b where step: "ReadObjectHeader c r a = (Inr n, b)"
      and rest: "ReadHeaders (c + n) (r - n) b = (None, a')"
      by (auto simp: ReadHeaders.simps [of c r a] split: prod.splits sum.splits)
    from step obtain hi f data where hi: "header_at (mBuffer a) c hi" "APDU_GetFunction a = Inr f"
      "data_size_of (HasData f) hi = Inr data" "n = header_span (HasData f) hi" "n \<le> r"
      and b: "b = a\<lparr>mObjectHeaders := mObjectHeaders a @ [hi]\<rparr>"
      by (rule ReadObjectHeader_accepts)
    have f: "f = func" using hi(2) "1.prems"(2) by simp
    have "APDU_GetFunction b = Inr func" by (simp add: b "1.prems"(2))
    from "1.IH" [OF True step [symmetric] refl rest this] obtain his where
      "headers_span (HasData func) (mBuffer b) (c + n) his (c + n + (r - n))"
      "a' = b\<lparr>mObjectHeaders := mObjectHeaders b @ his\<rparr>" by blast
    with hi show ?thesis unfolding f by (intro exI [of _ "hi # his"]) (simp add: b)
  qed
qed

lemma ReadHeaders_accepted:
  "headers_span (HasData func) (mBuffer a) c his (c + r) \<Longrightarrow> APDU_GetFunction a = Inr func \<Longrightarrow>
   ReadHeaders c r a = (None, a\<lparr>mObjectHeaders := mObjectHeaders a @ his\<rparr>)"
proof (induction his arbitrary: c r a)
  case Nil
  then show ?case by (simp add: ReadHeaders.simps [of c 0 a])
next
  case (Cons hi his)
  define n where "n = header_span (HasData func) hi"
  have span: "headers_span (HasData func) (mBuffer a) (c + n) his (c + r)"
    using Cons.prems(1) by (simp add: n_def)
  then have n: "n \<le> r" "c + n + (r - n) = c + r" using headers_span_le by fastforce+
  have r: "r > 0" using n(1) header_span_ge [of "HasData func" hi] by (simp add: n_def)
  from Cons.prems(1) obtain data where "data_size_of (HasData func) hi = Inr data"
    by (cases "data_size_of (HasData func) hi") auto
  with Cons.prems n(1) have
    step: "ReadObjectHeader c r a = (Inr n, a\<lparr>mObjectHeaders := mObjectHeaders a @ [hi]\<rparr>)"
    unfolding n_def by (intro ReadObjectHeader_accepted) simp_all
  have "ReadHeaders (c + n) (r - n) (a\<lparr>mObjectHeaders := mObjectHeaders a @ [hi]\<rparr>) =
      (None, (a\<lparr>mObjectHeaders := mObjectHeaders a @ [hi]\<rparr>)\<lparr>mObjectHeaders :=
        mObjectHeaders (a\<lparr>mObjectHeaders := mObjectHeaders a @ [hi]\<rparr>) @ his\<rparr>)"
    by (rule Cons.IH) (use span n(2) Cons.prems(2) in simp_all)
  with r step show ?case by (simp add: ReadHeaders.simps [of c r a])
qed

text \<open>A message as \<open>Write\<close> leaves it: bytes, and nothing known of them yet.\<close>

definition received :: "APDU \<Rightarrow> bool" where
  "received a \<longleftrightarrow> \<not> mIsInterpreted a \<and> mpAppHeader a = None \<and> mObjectHeaders a = [] \<and>
     mFragmentSize a \<le> length (mBuffer a)"

lemma APDU_Write_received:
  "APDU_Write xs a = (None, b) \<Longrightarrow> received b \<and> take (length xs) (mBuffer b) = xs \<and> mFragmentSize b = length xs"
  by (auto simp: APDU_Write_def handler_simps APDU_Reset_def received_def blit_def split: if_splits)

lemma Interpret_received:
  "received a \<Longrightarrow> Interpret a =
     (case ParseHeader a of Inl e \<Rightarrow> (Some e, a)
      | Inr h \<Rightarrow>
        (case ReadHeaders (AppHeader_GetSize h) (mFragmentSize a - AppHeader_GetSize h) (a\<lparr>mpAppHeader := Some h\<rparr>) of
          (None, b) \<Rightarrow> (None, b\<lparr>mIsInterpreted := True\<rparr>)
        | (Some e, b) \<Rightarrow> (Some e, b)))"
  by (auto simp: Interpret_def received_def InterpretHeader_def handler_simps Let_def
      split: sum.splits prod.splits option.splits)

lemma ParseHeader_size: "ParseHeader a = Inr h \<Longrightarrow> AppHeader_GetSize h \<le> mFragmentSize a"
  by (auto simp: ParseHeader_def split: if_splits)

lemma received_function:
  "received a \<Longrightarrow> APDU_GetFunction (a\<lparr>mpAppHeader := Some h\<rparr>) = Inr (GetFunction (mBuffer a))"
  by (simp add: APDU_GetFunction_def)

lemma Interpret_accepts:
  assumes "received a" and "Interpret a = (None, a')"
  obtains h his where "ParseHeader a = Inr h"
    "headers_span (HasData (GetFunction (mBuffer a))) (mBuffer a) (AppHeader_GetSize h) his (mFragmentSize a)"
    "a' = a\<lparr>mpAppHeader := Some h, mObjectHeaders := his, mIsInterpreted := True\<rparr>"
proof -
  from assms obtain h b where h: "ParseHeader a = Inr h"
    and loop: "ReadHeaders (AppHeader_GetSize h) (mFragmentSize a - AppHeader_GetSize h)
      (a\<lparr>mpAppHeader := Some h\<rparr>) = (None, b)" and a': "a' = b\<lparr>mIsInterpreted := True\<rparr>"
    by (auto simp: Interpret_received split: sum.splits prod.splits option.splits)
  from ReadHeaders_accepts [OF loop received_function [OF assms(1)]] ParseHeader_size [OF h] h assms(1)
  show thesis by (auto simp: a' received_def intro!: that)
qed

lemma Interpret_accepted:
  assumes "received a" and "ParseHeader a = Inr h"
    and "headers_span (HasData (GetFunction (mBuffer a))) (mBuffer a) (AppHeader_GetSize h) his (mFragmentSize a)"
  shows "Interpret a = (None, a\<lparr>mpAppHeader := Some h, mObjectHeaders := his, mIsInterpreted := True\<rparr>)"
proof -
  have "ReadHeaders (AppHeader_GetSize h) (mFragmentSize a - AppHeader_GetSize h) (a\<lparr>mpAppHeader := Some h\<rparr>) =
      (None, (a\<lparr>mpAppHeader := Some h\<rparr>)\<lparr>mObjectHeaders := mObjectHeaders (a\<lparr>mpAppHeader := Some h\<rparr>) @ his\<rparr>)"
    by (rule ReadHeaders_accepted) (use assms ParseHeader_size in \<open>simp_all add: received_function\<close>)
  with assms(1,2) show ?thesis by (simp add: Interpret_received received_def)
qed

section \<open>Iterating over the objects of a header\<close>

text \<open>The iterator after \<open>k\<close> increments.\<close>

primrec nth_object :: "bytes \<Rightarrow> HeaderInfo \<Rightarrow> bool \<Rightarrow> nat \<Rightarrow> exn + ObjectReadIterator" where
  "nth_object buf hi d 0 = ObjectReadIterator_new hi buf d"
| "nth_object buf hi d (Suc k) =
     (case nth_object buf hi d k of Inl e \<Rightarrow> Inl e | Inr it \<Rightarrow> ObjectRead_next buf it)"

text \<open>Where the prefix of the \<open>k\<close>th object is, and the index the iterator reports for it.\<close>

definition object_prefix_pos :: "HeaderInfo \<Rightarrow> bool \<Rightarrow> nat \<Rightarrow> nat" where
  "object_prefix_pos hi d k =
     mPos hi + ObjectHeader_GetSize (mpHeader hi) +
     (if ob_type (mpObjectBase hi) = OT_BITFIELD then 0
      else k * (mPrefixSize hi + (if d then ob_size (mpObjectBase hi) else 0)))"

lemma header_atD:
  assumes "header_at buf off hi"
  shows "GetPrefixSizeAndValidate (Qualifier (mHeaderData hi)) (ob_type (mpObjectBase hi)) = Inr (mPrefixSize hi)"
    and "GetObjectHeader (Qualifier (mHeaderData hi)) = Inr (mpHeader hi)"
    and "GetNumObjects (mpHeader hi) buf off = Inr (mHeaderCount hi)"
    and "mPos hi = off"
  using assms unfolding header_at_def by blast+

lemma index_found:
  assumes "header_at buf off hi" and "ob_type (mpObjectBase hi) \<in> {OT_FIXED, OT_BITFIELD, OT_SIZE_BY_VARIATION}"
    and "or_header it = hi"
  shows "\<exists>n. CalcIndex buf it pos = Inr n"
proof -
  note q = header_atD [OF assms(1)]
  show ?thesis
    by (cases "Qualifier (mHeaderData hi)")
      (use q assms(2) in \<open>auto simp: CalcIndex_def CalcCountIndex_def GetPrefixSizeAndValidate_def
        RangedHeader_GetRange_def assms(3) split: if_splits option.splits\<close>)
qed

lemma range_index:
  assumes "header_at buf off hi" and "ob_type (mpObjectBase hi) = OT_BITFIELD"
    and "or_header it = hi" "or_header it' = hi" and "mHeaderCount hi \<noteq> 0"
    and "CalcIndex buf it pos = Inr i" and "CalcIndex buf it' pos' = Inr i'"
    and "or_num it' = or_num it + k"
  shows "i' = i + k"
proof -
  note q = header_atD [OF assms(1)]
  show ?thesis
    by (cases "Qualifier (mHeaderData hi)")
      (use q assms(2,5-8) in \<open>auto simp: CalcIndex_def CalcCountIndex_def GetPrefixSizeAndValidate_def
        GetNumObjects_def RangedHeader_GetRange_def assms(3,4) split: if_splits option.splits\<close>)
qed

lemma size_found:
  assumes "header_at buf off hi" and "ob_type (mpObjectBase hi) = OT_FIXED" and "or_header it = hi"
  shows "CalcObjSize buf it pos = Inr (if or_hasdata it then ob_size (mpObjectBase hi) else 0)"
proof -
  note q = header_atD [OF assms(1)]
  show ?thesis
    by (cases "Qualifier (mHeaderData hi)")
      (use q assms(2) in \<open>auto simp: CalcObjSize_def GetPrefixSizeAndValidate_def assms(3) split: if_splits\<close>)
qed

lemma CalcObjSize_no_data: "\<not> or_hasdata it \<Longrightarrow> CalcObjSize buf it pos = Inr 0"
  by (simp add: CalcObjSize_def)

text \<open>What the iterator over an accepted header of fixed objects or of a bitfield looks like.\<close>

definition iterator_at :: "bytes \<Rightarrow> HeaderInfo \<Rightarrow> bool \<Rightarrow> nat \<Rightarrow> ObjectReadIterator \<Rightarrow> bool" where
  "iterator_at buf hi d k it \<longleftrightarrow>
     or_header it = hi \<and> or_num it = k \<and> or_hasdata it = d \<and>
     or_prefix it = Some (object_prefix_pos hi d k) \<and>
     (d \<longrightarrow> or_position it = Some (object_prefix_pos hi d k + mPrefixSize hi)) \<and>
     (\<exists>n. or_index it = Some n \<and>
       CalcIndex buf (it\<lparr>or_index := None\<rparr>) (object_prefix_pos hi d k) = Inr n)"

lemma CalcIndex_cong:
  "or_header it = or_header it' \<Longrightarrow> or_num it = or_num it' \<Longrightarrow> CalcIndex buf it pos = CalcIndex buf it' pos"
  by (simp add: CalcIndex_def CalcCountIndex_def split: ObjectHeaderTypes.split)

lemma SetObjectInfo_found:
  assumes "header_at buf off hi" and "ob_type (mpObjectBase hi) \<in> {OT_FIXED, OT_BITFIELD, OT_SIZE_BY_VARIATION}"
    and "or_header it = hi" and "or_num it = k" and "or_hasdata it = d"
    and "or_prefix it = Some pos" and "pos = object_prefix_pos hi d k"
  shows "\<exists>it'. SetObjectInfo buf pos it = Inr it' \<and> iterator_at buf hi d k it' \<and> or_start it' = or_start it"
proof -
  define jt where "jt = (if or_hasdata it then it\<lparr>or_position := Some (pos + mPrefixSize (or_header it))\<rparr> else it)"
  have jt: "or_header jt = hi" "or_num jt = k" "or_hasdata jt = d" "or_prefix jt = Some pos"
    "or_start jt = or_start it" "d \<Longrightarrow> or_position jt = Some (pos + mPrefixSize hi)"
    using assms(3-6) by (auto simp: jt_def)
  obtain n where n: "CalcIndex buf jt pos = Inr n"
    using index_found [OF assms(1,2) jt(1)] by blast
  have "SetObjectInfo buf pos it = Inr (jt\<lparr>or_index := Some n\<rparr>)"
    using n by (simp add: SetObjectInfo_def jt_def [symmetric] Let_def)
  moreover have "CalcIndex buf (jt\<lparr>or_index := None\<rparr>) pos = Inr n"
    using n by (subst CalcIndex_cong [of _ jt]) simp_all
  ultimately show ?thesis
    using jt unfolding assms(7) [symmetric] iterator_at_def by auto
qed

lemma first_object_found:
  assumes "header_at buf off hi" and "ob_type (mpObjectBase hi) \<in> {OT_FIXED, OT_BITFIELD, OT_SIZE_BY_VARIATION}"
    and "0 < mHeaderCount hi"
  shows "\<exists>it. nth_object buf hi d 0 = Inr it \<and> iterator_at buf hi d 0 it \<and>
    (ob_type (mpObjectBase hi) = OT_BITFIELD \<longrightarrow> (\<exists>s. or_start it = Some s \<and> or_index it = Some s))"
proof -
  define it0 where "it0 = \<lparr>or_header = hi, or_num = 0, or_index = None, or_start = None,
    or_prefix = Some (object_prefix_pos hi d 0), or_position = None, or_hasdata = d\<rparr>"
  obtain it where it: "SetObjectInfo buf (object_prefix_pos hi d 0) it0 = Inr it"
    "iterator_at buf hi d 0 it"
    using SetObjectInfo_found [OF assms(1,2), of it0 0 d "object_prefix_pos hi d 0"]
    by (auto simp: it0_def)
  have new: "nth_object buf hi d 0 =
      Inr (it\<lparr>or_start := if ob_type (mpObjectBase hi) = OT_BITFIELD then or_index it else Some 0\<rparr>)"
    using assms(3) it(1) by (simp add: ObjectReadIterator_new_def ObjectRead_IsEnd_def it0_def
        object_prefix_pos_def Let_def split: if_splits)
  have "CalcIndex buf (it\<lparr>or_start := x, or_index := None\<rparr>) pos = CalcIndex buf (it\<lparr>or_index := None\<rparr>) pos"
    for x pos by (rule CalcIndex_cong) simp_all
  with it(2) new show ?thesis by (auto simp: iterator_at_def)
qed

lemma nth_object_found:
  assumes "header_at buf off hi" and "ob_type (mpObjectBase hi) \<in> {OT_FIXED, OT_BITFIELD, OT_SIZE_BY_VARIATION}"
    and "ob_type (mpObjectBase hi) = OT_SIZE_BY_VARIATION \<longrightarrow> \<not> d" and "k < mHeaderCount hi"
  shows "\<exists>it. nth_object buf hi d k = Inr it \<and> iterator_at buf hi d k it \<and>
    (ob_type (mpObjectBase hi) = OT_BITFIELD \<longrightarrow>
      (\<exists>s. or_start it = Some s \<and> or_index it = Some (s + k)))"
  using assms(4)
proof (induction k)
  case 0
  then show ?case using first_object_found [OF assms(1,2), of d] by auto
next
  case (Suc k)
  then obtain it where it: "nth_object buf hi d k = Inr it" "iterator_at buf hi d k it"
    and start: "ob_type (mpObjectBase hi) = OT_BITFIELD \<longrightarrow>
      (\<exists>s. or_start it = Some s \<and> or_index it = Some (s + k))" by auto
  have head: "or_header it = hi" "or_num it = k" "or_hasdata it = d"
    "or_prefix it = Some (object_prefix_pos hi d k)" using it(2) by (simp_all add: iterator_at_def)
  define pos where "pos = object_prefix_pos hi d (Suc k)"
  define jt where "jt = it\<lparr>or_num := Suc k, or_prefix := Some pos\<rparr>"
  have "nth_object buf hi d (Suc k) = SetObjectInfo buf pos jt"
    using Suc.prems assms(2,3) head CalcObjSize_no_data [of "it\<lparr>or_num := Suc k\<rparr>"] size_found [OF assms(1), of "it\<lparr>or_num := Suc k\<rparr>"]
    by (auto simp: it(1) ObjectRead_next_def ObjectRead_IsEnd_def jt_def pos_def object_prefix_pos_def
        algebra_simps Let_def)
  moreover obtain it' where it': "SetObjectInfo buf pos jt = Inr it'" "iterator_at buf hi d (Suc k) it'"
    "or_start it' = or_start it"
    using SetObjectInfo_found [OF assms(1,2), of jt "Suc k" d pos] head by (auto simp: jt_def pos_def)
  moreover have "\<exists>s. or_start it' = Some s \<and> or_index it' = Some (s + Suc k)"
    if "ob_type (mpObjectBase hi) = OT_BITFIELD"
  proof -
    from start that obtain s where s: "or_start it = Some s" "or_index it = Some (s + k)" by blast
    from it(2) s obtain i where
      i: "CalcIndex buf (it\<lparr>or_index := None\<rparr>) (object_prefix_pos hi d k) = Inr i" "i = s + k"
      by (auto simp: iterator_at_def)
    from it'(2) obtain j where
      j: "CalcIndex buf (it'\<lparr>or_index := None\<rparr>) pos = Inr j" "or_index it' = Some j"
      by (auto simp: iterator_at_def pos_def)
    have "j = i + 1"
      by (rule range_index [OF assms(1) that _ _ _ i(1) j(1)])
        (use head it'(2) Suc.prems in \<open>auto simp: iterator_at_def\<close>)
    with s i j it'(3) show ?thesis by simp
  qed
  ultimately show ?case by auto
qed

text \<open>Where the data of an accepted header's objects ends.\<close>

lemma object_data_inside:
  assumes "header_at buf off hi" and "data_size_of d hi = Inr data" and "k < mHeaderCount hi"
    and "off + header_span d hi \<le> n"
  shows "ob_type (mpObjectBase hi) = OT_FIXED \<Longrightarrow>
      object_prefix_pos hi d k + mPrefixSize hi + (if d then ob_size (mpObjectBase hi) else 0) \<le> n"
    and "ob_type (mpObjectBase hi) = OT_BITFIELD \<Longrightarrow> d \<Longrightarrow>
      object_prefix_pos hi d k + mPrefixSize hi + Bitfield_GetSize (mHeaderCount hi) \<le> n"
proof -
  note off = header_atD(4) [OF assms(1)]
  show "object_prefix_pos hi d k + mPrefixSize hi + (if d then ob_size (mpObjectBase hi) else 0) \<le> n"
    if "ob_type (mpObjectBase hi) = OT_FIXED"
  proof -
    define w where "w = mPrefixSize hi + (if d then ob_size (mpObjectBase hi) else 0)"
    have "(k + 1) * w \<le> mHeaderCount hi * w" using assms(3) by (intro mult_le_mono1) simp
    moreover have "data = w * mHeaderCount hi"
      using assms(2) that by (simp add: data_size_of_def object_data_size_def w_def)
    ultimately have "k * w + w \<le> data" by (simp add: algebra_simps)
    moreover have "off + ObjectHeader_GetSize (mpHeader hi) + data \<le> n"
      using assms(2,4) by (simp add: header_span_def)
    moreover have "object_prefix_pos hi d k = off + ObjectHeader_GetSize (mpHeader hi) + k * w"
      using that by (simp add: object_prefix_pos_def off w_def)
    ultimately show ?thesis unfolding w_def by linarith
  qed
  show "object_prefix_pos hi d k + mPrefixSize hi + Bitfield_GetSize (mHeaderCount hi) \<le> n"
    if "ob_type (mpObjectBase hi) = OT_BITFIELD" "d"
  proof -
    have "mPrefixSize hi = 0"
      using header_atD(1) [OF assms(1)] that(1) by (auto simp: GetPrefixSizeAndValidate_def split: if_splits)
    with that assms(2,4) show ?thesis
      by (simp add: object_prefix_pos_def off data_size_of_def object_data_size_def header_span_def)
  qed
qed

section \<open>The exceptions of the parser\<close>

definition parser_exceptions :: "exn list" where
  "parser_exceptions = ObjectException #
     map Exception [ALERR_INSUFFICIENT_DATA_FOR_FRAG, ALERR_INSUFFICIENT_DATA_FOR_RESPONSE,
       ALERR_INSUFFICIENT_DATA_FOR_HEADER, ALERR_UNKNOWN_QUALIFIER, ALERR_ILLEGAL_QUALIFIER_AND_OBJECT,
       ALERR_START_STOP_MISMATCH, ALERR_INSUFFICIENT_DATA_FOR_OBJECTS]"

lemma no_variable_objects: "list_all (\<lambda>ob. ob_type ob \<noteq> OT_VARIABLE) DNPObjects"
  by (simp add: DNPObjects_def object_tables object_kinds)

lemma lookup_not_variable: "ObjectBase_Get g v = Some ob \<Longrightarrow> ob_type ob \<noteq> OT_VARIABLE"
  using no_variable_objects
  by (auto simp: ObjectBase_Get_def object_Inst_def list_all_iff find_Some_iff
      split: option.splits if_splits)

lemma header_type_found:
  "GetObjectHeader q = Inr h \<Longrightarrow> h = OHT_ALL_OBJECTS \<or> GetRange h p off \<noteq> None \<or> GetCount h p off \<noteq> None"
  by (cases h) simp_all

lemma GetNumObjects_refuses:
  "GetObjectHeader q = Inr h \<Longrightarrow> GetNumObjects h p off = Inl e \<Longrightarrow> e = Exception ALERR_START_STOP_MISMATCH"
  by (cases h) (auto simp: GetNumObjects_def split: prod.splits if_splits)

lemma GetObjectHeader_refuses: "q \<noteq> QC_UNDEFINED \<Longrightarrow> GetObjectHeader q \<noteq> Inl e"
  by (cases q) simp_all

lemma GetPrefixSize_refuses:
  "GetPrefixSizeAndValidate q t = Inl e \<Longrightarrow> e = Exception ALERR_ILLEGAL_QUALIFIER_AND_OBJECT"
  unfolding GetPrefixSizeAndValidate_def by (simp split: if_split_asm)

lemma object_data_size_refuses: "object_data_size ob d prefix n v = Inl e \<Longrightarrow> ob_type ob = OT_VARIABLE"
  by (cases "ob_type ob") (simp_all add: object_data_size_def)

lemma ReadObjectHeader_exceptions:
  assumes "ReadObjectHeader off rem a = (Inl e, a')" and "APDU_GetFunction a = Inr func"
  shows "e \<in> set parser_exceptions"
  using assms GetNumObjects_refuses GetObjectHeader_refuses GetPrefixSize_refuses lookup_not_variable
    object_data_size_refuses
  by (fastforce simp: ReadObjectHeader_def Let_def parser_exceptions_def
      split: if_splits sum.splits option.splits)

lemma ReadHeaders_exceptions:
  "ReadHeaders c r a = (Some e, a') \<Longrightarrow> APDU_GetFunction a = Inr func \<Longrightarrow>
   e \<in> set parser_exceptions \<and> (\<exists>his. a' = a\<lparr>mObjectHeaders := his\<rparr>)"
proof (induction c r a arbitrary: a' rule: ReadHeaders.induct)
  case (1 c r a)
  have r: "r > 0" using "1.prems" by (cases "r > 0") (simp_all add: ReadHeaders.simps [of c r a])
  show ?case
  proof (cases "ReadObjectHeader c r a")
    case (Pair res b)
    show ?thesis
    proof (cases res)
      case (Inl e')
      with Pair r "1.prems" have "e' = e" "a' = b" by (simp_all add: ReadHeaders.simps [of c r a])
      with Inl Pair "1.prems" ReadObjectHeader_refuses ReadObjectHeader_exceptions show ?thesis
        by (metis APDU.surjective APDU.update_convs(3))
    next
      case (Inr n)
      with Pair have step: "ReadObjectHeader c r a = (Inr n, b)" by simp
      with r "1.prems" have rest: "ReadHeaders (c + n) (r - n) b = (Some e, a')"
        by (simp add: ReadHeaders.simps [of c r a])
      from step obtain hi where b: "b = a\<lparr>mObjectHeaders := mObjectHeaders a @ [hi]\<rparr>"
        by (rule ReadObjectHeader_accepts)
      have "APDU_GetFunction b = Inr func" by (simp add: b "1.prems"(2))
      from "1.IH" [OF r step [symmetric] refl rest this] show ?thesis by (auto simp: b)
    qed
  qed
qed

section \<open>Properties\<close>


definition example_fragment :: bytes where
  "example_fragment = [0xC0, 0x02, 0x01, 0x02, 0x00, 0x03, 0x04, 0x81, 0x01]"

definition example_message :: APDU where
  "example_message = snd (APDU_Write example_fragment (APDU_new (replicate 20 0)))"

definition example_header :: HeaderInfo where
  "example_header = \<lparr>mPos = 2, mHeaderData = \<lparr>Group = 1, Variation = 2, Qualifier = QC_1B_START_STOP\<rparr>,
     mHeaderCount = 2, mPrefixSize = 0, mpHeader = OHT_RANGED_2_OCTET,
     mpObjectBase = FixedObject 1 2 1 [(mFlag, UInt8, 0)]\<rparr>"

lemma example_message_fields:
  "received example_message" "mFragmentSize example_message = 9"
  "mBuffer example_message = example_fragment @ replicate 11 0"
  by (simp_all add: example_message_def example_fragment_def APDU_Write_def APDU_new_def APDU_Reset_def
      handler_simps received_def blit_def numeral_eq_Suc)

lemma example_lookup: "ObjectBase_Get 1 2 = Some (FixedObject 1 2 1 [(mFlag, UInt8, 0)])"
  by (simp add: ObjectBase_Get_def RADIX_def object_Inst_def DNPObjects_def object_tables object_kinds)

lemma example_message_header: "header_at (mBuffer example_message) 2 example_header"
  using example_lookup
  by (simp add: header_at_def example_header_def example_message_fields example_fragment_def
      ObjectHeader_Get_def ByteToQualifierCode_def GetPrefixSizeAndValidate_def GetNumObjects_def
      RangedHeader_GetRange_def UInt8_Read_def UInt8_Size_def FixedObject_def)

lemma example_message_function: "GetFunction (mBuffer example_message) = FC_WRITE"
  "GetFunction (example_fragment @ replicate 11 0) = FC_WRITE"
  by (simp_all add: GetFunction_def example_message_fields example_fragment_def IntToFunction_def)

lemma parser_accepts_example:
  "Interpret example_message = (None, example_message\<lparr>mpAppHeader := Some AHT_REQUEST,
     mObjectHeaders := [example_header], mIsInterpreted := True\<rparr>)"
  by (rule Interpret_accepted [OF example_message_fields(1)])
    (use example_message_header in \<open>simp_all add: ParseHeader_def example_message_fields
      example_message_function IsResponse_def HasData_def header_span_def data_size_of_def
      object_data_size_def example_header_def FixedObject_def UInt8_Size_def\<close>)


text \<open>A fragment the parser refuses is refused with one of the exceptions of its checks: too few bytes
  for the fragment, the response header, an object header or its objects; an unknown qualifier or
  object; a qualifier its object does not allow; or a range whose start is after its stop. No
  assertion fails, the default branches of its switches are never reached, and the message is left
  uninterpreted with its bytes unchanged.\<close>

theorem parser_refusals:
  assumes "received a" and "Interpret a = (Some e, a')"
  shows "e \<in> set parser_exceptions \<and> \<not> mIsInterpreted a' \<and> mBuffer a' = mBuffer a \<and>
    mFragmentSize a' = mFragmentSize a"
proof (cases "ParseHeader a")
  case (Inl e')
  with assms have "e' = e" "a' = a" by (simp_all add: Interpret_received)
  with Inl assms(1) show ?thesis
    by (auto simp: ParseHeader_def received_def parser_exceptions_def split: if_splits)
next
  case (Inr h)
  with assms have "ReadHeaders (AppHeader_GetSize h) (mFragmentSize a - AppHeader_GetSize h)
      (a\<lparr>mpAppHeader := Some h\<rparr>) = (Some e, a')"
    by (auto simp: Interpret_received split: prod.splits option.splits)
  from ReadHeaders_exceptions [OF this received_function [OF assms(1)]] assms(1) show ?thesis
    by (auto simp: received_def)
qed

theorem parser_refusals_witness:
  "\<exists>e a'. Interpret (snd (APDU_Write [0xC0, 0x01, 0x01] (APDU_new (replicate 8 0)))) = (Some e, a') \<and>
     e \<in> set parser_exceptions"
proof -
  define a where "a = snd (APDU_Write [0xC0, 0x01, 0x01] (APDU_new (replicate 8 0)))"
  have a: "received a" "mFragmentSize a = 3" "mBuffer a = [0xC0, 0x01, 0x01, 0, 0, 0, 0, 0]"
    by (simp_all add: a_def APDU_Write_def APDU_new_def APDU_Reset_def handler_simps received_def
        blit_def numeral_eq_Suc)
  have "\<exists>e a'. Interpret a = (Some e, a')"
    using a by (simp add: Interpret_received ParseHeader_def GetFunction_def IntToFunction_def IsResponse_def
        ReadHeaders.simps [of 2 "Suc 0"] ReadObjectHeader_def)
  with parser_refusals [OF a(1)] show ?thesis unfolding a_def by blast
qed

text \<open>C32: Whatever the bytes received, an iterator over the objects of an accepted message stays inside
  it: for a header of fixed objects or of a bitfield every increment up to its count succeeds, the
  object is counted as not at the end, and the bytes it is read from end at or before the last byte
  of the fragment; the index of the nth bit of a bitfield is n after its first.\<close>

theorem interpreted_objects_inside:
  assumes "received a" and "Interpret a = (None, a')" and "hi \<in> set (mObjectHeaders a')"
    and "ob_type (mpObjectBase hi) \<in> {OT_FIXED, OT_BITFIELD}" and "k < mHeaderCount hi"
    and "d = HasData (GetFunction (mBuffer a))"
  shows "\<exists>it p. nth_object (mBuffer a') hi d k = Inr it \<and> \<not> ObjectRead_IsEnd it \<and>
    or_prefix it = Some p \<and> p + mPrefixSize hi \<le> mFragmentSize a' \<and>
    (d \<longrightarrow> ObjectRead_deref it = Inr (p + mPrefixSize hi)) \<and>
    (d \<and> ob_type (mpObjectBase hi) = OT_FIXED \<longrightarrow>
      p + mPrefixSize hi + ob_size (mpObjectBase hi) \<le> mFragmentSize a') \<and>
    (d \<and> ob_type (mpObjectBase hi) = OT_BITFIELD \<longrightarrow>
      p + mPrefixSize hi + Bitfield_GetSize (mHeaderCount hi) \<le> mFragmentSize a' \<and>
      (\<exists>s. or_start it = Some s \<and> or_index it = Some (s + k)))"
proof -
  from assms(1,2) obtain h his where
    span: "headers_span d (mBuffer a) (AppHeader_GetSize h) his (mFragmentSize a)"
    and a': "a' = a\<lparr>mpAppHeader := Some h, mObjectHeaders := his, mIsInterpreted := True\<rparr>"
    unfolding assms(6) by (rule Interpret_accepts)
  with assms(3) headers_span_member [OF span, of hi] obtain data where
    hi: "header_at (mBuffer a) (mPos hi) hi" "data_size_of d hi = Inr data"
      "mPos hi + header_span d hi \<le> mFragmentSize a"
    by (cases "data_size_of d hi") auto
  from nth_object_found [OF hi(1) _ _ assms(5), of d] assms(4) obtain it where
    it: "nth_object (mBuffer a') hi d k = Inr it" "iterator_at (mBuffer a) hi d k it"
      "ob_type (mpObjectBase hi) = OT_BITFIELD \<longrightarrow> (\<exists>s. or_start it = Some s \<and> or_index it = Some (s + k))"
    by (fastforce simp: a')
  have fixed: "object_prefix_pos hi d k + mPrefixSize hi + (if d then ob_size (mpObjectBase hi) else 0)
      \<le> mFragmentSize a" if "ob_type (mpObjectBase hi) = OT_FIXED"
    by (rule object_data_inside(1) [OF hi(1,2) assms(5) hi(3) that])
  have bits: "object_prefix_pos hi d k + mPrefixSize hi + Bitfield_GetSize (mHeaderCount hi)
      \<le> mFragmentSize a" if "ob_type (mpObjectBase hi) = OT_BITFIELD" d
    by (rule object_data_inside(2) [OF hi(1,2) assms(5) hi(3) that])
  have "mPrefixSize hi = 0" if "ob_type (mpObjectBase hi) = OT_BITFIELD"
    using header_atD(1) [OF hi(1)] that by (auto simp: GetPrefixSizeAndValidate_def split: if_splits)
  then have prefix: "object_prefix_pos hi d k + mPrefixSize hi \<le> mFragmentSize a"
    using assms(4) fixed hi(3) by (auto simp: object_prefix_pos_def header_span_def split: if_splits)
  show ?thesis
    by (intro exI [of _ it] exI [of _ "object_prefix_pos hi d k"])
      (use it prefix fixed bits assms(5) in
        \<open>auto simp: iterator_at_def ObjectRead_IsEnd_def ObjectRead_deref_def a' split: if_splits\<close>)
qed

theorem interpreted_objects_inside_witness:
  "\<exists>it. nth_object (mBuffer example_message) example_header True 1 = Inr it \<and> ObjectRead_deref it = Inr 8"
proof -
  have "\<exists>it p. nth_object (mBuffer example_message) example_header True 1 = Inr it \<and>
      or_prefix it = Some p \<and> ObjectRead_deref it = Inr (p + mPrefixSize example_header)"
    using interpreted_objects_inside [OF example_message_fields(1) parser_accepts_example, of example_header 1 True]
    by (auto simp: example_header_def FixedObject_def example_message_function HasData_def)
  moreover have "mPrefixSize example_header = 0" by (simp add: example_header_def)
  ultimately show ?thesis
    using nth_object_found [OF example_message_header, of True 1]
    by (auto simp: iterator_at_def object_prefix_pos_def example_header_def FixedObject_def UInt8_Size_def)
qed

definition overrun_message :: "nat \<Rightarrow> APDU" where
  "overrun_message n = snd (APDU_Write [0xC0, 0x01, 0x6E, 0x01, 0x17, 0xFF, 0x00] (APDU_new (replicate n 0)))"

definition overrun_header :: HeaderInfo where
  "overrun_header = \<lparr>mPos = 2, mHeaderData = \<lparr>Group = 0x6E, Variation = 1, Qualifier = QC_1B_CNT_1B_INDEX\<rparr>,
     mHeaderCount = 255, mPrefixSize = 1, mpHeader = OHT_COUNT_1_OCTET,
     mpObjectBase = SizeByVariationObject 110 0\<rparr>"

lemma overrun_message_fields:
  assumes "7 \<le> n"
  shows "received (overrun_message n)" "mFragmentSize (overrun_message n) = 7"
    "mBuffer (overrun_message n) = [0xC0, 0x01, 0x6E, 0x01, 0x17, 0xFF, 0x00] @ replicate (n - 7) 0"
  using assms
  by (auto simp: overrun_message_def APDU_Write_def APDU_new_def APDU_Reset_def handler_simps
      received_def blit_def)

lemma overrun_message_header: "7 \<le> n \<Longrightarrow> header_at (mBuffer (overrun_message n)) 2 overrun_header"
proof -
  assume n: "7 \<le> n"
  have "ObjectBase_Get 110 1 = Some (SizeByVariationObject 110 0)"
    by (simp add: ObjectBase_Get_small object_Inst_def group_cases_def DNPObjects_def object_tables object_kinds)
  then show ?thesis
    by (simp add: header_at_def overrun_header_def overrun_message_fields [OF n] ObjectHeader_Get_def
        ByteToQualifierCode_def GetPrefixSizeAndValidate_def GetNumObjects_def
        CountHeader_GetCount_def UInt8_Read_def SizeByVariationObject_def)
qed

text \<open>For an object whose size is its variation the parser checks the bytes of one object, whatever
  the count says. A seven byte read request with a count of 255 is accepted although only the first
  index is there; the iterator then walks all 255 objects, taking their indices from the bytes that
  follow the fragment in the buffer.\<close>

theorem size_by_variation_count_unchecked:
  assumes "7 \<le> n" and "k < 255"
  shows "\<exists>a' it. Interpret (overrun_message n) = (None, a') \<and> mObjectHeaders a' = [overrun_header] \<and>
    mFragmentSize a' = 7 \<and> length (mBuffer a') = n \<and>
    nth_object (mBuffer a') overrun_header False k = Inr it \<and> or_prefix it = Some (6 + k)"
proof -
  note m = overrun_message_fields [OF assms(1)] and hdr = overrun_message_header [OF assms(1)]
  have f: "GetFunction (mBuffer (overrun_message n)) = FC_READ"
    by (simp add: m GetFunction_def IntToFunction_def)
  have "Interpret (overrun_message n) = (None, (overrun_message n)\<lparr>mpAppHeader := Some AHT_REQUEST,
      mObjectHeaders := [overrun_header], mIsInterpreted := True\<rparr>)"
    by (rule Interpret_accepted [OF m(1)])
      (use hdr f in \<open>simp_all add: ParseHeader_def m(2) IsResponse_def HasData_def header_span_def
        data_size_of_def object_data_size_def overrun_header_def SizeByVariationObject_def UInt8_Size_def\<close>)
  moreover obtain it where "nth_object (mBuffer (overrun_message n)) overrun_header False k = Inr it"
    "iterator_at (mBuffer (overrun_message n)) overrun_header False k it"
    using nth_object_found [OF hdr, of False k] assms(2)
    by (auto simp: overrun_header_def SizeByVariationObject_def)
  moreover have "object_prefix_pos overrun_header False k = 6 + k"
    by (simp add: object_prefix_pos_def overrun_header_def SizeByVariationObject_def UInt8_Size_def)
  ultimately show ?thesis using m assms(1) by (simp add: iterator_at_def)
qed

theorem size_by_variation_count_unchecked_witness:
  "\<exists>a' it. Interpret (overrun_message 64) = (None, a') \<and> length (mBuffer a') = 64 \<and>
    nth_object (mBuffer a') overrun_header False 254 = Inr it \<and> or_prefix it = Some 260"
  using size_by_variation_count_unchecked [of 64 254] by auto

end
