(* ===== verification/FragmentWriting.thy ===== *)
theory FragmentWriting
  imports FragmentParsing
begin

text \<open>
  What the writers of APDUs produce. A message under construction keeps the invariant \<open>writable\<close>: its
  bytes are an application header and the sequence of object headers written so far, each with
  room for its data. Every writer keeps it and appends the header it was asked for, and so does storing
  data through the iterators; the parser therefore reads back exactly the headers written.
\<close>

section \<open>Which bytes a header depends on\<close>

definition same_bytes :: "bytes \<Rightarrow> bytes \<Rightarrow> nat \<Rightarrow> nat \<Rightarrow> bool" where
  "same_bytes p q off n \<longleftrightarrow> (\<forall>i. off \<le> i \<and> i < off + n \<longrightarrow> p ! i = q ! i)"

lemma same_bytesD: "same_bytes p q off n \<Longrightarrow> k < n \<Longrightarrow> p ! (off + k) = q ! (off + k)"
  by (simp add: same_bytes_def)

lemma same_bytes_less: "same_bytes p q off n \<Longrightarrow> m \<le> n \<Longrightarrow> same_bytes p q off m"
  by (auto simp: same_bytes_def)

lemma ObjectHeader_Get_same: "same_bytes p q off 3 \<Longrightarrow> ObjectHeader_Get p off = ObjectHeader_Get q off"
  using same_bytesD [of p q off 3 0] same_bytesD [of p q off 3 1] same_bytesD [of p q off 3 2]
  by (simp add: ObjectHeader_Get_def)

lemma GetNumObjects_same:
  assumes "same_bytes p q off (ObjectHeader_GetSize h)"
  shows "GetNumObjects h p off = GetNumObjects h q off"
proof -
  have s: "p ! (off + k) = q ! (off + k)" if "k < ObjectHeader_GetSize h" for k
    using same_bytesD [OF assms that] .
  then have t: "p ! (k + off) = q ! (k + off)" if "k < ObjectHeader_GetSize h" for k
    using that by (simp add: add.commute)
  show ?thesis
    by (cases h)
      (use s [of 3] t [of 4] t [of 5] t [of 6] t [of 7] t [of 8] t [of 9] t [of 10] s [of 5] s [of 6] s [of 7]
          s [of 4] s [of 8] s [of 9] s [of 10] in
        \<open>simp_all add: GetNumObjects_def RangedHeader_GetRange_def CountHeader_GetCount_def
          UInt8_Read_def UInt16LE_Read_def UInt32LE_Read_def codec_sizes add.assoc\<close>)
qed

lemma header_at_same:
  assumes "header_at p off hi" and "same_bytes p q off (ObjectHeader_GetSize (mpHeader hi))"
  shows "header_at q off hi"
proof -
  have "ObjectHeader_Get p off = ObjectHeader_Get q off"
    by (rule ObjectHeader_Get_same) (rule same_bytes_less [OF assms(2) ObjectHeader_GetSize_ge])
  moreover have "GetNumObjects (mpHeader hi) p off = GetNumObjects (mpHeader hi) q off"
    by (rule GetNumObjects_same [OF assms(2)])
  ultimately show ?thesis using assms(1) unfolding header_at_def by (elim conjE, intro conjI) simp_all
qed

lemma headers_span_same:
  "headers_span d p at his n \<Longrightarrow>
   (\<And>hi. hi \<in> set his \<Longrightarrow> same_bytes p q (mPos hi) (ObjectHeader_GetSize (mpHeader hi))) \<Longrightarrow>
   headers_span d q at his n"
proof (induction his arbitrary: at)
  case (Cons hi his)
  then have "header_at p at hi" "mPos hi = at" by (auto dest: header_atD(4))
  with Cons show ?case by (auto intro: header_at_same)
qed simp

lemma headers_span_below:
  assumes "headers_span d p at his n" and "\<And>i. i < n \<Longrightarrow> p ! i = q ! i"
  shows "headers_span d q at his n"
proof (rule headers_span_same [OF assms(1)])
  fix hi assume "hi \<in> set his"
  from headers_span_member [OF assms(1) this] have "mPos hi + header_span d hi \<le> n" by blast
  then show "same_bytes p q (mPos hi) (ObjectHeader_GetSize (mpHeader hi))"
    by (auto simp: same_bytes_def header_span_def intro!: assms(2))
qed

section \<open>Messages under construction\<close>

definition header_type_of :: "FunctionCodes \<Rightarrow> AppHeaderTypes" where
  "header_type_of f = (if IsResponse f then AHT_RESPONSE else AHT_REQUEST)"

definition writable :: "FunctionCodes \<Rightarrow> HeaderInfo list \<Rightarrow> APDU \<Rightarrow> bool" where
  "writable f his a \<longleftrightarrow>
     \<not> mIsInterpreted a \<and> mpAppHeader a = Some (header_type_of f) \<and> GetFunction (mBuffer a) = f \<and>
     mFragmentSize a \<le> length (mBuffer a) \<and>
     headers_span (HasData f) (mBuffer a) (AppHeader_GetSize (header_type_of f)) his (mFragmentSize a)"

lemma AppHeader_GetSize_ge: "2 \<le> AppHeader_GetSize h"
  by (cases h) simp_all

lemma writable_size: "writable f his a \<Longrightarrow> 2 \<le> mFragmentSize a"
  using headers_span_le AppHeader_GetSize_ge by (fastforce simp: writable_def intro: order.trans)

lemma writable_function: "writable f his a \<Longrightarrow> APDU_GetFunction a = Inr f"
  by (simp add: writable_def APDU_GetFunction_def)

lemma writable_check: "writable f his a \<Longrightarrow> CheckWriteState a = None"
  by (simp add: writable_def CheckWriteState_def)

text \<open>A header is appended: the bytes before it stay, and it and its data fit.\<close>

lemma writable_append:
  assumes w: "writable f his a" and n: "n = mFragmentSize a"
    and hi: "header_at buf n hi" "data_size_of (HasData f) hi = Inr data"
    and len: "length buf = length (mBuffer a)" "n + header_span (HasData f) hi \<le> length buf"
    and same: "\<And>i. i < n \<Longrightarrow> buf ! i = mBuffer a ! i"
  shows "writable f (his @ [hi]) (a\<lparr>mBuffer := buf, mFragmentSize := n + header_span (HasData f) hi\<rparr>)"
proof -
  have "headers_span (HasData f) buf (AppHeader_GetSize (header_type_of f)) his n"
    by (rule headers_span_below [of _ "mBuffer a"]) (use w n same in \<open>auto simp: writable_def\<close>)
  moreover have "GetFunction buf = f"
    using w same [of 1] writable_size [OF w] n by (simp add: writable_def GetFunction_def)
  ultimately show ?thesis
    using w hi len by (auto simp: writable_def headers_span_append)
qed

text \<open>Storing data: the bytes of the headers stay.\<close>

definition header_bytes :: "FunctionCodes \<Rightarrow> HeaderInfo list \<Rightarrow> nat set" where
  "header_bytes f his = {0..<AppHeader_GetSize (header_type_of f)} \<union>
     (\<Union>hi \<in> set his. {mPos hi..<mPos hi + ObjectHeader_GetSize (mpHeader hi)})"

lemma writable_data:
  assumes w: "writable f his a" and len: "length buf = length (mBuffer a)"
    and same: "\<And>i. i \<in> header_bytes f his \<Longrightarrow> buf ! i = mBuffer a ! i"
  shows "writable f his (a\<lparr>mBuffer := buf\<rparr>)"
proof -
  have "headers_span (HasData f) buf (AppHeader_GetSize (header_type_of f)) his (mFragmentSize a)"
    by (rule headers_span_same [of _ "mBuffer a"])
      (use w in \<open>auto simp: writable_def same_bytes_def header_bytes_def intro!: same [symmetric]\<close>)
  moreover have "GetFunction buf = f"
    using w same [of 1] AppHeader_GetSize_ge [of "header_type_of f"]
    by (simp add: writable_def GetFunction_def header_bytes_def)
  ultimately show ?thesis using w len by (simp add: writable_def)
qed

lemma writable_Set:
  assumes "4 \<le> length (mBuffer a)" and "0 \<le> seq" "seq \<le> 15"
  shows "\<exists>b. APDU_Set f fir fin con uns seq a = (None, b) \<and> writable f [] b \<and>
    GetControl (mBuffer b) = \<lparr>FIR = fir, FIN = fin, CON = con, UNS = uns, SEQ = seq\<rparr> \<and>
    length (mBuffer b) = length (mBuffer a)"
proof -
  have "SetFunction (mBuffer a) f \<noteq> []" "mBuffer a \<noteq> []"
    using assms(1) by (auto simp: SetFunction_def)
  with assms show ?thesis
    by (auto simp: APDU_Set_def APDU_Reset_def APDU_SetFunction_def APDU_SetControlParts_def APDU_SetControl_def
      handler_simps writable_def header_type_of_def IsResponse_def Let_def)
qed

lemma writable_SetIIN:
  assumes "writable f his a" and "IsResponse f"
  shows "\<exists>b. APDU_SetIIN iin a = (None, b) \<and> writable f his b \<and> GetIIN (mBuffer b) = iin"
proof -
  have h: "mpAppHeader a = Some AHT_RESPONSE" "AppHeader_GetSize (header_type_of f) = 4"
    using assms by (simp_all add: writable_def header_type_of_def)
  then have n: "4 \<le> mFragmentSize a"
    using assms(1) headers_span_le by (fastforce simp: writable_def)
  have pos: "4 \<le> mPos hi" if "hi \<in> set his" for hi
    using headers_span_member [of "HasData f" "mBuffer a" 4 his "mFragmentSize a" hi] assms(1) that h
    by (simp add: writable_def)
  have "mBuffer a ! i = SetIIN (mBuffer a) iin ! i" if "hi \<in> set his" "mPos hi \<le> i" for hi i
    using pos [OF that(1)] that(2) by (simp add: SetIIN_def)
  note keeps = this
  have "headers_span (HasData f) (SetIIN (mBuffer a) iin) 4 his (mFragmentSize a)"
    by (rule headers_span_same [of _ "mBuffer a"])
      (use assms(1) h in \<open>auto simp: writable_def same_bytes_def intro: keeps\<close>)
  then have "writable f his (a\<lparr>mBuffer := SetIIN (mBuffer a) iin\<rparr>)"
    using assms(1) h by (simp add: writable_def)
  with h n assms(1) show ?thesis
    by (auto simp: APDU_SetIIN_def handler_simps writable_def)
qed

text \<open>What the parser makes of the bytes of a message under construction.\<close>

lemma writable_parses:
  assumes w: "writable f his a" and b: "received b" "mFragmentSize b = mFragmentSize a"
    and same: "take (mFragmentSize a) (mBuffer b) = take (mFragmentSize a) (mBuffer a)"
  shows "Interpret b = (None, b\<lparr>mpAppHeader := Some (header_type_of f), mObjectHeaders := his, mIsInterpreted := True\<rparr>)"
proof -
  have nth: "mBuffer a ! i = mBuffer b ! i" if "i < mFragmentSize a" for i
    using take_eq_imp_nth_eq [OF same that] by simp
  have f: "GetFunction (mBuffer b) = f"
    using w nth [of 1] writable_size [OF w] by (simp add: writable_def GetFunction_def)
  have size: "AppHeader_GetSize (header_type_of f) \<le> mFragmentSize a"
    using w headers_span_le by (fastforce simp: writable_def)
  have "headers_span (HasData f) (mBuffer b) (AppHeader_GetSize (header_type_of f)) his (mFragmentSize a)"
    by (rule headers_span_below [of _ "mBuffer a"]) (use w nth in \<open>auto simp: writable_def\<close>)
  moreover have "ParseHeader b = Inr (header_type_of f)"
    using size writable_size [OF w] by (auto simp: ParseHeader_def f b(2) header_type_of_def)
  ultimately show ?thesis using Interpret_accepted [OF b(1)] by (simp add: f b(2))
qed

section \<open>What a writer leaves\<close>

text \<open>An object the parser finds under its own group and variation.\<close>

definition known_object :: "DNPObject \<Rightarrow> bool" where
  "known_object ob \<longleftrightarrow> ob_group ob < 256 \<and> ob_var ob < 256 \<and>
     ObjectBase_Get (ob_group ob) (ob_var ob) = Some ob"

lemma table_bounds:
  "list_all (\<lambda>ob. ob_group ob < 256 \<and> (ob_type ob = OT_FIXED \<longrightarrow> 0 < ob_size ob)) DNPObjects"
  by (simp add: DNPObjects_def object_tables object_kinds)

lemma registered_known:
  assumes "(g, v) \<in> set registered_cases" and "object_Inst g v = Some ob"
  shows "known_object ob" and "ob_type ob = OT_FIXED \<Longrightarrow> 0 < ob_size ob"
proof -
  have "ob \<in> set DNPObjects" "ob_group ob = g" "ob_var ob = v"
    using assms(2) by (auto simp: object_Inst_def find_Some_iff)
  with table_bounds registered_small [OF assms(1)] assms show
    "known_object ob" "ob_type ob = OT_FIXED \<Longrightarrow> 0 < ob_size ob"
    by (auto simp: known_object_def list_all_iff ObjectBase_Get_small)
qed

lemma known_lookup:
  "known_object ob \<Longrightarrow>
   ObjectBase_Get (unat (word_of_nat (ob_group ob) :: byte)) (unat (word_of_nat (ob_var ob) :: byte)) = Some ob"
  by (simp add: known_object_def unat_of_nat)

text \<open>Arithmetic on \<open>size_t\<close> where it does not wrap.\<close>

lemma size_sub_exact: "b \<le> a \<Longrightarrow> a < 2 ^ 64 \<Longrightarrow> size_sub a b = a - b"
proof -
  assume le: "b \<le> a" and lt: "a < 2 ^ 64"
  have "int a < 2 ^ 64" using lt by simp
  then have "int a - int b < 2 ^ 64" by simp
  with le have "(int a - int b) mod 2 ^ 64 = int a - int b" by (intro mod_pos_pos_trivial) auto
  with le show "size_sub a b = a - b" by (simp add: size_sub_def nat_diff_distrib')
qed

lemma size_t_exact: "n < 2 ^ 64 \<Longrightarrow> size_t n = n"
  by (simp add: size_t_def)

lemma size_sub_one: "0 < n \<Longrightarrow> n < 2 ^ 64 \<Longrightarrow> size_sub (size_t n) 1 = n - 1"
  by (simp add: size_t_exact size_sub_exact)

lemma contiguous_header:
  assumes "WriteContiguousHeader hdr p n start stop = Inr q" and "n + ObjectHeader_GetSize hdr \<le> length p"
    and "start \<le> stop" "stop < 2 ^ 64 - 1"
  shows "length q = length p"
    and "i < n + 3 \<or> n + ObjectHeader_GetSize hdr \<le> i \<Longrightarrow> q ! i = p ! i"
    and "GetNumObjects hdr q n = Inr (stop - start + 1)"
    and "hdr \<noteq> OHT_ALL_OBJECTS"
proof -
  have c: "size_t (size_sub stop start + 1) = stop - start + 1"
    using assms(3,4) by (simp add: size_t_exact size_sub_exact)
  have w: "(case SetCount hdr p n (stop - start + 1) of Some r \<Rightarrow> r
      | None \<Rightarrow> (case SetRange hdr p n start stop of Some r \<Rightarrow> r | None \<Rightarrow> Inl (Exception ERR_DEFAULT))) = Inr q"
    using assms(1) unfolding WriteContiguousHeader_def c .
  then consider (count) "SetCount hdr p n (stop - start + 1) = Some (Inr q)"
    | (range) "SetRange hdr p n start stop = Some (Inr q)"
    by (auto split: option.splits)
  then show "length q = length p" "hdr \<noteq> OHT_ALL_OBJECTS"
    by (cases; use SetCount_keeps(1) SetRange_keeps(1) in auto)+
  show "q ! i = p ! i" if "i < n + 3 \<or> n + ObjectHeader_GetSize hdr \<le> i"
    using w SetCount_keeps(2) [OF _ that] SetRange_keeps(2) [OF _ that]
    by (auto split: option.splits)
  show "GetNumObjects hdr q n = Inr (stop - start + 1)"
    using w assms(2,3) GetCount_SetCount [of hdr p n "stop - start + 1" q] GetRange_SetRange [of hdr p n start stop q]
    by (cases hdr) (auto simp: GetNumObjects_def)
qed

text \<open>The header at its place, once the bytes that follow its first three are set.\<close>

lemma header_written:
  assumes "n + 3 \<le> length p"
    and "\<And>i. i < n + 3 \<Longrightarrow> q ! i = ObjectHeader_Set p n grp var code ! i"
    and "code \<noteq> QC_UNDEFINED" "GetObjectHeader code = Inr hdr"
    and "ObjectBase_Get (unat grp) (unat var) = Some ob"
    and "GetPrefixSizeAndValidate code (ob_type ob) = Inr prefix"
    and "GetNumObjects hdr q n = Inr cnt"
  shows "header_at q n \<lparr>mPos = n, mHeaderData = \<lparr>Group = grp, Variation = var, Qualifier = code\<rparr>,
    mHeaderCount = cnt, mPrefixSize = prefix, mpHeader = hdr, mpObjectBase = ob\<rparr>"
proof -
  have "ObjectHeader_Get q n = ObjectHeader_Get (ObjectHeader_Set p n grp var code) n"
    by (rule ObjectHeader_Get_same) (use assms(2) in \<open>auto simp: same_bytes_def\<close>)
  also have "\<dots> = \<lparr>Group = grp, Variation = var, Qualifier = code\<rparr>" using assms(1) by simp
  finally show ?thesis using assms(3-7) by (simp add: header_at_def)
qed

text \<open>The qualifiers under which a writer of contiguous objects makes sense: ranges and counts.\<close>

definition contiguous_qualifier :: "QualifierCode \<Rightarrow> bool" where
  "contiguous_qualifier code \<longleftrightarrow> code \<in> {QC_1B_START_STOP, QC_2B_START_STOP, QC_4B_START_STOP,
     QC_1B_CNT, QC_2B_CNT, QC_4B_CNT, QC_UNDEFINED}"

lemma contiguous_qualifier_prefix:
  assumes "contiguous_qualifier code" and "t = OT_FIXED \<or> t = OT_BITFIELD"
    and "c = (if code = QC_UNDEFINED then GetContiguousQualifier start stop else code)"
  shows "GetPrefixSizeAndValidate c t = Inr 0" "c \<noteq> QC_UNDEFINED"
  using assms by (auto simp: contiguous_qualifier_def GetContiguousQualifier_def GetPrefixSizeAndValidate_def)

section \<open>Contiguous objects\<close>

lemma function_kept [simp]: "APDU_GetFunction (a\<lparr>mFragmentSize := n\<rparr>) = APDU_GetFunction a"
  by (simp add: APDU_GetFunction_def split: option.split)

lemma requested_count:
  "start \<le> stop \<Longrightarrow> stop < 2 ^ 64 - 1 \<Longrightarrow> size_t (Suc (size_sub stop start)) = Suc (stop - start)"
  by (simp add: size_t_exact size_sub_exact)

lemma last_index:
  "start \<le> stop \<Longrightarrow> stop < 2 ^ 64 - 1 \<Longrightarrow> 0 < cnt \<Longrightarrow> cnt \<le> Suc (stop - start) \<Longrightarrow>
   size_sub (size_t (start + cnt)) (Suc 0) = start + cnt - 1"
  using size_sub_one [of "start + cnt"] by simp

text \<open>The header both writers of contiguous objects set, before the data.\<close>

definition new_header :: "nat \<Rightarrow> DNPObject \<Rightarrow> byte \<Rightarrow> QualifierCode \<Rightarrow> ObjectHeaderTypes \<Rightarrow> nat \<Rightarrow> nat \<Rightarrow> HeaderInfo" where
  "new_header n ob var code hdr prefix cnt = \<lparr>mPos = n, mHeaderData = \<lparr>Group = word_of_nat (ob_group ob),
    Variation = var, Qualifier = code\<rparr>, mHeaderCount = cnt, mPrefixSize = prefix,
    mpHeader = hdr, mpObjectBase = ob\<rparr>"

lemma new_header_fields [simp]:
  "mPos (new_header n ob var code hdr prefix cnt) = n"
  "mpObjectBase (new_header n ob var code hdr prefix cnt) = ob"
  "mHeaderCount (new_header n ob var code hdr prefix cnt) = cnt"
  "mPrefixSize (new_header n ob var code hdr prefix cnt) = prefix"
  "mpHeader (new_header n ob var code hdr prefix cnt) = hdr"
  "Variation (mHeaderData (new_header n ob var code hdr prefix cnt)) = var"
  "Qualifier (mHeaderData (new_header n ob var code hdr prefix cnt)) = code"
  by (simp_all add: new_header_def)

lemma contiguous_header_at:
  assumes w: "writable f his a" and n: "n = mFragmentSize a"
    and p: "length p = length (mBuffer a)" "n + ObjectHeader_GetSize hdr \<le> length p"
      "\<And>i. i < n + 3 \<Longrightarrow>
        p ! i = ObjectHeader_Set (mBuffer a) n (word_of_nat (ob_group ob)) (word_of_nat (ob_var ob)) c ! i"
    and ob: "known_object ob" "GetPrefixSizeAndValidate c (ob_type ob) = Inr 0"
    and c: "c \<noteq> QC_UNDEFINED" "GetObjectHeader c = Inr hdr"
    and set: "WriteContiguousHeader hdr p n start stop = Inr buf" "start \<le> stop" "stop < 2 ^ 64 - 1"
  shows "length buf = length (mBuffer a)" and "i < n \<Longrightarrow> buf ! i = mBuffer a ! i"
    and "APDU_GetFunction (a\<lparr>mBuffer := buf, mFragmentSize := k\<rparr>) = Inr f"
    and "header_at buf n (new_header n ob (word_of_nat (ob_var ob)) c hdr 0 (stop - start + 1))"
proof -
  note kept = contiguous_header [OF set(1) p(2) set(2,3)]
  show "length buf = length (mBuffer a)" using kept(1) p(1) by simp
  have below: "buf ! i = mBuffer a ! i" if "i < n" for i
    using kept(2) [of i] p(3) [of i] that by (simp add: nth_ObjectHeader_Set)
  then show "i < n \<Longrightarrow> buf ! i = mBuffer a ! i" .
  show "APDU_GetFunction (a\<lparr>mBuffer := buf, mFragmentSize := k\<rparr>) = Inr f"
    using w below [of 1] writable_size [OF w] by (simp add: APDU_GetFunction_def writable_def n GetFunction_def)
  show "header_at buf n (new_header n ob (word_of_nat (ob_var ob)) c hdr 0 (stop - start + 1))"
    unfolding new_header_def
  proof (rule header_written [OF _ _ c known_lookup [OF ob(1)] ob(2) kept(3)])
    show "n + 3 \<le> length (mBuffer a)" using p(1,2) ObjectHeader_GetSize_ge [of hdr] by simp
    show "buf ! i = ObjectHeader_Set (mBuffer a) n (word_of_nat (ob_group ob)) (word_of_nat (ob_var ob)) c ! i"
      if "i < n + 3" for i using kept(2) [of i] p(3) [OF that] that by simp
  qed
qed

lemma WriteContiguous_writes:
  assumes w: "writable f his a"
    and ob: "known_object ob" "ob_type ob = OT_FIXED" "0 < ob_size ob"
    and q: "contiguous_qualifier code" and range: "start \<le> stop" "stop < 2 ^ 64 - 1"
    and run: "WriteContiguous ob start stop code a = (Inr it, a')"
    and not_end: "it \<noteq> ObjectWriteIterator_end"
  obtains hi cnt where "writable f (his @ [hi]) a'" "mpObjectBase hi = ob" "mHeaderCount hi = cnt"
    "0 < cnt" "cnt \<le> stop - start + 1" "mPos hi = mFragmentSize a" "mPrefixSize hi = 0"
    "length (mBuffer a') = length (mBuffer a)"
    "it = \<lparr>ow_pos = Some (mPos hi + ObjectHeader_GetSize (mpHeader hi)), ow_index = start, ow_start = start,
       ow_stop = start + cnt - 1, ow_size = if HasData f then ob_size ob else 0\<rparr>"
proof -
  define n where "n = mFragmentSize a"
  define c where "c = (if code = QC_UNDEFINED then GetContiguousQualifier start stop else code)"
  note prefix = contiguous_qualifier_prefix [OF q disjI1 [OF ob(2)] c_def]
  from run not_end obtain hdr where hdr: "GetObjectHeader c = Inr hdr"
    and fits: "ObjectHeader_GetSize hdr \<le> Remainder a"
    and max: "0 < (Remainder a - ObjectHeader_GetSize hdr) div ob_size ob"
    by (auto simp: WriteContiguous_def writable_check [OF w] c_def [symmetric] Let_def
        split: sum.splits if_splits)
  define m where "m = (Remainder a - ObjectHeader_GetSize hdr) div ob_size ob"
  define cnt where "cnt = (if Suc (stop - start) < m then Suc (stop - start) else m)"
  have cnt: "0 < cnt" "cnt \<le> Suc (stop - start)" "cnt \<le> m" using max by (auto simp: cnt_def m_def)
  note last = last_index [OF range cnt(1,2)]
  define p where "p = ObjectHeader_Set (mBuffer a) n (word_of_nat (ob_group ob)) (word_of_nat (ob_var ob)) c"
  define size where "size = (if HasData f then ob_size ob else 0)"
  have func: "APDU_GetFunction a = Inr f" using writable_function [OF w] .
  have len: "n + ObjectHeader_GetSize hdr \<le> length p" "length p = length (mBuffer a)"
    using w fits by (auto simp: p_def n_def writable_def Remainder_def)
  have opened: "WriteContiguous ob start stop code a =
    (case WriteContiguousHeader hdr p n start (start + cnt - 1) of
      Inl e \<Rightarrow> (Inl e, a\<lparr>mBuffer := p\<rparr>)
    | Inr buf \<Rightarrow>
      (case APDU_GetFunction (a\<lparr>mBuffer := buf, mFragmentSize := n + ObjectHeader_GetSize hdr\<rparr>) of
        Inl e \<Rightarrow> (Inl e, a\<lparr>mBuffer := buf, mFragmentSize := n + ObjectHeader_GetSize hdr\<rparr>)
      | Inr func \<Rightarrow>
        (Inr \<lparr>ow_pos = Some (n + ObjectHeader_GetSize hdr), ow_index = start, ow_start = start,
           ow_stop = start + cnt - 1, ow_size = if HasData func then ob_size ob else 0\<rparr>,
         a\<lparr>mBuffer := buf, mFragmentSize :=
           n + ObjectHeader_GetSize hdr + cnt * (if HasData func then ob_size ob else 0)\<rparr>)))"
    using hdr fits max last
    by (simp add: WriteContiguous_def writable_check [OF w] c_def [symmetric] m_def [symmetric] Let_def
        requested_count [OF range] cnt_def [symmetric] p_def n_def cong: sum.case_cong)
  with run obtain buf where set: "WriteContiguousHeader hdr p n start (start + cnt - 1) = Inr buf"
    by (auto split: sum.splits)
  have start: "start \<le> start + cnt - 1" "start + cnt - 1 < 2 ^ 64 - 1" using cnt range by auto
  have below: "p ! i = ObjectHeader_Set (mBuffer a) n (word_of_nat (ob_group ob)) (word_of_nat (ob_var ob)) c ! i"
    for i by (simp add: p_def)
  note made = contiguous_header_at [OF w n_def len(2,1) below ob(1) prefix hdr set start]
  define size where "size = (if HasData f then ob_size ob else 0)"
  have it: "it = \<lparr>ow_pos = Some (n + ObjectHeader_GetSize hdr), ow_index = start, ow_start = start,
       ow_stop = start + cnt - 1, ow_size = size\<rparr>"
    and a': "a' = a\<lparr>mBuffer := buf, mFragmentSize := n + (ObjectHeader_GetSize hdr + cnt * size)\<rparr>"
    using run opened set made(3) by (auto simp: size_def add.assoc)
  define hi where "hi = new_header n ob (word_of_nat (ob_var ob)) c hdr 0 cnt"
  have at: "header_at buf n hi" using made(4) cnt(1) by (simp add: hi_def)
  have span: "data_size_of (HasData f) hi = Inr (cnt * size)"
    "header_span (HasData f) hi = ObjectHeader_GetSize hdr + cnt * size"
    by (simp_all add: hi_def data_size_of_def object_data_size_def ob(2) header_span_def size_def mult.commute)
  have "cnt * ob_size ob \<le> Remainder a - ObjectHeader_GetSize hdr"
    using cnt(3) unfolding m_def by (meson div_times_less_eq_dividend mult_le_mono1 order_trans)
  then have room: "n + (ObjectHeader_GetSize hdr + cnt * size) \<le> length buf"
    using w fits made(1) by (auto simp: size_def n_def writable_def Remainder_def)
  have "writable f (his @ [hi]) a'"
    using writable_append [OF w n_def at span(1) made(1)] room made(2) by (simp add: a' span(2))
  then show thesis
    by (rule that [of hi cnt]) (use cnt it made(1) in \<open>simp_all add: hi_def a' size_def n_def\<close>)
qed

lemma Bitfield_Zero_bytes:
  "length (Bitfield_Zero p off cnt) = length p \<and>
   (\<forall>i. i < off \<or> off + Bitfield_GetSize cnt \<le> i \<longrightarrow> Bitfield_Zero p off cnt ! i = p ! i)"
proof -
  have "length (fold (\<lambda>i p. p[off + i := 0]) [0..<m] q) = length q \<and>
      (\<forall>i. i < off \<or> off + m \<le> i \<longrightarrow> fold (\<lambda>i p. p[off + i := 0]) [0..<m] q ! i = q ! i)"
    for m and q :: bytes by (induction m) auto
  then show ?thesis by (simp add: Bitfield_Zero_def)
qed

lemma Bitfield_Zero_zeroes:
  "i < Bitfield_GetSize cnt \<Longrightarrow> off + i < length p \<Longrightarrow> Bitfield_Zero p off cnt ! (off + i) = 0"
proof -
  have "i < m \<Longrightarrow> off + i < length q \<Longrightarrow> fold (\<lambda>i p. p[off + i := 0]) [0..<m] q ! (off + i) = 0"
    for m and q :: bytes
  proof (induction m)
    case (Suc m)
    have "length (fold (\<lambda>i p. p[off + i := 0]) [0..<m] q) = length q" by (induction m) auto
    with Suc show ?case by (cases "i = m") auto
  qed simp
  then show "i < Bitfield_GetSize cnt \<Longrightarrow> off + i < length p \<Longrightarrow> Bitfield_Zero p off cnt ! (off + i) = 0"
    by (simp add: Bitfield_Zero_def)
qed

lemma WriteContiguous_Bitfield_writes:
  assumes w: "writable f his a" and ob: "known_object ob" "ob_type ob = OT_BITFIELD"
    and q: "contiguous_qualifier code" and range: "start \<le> stop" "stop < 2 ^ 64 - 1"
    and run: "WriteContiguous_Bitfield ob start stop code a = (Inr it, a')"
    and not_end: "it \<noteq> ObjectWriteIterator_end"
  obtains hi cnt where "writable f (his @ [hi]) a'" "mpObjectBase hi = ob" "mHeaderCount hi = cnt"
    "0 < cnt" "cnt \<le> stop - start + 1" "mPos hi = mFragmentSize a" "mPrefixSize hi = 0"
    "length (mBuffer a') = length (mBuffer a)"
    "it = \<lparr>ow_pos = Some (mPos hi + ObjectHeader_GetSize (mpHeader hi)), ow_index = start, ow_start = start,
       ow_stop = start + cnt - 1, ow_size = 0\<rparr>"
proof -
  define n where "n = mFragmentSize a"
  define c where "c = (if code = QC_UNDEFINED then GetContiguousQualifier start stop else code)"
  note prefix = contiguous_qualifier_prefix [OF q disjI2 [OF ob(2)] c_def]
  from run not_end obtain hdr where hdr: "GetObjectHeader c = Inr hdr"
    and fits: "ObjectHeader_GetSize hdr < Remainder a"
    by (auto simp: WriteContiguous_Bitfield_def writable_check [OF w] c_def [symmetric] Let_def
        split: sum.splits if_splits)
  define m where "m = (Remainder a - ObjectHeader_GetSize hdr) * 8"
  define cnt where "cnt = (if Suc (stop - start) < m then Suc (stop - start) else m)"
  have cnt: "0 < cnt" "cnt \<le> Suc (stop - start)" "cnt \<le> m" using fits by (auto simp: cnt_def m_def)
  have last: "size_sub (size_t (start + cnt)) (Suc 0) = start + cnt - 1" by (rule last_index [OF range cnt(1,2)])
  define p where "p = Bitfield_Zero (ObjectHeader_Set (mBuffer a) n (word_of_nat (ob_group ob)) (word_of_nat (ob_var ob)) c)
    (n + ObjectHeader_GetSize hdr) cnt"
  have len: "length p = length (mBuffer a)" "n + ObjectHeader_GetSize hdr \<le> length p"
    using w fits Bitfield_Zero_bytes by (auto simp: p_def n_def writable_def Remainder_def)
  have m0: "m \<noteq> 0" using cnt by simp
  have opened: "WriteContiguous_Bitfield ob start stop code a =
    (case WriteContiguousHeader hdr p n start (start + cnt - 1) of
      Inl e \<Rightarrow> (Inl e, a\<lparr>mBuffer := p\<rparr>)
    | Inr buf \<Rightarrow>
      (case APDU_GetFunction (a\<lparr>mBuffer := buf, mFragmentSize := n + ObjectHeader_GetSize hdr\<rparr>) of
        Inl e \<Rightarrow> (Inl e, a\<lparr>mBuffer := buf, mFragmentSize := n + ObjectHeader_GetSize hdr\<rparr>)
      | Inr func \<Rightarrow>
        (Inr \<lparr>ow_pos = Some (n + ObjectHeader_GetSize hdr), ow_index = start, ow_start = start,
           ow_stop = start + cnt - 1, ow_size = 0\<rparr>,
         a\<lparr>mBuffer := buf, mFragmentSize :=
           n + ObjectHeader_GetSize hdr + (if HasData func then Bitfield_GetSize cnt else 0)\<rparr>)))"
    using hdr fits last m0
    by (cases "Suc (stop - start) < m")
      (simp_all add: WriteContiguous_Bitfield_def writable_check [OF w] c_def [symmetric] m_def [symmetric]
        Let_def requested_count [OF range] cnt_def p_def n_def cong: sum.case_cong if_cong)
  with run obtain buf where set: "WriteContiguousHeader hdr p n start (start + cnt - 1) = Inr buf"
    by (auto split: sum.splits)
  have start: "start \<le> start + cnt - 1" "start + cnt - 1 < 2 ^ 64 - 1" using cnt range by auto
  have below: "p ! i = ObjectHeader_Set (mBuffer a) n (word_of_nat (ob_group ob)) (word_of_nat (ob_var ob)) c ! i"
    if "i < n + 3" for i
    using that Bitfield_Zero_bytes ObjectHeader_GetSize_ge [of hdr] by (simp add: p_def)
  note made = contiguous_header_at [OF w n_def len below ob(1) prefix hdr set start]
  define size where "size = (if HasData f then Bitfield_GetSize cnt else 0)"
  have it: "it = \<lparr>ow_pos = Some (n + ObjectHeader_GetSize hdr), ow_index = start, ow_start = start,
       ow_stop = start + cnt - 1, ow_size = 0\<rparr>"
    and a': "a' = a\<lparr>mBuffer := buf, mFragmentSize := n + (ObjectHeader_GetSize hdr + size)\<rparr>"
    using run opened set made(3) by (auto simp: size_def add.assoc)
  define hi where "hi = new_header n ob (word_of_nat (ob_var ob)) c hdr 0 cnt"
  have at: "header_at buf n hi" using made(4) cnt(1) by (simp add: hi_def)
  have span: "data_size_of (HasData f) hi = Inr size"
    "header_span (HasData f) hi = ObjectHeader_GetSize hdr + size"
    by (simp_all add: hi_def data_size_of_def object_data_size_def ob(2) header_span_def size_def)
  have "Bitfield_GetSize cnt \<le> Remainder a - ObjectHeader_GetSize hdr"
    using cnt(3) by (simp add: m_def Bitfield_GetSize_ceiling)
  then have room: "n + (ObjectHeader_GetSize hdr + size) \<le> length buf"
    using w fits made(1) by (auto simp: size_def n_def writable_def Remainder_def)
  have "writable f (his @ [hi]) a'"
    using writable_append [OF w n_def at span(1) made(1)] room made(2) by (simp add: a' span(2))
  then show thesis
    by (rule that [of hi cnt]) (use cnt it made(1) in \<open>simp_all add: hi_def a' n_def\<close>)
qed

section \<open>Placeholders\<close>

lemma DoPlaceholderWrite_writes:
  assumes w: "writable f his a" and ob: "known_object ob" "ob_type ob = OT_PLACEHOLDER"
    and run: "DoPlaceholderWrite ob a = (Inr True, a')"
  obtains hi where "writable f (his @ [hi]) a'" "mpObjectBase hi = ob" "mHeaderCount hi = 0"
    "mPos hi = mFragmentSize a" "length (mBuffer a') = length (mBuffer a)"
proof -
  define n where "n = mFragmentSize a"
  define p where "p = ObjectHeader_Set (mBuffer a) n (word_of_nat (ob_group ob)) (word_of_nat (ob_var ob)) QC_ALL_OBJ"
  define hi where "hi = new_header n ob (word_of_nat (ob_var ob)) QC_ALL_OBJ OHT_ALL_OBJECTS 0 0"
  from run have room: "n + 3 \<le> length (mBuffer a)" and a': "a' = a\<lparr>mBuffer := p, mFragmentSize := n + 3\<rparr>"
    using w by (auto simp: DoPlaceholderWrite_def writable_check [OF w] n_def p_def writable_def split: if_splits)
  have at: "header_at p n hi"
    unfolding hi_def new_header_def p_def
    by (rule header_written [OF room _ _ _ known_lookup [OF ob(1)]])
      (simp_all add: ob(2) GetPrefixSizeAndValidate_def GetNumObjects_def)
  have span: "data_size_of (HasData f) hi = Inr 0" "header_span (HasData f) hi = 3"
    by (simp_all add: hi_def data_size_of_def object_data_size_def ob(2) header_span_def)
  have "writable f (his @ [hi]) a'"
    using writable_append [OF w n_def at span(1), unfolded span(2)] room
    by (simp add: a' p_def nth_ObjectHeader_Set)
  then show thesis by (rule that [of hi]) (simp_all add: hi_def a' p_def n_def)
qed

section \<open>Indexed objects\<close>

lemma count_qualifier:
  assumes "GetCountHeader q = Inr hdr" and "GetPrefixSizeAndValidate q t = Inr prefix"
    and "t = OT_FIXED \<or> t = OT_SIZE_BY_VARIATION"
  shows "GetObjectHeader q = Inr hdr" "GetIndexMode q = Inr prefix" "q \<noteq> QC_UNDEFINED"
    "hdr \<noteq> OHT_ALL_OBJECTS" "GetRange hdr p off = None" "prefix \<in> {0, 1, 2, 4}"
  using assms
  by (cases q; auto simp: GetPrefixSizeAndValidate_def GetIndexMode_def)+

lemma WriteCountHeader_writes:
  assumes w: "writable f his a" and ob: "ObjectBase_Get (unat grp) (unat var) = Some ob"
    and prefix: "GetPrefixSizeAndValidate q (ob_type ob) = Inr prefix"
    and kind: "ob_type ob = OT_FIXED \<and> osize = (if HasData f then ob_size ob else 0) \<or>
      ob_type ob = OT_SIZE_BY_VARIATION \<and> osize = (if HasData f then unat var else 0) \<and> cnt0 = 1"
    and run: "WriteCountHeader osize prefix grp var cnt0 q a = (Inr it, a')"
    and not_end: "it \<noteq> IndexedWriteIterator_end" and cnt0: "0 < cnt0"
  obtains hi cnt where "writable f (his @ [hi]) a'" "mpObjectBase hi = ob" "mHeaderCount hi = cnt"
    "0 < cnt" "cnt \<le> cnt0" "mPos hi = mFragmentSize a" "mPrefixSize hi = prefix"
    "Qualifier (mHeaderData hi) = q" "length (mBuffer a') = length (mBuffer a)"
    "it = \<lparr>iw_pos = Some (mPos hi + ObjectHeader_GetSize (mpHeader hi)), iw_mode = Some prefix, iw_index = 0,
       iw_count = cnt, iw_size = osize, iw_set = False\<rparr>"
    "mFragmentSize a' = mPos hi + ObjectHeader_GetSize (mpHeader hi) + cnt * (osize + prefix)"
proof -
  define n where "n = mFragmentSize a"
  from run not_end obtain hdr where gch: "GetCountHeader q = Inr hdr"
    by (auto simp: WriteCountHeader_def split: sum.splits)
  have t: "ob_type ob = OT_FIXED \<or> ob_type ob = OT_SIZE_BY_VARIATION" using kind by blast
  note hdr = count_qualifier [OF gch prefix t]
  define m where "m = (Remainder a - ObjectHeader_GetSize hdr) div (osize + prefix)"
  define cnt where "cnt = (if cnt0 < m then cnt0 else m)"
  define p where "p = ObjectHeader_Set (mBuffer a) n grp var q"
  have opened: "WriteCountHeader osize prefix grp var cnt0 q a =
    (if ObjectHeader_GetSize hdr > Remainder a then (Inr IndexedWriteIterator_end, a)
     else if osize + prefix = 0 then (Inl AssertionFailed, a)
     else if m = 0 then (Inr IndexedWriteIterator_end, a)
     else case SetCount hdr p n cnt of
       None \<Rightarrow> (Inl AssertionFailed, a\<lparr>mBuffer := p\<rparr>)
     | Some (Inl e) \<Rightarrow> (Inl e, a\<lparr>mBuffer := p\<rparr>)
     | Some (Inr buf) \<Rightarrow>
       (Inr \<lparr>iw_pos = Some (n + ObjectHeader_GetSize hdr), iw_mode = Some prefix, iw_index = 0,
          iw_count = cnt, iw_size = osize, iw_set = False\<rparr>,
        a\<lparr>mBuffer := buf, mFragmentSize := n + ObjectHeader_GetSize hdr + cnt * (osize + prefix)\<rparr>))"
    unfolding WriteCountHeader_def gch by (simp add: hdr(2) Let_def m_def cnt_def p_def n_def cong: if_cong option.case_cong sum.case_cong)
  from run not_end obtain buf where set: "SetCount hdr p n cnt = Some (Inr buf)"
    and fits: "ObjectHeader_GetSize hdr \<le> Remainder a" "0 < m"
    and it: "it = \<lparr>iw_pos = Some (n + ObjectHeader_GetSize hdr), iw_mode = Some prefix, iw_index = 0,
      iw_count = cnt, iw_size = osize, iw_set = False\<rparr>"
    and a': "a' = a\<lparr>mBuffer := buf, mFragmentSize := n + ObjectHeader_GetSize hdr + cnt * (osize + prefix)\<rparr>"
    unfolding opened by (auto split: if_splits option.splits sum.splits)
  have pos: "0 < cnt" using cnt0 fits(2) by (simp add: cnt_def)
  have le: "cnt \<le> cnt0" "cnt \<le> m" by (auto simp: cnt_def)
  have len: "n + ObjectHeader_GetSize hdr \<le> length p" "length p = length (mBuffer a)"
    using w fits(1) by (auto simp: p_def n_def writable_def Remainder_def)
  note kept = SetCount_keeps [OF set]
  define hi where "hi = \<lparr>mPos = n, mHeaderData = \<lparr>Group = grp, Variation = var, Qualifier = q\<rparr>,
    mHeaderCount = cnt, mPrefixSize = prefix, mpHeader = hdr, mpObjectBase = ob\<rparr>"
  have at: "header_at buf n hi"
    unfolding hi_def
  proof (rule header_written [OF _ _ hdr(3,1) ob prefix])
    show "n + 3 \<le> length (mBuffer a)" using len ObjectHeader_GetSize_ge [of hdr] by simp
    show "buf ! i = ObjectHeader_Set (mBuffer a) n grp var q ! i" if "i < n + 3" for i
      using kept(2) [of i] that by (simp add: p_def)
    show "GetNumObjects hdr buf n = Inr cnt"
      using hdr(4,5) GetCount_SetCount [OF set len(1)] by (simp add: GetNumObjects_def)
  qed
  have one: "ob_type ob = OT_SIZE_BY_VARIATION \<Longrightarrow> cnt = 1" using kind pos le(1) by auto
  have span: "data_size_of (HasData f) hi = Inr (cnt * (osize + prefix))"
    "header_span (HasData f) hi = ObjectHeader_GetSize hdr + cnt * (osize + prefix)"
    using kind one
    by (auto simp: hi_def data_size_of_def object_data_size_def header_span_def algebra_simps)
  have "cnt * (osize + prefix) \<le> Remainder a - ObjectHeader_GetSize hdr"
    using le(2) unfolding m_def by (meson div_times_less_eq_dividend mult_le_mono1 order_trans)
  then have room: "n + (ObjectHeader_GetSize hdr + cnt * (osize + prefix)) \<le> length buf"
    using w fits(1) len(2) kept(1) by (auto simp: n_def writable_def Remainder_def)
  have "buf ! i = mBuffer a ! i" if "i < n" for i
    using kept(2) [of i] that by (simp add: p_def nth_ObjectHeader_Set)
  then have "writable f (his @ [hi]) a'"
    using writable_append [OF w n_def at span(1)] kept(1) len(2) room by (simp add: a' span(2) add.assoc)
  then show thesis
    by (rule that [of hi cnt]) (use pos le(1) it kept(1) len(2) in \<open>simp_all add: hi_def a' n_def\<close>)
qed

section \<open>Messages built by the writers\<close>

text \<open>
  What the caller stores through an iterator: any bytes between the iterator's first position \<open>p\<close>
  and the end of the fragment; nothing when the iterator is at its end from the start.
\<close>

definition stored :: "nat option \<Rightarrow> APDU \<Rightarrow> bytes \<Rightarrow> bool" where
  "stored p a buf \<longleftrightarrow>
     (case p of
        None \<Rightarrow> buf = mBuffer a
      | Some pos \<Rightarrow> length buf = length (mBuffer a) \<and>
          (\<forall>i. i < pos \<or> mFragmentSize a \<le> i \<longrightarrow> buf ! i = mBuffer a ! i))"

lemma writable_stored:
  assumes w: "writable f (his @ [hi]) a" and st: "stored (Some pos) a buf"
    and pos: "pos = mPos hi + ObjectHeader_GetSize (mpHeader hi)"
  shows "writable f (his @ [hi]) (a\<lparr>mBuffer := buf\<rparr>)"
proof (rule writable_data [OF w])
  show "length buf = length (mBuffer a)" using st by (simp add: stored_def)
  fix i assume i: "i \<in> header_bytes f (his @ [hi])"
  from w obtain m where m: "headers_span (HasData f) (mBuffer a) (AppHeader_GetSize (header_type_of f)) his m"
    "header_at (mBuffer a) m hi"
    by (auto simp: writable_def headers_span_append)
  then have mp: "mPos hi = m" by (simp add: header_atD(4))
  have "mPos hj + ObjectHeader_GetSize (mpHeader hj) \<le> m" if "hj \<in> set his" for hj
    using headers_span_member [OF m(1) that] by (simp add: header_span_def)
  with i headers_span_le [OF m(1)] have "i < pos"
    by (fastforce simp: header_bytes_def pos mp)
  then show "buf ! i = mBuffer a ! i" using st by (simp add: stored_def)
qed

text \<open>
  The messages a client builds, with the objects and the counts its iterators gave it: a header is set,
  then any of the writers is called any number of times, each call followed by the stores through
  the iterator it returned.
\<close>

inductive built :: "(nat \<Rightarrow> exn + byte) \<Rightarrow> FunctionCodes \<Rightarrow> (DNPObject \<times> nat) list \<Rightarrow> APDU \<Rightarrow> bool"
  for convert :: "nat \<Rightarrow> exn + byte" and f :: FunctionCodes where
  built_Set: "4 \<le> length (mBuffer a0) \<Longrightarrow> APDU_Set f fir fin con uns seq a0 = (None, a) \<Longrightarrow>
    built convert f [] a"
| built_IIN: "built convert f rs a \<Longrightarrow> APDU_SetIIN iin a = (None, a') \<Longrightarrow> built convert f rs a'"
| built_contiguous: "built convert f rs a \<Longrightarrow> known_object ob \<Longrightarrow> ob_type ob = OT_FIXED \<Longrightarrow> 0 < ob_size ob \<Longrightarrow>
    contiguous_qualifier code \<Longrightarrow> start \<le> stop \<Longrightarrow> stop < 2 ^ 64 - 1 \<Longrightarrow>
    WriteContiguous ob start stop code a = (Inr it, a') \<Longrightarrow> stored (ow_pos it) a' buf \<Longrightarrow>
    built convert f (rs @ (if ObjectWrite_IsEnd it then [] else [(ob, ow_stop it - start + 1)])) (a'\<lparr>mBuffer := buf\<rparr>)"
| built_bitfield: "built convert f rs a \<Longrightarrow> known_object ob \<Longrightarrow> ob_type ob = OT_BITFIELD \<Longrightarrow>
    contiguous_qualifier code \<Longrightarrow> start \<le> stop \<Longrightarrow> stop < 2 ^ 64 - 1 \<Longrightarrow>
    WriteContiguous_Bitfield ob start stop code a = (Inr it, a') \<Longrightarrow> stored (ow_pos it) a' buf \<Longrightarrow>
    built convert f (rs @ (if ObjectWrite_IsEnd it then [] else [(ob, ow_stop it - start + 1)])) (a'\<lparr>mBuffer := buf\<rparr>)"
| built_placeholder: "built convert f rs a \<Longrightarrow> known_object ob \<Longrightarrow> ob_type ob = OT_PLACEHOLDER \<Longrightarrow>
    DoPlaceholderWrite ob a = (Inr r, a') \<Longrightarrow> built convert f (rs @ (if r then [(ob, 0)] else [])) a'"
| built_indexed: "built convert f rs a \<Longrightarrow> known_object ob \<Longrightarrow> ob_type ob = OT_FIXED \<Longrightarrow> 0 < cnt \<Longrightarrow>
    WriteIndexed ob cnt code a = (Inr it, a') \<Longrightarrow> stored (iw_pos it) a' buf \<Longrightarrow>
    built convert f (rs @ (if IndexedWrite_IsEnd it then [] else [(ob, iw_count it)])) (a'\<lparr>mBuffer := buf\<rparr>)"
| built_size_by_variation: "built convert f rs a \<Longrightarrow> ob_type ob = OT_SIZE_BY_VARIATION \<Longrightarrow> ob_group ob < 256 \<Longrightarrow>
    ObjectBase_Get (ob_group ob) osize = Some ob \<Longrightarrow> osize < 256 \<Longrightarrow> convert osize = Inr (word_of_nat osize) \<Longrightarrow>
    WriteIndexed_SizeByVariation convert ob osize code a = (Inr it, a') \<Longrightarrow> stored (iw_pos it) a' buf \<Longrightarrow>
    built convert f (rs @ (if IndexedWrite_IsEnd it then [] else [(ob, 1)])) (a'\<lparr>mBuffer := buf\<rparr>)"

lemma not_written:
  "WriteContiguous ob start stop code a = (Inr ObjectWriteIterator_end, a') \<Longrightarrow> a' = a"
  "WriteContiguous_Bitfield ob start stop code a = (Inr ObjectWriteIterator_end, a') \<Longrightarrow> a' = a"
  "WriteCountHeader osize prefix grp var cnt code a = (Inr IndexedWriteIterator_end, a') \<Longrightarrow> a' = a"
  by (auto simp: WriteContiguous_def WriteContiguous_Bitfield_def WriteCountHeader_def Let_def
      ObjectWriteIterator_end_def IndexedWriteIterator_end_def
      split: option.splits sum.splits if_splits)

lemma end_iterators [simp]:
  "ObjectWrite_IsEnd ObjectWriteIterator_end" "ow_pos ObjectWriteIterator_end = None"
  "IndexedWrite_IsEnd IndexedWriteIterator_end" "iw_pos IndexedWriteIterator_end = None"
  by (simp_all add: ObjectWriteIterator_end_def ObjectWrite_IsEnd_def IndexedWriteIterator_end_def
      IndexedWrite_IsEnd_def)

lemma stored_None [simp]: "stored None a buf \<longleftrightarrow> buf = mBuffer a"
  by (simp add: stored_def)

definition recorded :: "HeaderInfo list \<Rightarrow> (DNPObject \<times> nat) list" where
  "recorded his = map (\<lambda>hi. (mpObjectBase hi, mHeaderCount hi)) his"

lemma recorded_simps [simp]:
  "recorded [] = []" "recorded (his @ his') = recorded his @ recorded his'"
  "recorded [hi] = [(mpObjectBase hi, mHeaderCount hi)]"
  by (simp_all add: recorded_def)

lemma built_writable: "built convert f rs a \<Longrightarrow> \<exists>his. writable f his a \<and> recorded his = rs"
proof (induction rule: built.induct)
  case (built_Set a0 fir fin con uns seq a)
  have "0 \<le> seq" "seq \<le> 15"
    using built_Set(2) by (auto simp: APDU_Set_def APDU_SetControlParts_def handler_simps
        split: if_splits option.splits prod.splits)
  with writable_Set [OF built_Set(1), of seq f fir fin con uns] built_Set(2) show ?case
    by (auto intro!: exI [of _ "[]"])
next
  case (built_IIN rs a iin a')
  then obtain his where w: "writable f his a" "recorded his = rs" by blast
  have "IsResponse f"
    using built_IIN(2) w(1) by (auto simp: APDU_SetIIN_def handler_simps writable_def header_type_of_def
        split: if_splits)
  with writable_SetIIN [OF w(1), of iin] built_IIN(2) w(2) show ?case by auto
next
  case (built_contiguous rs a ob code start stop it a' buf)
  then obtain his where w: "writable f his a" "recorded his = rs" by blast
  show ?case
  proof (cases "it = ObjectWriteIterator_end")
    case True
    with not_written(1) [OF built_contiguous(8) [unfolded True]] built_contiguous(9) w show ?thesis by auto
  next
    case False
    from WriteContiguous_writes [OF w(1) built_contiguous(2-8) False] obtain hi cnt where
      hi: "writable f (his @ [hi]) a'" "mpObjectBase hi = ob" "mHeaderCount hi = cnt" "0 < cnt"
      "it = \<lparr>ow_pos = Some (mPos hi + ObjectHeader_GetSize (mpHeader hi)), ow_index = start,
        ow_start = start, ow_stop = start + cnt - 1, ow_size = if HasData f then ob_size ob else 0\<rparr>" .
    with writable_stored [OF hi(1) _ refl, of buf] built_contiguous(9) w(2) show ?thesis
      by (intro exI [of _ "his @ [hi]"]) (auto simp: ObjectWrite_IsEnd_def)
  qed
next
  case (built_bitfield rs a ob code start stop it a' buf)
  then obtain his where w: "writable f his a" "recorded his = rs" by blast
  show ?case
  proof (cases "it = ObjectWriteIterator_end")
    case True
    with not_written(2) [OF built_bitfield(7) [unfolded True]] built_bitfield(8) w show ?thesis by auto
  next
    case False
    from WriteContiguous_Bitfield_writes [OF w(1) built_bitfield(2-7) False] obtain hi cnt where
      hi: "writable f (his @ [hi]) a'" "mpObjectBase hi = ob" "mHeaderCount hi = cnt" "0 < cnt"
      "it = \<lparr>ow_pos = Some (mPos hi + ObjectHeader_GetSize (mpHeader hi)), ow_index = start,
        ow_start = start, ow_stop = start + cnt - 1, ow_size = 0\<rparr>" .
    with writable_stored [OF hi(1) _ refl, of buf] built_bitfield(8) w(2) show ?thesis
      by (intro exI [of _ "his @ [hi]"]) (auto simp: ObjectWrite_IsEnd_def)
  qed
next
  case (built_placeholder rs a ob r a')
  then obtain his where w: "writable f his a" "recorded his = rs" by blast
  show ?case
  proof (cases r)
    case False
    with built_placeholder(4) have "a' = a"
      by (auto simp: DoPlaceholderWrite_def split: option.splits if_splits)
    with False w show ?thesis by auto
  next
    case True
    with built_placeholder(4) DoPlaceholderWrite_writes [OF w(1) built_placeholder(2,3), of a'] obtain hi where
      "writable f (his @ [hi]) a'" "mpObjectBase hi = ob" "mHeaderCount hi = 0" by auto
    with True w(2) show ?thesis by (intro exI [of _ "his @ [hi]"]) simp
  qed
next
  case (built_indexed rs a ob cnt code it a' buf)
  then obtain his where w: "writable f his a" "recorded his = rs" by blast
  from built_indexed(5) obtain prefix where prefix: "GetPrefixSizeAndValidate code (ob_type ob) = Inr prefix"
    and run: "WriteCountHeader (if HasData f then ob_size ob else 0) prefix (word_of_nat (ob_group ob))
      (word_of_nat (ob_var ob)) cnt code a = (Inr it, a')"
    by (auto simp: WriteIndexed_def writable_check [OF w(1)] writable_function [OF w(1)] Let_def
        split: sum.splits)
  show ?case
  proof (cases "it = IndexedWriteIterator_end")
    case True
    with not_written(3) [OF run [unfolded True]] built_indexed(6) w show ?thesis by auto
  next
    case False
    have kind: "ob_type ob = OT_FIXED \<and> (if HasData f then ob_size ob else 0) = (if HasData f then ob_size ob else 0) \<or>
        ob_type ob = OT_SIZE_BY_VARIATION \<and> (if HasData f then ob_size ob else 0) =
          (if HasData f then unat (word_of_nat (ob_var ob) :: byte) else 0) \<and> cnt = 1"
      using built_indexed(3) by simp
    from WriteCountHeader_writes [OF w(1) known_lookup [OF built_indexed(2)] prefix kind run False built_indexed(4)]
    obtain hi cnt' where
      hi: "writable f (his @ [hi]) a'" "mpObjectBase hi = ob" "mHeaderCount hi = cnt'" "0 < cnt'"
      "it = \<lparr>iw_pos = Some (mPos hi + ObjectHeader_GetSize (mpHeader hi)), iw_mode = Some prefix, iw_index = 0,
        iw_count = cnt', iw_size = (if HasData f then ob_size ob else 0), iw_set = False\<rparr>" .
    with writable_stored [OF hi(1) _ refl, of buf] built_indexed(6) w(2) show ?thesis
      by (intro exI [of _ "his @ [hi]"]) (auto simp: IndexedWrite_IsEnd_def)
  qed
next
  case (built_size_by_variation rs a ob osize code it a' buf)
  then obtain his where w: "writable f his a" "recorded his = rs" by blast
  from built_size_by_variation(7) obtain prefix where
    prefix: "GetPrefixSizeAndValidate code (ob_type ob) = Inr prefix"
    and run: "WriteCountHeader (if HasData f then osize else 0) prefix (word_of_nat (ob_group ob))
      (word_of_nat osize) 1 code a = (Inr it, a')"
    using built_size_by_variation(6)
    by (auto simp: WriteIndexed_SizeByVariation_def writable_check [OF w(1)] writable_function [OF w(1)]
        Let_def split: sum.splits)
  have look: "ObjectBase_Get (unat (word_of_nat (ob_group ob) :: byte)) (unat (word_of_nat osize :: byte)) = Some ob"
    and osize: "unat (word_of_nat osize :: byte) = osize"
    using built_size_by_variation(3-5) by (simp_all add: unat_of_nat)
  show ?case
  proof (cases "it = IndexedWriteIterator_end")
    case True
    with not_written(3) [OF run [unfolded True]] built_size_by_variation(8) w show ?thesis by auto
  next
    case False
    have kind: "ob_type ob = OT_FIXED \<and> (if HasData f then osize else 0) = (if HasData f then ob_size ob else 0) \<or>
        ob_type ob = OT_SIZE_BY_VARIATION \<and> (if HasData f then osize else 0) =
          (if HasData f then unat (word_of_nat osize :: byte) else 0) \<and> (1 :: nat) = 1"
      using built_size_by_variation(2) osize by simp
    from WriteCountHeader_writes [OF w(1) look prefix kind run False zero_less_one] obtain hi cnt' where
      hi: "writable f (his @ [hi]) a'" "mpObjectBase hi = ob" "mHeaderCount hi = cnt'" "0 < cnt'" "cnt' \<le> 1"
      "it = \<lparr>iw_pos = Some (mPos hi + ObjectHeader_GetSize (mpHeader hi)), iw_mode = Some prefix, iw_index = 0,
        iw_count = cnt', iw_size = (if HasData f then osize else 0), iw_set = False\<rparr>" .
    with writable_stored [OF hi(1) _ refl, of buf] built_size_by_variation(8) w(2) show ?thesis
      by (intro exI [of _ "his @ [hi]"]) (auto simp: IndexedWrite_IsEnd_def)
  qed
qed

section \<open>Properties\<close>

definition example_binary :: DNPObject where
  "example_binary = FixedObject 1 2 1 [(mFlag, UInt8, 0)]"

lemma example_binary_known: "known_object example_binary" "ob_type example_binary = OT_FIXED" "ob_size example_binary = 1"
  using example_lookup by (simp_all add: known_object_def example_binary_def FixedObject_def)

definition example_started :: APDU where
  "example_started = snd (APDU_Set FC_RESPONSE True True False False 3 (APDU_new (replicate 16 0)))"

lemma example_started: "APDU_Set FC_RESPONSE True True False False 3 (APDU_new (replicate 16 0)) = (None, example_started)"
  by code_simp

lemma example_started_eq: "example_started = \<lparr>mIsInterpreted = False, mpAppHeader = Some AHT_RESPONSE,
    mObjectHeaders = [], mBuffer = [0xC3, 0x81, 0, 0, 0, 0, 0, 0, 0, 0, 0, 0, 0, 0, 0, 0], mFragmentSize = 4\<rparr>"
  by code_simp

definition example_written :: APDU where
  "example_written = example_started\<lparr>
     mBuffer := [0xC3, 0x81, 0, 0, 1, 2, 1, 0x2C, 1, 0x2D, 1, 0, 0, 0, 0, 0], mFragmentSize := 13\<rparr>"

lemma example_written: "WriteContiguous example_binary 300 301 QC_UNDEFINED example_started =
    (Inr \<lparr>ow_pos = Some 11, ow_index = 300, ow_start = 300, ow_stop = 301, ow_size = 1\<rparr>, example_written)"
  by (simp add: WriteContiguous_def CheckWriteState_def example_started_eq GetContiguousQualifier_def codec_maxima
      codec_sizes Remainder_def example_binary_def FixedObject_def size_sub_def size_t_def ObjectHeader_Set_def
      WriteContiguousHeader_def RangedHeader_SetRange_def UInt16LE_Write_def APDU_GetFunction_def GetFunction_def
      IntToFunction_def HasData_def example_written_def)

lemma example_written_bytes: "mFragmentSize example_written = 13"
  "take 13 (mBuffer example_written) = [0xC3, 0x81, 0, 0, 1, 2, 1, 0x2C, 1, 0x2D, 1, 0, 0]"
  by (simp_all add: example_written_def)



end
