(* ===== verification/IndexedObjects.thy ===== *)
theory IndexedObjects
  imports FragmentWriting
begin

text \<open>
  Objects written with their indices (opendnp3/DNP3/IndexedWriteIterator.h and .cpp), as the response
  writers do for events: set the index, store the object, advance. The theorem takes a list of
  indexed objects through the writer, the bytes of the message, the parser and the read iterator
  back to the same indices and the same bytes.
\<close>

section \<open>The loop of a client\<close>

text \<open>For each object: \<open>itr.SetIndex(index)\<close>, a store of its bytes at \<open>*itr\<close>, \<open>++itr\<close>.\<close>

fun write_objects :: "(nat \<times> bytes) list \<Rightarrow> IndexedWriteIterator \<Rightarrow> bytes \<Rightarrow> exn + bytes" where
  "write_objects [] it buf = Inr buf"
| "write_objects ((i, xs) # os) it buf =
     (case IndexedWrite_SetIndex i it buf of
        Inl e \<Rightarrow> Inl e
      | Inr (it, buf) \<Rightarrow>
        (case IndexedWrite_deref it of
           Inl e \<Rightarrow> Inl e
         | Inr p \<Rightarrow>
           (case IndexedWrite_next it of
              Inl e \<Rightarrow> Inl e
            | Inr it \<Rightarrow> write_objects os it (blit buf p xs))))"

text \<open>The index of a prefix of \<open>m\<close> bytes.\<close>

definition index_read :: "nat \<Rightarrow> bytes \<Rightarrow> nat \<Rightarrow> nat" where
  "index_read m buf p =
     (if m = 1 then unat (UInt8_Read buf p)
      else if m = 2 then unat (UInt16LE_Read buf p)
      else unat (UInt32LE_Read buf p))"

lemma index_read_same:
  assumes "m \<in> {1, 2, 4}" and "\<And>k. k < m \<Longrightarrow> p ! (off + k) = q ! (off + k)"
  shows "index_read m p off = index_read m q off"
proof -
  from assms(1) consider "m = 1" | "m = 2" | "m = 4" by blast
  then show ?thesis
    by cases
      (use assms(2) [of 0] assms(2) [of 1] assms(2) [of 2] assms(2) [of 3] in
        \<open>simp_all add: index_read_def UInt8_Read_def UInt16LE_Read_def UInt32LE_Read_def\<close>)
qed

lemma index_written:
  assumes "IndexedWrite_SetIndex i it buf = Inr (it', buf')" and "iw_pos it = Some pos"
    and "iw_mode it = Some m" "m \<in> {1, 2, 4}" and "pos + m \<le> length buf"
  shows "it' = it\<lparr>iw_set := True\<rparr>" and "length buf' = length buf"
    and "k < pos \<or> pos + m \<le> k \<Longrightarrow> buf' ! k = buf ! k" and "index_read m buf' pos = i"
    and "\<not> IndexedWrite_IsEnd it"
proof -
  from assms(4) consider "m = 1" | "m = 2" | "m = 4" by blast
  then have "it' = it\<lparr>iw_set := True\<rparr> \<and> length buf' = length buf \<and>
      (k < pos \<or> pos + m \<le> k \<longrightarrow> buf' ! k = buf ! k) \<and> index_read m buf' pos = i \<and> \<not> IndexedWrite_IsEnd it"
  proof cases
    case 1
    with assms h8.fits [of i] show ?thesis
      by (auto simp: IndexedWrite_SetIndex_def index_read_def u8.length_write u8.nth_write
          u8.read_write UInt8_Size_def split: if_splits)
  next
    case 2
    with assms h16.fits [of i] show ?thesis
      by (auto simp: IndexedWrite_SetIndex_def index_read_def u16le.length_write u16le.nth_write
          u16le.read_write UInt16LE_Size_def split: if_splits)
  next
    case 3
    with assms h32.fits [of i] show ?thesis
      by (auto simp: IndexedWrite_SetIndex_def index_read_def u32le.length_write u32le.nth_write
          u32le.read_write UInt32LE_Size_def split: if_splits)
  qed
  then show "it' = it\<lparr>iw_set := True\<rparr>" "length buf' = length buf"
    "k < pos \<or> pos + m \<le> k \<Longrightarrow> buf' ! k = buf ! k" "index_read m buf' pos = i" "\<not> IndexedWrite_IsEnd it"
    by blast+
qed

lemma nth_blit_after:
  assumes "off + length xs \<le> k" and "off + length xs \<le> length buf"
  shows "blit buf off xs ! k = buf ! k"
proof -
  have "\<not> k - off < length xs" using assms(1) by arith
  with assms show ?thesis by (simp add: blit_def nth_append)
qed

lemma write_objects_bytes:
  assumes "write_objects os it buf = Inr buf'" and "iw_pos it = Some pos"
    and "iw_mode it = Some m" "m \<in> {1, 2, 4}" and "\<And>i xs. (i, xs) \<in> set os \<Longrightarrow> length xs = iw_size it"
    and "pos + length os * (m + iw_size it) \<le> length buf"
  shows "length buf' = length buf \<and>
    (\<forall>k. k < pos \<or> pos + length os * (m + iw_size it) \<le> k \<longrightarrow> buf' ! k = buf ! k) \<and>
    (\<forall>k < length os. index_read m buf' (pos + k * (m + iw_size it)) = fst (os ! k) \<and>
      take (iw_size it) (drop (pos + k * (m + iw_size it) + m) buf') = snd (os ! k))"
  using assms
proof (induction os arbitrary: it buf pos)
  case (Cons o1 os)
  obtain i xs where o1: "o1 = (i, xs)" by (cases o1)
  define n where "n = iw_size it"
  have xs: "length xs = n" using Cons.prems(5) [of i xs] by (simp add: o1 n_def)
  have room: "pos + (m + n) + length os * (m + n) \<le> length buf"
    using Cons.prems(6) by (simp add: n_def algebra_simps)
  obtain it1 buf1 it2 where set: "IndexedWrite_SetIndex i it buf = Inr (it1, buf1)"
    and deref: "IndexedWrite_deref it1 = Inr (pos + m)"
    and "next": "IndexedWrite_next it1 = Inr it2"
    and rest: "write_objects os it2 (blit buf1 (pos + m) xs) = Inr buf'"
    using Cons.prems(1) index_written(1) [OF _ Cons.prems(2,3,4)] room Cons.prems(2,3)
    by (fastforce simp: o1 IndexedWrite_deref_def split: sum.splits prod.splits)
  note w = index_written [OF set Cons.prems(2,3,4)]
  have it1: "it1 = it\<lparr>iw_set := True\<rparr>" "length buf1 = length buf" using w room by auto
  have it2: "iw_pos it2 = Some (pos + (m + n))" "iw_mode it2 = Some m" "iw_size it2 = n"
    using "next" Cons.prems(2,3) by (auto simp: it1 IndexedWrite_next_def n_def split: if_splits)
  define buf2 where "buf2 = blit buf1 (pos + m) xs"
  have len2: "length buf2 = length buf" using room xs by (simp add: buf2_def it1)
  have IH: "length buf' = length buf2 \<and>
    (\<forall>k. k < pos + (m + n) \<or> pos + (m + n) + length os * (m + n) \<le> k \<longrightarrow> buf' ! k = buf2 ! k) \<and>
    (\<forall>k < length os. index_read m buf' (pos + (m + n) + k * (m + n)) = fst (os ! k) \<and>
      take n (drop (pos + (m + n) + k * (m + n) + m) buf') = snd (os ! k))"
    using Cons.IH [OF rest [folded buf2_def] it2(1,2) Cons.prems(4)] Cons.prems(5) room len2
    by (auto simp: it2(3) n_def)
  have out: "buf2 ! k = buf ! k" if "k < pos \<or> pos + (m + n) \<le> k" for k
    using that w(3) [of k] room xs it1(2)
    by (auto simp: buf2_def nth_blit_before nth_blit_after)
  have idx: "index_read m buf' pos = i"
  proof -
    have "index_read m buf' pos = index_read m buf1 pos"
      by (rule index_read_same [OF Cons.prems(4)])
        (use IH room it1(2) in \<open>auto simp: buf2_def nth_blit_before\<close>)
    then show ?thesis using w(4) room by simp
  qed
  have data: "take n (drop (pos + m) buf') = xs"
  proof (rule nth_equalityI)
    show "length (take n (drop (pos + m) buf')) = length xs" using IH room xs len2 by auto
    fix k assume "k < length (take n (drop (pos + m) buf'))"
    then show "take n (drop (pos + m) buf') ! k = xs ! k"
      using IH room xs it1(2) len2 by (auto simp: buf2_def nth_blit_in)
  qed
  show ?case
    unfolding n_def [symmetric]
  proof (intro conjI allI impI)
    show "length buf' = length buf" using IH len2 by simp
    show "buf' ! k = buf ! k" if "k < pos \<or> pos + length (o1 # os) * (m + n) \<le> k" for k
      using that IH out by (auto simp: algebra_simps)
    show "index_read m buf' (pos + k * (m + n)) = fst ((o1 # os) ! k)" if "k < length (o1 # os)" for k
      using that IH idx by (cases k) (auto simp: o1 algebra_simps)
    show "take n (drop (pos + k * (m + n) + m) buf') = snd ((o1 # os) ! k)" if "k < length (o1 # os)" for k
      using that IH data by (cases k) (auto simp: o1 algebra_simps)
  qed
qed simp

section \<open>Round trip\<close>

lemma index_of_prefix:
  assumes "header_at buf off hi" and "Qualifier (mHeaderData hi) \<in> {QC_1B_CNT_1B_INDEX, QC_2B_CNT_2B_INDEX, QC_4B_CNT_4B_INDEX}"
    and "or_header it = hi"
  shows "CalcIndex buf it pos = Inr (index_read (mPrefixSize hi) buf pos)"
  using header_atD(1,2) [OF assms(1)] assms(2,3)
  by (cases "ob_type (mpObjectBase hi)")
    (auto simp: CalcIndex_def CalcCountIndex_def index_read_def GetPrefixSizeAndValidate_def)

definition example_iterator :: IndexedWriteIterator where
  "example_iterator = \<lparr>iw_pos = Some 8, iw_mode = Some 1, iw_index = 0, iw_count = 2, iw_size = 1, iw_set = False\<rparr>"

definition example_indexed :: APDU where
  "example_indexed = example_started\<lparr>
     mBuffer := [0xC3, 0x81, 0, 0, 1, 2, 0x17, 2, 0, 0, 0, 0, 0, 0, 0, 0], mFragmentSize := 12\<rparr>"

definition example_indexed_bytes :: bytes where
  "example_indexed_bytes = [0xC3, 0x81, 0, 0, 1, 2, 0x17, 2, 5, 0x81, 9, 1, 0, 0, 0, 0]"

lemma example_indexed_written:
  "WriteIndexed example_binary 2 QC_1B_CNT_1B_INDEX example_started = (Inr example_iterator, example_indexed)"
  by (simp add: WriteIndexed_def WriteCountHeader_def CheckWriteState_def example_started_eq codec_maxima
      codec_sizes Remainder_def example_binary_def FixedObject_def ObjectHeader_Set_def CountHeader_SetCount_def
      UInt8_Write_def APDU_GetFunction_def GetFunction_def IntToFunction_def HasData_def GetIndexMode_def
      GetPrefixSizeAndValidate_def example_indexed_def example_iterator_def Let_def
      flip: numeral_2_eq_2)

definition example_objects :: "(nat \<times> bytes) list" where
  "example_objects = [(5, [0x81]), (9, [1])]"

lemma example_objects_written:
  "write_objects example_objects example_iterator (mBuffer example_indexed) = Inr example_indexed_bytes"
  by (simp add: example_objects_def example_iterator_def example_indexed_def example_indexed_bytes_def IndexedWrite_SetIndex_def
      IndexedWrite_IsEnd_def IndexedWrite_deref_def IndexedWrite_next_def UInt8_Write_def codec_maxima blit_def)

text \<open>C33: Indexed objects survive the journey. When all of a list of objects fit into the message, the
  client's loop stores each with its index, and the bytes of the message are parsed by the receiver,
  the last header has the object and the number that were written, and the iterator over it shows,
  at every position, the index and the bytes that were stored there.\<close>

theorem indexed_objects_round_trip:
  assumes "built convert f rs a" and "HasData f"
    and "known_object ob" "ob_type ob = OT_FIXED"
    and "code \<in> {QC_1B_CNT_1B_INDEX, QC_2B_CNT_2B_INDEX, QC_4B_CNT_4B_INDEX}"
    and "os \<noteq> []" "\<And>i xs. (i, xs) \<in> set os \<Longrightarrow> length xs = ob_size ob"
    and "WriteIndexed ob (length os) code a = (Inr it, a')" and "iw_count it = length os"
    and "write_objects os it (mBuffer a') = Inr buf"
    and "APDU_Write (take (mFragmentSize a') buf) b0 = (None, b)"
  shows "\<exists>b' hi. Interpret b = (None, b') \<and> recorded (mObjectHeaders b') = rs @ [(ob, length os)] \<and>
    hi = last (mObjectHeaders b') \<and>
    (\<forall>k < length os. \<exists>rd p. nth_object (mBuffer b') hi True k = Inr rd \<and>
      or_index rd = Some (fst (os ! k)) \<and> ObjectRead_deref rd = Inr p \<and>
      take (ob_size ob) (drop p (mBuffer b')) = snd (os ! k))"
proof -
  from built_writable [OF assms(1)] obtain his where w: "writable f his a" "recorded his = rs" by blast
  from assms(5) obtain m where m: "GetPrefixSizeAndValidate code (ob_type ob) = Inr m" "m \<in> {1, 2, 4}"
    using assms(4) by (auto simp: GetPrefixSizeAndValidate_def)
  from assms(8) have run: "WriteCountHeader (ob_size ob) m (word_of_nat (ob_group ob))
      (word_of_nat (ob_var ob)) (length os) code a = (Inr it, a')"
    by (simp add: WriteIndexed_def writable_check [OF w(1)] writable_function [OF w(1)] m(1) assms(2))
  have ne: "it \<noteq> IndexedWriteIterator_end"
    using assms(6,9) by (auto simp: IndexedWriteIterator_end_def)
  have kind: "ob_type ob = OT_FIXED \<and> ob_size ob = (if HasData f then ob_size ob else 0) \<or>
      ob_type ob = OT_SIZE_BY_VARIATION \<and> ob_size ob =
        (if HasData f then unat (word_of_nat (ob_var ob) :: byte) else 0) \<and> length os = 1"
    using assms(2,4) by simp
  have pos: "0 < length os" using assms(6) by simp
  from WriteCountHeader_writes [OF w(1) known_lookup [OF assms(3)] m(1) kind run ne pos] obtain hi cnt where
    hi: "writable f (his @ [hi]) a'" "mpObjectBase hi = ob" "mHeaderCount hi = cnt" "mPrefixSize hi = m"
      "Qualifier (mHeaderData hi) = code" "length (mBuffer a') = length (mBuffer a)"
    and it: "it = \<lparr>iw_pos = Some (mPos hi + ObjectHeader_GetSize (mpHeader hi)), iw_mode = Some m,
      iw_index = 0, iw_count = cnt, iw_size = ob_size ob, iw_set = False\<rparr>"
    and size: "mFragmentSize a' = mPos hi + ObjectHeader_GetSize (mpHeader hi) + cnt * (ob_size ob + m)" .
  have cnt: "cnt = length os" using assms(9) by (simp add: it)
  define pos0 where "pos0 = mPos hi + ObjectHeader_GetSize (mpHeader hi)"
  have frag: "mFragmentSize a' = pos0 + length os * (m + ob_size ob)"
    by (simp add: size pos0_def cnt add.commute)
  have room: "mFragmentSize a' \<le> length (mBuffer a')" using hi(1) by (simp add: writable_def)
  have bytes: "length buf = length (mBuffer a') \<and>
    (\<forall>k. k < pos0 \<or> pos0 + length os * (m + ob_size ob) \<le> k \<longrightarrow> buf ! k = mBuffer a' ! k) \<and>
    (\<forall>k < length os. index_read m buf (pos0 + k * (m + ob_size ob)) = fst (os ! k) \<and>
      take (ob_size ob) (drop (pos0 + k * (m + ob_size ob) + m) buf) = snd (os ! k))"
    using write_objects_bytes [OF assms(10), of pos0 m] m(2) assms(7) room
    by (simp add: it pos0_def frag)
  have "stored (Some pos0) a' buf" using bytes frag by (simp add: stored_def)
  from writable_stored [OF hi(1) this pos0_def] have w': "writable f (his @ [hi]) (a'\<lparr>mBuffer := buf\<rparr>)" .
  have len: "length (take (mFragmentSize a') buf) = mFragmentSize a'" using bytes room by simp
  note b = APDU_Write_received [OF assms(11), unfolded len]
  have same: "take (mFragmentSize a') (mBuffer b) = take (mFragmentSize a') buf" using b by simp
  define b' where "b' = b\<lparr>mpAppHeader := Some (header_type_of f), mObjectHeaders := his @ [hi], mIsInterpreted := True\<rparr>"
  have parsed: "Interpret b = (None, b')"
    unfolding b'_def by (rule writable_parses [OF w']) (use b same in simp_all)
  have at: "header_at (mBuffer b) (mPos hi) hi"
  proof (rule header_at_same)
    show "header_at buf (mPos hi) hi"
      using w' by (auto simp: writable_def headers_span_append dest: header_atD(4))
    show "same_bytes buf (mBuffer b) (mPos hi) (ObjectHeader_GetSize (mpHeader hi))"
      using take_eq_imp_nth_eq [OF same] frag by (auto simp: same_bytes_def pos0_def)
  qed
  have objects: "\<exists>rd p. nth_object (mBuffer b) hi True k = Inr rd \<and> or_index rd = Some (fst (os ! k)) \<and>
      ObjectRead_deref rd = Inr p \<and> take (ob_size ob) (drop p (mBuffer b)) = snd (os ! k)"
    if k: "k < length os" for k
  proof -
    define pk where "pk = pos0 + k * (m + ob_size ob)"
    have "(k + 1) * (m + ob_size ob) \<le> length os * (m + ob_size ob)" using k by (intro mult_le_mono1) simp
    then have in_frag: "pk + m + ob_size ob \<le> mFragmentSize a'" by (simp add: pk_def frag algebra_simps)
    have same_at: "mBuffer b ! i = buf ! i" if "i < pk + m + ob_size ob" for i
      using take_eq_imp_nth_eq [OF same, of i] that in_frag by simp
    obtain rd where rd: "nth_object (mBuffer b) hi True k = Inr rd" "iterator_at (mBuffer b) hi True k rd"
      using nth_object_found [OF at, of True k] hi(2,3) assms(4) k cnt by auto
    have pp: "object_prefix_pos hi True k = pk"
      using hi(2,4) assms(4) by (simp add: object_prefix_pos_def pk_def pos0_def)
    have "index_read m (mBuffer b) pk = index_read m buf pk"
      by (rule index_read_same [OF m(2)]) (use same_at in simp)
    moreover have "CalcIndex (mBuffer b) (rd\<lparr>or_index := None\<rparr>) pk = Inr (index_read m (mBuffer b) pk)"
      using index_of_prefix [OF at, of "rd\<lparr>or_index := None\<rparr>" pk] hi(4,5) assms(5) rd(2)
      by (simp add: iterator_at_def)
    ultimately have "or_index rd = Some (fst (os ! k))"
      using rd(2) bytes k by (auto simp: iterator_at_def pp pk_def)
    moreover have "ObjectRead_deref rd = Inr (pk + m)"
      using rd(2) k hi(3,4) cnt by (simp add: iterator_at_def ObjectRead_deref_def ObjectRead_IsEnd_def pp)
    moreover have "take (ob_size ob) (drop (pk + m) (mBuffer b)) = take (ob_size ob) (drop (pk + m) buf)"
    proof (rule nth_equalityI)
      have lenb: "mFragmentSize a' \<le> length (mBuffer b)" using b by (simp add: received_def)
      then show "length (take (ob_size ob) (drop (pk + m) (mBuffer b))) = length (take (ob_size ob) (drop (pk + m) buf))"
        using in_frag room bytes by simp
      show "take (ob_size ob) (drop (pk + m) (mBuffer b)) ! i = take (ob_size ob) (drop (pk + m) buf) ! i"
        if "i < length (take (ob_size ob) (drop (pk + m) (mBuffer b)))" for i
        using that same_at [of "pk + m + i"] in_frag room bytes lenb by (simp add: nth_drop)
    qed
    ultimately show ?thesis using rd(1) bytes k by (auto simp: pk_def)
  qed
  show ?thesis
    by (intro exI [of _ b'] exI [of _ hi]) (use parsed objects w(2) hi(2,3) cnt in \<open>simp add: b'_def\<close>)
qed

theorem indexed_objects_round_trip_witness:
  "\<exists>b b' hi. APDU_Write (take 12 example_indexed_bytes) (APDU_new (replicate 16 0)) = (None, b) \<and>
    Interpret b = (None, b') \<and> hi = last (mObjectHeaders b') \<and>
    (\<exists>rd. nth_object (mBuffer b') hi True 1 = Inr rd \<and> or_index rd = Some 9)"
proof -
  have start: "built (\<lambda>n. Inr (word_of_nat n)) FC_RESPONSE [] example_started"
    by (rule built_Set [OF _ example_started]) (simp add: APDU_new_def)
  obtain b where b: "APDU_Write (take 12 example_indexed_bytes) (APDU_new (replicate 16 0)) = (None, b)"
    by (simp add: APDU_Write_def APDU_new_def handler_simps example_indexed_bytes_def)
  have "\<exists>b' hi. Interpret b = (None, b') \<and>
      recorded (mObjectHeaders b') = [] @ [(example_binary, length example_objects)] \<and>
      hi = last (mObjectHeaders b') \<and>
      (\<forall>k < length example_objects. \<exists>rd p. nth_object (mBuffer b') hi True k = Inr rd \<and>
        or_index rd = Some (fst (example_objects ! k)) \<and> ObjectRead_deref rd = Inr p \<and>
        take (ob_size example_binary) (drop p (mBuffer b')) = snd (example_objects ! k))"
    by (rule indexed_objects_round_trip
        [where convert = "\<lambda>n. Inr (word_of_nat n)" and os = example_objects and code = QC_1B_CNT_1B_INDEX and it = example_iterator and a' = example_indexed and
          buf = example_indexed_bytes and a = example_started and f = FC_RESPONSE])
      (use start b example_indexed_written example_objects_written in
        \<open>auto simp: HasData_def example_binary_known example_iterator_def example_indexed_def
          example_objects_def numeral_2_eq_2\<close>)
  with b show ?thesis by (fastforce simp: example_objects_def)
qed

end
