(* ===== verification/AppLayers.thy ===== *)
theory AppLayers
  imports FragmentParsing
begin

text \<open>
  The application layer (opendnp3/DNP3/AppLayer, AppLayerChannel, AppChannelStates,
  SolicitedChannel, UnsolicitedChannel, AppInterfaces): sequence numbers, confirmations,
  timeouts and retries of the two channels, the queue in front of the transport function, and the
  dispatch of received fragments to the user. The part of the layer interfaces it inherits
  (opendnp3/APL/AsyncLayerInterfaces) is modelled with it.

  Calls on the lower layer, the timer source and the user are recorded in \<open>al_out\<close> in their order.
  What they cause in this layer (the completion of a send, a timeout, a request of the user) is a later
  event. The queue holds pointers to fragments that nobody writes to while they are queued, so that
  it is modelled by their values; the caller of a send function finds the sequence number in the
  fragment it passed by reference, which is \<open>al_Argument\<close>.
\<close>

section \<open>The code\<close>

datatype SequenceInfo = SI_OTHER | SI_PREV | SI_CORRECT

text \<open>The two objects \<open>mSolicited\<close> and \<open>mUnsolicited\<close>.\<close>

datatype channel = Solicited | Unsolicited

datatype ACS = ACS_Idle | ACS_Send | ACS_SendConfirmed | ACS_SendExpectResponse | ACS_SendCanceled
  | ACS_WaitForConfirm | ACS_WaitForFirstResponse | ACS_WaitForFinalResponse

datatype AppOut =
    Al_Lower_Send bytes
  | Al_StartTimer channel
  | Al_CancelTimer channel
  | User_OnLowerLayerUp
  | User_OnLowerLayerDown
  | User_OnSendSuccess channel
  | User_OnFailure channel
  | User_OnPartialResponse APDU
  | User_OnFinalResponse APDU
  | User_OnUnsolResponse APDU
  | User_OnRequest APDU SequenceInfo
  | User_OnUnknownObject

record AppLayerChannel =
  ch_Sequence :: int
  ch_State :: ACS
  ch_SendAPDU :: "APDU option"
  ch_NumRetry :: nat
  ch_Timer :: bool
  ch_Confirming :: bool

text \<open>Of the user the layer only asks \<open>IsMaster()\<close>; \<open>None\<close> is the null pointer.\<close>

record AppLayer =
  al_Incoming :: APDU
  al_Confirm :: APDU
  al_Sending :: bool
  al_ConfirmSending :: bool
  al_SendQueue :: "APDU list"
  al_User :: "bool option"
  al_Solicited :: AppLayerChannel
  al_Unsolicited :: AppLayerChannel
  al_NumRetry :: nat
  al_IsLowerLayerUp :: bool
  al_LowerLayer :: bool
  al_Argument :: APDU
  al_out :: "AppOut list"

record AppConfig =
  cfg_NumRetry :: nat
  cfg_FragSize :: nat

definition new_APDU :: "nat \<Rightarrow> APDU" where
  "new_APDU aFragSize = APDU_new (replicate aFragSize 0)"

definition new_AppLayerChannel :: AppLayerChannel where
  "new_AppLayerChannel = \<lparr>ch_Sequence = -1, ch_State = ACS_Idle, ch_SendAPDU = None, ch_NumRetry = 0,
     ch_Timer = False, ch_Confirming = False\<rparr>"

definition new_AppLayer :: "AppConfig \<Rightarrow> AppLayer" where
  "new_AppLayer aAppCfg =
     \<lparr>al_Incoming = new_APDU (cfg_FragSize aAppCfg),
      al_Confirm = snd (APDU_SetFunction FC_CONFIRM (new_APDU 2)),
      al_Sending = False, al_ConfirmSending = False, al_SendQueue = [], al_User = None,
      al_Solicited = new_AppLayerChannel, al_Unsolicited = new_AppLayerChannel,
      al_NumRetry = cfg_NumRetry aAppCfg, al_IsLowerLayerUp = False, al_LowerLayer = False,
      al_Argument = new_APDU 0, al_out = []\<rparr>"

subsection \<open>Parts of the object\<close>

primrec chan :: "channel \<Rightarrow> AppLayer \<Rightarrow> AppLayerChannel" where
  "chan Solicited s = al_Solicited s"
| "chan Unsolicited s = al_Unsolicited s"

primrec chan_update :: "channel \<Rightarrow> (AppLayerChannel \<Rightarrow> AppLayerChannel) \<Rightarrow> AppLayer \<Rightarrow> AppLayer" where
  "chan_update Solicited f s = s\<lparr>al_Solicited := f (al_Solicited s)\<rparr>"
| "chan_update Unsolicited f s = s\<lparr>al_Unsolicited := f (al_Unsolicited s)\<rparr>"

definition on_channel :: "channel \<Rightarrow> (AppLayerChannel \<Rightarrow> AppLayerChannel) \<Rightarrow> AppLayer handler" where
  [handler_simps]: "on_channel c f = modify (chan_update c f)"

definition on_incoming :: "APDU handler \<Rightarrow> AppLayer handler" where
  [handler_simps]: "on_incoming h s = (case h (al_Incoming s) of (e, a) \<Rightarrow> (e, s\<lparr>al_Incoming := a\<rparr>))"

definition on_confirm :: "APDU handler \<Rightarrow> AppLayer handler" where
  [handler_simps]: "on_confirm h s = (case h (al_Confirm s) of (e, a) \<Rightarrow> (e, s\<lparr>al_Confirm := a\<rparr>))"

definition on_argument :: "APDU handler \<Rightarrow> AppLayer handler" where
  [handler_simps]: "on_argument h s = (case h (al_Argument s) of (e, a) \<Rightarrow> (e, s\<lparr>al_Argument := a\<rparr>))"

definition al_emit :: "AppOut \<Rightarrow> AppLayer handler" where
  [handler_simps]: "al_emit x = modify (\<lambda>s. s\<lparr>al_out := al_out s @ [x]\<rparr>)"

text \<open>Calling through a null pointer ends the program, like a failed assertion.\<close>

definition call_user :: "AppOut \<Rightarrow> AppLayer handler" where
  [handler_simps]: "call_user x = in_order [assert_that (\<lambda>s. al_User s \<noteq> None), al_emit x]"

definition IsMaster :: "AppLayer \<Rightarrow> exn + bool" where
  "IsMaster s = (case al_User s of None \<Rightarrow> Inl AssertionFailed | Some m \<Rightarrow> Inr m)"

subsection \<open>The queue\<close>

definition written :: "APDU \<Rightarrow> bytes" where
  "written a = take (mFragmentSize a) (mBuffer a)"

definition Al_CheckForSend :: "AppLayer handler" where
  "Al_CheckForSend =
     if_else (\<lambda>s. \<not> al_Sending s \<and> length (al_SendQueue s) > 0)
       (in_order [modify (\<lambda>s. s\<lparr>al_Sending := True\<rparr>),
         assert_that al_LowerLayer,
         reading (\<lambda>s. al_emit (Al_Lower_Send (written (hd (al_SendQueue s)))))])
       skip"

definition QueueFrame :: "APDU \<Rightarrow> AppLayer handler" where
  "QueueFrame arAPDU = in_order
     [modify (\<lambda>s. s\<lparr>al_SendQueue := al_SendQueue s @ [arAPDU]\<rparr>), Al_CheckForSend]"

definition QueueConfirm :: "bool \<Rightarrow> int \<Rightarrow> AppLayer handler" where
  "QueueConfirm aUnsol aSeq = in_order
     [throw_if al_ConfirmSending (Exception (if aUnsol then ALERR_UNSOL_FLOOD else ALERR_SOL_FLOOD)),
      modify (\<lambda>s. s\<lparr>al_ConfirmSending := True\<rparr>),
      on_confirm (APDU_SetControlParts True True False aUnsol aSeq),
      reading (\<lambda>s. QueueFrame (al_Confirm s))]"

definition GetRetries :: "FunctionCodes \<Rightarrow> AppLayer \<Rightarrow> nat" where
  "GetRetries aCode s =
     (if aCode = FC_DIRECT_OPERATE \<or> aCode = FC_DIRECT_OPERATE_NO_ACK \<or> aCode = FC_RESPONSE \<or> aCode = FC_WRITE
      then 0 else al_NumRetry s)"

subsection \<open>The channels\<close>

definition NextSeq :: "int \<Rightarrow> int" where
  "NextSeq s = (s + 1) smod 16"

definition IncrSequence :: "channel \<Rightarrow> AppLayer handler" where
  [handler_simps]: "IncrSequence c = on_channel c (\<lambda>ch. ch\<lparr>ch_Sequence := NextSeq (ch_Sequence ch)\<rparr>)"

definition CaptureSequence :: "channel \<Rightarrow> int \<Rightarrow> AppLayer handler" where
  [handler_simps]: "CaptureSequence c q = on_channel c (\<lambda>ch. ch\<lparr>ch_Sequence := q\<rparr>)"

definition Channel_ChangeState :: "channel \<Rightarrow> ACS \<Rightarrow> AppLayer handler" where
  [handler_simps]: "Channel_ChangeState c st = on_channel c (\<lambda>ch. ch\<lparr>ch_State := st\<rparr>)"

definition SetRetry :: "channel \<Rightarrow> nat \<Rightarrow> AppLayer handler" where
  [handler_simps]: "SetRetry c n = on_channel c (\<lambda>ch. ch\<lparr>ch_NumRetry := n\<rparr>)"

definition Al_StartTimer_of :: "channel \<Rightarrow> AppLayer handler" where
  [handler_simps]: "Al_StartTimer_of c = in_order
     [throw_if (\<lambda>s. ch_Timer (chan c s)) InvalidStateException,
      on_channel c (\<lambda>ch. ch\<lparr>ch_Timer := True\<rparr>), al_emit (Al_StartTimer c)]"

definition Al_CancelTimer_of :: "channel \<Rightarrow> AppLayer handler" where
  [handler_simps]: "Al_CancelTimer_of c = in_order
     [throw_if (\<lambda>s. \<not> ch_Timer (chan c s)) InvalidStateException,
      al_emit (Al_CancelTimer c), on_channel c (\<lambda>ch. ch\<lparr>ch_Timer := False\<rparr>)]"

definition Channel_Reset :: "channel \<Rightarrow> AppLayer handler" where
  "Channel_Reset c = in_order
     [on_channel c (\<lambda>ch. ch\<lparr>ch_State := ACS_Idle, ch_Confirming := False, ch_Sequence := -1\<rparr>),
      if_else (\<lambda>s. ch_Timer (chan c s))
        (in_order [al_emit (Al_CancelTimer c), on_channel c (\<lambda>ch. ch\<lparr>ch_Timer := False\<rparr>)]) skip]"

definition Channel_DoSendSuccess :: "channel \<Rightarrow> AppLayer handler" where
  [handler_simps]: "Channel_DoSendSuccess c = call_user (User_OnSendSuccess c)"

definition Channel_DoFailure :: "channel \<Rightarrow> AppLayer handler" where
  [handler_simps]: "Channel_DoFailure c = call_user (User_OnFailure c)"

text \<open>
  \<open>if(!c->Retry(st)) body\<close>: without retries left the body, else one retry less, the state, and the
  fragment of the transaction queued again.
\<close>

definition unless_Retry :: "channel \<Rightarrow> ACS \<Rightarrow> AppLayer handler \<Rightarrow> AppLayer handler" where
  "unless_Retry c st body = if_else (\<lambda>s. ch_NumRetry (chan c s) > 0)
     (in_order [on_channel c (\<lambda>ch. ch\<lparr>ch_NumRetry := ch_NumRetry ch - 1\<rparr>),
       Channel_ChangeState c st,
       reading (\<lambda>s. case ch_SendAPDU (chan c s) of None \<Rightarrow> throw AssertionFailed | Some a \<Rightarrow> QueueFrame a)])
     body"

subsection \<open>The states of a channel\<close>

definition ThrowInvalidState :: "AppLayer handler" where
  [handler_simps]: "ThrowInvalidState = throw InvalidStateException"

definition NextState :: "channel \<Rightarrow> FunctionCodes \<Rightarrow> bool \<Rightarrow> AppLayer \<Rightarrow> exn + ACS" where
  "NextState c aFunc aConfirm s =
     (if aFunc = FC_CONFIRM then Inl ArgumentException
      else if aFunc = FC_RESPONSE \<and> ch_Sequence (chan c s) < 0 then Inl InvalidStateException
      else if aFunc = FC_RESPONSE \<or> aFunc = FC_UNSOLICITED_RESPONSE then
        Inr (if aConfirm then ACS_SendConfirmed else ACS_Send)
      else if aFunc = FC_DIRECT_OPERATE_NO_ACK then
        (if aConfirm then Inl ArgumentException else Inr ACS_Send)
      else if aConfirm then Inl ArgumentException else Inr ACS_SendExpectResponse)"

definition Idle_Send :: "channel \<Rightarrow> nat \<Rightarrow> AppLayer handler" where
  "Idle_Send c aNumRetry =
     with_value (\<lambda>s. APDU_GetControl (al_Argument s)) (\<lambda>acf.
     with_value (\<lambda>s. APDU_GetFunction (al_Argument s)) (\<lambda>func.
     in_order
       [if_else (\<lambda>s. FIR acf \<and> func = FC_RESPONSE) skip (IncrSequence c),
        reading (\<lambda>s. on_argument (APDU_SetControl (acf\<lparr>SEQ := ch_Sequence (chan c s)\<rparr>))),
        with_value (\<lambda>s. APDU_GetFunction (al_Argument s)) (\<lambda>f.
          with_value (NextState c f (CON acf)) (Channel_ChangeState c)),
        SetRetry c aNumRetry,
        reading (\<lambda>s. QueueFrame (al_Argument s))]))"

primrec ACS_Send_in :: "ACS \<Rightarrow> channel \<Rightarrow> nat \<Rightarrow> AppLayer handler" where
  "ACS_Send_in ACS_Idle c n = Idle_Send c n"
| "ACS_Send_in ACS_Send c n = ThrowInvalidState"
| "ACS_Send_in ACS_SendConfirmed c n = ThrowInvalidState"
| "ACS_Send_in ACS_SendExpectResponse c n = ThrowInvalidState"
| "ACS_Send_in ACS_SendCanceled c n = ThrowInvalidState"
| "ACS_Send_in ACS_WaitForConfirm c n = ThrowInvalidState"
| "ACS_Send_in ACS_WaitForFirstResponse c n = ThrowInvalidState"
| "ACS_Send_in ACS_WaitForFinalResponse c n = ThrowInvalidState"

primrec ACS_Cancel :: "ACS \<Rightarrow> channel \<Rightarrow> AppLayer handler" where
  "ACS_Cancel ACS_Idle c = ThrowInvalidState"
| "ACS_Cancel ACS_Send c = Channel_ChangeState c ACS_SendCanceled"
| "ACS_Cancel ACS_SendConfirmed c = Channel_ChangeState c ACS_SendCanceled"
| "ACS_Cancel ACS_SendExpectResponse c = Channel_ChangeState c ACS_SendCanceled"
| "ACS_Cancel ACS_SendCanceled c = skip"
| "ACS_Cancel ACS_WaitForConfirm c = in_order [Channel_ChangeState c ACS_Idle, Al_CancelTimer_of c, Channel_DoFailure c]"
| "ACS_Cancel ACS_WaitForFirstResponse c = ThrowInvalidState"
| "ACS_Cancel ACS_WaitForFinalResponse c = ThrowInvalidState"

definition to_idle :: "channel \<Rightarrow> (channel \<Rightarrow> AppLayer handler) \<Rightarrow> AppLayer handler" where
  [handler_simps]: "to_idle c report = in_order [Channel_ChangeState c ACS_Idle, report c]"

primrec ACS_OnSendSuccess :: "ACS \<Rightarrow> channel \<Rightarrow> AppLayer handler" where
  "ACS_OnSendSuccess ACS_Idle c = ThrowInvalidState"
| "ACS_OnSendSuccess ACS_Send c = to_idle c Channel_DoSendSuccess"
| "ACS_OnSendSuccess ACS_SendConfirmed c = in_order [Channel_ChangeState c ACS_WaitForConfirm, Al_StartTimer_of c]"
| "ACS_OnSendSuccess ACS_SendExpectResponse c =
     in_order [Channel_ChangeState c ACS_WaitForFirstResponse, Al_StartTimer_of c]"
| "ACS_OnSendSuccess ACS_SendCanceled c = to_idle c Channel_DoFailure"
| "ACS_OnSendSuccess ACS_WaitForConfirm c = ThrowInvalidState"
| "ACS_OnSendSuccess ACS_WaitForFirstResponse c = ThrowInvalidState"
| "ACS_OnSendSuccess ACS_WaitForFinalResponse c = ThrowInvalidState"

primrec ACS_OnSendFailure :: "ACS \<Rightarrow> channel \<Rightarrow> AppLayer handler" where
  "ACS_OnSendFailure ACS_Idle c = ThrowInvalidState"
| "ACS_OnSendFailure ACS_Send c = unless_Retry c ACS_Send (to_idle c Channel_DoFailure)"
| "ACS_OnSendFailure ACS_SendConfirmed c = unless_Retry c ACS_SendConfirmed (to_idle c Channel_DoFailure)"
| "ACS_OnSendFailure ACS_SendExpectResponse c = unless_Retry c ACS_SendExpectResponse (to_idle c Channel_DoFailure)"
| "ACS_OnSendFailure ACS_SendCanceled c = to_idle c Channel_DoFailure"
| "ACS_OnSendFailure ACS_WaitForConfirm c = ThrowInvalidState"
| "ACS_OnSendFailure ACS_WaitForFirstResponse c = ThrowInvalidState"
| "ACS_OnSendFailure ACS_WaitForFinalResponse c = ThrowInvalidState"

primrec ACS_OnTimeout :: "ACS \<Rightarrow> channel \<Rightarrow> AppLayer handler" where
  "ACS_OnTimeout ACS_Idle c = ThrowInvalidState"
| "ACS_OnTimeout ACS_Send c = ThrowInvalidState"
| "ACS_OnTimeout ACS_SendConfirmed c = ThrowInvalidState"
| "ACS_OnTimeout ACS_SendExpectResponse c = ThrowInvalidState"
| "ACS_OnTimeout ACS_SendCanceled c = ThrowInvalidState"
| "ACS_OnTimeout ACS_WaitForConfirm c = unless_Retry c ACS_SendConfirmed (to_idle c Channel_DoFailure)"
| "ACS_OnTimeout ACS_WaitForFirstResponse c = unless_Retry c ACS_SendExpectResponse (to_idle c Channel_DoFailure)"
| "ACS_OnTimeout ACS_WaitForFinalResponse c = unless_Retry c ACS_SendExpectResponse (to_idle c Channel_DoFailure)"

text \<open>The other states only log an unexpected confirm or response.\<close>

definition ACS_OnConfirm :: "ACS \<Rightarrow> channel \<Rightarrow> int \<Rightarrow> AppLayer handler" where
  "ACS_OnConfirm st c aSeq =
     (if st = ACS_WaitForConfirm then
        if_else (\<lambda>s. ch_Sequence (chan c s) = aSeq)
          (in_order [Al_CancelTimer_of c, Channel_ChangeState c ACS_Idle, Channel_DoSendSuccess c]) skip
      else skip)"

definition ProcessResponse :: "channel \<Rightarrow> APDU \<Rightarrow> bool \<Rightarrow> AppLayer handler" where
  "ProcessResponse c arAPDU aExpectFIR =
     with_value (\<lambda>s. APDU_GetControl arAPDU) (\<lambda>acf.
       if_else (\<lambda>s. SEQ acf = ch_Sequence (chan c s) \<and> FIR acf = aExpectFIR)
         (in_order [Al_CancelTimer_of c,
           if_else (\<lambda>s. FIN acf)
             (in_order [Channel_ChangeState c ACS_Idle, call_user (User_OnFinalResponse arAPDU)])
             (in_order [IncrSequence c, Channel_ChangeState c ACS_WaitForFinalResponse, Al_StartTimer_of c,
               call_user (User_OnPartialResponse arAPDU)])])
         skip)"

definition ACS_OnResponse :: "ACS \<Rightarrow> channel \<Rightarrow> APDU \<Rightarrow> AppLayer handler" where
  "ACS_OnResponse st c arAPDU =
     (if st = ACS_WaitForFirstResponse then ProcessResponse c arAPDU True
      else if st = ACS_WaitForFinalResponse then ProcessResponse c arAPDU False
      else skip)"

definition AcceptsResponse :: "ACS \<Rightarrow> bool" where
  "AcceptsResponse st \<longleftrightarrow> st = ACS_WaitForFirstResponse \<or> st = ACS_WaitForFinalResponse"

subsection \<open>Calls on a channel\<close>

definition Channel_Send :: "channel \<Rightarrow> nat \<Rightarrow> AppLayer handler" where
  "Channel_Send c aNumRetry = in_order
     [reading (\<lambda>s. ACS_Send_in (ch_State (chan c s)) c aNumRetry),
      reading (\<lambda>s. on_channel c (\<lambda>ch. ch\<lparr>ch_SendAPDU := Some (al_Argument s)\<rparr>))]"

definition Channel_CancelRetries :: "channel \<Rightarrow> AppLayer handler" where
  "Channel_CancelRetries c = on_channel c (\<lambda>ch. ch\<lparr>ch_NumRetry := 0\<rparr>)"

definition Channel_Timeout :: "channel \<Rightarrow> AppLayer handler" where
  "Channel_Timeout c = in_order
     [on_channel c (\<lambda>ch. ch\<lparr>ch_Timer := False\<rparr>), reading (\<lambda>s. ACS_OnTimeout (ch_State (chan c s)) c)]"

definition Solicited_OnRequest :: "APDU \<Rightarrow> AppLayer handler" where
  "Solicited_OnRequest arAPDU =
     with_value (\<lambda>s. APDU_GetControl arAPDU) (\<lambda>acf.
     reading (\<lambda>s. let sq = (if SEQ acf = ch_Sequence (chan Solicited s) then SI_PREV
                          else if SEQ acf = NextSeq (ch_Sequence (chan Solicited s)) then SI_CORRECT
                          else SI_OTHER)
       in in_order [CaptureSequence Solicited (SEQ acf), call_user (User_OnRequest arAPDU sq)]))"

definition Unsolicited_OnUnsol :: "APDU \<Rightarrow> AppLayer handler" where
  "Unsolicited_OnUnsol arAPDU =
     with_value (\<lambda>s. APDU_GetControl arAPDU) (\<lambda>acf.
       if_else (\<lambda>s. SEQ acf = ch_Sequence (chan Unsolicited s)) skip
         (in_order [CaptureSequence Unsolicited (SEQ acf), call_user (User_OnUnsolResponse arAPDU)]))"

subsection \<open>The functions of the user\<close>

definition Al_Validate :: "AppControlField \<Rightarrow> bool \<Rightarrow> bool \<Rightarrow> bool \<Rightarrow> bool \<Rightarrow> AppLayer handler" where
  "Al_Validate arCtrl aMaster aRequireFIRFIN aAllowCON aUNS = in_order
     [throw_if (\<lambda>s. \<not> al_IsLowerLayerUp s) InvalidStateException,
      with_value IsMaster (\<lambda>m. throw_if (\<lambda>s. aMaster \<and> \<not> m) (Exception ERR_DEFAULT)),
      with_value IsMaster (\<lambda>m. throw_if (\<lambda>s. \<not> aMaster \<and> m) (Exception ERR_DEFAULT)),
      throw_if (\<lambda>s. aRequireFIRFIN \<and> \<not> (FIR arCtrl \<and> FIN arCtrl)) ArgumentException,
      throw_if (\<lambda>s. \<not> aAllowCON \<and> CON arCtrl) ArgumentException,
      throw_if (\<lambda>s. aUNS \<noteq> UNS arCtrl) ArgumentException]"

definition SendResponse :: "APDU \<Rightarrow> AppLayer handler" where
  "SendResponse arAPDU = in_order
     [modify (\<lambda>s. s\<lparr>al_Argument := arAPDU\<rparr>),
      with_value (\<lambda>s. APDU_GetControl (al_Argument s)) (\<lambda>acf. Al_Validate acf False False True False),
      with_value (\<lambda>s. APDU_GetFunction (al_Argument s)) (\<lambda>f.
        throw_if (\<lambda>s. f \<noteq> FC_RESPONSE) ArgumentException),
      reading (\<lambda>s. Channel_Send Solicited (GetRetries FC_RESPONSE s))]"

definition SendUnsolicited :: "APDU \<Rightarrow> AppLayer handler" where
  "SendUnsolicited arAPDU = in_order
     [modify (\<lambda>s. s\<lparr>al_Argument := arAPDU\<rparr>),
      with_value (\<lambda>s. APDU_GetControl (al_Argument s)) (\<lambda>acf. Al_Validate acf False True True True),
      with_value (\<lambda>s. APDU_GetFunction (al_Argument s)) (\<lambda>f.
        throw_if (\<lambda>s. f \<noteq> FC_UNSOLICITED_RESPONSE) ArgumentException),
      reading (\<lambda>s. Channel_Send Unsolicited (GetRetries FC_UNSOLICITED_RESPONSE s))]"

definition SendRequest :: "APDU \<Rightarrow> AppLayer handler" where
  "SendRequest arAPDU = in_order
     [modify (\<lambda>s. s\<lparr>al_Argument := arAPDU\<rparr>),
      with_value (\<lambda>s. APDU_GetControl (al_Argument s)) (\<lambda>acf. Al_Validate acf True True False False),
      with_value (\<lambda>s. APDU_GetFunction (al_Argument s)) (\<lambda>f. in_order
        [throw_if (\<lambda>s. \<not> IsRequest f) ArgumentException,
         reading (\<lambda>s. Channel_Send Solicited (GetRetries f s))])]"

definition CancelResponse :: "AppLayer handler" where
  "CancelResponse = reading (\<lambda>s. ACS_Cancel (ch_State (chan Solicited s)) Solicited)"

definition CancelUnsolicitedRetries :: "AppLayer handler" where
  "CancelUnsolicitedRetries = Channel_CancelRetries Unsolicited"

definition Al_SetUser :: "bool \<Rightarrow> AppLayer handler" where
  "Al_SetUser m = in_order [assert_that (\<lambda>s. al_User s = None), modify (\<lambda>s. s\<lparr>al_User := Some m\<rparr>)]"

subsection \<open>Received fragments\<close>

definition Al_OnResponse :: "AppControlField \<Rightarrow> APDU \<Rightarrow> AppLayer handler" where
  "Al_OnResponse arCtrl arAPDU = in_order
     [throw_if (\<lambda>s. UNS arCtrl) (Exception ALERR_BAD_UNSOL_BIT),
      if_else (\<lambda>s. CON arCtrl \<and> AcceptsResponse (ch_State (chan Solicited s)))
        (QueueConfirm False (SEQ arCtrl)) skip,
      reading (\<lambda>s. ACS_OnResponse (ch_State (chan Solicited s)) Solicited arAPDU)]"

definition Al_OnUnsolResponse :: "AppControlField \<Rightarrow> APDU \<Rightarrow> AppLayer handler" where
  "Al_OnUnsolResponse arCtrl arAPDU = in_order
     [throw_if (\<lambda>s. \<not> UNS arCtrl) (Exception ALERR_BAD_UNSOL_BIT),
      with_value IsMaster (\<lambda>m. throw_if (\<lambda>s. \<not> m) (Exception SERR_FUNC_NOT_SUPPORTED)),
      if_else (\<lambda>s. CON arCtrl) (QueueConfirm True (SEQ arCtrl)) skip,
      Unsolicited_OnUnsol arAPDU]"

definition Al_OnConfirm :: "AppControlField \<Rightarrow> AppLayer handler" where
  "Al_OnConfirm arCtrl = in_order
     [on_incoming Interpret,
      if_else (\<lambda>s. UNS arCtrl)
        (in_order [with_value IsMaster (\<lambda>m. throw_if (\<lambda>s. m) (Exception ALERR_UNEXPECTED_CONFIRM)),
          reading (\<lambda>s. ACS_OnConfirm (ch_State (chan Unsolicited s)) Unsolicited (SEQ arCtrl))])
        (reading (\<lambda>s. ACS_OnConfirm (ch_State (chan Solicited s)) Solicited (SEQ arCtrl)))]"

definition Al_OnRequest :: "AppControlField \<Rightarrow> APDU \<Rightarrow> AppLayer handler" where
  "Al_OnRequest arCtrl arAPDU = in_order
     [throw_if (\<lambda>s. UNS arCtrl) (Exception ALERR_BAD_UNSOL_BIT),
      throw_if (\<lambda>s. \<not> (FIR arCtrl \<and> FIN arCtrl)) (Exception ALERR_MULTI_FRAGEMENT_REQUEST),
      with_value IsMaster (\<lambda>m. throw_if (\<lambda>s. m) (Exception MERR_FUNC_NOT_SUPPORTED)),
      Solicited_OnRequest arAPDU]"

definition Al_OnUnknownObject :: "FunctionCodes \<Rightarrow> AppControlField \<Rightarrow> AppLayer handler" where
  "Al_OnUnknownObject aCode arCtrl =
     with_value IsMaster (\<lambda>m.
       if_else (\<lambda>s. \<not> m \<and> \<not> (aCode = FC_CONFIRM \<or> aCode = FC_RESPONSE \<or> aCode = FC_UNSOLICITED_RESPONSE \<or>
           aCode = FC_DIRECT_OPERATE_NO_ACK))
         (in_order [CaptureSequence Solicited (SEQ arCtrl), call_user User_OnUnknownObject])
         skip)"

definition Al_Dispatch :: "AppLayer handler" where
  "Al_Dispatch =
     with_value (\<lambda>s. APDU_GetFunction (al_Incoming s)) (\<lambda>func.
     with_value (\<lambda>s. APDU_GetControl (al_Incoming s)) (\<lambda>ctrl.
       reading (\<lambda>s.
         if func = FC_CONFIRM then Al_OnConfirm ctrl
         else if func = FC_RESPONSE then Al_OnResponse ctrl (al_Incoming s)
         else if func = FC_UNSOLICITED_RESPONSE then Al_OnUnsolResponse ctrl (al_Incoming s)
         else Al_OnRequest ctrl (al_Incoming s))))"

text \<open>
  The handlers of \<open>_OnReceive\<close>: one for \<open>ObjectException\<close>, one for the other exceptions; a failed
  assertion is not an exception.
\<close>

definition Al_Catch :: "exn \<Rightarrow> AppLayer handler" where
  "Al_Catch e =
     (if e = AssertionFailed then throw e
      else if e = ObjectException then
        with_value (\<lambda>s. APDU_GetFunction (al_Incoming s)) (\<lambda>func.
        with_value (\<lambda>s. APDU_GetControl (al_Incoming s)) (\<lambda>ctrl. Al_OnUnknownObject func ctrl))
      else skip)"

definition Al_OnReceive :: "bytes \<Rightarrow> AppLayer handler" where
  "Al_OnReceive apBuffer = in_order
     [throw_if (\<lambda>s. \<not> al_IsLowerLayerUp s) InvalidStateException,
      try_catch (in_order [on_incoming (APDU_Write apBuffer), on_incoming Interpret, Al_Dispatch]) Al_Catch]"

subsection \<open>The calls of the lower layer\<close>

definition Al_OnSendResult :: "bool \<Rightarrow> AppLayer handler" where
  "Al_OnSendResult aSuccess = in_order
     [throw_if (\<lambda>s. \<not> al_Sending s) InvalidStateException,
      assert_that (\<lambda>s. length (al_SendQueue s) > 0),
      modify (\<lambda>s. s\<lparr>al_Sending := False\<rparr>),
      with_value (\<lambda>s. APDU_GetFunction (hd (al_SendQueue s))) (\<lambda>func. in_order
        [modify (\<lambda>s. s\<lparr>al_SendQueue := tl (al_SendQueue s)\<rparr>),
         if_else (\<lambda>s. func = FC_CONFIRM)
           (in_order [assert_that al_ConfirmSending, modify (\<lambda>s. s\<lparr>al_ConfirmSending := False\<rparr>)])
           (let c = (if func = FC_UNSOLICITED_RESPONSE then Unsolicited else Solicited) in
            reading (\<lambda>s. (if aSuccess then ACS_OnSendSuccess else ACS_OnSendFailure) (ch_State (chan c s)) c))]),
      Al_CheckForSend]"

definition Al_OnLowerLayerUp :: "AppLayer handler" where
  "Al_OnLowerLayerUp = in_order
     [throw_if al_IsLowerLayerUp InvalidStateException,
      modify (\<lambda>s. s\<lparr>al_IsLowerLayerUp := True\<rparr>),
      call_user User_OnLowerLayerUp]"

definition Al_OnLowerLayerDown :: "AppLayer handler" where
  "Al_OnLowerLayerDown = in_order
     [throw_if (\<lambda>s. \<not> al_IsLowerLayerUp s) InvalidStateException,
      modify (\<lambda>s. s\<lparr>al_IsLowerLayerUp := False\<rparr>),
      Channel_Reset Solicited, Channel_Reset Unsolicited,
      modify (\<lambda>s. s\<lparr>al_SendQueue := [], al_Sending := False\<rparr>),
      call_user User_OnLowerLayerDown]"

definition Al_SetLowerLayer :: "AppLayer handler" where
  "Al_SetLowerLayer = modify (\<lambda>s. s\<lparr>al_LowerLayer := True\<rparr>)"

datatype AppEvent =
    Ev_SetUser bool
  | Ev_SetLowerLayer
  | Ev_LowerLayerUp
  | Ev_LowerLayerDown
  | Ev_Receive bytes
  | Ev_SendResult bool
  | Ev_Timeout channel
  | Ev_SendResponse APDU
  | Ev_SendUnsolicited APDU
  | Ev_SendRequest APDU
  | Ev_CancelResponse
  | Ev_CancelUnsolicitedRetries

primrec app_handle :: "AppEvent \<Rightarrow> AppLayer handler" where
  "app_handle (Ev_SetUser m) = Al_SetUser m"
| "app_handle Ev_SetLowerLayer = Al_SetLowerLayer"
| "app_handle Ev_LowerLayerUp = Al_OnLowerLayerUp"
| "app_handle Ev_LowerLayerDown = Al_OnLowerLayerDown"
| "app_handle (Ev_Receive d) = Al_OnReceive d"
| "app_handle (Ev_SendResult ok) = Al_OnSendResult ok"
| "app_handle (Ev_Timeout c) = Channel_Timeout c"
| "app_handle (Ev_SendResponse a) = SendResponse a"
| "app_handle (Ev_SendUnsolicited a) = SendUnsolicited a"
| "app_handle (Ev_SendRequest a) = SendRequest a"
| "app_handle Ev_CancelResponse = CancelResponse"
| "app_handle Ev_CancelUnsolicitedRetries = CancelUnsolicitedRetries"

end
