(* ===== verification/AppTransactions.thy ===== *)
theory AppTransactions
  imports AppLayers
begin

text \<open>
  What the application layer guarantees: the invariant of its queue, timers and channels, that no
  event the environment can produce fails an assertion or meets a state it was not written for,
  that every transaction ends exactly once, and how often a fragment is transmitted.
\<close>

section \<open>Frames of a channel\<close>

text \<open>Whose a fragment in the queue is; \<open>None\<close> is a confirmation.\<close>

definition frame_of :: "bytes \<Rightarrow> channel option" where
  "frame_of d = (if GetFunction d = FC_CONFIRM then None
     else Some (if GetFunction d = FC_UNSOLICITED_RESPONSE then Unsolicited else Solicited))"

definition ready_to_send :: "APDU \<Rightarrow> bool" where
  "ready_to_send a \<longleftrightarrow> mpAppHeader a \<noteq> None \<and> 2 \<le> mFragmentSize a \<and> mFragmentSize a \<le> length (mBuffer a)"

definition frames :: "AppLayer \<Rightarrow> channel option list" where
  "frames s = map (frame_of \<circ> mBuffer) (al_SendQueue s)"

definition sending_states :: "ACS set" where
  "sending_states = {ACS_Send, ACS_SendConfirmed, ACS_SendExpectResponse, ACS_SendCanceled}"

definition waiting_states :: "ACS set" where
  "waiting_states = {ACS_WaitForConfirm, ACS_WaitForFirstResponse, ACS_WaitForFinalResponse}"

lemmas state_sets = sending_states_def waiting_states_def

lemma idle_not_active [simp]: "ACS_Idle \<notin> sending_states" "ACS_Idle \<notin> waiting_states"
  by (simp_all add: state_sets)

lemma ACS_cases: "st = ACS_Idle \<or> st \<in> sending_states \<or> st \<in> waiting_states"
  by (cases st) (simp_all add: state_sets)

definition channel_ok :: "channel \<Rightarrow> channel option list \<Rightarrow> AppLayerChannel \<Rightarrow> bool" where
  "channel_ok c fs ch \<longleftrightarrow>
     (Some c \<in> set fs \<longleftrightarrow> ch_State ch \<in> sending_states) \<and>
     (ch_Timer ch \<longleftrightarrow> ch_State ch \<in> waiting_states) \<and>
     (ch_State ch \<noteq> ACS_Idle \<longrightarrow> 0 \<le> ch_Sequence ch \<and>
       (\<exists>a. ch_SendAPDU ch = Some a \<and> ready_to_send a \<and> frame_of (mBuffer a) = Some c)) \<and>
     (\<forall>a. ch_SendAPDU ch = Some a \<longrightarrow> ready_to_send a \<and> frame_of (mBuffer a) = Some c) \<and>
     -1 \<le> ch_Sequence ch \<and> ch_Sequence ch \<le> 15"

lemma channel_ok_sending:
  "channel_ok c fs ch \<Longrightarrow> Some c \<in> set fs \<Longrightarrow> ch_State ch \<in> sending_states \<and> ch_State ch \<noteq> ACS_Idle"
  by (auto simp: channel_ok_def)

definition confirm_ok :: "APDU \<Rightarrow> bool" where
  "confirm_ok a \<longleftrightarrow> ready_to_send a \<and> mFragmentSize a = 2 \<and> frame_of (mBuffer a) = None"

definition queue_ok :: "AppLayer \<Rightarrow> bool" where
  "queue_ok s \<longleftrightarrow> (al_Sending s \<longleftrightarrow> al_SendQueue s \<noteq> []) \<and> list_all ready_to_send (al_SendQueue s) \<and>
     distinct (frames s) \<and> (None \<in> set (frames s) \<longrightarrow> al_ConfirmSending s)"

definition links_ok :: "AppLayer \<Rightarrow> bool" where
  "links_ok s \<longleftrightarrow> (if al_IsLowerLayerUp s then al_LowerLayer s \<and> al_User s \<noteq> None
     else al_SendQueue s = [] \<and> (\<forall>c. ch_State (chan c s) = ACS_Idle))"

definition app_inv :: "AppLayer \<Rightarrow> bool" where
  "app_inv s \<longleftrightarrow> links_ok s \<and> queue_ok s \<and> confirm_ok (al_Confirm s) \<and>
     (\<forall>c. channel_ok c (frames s) (chan c s))"

section \<open>The environment\<close>

text \<open>
  The user is set once, before the lower layer first comes up; a fragment handed to a send function has its
  function code set and its bytes within its buffer; the lower layer was set before it reports itself up, goes up and
  down in turns and completes only sends that were requested; only running timers expire.
\<close>

primrec app_possible_event :: "AppEvent \<Rightarrow> AppLayer \<Rightarrow> bool" where
  "app_possible_event (Ev_SetUser m) s = (al_User s = None)"
| "app_possible_event Ev_SetLowerLayer s = True"
| "app_possible_event Ev_LowerLayerUp s = (al_User s \<noteq> None \<and> al_LowerLayer s \<and> \<not> al_IsLowerLayerUp s)"
| "app_possible_event Ev_LowerLayerDown s = al_IsLowerLayerUp s"
| "app_possible_event (Ev_Receive d) s = al_IsLowerLayerUp s"
| "app_possible_event (Ev_SendResult ok) s = al_Sending s"
| "app_possible_event (Ev_Timeout c) s = ch_Timer (chan c s)"
| "app_possible_event (Ev_SendResponse a) s = (al_User s \<noteq> None \<and> ready_to_send a)"
| "app_possible_event (Ev_SendUnsolicited a) s = (al_User s \<noteq> None \<and> ready_to_send a)"
| "app_possible_event (Ev_SendRequest a) s = (al_User s \<noteq> None \<and> ready_to_send a)"
| "app_possible_event Ev_CancelResponse s = (al_User s \<noteq> None)"
| "app_possible_event Ev_CancelUnsolicitedRetries s = (al_User s \<noteq> None)"

definition app_possible :: "AppLayer \<Rightarrow> AppEvent \<Rightarrow> bool" where
  "app_possible s e = app_possible_event e s"

definition app_start :: "AppLayer \<Rightarrow> bool" where
  "app_start s \<longleftrightarrow> (\<exists>cfg. s = new_AppLayer cfg)"

section \<open>Steps\<close>

lemma chan_chan_update [simp]:
  "chan c (chan_update d f s) = (if c = d then f (chan c s) else chan c s)"
  by (cases c; cases d) simp_all

lemma chan_updates [simp]:
  "chan c (s\<lparr>al_out := x1\<rparr>) = chan c s" "chan c (s\<lparr>al_SendQueue := x2\<rparr>) = chan c s"
  "chan c (s\<lparr>al_Sending := x3\<rparr>) = chan c s" "chan c (s\<lparr>al_ConfirmSending := x4\<rparr>) = chan c s"
  "chan c (s\<lparr>al_Incoming := x5\<rparr>) = chan c s" "chan c (s\<lparr>al_Confirm := x5\<rparr>) = chan c s"
  "chan c (s\<lparr>al_Argument := x5\<rparr>) = chan c s" "chan c (s\<lparr>al_IsLowerLayerUp := x3\<rparr>) = chan c s"
  "chan c (s\<lparr>al_LowerLayer := x3\<rparr>) = chan c s" "chan c (s\<lparr>al_User := x6\<rparr>) = chan c s"
  by (cases c; simp)+

lemma chan_fields [simp]:
  "chan c (s\<lparr>al_Solicited := x\<rparr>) = (if c = Solicited then x else chan c s)"
  "chan c (s\<lparr>al_Unsolicited := x\<rparr>) = (if c = Unsolicited then x else chan c s)"
  by (cases c; simp)+

lemma chan_update_keeps [simp]:
  "al_out (chan_update c f s) = al_out s" "al_SendQueue (chan_update c f s) = al_SendQueue s"
  "al_Sending (chan_update c f s) = al_Sending s" "al_ConfirmSending (chan_update c f s) = al_ConfirmSending s"
  "al_Incoming (chan_update c f s) = al_Incoming s" "al_Confirm (chan_update c f s) = al_Confirm s"
  "al_Argument (chan_update c f s) = al_Argument s" "al_IsLowerLayerUp (chan_update c f s) = al_IsLowerLayerUp s"
  "al_LowerLayer (chan_update c f s) = al_LowerLayer s" "al_User (chan_update c f s) = al_User s"
  "al_NumRetry (chan_update c f s) = al_NumRetry s"
  by (cases c; simp)+

lemma GetFunction_SetControl [simp]: "GetFunction (SetControl d f) = GetFunction d"
  by (simp add: GetFunction_def SetControl_def)

lemma length_SetControl [simp]: "length (SetControl d f) = length d"
  by (simp add: SetControl_def)

lemma frame_of_SetControl [simp]: "frame_of (SetControl d f) = frame_of d"
  by (simp add: frame_of_def)

lemma frame_of_None: "frame_of d = None \<longleftrightarrow> GetFunction d = FC_CONFIRM"
  by (simp add: frame_of_def)

lemma frame_of_written: "ready_to_send a \<Longrightarrow> frame_of (written a) = frame_of (mBuffer a)"
  by (simp add: ready_to_send_def frame_of_def written_def GetFunction_def)

lemma CheckForSend_runs:
  assumes "al_LowerLayer s"
  shows "Al_CheckForSend s = (None, if al_Sending s \<or> al_SendQueue s = [] then s
    else s\<lparr>al_Sending := True, al_out := al_out s @ [Al_Lower_Send (written (hd (al_SendQueue s)))]\<rparr>)"
  using assms by (auto simp: Al_CheckForSend_def handler_simps)

lemma QueueFrame_runs:
  assumes "al_LowerLayer s" and "al_Sending s \<longleftrightarrow> al_SendQueue s \<noteq> []"
  shows "QueueFrame a s = (None, s\<lparr>al_SendQueue := al_SendQueue s @ [a], al_Sending := True,
    al_out := al_out s @ (if al_Sending s then [] else [Al_Lower_Send (written a)])\<rparr>)"
  using assms by (auto simp: QueueFrame_def CheckForSend_runs handler_simps)

lemma frames_simps [simp]:
  "frames (chan_update c f s) = frames s"
  "frames (s\<lparr>al_SendQueue := q @ [a]\<rparr>) = frames (s\<lparr>al_SendQueue := q\<rparr>) @ [frame_of (mBuffer a)]"
  "frames (s\<lparr>al_out := x1\<rparr>) = frames s" "frames (s\<lparr>al_Sending := x3\<rparr>) = frames s"
  by (simp_all add: frames_def)


lemmas channel_code = ThrowInvalidState_def unless_Retry_def handler_simps

lemma smod_seq: "NextSeq q \<ge> 0 \<and> NextSeq q \<le> 15" if "-1 \<le> q" "q \<le> 15"
  using that by (auto simp: NextSeq_def signed_modulo_int_def sgn_if)

lemma control_SEQ: "0 \<le> SEQ (GetControl d) \<and> SEQ (GetControl d) \<le> 15"
proof -
  have "uint (d ! 0 AND ACM_SEQ) \<le> uint ACM_SEQ" by (simp add: uint_and)
  then show ?thesis by (simp add: GetControl_def control_of_def ACM_SEQ_def)
qed

subsection \<open>Counting\<close>

definition completes :: "channel \<Rightarrow> AppOut \<Rightarrow> bool" where
  "completes c x \<longleftrightarrow> x = User_OnSendSuccess c \<or> x = User_OnFailure c \<or>
     c = Solicited \<and> (case x of User_OnFinalResponse a \<Rightarrow> True | _ \<Rightarrow> False)"

definition transmits :: "channel \<Rightarrow> AppOut \<Rightarrow> bool" where
  "transmits c x \<longleftrightarrow> (case x of Al_Lower_Send d \<Rightarrow> frame_of d = Some c | _ \<Rightarrow> False)"

definition transaction_ends :: "channel \<Rightarrow> AppLayer \<Rightarrow> nat" where
  "transaction_ends c s = length (filter (completes c) (al_out s))"

definition transmissions :: "channel \<Rightarrow> AppLayer \<Rightarrow> nat" where
  "transmissions c s = length (filter (transmits c) (al_out s))"

definition busy :: "channel \<Rightarrow> AppLayer \<Rightarrow> bool" where
  "busy c s \<longleftrightarrow> ch_State (chan c s) \<noteq> ACS_Idle"

text \<open>The first frame of the queue is the one being sent.\<close>

definition waiting_frames :: "channel \<Rightarrow> AppLayer \<Rightarrow> nat" where
  "waiting_frames c s = of_bool (Some c \<in> set (if al_Sending s then tl (frames s) else frames s))"

definition allowance :: "channel \<Rightarrow> AppLayer \<Rightarrow> nat" where
  "allowance c s = (if busy c s then ch_NumRetry (chan c s) + waiting_frames c s else 0)"

definition event_channel :: "AppEvent \<Rightarrow> channel option" where
  "event_channel e = (case e of Ev_SendResponse a \<Rightarrow> Some Solicited | Ev_SendRequest a \<Rightarrow> Some Solicited
     | Ev_SendUnsolicited a \<Rightarrow> Some Unsolicited | _ \<Rightarrow> None)"

definition accepted :: "channel \<Rightarrow> AppLayer \<Rightarrow> AppEvent \<Rightarrow> bool" where
  "accepted c s e \<longleftrightarrow> event_channel e = Some c \<and> fst (app_handle e s) = None"

definition event_function :: "AppEvent \<Rightarrow> FunctionCodes" where
  "event_function e = (case e of Ev_SendResponse a \<Rightarrow> GetFunction (mBuffer a) | Ev_SendRequest a \<Rightarrow> GetFunction (mBuffer a)
     | Ev_SendUnsolicited a \<Rightarrow> GetFunction (mBuffer a) | _ \<Rightarrow> FC_UNKNOWN)"

definition aborted :: "channel \<Rightarrow> AppLayer \<Rightarrow> AppEvent \<Rightarrow> bool" where
  "aborted c s e \<longleftrightarrow> e = Ev_LowerLayerDown \<and> busy c s"

text \<open>The books of a channel after a step: transactions begun \<open>b\<close>, aborted \<open>ab\<close>, and \<open>n\<close> transmissions allowed.\<close>

definition balanced :: "channel \<Rightarrow> bool \<Rightarrow> bool \<Rightarrow> nat \<Rightarrow> AppLayer \<Rightarrow> AppLayer \<Rightarrow> bool" where
  "balanced c b ab n s s' \<longleftrightarrow>
     transaction_ends c s' + of_bool ab + of_bool (busy c s') = transaction_ends c s + of_bool b + of_bool (busy c s) \<and>
     transmissions c s' + allowance c s' \<le> transmissions c s + allowance c s + n"

lemmas counting = balanced_def transaction_ends_def transmissions_def busy_def allowance_def waiting_frames_def

definition quiet :: "AppLayer \<Rightarrow> AppLayer \<Rightarrow> bool" where
  "quiet s s' \<longleftrightarrow> (\<forall>c. balanced c False False 0 s s')"

lemma balanced_quiet:
  "balanced c b ab n s t \<Longrightarrow> quiet t u \<Longrightarrow> balanced c b ab n s u"
  "quiet s t \<Longrightarrow> balanced c b ab n t u \<Longrightarrow> balanced c b ab n s u"
proof -
  show "balanced c b ab n s u" if "balanced c b ab n s t" "quiet t u"
  proof -
    have "balanced c False False 0 t u" using that(2) by (simp add: quiet_def)
    with that(1) show ?thesis unfolding balanced_def of_bool_eq by linarith
  qed
  show "balanced c b ab n s u" if "quiet s t" "balanced c b ab n t u"
  proof -
    have "balanced c False False 0 s t" using that(1) by (simp add: quiet_def)
    with that(2) show ?thesis unfolding balanced_def of_bool_eq by linarith
  qed
qed

lemma quiet_refl [simp]: "quiet s s"
  by (simp add: quiet_def balanced_def)

lemma quiet_trans: "quiet s t \<Longrightarrow> quiet t u \<Longrightarrow> quiet s u"
  unfolding quiet_def by (blast intro: balanced_quiet(1) [unfolded quiet_def])

subsection \<open>The middle of a step\<close>

text \<open>
  Between taking a frame from the queue and looking for the next: everything is in order except that
  the sender may be idle, and that channel \<open>c\<close> is still in the state whose event it handles.
\<close>

definition core_inv :: "AppLayer \<Rightarrow> bool" where
  "core_inv s \<longleftrightarrow> al_IsLowerLayerUp s \<and> al_LowerLayer s \<and> al_User s \<noteq> None \<and> confirm_ok (al_Confirm s) \<and>
     list_all ready_to_send (al_SendQueue s) \<and> distinct (frames s) \<and> (None \<in> set (frames s) \<longrightarrow> al_ConfirmSending s) \<and>
     (al_Sending s \<longrightarrow> al_SendQueue s \<noteq> [])"

definition owned :: "channel \<Rightarrow> AppLayerChannel \<Rightarrow> bool" where
  "owned c ch \<longleftrightarrow> 0 \<le> ch_Sequence ch \<and> ch_Sequence ch \<le> 15 \<and>
     (\<exists>a. ch_SendAPDU ch = Some a \<and> ready_to_send a \<and> frame_of (mBuffer a) = Some c)"

definition handling :: "channel \<Rightarrow> AppLayer \<Rightarrow> bool" where
  "handling c s \<longleftrightarrow> core_inv s \<and> (\<forall>d. d \<noteq> c \<longrightarrow> channel_ok d (frames s) (chan d s)) \<and>
     Some c \<notin> set (frames s) \<and> busy c s \<and> \<not> ch_Timer (chan c s) \<and> owned c (chan c s)"

definition handled :: "AppLayer \<Rightarrow> bool" where
  "handled s \<longleftrightarrow> core_inv s \<and> (\<forall>c. channel_ok c (frames s) (chan c s))"

lemma handled_inv: "handled s \<Longrightarrow> (al_Sending s \<longleftrightarrow> al_SendQueue s \<noteq> []) \<Longrightarrow> app_inv s"
  by (simp add: handled_def core_inv_def app_inv_def links_ok_def queue_ok_def)

lemma inv_handled: "app_inv s \<Longrightarrow> al_IsLowerLayerUp s \<Longrightarrow> handled s"
  by (auto simp: handled_def core_inv_def app_inv_def links_ok_def queue_ok_def)

lemma inv_sending: "app_inv s \<Longrightarrow> al_Sending s \<longleftrightarrow> al_SendQueue s \<noteq> []"
  by (simp add: app_inv_def queue_ok_def)

lemma inv_busy_up: "app_inv s \<Longrightarrow> busy c s \<or> al_SendQueue s \<noteq> [] \<Longrightarrow> al_IsLowerLayerUp s"
  by (auto simp: app_inv_def links_ok_def busy_def split: if_splits)

lemma head_not_in_tail: "distinct xs \<Longrightarrow> xs \<noteq> [] \<Longrightarrow> hd xs \<notin> set (tl xs)"
  by (cases xs) simp_all

lemma next_send_step:
  assumes "handled s"
  obtains s' where "Al_CheckForSend s = (None, s')" "app_inv s'" "handled s'" "quiet s s'"
proof (cases "al_Sending s \<or> al_SendQueue s = []")
  case True
  then have "al_Sending s \<longleftrightarrow> al_SendQueue s \<noteq> []" using assms by (auto simp: handled_def core_inv_def)
  then show thesis using that [of s] True assms handled_inv [OF assms]
    by (simp add: CheckForSend_runs handled_def core_inv_def)
next
  case False
  then obtain a q where q: "al_SendQueue s = a # q" "\<not> al_Sending s" by (cases "al_SendQueue s") auto
  define s' where "s' = s\<lparr>al_Sending := True, al_out := al_out s @ [Al_Lower_Send (written a)]\<rparr>"
  have "ready_to_send a" using assms q by (simp add: handled_def core_inv_def)
  note fr = frame_of_written [OF this]
  have "Al_CheckForSend s = (None, s')"
    using assms q by (simp add: CheckForSend_runs handled_def core_inv_def s'_def)
  moreover have up: "handled s'" using assms q by (simp add: handled_def core_inv_def s'_def)
  moreover have "app_inv s'" by (rule handled_inv [OF up]) (use q in \<open>simp add: s'_def\<close>)
  moreover have "ch_State (chan c s) \<noteq> ACS_Idle" if "frame_of (mBuffer a) = Some c" for c
    using channel_ok_sending [of c "frames s" "chan c s"] assms q that by (auto simp: handled_def frames_def)
  then have "quiet s s'"
    using fr q assms head_not_in_tail [of "frames s"]
    by (auto simp: quiet_def counting s'_def completes_def transmits_def frames_def handled_def core_inv_def)
  ultimately show thesis using that by blast
qed

lemma QueueFrame_step:
  assumes "handled (s\<lparr>al_SendQueue := al_SendQueue s @ [a]\<rparr>)"
  obtains s' where "QueueFrame a s = (None, s')" "app_inv s'" "handled s'" "quiet (s\<lparr>al_SendQueue := al_SendQueue s @ [a]\<rparr>) s'"
  using next_send_step [OF assms] that by (auto simp: QueueFrame_def handler_simps)

subsection \<open>What a state does with its event\<close>

text \<open>A channel's new record and the calls made, none of them on the lower layer.\<close>

definition moved :: "channel \<Rightarrow> AppLayerChannel \<Rightarrow> AppOut list \<Rightarrow> AppLayer \<Rightarrow> AppLayer" where
  "moved c ch xs s = chan_update c (\<lambda>_. ch) (s\<lparr>al_out := al_out s @ xs\<rparr>)"

definition settles :: "channel \<Rightarrow> AppLayerChannel \<Rightarrow> AppOut list \<Rightarrow> AppLayerChannel \<Rightarrow> bool" where
  "settles c ch xs ch' \<longleftrightarrow> ch_State ch' \<notin> sending_states \<and> (ch_Timer ch' \<longleftrightarrow> ch_State ch' \<in> waiting_states) \<and>
     ch_SendAPDU ch' = ch_SendAPDU ch \<and> ch_NumRetry ch' = ch_NumRetry ch \<and>
     0 \<le> ch_Sequence ch' \<and> ch_Sequence ch' \<le> 15 \<and>
     (\<forall>d. filter (transmits d) xs = [] \<and>
        length (filter (completes d) xs) = of_bool (d = c \<and> ch_State ch' = ACS_Idle))"

lemma settled:
  assumes "handling c s" and "settles c (chan c s) xs ch"
  shows "handled (moved c ch xs s)" "quiet s (moved c ch xs s)"
proof -
  show "handled (moved c ch xs s)"
    using assms by (auto simp: handled_def handling_def moved_def core_inv_def settles_def channel_ok_def owned_def)
  show "quiet s (moved c ch xs s)"
    using assms by (auto simp: quiet_def counting moved_def settles_def handling_def)
qed

lemma retried:
  assumes "handling c s" and "st \<in> sending_states" and "0 < ch_NumRetry (chan c s)"
  obtains s' where "unless_Retry c st body s = (None, s')" "handled s'" "app_inv s'" "quiet s s'"
proof -
  obtain a where a: "ch_SendAPDU (chan c s) = Some a" "ready_to_send a" "frame_of (mBuffer a) = Some c"
    using assms(1) by (auto simp: handling_def owned_def)
  define t where "t = chan_update c (\<lambda>ch. ch\<lparr>ch_NumRetry := ch_NumRetry ch - 1, ch_State := st\<rparr>) s"
  define u where "u = t\<lparr>al_SendQueue := al_SendQueue t @ [a]\<rparr>"
  have run: "unless_Retry c st body s = QueueFrame a t"
    using assms(3) a(1) by (cases c) (simp_all add: unless_Retry_def handler_simps t_def)
  have "handled u"
    using assms a by (auto simp: handled_def handling_def core_inv_def u_def t_def channel_ok_def owned_def state_sets frames_def)
  moreover have "quiet s u"
    using assms a by (auto simp: quiet_def counting u_def t_def handling_def core_inv_def frames_def)
  ultimately show thesis
    using that run by (metis QueueFrame_step u_def quiet_trans)
qed


definition done_quietly :: "AppLayer \<Rightarrow> AppLayer handler \<Rightarrow> bool" where
  "done_quietly s h \<longleftrightarrow> (\<exists>s'. h s = (None, s') \<and> handled s' \<and> quiet s s' \<and>
     ((al_Sending s \<longleftrightarrow> al_SendQueue s \<noteq> []) \<longrightarrow> app_inv s'))"

lemma done_settled:
  assumes "handling c s" and "settles c (chan c s) xs ch" and "h s = (None, moved c ch xs s)"
  shows "done_quietly s h"
proof -
  have "handled (moved c ch xs s)" "quiet s (moved c ch xs s)" by (rule settled [OF assms(1,2)])+
  moreover have "app_inv (moved c ch xs s)" if "al_Sending s \<longleftrightarrow> al_SendQueue s \<noteq> []"
    by (rule handled_inv) (use calculation that in \<open>simp_all add: moved_def\<close>)
  ultimately show ?thesis using assms(3) by (simp add: done_quietly_def)
qed

lemma handling_user: "handling c s \<Longrightarrow> al_User s \<noteq> None"
  by (simp add: handling_def core_inv_def)

lemma settles_idle:
  assumes "handling c s" and "completes c x" and "\<And>d. completes d x \<Longrightarrow> d = c" and "\<And>d. \<not> transmits d x"
  shows "settles c (chan c s) [x] ((chan c s)\<lparr>ch_State := ACS_Idle\<rparr>)"
proof -
  have "completes d x \<longleftrightarrow> d = c" for d using assms(2,3) by blast
  with assms(1,4) show ?thesis by (simp add: settles_def handling_def owned_def)
qed

lemma reports [simp]:
  "completes d (User_OnSendSuccess c) \<longleftrightarrow> d = c" "completes d (User_OnFailure c) \<longleftrightarrow> d = c"
  "completes d (User_OnFinalResponse a) \<longleftrightarrow> d = Solicited"
  "\<not> completes d (Al_StartTimer c)" "\<not> completes d (Al_CancelTimer c)" "\<not> completes d (User_OnPartialResponse a)"
  "\<not> completes d (Al_Lower_Send b)" "\<not> completes d User_OnLowerLayerUp" "\<not> completes d User_OnLowerLayerDown"
  "\<not> completes d User_OnUnknownObject" "\<not> completes d (User_OnUnsolResponse a)" "\<not> completes d (User_OnRequest a sq)"
  "\<not> transmits d (User_OnSendSuccess c)" "\<not> transmits d (User_OnFailure c)" "\<not> transmits d (User_OnFinalResponse a)"
  "\<not> transmits d (Al_StartTimer c)" "\<not> transmits d (Al_CancelTimer c)" "\<not> transmits d (User_OnPartialResponse a)"
  "transmits d (Al_Lower_Send b) \<longleftrightarrow> frame_of b = Some d" "\<not> transmits d User_OnLowerLayerUp"
  "\<not> transmits d User_OnLowerLayerDown" "\<not> transmits d User_OnUnknownObject"
  "\<not> transmits d (User_OnUnsolResponse a)" "\<not> transmits d (User_OnRequest a sq)"
  by (auto simp: completes_def transmits_def)

lemma report_done:
  assumes "handling c s" and "completes c x" and "\<And>d. completes d x \<Longrightarrow> d = c" and "\<And>d. \<not> transmits d x"
  shows "done_quietly s (in_order [Channel_ChangeState c ACS_Idle, call_user x])"
proof (rule done_settled [OF assms(1) settles_idle [OF assms]])
  show "in_order [Channel_ChangeState c ACS_Idle, call_user x] s =
      (None, moved c ((chan c s)\<lparr>ch_State := ACS_Idle\<rparr>) [x] s)"
    using handling_user [OF assms(1)] by (cases c) (simp_all add: handler_simps moved_def)
qed

lemma to_idle_done:
  assumes "handling c s"
  shows "done_quietly s (to_idle c Channel_DoFailure)" and "done_quietly s (to_idle c Channel_DoSendSuccess)"
  using report_done [OF assms, of "User_OnFailure c"] report_done [OF assms, of "User_OnSendSuccess c"]
  by (simp_all add: to_idle_def Channel_DoFailure_def Channel_DoSendSuccess_def)

lemma await_done:
  assumes "handling c s" and "st \<in> waiting_states"
  shows "done_quietly s (in_order [Channel_ChangeState c st, Al_StartTimer_of c])"
proof (rule done_settled [OF assms(1)])
  show "settles c (chan c s) [Al_StartTimer c] ((chan c s)\<lparr>ch_State := st, ch_Timer := True\<rparr>)"
    using assms by (auto simp: settles_def handling_def owned_def state_sets)
  show "in_order [Channel_ChangeState c st, Al_StartTimer_of c] s =
      (None, moved c ((chan c s)\<lparr>ch_State := st, ch_Timer := True\<rparr>) [Al_StartTimer c] s)"
    using assms(1) by (cases c) (simp_all add: handling_def handler_simps moved_def)
qed

lemma unless_Retry_done:
  assumes "handling c s" and "st \<in> sending_states"
  shows "done_quietly s (unless_Retry c st (to_idle c Channel_DoFailure))"
proof (cases "0 < ch_NumRetry (chan c s)")
  case True
  from retried [OF assms True] obtain s' where
    "unless_Retry c st (to_idle c Channel_DoFailure) s = (None, s')" "handled s'" "app_inv s'" "quiet s s'" by blast
  then show ?thesis by (auto simp: done_quietly_def)
next
  case False
  then have "unless_Retry c st (to_idle c Channel_DoFailure) s = to_idle c Channel_DoFailure s"
    by (simp add: unless_Retry_def if_else_def)
  with to_idle_done [OF assms(1)] show ?thesis by (simp add: done_quietly_def)
qed

lemma send_success_done:
  "handling c s \<Longrightarrow> st \<in> sending_states \<Longrightarrow> done_quietly s (ACS_OnSendSuccess st c)"
  by (cases st) (simp_all add: to_idle_done await_done state_sets)

lemma send_failure_done:
  "handling c s \<Longrightarrow> st \<in> sending_states \<Longrightarrow> done_quietly s (ACS_OnSendFailure st c)"
  by (cases st) (simp_all add: to_idle_done unless_Retry_done state_sets)

lemma timeout_done:
  "handling c s \<Longrightarrow> st \<in> waiting_states \<Longrightarrow> done_quietly s (ACS_OnTimeout st c)"
  by (cases st) (simp_all add: unless_Retry_done state_sets)


subsection \<open>What a received fragment does\<close>

text \<open>
  A statement that keeps the invariant while the lower layer is up, leaves every channel's books alone, and
  throws no exception but those \<open>_OnReceive\<close> swallows.
\<close>

definition swallowed :: "exn option \<Rightarrow> bool" where
  "swallowed r \<longleftrightarrow> r \<noteq> Some AssertionFailed \<and> r \<noteq> Some ObjectException"

definition sound :: "AppLayer handler \<Rightarrow> bool" where
  "sound h \<longleftrightarrow> (\<forall>s. app_inv s \<longrightarrow> al_IsLowerLayerUp s \<longrightarrow>
     (\<exists>r s'. h s = (r, s') \<and> swallowed r \<and> app_inv s' \<and> al_IsLowerLayerUp s' \<and> quiet s s'))"

named_theorems sound_intros \<open>the statements a received fragment leads to are sound\<close>

lemma soundD:
  assumes "sound h" and "app_inv s" and "al_IsLowerLayerUp s"
  obtains r s' where "h s = (r, s')" "swallowed r" "app_inv s'" "al_IsLowerLayerUp s'" "quiet s s'"
  using assms by (auto simp: sound_def)

lemma sound_leaf [sound_intros]:
  "sound skip" "sound (throw_if P (Exception e))"
  by (simp_all add: sound_def handler_simps swallowed_def)

lemma sound_branch [sound_intros]:
  "sound f \<Longrightarrow> sound g \<Longrightarrow> sound (if_else Q f g)"
  by (simp add: sound_def handler_simps)

lemma sound_reading: "(\<And>s. sound (k s)) \<Longrightarrow> sound (reading k)"
  by (simp add: sound_def handler_simps)

lemma sound_master [sound_intros]: "(\<And>m. sound (k m)) \<Longrightarrow> sound (with_value IsMaster k)"
proof -
  assume k: "\<And>m. sound (k m)"
  have "\<exists>m. al_User s = Some m" if "app_inv s" "al_IsLowerLayerUp s" for s
    using that by (auto simp: app_inv_def links_ok_def)
  with k show ?thesis by (fastforce simp: sound_def handler_simps IsMaster_def)
qed

lemma sound_in_order [sound_intros]: "(\<And>h. h \<in> set hs \<Longrightarrow> sound h) \<Longrightarrow> sound (in_order hs)"
proof (induction hs)
  case Nil
  then show ?case by (simp add: sound_def swallowed_def)
next
  case (Cons h hs)
  show ?case unfolding sound_def
  proof (intro allI impI)
    fix s assume "app_inv s" "al_IsLowerLayerUp s"
    then obtain r s' where s': "h s = (r, s')" "swallowed r" "app_inv s'" "al_IsLowerLayerUp s'" "quiet s s'"
      using Cons.prems soundD [of h s] by auto
    have "sound (in_order hs)" using Cons by simp
    then obtain r2 s2 where "in_order hs s' = (r2, s2)" "swallowed r2" "app_inv s2" "al_IsLowerLayerUp s2" "quiet s' s2"
      using soundD [OF _ s'(3,4)] by metis
    with s' show "\<exists>r s'. in_order (h # hs) s = (r, s') \<and> swallowed r \<and> app_inv s' \<and>
        al_IsLowerLayerUp s' \<and> quiet s s'"
      by (cases r) (auto simp: in_order.simps(2) intro: quiet_trans)
  qed
qed

lemma channel_ok_capture:
  "channel_ok c fs ch \<Longrightarrow> 0 \<le> q \<Longrightarrow> q \<le> 15 \<Longrightarrow> channel_ok c fs (ch\<lparr>ch_Sequence := q\<rparr>)"
  by (simp add: channel_ok_def)

lemma sound_capture [sound_intros]:
  "0 \<le> q \<Longrightarrow> q \<le> 15 \<Longrightarrow> sound (CaptureSequence c q)"
  by (auto simp: sound_def handler_simps swallowed_def app_inv_def links_ok_def queue_ok_def
      channel_ok_capture quiet_def counting frames_def)

lemma sound_call_user [sound_intros]:
  "(\<And>d. \<not> completes d x) \<Longrightarrow> (\<And>d. \<not> transmits d x) \<Longrightarrow> sound (call_user x)"
  by (auto simp: sound_def handler_simps swallowed_def app_inv_def links_ok_def queue_ok_def quiet_def counting
      frames_def)

lemma sound_QueueConfirm [sound_intros]:
  assumes "0 \<le> q" and "q \<le> 15"
  shows "sound (QueueConfirm u q)"
  unfolding sound_def
proof (intro allI impI)
  fix s assume inv: "app_inv s" and up: "al_IsLowerLayerUp s"
  show "\<exists>r s'. QueueConfirm u q s = (r, s') \<and> swallowed r \<and> app_inv s' \<and> al_IsLowerLayerUp s' \<and> quiet s s'"
  proof (cases "al_ConfirmSending s")
    case True
    then show ?thesis using inv up by (simp add: QueueConfirm_def handler_simps swallowed_def)
  next
    case False
    define a where "a = (al_Confirm s)\<lparr>mBuffer := SetControl (mBuffer (al_Confirm s)) \<lparr>FIR = True, FIN = True, CON = False, UNS = u, SEQ = q\<rparr>\<rparr>"
    define t where "t = s\<lparr>al_ConfirmSending := True, al_Confirm := a\<rparr>"
    have a: "confirm_ok a" using inv
      by (auto simp: app_inv_def confirm_ok_def a_def ready_to_send_def frame_of_None)
    have "handled (t\<lparr>al_SendQueue := al_SendQueue t @ [a]\<rparr>)"
      using inv_handled [OF inv up] a False
      by (auto simp: handled_def core_inv_def t_def frames_def confirm_ok_def channel_ok_def)
    from QueueFrame_step [OF this] obtain s' where
      s': "QueueFrame a t = (None, s')" "app_inv s'" "handled s'" "quiet (t\<lparr>al_SendQueue := al_SendQueue t @ [a]\<rparr>) s'" .
    have "quiet s (t\<lparr>al_SendQueue := al_SendQueue t @ [a]\<rparr>)"
      using a inv_sending [OF inv] by (auto simp: quiet_def counting t_def frames_def confirm_ok_def)
    moreover have "QueueConfirm u q s = QueueFrame a t"
      using assms False inv by (auto simp: QueueConfirm_def handler_simps APDU_SetControlParts_def APDU_SetControl_def
          t_def a_def app_inv_def confirm_ok_def ready_to_send_def)
    ultimately show ?thesis using s' by (auto simp: swallowed_def handled_def core_inv_def intro: quiet_trans)
  qed
qed


subsection \<open>Confirmations and responses\<close>

lemma inv_chan: "app_inv s \<Longrightarrow> channel_ok c (frames s) (chan c s)"
  by (simp add: app_inv_def)

lemma timer_off_handling:
  assumes "app_inv s" and "ch_State (chan c s) \<in> waiting_states" and "\<And>d. filter (completes d) xs = []"
    and "\<And>d. filter (transmits d) xs = []"
  shows "handling c (moved c ((chan c s)\<lparr>ch_Timer := False\<rparr>) xs s)"
    and "quiet s (moved c ((chan c s)\<lparr>ch_Timer := False\<rparr>) xs s)"
proof -
  have st: "ch_State (chan c s) \<noteq> ACS_Idle" "ch_State (chan c s) \<notin> sending_states"
    using assms(2) by (auto simp: state_sets)
  have "handled s" using inv_handled [OF assms(1)] inv_busy_up [OF assms(1), of c] st(1) by (simp add: busy_def)
  then show "handling c (moved c ((chan c s)\<lparr>ch_Timer := False\<rparr>) xs s)"
    using st inv_chan [OF assms(1), of c]
    by (auto simp: handling_def handled_def moved_def core_inv_def busy_def channel_ok_def owned_def)
  show "quiet s (moved c ((chan c s)\<lparr>ch_Timer := False\<rparr>) xs s)"
    using assms(3,4) by (auto simp: quiet_def counting moved_def)
qed

lemma CancelTimer_runs:
  assumes "app_inv s" and "ch_State (chan c s) \<in> waiting_states"
  obtains t where "Al_CancelTimer_of c s = (None, t)" "handling c t" "quiet s t"
    "chan c t = (chan c s)\<lparr>ch_Timer := False\<rparr>" "al_Sending t \<longleftrightarrow> al_SendQueue t \<noteq> []"
proof (rule that)
  let ?t = "moved c ((chan c s)\<lparr>ch_Timer := False\<rparr>) [Al_CancelTimer c] s"
  show "Al_CancelTimer_of c s = (None, ?t)"
    using inv_chan [OF assms(1), of c] assms(2)
    by (cases c) (auto simp: handler_simps channel_ok_def moved_def)
  show "handling c ?t" "quiet s ?t" by (rule timer_off_handling [OF assms]; simp)+
  show "chan c ?t = (chan c s)\<lparr>ch_Timer := False\<rparr>" "al_Sending ?t \<longleftrightarrow> al_SendQueue ?t \<noteq> []"
    using inv_sending [OF assms(1)] by (simp_all add: moved_def)
qed

lemma done_after_cancel:
  assumes "app_inv s" and "ch_State (chan c s) \<in> waiting_states"
    and "\<And>t. handling c t \<Longrightarrow> chan c t = (chan c s)\<lparr>ch_Timer := False\<rparr> \<Longrightarrow> done_quietly t h"
  shows "\<exists>s'. in_order [Al_CancelTimer_of c, h] s = (None, s') \<and> app_inv s' \<and> al_IsLowerLayerUp s' \<and> quiet s s'"
proof -
  obtain t where t: "Al_CancelTimer_of c s = (None, t)" "handling c t" "quiet s t"
    "chan c t = (chan c s)\<lparr>ch_Timer := False\<rparr>" "al_Sending t \<longleftrightarrow> al_SendQueue t \<noteq> []"
    by (rule CancelTimer_runs [OF assms(1,2)])
  from assms(3) [OF t(2,4)] t(5) obtain s' where "h t = (None, s')" "handled s'" "quiet t s'" "app_inv s'"
    unfolding done_quietly_def by blast
  then show ?thesis using t(1,3)
    by (auto simp: handled_def core_inv_def intro: quiet_trans)
qed

lemma partial_done:
  assumes "handling c s"
  shows "done_quietly s (in_order [IncrSequence c, Channel_ChangeState c ACS_WaitForFinalResponse, Al_StartTimer_of c,
    call_user (User_OnPartialResponse a)])"
proof (rule done_settled [OF assms])
  let ?ch = "(chan c s)\<lparr>ch_Sequence := NextSeq (ch_Sequence (chan c s)), ch_State := ACS_WaitForFinalResponse, ch_Timer := True\<rparr>"
  show "settles c (chan c s) [Al_StartTimer c, User_OnPartialResponse a] ?ch"
    using assms smod_seq [of "ch_Sequence (chan c s)"]
    by (auto simp: settles_def handling_def owned_def state_sets)
  show "in_order [IncrSequence c, Channel_ChangeState c ACS_WaitForFinalResponse, Al_StartTimer_of c,
    call_user (User_OnPartialResponse a)] s = (None, moved c ?ch [Al_StartTimer c, User_OnPartialResponse a] s)"
    using assms handling_user [OF assms] by (cases c) (simp_all add: handling_def handler_simps moved_def)
qed

lemma sound_when:
  assumes "\<And>s. app_inv s \<Longrightarrow> Q s \<Longrightarrow> \<exists>s'. h s = (None, s') \<and> app_inv s' \<and> al_IsLowerLayerUp s' \<and> quiet s s'"
  shows "sound (if_else Q h skip)"
proof -
  have "\<exists>r s'. if_else Q h skip s = (r, s') \<and> swallowed r \<and> app_inv s' \<and> al_IsLowerLayerUp s' \<and> quiet s s'"
    if "app_inv s" "al_IsLowerLayerUp s" for s
    using assms [OF that(1)] that by (cases "Q s") (auto simp: if_else_def skip_def swallowed_def)
  then show ?thesis by (simp add: sound_def)
qed

lemma in_order_nested: "in_order (f # g # hs) s = in_order [f, in_order (g # hs)] s"
  by (simp split: prod.split option.split)

lemma OnConfirm_runs:
  "reading (\<lambda>s. ACS_OnConfirm (ch_State (chan c s)) c q) =
     if_else (\<lambda>s. ch_State (chan c s) = ACS_WaitForConfirm \<and> ch_Sequence (chan c s) = q)
       (in_order [Al_CancelTimer_of c, to_idle c Channel_DoSendSuccess]) skip"
proof (rule ext)
  fix s
  have "in_order [Al_CancelTimer_of c, Channel_ChangeState c ACS_Idle, Channel_DoSendSuccess c] s =
      in_order [Al_CancelTimer_of c, to_idle c Channel_DoSendSuccess] s"
    unfolding to_idle_def by (rule in_order_nested)
  then show "reading (\<lambda>s. ACS_OnConfirm (ch_State (chan c s)) c q) s =
      if_else (\<lambda>s. ch_State (chan c s) = ACS_WaitForConfirm \<and> ch_Sequence (chan c s) = q)
       (in_order [Al_CancelTimer_of c, to_idle c Channel_DoSendSuccess]) skip s"
    by (simp only: reading_def ACS_OnConfirm_def if_else_def skip_def split: if_split) blast
qed

lemma sound_OnConfirm [sound_intros]: "sound (reading (\<lambda>s. ACS_OnConfirm (ch_State (chan c s)) c q))"
  unfolding OnConfirm_runs
  by (rule sound_when, rule done_after_cancel) (simp_all add: state_sets to_idle_done(2))

definition response_step :: "APDU \<Rightarrow> AppLayer handler" where
  "response_step a = in_order [Al_CancelTimer_of Solicited,
     if FIN (GetControl (mBuffer a)) then in_order [Channel_ChangeState Solicited ACS_Idle, call_user (User_OnFinalResponse a)]
     else in_order [IncrSequence Solicited, Channel_ChangeState Solicited ACS_WaitForFinalResponse, Al_StartTimer_of Solicited,
       call_user (User_OnPartialResponse a)]]"

definition response_expected :: "APDU \<Rightarrow> AppLayer \<Rightarrow> bool" where
  "response_expected a s \<longleftrightarrow> SEQ (GetControl (mBuffer a)) = ch_Sequence (al_Solicited s) \<and>
     (if FIR (GetControl (mBuffer a)) then ch_State (al_Solicited s) = ACS_WaitForFirstResponse
      else ch_State (al_Solicited s) = ACS_WaitForFinalResponse)"

lemma OnResponse_runs:
  assumes "mpAppHeader a \<noteq> None"
  shows "reading (\<lambda>s. ACS_OnResponse (ch_State (chan Solicited s)) Solicited a) =
    if_else (response_expected a) (response_step a) skip"
proof (rule ext)
  fix s
  have control: "APDU_GetControl a = Inr (GetControl (mBuffer a))"
    using assms by (auto simp: APDU_GetControl_def)
  have branch: "if_else (\<lambda>s. FIN (GetControl (mBuffer a))) f g = (if FIN (GetControl (mBuffer a)) then f else g)"
    for f g :: "AppLayer handler" by (simp add: if_else_def fun_eq_iff)
  have process: "ProcessResponse Solicited a fir s =
     (if SEQ (GetControl (mBuffer a)) = ch_Sequence (chan Solicited s) \<and> FIR (GetControl (mBuffer a)) = fir
      then response_step a s else (None, s))" for fir
    by (simp only: ProcessResponse_def with_value_def control sum.case branch response_step_def if_else_def skip_def)
  show "reading (\<lambda>s. ACS_OnResponse (ch_State (chan Solicited s)) Solicited a) s =
    if_else (response_expected a) (response_step a) skip s"
    by (simp add: reading_def ACS_OnResponse_def process if_else_def response_expected_def skip_def)
qed

lemma sound_OnResponse [sound_intros]:
  assumes "mpAppHeader a \<noteq> None"
  shows "sound (reading (\<lambda>s. ACS_OnResponse (ch_State (chan Solicited s)) Solicited a))"
  unfolding OnResponse_runs [OF assms] response_step_def
proof (rule sound_when, rule done_after_cancel)
  fix s t assume "handling Solicited t"
  then show "done_quietly t (if FIN (GetControl (mBuffer a))
      then in_order [Channel_ChangeState Solicited ACS_Idle, call_user (User_OnFinalResponse a)]
      else in_order [IncrSequence Solicited, Channel_ChangeState Solicited ACS_WaitForFinalResponse,
        Al_StartTimer_of Solicited, call_user (User_OnPartialResponse a)])"
    using report_done [of Solicited t "User_OnFinalResponse a"] partial_done [of Solicited t a] by simp
qed (auto simp: response_expected_def state_sets split: if_splits)


subsection \<open>Receiving\<close>

lemma sound_Unsol [sound_intros]:
  assumes "mpAppHeader a \<noteq> None"
  shows "sound (Unsolicited_OnUnsol a)"
proof -
  have "Unsolicited_OnUnsol a = if_else (\<lambda>s. SEQ (GetControl (mBuffer a)) = ch_Sequence (chan Unsolicited s)) skip
      (in_order [CaptureSequence Unsolicited (SEQ (GetControl (mBuffer a))), call_user (User_OnUnsolResponse a)])"
    using assms by (auto simp: Unsolicited_OnUnsol_def with_value_def APDU_GetControl_def fun_eq_iff)
  then show ?thesis using control_SEQ by (auto intro!: sound_intros)
qed

lemma sound_OnRequest [sound_intros]:
  assumes "mpAppHeader a \<noteq> None"
  shows "sound (Solicited_OnRequest a)"
proof -
  have "Solicited_OnRequest a = reading (\<lambda>s.
      let sq = (if SEQ (GetControl (mBuffer a)) = ch_Sequence (chan Solicited s) then SI_PREV
                else if SEQ (GetControl (mBuffer a)) = NextSeq (ch_Sequence (chan Solicited s)) then SI_CORRECT
                else SI_OTHER)
      in in_order [CaptureSequence Solicited (SEQ (GetControl (mBuffer a))), call_user (User_OnRequest a sq)])"
    using assms by (auto simp: Solicited_OnRequest_def with_value_def APDU_GetControl_def fun_eq_iff)
  then show ?thesis using control_SEQ by (auto simp: Let_def intro!: sound_intros sound_reading)
qed

text \<open>What \<open>_OnReceive\<close> does with the parsed fragment \<open>a\<close>.\<close>

definition dispatched :: "APDU \<Rightarrow> AppLayer handler" where
  "dispatched a =
     (let ctrl = GetControl (mBuffer a); func = GetFunction (mBuffer a) in
      if func = FC_CONFIRM then
        if_else (\<lambda>s. UNS ctrl)
          (in_order [with_value IsMaster (\<lambda>m. throw_if (\<lambda>s. m) (Exception ALERR_UNEXPECTED_CONFIRM)),
            reading (\<lambda>s. ACS_OnConfirm (ch_State (chan Unsolicited s)) Unsolicited (SEQ ctrl))])
          (reading (\<lambda>s. ACS_OnConfirm (ch_State (chan Solicited s)) Solicited (SEQ ctrl)))
      else if func = FC_RESPONSE then Al_OnResponse ctrl a
      else if func = FC_UNSOLICITED_RESPONSE then Al_OnUnsolResponse ctrl a
      else Al_OnRequest ctrl a)"

lemma sound_dispatched:
  assumes "mpAppHeader a \<noteq> None"
  shows "sound (dispatched a)"
  using assms control_SEQ [of "mBuffer a"]
  by (auto simp: dispatched_def Let_def Al_OnResponse_def Al_OnUnsolResponse_def Al_OnRequest_def intro!: sound_intros
      simp del: chan.simps)

lemma sound_OnUnknownObject: "sound (Al_OnUnknownObject func (GetControl d))"
  using control_SEQ [of d] by (auto simp: Al_OnUnknownObject_def intro!: sound_intros)

lemma Dispatch_runs:
  assumes "mpAppHeader a \<noteq> None" and "mIsInterpreted a"
  shows "Al_Dispatch (s\<lparr>al_Incoming := a\<rparr>) = dispatched a (s\<lparr>al_Incoming := a\<rparr>)"
proof -
  let ?s = "s\<lparr>al_Incoming := a\<rparr>"
  have "on_incoming Interpret ?s = (None, ?s)" using assms(2) by (simp add: on_incoming_def Interpret_def handler_simps)
  then have "Al_OnConfirm ctrl ?s =
      if_else (\<lambda>s. UNS ctrl)
        (in_order [with_value IsMaster (\<lambda>m. throw_if (\<lambda>s. m) (Exception ALERR_UNEXPECTED_CONFIRM)),
          reading (\<lambda>s. ACS_OnConfirm (ch_State (chan Unsolicited s)) Unsolicited (SEQ ctrl))])
        (reading (\<lambda>s. ACS_OnConfirm (ch_State (chan Solicited s)) Solicited (SEQ ctrl))) ?s" for ctrl
    by (simp add: Al_OnConfirm_def)
  then show ?thesis using assms(1)
    by (auto simp: Al_Dispatch_def dispatched_def with_value_def reading_def APDU_GetFunction_def APDU_GetControl_def Let_def)
qed

lemma Interpret_result:
  assumes "received a"
  shows "(\<exists>b. Interpret a = (None, b) \<and> mpAppHeader b \<noteq> None \<and> mIsInterpreted b) \<or>
    (\<exists>e b. Interpret a = (Some e, b) \<and> e \<noteq> AssertionFailed \<and> (e = ObjectException \<longrightarrow> mpAppHeader b \<noteq> None))"
proof (cases "ParseHeader a")
  case (Inl e)
  then show ?thesis using Interpret_received [OF assms] by (auto simp: ParseHeader_def split: if_splits)
next
  case (Inr h)
  obtain r b where loop: "ReadHeaders (AppHeader_GetSize h) (mFragmentSize a - AppHeader_GetSize h) (a\<lparr>mpAppHeader := Some h\<rparr>) = (r, b)"
    by (cases "ReadHeaders (AppHeader_GetSize h) (mFragmentSize a - AppHeader_GetSize h) (a\<lparr>mpAppHeader := Some h\<rparr>)")
  note run = Interpret_received [OF assms, unfolded Inr sum.case loop]
  show ?thesis
  proof (cases r)
    case None
    obtain h' his where "b\<lparr>mIsInterpreted := True\<rparr> = a\<lparr>mpAppHeader := Some h', mObjectHeaders := his, mIsInterpreted := True\<rparr>"
      by (rule Interpret_accepts [OF assms]) (use run None in auto)
    then show ?thesis using run None by simp
  next
    case (Some e)
    from ReadHeaders_exceptions [OF loop [unfolded Some] received_function [OF assms]]
    show ?thesis using run Some by (auto simp: parser_exceptions_def)
  qed
qed

lemma Receive_parses:
  obtains (parsed) a where "mpAppHeader a \<noteq> None" "mIsInterpreted a"
      "in_order [on_incoming (APDU_Write d), on_incoming Interpret, Al_Dispatch] s = dispatched a (s\<lparr>al_Incoming := a\<rparr>)"
  | (refused) e a where "e \<noteq> AssertionFailed" "e = ObjectException \<longrightarrow> mpAppHeader a \<noteq> None"
      "in_order [on_incoming (APDU_Write d), on_incoming Interpret, Al_Dispatch] s = (Some e, s\<lparr>al_Incoming := a\<rparr>)"
proof (cases "APDU_Write d (al_Incoming s)")
  case (Pair r a)
  show thesis
  proof (cases r)
    case (Some e)
    with Pair have "e = ArgumentException" by (auto simp: APDU_Write_def handler_simps split: if_splits)
    then show thesis using Some Pair by (intro refused [of e a]) (simp_all add: on_incoming_def)
  next
    case None
    with Pair have w: "APDU_Write d (al_Incoming s) = (None, a)" by simp
    have "received a" using APDU_Write_received [OF w] by blast
    from Interpret_result [OF this] show thesis
    proof (elim disjE exE conjE)
      fix b assume b: "Interpret a = (None, b)" "mpAppHeader b \<noteq> None" "mIsInterpreted b"
      show thesis by (rule parsed [OF b(2,3)]) (use w b(1) Dispatch_runs [OF b(2,3)] in \<open>simp add: on_incoming_def\<close>)
    next
      fix e b assume b: "Interpret a = (Some e, b)" "e \<noteq> AssertionFailed" "e = ObjectException \<longrightarrow> mpAppHeader b \<noteq> None"
      show thesis by (rule refused [OF b(2,3)]) (use w b(1) in \<open>simp add: on_incoming_def\<close>)
    qed
  qed
qed

lemma incoming_only [simp]:
  "app_inv (s\<lparr>al_Incoming := a\<rparr>) \<longleftrightarrow> app_inv s" "quiet (s\<lparr>al_Incoming := a\<rparr>) t \<longleftrightarrow> quiet s t"
  "quiet t (s\<lparr>al_Incoming := a\<rparr>) \<longleftrightarrow> quiet t s"
  by (simp_all add: app_inv_def links_ok_def queue_ok_def quiet_def counting frames_def)

lemma receive_step:
  assumes "app_inv s" and "al_IsLowerLayerUp s"
  shows "\<exists>s'. Al_OnReceive d s = (None, s') \<and> app_inv s' \<and> quiet s s'"
proof (cases rule: Receive_parses [of d s])
  case (parsed a)
  obtain r s' where s': "dispatched a (s\<lparr>al_Incoming := a\<rparr>) = (r, s')" "swallowed r" "app_inv s'" "quiet s s'"
    by (rule soundD [OF sound_dispatched [OF parsed(1)], of "s\<lparr>al_Incoming := a\<rparr>"]) (use assms in simp_all)
  then show ?thesis using assms(2) parsed(3)
    by (cases r) (auto simp: Al_OnReceive_def try_catch_def throw_if_def Al_Catch_def swallowed_def skip_def)
next
  case (refused e a)
  show ?thesis
  proof (cases "e = ObjectException")
    case True
    have cat: "Al_Catch e (s\<lparr>al_Incoming := a\<rparr>) =
        Al_OnUnknownObject (GetFunction (mBuffer a)) (GetControl (mBuffer a)) (s\<lparr>al_Incoming := a\<rparr>)"
      using refused True by (auto simp: Al_Catch_def with_value_def APDU_GetFunction_def APDU_GetControl_def)
    have none: "fst (Al_OnUnknownObject func ctrl t) = None" if "app_inv t" "al_IsLowerLayerUp t" for func ctrl t
      using that by (auto simp: Al_OnUnknownObject_def handler_simps IsMaster_def app_inv_def links_ok_def)
    obtain r s' where res: "Al_OnUnknownObject (GetFunction (mBuffer a)) (GetControl (mBuffer a)) (s\<lparr>al_Incoming := a\<rparr>) = (r, s')"
        "app_inv s'" "quiet s s'"
      by (rule soundD [OF sound_OnUnknownObject, of "s\<lparr>al_Incoming := a\<rparr>"]) (use assms in simp_all)
    have "fst (r, s') = None" unfolding res(1) [symmetric] by (rule none) (use assms in simp_all)
    with cat res refused(3) assms show ?thesis
      by (auto simp: Al_OnReceive_def try_catch_def throw_if_def)
  next
    case False
    then show ?thesis using refused assms
      by (auto simp: Al_OnReceive_def try_catch_def throw_if_def Al_Catch_def skip_def)
  qed
qed


subsection \<open>Completed sends and timeouts\<close>

lemma send_result_step:
  assumes inv: "app_inv s" and sending: "al_Sending s"
  shows "\<exists>s'. Al_OnSendResult ok s = (None, s') \<and> app_inv s' \<and> quiet s s'"
proof -
  obtain a q where q: "al_SendQueue s = a # q" using inv_sending [OF inv] sending by (cases "al_SendQueue s") auto
  then have up: "al_IsLowerLayerUp s" using inv_busy_up [OF inv] by auto
  have a: "ready_to_send a" "APDU_GetFunction a = Inr (GetFunction (mBuffer a))"
    using inv q by (auto simp: app_inv_def queue_ok_def ready_to_send_def APDU_GetFunction_def)
  note hd = inv_handled [OF inv up]
  have fr: "frames s = frame_of (mBuffer a) # map (frame_of \<circ> mBuffer) q" using q by (simp add: frames_def)
  let ?t = "s\<lparr>al_Sending := False, al_SendQueue := q\<rparr>"
  have fr': "frames ?t = map (frame_of \<circ> mBuffer) q" by (simp add: frames_def)
  show ?thesis
  proof (cases "frame_of (mBuffer a)")
    case None
    let ?u = "?t\<lparr>al_ConfirmSending := False\<rparr>"
    have "handled ?u" using hd fr None q
      by (auto simp: handled_def core_inv_def frames_def channel_ok_def)
    from next_send_step [OF this] obtain s' where s': "Al_CheckForSend ?u = (None, s')" "app_inv s'" "quiet ?u s'" .
    have "quiet s ?u" using fr None sending by (simp add: quiet_def counting frames_def)
    moreover have "al_ConfirmSending s" using inv fr None by (simp add: app_inv_def queue_ok_def)
    then have "Al_OnSendResult ok s = Al_CheckForSend ?u"
      using sending q a None by (simp add: Al_OnSendResult_def handler_simps frame_of_None)
    ultimately show ?thesis using s' by (auto intro: quiet_trans)
  next
    case (Some c)
    then have c: "c = (if GetFunction (mBuffer a) = FC_UNSOLICITED_RESPONSE then Unsolicited else Solicited)"
      "GetFunction (mBuffer a) \<noteq> FC_CONFIRM" by (auto simp: frame_of_def split: if_splits)
    have st: "ch_State (chan c s) \<in> sending_states"
      using channel_ok_sending [OF inv_chan [OF inv]] fr Some by simp
    have "handling c ?t"
      using hd fr Some st inv_chan [OF inv, of c] q
      by (auto simp: handling_def handled_def core_inv_def frames_def busy_def channel_ok_def owned_def state_sets)
    then have "done_quietly ?t ((if ok then ACS_OnSendSuccess else ACS_OnSendFailure) (ch_State (chan c s)) c)"
      using st by (simp add: send_success_done send_failure_done)
    then obtain u where u: "(if ok then ACS_OnSendSuccess else ACS_OnSendFailure) (ch_State (chan c s)) c ?t = (None, u)"
        "handled u" "quiet ?t u" by (auto simp: done_quietly_def)
    from next_send_step [OF u(2)] obtain s' where s': "Al_CheckForSend u = (None, s')" "app_inv s'" "quiet u s'" .
    have "quiet s ?t" using fr sending by (auto simp: quiet_def counting frames_def)
    moreover have "Al_OnSendResult ok s = (None, s')"
      using sending q a c(2) u(1) s'(1) unfolding Al_OnSendResult_def
      by (simp add: handler_simps c(1) [symmetric] Let_def)
    ultimately show ?thesis using s' u by (auto intro: quiet_trans)
  qed
qed

lemma timeout_step:
  assumes inv: "app_inv s" and timer: "ch_Timer (chan c s)"
  shows "\<exists>s'. Channel_Timeout c s = (None, s') \<and> app_inv s' \<and> quiet s s'"
proof -
  have st: "ch_State (chan c s) \<in> waiting_states" using inv_chan [OF inv, of c] timer by (simp add: channel_ok_def)
  let ?t = "moved c ((chan c s)\<lparr>ch_Timer := False\<rparr>) [] s"
  have "handling c ?t" "quiet s ?t" by (rule timer_off_handling [OF inv st]; simp)+
  moreover have "al_Sending ?t \<longleftrightarrow> al_SendQueue ?t \<noteq> []" using inv_sending [OF inv] by (simp add: moved_def)
  moreover have "Channel_Timeout c s = ACS_OnTimeout (ch_State (chan c s)) c ?t"
    by (cases c) (simp_all add: Channel_Timeout_def handler_simps moved_def)
  ultimately show ?thesis using timeout_done [OF _ st, of c ?t] by (auto simp: done_quietly_def intro: quiet_trans)
qed


subsection \<open>Starting a transaction\<close>

definition started :: "channel \<Rightarrow> int \<Rightarrow> ACS \<Rightarrow> nat \<Rightarrow> APDU \<Rightarrow> AppLayer \<Rightarrow> AppLayer" where
  "started c q st n a s =
     chan_update c (\<lambda>ch. ch\<lparr>ch_Sequence := q, ch_State := st, ch_NumRetry := n, ch_SendAPDU := Some a\<rparr>)
       (s\<lparr>al_Argument := a, al_SendQueue := al_SendQueue s @ [a], al_Sending := True,
          al_out := al_out s @ (if al_Sending s then [] else [Al_Lower_Send (written a)])\<rparr>)"

lemma started_step:
  assumes inv: "app_inv s" and up: "al_IsLowerLayerUp s" and idle: "\<not> busy c s" and a: "ready_to_send a"
    and fr: "frame_of (mBuffer a) = Some c" and q: "0 \<le> q" "q \<le> 15" and st: "st \<in> sending_states"
  shows "app_inv (started c q st n a s)" and "balanced d (c = d) False (if c = d then Suc n else 0) s (started c q st n a s)"
proof -
  have new: "Some c \<notin> set (frames s)" "\<not> ch_Timer (chan c s)"
    using inv_chan [OF inv, of c] idle by (auto simp: channel_ok_def busy_def)
  have st': "st \<noteq> ACS_Idle" "st \<notin> waiting_states" using st by (auto simp: state_sets)
  show "app_inv (started c q st n a s)"
    using inv up a fr q st st' new
    by (auto simp: app_inv_def links_ok_def queue_ok_def started_def channel_ok_def frames_def)
  show "balanced d (c = d) False (if c = d then Suc n else 0) s (started c q st n a s)"
    using inv_sending [OF inv] a fr st' new idle
    by (auto simp: counting started_def frames_def frame_of_written)
qed

lemma stopped_step:
  assumes "app_inv s" and "-1 \<le> q" and "q \<le> 15" and "\<not> busy c s"
  shows "app_inv (chan_update c (\<lambda>ch. ch\<lparr>ch_Sequence := q\<rparr>) (s\<lparr>al_Argument := a\<rparr>)) \<and>
    quiet s (chan_update c (\<lambda>ch. ch\<lparr>ch_Sequence := q\<rparr>) (s\<lparr>al_Argument := a\<rparr>))"
  using assms by (auto simp: app_inv_def links_ok_def queue_ok_def channel_ok_def quiet_def counting frames_def)

definition stamped :: "APDU \<Rightarrow> int \<Rightarrow> APDU" where
  "stamped a q = a\<lparr>mBuffer := SetControl (mBuffer a) ((GetControl (mBuffer a))\<lparr>SEQ := q\<rparr>)\<rparr>"

definition next_sequence :: "channel \<Rightarrow> APDU \<Rightarrow> AppLayer \<Rightarrow> int" where
  "next_sequence c a s = (if FIR (GetControl (mBuffer a)) \<and> GetFunction (mBuffer a) = FC_RESPONSE
     then ch_Sequence (chan c s) else NextSeq (ch_Sequence (chan c s)))"

lemma stamped_keeps [simp]:
  "ready_to_send (stamped a q) = ready_to_send a" "frame_of (mBuffer (stamped a q)) = frame_of (mBuffer a)"
  "GetFunction (mBuffer (stamped a q)) = GetFunction (mBuffer a)"
  by (simp_all add: stamped_def ready_to_send_def)

lemma chan_update_twice [simp]: "chan_update c f (chan_update c g s) = chan_update c (\<lambda>ch. f (g ch)) s"
  by (cases c) simp_all

lemma chan_update_id: "(\<And>ch. ch = chan c s \<Longrightarrow> f ch = ch) \<Longrightarrow> chan_update c f s = s"
  by (cases c) simp_all

lemma chan_update_cong: "f (chan c s) = g (chan c s) \<Longrightarrow> chan_update c f s = chan_update c g s"
  by (cases c) simp_all

lemma Idle_Send_runs:
  assumes "al_LowerLayer s" and "al_Sending s \<longleftrightarrow> al_SendQueue s \<noteq> []" and "ready_to_send (al_Argument s)"
    and "ch_State (chan c s) = ACS_Idle"
  shows "Channel_Send c n s =
    (let a = al_Argument s; q = next_sequence c a s;
         t = chan_update c (\<lambda>ch. ch\<lparr>ch_Sequence := q\<rparr>) (s\<lparr>al_Argument := stamped a q\<rparr>)
     in case NextState c (GetFunction (mBuffer a)) (CON (GetControl (mBuffer a))) t of
          Inl e \<Rightarrow> (Some e, t)
        | Inr st \<Rightarrow> (None, started c q st n (stamped a q) s))"
proof -
  obtain h where h: "mpAppHeader (al_Argument s) = Some h" using assms(3) by (auto simp: ready_to_send_def)
  define a q where "a = al_Argument s" and "q = next_sequence c a s"
  define t where "t = chan_update c (\<lambda>ch. ch\<lparr>ch_Sequence := q\<rparr>) (s\<lparr>al_Argument := stamped a q\<rparr>)"
  have getters: "APDU_GetControl (al_Argument s) = Inr (GetControl (mBuffer a))"
      "APDU_GetFunction (al_Argument s) = Inr (GetFunction (mBuffer a))"
      "APDU_GetFunction (stamped a q) = Inr (GetFunction (mBuffer a))"
    using h by (simp_all add: APDU_GetControl_def APDU_GetFunction_def a_def stamped_def)
  have stamp: "in_order [if_else (\<lambda>s. FIR (GetControl (mBuffer a)) \<and> GetFunction (mBuffer a) = FC_RESPONSE) skip (IncrSequence c),
      reading (\<lambda>s. on_argument (APDU_SetControl ((GetControl (mBuffer a))\<lparr>SEQ := ch_Sequence (chan c s)\<rparr>)))] s = (None, t)"
    using h by (cases c) (auto simp: handler_simps APDU_SetControl_def t_def q_def next_sequence_def stamped_def a_def)
  have "Idle_Send c n s =
      in_order ([if_else (\<lambda>s. FIR (GetControl (mBuffer a)) \<and> GetFunction (mBuffer a) = FC_RESPONSE) skip (IncrSequence c),
        reading (\<lambda>s. on_argument (APDU_SetControl ((GetControl (mBuffer a))\<lparr>SEQ := ch_Sequence (chan c s)\<rparr>)))] @
       [with_value (\<lambda>s. APDU_GetFunction (al_Argument s)) (\<lambda>f.
          with_value (NextState c f (CON (GetControl (mBuffer a)))) (Channel_ChangeState c)),
        SetRetry c n, reading (\<lambda>s. QueueFrame (al_Argument s))]) s"
    by (simp add: Idle_Send_def with_value_def getters)
  also have "\<dots> = in_order [with_value (\<lambda>s. APDU_GetFunction (al_Argument s)) (\<lambda>f.
          with_value (NextState c f (CON (GetControl (mBuffer a)))) (Channel_ChangeState c)),
        SetRetry c n, reading (\<lambda>s. QueueFrame (al_Argument s))] t"
    by (simp only: in_order_append stamp prod.case option.case)
  also have "\<dots> = (case NextState c (GetFunction (mBuffer a)) (CON (GetControl (mBuffer a))) t of
          Inl e \<Rightarrow> (Some e, t)
        | Inr st \<Rightarrow> QueueFrame (stamped a q) (chan_update c (\<lambda>ch. ch\<lparr>ch_State := st, ch_NumRetry := n\<rparr>) t))"
    using getters(3) by (cases "NextState c (GetFunction (mBuffer a)) (CON (GetControl (mBuffer a))) t")
      (simp_all add: handler_simps t_def)
  finally have idle: "Idle_Send c n s = \<dots>" .
  have "Channel_Send c n s = (case NextState c (GetFunction (mBuffer a)) (CON (GetControl (mBuffer a))) t of
          Inl e \<Rightarrow> (Some e, t)
        | Inr st \<Rightarrow> (None, started c q st n (stamped a q) s))"
    using assms(1,2,4) idle
    by (cases c; cases "NextState c (GetFunction (mBuffer a)) (CON (GetControl (mBuffer a))) t")
      (auto simp: Channel_Send_def reading_def QueueFrame_runs on_channel_def modify_def started_def t_def)
  then show ?thesis unfolding Let_def a_def [symmetric] q_def [symmetric] t_def [symmetric] .
qed


lemma argument_only [simp]:
  "app_inv (s\<lparr>al_Argument := a\<rparr>) \<longleftrightarrow> app_inv s" "quiet s (s\<lparr>al_Argument := a\<rparr>)"
  "balanced c b ab n (s\<lparr>al_Argument := a\<rparr>) t \<longleftrightarrow> balanced c b ab n s t" "busy c (s\<lparr>al_Argument := a\<rparr>) = busy c s"
  "GetRetries f (s\<lparr>al_Argument := a\<rparr>) = GetRetries f s"
  by (simp_all add: app_inv_def links_ok_def queue_ok_def quiet_def counting frames_def GetRetries_def)

definition step_ok :: "channel option \<Rightarrow> nat \<Rightarrow> bool \<Rightarrow> AppLayer \<Rightarrow> exn option \<times> AppLayer \<Rightarrow> bool" where
  "step_ok who n down s res \<longleftrightarrow> (case res of (r, s') \<Rightarrow> app_inv s' \<and> r \<noteq> Some AssertionFailed \<and>
     (\<forall>c. balanced c (r = None \<and> who = Some c) (down \<and> busy c s) (if r = None \<and> who = Some c then Suc n else 0) s s'))"

lemma step_ok_quiet: "app_inv s' \<Longrightarrow> quiet s s' \<Longrightarrow> step_ok None n False s (r, s') \<longleftrightarrow> r \<noteq> Some AssertionFailed"
  by (simp add: step_ok_def quiet_def)

lemma step_ok_refused: "app_inv s' \<Longrightarrow> quiet s s' \<Longrightarrow> e \<noteq> AssertionFailed \<Longrightarrow> step_ok who n False s (Some e, s')"
  by (simp add: step_ok_def quiet_def)

lemma next_sequence_range:
  assumes "app_inv s"
  shows "-1 \<le> next_sequence c a s" "next_sequence c a s \<le> 15"
    "\<not> (GetFunction (mBuffer a) = FC_RESPONSE \<and> next_sequence c a s < 0) \<Longrightarrow> 0 \<le> next_sequence c a s"
  using inv_chan [OF assms, of c] smod_seq [of "ch_Sequence (chan c s)"]
  by (auto simp: channel_ok_def next_sequence_def)

lemma NextState_result:
  "NextState c f con s = Inr st \<Longrightarrow> st \<in> sending_states \<and> \<not> (f = FC_RESPONSE \<and> ch_Sequence (chan c s) < 0)"
  "NextState c f con s = Inl e \<Longrightarrow> e \<noteq> AssertionFailed"
  by (auto simp: NextState_def state_sets split: if_splits)

lemma Channel_Send_ok:
  assumes inv: "app_inv s" and up: "al_IsLowerLayerUp s" and a: "ready_to_send (al_Argument s)"
    and fr: "frame_of (mBuffer (al_Argument s)) = Some c"
  shows "step_ok (Some c) n False s (Channel_Send c n s)"
proof (cases "busy c s")
  case True
  then have "Channel_Send c n s = (Some InvalidStateException, s)"
    by (cases "ch_State (chan c s)") (simp_all add: Channel_Send_def handler_simps busy_def)
  then show ?thesis using inv by (simp add: step_ok_refused)
next
  case idle: False
  define a q where "a = al_Argument s" and "q = next_sequence c a s"
  define t where "t = chan_update c (\<lambda>ch. ch\<lparr>ch_Sequence := q\<rparr>) (s\<lparr>al_Argument := stamped a q\<rparr>)"
  have lower: "al_LowerLayer s" using inv up by (simp add: app_inv_def links_ok_def)
  have run: "Channel_Send c n s = (case NextState c (GetFunction (mBuffer a)) (CON (GetControl (mBuffer a))) t of
          Inl e \<Rightarrow> (Some e, t) | Inr st \<Rightarrow> (None, started c q st n (stamped a q) s))"
    using Idle_Send_runs [OF lower inv_sending [OF inv] assms(3), of c n] idle
    unfolding Let_def a_def [symmetric] q_def [symmetric] t_def [symmetric] by (simp add: busy_def)
  note range = next_sequence_range [OF inv, where c = c and a = a, folded q_def]
  show ?thesis
  proof (cases "NextState c (GetFunction (mBuffer a)) (CON (GetControl (mBuffer a))) t")
    case (Inl e)
    have "app_inv t \<and> quiet s t" unfolding t_def by (rule stopped_step) (use inv range idle in simp_all)
    then show ?thesis unfolding run Inl sum.case using NextState_result(2) [OF Inl] by (simp add: step_ok_refused)
  next
    case (Inr st)
    have "ch_Sequence (chan c t) = q" by (simp add: t_def)
    with NextState_result(1) [OF Inr] have st: "st \<in> sending_states" "\<not> (GetFunction (mBuffer a) = FC_RESPONSE \<and> q < 0)"
      by auto
    note ok = started_step [OF inv up idle _ _ range(3) [OF st(2)] range(2) st(1), where a = "stamped a q" and n = n]
    have "ready_to_send (stamped a q)" "frame_of (mBuffer (stamped a q)) = Some c" using assms(3) fr by (simp_all add: a_def)
    note ok = ok [OF this]
    show ?thesis unfolding run Inr sum.case step_ok_def prod.case using ok by simp
  qed
qed

definition send_argument :: "AppEvent \<Rightarrow> APDU option" where
  "send_argument e = (case e of Ev_SendResponse a \<Rightarrow> Some a | Ev_SendRequest a \<Rightarrow> Some a
     | Ev_SendUnsolicited a \<Rightarrow> Some a | _ \<Rightarrow> None)"

lemma send_cases:
  assumes "event_channel e = Some c" and "app_possible s e"
  obtains (refused) a ex where "app_handle e s = (Some ex, s\<lparr>al_Argument := a\<rparr>)" "ex \<noteq> AssertionFailed"
  | (sent) a where "app_handle e s = Channel_Send c (GetRetries (event_function e) s) (s\<lparr>al_Argument := a\<rparr>)"
      "send_argument e = Some a" "al_IsLowerLayerUp s" "ready_to_send a" "frame_of (mBuffer a) = Some c"
proof -
  have validate: "\<exists>r. Al_Validate ctrl ma fir con uns t = (r, t) \<and> r \<noteq> Some AssertionFailed \<and> (r = None \<longrightarrow> al_IsLowerLayerUp t)"
    if "al_User t \<noteq> None" for ctrl ma fir con uns t
    using that by (auto simp: Al_Validate_def handler_simps IsMaster_def)
  obtain a where a: "send_argument e = Some a" and sa: "ready_to_send a" and user: "al_User s \<noteq> None"
    using assms by (cases e) (auto simp: app_possible_def event_channel_def send_argument_def)
  let ?s = "s\<lparr>al_Argument := a\<rparr>"
  have get: "APDU_GetControl a = Inr (GetControl (mBuffer a))" "APDU_GetFunction a = Inr (GetFunction (mBuffer a))"
    using sa by (auto simp: ready_to_send_def APDU_GetControl_def APDU_GetFunction_def)
  define ma where "ma = (case e of Ev_SendRequest a \<Rightarrow> True | _ \<Rightarrow> False)"
  define fir where "fir = (case e of Ev_SendResponse a \<Rightarrow> False | _ \<Rightarrow> True)"
  define uns where "uns = (case e of Ev_SendUnsolicited a \<Rightarrow> True | _ \<Rightarrow> False)"
  define bad where "bad = (case e of Ev_SendResponse a \<Rightarrow> GetFunction (mBuffer a) \<noteq> FC_RESPONSE
     | Ev_SendUnsolicited a \<Rightarrow> GetFunction (mBuffer a) \<noteq> FC_UNSOLICITED_RESPONSE | _ \<Rightarrow> \<not> IsRequest (GetFunction (mBuffer a)))"
  obtain r where r: "Al_Validate (GetControl (mBuffer a)) ma fir (\<not> ma) uns ?s = (r, ?s)" "r \<noteq> Some AssertionFailed"
      "r = None \<longrightarrow> al_IsLowerLayerUp s"
    using validate [of ?s "GetControl (mBuffer a)" ma fir "\<not> ma" uns] user by auto
  have run: "app_handle e s = (case r of Some ex \<Rightarrow> (Some ex, ?s) | None \<Rightarrow>
      if bad then (Some ArgumentException, ?s) else Channel_Send c (GetRetries (event_function e) s) ?s)"
    using assms(1) a get r(1)
    by (cases e; cases r) (auto simp: event_channel_def send_argument_def SendResponse_def SendRequest_def SendUnsolicited_def
        handler_simps ma_def fir_def uns_def bad_def event_function_def)
  show thesis
  proof (cases r)
    case (Some ex)
    then show thesis using run r(2) by (intro refused [of ex a]) simp_all
  next
    case None
    show thesis
    proof (cases bad)
      case True
      then show thesis using run None by (intro refused [of ArgumentException a]) simp_all
    next
      case False
      then have "frame_of (mBuffer a) = Some c" using assms(1) a
        by (cases e) (auto simp: event_channel_def send_argument_def bad_def frame_of_def IsRequest_def)
      then show thesis using run None False r(3) a sa by (intro sent [of a]) simp_all
    qed
  qed
qed

lemma send_step:
  assumes inv: "app_inv s" and e: "event_channel e = Some c" and possible: "app_possible s e"
  shows "step_ok (Some c) (GetRetries (event_function e) s) False s (app_handle e s)"
proof (rule send_cases [OF e possible])
  fix a ex assume "app_handle e s = (Some ex, s\<lparr>al_Argument := a\<rparr>)" "ex \<noteq> AssertionFailed"
  then show ?thesis using inv by (simp add: step_ok_refused)
next
  fix a assume sent: "app_handle e s = Channel_Send c (GetRetries (event_function e) s) (s\<lparr>al_Argument := a\<rparr>)"
      "al_IsLowerLayerUp s" "ready_to_send a" "frame_of (mBuffer a) = Some c"
  have "step_ok (Some c) (GetRetries (event_function e) s) False (s\<lparr>al_Argument := a\<rparr>) (app_handle e s)"
    unfolding sent(1) by (rule Channel_Send_ok) (use inv sent in simp_all)
  then show ?thesis by (simp add: step_ok_def split: prod.split)
qed

subsection \<open>The other events\<close>

lemma reset_runs:
  "Channel_Reset c s = (None, chan_update c (\<lambda>ch. ch\<lparr>ch_State := ACS_Idle, ch_Confirming := False, ch_Sequence := -1, ch_Timer := False\<rparr>)
     (s\<lparr>al_out := al_out s @ (if ch_Timer (chan c s) then [Al_CancelTimer c] else [])\<rparr>))"
  by (cases c) (auto simp: Channel_Reset_def handler_simps)

lemma lower_down_step:
  assumes inv: "app_inv s" and up: "al_IsLowerLayerUp s"
  shows "step_ok None 0 True s (Al_OnLowerLayerDown s)"
proof -
  let ?off = "\<lambda>ch. ch\<lparr>ch_State := ACS_Idle, ch_Confirming := False, ch_Sequence := -1, ch_Timer := False\<rparr>"
  define xs where "xs = (if ch_Timer (al_Solicited s) then [Al_CancelTimer Solicited] else []) @
    (if ch_Timer (al_Unsolicited s) then [Al_CancelTimer Unsolicited] else []) @ [User_OnLowerLayerDown]"
  define t where "t = chan_update Unsolicited ?off (chan_update Solicited ?off
    (s\<lparr>al_IsLowerLayerUp := False, al_SendQueue := [], al_Sending := False, al_out := al_out s @ xs\<rparr>))"
  have user: "al_User s \<noteq> None" using assms by (simp add: app_inv_def links_ok_def)
  then have run: "Al_OnLowerLayerDown s = (None, t)"
    using up by (auto simp: Al_OnLowerLayerDown_def reset_runs handler_simps t_def xs_def)
  have ch: "chan c t = ?off (chan c s)" for c by (cases c) (simp_all add: t_def)
  have out: "filter (completes c) xs = []" "filter (transmits c) xs = []" for c by (simp_all add: xs_def)
  have fields: "al_SendQueue t = []" "\<not> al_Sending t" "\<not> al_IsLowerLayerUp t" "al_Confirm t = al_Confirm s"
    "al_out t = al_out s @ xs" by (simp_all add: t_def)
  have "app_inv t"
    using inv ch fields by (simp add: app_inv_def links_ok_def queue_ok_def channel_ok_def frames_def)
  then show ?thesis unfolding run step_ok_def
    using ch fields out by (simp add: counting)
qed

lemma canceled_step:
  assumes inv: "app_inv s" and st: "ch_State (chan c s) \<in> sending_states"
  shows "step_ok None 0 False s (Channel_ChangeState c ACS_SendCanceled s)"
proof -
  let ?t = "chan_update c (\<lambda>ch. ch\<lparr>ch_State := ACS_SendCanceled\<rparr>) s"
  have new: "ACS_SendCanceled \<in> sending_states" "ACS_SendCanceled \<notin> waiting_states" by (simp_all add: state_sets)
  have old: "ch_State (chan c s) \<notin> waiting_states" "ch_State (chan c s) \<noteq> ACS_Idle"
    using st by (auto simp: state_sets)
  have "channel_ok d (frames s) (chan d ?t)" for d
    using inv_chan [OF inv, of d] st old new by (cases "d = c") (simp_all add: channel_ok_def)
  moreover have "links_ok ?t" using inv old by (auto simp: app_inv_def links_ok_def split: if_splits)
  ultimately have "app_inv ?t" using inv by (simp add: app_inv_def queue_ok_def)
  moreover have "quiet s ?t" using old by (simp add: quiet_def counting)
  ultimately show ?thesis by (simp add: Channel_ChangeState_def on_channel_def modify_def step_ok_quiet)
qed

lemma cancel_response_step:
  assumes inv: "app_inv s" and user: "al_User s \<noteq> None"
  shows "step_ok None 0 False s (CancelResponse s)"
proof -
  let ?c = Solicited
  have run: "CancelResponse s = ACS_Cancel (ch_State (chan ?c s)) ?c s"
    by (simp add: CancelResponse_def reading_def)
  have stay: "step_ok None 0 False s (r, s)" if "r \<noteq> Some AssertionFailed" for r
    using inv that by (simp add: step_ok_quiet)
  note canceled = canceled_step [OF inv, where c = ?c]
  show ?thesis
  proof (cases "ch_State (chan ?c s) = ACS_WaitForConfirm")
    case True
    have wait: "ch_State (chan ?c s) \<in> waiting_states" using True by (simp add: state_sets)
    have "ch_Timer (al_Solicited s)" using inv_chan [OF inv, of ?c] wait by (simp add: channel_ok_def)
    then have same: "in_order [Channel_ChangeState ?c ACS_Idle, Al_CancelTimer_of ?c, Channel_DoFailure ?c] s =
        in_order [Al_CancelTimer_of ?c, to_idle ?c Channel_DoFailure] s"
      using user by (simp add: handler_simps)
    have "\<exists>s'. in_order [Al_CancelTimer_of ?c, to_idle ?c Channel_DoFailure] s = (None, s') \<and> app_inv s' \<and> al_IsLowerLayerUp s' \<and> quiet s s'"
      by (rule done_after_cancel [OF inv wait]) (rule to_idle_done)
    then show ?thesis unfolding run True ACS_Cancel.simps same by (auto simp: step_ok_quiet)
  next
    case False
    then show ?thesis unfolding run using stay canceled
      by (cases "ch_State (chan ?c s)") (simp_all add: ThrowInvalidState_def throw_def skip_def state_sets)
  qed
qed

lemma SetUser_step: "app_inv s \<Longrightarrow> al_User s = None \<Longrightarrow> step_ok None 0 False s (Al_SetUser m s)"
  by (simp add: step_ok_def Al_SetUser_def handler_simps app_inv_def links_ok_def queue_ok_def frames_def counting)

lemma SetLowerLayer_step: "app_inv s \<Longrightarrow> step_ok None 0 False s (Al_SetLowerLayer s)"
  by (simp add: step_ok_def Al_SetLowerLayer_def handler_simps app_inv_def links_ok_def queue_ok_def frames_def counting)

lemma LowerLayerUp_step:
  assumes "app_inv s" and "al_User s \<noteq> None" and "al_LowerLayer s" and "\<not> al_IsLowerLayerUp s"
  shows "step_ok None 0 False s (Al_OnLowerLayerUp s)"
  using assms by (auto simp: step_ok_def Al_OnLowerLayerUp_def handler_simps app_inv_def links_ok_def queue_ok_def frames_def counting)

lemma CancelRetries_step:
  assumes inv: "app_inv s"
  shows "step_ok None 0 False s (Channel_CancelRetries c s)"
proof -
  let ?t = "chan_update c (\<lambda>ch. ch\<lparr>ch_NumRetry := 0\<rparr>) s"
  have "channel_ok d (frames s) (chan d ?t)" for d
    using inv_chan [OF inv, of d] by (cases "d = c") (simp_all add: channel_ok_def)
  moreover have "links_ok ?t" using inv by (simp add: app_inv_def links_ok_def)
  ultimately have "app_inv ?t" using inv by (simp add: app_inv_def queue_ok_def)
  moreover have "quiet s ?t" by (simp add: quiet_def counting)
  ultimately show ?thesis
    by (simp add: Channel_CancelRetries_def on_channel_def modify_def step_ok_quiet)
qed

definition event_retries :: "AppLayer \<Rightarrow> AppEvent \<Rightarrow> nat" where
  "event_retries s e = GetRetries (event_function e) s"

lemma app_step:
  assumes inv: "app_inv s" and possible: "app_possible s e"
  shows "step_ok (event_channel e) (event_retries s e) (e = Ev_LowerLayerDown) s (app_handle e s)"
proof (cases "event_channel e")
  case (Some c)
  then have "e \<noteq> Ev_LowerLayerDown" by (auto simp: event_channel_def)
  with send_step [OF inv Some possible] Some show ?thesis by (simp add: event_retries_def)
next
  case None
  have "step_ok None 0 (e = Ev_LowerLayerDown) s (app_handle e s)"
  proof (cases e)
    case (Ev_Receive d)
    with receive_step [OF inv, of d] possible show ?thesis by (auto simp: app_possible_def step_ok_quiet)
  next
    case (Ev_SendResult ok)
    with send_result_step [OF inv, of ok] possible show ?thesis by (auto simp: app_possible_def step_ok_quiet)
  next
    case (Ev_Timeout c)
    with timeout_step [OF inv, of c] possible show ?thesis by (auto simp: app_possible_def step_ok_quiet)
  qed (use None possible in \<open>simp_all add: event_channel_def app_possible_def inv lower_down_step cancel_response_step
      SetUser_step SetLowerLayer_step LowerLayerUp_step CancelRetries_step CancelUnsolicitedRetries_def\<close>)
  then show ?thesis by (simp add: None step_ok_def)
qed

end
