(* ===== verification/AppExchanges.thy ===== *)
theory AppExchanges
  imports AppTransactions
begin

text \<open>
  The properties of the application layer: the invariant of every reachable state, the books of
  its transactions and transmissions, and what becomes of the responses, unsolicited responses and
  confirmations it receives.
\<close>

lemma new_AppLayer_inv: "app_inv (new_AppLayer cfg)"
proof -
  have "replicate 2 0 = [0, 0 :: byte]" by (simp add: numeral_2_eq_2)
  then have "confirm_ok (al_Confirm (new_AppLayer cfg))"
    by (simp add: new_AppLayer_def new_APDU_def APDU_new_def APDU_SetFunction_def handler_simps confirm_ok_def
        ready_to_send_def frame_of_def GetFunction_def SetFunction_def IntToFunction_def)
  moreover have "chan c (new_AppLayer cfg) = new_AppLayerChannel" for c
    by (cases c) (simp_all add: new_AppLayer_def)
  ultimately show ?thesis
    by (simp add: app_inv_def links_ok_def queue_ok_def frames_def channel_ok_def new_AppLayerChannel_def)
      (simp add: new_AppLayer_def)
qed

lemma app_step_parts:
  assumes "app_inv s" and "app_possible s e"
  shows "app_inv (snd (app_handle e s))" and "fst (app_handle e s) \<noteq> Some AssertionFailed"
    and "balanced c (accepted c s e) (aborted c s e)
      (if accepted c s e then Suc (event_retries s e) else 0) s (snd (app_handle e s))"
proof -
  obtain r t where run: "app_handle e s = (r, t)" by (cases "app_handle e s")
  note ok = app_step [OF assms, unfolded run step_ok_def prod.case]
  show "app_inv (snd (app_handle e s))" "fst (app_handle e s) \<noteq> Some AssertionFailed" using ok run by simp_all
  from ok have "balanced c (r = None \<and> event_channel e = Some c) (e = Ev_LowerLayerDown \<and> busy c s)
      (if r = None \<and> event_channel e = Some c then Suc (event_retries s e) else 0) s t" by blast
  then show "balanced c (accepted c s e) (aborted c s e)
      (if accepted c s e then Suc (event_retries s e) else 0) s (snd (app_handle e s))"
    unfolding accepted_def aborted_def run fst_conv snd_conv by (simp only: conj_commute)
qed

interpretation app: assertion_free_machine app_handle app_possible app_start app_inv
  by unfold_locales
    (auto simp: app_start_def new_AppLayer_inv app_step_parts internal_error_def)

interpretation app_ledger: ledger_machine app_handle app_possible app_start app_inv "transaction_ends c"
  "\<lambda>s e. of_bool (accepted c s e)" "\<lambda>s e. of_bool (aborted c s e)" "\<lambda>s. of_bool (busy c s)" for c
  by unfold_locales (use app_step_parts(3) in \<open>auto simp: balanced_def\<close>)

interpretation app_budget: budget_machine app_handle app_possible app_start app_inv "transmissions c" "allowance c"
  "\<lambda>s e. if accepted c s e then Suc (event_retries s e) else 0" for c
  by unfold_locales (use app_step_parts(3) in \<open>auto simp: balanced_def\<close>)

text \<open>A session: a master whose read request fails to be sent, is sent again and answered.\<close>

definition example_request :: APDU where
  "example_request = snd (APDU_Set FC_READ True True False False 0 (new_APDU 5))"

definition example_session :: "AppEvent list" where
  "example_session = [Ev_SetLowerLayer, Ev_SetUser True, Ev_LowerLayerUp, Ev_SendRequest example_request,
     Ev_SendResult False, Ev_SendResult True, Ev_Receive [0xE0, 129, 0, 0]]"

definition example_config :: AppConfig where
  "example_config = \<lparr>cfg_NumRetry = 1, cfg_FragSize = 8\<rparr>"

lemma example_feasible: "feasible app_possible app_handle example_session (new_AppLayer example_config)"
  by code_simp

lemma run_reachable:
  "feasible app_possible app_handle es (new_AppLayer cfg) \<Longrightarrow>
   reachable app_handle app_possible app_start (run app_handle es (new_AppLayer cfg))"
  by (rule app.reachable_run [OF reachable_start]) (auto simp: app_start_def)

lemmas example_reachable = run_reachable [OF example_feasible]

section \<open>Invariant\<close>

text \<open>What the invariant says of a state, in the terms of the code.\<close>

definition app_orderly :: "AppLayer \<Rightarrow> bool" where
  "app_orderly s \<longleftrightarrow> (al_Sending s \<longleftrightarrow> al_SendQueue s \<noteq> []) \<and> length (al_SendQueue s) \<le> 3 \<and>
     (\<forall>c. (ch_Timer (chan c s) \<longleftrightarrow> ch_State (chan c s) \<in> waiting_states) \<and>
          (Some c \<in> set (frames s) \<longleftrightarrow> ch_State (chan c s) \<in> sending_states) \<and>
          -1 \<le> ch_Sequence (chan c s) \<and> ch_Sequence (chan c s) \<le> 15) \<and>
     (al_IsLowerLayerUp s \<or> al_SendQueue s = [] \<and> (\<forall>c. \<not> busy c s))"

lemma distinct_frames_length:
  assumes "distinct (xs :: channel option list)"
  shows "length xs \<le> 3"
proof -
  have "set xs \<subseteq> {None, Some Solicited, Some Unsolicited}" by (auto, metis channel.exhaust option.exhaust)
  then have "card (set xs) \<le> card {None, Some Solicited, Some Unsolicited}" by (intro card_mono) simp_all
  then show ?thesis using assms by (simp add: distinct_card)
qed

lemma app_inv_orderly: "app_inv s \<Longrightarrow> app_orderly s"
  using distinct_frames_length [of "frames s"]
  by (auto simp: app_inv_def app_orderly_def queue_ok_def channel_ok_def frames_def links_ok_def busy_def split: if_splits)

text \<open>The events of the user throw on misuse; those of the system never do.\<close>

definition system_event :: "AppEvent \<Rightarrow> bool" where
  "system_event e \<longleftrightarrow> event_channel e = None \<and> e \<noteq> Ev_CancelResponse"

lemma system_event_returns:
  assumes inv: "app_inv s" and possible: "app_possible s e" and "system_event e"
  shows "fst (app_handle e s) = None"
proof (cases e)
  case (Ev_Receive d)
  with receive_step [OF inv, of d] possible show ?thesis by (auto simp: app_possible_def)
next
  case (Ev_SendResult ok)
  with send_result_step [OF inv, of ok] possible show ?thesis by (auto simp: app_possible_def)
next
  case (Ev_Timeout c)
  with timeout_step [OF inv, of c] possible show ?thesis by (auto simp: app_possible_def)
next
  case Ev_LowerLayerDown
  with possible inv show ?thesis
    by (auto simp: app_possible_def Al_OnLowerLayerDown_def reset_runs handler_simps app_inv_def links_ok_def)
next
  case Ev_LowerLayerUp
  with possible show ?thesis by (auto simp: app_possible_def Al_OnLowerLayerUp_def handler_simps)
qed (use assms in \<open>simp_all add: system_event_def event_channel_def app_possible_def Al_SetUser_def Al_SetLowerLayer_def
    CancelUnsolicitedRetries_def Channel_CancelRetries_def handler_simps\<close>)

text \<open>C23: In every reachable state of the application layer a send is under way exactly while frames are queued,
  at most three are (one of each channel and one confirmation), a channel has a frame queued exactly in its sending
  states and its timer runs exactly in its waiting states, sequence numbers stay between -1 and
  15, and nothing is under way while the lower layer is down. No possible event fails an assertion or goes through
  a null pointer, and receptions, transaction_ends, timeouts and the lower layer's ups and downs never throw.\<close>

theorem application_layer_invariant:
  assumes "reachable app_handle app_possible app_start s" and "app_possible s e"
  shows "app_orderly s \<and> \<not> internal_error (fst (app_handle e s)) \<and>
    (system_event e \<longrightarrow> fst (app_handle e s) = None)"
  using app.reachable_inv [OF assms(1)] app.reachable_no_assertion [OF assms] app_inv_orderly system_event_returns assms(2)
  by blast

theorem application_layer_invariant_witness:
  "app_orderly (run app_handle example_session (new_AppLayer example_config)) \<and>
   fst (app_handle Ev_LowerLayerDown (run app_handle example_session (new_AppLayer example_config))) = None"
proof -
  have "app_possible (run app_handle example_session (new_AppLayer example_config)) Ev_LowerLayerDown" by code_simp
  from application_layer_invariant [OF example_reachable this] show ?thesis
    by (simp add: system_event_def event_channel_def)
qed

section \<open>Books\<close>

lemma run_from_start:
  assumes "feasible app_possible app_handle es (new_AppLayer cfg)"
  shows "transaction_ends c (new_AppLayer cfg) = 0" "\<not> busy c (new_AppLayer cfg)" "transmissions c (new_AppLayer cfg) = 0"
    "allowance c (new_AppLayer cfg) = 0"
proof -
  have "chan c (new_AppLayer cfg) = new_AppLayerChannel" by (cases c) (simp_all add: new_AppLayer_def)
  then show "transaction_ends c (new_AppLayer cfg) = 0" "\<not> busy c (new_AppLayer cfg)" "transmissions c (new_AppLayer cfg) = 0"
    "allowance c (new_AppLayer cfg) = 0"
    by (simp_all add: transaction_ends_def transmissions_def busy_def allowance_def new_AppLayerChannel_def)
      (simp_all add: new_AppLayer_def)
qed

text \<open>C4: Every transaction ends exactly once. Whatever happens to a new application layer, the accepted send
  calls of a channel are as many as the reports of their end to the user (success, failure or final
  response), the transactions a lower layer going down cut short, and the one that may still be open.\<close>

theorem transactions_end_exactly_once:
  assumes "feasible app_possible app_handle es (new_AppLayer cfg)"
  shows "total (\<lambda>s e. of_bool (accepted c s e)) app_handle es (new_AppLayer cfg) =
    transaction_ends c (run app_handle es (new_AppLayer cfg)) +
    total (\<lambda>s e. of_bool (aborted c s e)) app_handle es (new_AppLayer cfg) +
    of_bool (busy c (run app_handle es (new_AppLayer cfg)))"
  using app_ledger.books_run [OF new_AppLayer_inv assms, of c] run_from_start [OF assms, of c] by simp

theorem transactions_end_exactly_once_witness:
  "transaction_ends Solicited (run app_handle example_session (new_AppLayer example_config)) = 1"
proof -
  have "total (\<lambda>s e. of_bool (accepted Solicited s e)) app_handle example_session (new_AppLayer example_config) = 1"
    "\<not> busy Solicited (run app_handle example_session (new_AppLayer example_config))"
    "total (\<lambda>s e. of_bool (aborted Solicited s e)) app_handle example_session (new_AppLayer example_config) = 0"
    by code_simp+
  with transactions_end_exactly_once [OF example_feasible, of Solicited] show ?thesis by simp
qed

text \<open>C25: Retries are bounded. Whatever happens to a new application layer, the frames of a channel it hands
  to the lower layer are at most one, and the configured number of retries more where the function
  code allows them, for each accepted send call.\<close>

theorem transmissions_bounded:
  assumes "feasible app_possible app_handle es (new_AppLayer cfg)"
  shows "transmissions c (run app_handle es (new_AppLayer cfg)) \<le>
    total (\<lambda>s e. if accepted c s e then Suc (event_retries s e) else 0) app_handle es (new_AppLayer cfg)"
  using app_budget.spent_run [OF new_AppLayer_inv assms, of c] run_from_start [OF assms, of c] by simp



theorem transmissions_bounded_witness:
  "transmissions Solicited (run app_handle example_session (new_AppLayer example_config)) \<le> 2"
proof -
  have "total (\<lambda>s e. if accepted Solicited s e then Suc (event_retries s e) else 0) app_handle example_session
      (new_AppLayer example_config) = 2" by code_simp
  with transmissions_bounded [OF example_feasible, of Solicited] show ?thesis by simp
qed


section \<open>Retries\<close>

text \<open>
  An attempt that fails: the lower layer reports a failure, or reports success but the expected confirmation
  or response does not come in time.
\<close>

definition failed_attempt :: "channel \<Rightarrow> bool \<Rightarrow> AppEvent list" where
  "failed_attempt c sent = (if sent then [Ev_SendResult True, Ev_Timeout c] else [Ev_SendResult False])"

definition calls :: "AppLayer \<Rightarrow> AppOut list" where
  "calls s = filter (\<lambda>x. x \<notin> {Al_StartTimer Solicited, Al_CancelTimer Solicited, Al_StartTimer Unsolicited,
     Al_CancelTimer Unsolicited}) (al_out s)"

definition attempting :: "channel \<Rightarrow> ACS \<Rightarrow> APDU \<Rightarrow> nat \<Rightarrow> AppLayer \<Rightarrow> bool" where
  "attempting c st a k s \<longleftrightarrow> al_LowerLayer s \<and> al_User s \<noteq> None \<and> al_Sending s \<and> al_SendQueue s = [a] \<and>
     mpAppHeader a \<noteq> None \<and> frame_of (mBuffer a) = Some c \<and>
     ch_State (chan c s) = st \<and> ch_SendAPDU (chan c s) = Some a \<and> ch_NumRetry (chan c s) = k \<and> \<not> ch_Timer (chan c s)"

lemma attempting_function:
  assumes "attempting c st a k s"
  obtains h where "mpAppHeader a = Some h" "GetFunction (mBuffer a) \<noteq> FC_CONFIRM"
    "(if GetFunction (mBuffer a) = FC_UNSOLICITED_RESPONSE then Unsolicited else Solicited) = c"
  using assms by (auto simp: attempting_def frame_of_def split: if_splits)

lemma SendResult_attempting:
  assumes "attempting c st a k s"
  shows "Al_OnSendResult ok s =
    (case (if ok then ACS_OnSendSuccess else ACS_OnSendFailure) st c (s\<lparr>al_Sending := False, al_SendQueue := []\<rparr>) of
      (None, t) \<Rightarrow> Al_CheckForSend t | (Some e, t) \<Rightarrow> (Some e, t))"
proof -
  obtain h where h: "mpAppHeader a = Some h" "GetFunction (mBuffer a) \<noteq> FC_CONFIRM"
    "(if GetFunction (mBuffer a) = FC_UNSOLICITED_RESPONSE then Unsolicited else Solicited) = c"
    using attempting_function [OF assms] .
  then have "APDU_GetFunction a = Inr (GetFunction (mBuffer a))" by (simp add: APDU_GetFunction_def)
  with assms h(2) show ?thesis
    unfolding Al_OnSendResult_def h(3) Let_def
    by (simp add: attempting_def handler_simps h(3) split: prod.split option.split)
qed

lemma CheckForSend_idle: "al_Sending s \<or> al_SendQueue s = [] \<Longrightarrow> Al_CheckForSend s = (None, s)"
  by (auto simp: Al_CheckForSend_def handler_simps)

text \<open>The state in which a failed attempt gives up or tries again.\<close>

definition between :: "channel \<Rightarrow> APDU \<Rightarrow> nat \<Rightarrow> AppLayer \<Rightarrow> bool" where
  "between c a k t \<longleftrightarrow> al_LowerLayer t \<and> al_User t \<noteq> None \<and> \<not> al_Sending t \<and> al_SendQueue t = [] \<and>
     mpAppHeader a \<noteq> None \<and> frame_of (mBuffer a) = Some c \<and>
     ch_SendAPDU (chan c t) = Some a \<and> ch_NumRetry (chan c t) = k \<and> \<not> ch_Timer (chan c t)"

lemma retry_between:
  assumes "between c a (Suc k) t"
  shows "\<exists>s'. unless_Retry c st body t = (None, s') \<and> attempting c st a k s' \<and> calls s' = calls t @ [Al_Lower_Send (written a)]"
  using assms
  by (cases c) (auto simp: unless_Retry_def handler_simps QueueFrame_runs between_def attempting_def calls_def)

lemma give_up_between:
  assumes "between c a 0 t"
  shows "\<exists>s'. unless_Retry c st (to_idle c Channel_DoFailure) t = (None, s') \<and> \<not> busy c s' \<and>
    calls s' = calls t @ [User_OnFailure c] \<and> al_SendQueue s' = []"
  using assms
  by (cases c) (auto simp: unless_Retry_def handler_simps between_def calls_def busy_def)

definition resendable :: "ACS \<Rightarrow> bool \<Rightarrow> bool" where
  "resendable st sent \<longleftrightarrow> st = ACS_SendConfirmed \<or> st = ACS_SendExpectResponse \<or> st = ACS_Send \<and> \<not> sent"

lemma failed_attempt_runs:
  assumes at: "attempting c st a k s" and st: "resendable st sent"
  obtains t where "between c a k t" "calls t = calls s"
    "\<And>s'. unless_Retry c st (to_idle c Channel_DoFailure) t = (None, s') \<Longrightarrow> al_Sending s' \<or> al_SendQueue s' = [] \<Longrightarrow>
      run app_handle (failed_attempt c sent) s = s'"
proof (cases sent)
  case False
  let ?t = "s\<lparr>al_Sending := False, al_SendQueue := []\<rparr>"
  have b: "between c a k ?t" "calls ?t = calls s" using at by (simp_all add: attempting_def between_def calls_def)
  have "ACS_OnSendFailure st c ?t = unless_Retry c st (to_idle c Channel_DoFailure) ?t"
    using st by (auto simp: resendable_def)
  then have "run app_handle (failed_attempt c sent) s = s'"
    if "unless_Retry c st (to_idle c Channel_DoFailure) ?t = (None, s')" "al_Sending s' \<or> al_SendQueue s' = []" for s'
    using SendResult_attempting [OF at, of False] that False by (simp add: failed_attempt_def CheckForSend_idle)
  with b show thesis by (rule that)
next
  case True
  define wait where "wait = (if st = ACS_SendConfirmed then ACS_WaitForConfirm else ACS_WaitForFirstResponse)"
  have st': "st = ACS_SendConfirmed \<or> st = ACS_SendExpectResponse" using st True by (auto simp: resendable_def)
  let ?u = "chan_update c (\<lambda>ch. ch\<lparr>ch_State := wait, ch_Timer := True\<rparr>)
    (s\<lparr>al_Sending := False, al_SendQueue := [], al_out := al_out s @ [Al_StartTimer c]\<rparr>)"
  let ?t = "chan_update c (\<lambda>ch. ch\<lparr>ch_Timer := False\<rparr>) ?u"
  have b: "between c a k ?t" "calls ?t = calls s"
    using at by (cases c; simp add: attempting_def between_def calls_def)+
  have "ACS_OnSendSuccess st c (s\<lparr>al_Sending := False, al_SendQueue := []\<rparr>) = (None, ?u)"
    using st' at by (cases c) (auto simp: handler_simps wait_def attempting_def)
  then have sent: "Al_OnSendResult True s = (None, ?u)"
    using SendResult_attempting [OF at, of True] by (simp add: CheckForSend_idle)
  have timeout: "Channel_Timeout c ?u = unless_Retry c st (to_idle c Channel_DoFailure) ?t"
    using st' by (cases c) (auto simp: Channel_Timeout_def handler_simps wait_def)
  have "run app_handle (failed_attempt c True) s = s'"
    if "unless_Retry c st (to_idle c Channel_DoFailure) ?t = (None, s')" for s'
    using sent timeout that by (simp only: failed_attempt_def if_True run.simps app_handle.simps snd_conv)
  then show thesis using True by (intro that [OF b]) simp
qed

lemma attempts_exhausted:
  assumes "attempting c st a k s" and "length bs = Suc k" and "list_all (resendable st) bs"
  shows "\<exists>s'. run app_handle (concat (map (failed_attempt c) bs)) s = s' \<and> \<not> busy c s' \<and>
    calls s' = calls s @ replicate k (Al_Lower_Send (written a)) @ [User_OnFailure c]"
  using assms
proof (induction k arbitrary: s bs)
  case 0
  then obtain b where bs: "bs = [b]" "resendable st b" by (cases bs) auto
  obtain t where t: "between c a 0 t" "calls t = calls s"
    "\<And>s'. unless_Retry c st (to_idle c Channel_DoFailure) t = (None, s') \<Longrightarrow> al_Sending s' \<or> al_SendQueue s' = [] \<Longrightarrow>
      run app_handle (failed_attempt c b) s = s'"
    by (rule failed_attempt_runs [OF 0(1) bs(2)]) blast
  from give_up_between [OF t(1), of st] obtain s' where "unless_Retry c st (to_idle c Channel_DoFailure) t = (None, s')"
      "\<not> busy c s'" "calls s' = calls t @ [User_OnFailure c]" "al_SendQueue s' = []" by blast
  with t(2,3) show ?case by (simp add: bs)
next
  case (Suc k)
  then obtain b bs' where bs: "bs = b # bs'" "resendable st b" "length bs' = Suc k" "list_all (resendable st) bs'"
    by (cases bs) auto
  obtain t where t: "between c a (Suc k) t" "calls t = calls s"
    "\<And>s'. unless_Retry c st (to_idle c Channel_DoFailure) t = (None, s') \<Longrightarrow> al_Sending s' \<or> al_SendQueue s' = [] \<Longrightarrow>
      run app_handle (failed_attempt c b) s = s'"
    by (rule failed_attempt_runs [OF Suc.prems(1) bs(2)]) blast
  from retry_between [OF t(1), of st] obtain s1 where s1: "unless_Retry c st (to_idle c Channel_DoFailure) t = (None, s1)"
      "attempting c st a k s1" "calls s1 = calls t @ [Al_Lower_Send (written a)]" by blast
  have step: "run app_handle (failed_attempt c b) s = s1" by (rule t(3) [OF s1(1)]) (use s1(2) in \<open>simp add: attempting_def\<close>)
  from Suc.IH [OF s1(2) bs(3,4)] show ?case using step s1(3) t(2) by (simp add: bs(1) run_append)
qed

text \<open>A transaction whose every attempt fails ends after the configured retries. From an otherwise idle
  application layer, after an accepted send call of a fragment that allows n retries and n+1 failed
  attempts (each a send the lower layer reports failed, or where an answer is awaited one that is not
  answered in time), the very same fragment has been handed to the lower layer n+1 times and then, once, failure reported
  to the user, and the channel is idle again.\<close>

theorem retries_exhausted:
  assumes "reachable app_handle app_possible app_start s" and "app_possible s e" and "accepted c s e"
    and "al_SendQueue s = []" and "snd (app_handle e s) = t" and "length bs = Suc (event_retries s e)"
    and "list_all (resendable (ch_State (chan c t))) bs"
  shows "\<exists>s'. run app_handle (e # concat (map (failed_attempt c) bs)) s = s' \<and> \<not> busy c s' \<and>
    calls s' = calls s @ replicate (Suc (event_retries s e)) (Al_Lower_Send (written (al_Argument t))) @ [User_OnFailure c]"
proof -
  have inv: "app_inv s" by (rule app.reachable_inv [OF assms(1)])
  have e: "event_channel e = Some c" "fst (app_handle e s) = None" using assms(3) by (simp_all add: accepted_def)
  obtain a where a: "app_handle e s = Channel_Send c (event_retries s e) (s\<lparr>al_Argument := a\<rparr>)"
      "al_IsLowerLayerUp s" "ready_to_send a" "frame_of (mBuffer a) = Some c"
    using send_cases [OF e(1) assms(2)] e(2) unfolding event_retries_def by (metis fst_conv option.distinct(1))
  let ?s = "s\<lparr>al_Argument := a\<rparr>"
  have links: "al_LowerLayer ?s" "al_User ?s \<noteq> None" using inv a(2) by (simp_all add: app_inv_def links_ok_def)
  have sending: "\<not> al_Sending s" using inv_sending [OF inv] assms(4) by simp
  have idle: "ch_State (chan c ?s) = ACS_Idle"
  proof (rule ccontr)
    assume "ch_State (chan c ?s) \<noteq> ACS_Idle"
    then have "fst (Channel_Send c (event_retries s e) ?s) \<noteq> None"
      by (cases "ch_State (chan c ?s)") (simp_all add: Channel_Send_def handler_simps)
    then show False using a(1) e(2) by simp
  qed
  have timer: "\<not> ch_Timer (chan c s)" using inv_chan [OF inv, of c] idle by (auto simp: channel_ok_def)
  define q where "q = next_sequence c a ?s"
  define u where "u = chan_update c (\<lambda>ch. ch\<lparr>ch_Sequence := q\<rparr>) (s\<lparr>al_Argument := stamped a q\<rparr>)"
  have "Channel_Send c (event_retries s e) ?s = (case NextState c (GetFunction (mBuffer a)) (CON (GetControl (mBuffer a))) u of
          Inl ex \<Rightarrow> (Some ex, u) | Inr st \<Rightarrow> (None, started c q st (event_retries s e) (stamped a q) ?s))"
    by (subst Idle_Send_runs)
      (use links idle a(3) sending assms(4) in \<open>simp_all add: Let_def q_def [symmetric] u_def [symmetric] split: sum.split\<close>)
  with a(1) e(2) assms(5) obtain st where t: "t = started c q st (event_retries s e) (stamped a q) ?s"
    by (cases "NextState c (GetFunction (mBuffer a)) (CON (GetControl (mBuffer a))) u") auto
  have app: "mpAppHeader (stamped a q) \<noteq> None" using a(3) by (simp add: stamped_def ready_to_send_def)
  have "attempting c (ch_State (chan c t)) (stamped a q) (event_retries s e) t"
    using links timer app a(4) assms(4) by (simp add: attempting_def t started_def)
  from attempts_exhausted [OF this assms(6,7)] obtain s' where
    s': "run app_handle (concat (map (failed_attempt c) bs)) t = s'" "\<not> busy c s'"
      "calls s' = calls t @ replicate (event_retries s e) (Al_Lower_Send (written (stamped a q))) @ [User_OnFailure c]"
    by blast
  have "al_Argument t = stamped a q" "calls t = calls s @ [Al_Lower_Send (written (stamped a q))]"
    using sending by (simp_all add: t started_def calls_def)
  with s' assms(5) show ?thesis by simp
qed

theorem retries_exhausted_witness:
  "calls (run app_handle ([Ev_SetLowerLayer, Ev_SetUser True, Ev_LowerLayerUp] @
      Ev_SendRequest example_request # concat (map (failed_attempt Solicited) [True, False])) (new_AppLayer example_config)) =
    [User_OnLowerLayerUp, Al_Lower_Send [0xC0, 1], Al_Lower_Send [0xC0, 1], User_OnFailure Solicited]"
proof -
  let ?es = "[Ev_SetLowerLayer, Ev_SetUser True, Ev_LowerLayerUp]"
  let ?s = "run app_handle ?es (new_AppLayer example_config)"
  let ?e = "Ev_SendRequest example_request"
  have "feasible app_possible app_handle ?es (new_AppLayer example_config)" by code_simp
  then have r: "reachable app_handle app_possible app_start ?s" by (rule run_reachable)
  have h: "app_possible ?s ?e" "accepted Solicited ?s ?e" "al_SendQueue ?s = []" "event_retries ?s ?e = 1"
    "list_all (resendable (ch_State (chan Solicited (snd (app_handle ?e ?s))))) [True, False]"
    "written (al_Argument (snd (app_handle ?e ?s))) = [0xC0, 1]" "calls ?s = [User_OnLowerLayerUp]"
    by code_simp+
  show ?thesis using retries_exhausted [OF r h(1-3) refl, of "[True, False]"] h(4-7) by (simp add: run_append numeral_2_eq_2)
qed

end
