(* ===== verification/AppReceptions.thy ===== *)
theory AppReceptions
  imports AppExchanges
begin

text \<open>
  What becomes of the fragments the application layer receives: which responses and unsolicited responses
  reach the user, which are confirmed, and two situations the code does not recover from (a
  confirmation lost with the lower layer, and a retry after a partial response).
\<close>

section \<open>Reception, statement by statement\<close>

definition parsed :: "bytes \<Rightarrow> AppLayer \<Rightarrow> APDU \<Rightarrow> bool" where
  "parsed d s a \<longleftrightarrow> in_order [APDU_Write d, Interpret] (al_Incoming s) = (None, a)"

lemma parsed_header: "parsed d s a \<Longrightarrow> mpAppHeader a \<noteq> None \<and> mIsInterpreted a"
proof -
  assume p: "parsed d s a"
  obtain r b where w: "APDU_Write d (al_Incoming s) = (r, b)" by (cases "APDU_Write d (al_Incoming s)")
  with p have r: "r = None" "Interpret b = (None, a)" by (auto simp: parsed_def split: option.splits)
  with w have "received b" using APDU_Write_received by blast
  from Interpret_result [OF this] r(2) show ?thesis by auto
qed

lemma Receive_parsed:
  assumes inv: "app_inv s" and up: "al_IsLowerLayerUp s" and p: "parsed d s a"
  shows "Al_OnReceive d s = (None, snd (dispatched a (s\<lparr>al_Incoming := a\<rparr>)))"
proof -
  obtain r b where w: "APDU_Write d (al_Incoming s) = (r, b)" by (cases "APDU_Write d (al_Incoming s)")
  with p have rb: "r = None" "Interpret b = (None, a)" by (auto simp: parsed_def split: option.splits)
  note hd = parsed_header [OF p]
  have body: "in_order [on_incoming (APDU_Write d), on_incoming Interpret, Al_Dispatch] s =
      dispatched a (s\<lparr>al_Incoming := a\<rparr>)"
    using w rb hd Dispatch_runs [of a s] by (simp add: on_incoming_def)
  have "mpAppHeader a \<noteq> None" using hd by blast
  then obtain r s' where s': "dispatched a (s\<lparr>al_Incoming := a\<rparr>) = (r, s')" "swallowed r"
    by (rule soundD [OF sound_dispatched, of a "s\<lparr>al_Incoming := a\<rparr>"]) (use inv up in simp_all)
  then show ?thesis using up body
    by (cases r) (auto simp: Al_OnReceive_def try_catch_def throw_if_def Al_Catch_def swallowed_def skip_def)
qed

text \<open>The confirmation as \<open>QueueConfirm\<close> leaves it in the queue.\<close>

definition confirmation :: "bool \<Rightarrow> int \<Rightarrow> AppLayer \<Rightarrow> APDU" where
  "confirmation u q s = (al_Confirm s)\<lparr>mBuffer := SetControl (mBuffer (al_Confirm s))
     \<lparr>FIR = True, FIN = True, CON = False, UNS = u, SEQ = q\<rparr>\<rparr>"

definition confirm_queued :: "bool \<Rightarrow> int \<Rightarrow> AppLayer \<Rightarrow> AppLayer" where
  "confirm_queued u q s = s\<lparr>al_ConfirmSending := True, al_Confirm := confirmation u q s,
     al_SendQueue := al_SendQueue s @ [confirmation u q s], al_Sending := True,
     al_out := al_out s @ (if al_Sending s then [] else [Al_Lower_Send (written (confirmation u q s))])\<rparr>"

lemma QueueConfirm_runs:
  assumes inv: "app_inv s" and up: "al_IsLowerLayerUp s" and "0 \<le> q" and "q \<le> 15"
  shows "QueueConfirm u q s =
    (if al_ConfirmSending s then (Some (Exception (if u then ALERR_UNSOL_FLOOD else ALERR_SOL_FLOOD)), s)
     else (None, confirm_queued u q s))"
proof (cases "al_ConfirmSending s")
  case True
  then show ?thesis by (simp add: QueueConfirm_def handler_simps)
next
  case False
  have ok: "al_LowerLayer s" "al_Sending s \<longleftrightarrow> al_SendQueue s \<noteq> []" "mpAppHeader (al_Confirm s) \<noteq> None"
    using inv up inv_sending [OF inv] by (auto simp: app_inv_def links_ok_def confirm_ok_def ready_to_send_def)
  have a: "APDU_SetControlParts True True False u q (al_Confirm s) = (None, confirmation u q s)"
    using ok(3) assms(3,4) by (simp add: APDU_SetControlParts_def APDU_SetControl_def handler_simps confirmation_def)
  show ?thesis using False ok(1,2) a
    by (simp add: QueueConfirm_def handler_simps QueueFrame_runs confirm_queued_def)
qed

definition response_outs :: "APDU \<Rightarrow> AppOut list" where
  "response_outs a = Al_CancelTimer Solicited #
     (if FIN (GetControl (mBuffer a)) then [User_OnFinalResponse a]
      else [Al_StartTimer Solicited, User_OnPartialResponse a])"

lemma response_step_runs:
  assumes inv: "app_inv s" and expected: "response_expected a s"
  shows "response_step a s = (None, moved Solicited
    (if FIN (GetControl (mBuffer a)) then (al_Solicited s)\<lparr>ch_Timer := False, ch_State := ACS_Idle\<rparr>
     else (al_Solicited s)\<lparr>ch_Sequence := NextSeq (ch_Sequence (al_Solicited s)), ch_State := ACS_WaitForFinalResponse, ch_Timer := True\<rparr>)
    (response_outs a) s)"
proof -
  have "ch_State (al_Solicited s) \<in> waiting_states" using expected by (auto simp: response_expected_def state_sets split: if_splits)
  then have timer: "ch_Timer (al_Solicited s)" and busy: "busy Solicited s"
    using inv_chan [OF inv, of Solicited] by (auto simp: channel_ok_def busy_def)
  have "al_IsLowerLayerUp s" using inv_busy_up [OF inv] busy by blast
  then have user: "al_User s \<noteq> None" using inv by (simp add: app_inv_def links_ok_def)
  show ?thesis using timer user
    by (simp add: response_step_def handler_simps moved_def response_outs_def)
qed

section \<open>Responses\<close>

definition delivers :: "AppOut \<Rightarrow> bool" where
  "delivers x \<longleftrightarrow> (case x of User_OnPartialResponse a \<Rightarrow> True | User_OnFinalResponse a \<Rightarrow> True
     | User_OnUnsolResponse a \<Rightarrow> True | User_OnRequest a q \<Rightarrow> True | _ \<Rightarrow> False)"

definition deliveries :: "AppLayer \<Rightarrow> AppOut list" where
  "deliveries s = filter delivers (al_out s)"

lemma deliveries_response [simp]:
  "filter delivers (response_outs a) =
    [if FIN (GetControl (mBuffer a)) then User_OnFinalResponse a else User_OnPartialResponse a]"
  by (simp add: response_outs_def delivers_def)

lemma moved_keeps [simp]:
  "deliveries (moved c ch xs t) = deliveries t @ filter delivers xs" "chan d (moved c ch xs t) = (if c = d then ch else chan d t)"
  "al_SendQueue (moved c ch xs t) = al_SendQueue t"
  "al_Solicited (moved c ch xs t) = (if c = Solicited then ch else al_Solicited t)"
  "al_Unsolicited (moved c ch xs t) = (if c = Unsolicited then ch else al_Unsolicited t)"
  by (cases c; simp add: moved_def deliveries_def)+

definition response_accepted :: "APDU \<Rightarrow> AppLayer \<Rightarrow> bool" where
  "response_accepted a s \<longleftrightarrow> \<not> UNS (GetControl (mBuffer a)) \<and> response_expected a s \<and>
     \<not> (CON (GetControl (mBuffer a)) \<and> al_ConfirmSending s)"

text \<open>The channel after a response that is accepted, and the layer after any response.\<close>

definition responded :: "APDU \<Rightarrow> AppLayerChannel \<Rightarrow> AppLayerChannel" where
  "responded a ch = (if FIN (GetControl (mBuffer a)) then ch\<lparr>ch_Timer := False, ch_State := ACS_Idle\<rparr>
     else ch\<lparr>ch_Sequence := NextSeq (ch_Sequence ch), ch_State := ACS_WaitForFinalResponse, ch_Timer := True\<rparr>)"

definition confirms :: "APDU \<Rightarrow> AppLayer \<Rightarrow> bool" where
  "confirms a s \<longleftrightarrow> \<not> UNS (GetControl (mBuffer a)) \<and> CON (GetControl (mBuffer a)) \<and>
     AcceptsResponse (ch_State (al_Solicited s)) \<and> \<not> al_ConfirmSending s"

definition after_confirm :: "bool \<Rightarrow> APDU \<Rightarrow> bool \<Rightarrow> AppLayer \<Rightarrow> AppLayer" where
  "after_confirm u a b s = (if b then confirm_queued u (SEQ (GetControl (mBuffer a))) s else s)"

lemma after_confirm_keeps [simp]:
  "chan c (after_confirm u a b s) = chan c s" "al_User (after_confirm u a b s) = al_User s"
  "al_Solicited (after_confirm u a b s) = al_Solicited s" "al_Unsolicited (after_confirm u a b s) = al_Unsolicited s"
  "deliveries (after_confirm u a b s) = deliveries s"
  "al_SendQueue (after_confirm u a b s) = al_SendQueue s @ (if b then [confirmation u (SEQ (GetControl (mBuffer a))) s] else [])"
  "response_expected x (after_confirm u a b s) = response_expected x s"
  by (simp_all add: after_confirm_def confirm_queued_def deliveries_def delivers_def response_expected_def)

lemma after_confirm_inv:
  assumes "app_inv s" and "al_IsLowerLayerUp s" and "b \<longrightarrow> \<not> al_ConfirmSending s"
  shows "app_inv (after_confirm u a b s)" and "al_IsLowerLayerUp (after_confirm u a b s)"
proof -
  obtain r t where t: "QueueConfirm u (SEQ (GetControl (mBuffer a))) s = (r, t)" "app_inv t"
    by (rule soundD [OF sound_QueueConfirm, of "SEQ (GetControl (mBuffer a))" s u]) (use control_SEQ assms in simp_all)
  with QueueConfirm_runs [of s "SEQ (GetControl (mBuffer a))" u] control_SEQ assms
  show "app_inv (after_confirm u a b s)" by (auto simp: after_confirm_def)
  show "al_IsLowerLayerUp (after_confirm u a b s)" using assms by (simp add: after_confirm_def confirm_queued_def)
qed

lemma response_runs:
  assumes inv: "app_inv s" and up: "al_IsLowerLayerUp s" and hd: "mpAppHeader a \<noteq> None"
  shows "snd (Al_OnResponse (GetControl (mBuffer a)) a s) =
    (let t = after_confirm False a (confirms a s) s in
     if response_accepted a s then moved Solicited (responded a (al_Solicited s)) (response_outs a) t else t)"
proof -
  let ?c = "GetControl (mBuffer a)"
  let ?t = "after_confirm False a (confirms a s) s"
  have waits: "AcceptsResponse (ch_State (al_Solicited s))" if "response_expected a s"
    using that by (auto simp: response_expected_def AcceptsResponse_def split: if_splits)
  have conf: "QueueConfirm False (SEQ ?c) s =
      (if al_ConfirmSending s then (Some (Exception ALERR_SOL_FLOOD), s) else (None, confirm_queued False (SEQ ?c) s))"
    using QueueConfirm_runs [OF inv up] control_SEQ by simp
  have inv_t: "app_inv ?t" by (rule after_confirm_inv [OF inv up]) (simp add: confirms_def)
  have last: "if_else (response_expected a) (response_step a) skip ?t =
      (None, if response_expected a s then moved Solicited (responded a (al_Solicited s)) (response_outs a) ?t else ?t)"
    using response_step_runs [OF inv_t, of a] by (simp add: if_else_def skip_def responded_def)
  show ?thesis
  proof (cases "UNS ?c")
    case True
    then show ?thesis
      by (simp add: Al_OnResponse_def handler_simps response_accepted_def confirms_def after_confirm_def)
  next
    case uns: False
    show ?thesis
    proof (cases "CON ?c \<and> AcceptsResponse (ch_State (al_Solicited s))")
      case True
      show ?thesis
      proof (cases "al_ConfirmSending s")
        case flood: True
        then show ?thesis using True uns conf
          by (simp add: Al_OnResponse_def handler_simps response_accepted_def confirms_def after_confirm_def)
      next
        case False
        with True uns have t: "?t = confirm_queued False (SEQ ?c) s" by (simp add: confirms_def after_confirm_def)
        have "Al_OnResponse ?c a s = if_else (response_expected a) (response_step a) skip ?t"
          unfolding Al_OnResponse_def OnResponse_runs [OF hd] using True uns conf False
          by (simp add: t if_else_def throw_if_def)
        then show ?thesis using last False by (simp add: response_accepted_def uns)
      qed
    next
      case False
      then have no: "(CON ?c \<and> AcceptsResponse (ch_State (al_Solicited s))) = False" by blast
      have mid: "if_else (\<lambda>s. CON ?c \<and> AcceptsResponse (ch_State (chan Solicited s))) (QueueConfirm False (SEQ ?c)) skip s = (None, s)"
        by (simp only: if_else_def skip_def chan.simps no if_False)
      from False have t: "?t = s" by (auto simp: confirms_def after_confirm_def)
      have "Al_OnResponse ?c a s = if_else (response_expected a) (response_step a) skip ?t"
        unfolding Al_OnResponse_def OnResponse_runs [OF hd] using uns mid by (simp add: t throw_if_def)
      then show ?thesis using last False waits uns by (auto simp: response_accepted_def)
    qed
  qed
qed

text \<open>C5: What becomes of a solicited response. A parsed response reaches the user exactly when its unsolicited bit is clear, the
  solicited channel waits for a first (FIR set) or a further (FIR clear) fragment of a response, its sequence
  number is the channel's, and it does not ask for a confirmation while one is still being sent. A final
  fragment then ends the transaction, another advances the sequence number and waits on. A
  confirmation is queued when the response asks for one and the channel waits for any response at
  all, also when the response is then discarded. Nothing else of the channels changes.\<close>

theorem response_delivered_iff_expected:
  assumes "reachable app_handle app_possible app_start s" and "al_IsLowerLayerUp s" and "parsed d s a"
    and "GetFunction (mBuffer a) = FC_RESPONSE"
  shows "let s' = snd (app_handle (Ev_Receive d) s) in
    deliveries s' = deliveries s @ (if response_accepted a s
      then [if FIN (GetControl (mBuffer a)) then User_OnFinalResponse a else User_OnPartialResponse a] else []) \<and>
    al_Solicited s' = (if response_accepted a s then responded a (al_Solicited s) else al_Solicited s) \<and>
    al_SendQueue s' = al_SendQueue s @ (if confirms a s then [confirmation False (SEQ (GetControl (mBuffer a))) s] else []) \<and>
    al_Unsolicited s' = al_Unsolicited s"
proof -
  let ?s = "s\<lparr>al_Incoming := a\<rparr>"
  have inv: "app_inv s" by (rule app.reachable_inv [OF assms(1)])
  have hd: "mpAppHeader a \<noteq> None" using parsed_header [OF assms(3)] by blast
  have same: "confirms a ?s = confirms a s" "response_accepted a ?s = response_accepted a s"
    "confirmation False q ?s = confirmation False q s" "deliveries ?s = deliveries s" for q
    by (simp_all add: confirms_def response_accepted_def response_expected_def confirmation_def deliveries_def)
  have "snd (app_handle (Ev_Receive d) s) = snd (Al_OnResponse (GetControl (mBuffer a)) a ?s)"
    using Receive_parsed [OF inv assms(2,3)] assms(4) by (simp add: dispatched_def)
  also have "\<dots> = (let t = after_confirm False a (confirms a s) ?s in
     if response_accepted a s then moved Solicited (responded a (al_Solicited ?s)) (response_outs a) t else t)"
    using response_runs [of ?s a] inv assms(2) hd same by simp
  finally show ?thesis using same
    by (simp add: Let_def)
qed


text \<open>The session of the previous theory just before its last event, and the response it then receives.\<close>

definition example_waiting :: AppLayer where
  "example_waiting = run app_handle (butlast example_session) (new_AppLayer example_config)"

definition example_response :: bytes where
  "example_response = [0xE0, 129, 0, 0]"

definition example_parsed :: APDU where
  "example_parsed = snd (in_order [APDU_Write example_response, Interpret] (al_Incoming example_waiting))"

lemma example_waiting_reachable: "reachable app_handle app_possible app_start example_waiting"
  unfolding example_waiting_def by (rule run_reachable) code_simp

theorem response_delivered_iff_expected_witness:
  "deliveries (snd (app_handle (Ev_Receive example_response) example_waiting)) = [User_OnFinalResponse example_parsed] \<and>
   length (al_SendQueue (snd (app_handle (Ev_Receive example_response) example_waiting))) = 1"
proof -
  have p: "parsed example_response example_waiting example_parsed"
    unfolding parsed_def example_parsed_def by code_simp
  have h: "al_IsLowerLayerUp example_waiting" "GetFunction (mBuffer example_parsed) = FC_RESPONSE" by code_simp+
  have e: "response_accepted example_parsed example_waiting" "FIN (GetControl (mBuffer example_parsed))"
    "confirms example_parsed example_waiting" "deliveries example_waiting = []" "al_SendQueue example_waiting = []"
    by code_simp+
  from response_delivered_iff_expected [OF example_waiting_reachable h(1) p h(2)] e show ?thesis by (simp add: Let_def)
qed

section \<open>Unsolicited responses\<close>

definition unsolicited_accepted :: "APDU \<Rightarrow> AppLayer \<Rightarrow> bool" where
  "unsolicited_accepted a s \<longleftrightarrow> UNS (GetControl (mBuffer a)) \<and> al_User s = Some True \<and>
     \<not> (CON (GetControl (mBuffer a)) \<and> al_ConfirmSending s)"

definition is_repeat :: "APDU \<Rightarrow> AppLayer \<Rightarrow> bool" where
  "is_repeat a s \<longleftrightarrow> SEQ (GetControl (mBuffer a)) = ch_Sequence (al_Unsolicited s)"

lemma OnUnsol_runs:
  assumes "mpAppHeader a \<noteq> None" and "al_User t \<noteq> None"
  shows "Unsolicited_OnUnsol a t = (None, if is_repeat a t then t
     else moved Unsolicited ((al_Unsolicited t)\<lparr>ch_Sequence := SEQ (GetControl (mBuffer a))\<rparr>) [User_OnUnsolResponse a] t)"
  using assms by (auto simp: Unsolicited_OnUnsol_def APDU_GetControl_def handler_simps is_repeat_def moved_def)

lemma unsolicited_runs:
  assumes inv: "app_inv s" and up: "al_IsLowerLayerUp s" and hd: "mpAppHeader a \<noteq> None"
  shows "snd (Al_OnUnsolResponse (GetControl (mBuffer a)) a s) =
    (if \<not> unsolicited_accepted a s then s
     else let t = after_confirm True a (CON (GetControl (mBuffer a))) s in
       if is_repeat a s then t
       else moved Unsolicited ((al_Unsolicited s)\<lparr>ch_Sequence := SEQ (GetControl (mBuffer a))\<rparr>) [User_OnUnsolResponse a] t)"
proof -
  let ?c = "GetControl (mBuffer a)"
  have conf: "QueueConfirm True (SEQ ?c) s =
      (if al_ConfirmSending s then (Some (Exception ALERR_UNSOL_FLOOD), s) else (None, confirm_queued True (SEQ ?c) s))"
    using QueueConfirm_runs [OF inv up] control_SEQ by simp
  obtain m where m: "al_User s = Some m" using inv up by (auto simp: app_inv_def links_ok_def)
  have rest: "Unsolicited_OnUnsol a (after_confirm True a b s) = (None, if is_repeat a s then after_confirm True a b s
     else moved Unsolicited ((al_Unsolicited s)\<lparr>ch_Sequence := SEQ ?c\<rparr>) [User_OnUnsolResponse a] (after_confirm True a b s))" for b
    using OnUnsol_runs [OF hd, of "after_confirm True a b s"] m by (simp add: is_repeat_def)
  show ?thesis
    using rest [of True] rest [of False] conf m
    by (cases "CON ?c"; cases "al_ConfirmSending s")
      (auto simp: Al_OnUnsolResponse_def handler_simps IsMaster_def unsolicited_accepted_def after_confirm_def Let_def)
qed

text \<open>C24: What becomes of an unsolicited response. A parsed one with its unsolicited bit set that reaches a master is taken
  unless it asks for a confirmation while one is still being sent; it is confirmed when it asks for that, and given to
  the user exactly when its sequence number differs from the last one taken, so that a repetition is
  confirmed again but not delivered again. Otherwise nothing changes. The solicited channel is never touched.\<close>

theorem unsolicited_delivered_once:
  assumes "reachable app_handle app_possible app_start s" and "al_IsLowerLayerUp s" and "parsed d s a"
    and "GetFunction (mBuffer a) = FC_UNSOLICITED_RESPONSE"
  shows "let s' = snd (app_handle (Ev_Receive d) s); q = SEQ (GetControl (mBuffer a)) in
    deliveries s' = deliveries s @ (if unsolicited_accepted a s \<and> q \<noteq> ch_Sequence (al_Unsolicited s)
      then [User_OnUnsolResponse a] else []) \<and>
    al_Unsolicited s' = (if unsolicited_accepted a s then (al_Unsolicited s)\<lparr>ch_Sequence := q\<rparr> else al_Unsolicited s) \<and>
    al_SendQueue s' = al_SendQueue s @ (if unsolicited_accepted a s \<and> CON (GetControl (mBuffer a)) then [confirmation True q s] else []) \<and>
    al_Solicited s' = al_Solicited s"
proof -
  let ?s = "s\<lparr>al_Incoming := a\<rparr>"
  have inv: "app_inv s" by (rule app.reachable_inv [OF assms(1)])
  have hd: "mpAppHeader a \<noteq> None" using parsed_header [OF assms(3)] by blast
  have same: "unsolicited_accepted a ?s = unsolicited_accepted a s" "is_repeat a ?s = is_repeat a s"
    "confirmation True q ?s = confirmation True q s" "deliveries ?s = deliveries s" for q
    by (simp_all add: unsolicited_accepted_def is_repeat_def confirmation_def deliveries_def)
  have keep: "(al_Unsolicited s)\<lparr>ch_Sequence := SEQ (GetControl (mBuffer a))\<rparr> = al_Unsolicited s" if "is_repeat a s"
    using that by (simp add: is_repeat_def)
  have "snd (app_handle (Ev_Receive d) s) = snd (Al_OnUnsolResponse (GetControl (mBuffer a)) a ?s)"
    using Receive_parsed [OF inv assms(2,3)] assms(4) by (simp add: dispatched_def)
  also have "\<dots> = (if \<not> unsolicited_accepted a s then ?s
     else let t = after_confirm True a (CON (GetControl (mBuffer a))) ?s in
       if is_repeat a s then t
       else moved Unsolicited ((al_Unsolicited ?s)\<lparr>ch_Sequence := SEQ (GetControl (mBuffer a))\<rparr>) [User_OnUnsolResponse a] t)"
    using unsolicited_runs [of ?s a] inv assms(2) hd same by simp
  finally show ?thesis using same
    by (simp add: Let_def is_repeat_def [symmetric] delivers_def keep)
qed

text \<open>An unsolicited null response with its confirmation bit, received twice.\<close>

definition example_unsolicited :: bytes where
  "example_unsolicited = [0xF3, 130, 0, 0]"

theorem unsolicited_delivered_once_witness:
  "(let a = snd (in_order [APDU_Write example_unsolicited, Interpret] (al_Incoming example_waiting)) in
    deliveries (snd (app_handle (Ev_Receive example_unsolicited) example_waiting)) = [User_OnUnsolResponse a])"
proof -
  let ?a = "snd (in_order [APDU_Write example_unsolicited, Interpret] (al_Incoming example_waiting))"
  have p: "parsed example_unsolicited example_waiting ?a" unfolding parsed_def by code_simp
  have h: "al_IsLowerLayerUp example_waiting" "GetFunction (mBuffer ?a) = FC_UNSOLICITED_RESPONSE" by code_simp+
  have e: "unsolicited_accepted ?a example_waiting" "SEQ (GetControl (mBuffer ?a)) \<noteq> ch_Sequence (al_Unsolicited example_waiting)"
    "deliveries example_waiting = []" by code_simp+
  from unsolicited_delivered_once [OF example_waiting_reachable h(1) p h(2)] e show ?thesis unfolding Let_def by simp
qed

end
