(* ===== verification/AppStalls.thy ===== *)
theory AppStalls
  imports AppReceptions
begin

text \<open>
  Two situations from which the application layer does not recover. \<open>_OnLowerLayerDown\<close> empties the queue
  but leaves \<open>mConfirmSending\<close> set when a confirmation was in it, and nothing ever resets the flag then: the
  layer confirms nothing more and drops every fragment that asks for a confirmation. And a retry after
  a partial response sends the request with its old sequence number while the channel has moved on.
\<close>

section \<open>A lost confirmation\<close>

text \<open>No confirmation is sent and nothing that asks for one is delivered.\<close>

definition unconfirming :: "AppOut \<Rightarrow> bool" where
  "unconfirming x \<longleftrightarrow> (case x of
     Al_Lower_Send d \<Rightarrow> frame_of d \<noteq> None
   | User_OnFinalResponse a \<Rightarrow> \<not> CON (GetControl (mBuffer a))
   | User_OnPartialResponse a \<Rightarrow> \<not> CON (GetControl (mBuffer a))
   | User_OnUnsolResponse a \<Rightarrow> \<not> CON (GetControl (mBuffer a))
   | _ \<Rightarrow> True)"

definition no_confirm :: "APDU \<Rightarrow> bool" where
  "no_confirm a \<longleftrightarrow> ready_to_send a \<and> frame_of (mBuffer a) \<noteq> None"

definition stalled :: "AppOut list \<Rightarrow> AppLayer \<Rightarrow> bool" where
  "stalled os s \<longleftrightarrow> al_ConfirmSending s \<and> list_all no_confirm (al_SendQueue s) \<and>
     (\<forall>c a. ch_SendAPDU (chan c s) = Some a \<longrightarrow> no_confirm a) \<and>
     (\<exists>xs. al_out s = os @ xs \<and> list_all unconfirming xs)"

lemma stalled_emit:
  assumes "stalled os s" and "unconfirming x"
  shows "stalled os (s\<lparr>al_out := al_out s @ [x]\<rparr>)"
proof -
  from assms(1) obtain xs where "al_out s = os @ xs" "list_all unconfirming xs" by (auto simp: stalled_def)
  then have "al_out s @ [x] = os @ (xs @ [x]) \<and> list_all unconfirming (xs @ [x])" using assms(2) by simp
  then have "\<exists>ys. al_out s @ [x] = os @ ys \<and> list_all unconfirming ys" by blast
  with assms(1) show ?thesis by (simp add: stalled_def)
qed

lemma stalled_fields [simp]:
  "stalled os (s\<lparr>al_Sending := b\<rparr>) \<longleftrightarrow> stalled os s" "stalled os (s\<lparr>al_Incoming := a\<rparr>) \<longleftrightarrow> stalled os s"
  "stalled os (s\<lparr>al_Argument := a\<rparr>) \<longleftrightarrow> stalled os s" "stalled os (s\<lparr>al_IsLowerLayerUp := b\<rparr>) \<longleftrightarrow> stalled os s"
  "stalled os (s\<lparr>al_User := u\<rparr>) \<longleftrightarrow> stalled os s" "stalled os (s\<lparr>al_LowerLayer := b\<rparr>) \<longleftrightarrow> stalled os s"
  by (simp_all add: stalled_def)

lemma stalled_queue:
  "stalled os s \<Longrightarrow> list_all no_confirm q \<Longrightarrow> stalled os (s\<lparr>al_SendQueue := q\<rparr>)"
  by (simp add: stalled_def)

lemma stalled_chan:
  "stalled os s \<Longrightarrow> (\<And>ch. ch_SendAPDU (f ch) = ch_SendAPDU ch) \<Longrightarrow> stalled os (chan_update c f s)"
  by (auto simp: stalled_def)

lemma stalled_emits [keeps_intros]:
  "unconfirming x \<Longrightarrow> keeps (stalled os) (al_emit x)"
  by (simp add: keeps_def handler_simps stalled_emit)

lemma stalled_calls [keeps_intros]:
  "unconfirming x \<Longrightarrow> keeps (stalled os) (call_user x)"
  by (auto simp: keeps_def handler_simps stalled_emit)

lemma stalled_on_channel [keeps_intros]:
  "(\<And>ch. ch_SendAPDU (f ch) = ch_SendAPDU ch) \<Longrightarrow> keeps (stalled os) (on_channel c f)"
  by (simp add: keeps_def handler_simps stalled_chan)

lemma unconfirming_simps [simp]:
  "unconfirming (Al_StartTimer c)" "unconfirming (Al_CancelTimer c)" "unconfirming User_OnLowerLayerUp"
  "unconfirming User_OnLowerLayerDown" "unconfirming (User_OnSendSuccess c)" "unconfirming (User_OnFailure c)"
  "unconfirming (User_OnRequest a q)" "unconfirming User_OnUnknownObject"
  "unconfirming (User_OnFinalResponse a) \<longleftrightarrow> \<not> CON (GetControl (mBuffer a))"
  "unconfirming (User_OnPartialResponse a) \<longleftrightarrow> \<not> CON (GetControl (mBuffer a))"
  "unconfirming (User_OnUnsolResponse a) \<longleftrightarrow> \<not> CON (GetControl (mBuffer a))"
  "unconfirming (Al_Lower_Send d) \<longleftrightarrow> frame_of d \<noteq> None"
  by (simp_all add: unconfirming_def)

lemma keeps_value [keeps_intros]: "(\<And>v. keeps P (k v)) \<Longrightarrow> keeps P (with_value f k)"
  by (simp add: keeps_def handler_simps split: sum.split)

lemma stalled_CheckForSend [keeps_intros]: "keeps (stalled os) Al_CheckForSend"
  unfolding keeps_def
proof (intro allI impI)
  fix s assume st: "stalled os s"
  show "stalled os (snd (Al_CheckForSend s))"
  proof (cases "al_SendQueue s")
    case Nil
    then show ?thesis using st by (simp add: Al_CheckForSend_def handler_simps)
  next
    case (Cons a q)
    then have "frame_of (written a) \<noteq> None" using st by (simp add: stalled_def no_confirm_def frame_of_written)
    then show ?thesis using st Cons stalled_emit [of os "s\<lparr>al_Sending := True\<rparr>" "Al_Lower_Send (written a)"]
      by (simp add: Al_CheckForSend_def handler_simps)
  qed
qed

lemma stalled_QueueFrame [keeps_intros]: "no_confirm a \<Longrightarrow> keeps (stalled os) (QueueFrame a)"
  unfolding QueueFrame_def
  by (auto intro!: keeps_intros stalled_queue simp: stalled_def)

lemmas channel_statements = ThrowInvalidState_def IncrSequence_def CaptureSequence_def Channel_ChangeState_def SetRetry_def
  Al_StartTimer_of_def Al_CancelTimer_of_def Channel_DoSendSuccess_def Channel_DoFailure_def to_idle_def

lemma stalled_Retry [keeps_intros]: "keeps (stalled os) body \<Longrightarrow> keeps (stalled os) (unless_Retry c st body)"
  unfolding keeps_def
proof (intro allI impI)
  fix s assume body: "\<forall>s. stalled os s \<longrightarrow> stalled os (snd (body s))" and st: "stalled os s"
  let ?t = "chan_update c (\<lambda>ch. ch\<lparr>ch_NumRetry := ch_NumRetry ch - 1, ch_State := st\<rparr>) s"
  have t: "stalled os ?t" by (rule stalled_chan [OF st]) simp
  show "stalled os (snd (unless_Retry c st body s))"
  proof (cases "ch_SendAPDU (chan c s)")
    case None
    then show ?thesis using t body st by (simp add: unless_Retry_def handler_simps)
  next
    case (Some a)
    then have "no_confirm a" using st by (auto simp: stalled_def)
    then have "stalled os (snd (QueueFrame a ?t))" using keepsD [OF stalled_QueueFrame t] by blast
    then show ?thesis using Some body st by (simp add: unless_Retry_def handler_simps)
  qed
qed

lemma stalled_states [keeps_intros]:
  "keeps (stalled os) (ACS_OnSendSuccess st c)" "keeps (stalled os) (ACS_OnSendFailure st c)"
  "keeps (stalled os) (ACS_OnTimeout st c)" "keeps (stalled os) (ACS_Cancel st c)"
  by (cases st; auto simp: channel_statements intro!: keeps_intros)+

lemma stalled_OnConfirm [keeps_intros]: "keeps (stalled os) (ACS_OnConfirm st c q)"
  unfolding ACS_OnConfirm_def by (auto simp: channel_statements intro!: keeps_intros)

lemma stalled_OnResponse:
  "\<not> CON (GetControl (mBuffer a)) \<Longrightarrow> keeps (stalled os) (ACS_OnResponse st c a)"
  unfolding ACS_OnResponse_def ProcessResponse_def by (auto simp: channel_statements intro!: keeps_intros)

lemma stalled_QueueConfirm: "stalled os s \<Longrightarrow> QueueConfirm u q s = (Some (Exception (if u then ALERR_UNSOL_FLOOD else ALERR_SOL_FLOOD)), s)"
  by (simp add: stalled_def QueueConfirm_def handler_simps)

lemma stalled_Response: "keeps (stalled os) (Al_OnResponse (GetControl (mBuffer a)) a)"
proof (cases "CON (GetControl (mBuffer a))")
  case True
  show ?thesis unfolding keeps_def
  proof (intro allI impI)
    fix s assume st: "stalled os s"
    have "ACS_OnResponse (ch_State (al_Solicited s)) Solicited a s = (None, s)"
      if "\<not> AcceptsResponse (ch_State (al_Solicited s))"
      using that by (simp add: ACS_OnResponse_def AcceptsResponse_def skip_def)
    then show "stalled os (snd (Al_OnResponse (GetControl (mBuffer a)) a s))"
      using True st stalled_QueueConfirm [OF st]
      by (simp add: Al_OnResponse_def throw_if_def if_else_def reading_def skip_def)
  qed
next
  case False
  then have "(if_else (\<lambda>s. CON (GetControl (mBuffer a)) \<and> AcceptsResponse (ch_State (chan Solicited s)))
      (QueueConfirm False (SEQ (GetControl (mBuffer a)))) skip) = skip"
    by (simp add: if_else_def fun_eq_iff)
  then show ?thesis unfolding Al_OnResponse_def
    using stalled_OnResponse [OF False] by (auto intro!: keeps_intros)
qed

lemma stalled_Unsol: "keeps (stalled os) (Al_OnUnsolResponse (GetControl (mBuffer a)) a)"
proof (cases "CON (GetControl (mBuffer a))")
  case True
  show ?thesis unfolding keeps_def
    using True stalled_QueueConfirm
    by (auto simp: Al_OnUnsolResponse_def handler_simps split: sum.split)
next
  case False
  then have "(if_else (\<lambda>s. CON (GetControl (mBuffer a))) (QueueConfirm True (SEQ (GetControl (mBuffer a)))) skip) = skip"
    by (simp add: if_else_def fun_eq_iff)
  then show ?thesis unfolding Al_OnUnsolResponse_def Unsolicited_OnUnsol_def
    using False by (auto simp: channel_statements intro!: keeps_intros)
qed

lemma stalled_Request: "keeps (stalled os) (Al_OnRequest ctrl a)"
  unfolding Al_OnRequest_def Solicited_OnRequest_def
  by (auto simp: channel_statements Let_def intro!: keeps_intros)

lemma stalled_dispatched: "keeps (stalled os) (dispatched a)"
  unfolding dispatched_def Let_def
  by (auto intro!: keeps_intros stalled_Response stalled_Unsol stalled_Request)

lemma stalled_receive: "keeps (stalled os) (Al_OnReceive d)"
  unfolding keeps_def
proof (intro allI impI)
  fix s assume st: "stalled os s"
  have unknown: "keeps (stalled os) (Al_OnUnknownObject f ctrl)" for f ctrl
    unfolding Al_OnUnknownObject_def by (auto simp: channel_statements intro!: keeps_intros)
  have caught: "keeps (stalled os) (Al_Catch e)" for e
    unfolding Al_Catch_def by (auto intro!: keeps_intros unknown)
  have body: "stalled os (snd (in_order [on_incoming (APDU_Write d), on_incoming Interpret, Al_Dispatch] s))"
  proof (cases rule: Receive_parses [of d s])
    case (parsed a)
    then show ?thesis using st keepsD [OF stalled_dispatched, of os "s\<lparr>al_Incoming := a\<rparr>" a] by simp
  next
    case (refused e a)
    then show ?thesis using st by simp
  qed
  obtain r t where rt: "in_order [on_incoming (APDU_Write d), on_incoming Interpret, Al_Dispatch] s = (r, t)"
    by (cases "in_order [on_incoming (APDU_Write d), on_incoming Interpret, Al_Dispatch] s")
  show "stalled os (snd (Al_OnReceive d s))"
    using body rt st keepsD [OF caught, where s = t]
    by (cases r) (simp_all add: Al_OnReceive_def throw_if_def try_catch_def)
qed

lemma stalled_send_result: "keeps (stalled os) (Al_OnSendResult ok)"
  unfolding keeps_def
proof (intro allI impI)
  fix s assume st: "stalled os s"
  show "stalled os (snd (Al_OnSendResult ok s))"
  proof (cases "al_SendQueue s")
    case Nil
    then show ?thesis using st by (simp add: Al_OnSendResult_def handler_simps)
  next
    case (Cons a q)
    then have a: "no_confirm a" "list_all no_confirm q" using st by (simp_all add: stalled_def)
    then have fn: "APDU_GetFunction a = Inr (GetFunction (mBuffer a))" "GetFunction (mBuffer a) \<noteq> FC_CONFIRM"
      by (auto simp: no_confirm_def ready_to_send_def APDU_GetFunction_def frame_of_None)
    let ?t = "s\<lparr>al_Sending := False, al_SendQueue := q\<rparr>"
    let ?c = "if GetFunction (mBuffer a) = FC_UNSOLICITED_RESPONSE then Unsolicited else Solicited"
    have t: "stalled os ?t" using st a by (simp add: stalled_queue)
    have "keeps (stalled os) (in_order [reading (\<lambda>s. (if ok then ACS_OnSendSuccess else ACS_OnSendFailure) (ch_State (chan ?c s)) ?c), Al_CheckForSend])"
      by (cases ok) (auto intro!: keeps_intros)
    from keepsD [OF this t] show ?thesis using Cons fn st
      by (cases "al_Sending s") (simp_all add: Al_OnSendResult_def handler_simps Let_def)
  qed
qed

lemma stalled_started:
  assumes "stalled os s" and "no_confirm a"
  shows "stalled os (started c q st n a s)"
proof -
  let ?t = "s\<lparr>al_Argument := a, al_SendQueue := al_SendQueue s @ [a], al_Sending := True\<rparr>"
  have "stalled os ?t" using assms by (simp add: stalled_def)
  moreover have "unconfirming (Al_Lower_Send (written a))"
    using assms(2) by (simp add: no_confirm_def frame_of_written)
  ultimately have "stalled os (?t\<lparr>al_out := al_out s @ (if al_Sending s then [] else [Al_Lower_Send (written a)])\<rparr>)"
    using stalled_emit [of os ?t] by simp
  with assms(2) show ?thesis by (auto simp: started_def stalled_def)
qed

lemma stalled_send:
  assumes inv: "app_inv s" and e: "event_channel e = Some c" and possible: "app_possible s e" and st: "stalled os s"
  shows "stalled os (snd (app_handle e s))"
proof (rule send_cases [OF e possible])
  fix a ex assume "app_handle e s = (Some ex, s\<lparr>al_Argument := a\<rparr>)"
  then show ?thesis using st by simp
next
  fix a assume a: "app_handle e s = Channel_Send c (GetRetries (event_function e) s) (s\<lparr>al_Argument := a\<rparr>)"
    "al_IsLowerLayerUp s" "ready_to_send a" "frame_of (mBuffer a) = Some c"
  let ?s = "s\<lparr>al_Argument := a\<rparr>"
  show ?thesis
  proof (cases "ch_State (chan c s) = ACS_Idle")
    case False
    then have "snd (app_handle e s) = ?s" unfolding a(1)
      by (cases "ch_State (chan c s)") (simp_all add: Channel_Send_def handler_simps)
    then show ?thesis using st by simp
  next
    case True
    have "al_LowerLayer ?s" using inv a(2) by (simp add: app_inv_def links_ok_def)
    note run = Idle_Send_runs [OF this, of c]
    have "no_confirm (stamped a q)" for q using a(3,4) by (simp add: no_confirm_def)
    then have "stalled os (started c q' st' n (stamped a q) ?s)" for q q' st' n
      using stalled_started st by simp
    moreover have "stalled os (chan_update c (\<lambda>ch. ch\<lparr>ch_Sequence := q\<rparr>) (s\<lparr>al_Argument := b\<rparr>))" for q b
      using st by (auto intro: stalled_chan)
    ultimately show ?thesis unfolding a(1)
      using True a(3) inv_sending [OF inv] by (simp add: run Let_def split: sum.split)
  qed
qed

lemma stalled_reset: "keeps (stalled os) (Channel_Reset c)"
  unfolding Channel_Reset_def by (auto intro!: keeps_intros)

lemma stalled_step:
  assumes "app_inv s" and "app_possible s e" and st: "stalled os s"
  shows "stalled os (snd (app_handle e s))"
proof (cases "event_channel e")
  case (Some c)
  then show ?thesis using stalled_send assms by blast
next
  case None
  have "keeps (stalled os) (app_handle e)"
  proof (cases e)
    case Ev_LowerLayerDown
    then show ?thesis using stalled_queue [of os _ "[]"]
      by (auto simp: Al_OnLowerLayerDown_def intro!: keeps_intros stalled_reset)
  qed (use None in \<open>auto simp: event_channel_def Al_SetUser_def Al_SetLowerLayer_def Al_OnLowerLayerUp_def Channel_Timeout_def
      CancelResponse_def CancelUnsolicitedRetries_def Channel_CancelRetries_def
      intro!: keeps_intros stalled_receive stalled_send_result\<close>)
  then show ?thesis using st by (rule keepsD)
qed

lemma stalled_run:
  assumes "app_inv s" and "stalled os s" and "feasible app_possible app_handle es s"
  shows "stalled os (run app_handle es s)"
  using assms
proof (induction es arbitrary: s)
  case (Cons e es)
  then show ?case using stalled_step app_step_parts(1) by simp
qed simp

text \<open>C34: A confirmation lost with the lower layer is never forgotten. If the lower layer goes down while a confirmation is
  queued or being sent, then in everything that can happen afterwards, the lower layer coming up again
  included, the application layer sends no confirmation and gives the user no response and no unsolicited response that
  asks for one.\<close>

theorem lost_confirmation_stalls:
  assumes "reachable app_handle app_possible app_start s" and "al_IsLowerLayerUp s" and "None \<in> set (frames s)"
    and "t = snd (app_handle Ev_LowerLayerDown s)" and "feasible app_possible app_handle es t"
  shows "\<exists>xs. al_out (run app_handle es t) = al_out t @ xs \<and> list_all unconfirming xs"
proof -
  have inv: "app_inv s" by (rule app.reachable_inv [OF assms(1)])
  then have flag: "al_ConfirmSending s" using assms(3) by (simp add: app_inv_def queue_ok_def)
  have inv_t: "app_inv t" unfolding assms(4)
    by (rule app_step_parts(1) [OF inv]) (simp add: app_possible_def assms(2))
  let ?off = "\<lambda>ch. ch\<lparr>ch_State := ACS_Idle, ch_Confirming := False, ch_Sequence := -1, ch_Timer := False\<rparr>"
  have user: "al_User s \<noteq> None" using inv assms(2) by (simp add: app_inv_def links_ok_def)
  have t: "al_SendQueue t = [] \<and> al_ConfirmSending t = al_ConfirmSending s \<and> (\<forall>c. chan c t = ?off (chan c s))"
    unfolding assms(4) using user assms(2)
    by (simp add: Al_OnLowerLayerDown_def reset_runs handler_simps) (metis channel.exhaust chan.simps)
  have "no_confirm a" if "ch_SendAPDU (chan c t) = Some a" for c a
    using t that inv_chan [OF inv, of c] by (simp add: channel_ok_def no_confirm_def)
  then have "stalled (al_out t) t" using t flag by (simp add: stalled_def)
  from stalled_run [OF inv_t this assms(5)] show ?thesis by (simp add: stalled_def)
qed


definition example_confirming :: AppLayer where
  "example_confirming = snd (app_handle (Ev_Receive example_response) example_waiting)"

theorem lost_confirmation_stalls_witness:
  "let t = snd (app_handle Ev_LowerLayerDown example_confirming);
       es = [Ev_LowerLayerUp, Ev_SendRequest example_request, Ev_SendResult True, Ev_Receive example_response]
   in \<exists>xs. al_out (run app_handle es t) = al_out t @ xs \<and> list_all unconfirming xs"
proof -
  have "app_possible example_waiting (Ev_Receive example_response)" by code_simp
  then have r: "reachable app_handle app_possible app_start example_confirming"
    unfolding example_confirming_def by (rule reachable_step [OF example_waiting_reachable])
  have "al_IsLowerLayerUp example_confirming" "None \<in> set (frames example_confirming)" by code_simp+
  note stalls = lost_confirmation_stalls [OF r this refl]
  show ?thesis unfolding Let_def by (rule stalls) code_simp
qed

section \<open>A retry after a partial response\<close>

lemma retried_run:
  assumes inv: "app_inv s" and queue: "al_SendQueue s = []"
    and st: "ch_State (al_Solicited s) = ACS_WaitForFinalResponse"
    and a: "ch_SendAPDU (al_Solicited s) = Some a" and retry: "0 < ch_NumRetry (al_Solicited s)"
  shows "feasible app_possible app_handle [Ev_Timeout Solicited, Ev_SendResult True] s"
    and "run app_handle [Ev_Timeout Solicited, Ev_SendResult True] s =
    s\<lparr>al_Solicited := (al_Solicited s)\<lparr>ch_NumRetry := ch_NumRetry (al_Solicited s) - 1, ch_State := ACS_WaitForFirstResponse\<rparr>,
      al_out := al_out s @ [Al_Lower_Send (written a), Al_StartTimer Solicited]\<rparr>"
proof -
  have ok: "ready_to_send a" "frame_of (mBuffer a) = Some Solicited" "ch_Timer (al_Solicited s)"
    using inv_chan [OF inv, of Solicited] a st by (auto simp: channel_ok_def state_sets)
  have idle: "\<not> al_Sending s" using inv_sending [OF inv] queue by simp
  have "al_IsLowerLayerUp s" by (rule inv_busy_up [OF inv, of Solicited]) (simp add: busy_def st)
  then have links: "al_LowerLayer s" "al_User s \<noteq> None" using inv by (simp_all add: app_inv_def links_ok_def)
  let ?ch = "(al_Solicited s)\<lparr>ch_NumRetry := ch_NumRetry (al_Solicited s) - 1, ch_State := ACS_SendExpectResponse, ch_Timer := False\<rparr>"
  let ?t = "s\<lparr>al_Solicited := ?ch, al_SendQueue := [a], al_Sending := True, al_out := al_out s @ [Al_Lower_Send (written a)]\<rparr>"
  have timeout: "snd (app_handle (Ev_Timeout Solicited) s) = ?t"
    using st a retry links idle queue
    by (simp add: Channel_Timeout_def handler_simps unless_Retry_def QueueFrame_runs)
  have at: "attempting Solicited ACS_SendExpectResponse a (ch_NumRetry (al_Solicited s) - 1) ?t"
    using ok links a by (auto simp: attempting_def ready_to_send_def)
  have "snd (app_handle (Ev_SendResult True) ?t) =
      ?t\<lparr>al_Sending := False, al_SendQueue := [],
        al_Solicited := ?ch\<lparr>ch_State := ACS_WaitForFirstResponse, ch_Timer := True\<rparr>,
        al_out := al_out s @ [Al_Lower_Send (written a), Al_StartTimer Solicited]\<rparr>"
    using SendResult_attempting [OF at, of True] by (simp add: handler_simps CheckForSend_idle)
  then show "run app_handle [Ev_Timeout Solicited, Ev_SendResult True] s =
    s\<lparr>al_Solicited := (al_Solicited s)\<lparr>ch_NumRetry := ch_NumRetry (al_Solicited s) - 1, ch_State := ACS_WaitForFirstResponse\<rparr>,
      al_out := al_out s @ [Al_Lower_Send (written a), Al_StartTimer Solicited]\<rparr>"
    using timeout idle queue ok(3) by (cases s) simp
  show "feasible app_possible app_handle [Ev_Timeout Solicited, Ev_SendResult True] s"
    using timeout ok(3) by (simp add: app_possible_def)
qed

text \<open>A retry after a partial response cannot succeed. When a request times out after a partial response was
  accepted, so that the channel has advanced its sequence number, and is sent again, the request goes out with its
  old number and any response carrying that number is discarded.\<close>

theorem retry_after_partial_response_is_deaf:
  assumes "reachable app_handle app_possible app_start s" and "al_SendQueue s = []"
    and "ch_State (al_Solicited s) = ACS_WaitForFinalResponse" and "ch_SendAPDU (al_Solicited s) = Some a"
    and "0 < ch_NumRetry (al_Solicited s)" and "SEQ (GetControl (mBuffer a)) \<noteq> ch_Sequence (al_Solicited s)"
    and "t = run app_handle [Ev_Timeout Solicited, Ev_SendResult True] s"
    and "parsed d t r" and "GetFunction (mBuffer r) = FC_RESPONSE" and "SEQ (GetControl (mBuffer r)) = SEQ (GetControl (mBuffer a))"
  shows "al_out t = al_out s @ [Al_Lower_Send (written a), Al_StartTimer Solicited] \<and>
    deliveries (snd (app_handle (Ev_Receive d) t)) = deliveries t \<and>
    ch_State (al_Solicited (snd (app_handle (Ev_Receive d) t))) = ACS_WaitForFirstResponse"
proof -
  have inv: "app_inv s" by (rule app.reachable_inv [OF assms(1)])
  note retry = retried_run [OF inv assms(2-5)]
  note t = retry(2) [folded assms(7)]
  have inv_t: "app_inv t" unfolding assms(7) by (rule app.run_inv [OF inv retry(1)])
  have hd: "mpAppHeader r \<noteq> None" using parsed_header [OF assms(8)] by blast
  have up: "al_IsLowerLayerUp t" by (rule inv_busy_up [OF inv_t, of Solicited]) (simp add: busy_def t)
  let ?t = "t\<lparr>al_Incoming := r\<rparr>"
  have refused: "\<not> response_accepted r ?t" using assms(6,10) by (simp add: response_accepted_def response_expected_def t)
  have "snd (app_handle (Ev_Receive d) t) = snd (Al_OnResponse (GetControl (mBuffer r)) r ?t)"
    using Receive_parsed [OF inv_t up assms(8)] assms(9) by (simp add: dispatched_def)
  also have "\<dots> = after_confirm False r (confirms r ?t) ?t"
    using response_runs [of ?t r] inv_t up hd refused by (simp add: Let_def)
  finally show ?thesis by (simp add: deliveries_def [of ?t] deliveries_def [of t]) (simp add: t)
qed

text \<open>A request, a first fragment of two, a timeout and the answer to the request sent again.\<close>

definition example_partial :: AppLayer where
  "example_partial = run app_handle [Ev_SetLowerLayer, Ev_SetUser True, Ev_LowerLayerUp, Ev_SendRequest example_request,
     Ev_SendResult True, Ev_Receive [0x80, 129, 0, 0]] (new_AppLayer example_config)"

theorem retry_after_partial_response_is_deaf_witness:
  "deliveries (snd (app_handle (Ev_Receive [0xC0, 129, 0, 0])
     (run app_handle [Ev_Timeout Solicited, Ev_SendResult True] example_partial))) = deliveries example_partial"
proof -
  have r: "reachable app_handle app_possible app_start example_partial"
    unfolding example_partial_def by (rule run_reachable) code_simp
  let ?a = "snd (APDU_Set FC_READ True True False False 0 (new_APDU 5))"
  let ?t = "run app_handle [Ev_Timeout Solicited, Ev_SendResult True] example_partial"
  let ?r = "snd (in_order [APDU_Write [0xC0, 129, 0, 0], Interpret] (al_Incoming ?t))"
  have h: "al_SendQueue example_partial = []" "ch_State (al_Solicited example_partial) = ACS_WaitForFinalResponse"
    "ch_SendAPDU (al_Solicited example_partial) = Some ?a" "0 < ch_NumRetry (al_Solicited example_partial)"
    "SEQ (GetControl (mBuffer ?a)) \<noteq> ch_Sequence (al_Solicited example_partial)"
    by code_simp+
  have p: "parsed [0xC0, 129, 0, 0] ?t ?r" unfolding parsed_def by code_simp
  have f: "GetFunction (mBuffer ?r) = FC_RESPONSE" "SEQ (GetControl (mBuffer ?r)) = SEQ (GetControl (mBuffer ?a))"
    by code_simp+
  have "deliveries ?t = deliveries example_partial" by code_simp
  with retry_after_partial_response_is_deaf [OF r h refl p f] show ?thesis by simp
qed

end
