(* ===== verification/Measurements.thy ===== *)
theory Measurements
  imports Prelude
begin

text \<open>
  Measurements (opendnp3/APL/BaseDataTypes, DataTypes, QualityMasks; opendnp3/DNP3/PointClass,
  DNPDatabaseTypes, VtoData): the five types of points with their quality, time and value, when a change of
  a point is worth an event, and the records the database and the event buffers keep of them.

  A \<open>double\<close> is an IEEE 754 binary64 value up to the sign of zero, which no comparison of the source sees:
  a finite one is its multiple of \<open>2 ^ -1074\<close>, the smallest positive value, so that a difference is computed
  exactly and then rounded to 53 significant bits, ties to even.
\<close>

section \<open>Doubles\<close>

datatype double = Double_NaN | Double_Infinity bool | Finite int

function bit_count :: "int \<Rightarrow> nat" where
  "bit_count n = (if n \<le> 0 then 0 else Suc (bit_count (n div 2)))"
  by pat_completeness auto
termination by (relation "measure nat") auto

declare bit_count.simps [simp del]

definition significant_bits :: "int \<Rightarrow> nat" where
  "significant_bits n = bit_count \<bar>n\<bar>"

text \<open>The nearest multiple of \<open>2 ^ k\<close>, ties to the even one.\<close>

definition nearest_multiple :: "nat \<Rightarrow> int \<Rightarrow> int" where
  "nearest_multiple k n =
     (let q = n div 2 ^ k; r = n mod 2 ^ k; h = 2 ^ k div 2
      in (if r < h \<or> r = h \<and> even q \<or> k = 0 then q else q + 1) * 2 ^ k)"

definition rounded :: "int \<Rightarrow> double" where
  "rounded n =
     (let m = nearest_multiple (significant_bits n - 53) n
      in if significant_bits m > 2098 then Double_Infinity (0 < n) else Finite m)"

fun double_minus :: "double \<Rightarrow> double \<Rightarrow> double" where
  "double_minus Double_NaN y = Double_NaN"
| "double_minus x Double_NaN = Double_NaN"
| "double_minus (Double_Infinity p) (Double_Infinity q) = (if p = q then Double_NaN else Double_Infinity p)"
| "double_minus (Double_Infinity p) (Finite n) = Double_Infinity p"
| "double_minus (Finite m) (Double_Infinity q) = Double_Infinity (\<not> q)"
| "double_minus (Finite m) (Finite n) = rounded (m - n)"

fun fabs :: "double \<Rightarrow> double" where
  "fabs Double_NaN = Double_NaN"
| "fabs (Double_Infinity p) = Double_Infinity True"
| "fabs (Finite n) = Finite \<bar>n\<bar>"

fun double_greater :: "double \<Rightarrow> double \<Rightarrow> bool" where
  "double_greater Double_NaN y = False"
| "double_greater x Double_NaN = False"
| "double_greater (Double_Infinity p) (Double_Infinity q) = (p \<and> \<not> q)"
| "double_greater (Double_Infinity p) (Finite n) = p"
| "double_greater (Finite m) (Double_Infinity q) = (\<not> q)"
| "double_greater (Finite m) (Finite n) = (n < m)"

text \<open>The conversion of a \<open>uint32_t\<close>, which every double represents exactly.\<close>

definition double_of_u32 :: "u32 \<Rightarrow> double" where
  "double_of_u32 w = Finite (uint w * 2 ^ 1074)"

section \<open>Points\<close>

datatype DataTypes = DT_BINARY | DT_ANALOG | DT_COUNTER | DT_CONTROL_STATUS | DT_SETPOINT_STATUS

text \<open>The bits the quality masks of all five types share, and the value of a binary.\<close>

definition Q_ONLINE :: byte where "Q_ONLINE = 0x01"
definition Q_RESTART :: byte where "Q_RESTART = 0x02"
definition Q_STATE :: byte where "Q_STATE = 0x80"

text \<open>\<open>BoolDataPoint\<close>: the value is a bit of the quality. \<open>TypedDataPoint<T>\<close>: it is a field of its own.\<close>

record BoolDataPoint =
  bp_Quality :: byte
  bp_Time :: int

record 'v TypedDataPoint =
  tp_Quality :: byte
  tp_Time :: int
  tp_Value :: 'v

type_synonym Binary = BoolDataPoint
type_synonym ControlStatus = BoolDataPoint
type_synonym Analog = "double TypedDataPoint"
type_synonym Counter = "u32 TypedDataPoint"
type_synonym SetpointStatus = "double TypedDataPoint"

definition bp_GetValue :: "BoolDataPoint \<Rightarrow> bool" where
  "bp_GetValue p \<longleftrightarrow> bp_Quality p AND Q_STATE \<noteq> 0"

definition bp_SetValue :: "bool \<Rightarrow> BoolDataPoint \<Rightarrow> BoolDataPoint" where
  "bp_SetValue v p = p\<lparr>bp_Quality := if v then bp_Quality p OR Q_STATE else bp_Quality p AND NOT Q_STATE\<rparr>"

definition bp_SetQuality :: "byte \<Rightarrow> BoolDataPoint \<Rightarrow> BoolDataPoint" where
  "bp_SetQuality q p = p\<lparr>bp_Quality := (bp_Quality p AND Q_STATE) OR q\<rparr>"

definition tp_SetQuality :: "byte \<Rightarrow> 'v TypedDataPoint \<Rightarrow> 'v TypedDataPoint" where
  "tp_SetQuality q p = p\<lparr>tp_Quality := q\<rparr>"

text \<open>The default constructors and the constructors from a value and a quality.\<close>

definition new_BoolDataPoint :: BoolDataPoint where
  "new_BoolDataPoint = \<lparr>bp_Quality = Q_RESTART, bp_Time = 0\<rparr>"

definition Binary_of :: "bool \<Rightarrow> byte \<Rightarrow> Binary" where
  "Binary_of v q = bp_SetValue v (bp_SetQuality q new_BoolDataPoint)"

definition ControlStatus_of :: "bool \<Rightarrow> byte \<Rightarrow> ControlStatus" where
  "ControlStatus_of v q = bp_SetQuality q (bp_SetValue v new_BoolDataPoint)"

definition new_TypedDataPoint :: "'v \<Rightarrow> 'v TypedDataPoint" where
  "new_TypedDataPoint zero = \<lparr>tp_Quality = Q_RESTART, tp_Time = 0, tp_Value = zero\<rparr>"

definition TypedDataPoint_of :: "'v \<Rightarrow> byte \<Rightarrow> 'v TypedDataPoint" where
  "TypedDataPoint_of v q = tp_SetQuality q ((new_TypedDataPoint v)\<lparr>tp_Value := v\<rparr>)"

text \<open>
  \<open>ExceedsDeadband\<close>, the template at \<open>uint32_t\<close> and its specialisation for \<open>double\<close>, and
  \<open>ShouldGenerateEvent\<close> of the two classes of points.
\<close>

definition ExceedsDeadband_u32 :: "u32 \<Rightarrow> u32 \<Rightarrow> double \<Rightarrow> bool" where
  "ExceedsDeadband_u32 v1 v2 deadband =
     (let diff = if v1 < v2 then v2 - v1 else v1 - v2
      in double_greater (double_of_u32 diff) deadband)"

definition ExceedsDeadband_double :: "double \<Rightarrow> double \<Rightarrow> double \<Rightarrow> bool" where
  "ExceedsDeadband_double v1 v2 deadband =
     (let val = fabs (double_minus v1 v2)
      in if val = Double_Infinity True then True else double_greater (fabs val) deadband)"

definition bp_ShouldGenerateEvent :: "BoolDataPoint \<Rightarrow> BoolDataPoint \<Rightarrow> double \<Rightarrow> bool \<Rightarrow> bool" where
  "bp_ShouldGenerateEvent p new deadband last_reported \<longleftrightarrow> bp_Quality p \<noteq> bp_Quality new"

definition tp_ShouldGenerateEvent ::
  "('v \<Rightarrow> 'v \<Rightarrow> double \<Rightarrow> bool) \<Rightarrow> 'v TypedDataPoint \<Rightarrow> 'v TypedDataPoint \<Rightarrow> double \<Rightarrow> 'v \<Rightarrow> bool" where
  "tp_ShouldGenerateEvent exceeds p new deadband last_reported =
     (if tp_Quality p \<noteq> tp_Quality new then True else exceeds (tp_Value new) last_reported deadband)"

section \<open>Classes\<close>

datatype PointClass = PC_CLASS_0 | PC_CLASS_1 | PC_CLASS_2 | PC_CLASS_3 | PC_ALL_EVENTS | PC_INVALID

fun class_bits :: "PointClass \<Rightarrow> byte" where
  "class_bits PC_CLASS_0 = 0x01"
| "class_bits PC_CLASS_1 = 0x02"
| "class_bits PC_CLASS_2 = 0x04"
| "class_bits PC_CLASS_3 = 0x08"
| "class_bits PC_ALL_EVENTS = 0x02 OR 0x04 OR 0x08"
| "class_bits PC_INVALID = 0x10"

definition class_overlaps :: "PointClass \<Rightarrow> PointClass \<Rightarrow> bool" where
  "class_overlaps c d \<longleftrightarrow> class_bits c AND class_bits d \<noteq> 0"

definition IntToPointClass :: "int \<Rightarrow> PointClass" where
  "IntToPointClass c =
     (if c = 1 then PC_CLASS_1 else if c = 2 then PC_CLASS_2 else if c = 3 then PC_CLASS_3 else PC_CLASS_0)"

section \<open>What the database and the event buffers keep\<close>

text \<open>\<open>PointInfo<T>\<close> and \<open>EventInfo<T>\<close>, each with the members of their base \<open>PointInfoBase<T>\<close>.\<close>

record ('m, 'v) PointInfo =
  pi_Value :: 'm
  pi_Class :: PointClass
  pi_Index :: nat
  pi_Deadband :: double
  pi_LastEventValue :: 'v
  pi_Sequence :: nat

record 'm EventInfo =
  ev_Value :: 'm
  ev_Class :: PointClass
  ev_Index :: nat
  ev_Sequence :: nat
  ev_Written :: bool

definition new_PointInfo :: "'m \<Rightarrow> 'v \<Rightarrow> ('m, 'v) PointInfo" where
  "new_PointInfo v zero = \<lparr>pi_Value = v, pi_Class = PC_CLASS_0, pi_Index = 0, pi_Deadband = Finite 0,
     pi_LastEventValue = zero, pi_Sequence = 0\<rparr>"

definition EventInfo_of :: "'m \<Rightarrow> PointClass \<Rightarrow> nat \<Rightarrow> 'm EventInfo" where
  "EventInfo_of v c i = \<lparr>ev_Value = v, ev_Class = c, ev_Index = i, ev_Sequence = 0, ev_Written = False\<rparr>"

text \<open>\<open>VtoData\<close>: its \<open>mSize\<close> first bytes of \<open>mpData\<close>, and its type.\<close>

datatype VtoDataType = VTODT_REMOTE_CLOSED | VTODT_REMOTE_OPENED | VTODT_DATA

record VtoData =
  vto_Data :: bytes
  vto_Type :: VtoDataType

definition vto_MAX_SIZE :: nat where "vto_MAX_SIZE = 255"

definition VtoData_signal :: "VtoDataType \<Rightarrow> VtoData" where
  "VtoData_signal t = \<lparr>vto_Data = [], vto_Type = t\<rparr>"

definition VtoData_of :: "bytes \<Rightarrow> exn + VtoData" where
  "VtoData_of xs = (if length xs \<le> vto_MAX_SIZE then Inr \<lparr>vto_Data = xs, vto_Type = VTODT_DATA\<rparr> else Inl AssertionFailed)"

section \<open>Facts\<close>

lemma class_overlaps_simps [simp]:
  "class_overlaps PC_CLASS_0 d \<longleftrightarrow> d = PC_CLASS_0"
  "class_overlaps PC_CLASS_1 d \<longleftrightarrow> d = PC_CLASS_1 \<or> d = PC_ALL_EVENTS"
  "class_overlaps PC_CLASS_2 d \<longleftrightarrow> d = PC_CLASS_2 \<or> d = PC_ALL_EVENTS"
  "class_overlaps PC_CLASS_3 d \<longleftrightarrow> d = PC_CLASS_3 \<or> d = PC_ALL_EVENTS"
  "class_overlaps PC_INVALID d \<longleftrightarrow> d = PC_INVALID"
  "class_overlaps PC_ALL_EVENTS d \<longleftrightarrow> d \<in> {PC_CLASS_1, PC_CLASS_2, PC_CLASS_3, PC_ALL_EVENTS}"
  by (cases d; simp add: class_overlaps_def)+

lemma double_of_u32_greater:
  "double_greater (double_of_u32 w) (double_of_u32 d) \<longleftrightarrow> uint d < uint w"
  by (simp add: double_of_u32_def)

lemma uint_distance: "uint (if v < w then w - v else v - w) = \<bar>uint v - uint w\<bar>" for v w :: "'a::len word"
  using uint_sub_lem [of v w] uint_sub_lem [of w v] by (auto simp: word_less_def)

lemma ExceedsDeadband_u32_iff:
  "ExceedsDeadband_u32 v w (double_of_u32 d) \<longleftrightarrow> uint d < \<bar>uint v - uint w\<bar>"
  unfolding ExceedsDeadband_u32_def Let_def double_of_u32_greater uint_distance ..

end
