(* ===== verification/EventBuffers.thy ===== *)
theory EventBuffers
  imports Measurements "HOL-Library.Multiset"
begin

text \<open>
  The event buffers of an outstation (opendnp3/DNP3/EventBufferBase, EventBuffers, BufferSetTypes,
  ClassCounter): events wait in an ordered set, are selected by class for a response, written, and
  then either cleared or put back. The template is instantiated in three ways: a set by index, of
  which a newer event of the index replaces the older one, a multiset by time, and a set in the order of insertion.

  A \<open>std::set\<close> or \<open>std::multiset\<close> is the list of its elements in the order of iteration; an iterator
  into it is a position of that list. Counters of \<open>size_t\<close> are natural numbers: each counts objects in
  memory or insertions since the buffer was last empty. The difference \<open>NumAvailable\<close> is taken modulo \<open>2 ^ 64\<close>.
\<close>

section \<open>The code\<close>

subsection \<open>Class counters\<close>

record ClassCounter =
  mNumClass1 :: nat
  mNumClass2 :: nat
  mNumClass3 :: nat

definition new_ClassCounter :: ClassCounter where
  "new_ClassCounter = \<lparr>mNumClass1 = 0, mNumClass2 = 0, mNumClass3 = 0\<rparr>"

fun GetNum :: "PointClass \<Rightarrow> ClassCounter \<Rightarrow> nat" where
  "GetNum PC_CLASS_1 k = mNumClass1 k"
| "GetNum PC_CLASS_2 k = mNumClass2 k"
| "GetNum PC_CLASS_3 k = mNumClass3 k"
| "GetNum PC_ALL_EVENTS k = mNumClass1 k + mNumClass2 k + mNumClass3 k"
| "GetNum _ k = 0"

fun IncrCount :: "PointClass \<Rightarrow> ClassCounter \<Rightarrow> ClassCounter" where
  "IncrCount PC_CLASS_1 k = k\<lparr>mNumClass1 := mNumClass1 k + 1\<rparr>"
| "IncrCount PC_CLASS_2 k = k\<lparr>mNumClass2 := mNumClass2 k + 1\<rparr>"
| "IncrCount PC_CLASS_3 k = k\<lparr>mNumClass3 := mNumClass3 k + 1\<rparr>"
| "IncrCount _ k = k"

fun DecrCount :: "PointClass \<Rightarrow> ClassCounter \<Rightarrow> exn + ClassCounter" where
  "DecrCount PC_CLASS_1 k =
     (if mNumClass1 k > 0 then Inr (k\<lparr>mNumClass1 := mNumClass1 k - 1\<rparr>) else Inl AssertionFailed)"
| "DecrCount PC_CLASS_2 k =
     (if mNumClass2 k > 0 then Inr (k\<lparr>mNumClass2 := mNumClass2 k - 1\<rparr>) else Inl AssertionFailed)"
| "DecrCount PC_CLASS_3 k =
     (if mNumClass3 k > 0 then Inr (k\<lparr>mNumClass3 := mNumClass3 k - 1\<rparr>) else Inl AssertionFailed)"
| "DecrCount _ k = Inr k"

subsection \<open>The ordered sets\<close>

text \<open>The three instances; \<open>GetTime\<close> of the measurement type is a parameter of the two that use it.\<close>

datatype 'm BufferKind = SingleEvent "'m \<Rightarrow> int" | TimeOrdered "'m \<Rightarrow> int" | InsertionOrdered

fun event_less :: "'m BufferKind \<Rightarrow> 'm EventInfo \<Rightarrow> 'm EventInfo \<Rightarrow> bool" where
  "event_less (SingleEvent GetTime) a b \<longleftrightarrow> ev_Index a < ev_Index b"
| "event_less (TimeOrdered GetTime) a b \<longleftrightarrow> GetTime (ev_Value a) < GetTime (ev_Value b)"
| "event_less InsertionOrdered a b \<longleftrightarrow> ev_Sequence a < ev_Sequence b"

text \<open>\<open>insert\<close> of a set, which does nothing when an equivalent element is there, and of a multiset.\<close>

fun set_insert :: "('a \<Rightarrow> 'a \<Rightarrow> bool) \<Rightarrow> 'a \<Rightarrow> 'a list \<Rightarrow> 'a list" where
  "set_insert lt x [] = [x]"
| "set_insert lt x (y # ys) =
     (if lt x y then x # y # ys else if lt y x then y # set_insert lt x ys else y # ys)"

fun multiset_insert :: "('a \<Rightarrow> 'a \<Rightarrow> bool) \<Rightarrow> 'a \<Rightarrow> 'a list \<Rightarrow> 'a list" where
  "multiset_insert lt x [] = [x]"
| "multiset_insert lt x (y # ys) = (if lt x y then x # y # ys else y # multiset_insert lt x ys)"

fun event_insert :: "'m BufferKind \<Rightarrow> 'm EventInfo \<Rightarrow> 'm EventInfo list \<Rightarrow> 'm EventInfo list" where
  "event_insert (TimeOrdered GetTime) e es = multiset_insert (event_less (TimeOrdered GetTime)) e es"
| "event_insert kind e es = set_insert (event_less kind) e es"

text \<open>\<open>find\<close> and \<open>erase\<close> of the element equivalent to \<open>x\<close> in a set.\<close>

fun set_find :: "('a \<Rightarrow> 'a \<Rightarrow> bool) \<Rightarrow> 'a \<Rightarrow> 'a list \<Rightarrow> 'a option" where
  "set_find lt x [] = None"
| "set_find lt x (y # ys) = (if \<not> lt x y \<and> \<not> lt y x then Some y else set_find lt x ys)"

fun set_erase :: "('a \<Rightarrow> 'a \<Rightarrow> bool) \<Rightarrow> 'a \<Rightarrow> 'a list \<Rightarrow> 'a list" where
  "set_erase lt x [] = []"
| "set_erase lt x (y # ys) = (if \<not> lt x y \<and> \<not> lt y x then ys else y # set_erase lt x ys)"

subsection \<open>The buffer\<close>

record 'm EventBuffer =
  eb_Counter :: ClassCounter
  eb_MaxEvents :: nat
  eb_Sequence :: nat
  eb_IsOverflown :: bool
  eb_Selected :: "'m EventInfo list"
  eb_Set :: "'m EventInfo list"

definition new_EventBuffer :: "nat \<Rightarrow> 'm EventBuffer" where
  "new_EventBuffer aMaxEvents = \<lparr>eb_Counter = new_ClassCounter, eb_MaxEvents = aMaxEvents, eb_Sequence = 0,
     eb_IsOverflown = False, eb_Selected = [], eb_Set = []\<rparr>"

definition HasClassData :: "PointClass \<Rightarrow> 'm EventBuffer \<Rightarrow> bool" where
  "HasClassData aClass b \<longleftrightarrow> GetNum aClass (eb_Counter b) > 0"

definition NumSelected :: "'m EventBuffer \<Rightarrow> nat" where "NumSelected b = length (eb_Selected b)"

definition NumUnselected :: "'m EventBuffer \<Rightarrow> nat" where "NumUnselected b = length (eb_Set b)"

definition EventBuffer_Size :: "'m EventBuffer \<Rightarrow> nat" where
  "EventBuffer_Size b = length (eb_Selected b) + length (eb_Set b)"

definition NumAvailable :: "'m EventBuffer \<Rightarrow> nat" where
  "NumAvailable b = nat ((int (eb_MaxEvents b) - int (EventBuffer_Size b)) mod 2 ^ 64)"

definition EventBuffer_IsFull :: "'m EventBuffer \<Rightarrow> bool" where
  "EventBuffer_IsFull b \<longleftrightarrow> NumUnselected b \<ge> eb_MaxEvents b"

text \<open>A function with a result that also changes the buffer returns both.\<close>

definition EventBuffer_IsOverflown :: "'m EventBuffer \<Rightarrow> bool \<times> 'm EventBuffer" where
  "EventBuffer_IsOverflown b =
     (let b' = if eb_IsOverflown b \<and> EventBuffer_Size b < eb_MaxEvents b then b\<lparr>eb_IsOverflown := False\<rparr> else b
      in (eb_IsOverflown b', b'))"

text \<open>\<open>_Update\<close> of the base class and its override in \<open>SingleEventBuffer\<close>.\<close>

definition Base_NVII_Update :: "'m BufferKind \<Rightarrow> 'm EventInfo \<Rightarrow> 'm EventBuffer \<Rightarrow> 'm EventBuffer" where
  "Base_NVII_Update kind arEvent b =
     b\<lparr>eb_Counter := IncrCount (ev_Class arEvent) (eb_Counter b), eb_Set := event_insert kind arEvent (eb_Set b)\<rparr>"

definition Single_NVII_Update :: "('m \<Rightarrow> int) \<Rightarrow> 'm EventInfo \<Rightarrow> 'm EventBuffer \<Rightarrow> 'm EventBuffer" where
  "Single_NVII_Update GetTime arEvent b =
     (let lt = event_less (SingleEvent GetTime)
      in case set_find lt arEvent (eb_Set b) of
        Some i \<Rightarrow>
          if GetTime (ev_Value arEvent) \<ge> GetTime (ev_Value i)
          then b\<lparr>eb_Set := set_insert lt arEvent (set_erase lt i (eb_Set b))\<rparr>
          else b
      | None \<Rightarrow>
          b\<lparr>eb_Set := set_insert lt arEvent (eb_Set b),
            eb_Counter := IncrCount (ev_Class arEvent) (eb_Counter b)\<rparr>)"

fun NVII_Update :: "'m BufferKind \<Rightarrow> 'm EventInfo \<Rightarrow> 'm EventBuffer \<Rightarrow> 'm EventBuffer" where
  "NVII_Update (SingleEvent GetTime) e b = Single_NVII_Update GetTime e b"
| "NVII_Update kind e b = Base_NVII_Update kind e b"

text \<open>The protected \<open>Update\<close> and the public one.\<close>

definition UpdateEvent :: "'m BufferKind \<Rightarrow> 'm EventInfo \<Rightarrow> bool \<Rightarrow> 'm EventBuffer \<Rightarrow> 'm EventBuffer" where
  "UpdateEvent kind arEvent aNewValue b =
     (let b0 = if EventBuffer_Size b = 0 then b\<lparr>eb_Sequence := 0\<rparr> else b
      in if aNewValue
         then NVII_Update kind (arEvent\<lparr>ev_Sequence := eb_Sequence b0\<rparr>) (b0\<lparr>eb_Sequence := eb_Sequence b0 + 1\<rparr>)
         else NVII_Update kind arEvent b0)"

definition DropFirst :: "'m EventBuffer handler" where
  "DropFirst b =
     (case DecrCount (ev_Class (hd (eb_Set b))) (eb_Counter b) of
        Inl e \<Rightarrow> (Some e, b)
      | Inr k \<Rightarrow> (None, b\<lparr>eb_Counter := k, eb_Set := tl (eb_Set b)\<rparr>))"

definition EventBuffer_Update :: "'m BufferKind \<Rightarrow> 'm \<Rightarrow> PointClass \<Rightarrow> nat \<Rightarrow> 'm EventBuffer handler" where
  "EventBuffer_Update kind arVal aClass aIndex =
     in_order [
       modify (UpdateEvent kind (EventInfo_of arVal aClass aIndex) True),
       if_else (\<lambda>b. NumUnselected b > eb_MaxEvents b)
         (in_order [modify (\<lambda>b. b\<lparr>eb_IsOverflown := True\<rparr>), DropFirst])
         skip]"

text \<open>
  \<open>Select\<close>: the iterator has passed \<open>before\<close> and stands at the beginning of \<open>ahead\<close>. It returns how many
  events it has selected.
\<close>

fun Select_from ::
  "PointClass \<Rightarrow> nat \<Rightarrow> nat \<Rightarrow> 'm EventInfo list \<Rightarrow> 'm EventInfo list \<Rightarrow> 'm EventBuffer \<Rightarrow> (exn + nat) \<times> 'm EventBuffer"
where
  "Select_from aClass aMaxEvent cnt before [] b = (Inr cnt, b)"
| "Select_from aClass aMaxEvent cnt before (i # ahead) b =
     (if cnt < aMaxEvent then
        if class_overlaps (ev_Class i) aClass then
          case DecrCount (ev_Class i) (eb_Counter b) of
            Inl e \<Rightarrow> (Inl e, b)
          | Inr k \<Rightarrow>
              Select_from aClass aMaxEvent (cnt + 1) before ahead
                (b\<lparr>eb_Counter := k, eb_Selected := eb_Selected b @ [i\<lparr>ev_Written := False\<rparr>],
                   eb_Set := before @ ahead\<rparr>)
        else Select_from aClass aMaxEvent cnt (before @ [i]) ahead b
      else (Inr cnt, b))"

definition EventBuffer_Select :: "PointClass \<Rightarrow> nat \<Rightarrow> 'm EventBuffer \<Rightarrow> (exn + nat) \<times> 'm EventBuffer" where
  "EventBuffer_Select aClass aMaxEvent b = Select_from aClass aMaxEvent 0 [] (eb_Set b) b"

text \<open>
  \<open>Deselect\<close>: the loop runs over \<open>mSelectedEvents\<close>, which its body does not change. \<open>ClearWrittenEvents\<close>
  erases the leading written events. Both return a number of events.
\<close>

definition EventBuffer_Deselect :: "'m BufferKind \<Rightarrow> 'm EventBuffer \<Rightarrow> nat \<times> 'm EventBuffer" where
  "EventBuffer_Deselect kind b =
     (length (eb_Selected b),
      (fold (\<lambda>e. UpdateEvent kind e False) (eb_Selected b) b)\<lparr>eb_Selected := []\<rparr>)"

definition ClearWrittenEvents :: "'m EventBuffer \<Rightarrow> nat \<times> 'm EventBuffer" where
  "ClearWrittenEvents b =
     (length (takeWhile ev_Written (eb_Selected b)), b\<lparr>eb_Selected := dropWhile ev_Written (eb_Selected b)\<rparr>)"

text \<open>What the code that writes a response does through the iterator of \<open>Begin()\<close>: \<open>itr->mWritten = true\<close>.\<close>

definition MarkWritten :: "nat \<Rightarrow> 'm EventBuffer \<Rightarrow> 'm EventBuffer" where
  "MarkWritten n b =
     b\<lparr>eb_Selected := (if n < length (eb_Selected b)
        then (eb_Selected b)[n := (eb_Selected b ! n)\<lparr>ev_Written := True\<rparr>] else eb_Selected b)\<rparr>"


section \<open>Ordered containers\<close>

text \<open>
  What the buffer relies on in the standard library's ordered containers: insertion keeps the order, adds the
  element when nothing stands in its way, and erasing keeps the order. A set and a multiset over a comparison that
  compares keys provide it.
\<close>

locale ordered_container =
  fixes inserted :: "'a \<Rightarrow> 'a list \<Rightarrow> 'a list"
    and ordered :: "'a list \<Rightarrow> bool"
    and fresh :: "'a \<Rightarrow> 'a list \<Rightarrow> bool"
  assumes ordered_empty: "ordered []"
    and ordered_insert: "ordered xs \<Longrightarrow> ordered (inserted x xs)"
    and ordered_erase: "ordered (xs @ y # ys) \<Longrightarrow> ordered (xs @ ys)"
    and mset_insert: "ordered xs \<Longrightarrow> fresh x xs \<Longrightarrow> mset (inserted x xs) = add_mset x (mset xs)"
begin

lemma length_insert: "ordered xs \<Longrightarrow> fresh x xs \<Longrightarrow> length (inserted x xs) = Suc (length xs)"
  using arg_cong [OF mset_insert, of xs x size] by simp

lemma filter_insert:
  "ordered xs \<Longrightarrow> fresh x xs \<Longrightarrow>
   length (filter P (inserted x xs)) = (if P x then 1 else 0) + length (filter P xs)"
  using arg_cong [OF mset_insert, of xs x "\<lambda>M. size (filter_mset P M)"] by (simp flip: mset_filter)

end

locale key_order =
  fixes lt :: "'a \<Rightarrow> 'a \<Rightarrow> bool"
    and key :: "'a \<Rightarrow> 'k::linorder"
  assumes lt_key: "lt a b \<longleftrightarrow> key a < key b"
begin

lemma lt_fun: "lt = (\<lambda>a b. key a < key b)"
  by (simp add: lt_key fun_eq_iff)

lemma set_set_insert: "set (set_insert lt x xs) \<subseteq> insert x (set xs)"
  by (induction xs) auto

lemma set_multiset_insert: "set (multiset_insert lt x xs) = insert x (set xs)"
  by (induction xs) auto

lemma sorted_set_insert: "sorted_wrt lt xs \<Longrightarrow> sorted_wrt lt (set_insert lt x xs)"
proof (induction xs)
  case (Cons y ys)
  then have sorted: "sorted_wrt lt (set_insert lt x ys)" and above: "\<forall>z \<in> set ys. lt y z" by auto
  have "\<forall>z \<in> set (set_insert lt x ys). lt y z" if "lt y x"
    using set_set_insert [of x ys] above that by blast
  with Cons.prems sorted show ?case unfolding lt_fun by auto
qed simp

lemma sorted_multiset_insert:
  "sorted_wrt (\<lambda>a b. \<not> lt b a) xs \<Longrightarrow> sorted_wrt (\<lambda>a b. \<not> lt b a) (multiset_insert lt x xs)"
proof (induction xs)
  case (Cons y ys)
  then have sorted: "sorted_wrt (\<lambda>a b. \<not> lt b a) (multiset_insert lt x ys)"
    and above: "\<forall>z \<in> set ys. \<not> lt z y" by auto
  with Cons.prems show ?case unfolding lt_fun set_multiset_insert by (auto simp: set_multiset_insert [unfolded lt_fun])
qed simp

lemma mset_set_insert: "\<forall>y \<in> set xs. key y \<noteq> key x \<Longrightarrow> mset (set_insert lt x xs) = add_mset x (mset xs)"
  by (induction xs) (auto simp: lt_key)

lemma mset_multiset_insert: "mset (multiset_insert lt x xs) = add_mset x (mset xs)"
  by (induction xs) auto

lemma set_find_None: "set_find lt x xs = None \<longleftrightarrow> (\<forall>y \<in> set xs. key y \<noteq> key x)"
  by (induction xs) (auto simp: lt_key)

lemma set_find_Some: "set_find lt x xs = Some y \<Longrightarrow> y \<in> set xs \<and> key y = key x"
  by (induction xs) (auto simp: lt_key split: if_splits)

lemma set_erase_split:
  assumes "set_find lt x xs = Some y"
  shows "\<exists>us vs. xs = us @ y # vs \<and> set_erase lt x xs = us @ vs \<and> set_erase lt y xs = us @ vs"
  using assms
proof (induction xs)
  case (Cons z zs)
  show ?case
  proof (cases "key z = key x")
    case True
    with Cons.prems show ?thesis by (auto simp: lt_key)
  next
    case False
    then have "lt x z \<or> lt z x" by (auto simp: lt_key)
    with Cons.prems have found: "set_find lt x zs = Some y" by auto
    with False have "key z \<noteq> key y" using set_find_Some by fastforce
    from Cons.IH [OF found] obtain us vs where
      "zs = us @ y # vs" "set_erase lt x zs = us @ vs" "set_erase lt y zs = us @ vs" by blast
    moreover from False \<open>key z \<noteq> key y\<close> have "lt x z \<or> lt z x" "lt y z \<or> lt z y" by (auto simp: lt_key)
    ultimately show ?thesis by (intro exI [of _ "z # us"] exI [of _ vs]) auto
  qed
qed simp

text \<open>Two sets with the same elements are iterated in the same order.\<close>

lemma sorted_set_unique: "sorted_wrt lt xs \<Longrightarrow> sorted_wrt lt ys \<Longrightarrow> mset xs = mset ys \<Longrightarrow> xs = ys"
proof (induction xs arbitrary: ys)
  case (Cons x xs)
  from Cons.prems(3) obtain y ys' where ys: "ys = y # ys'" by (cases ys) auto
  have "x = y"
  proof (rule ccontr)
    assume "x \<noteq> y"
    with Cons.prems(3) ys have "x \<in> set ys'" "y \<in> set xs"
      by (auto simp: add_eq_conv_ex simp flip: set_mset_mset)
    with Cons.prems ys have "lt x y" "lt y x" by auto
    then show False by (simp add: lt_key)
  qed
  with Cons ys show ?case by auto
qed simp

end

sublocale key_order \<subseteq> unique: ordered_container
  "set_insert lt" "sorted_wrt lt" "\<lambda>x xs. \<forall>y \<in> set xs. key y \<noteq> key x"
  by unfold_locales (auto simp: sorted_set_insert mset_set_insert sorted_wrt_append)

sublocale key_order \<subseteq> multi: ordered_container
  "multiset_insert lt" "sorted_wrt (\<lambda>a b. \<not> lt b a)" "\<lambda>x xs. True"
  by unfold_locales (auto simp: sorted_multiset_insert mset_multiset_insert sorted_wrt_append)

interpretation by_index: key_order "event_less (SingleEvent GetTime)" ev_Index for GetTime
  by unfold_locales simp

interpretation by_time: key_order "event_less (TimeOrdered GetTime)" "\<lambda>e. GetTime (ev_Value e)" for GetTime
  by unfold_locales simp

interpretation by_insertion: key_order "event_less InsertionOrdered" ev_Sequence
  by unfold_locales simp

end
