(* ===== verification/EventDeliveries.thy ===== *)
theory EventDeliveries
  imports EventBuffers
begin

text \<open>
  What the event buffers (EventBuffers) promise: their counters are exact, so that no assertion fails; a selection takes
  the first events of a class; what was selected and not written comes back; no event is lost except by
  overflow. And what they do not: a buffer grows past its limit when selections fail, and a
  counter event that is put back replaces a newer one of the same time.
\<close>

section \<open>The invariant\<close>

text \<open>The counters of a list of events; they depend on its elements only.\<close>

definition count_classes :: "'m EventInfo list \<Rightarrow> ClassCounter" where
  "count_classes es = \<lparr>mNumClass1 = length (filter (\<lambda>e. ev_Class e = PC_CLASS_1) es),
     mNumClass2 = length (filter (\<lambda>e. ev_Class e = PC_CLASS_2) es),
     mNumClass3 = length (filter (\<lambda>e. ev_Class e = PC_CLASS_3) es)\<rparr>"

lemma length_filter_mset: "mset xs = mset ys \<Longrightarrow> length (filter P xs) = length (filter P ys)"
  by (metis mset_filter size_mset)

lemma count_classes_mset: "mset xs = mset ys \<Longrightarrow> count_classes xs = count_classes ys"
  by (simp add: count_classes_def length_filter_mset [of xs ys])

lemma count_classes_Nil [simp]: "count_classes [] = new_ClassCounter"
  by (simp add: count_classes_def new_ClassCounter_def)

lemma count_classes_Cons [simp]: "count_classes (e # es) = IncrCount (ev_Class e) (count_classes es)"
  by (cases "ev_Class e") (simp_all add: count_classes_def)

lemma DecrCount_IncrCount [simp]: "DecrCount c (IncrCount c k) = Inr k"
  by (cases c) simp_all

lemma count_classes_class: "mset xs = add_mset e (mset ys) \<Longrightarrow> count_classes xs = IncrCount (ev_Class e) (count_classes ys)"
  using count_classes_mset [of xs "e # ys"] by simp

lemma GetNum_count_classes:
  "c \<noteq> PC_CLASS_0 \<Longrightarrow> c \<noteq> PC_INVALID \<Longrightarrow> \<forall>e \<in> set es. ev_Class e \<noteq> PC_ALL_EVENTS \<Longrightarrow>
   GetNum c (count_classes es) = length (filter (\<lambda>e. class_overlaps (ev_Class e) c) es)"
proof (induction es)
  case (Cons e es)
  then show ?case by (cases c; cases "ev_Class e") simp_all
qed (cases c; simp add: new_ClassCounter_def)

fun event_ordered :: "'m BufferKind \<Rightarrow> 'm EventInfo list \<Rightarrow> bool" where
  "event_ordered (TimeOrdered GetTime) es = sorted_wrt (\<lambda>a b. \<not> event_less (TimeOrdered GetTime) b a) es"
| "event_ordered kind es = sorted_wrt (event_less kind) es"

text \<open>
  In a buffer that keeps one event for each index an index belongs to one class: the counters rely on it, since
  a newer event replaces an older one without being counted.
\<close>

fun classified :: "'m BufferKind \<Rightarrow> (nat \<Rightarrow> PointClass) \<Rightarrow> PointClass \<Rightarrow> nat \<Rightarrow> bool" where
  "classified (SingleEvent GetTime) cls c i \<longleftrightarrow> c = cls i"
| "classified kind cls c i \<longleftrightarrow> True"

definition set_inv :: "'m BufferKind \<Rightarrow> (nat \<Rightarrow> PointClass) \<Rightarrow> 'm EventBuffer \<Rightarrow> bool" where
  "set_inv kind cls b \<longleftrightarrow> event_ordered kind (eb_Set b) \<and> eb_Counter b = count_classes (eb_Set b) \<and>
     (\<forall>e \<in> set (eb_Set b). classified kind cls (ev_Class e) (ev_Index e))"

text \<open>The events \<open>sel\<close> and those of the set have sequence numbers of their own, all of them given out.\<close>

definition sequenced :: "'m EventInfo list \<Rightarrow> 'm EventBuffer \<Rightarrow> bool" where
  "sequenced sel b \<longleftrightarrow> distinct (map ev_Sequence (sel @ eb_Set b)) \<and>
     (\<forall>e \<in> set (sel @ eb_Set b). ev_Sequence e < eb_Sequence b)"

definition buffer_inv :: "'m BufferKind \<Rightarrow> (nat \<Rightarrow> PointClass) \<Rightarrow> 'm EventBuffer \<Rightarrow> bool" where
  "buffer_inv kind cls b \<longleftrightarrow> set_inv kind cls b \<and> sequenced (eb_Selected b) b \<and>
     (\<forall>e \<in> set (eb_Selected b). classified kind cls (ev_Class e) (ev_Index e))"

section \<open>Insertion\<close>

fun is_single :: "'m BufferKind \<Rightarrow> bool" where
  "is_single (SingleEvent GetTime) = True"
| "is_single kind = False"

lemma Base_NVII_Update_set:
  assumes "event_ordered kind (eb_Set b)" and "\<not> is_single kind"
    and "ev_Sequence e \<notin> ev_Sequence ` set (eb_Set b)"
  shows "event_ordered kind (event_insert kind e (eb_Set b))"
    and "mset (event_insert kind e (eb_Set b)) = add_mset e (mset (eb_Set b))"
proof -
  show "event_ordered kind (event_insert kind e (eb_Set b))" using assms
    by (cases kind) (auto intro: by_time.multi.ordered_insert by_insertion.unique.ordered_insert simp del: event_less.simps)
  from assms(3) have "\<forall>y \<in> set (eb_Set b). ev_Sequence y \<noteq> ev_Sequence e" by (auto intro: rev_image_eqI)
  then show "mset (event_insert kind e (eb_Set b)) = add_mset e (mset (eb_Set b))" using assms(2)
    by (cases kind) (auto simp: by_time.mset_multiset_insert by_insertion.mset_set_insert simp del: event_less.simps)
qed

lemma Single_NVII_Update_cases:
  assumes "set_inv (SingleEvent GetTime) cls b" and "ev_Class e = cls (ev_Index e)"
  obtains
    (added) "\<forall>i \<in> set (eb_Set b). ev_Index i \<noteq> ev_Index e"
      "mset (eb_Set (Single_NVII_Update GetTime e b)) = add_mset e (mset (eb_Set b))"
      "eb_Counter (Single_NVII_Update GetTime e b) = IncrCount (ev_Class e) (eb_Counter b)"
  | (replaced) i rest where "mset (eb_Set b) = add_mset i (mset rest)" "ev_Index i = ev_Index e"
      "GetTime (ev_Value i) \<le> GetTime (ev_Value e)"
      "mset (eb_Set (Single_NVII_Update GetTime e b)) = add_mset e (mset rest)"
      "eb_Counter (Single_NVII_Update GetTime e b) = eb_Counter b"
  | (older) i where "i \<in> set (eb_Set b)" "ev_Index i = ev_Index e" "GetTime (ev_Value e) < GetTime (ev_Value i)"
      "Single_NVII_Update GetTime e b = b"
proof (cases "set_find (event_less (SingleEvent GetTime)) e (eb_Set b)")
  case None
  then have "\<forall>i \<in> set (eb_Set b). ev_Index i \<noteq> ev_Index e" by (simp add: by_index.set_find_None del: event_less.simps)
  with None show thesis
    by (intro added) (simp_all add: Single_NVII_Update_def Let_def by_index.mset_set_insert del: event_less.simps)
next
  case (Some i)
  note i = by_index.set_find_Some [OF Some]
  from by_index.set_erase_split [OF Some] obtain us vs where split: "eb_Set b = us @ i # vs"
    "set_erase (event_less (SingleEvent GetTime)) i (eb_Set b) = us @ vs" by blast
  from assms(1) split have "sorted_wrt (event_less (SingleEvent GetTime)) (us @ i # vs)"
    by (simp add: set_inv_def)
  then have other: "\<forall>j \<in> set (us @ vs). ev_Index j \<noteq> ev_Index e"
    using i by (auto simp: sorted_wrt_append)
  show thesis
  proof (cases "GetTime (ev_Value e) \<ge> GetTime (ev_Value i)")
    case True
    with Some i split other show thesis
      by (intro replaced [of i "us @ vs"])
        (simp_all add: Single_NVII_Update_def Let_def by_index.mset_set_insert del: event_less.simps)
  next
    case False
    with Some i show thesis by (intro older [of i]) (simp_all add: Single_NVII_Update_def Let_def del: event_less.simps)
  qed
qed

lemma Single_NVII_Update_ordered:
  assumes "event_ordered (SingleEvent GetTime) (eb_Set b)"
  shows "event_ordered (SingleEvent GetTime) (eb_Set (Single_NVII_Update GetTime e b))"
proof (cases "set_find (event_less (SingleEvent GetTime)) e (eb_Set b)")
  case None
  with assms show ?thesis
    by (simp add: Single_NVII_Update_def Let_def by_index.unique.ordered_insert del: event_less.simps)
next
  case (Some i)
  from by_index.set_erase_split [OF Some] obtain us vs where split: "eb_Set b = us @ i # vs"
    "set_erase (event_less (SingleEvent GetTime)) i (eb_Set b) = us @ vs" by blast
  with assms have "sorted_wrt (event_less (SingleEvent GetTime)) (us @ vs)"
    by (auto intro: by_index.unique.ordered_erase simp del: event_less.simps)
  with assms Some split show ?thesis
    by (simp add: Single_NVII_Update_def Let_def by_index.unique.ordered_insert del: event_less.simps)
qed

lemma NVII_Update_frame [simp]:
  "eb_MaxEvents (NVII_Update kind e b) = eb_MaxEvents b"
  "eb_Sequence (NVII_Update kind e b) = eb_Sequence b"
  "eb_IsOverflown (NVII_Update kind e b) = eb_IsOverflown b"
  "eb_Selected (NVII_Update kind e b) = eb_Selected b"
  by (cases kind; simp add: Base_NVII_Update_def Single_NVII_Update_def Let_def split: option.split)+

lemma NVII_Update_added:
  "\<not> is_single kind \<Longrightarrow> event_ordered kind (eb_Set b) \<Longrightarrow> ev_Sequence e \<notin> ev_Sequence ` set (eb_Set b) \<Longrightarrow>
   mset (eb_Set (NVII_Update kind e b)) = add_mset e (mset (eb_Set b))"
  by (cases kind) (simp_all add: Base_NVII_Update_def Base_NVII_Update_set del: event_insert.simps)

text \<open>What an insertion of an event with a sequence number of its own keeps, whatever the kind.\<close>

lemma set_inv_mset:
  assumes "set_inv kind cls b" and "event_ordered kind (eb_Set b')"
    and "mset (eb_Set b') = add_mset e (mset (eb_Set b))" and "eb_Counter b' = IncrCount (ev_Class e) (eb_Counter b)"
    and "classified kind cls (ev_Class e) (ev_Index e)"
  shows "set_inv kind cls b'"
  using assms(1,2,4,5) count_classes_class [OF assms(3)] arg_cong [OF assms(3), of set_mset] by (simp add: set_inv_def)

lemma NVII_Update_inv:
  assumes inv: "set_inv kind cls b" and cls: "classified kind cls (ev_Class e) (ev_Index e)"
    and fresh: "ev_Sequence e \<notin> ev_Sequence ` set (eb_Set b)"
  shows "set_inv kind cls (NVII_Update kind e b)"
    and "mset (eb_Set (NVII_Update kind e b)) \<subseteq># add_mset e (mset (eb_Set b))"
proof -
  let ?b = "NVII_Update kind e b"
  have "set_inv kind cls ?b \<and> mset (eb_Set ?b) \<subseteq># add_mset e (mset (eb_Set b))"
  proof (cases "is_single kind")
    case False
    with inv fresh have "mset (eb_Set ?b) = add_mset e (mset (eb_Set b))"
      by (simp add: NVII_Update_added set_inv_def)
    moreover from False inv fresh have "event_ordered kind (eb_Set ?b)" "eb_Counter ?b = IncrCount (ev_Class e) (eb_Counter b)"
      by (cases kind; simp add: Base_NVII_Update_def Base_NVII_Update_set set_inv_def del: event_insert.simps event_ordered.simps)+
    ultimately show ?thesis using set_inv_mset [OF inv _ _ _ cls] by simp
  next
    case True
    then obtain GetTime where kind: "kind = SingleEvent GetTime" by (cases kind) auto
    with inv have ordered: "event_ordered kind (eb_Set ?b)"
      by (simp add: Single_NVII_Update_ordered set_inv_def del: event_ordered.simps)
    from inv [unfolded kind] cls have *: "ev_Class e = cls (ev_Index e)" using kind by simp
    show ?thesis
    proof (rule Single_NVII_Update_cases [OF inv [unfolded kind] *])
      assume "mset (eb_Set (Single_NVII_Update GetTime e b)) = add_mset e (mset (eb_Set b))"
        "eb_Counter (Single_NVII_Update GetTime e b) = IncrCount (ev_Class e) (eb_Counter b)"
      with set_inv_mset [OF inv ordered _ _ cls] kind show ?thesis by simp
    next
      fix i rest
      assume old: "mset (eb_Set b) = add_mset i (mset rest)" "ev_Index i = ev_Index e"
        and new: "mset (eb_Set (Single_NVII_Update GetTime e b)) = add_mset e (mset rest)"
          "eb_Counter (Single_NVII_Update GetTime e b) = eb_Counter b"
      from arg_cong [OF old(1), of set_mset] have "i \<in> set (eb_Set b)" by simp
      with inv old(2) kind * have "ev_Class i = ev_Class e" by (auto simp: set_inv_def)
      with count_classes_class [OF old(1)] count_classes_class [OF new(1)] inv new(2) kind
      have "eb_Counter ?b = count_classes (eb_Set ?b)" by (simp add: set_inv_def)
      moreover from arg_cong [OF old(1), of set_mset] arg_cong [OF new(1), of set_mset] inv cls kind
      have "\<forall>x \<in> set (eb_Set ?b). classified kind cls (ev_Class x) (ev_Index x)" by (auto simp: set_inv_def)
      ultimately show ?thesis using ordered old(1) new(1) kind by (simp add: set_inv_def add_mset_commute)
    next
      fix i assume "Single_NVII_Update GetTime e b = b"
      with inv kind show ?thesis by simp
    qed
  qed
  then show "set_inv kind cls ?b" and "mset (eb_Set ?b) \<subseteq># add_mset e (mset (eb_Set b))" by blast+
qed

lemma distinct_map_submset:
  assumes "mset ys \<subseteq># mset xs" and "distinct (map f xs)"
  shows "distinct (map f ys)"
proof -
  from assms(1) obtain zs where "mset xs = mset (ys @ zs)"
    by (metis mset_subset_eq_exists_conv ex_mset mset_append)
  then have "mset (map f xs) = mset (map f (ys @ zs))" by simp
  with assms(2) have "distinct (map f (ys @ zs))" using mset_eq_imp_distinct_iff by blast
  then show ?thesis by simp
qed

lemma sequenced_submset:
  assumes "sequenced sel b" and sub: "mset (sel' @ eb_Set b') \<subseteq># mset (sel @ eb_Set b)"
    and "eb_Sequence b \<le> eb_Sequence b'"
  shows "sequenced sel' b'"
proof -
  from sub have "set (sel' @ eb_Set b') \<subseteq> set (sel @ eb_Set b)" using set_mset_mono by fastforce
  with assms(1) have "\<forall>e \<in> set (sel' @ eb_Set b'). ev_Sequence e < eb_Sequence b" by (auto simp: sequenced_def)
  with assms(3) have "\<forall>e \<in> set (sel' @ eb_Set b'). ev_Sequence e < eb_Sequence b'" by (meson less_le_trans)
  moreover from assms(1) have "distinct (map ev_Sequence (sel @ eb_Set b))" by (simp add: sequenced_def)
  with sub have "distinct (map ev_Sequence (sel' @ eb_Set b'))" by (rule distinct_map_submset)
  ultimately show ?thesis unfolding sequenced_def by blast
qed

section \<open>The operations keep the invariant\<close>

definition renumbered :: "'m EventBuffer \<Rightarrow> 'm EventBuffer" where
  "renumbered b = (if EventBuffer_Size b = 0 then b\<lparr>eb_Sequence := 0\<rparr> else b)"

lemma renumbered_frame [simp]:
  "eb_Selected (renumbered b) = eb_Selected b" "eb_Set (renumbered b) = eb_Set b"
  "eb_Counter (renumbered b) = eb_Counter b" "eb_MaxEvents (renumbered b) = eb_MaxEvents b"
  "eb_IsOverflown (renumbered b) = eb_IsOverflown b"
  by (simp_all add: renumbered_def)

lemma set_inv_cong: "eb_Set b' = eb_Set b \<Longrightarrow> eb_Counter b' = eb_Counter b \<Longrightarrow> set_inv kind cls b' = set_inv kind cls b"
  by (simp add: set_inv_def)

lemma sequenced_renumbered: "sequenced (eb_Selected b) b \<Longrightarrow> sequenced (eb_Selected b) (renumbered b)"
  by (auto simp: sequenced_def renumbered_def EventBuffer_Size_def)

definition numbered :: "'m \<Rightarrow> PointClass \<Rightarrow> nat \<Rightarrow> 'm EventBuffer \<Rightarrow> 'm EventInfo" where
  "numbered v c i b = (EventInfo_of v c i)\<lparr>ev_Sequence := eb_Sequence (renumbered b)\<rparr>"

lemma numbered_simps [simp]:
  "ev_Value (numbered v c i b) = v" "ev_Class (numbered v c i b) = c" "ev_Index (numbered v c i b) = i"
  "ev_Sequence (numbered v c i b) = eb_Sequence (renumbered b)"
  by (simp_all add: numbered_def EventInfo_of_def)

abbreviation "counted_up b \<equiv> (renumbered b)\<lparr>eb_Sequence := eb_Sequence (renumbered b) + 1\<rparr>"

lemma UpdateEvent_new:
  "UpdateEvent kind (EventInfo_of v c i) True b = NVII_Update kind (numbered v c i b) (counted_up b)"
  by (simp add: UpdateEvent_def renumbered_def numbered_def Let_def)

lemma UpdateEvent_old: "eb_Selected b \<noteq> [] \<Longrightarrow> UpdateEvent kind e False b = NVII_Update kind e b"
  by (simp add: UpdateEvent_def EventBuffer_Size_def)

lemma new_event_fresh:
  assumes "sequenced (eb_Selected b) b"
  shows "eb_Sequence (renumbered b) \<notin> ev_Sequence ` set (eb_Set (counted_up b))"
    and "sequenced (numbered v c i b # eb_Selected b) (counted_up b)"
  using sequenced_renumbered [OF assms] by (auto simp: sequenced_def less_Suc_eq)

lemma UpdateEvent_new_inv:
  assumes inv: "buffer_inv kind cls b" and cls: "classified kind cls c i"
  shows "buffer_inv kind cls (UpdateEvent kind (EventInfo_of v c i) True b)"
    and "mset (eb_Set (UpdateEvent kind (EventInfo_of v c i) True b)) \<subseteq># add_mset (numbered v c i b) (mset (eb_Set b))"
proof -
  let ?e = "numbered v c i b" and ?b = "counted_up b"
  from inv have seq: "sequenced (eb_Selected b) b" and set: "set_inv kind cls ?b"
    by (simp_all add: buffer_inv_def set_inv_def)
  note fresh = new_event_fresh [OF seq]
  have inv': "set_inv kind cls (NVII_Update kind ?e ?b)"
    and sub: "mset (eb_Set (NVII_Update kind ?e ?b)) \<subseteq># add_mset ?e (mset (eb_Set ?b))"
    using NVII_Update_inv [OF set, of ?e] cls fresh(1) by simp_all
  then show "mset (eb_Set (UpdateEvent kind (EventInfo_of v c i) True b)) \<subseteq># add_mset ?e (mset (eb_Set b))"
    by (simp add: UpdateEvent_new)
  have "sequenced (eb_Selected b) (NVII_Update kind ?e ?b)"
    using fresh(2) [of v c i] by (rule sequenced_submset) (use sub in simp_all)
  with inv inv' show "buffer_inv kind cls (UpdateEvent kind (EventInfo_of v c i) True b)"
    by (simp add: UpdateEvent_new buffer_inv_def)
qed

lemma DropFirst_inv:
  assumes "buffer_inv kind cls b" and "eb_Set b = e # es"
  shows "DropFirst b = (None, b\<lparr>eb_Counter := count_classes es, eb_Set := es\<rparr>)"
    and "buffer_inv kind cls (b\<lparr>eb_Counter := count_classes es, eb_Set := es\<rparr>)"
proof -
  from assms show "DropFirst b = (None, b\<lparr>eb_Counter := count_classes es, eb_Set := es\<rparr>)"
    by (simp add: DropFirst_def buffer_inv_def set_inv_def)
  from assms show "buffer_inv kind cls (b\<lparr>eb_Counter := count_classes es, eb_Set := es\<rparr>)"
    by (cases kind) (auto simp: buffer_inv_def set_inv_def sequenced_def)
qed

text \<open>The public \<open>Update\<close>: the buffer with the new event, and, if that is more than its limit, without its first one.\<close>

definition trimmed :: "'m EventBuffer \<Rightarrow> 'm EventBuffer" where
  "trimmed b = (if NumUnselected b > eb_MaxEvents b
     then b\<lparr>eb_IsOverflown := True, eb_Counter := count_classes (tl (eb_Set b)), eb_Set := tl (eb_Set b)\<rparr> else b)"

lemma buffer_inv_overflown [simp]: "buffer_inv kind cls (b\<lparr>eb_IsOverflown := x\<rparr>) = buffer_inv kind cls b"
  by (simp add: buffer_inv_def set_inv_def sequenced_def)

lemma EventBuffer_Update_eq:
  assumes inv: "buffer_inv kind cls b" and cls: "classified kind cls c i"
  shows "EventBuffer_Update kind v c i b = (None, trimmed (UpdateEvent kind (EventInfo_of v c i) True b))"
    and "buffer_inv kind cls (trimmed (UpdateEvent kind (EventInfo_of v c i) True b))"
proof -
  let ?b = "UpdateEvent kind (EventInfo_of v c i) True b"
  note inv' = UpdateEvent_new_inv(1) [OF inv cls, of v]
  have "EventBuffer_Update kind v c i b = (None, trimmed ?b) \<and> buffer_inv kind cls (trimmed ?b)"
  proof (cases "NumUnselected ?b > eb_MaxEvents ?b")
    case True
    then obtain e es where es: "eb_Set ?b = e # es" by (cases "eb_Set ?b") (auto simp: NumUnselected_def)
    with inv' DropFirst_inv [of kind cls "?b\<lparr>eb_IsOverflown := True\<rparr>" e es] True show ?thesis
      by (simp add: EventBuffer_Update_def handler_simps trimmed_def)
  next
    case False
    with inv' show ?thesis by (simp add: EventBuffer_Update_def handler_simps trimmed_def)
  qed
  then show "EventBuffer_Update kind v c i b = (None, trimmed ?b)" and "buffer_inv kind cls (trimmed ?b)" by blast+
qed

lemma Deselect_loop:
  assumes "set_inv kind cls b" and "sequenced es b" and "eb_Selected b \<noteq> []"
    and "\<forall>e \<in> set es. classified kind cls (ev_Class e) (ev_Index e)"
  shows "set_inv kind cls (fold (\<lambda>e. UpdateEvent kind e False) es b) \<and>
     sequenced [] (fold (\<lambda>e. UpdateEvent kind e False) es b) \<and>
     (\<not> is_single kind \<longrightarrow> mset (eb_Set (fold (\<lambda>e. UpdateEvent kind e False) es b)) = mset es + mset (eb_Set b))"
  using assms
proof (induction es arbitrary: b)
  case (Cons e es)
  let ?b = "NVII_Update kind e b"
  from Cons.prems(2) have fresh: "ev_Sequence e \<notin> ev_Sequence ` set (eb_Set b)" by (auto simp: sequenced_def)
  have set: "set_inv kind cls ?b" and sub: "mset (eb_Set ?b) \<subseteq># add_mset e (mset (eb_Set b))"
    using NVII_Update_inv [OF Cons.prems(1) _ fresh] Cons.prems(4) by auto
  from Cons.prems(2) have "sequenced es ?b" by (rule sequenced_submset) (use sub in simp_all)
  from Cons.IH [OF set this] Cons.prems show ?case
    using NVII_Update_added [of kind b e] fresh by (simp add: UpdateEvent_old set_inv_def)
qed simp

lemma EventBuffer_Deselect_inv:
  assumes "buffer_inv kind cls b"
  shows "buffer_inv kind cls (snd (EventBuffer_Deselect kind b))"
    and "\<not> is_single kind \<Longrightarrow>
      mset (eb_Set (snd (EventBuffer_Deselect kind b))) = mset (eb_Selected b) + mset (eb_Set b)"
  using assms Deselect_loop [of kind cls b "eb_Selected b"]
  by (cases "eb_Selected b = []"; simp add: EventBuffer_Deselect_def buffer_inv_def set_inv_def sequenced_def)+

section \<open>Selection\<close>

text \<open>What a selection leaves behind: the list without the first \<open>n\<close> elements with the property.\<close>

fun left_over :: "('a \<Rightarrow> bool) \<Rightarrow> nat \<Rightarrow> 'a list \<Rightarrow> 'a list" where
  "left_over P n [] = []"
| "left_over P 0 (x # xs) = x # xs"
| "left_over P (Suc n) (x # xs) = (if P x then left_over P n xs else x # left_over P (Suc n) xs)"

lemma left_over_0 [simp]: "left_over P 0 xs = xs"
  by (cases xs) simp_all

lemma mset_left_over: "mset xs = mset (take n (filter P xs)) + mset (left_over P n xs)"
  by (induction P n xs rule: left_over.induct) simp_all

lemma set_left_over: "set (left_over P n xs) \<subseteq> set xs"
  by (induction P n xs rule: left_over.induct) auto

lemma sorted_left_over: "sorted_wrt R xs \<Longrightarrow> sorted_wrt R (left_over P n xs)"
proof (induction P n xs rule: left_over.induct)
  case (3 P n x xs)
  then show ?case using set_left_over [of P "Suc n" xs] by auto
qed simp_all

abbreviation unwritten :: "'m EventInfo \<Rightarrow> 'm EventInfo" where
  "unwritten e \<equiv> e\<lparr>ev_Written := False\<rparr>"

abbreviation in_class :: "PointClass \<Rightarrow> 'm EventInfo \<Rightarrow> bool" where
  "in_class c e \<equiv> class_overlaps (ev_Class e) c"

definition after_select :: "PointClass \<Rightarrow> nat \<Rightarrow> 'm EventBuffer \<Rightarrow> 'm EventBuffer" where
  "after_select c n b = b\<lparr>eb_Counter := count_classes (left_over (in_class c) n (eb_Set b)),
     eb_Selected := eb_Selected b @ map unwritten (take n (filter (in_class c) (eb_Set b))),
     eb_Set := left_over (in_class c) n (eb_Set b)\<rparr>"

lemma count_classes_middle: "count_classes (xs @ e # ys) = IncrCount (ev_Class e) (count_classes (xs @ ys))"
  by (rule count_classes_class) simp

lemma Select_from_eq:
  "eb_Set b = before @ ahead \<Longrightarrow> eb_Counter b = count_classes (before @ ahead) \<Longrightarrow>
   Select_from c n cnt before ahead b =
     (Inr (cnt + length (take (n - cnt) (filter (in_class c) ahead))),
      b\<lparr>eb_Counter := count_classes (before @ left_over (in_class c) (n - cnt) ahead),
        eb_Selected := eb_Selected b @ map unwritten (take (n - cnt) (filter (in_class c) ahead)),
        eb_Set := before @ left_over (in_class c) (n - cnt) ahead\<rparr>)"
proof (induction ahead arbitrary: cnt before b)
  case (Cons i ahead)
  show ?case
  proof (cases "cnt < n")
    case False
    with Cons.prems show ?thesis by simp
  next
    case True
    then obtain m where m: "n - cnt = Suc m" "n - Suc cnt = m" by (cases "n - cnt") auto
    show ?thesis
    proof (cases "in_class c i")
      case False
      with Cons.IH [of b "before @ [i]" cnt] Cons.prems m True show ?thesis by simp
    next
      case sel: True
      let ?b = "b\<lparr>eb_Counter := count_classes (before @ ahead), eb_Selected := eb_Selected b @ [unwritten i],
        eb_Set := before @ ahead\<rparr>"
      from Cons.prems have "DecrCount (ev_Class i) (eb_Counter b) = Inr (count_classes (before @ ahead))"
        by (simp add: count_classes_middle)
      with True sel have "Select_from c n cnt before (i # ahead) b = Select_from c n (Suc cnt) before ahead ?b" by simp
      also have "\<dots> = (Inr (Suc cnt + length (take m (filter (in_class c) ahead))),
          ?b\<lparr>eb_Counter := count_classes (before @ left_over (in_class c) m ahead),
            eb_Selected := eb_Selected ?b @ map unwritten (take m (filter (in_class c) ahead)),
            eb_Set := before @ left_over (in_class c) m ahead\<rparr>)"
        using Cons.IH [of ?b before "Suc cnt"] m by simp
      finally show ?thesis using m sel by simp
    qed
  qed
qed simp

lemma EventBuffer_Select_eq:
  assumes "buffer_inv kind cls b"
  shows "EventBuffer_Select c n b = (Inr (min n (length (filter (in_class c) (eb_Set b)))), after_select c n b)"
  using assms Select_from_eq [of b "[]" "eb_Set b" c n 0]
  by (simp add: EventBuffer_Select_def after_select_def buffer_inv_def set_inv_def min.commute)

lemma event_ordered_left_over: "event_ordered kind es \<Longrightarrow> event_ordered kind (left_over P n es)"
  by (cases kind) (simp_all add: sorted_left_over)

lemma after_select_inv:
  assumes "buffer_inv kind cls b"
  shows "buffer_inv kind cls (after_select c n b)"
proof -
  let ?es = "take n (filter (in_class c) (eb_Set b))"
  have "mset (map ev_Sequence (eb_Set b)) = mset (map ev_Sequence (?es @ left_over (in_class c) n (eb_Set b)))"
    using mset_left_over [of "eb_Set b" n "in_class c"] by (metis mset_append mset_map)
  then have "mset (map ev_Sequence (eb_Selected b @ eb_Set b)) =
      mset (map ev_Sequence (eb_Selected (after_select c n b) @ eb_Set (after_select c n b)))"
    by (simp add: after_select_def comp_def)
  then have "distinct (map ev_Sequence (eb_Selected b @ eb_Set b)) =
      distinct (map ev_Sequence (eb_Selected (after_select c n b) @ eb_Set (after_select c n b)))"
    by (rule mset_eq_imp_distinct_iff)
  moreover have "set ?es \<subseteq> set (eb_Set b)" using set_take_subset [of n "filter (in_class c) (eb_Set b)"] by auto
  ultimately show ?thesis
    using assms set_left_over [of "in_class c" n "eb_Set b"]
    by (fastforce simp: buffer_inv_def set_inv_def sequenced_def after_select_def event_ordered_left_over
        simp del: event_ordered.simps)
qed

lemma ClearWrittenEvents_inv:
  assumes "buffer_inv kind cls b"
  shows "buffer_inv kind cls (snd (ClearWrittenEvents b))"
proof -
  let ?b = "snd (ClearWrittenEvents b)"
  have eq: "mset (eb_Selected b) = mset (takeWhile ev_Written (eb_Selected b)) + mset (dropWhile ev_Written (eb_Selected b))"
    unfolding mset_append [symmetric] takeWhile_dropWhile_id ..
  from assms have "sequenced (eb_Selected b) b" by (simp add: buffer_inv_def)
  then have "sequenced (eb_Selected ?b) ?b"
    by (rule sequenced_submset) (use eq in \<open>simp_all add: ClearWrittenEvents_def\<close>)
  moreover have "\<forall>e \<in> set (eb_Selected ?b). e \<in> set (eb_Selected b)"
    by (auto simp: ClearWrittenEvents_def dest: set_dropWhileD)
  ultimately show ?thesis using assms by (simp add: buffer_inv_def set_inv_def ClearWrittenEvents_def)
qed

lemma MarkWritten_inv:
  assumes "buffer_inv kind cls b"
  shows "buffer_inv kind cls (MarkWritten n b)"
proof -
  have sequences: "map ev_Sequence (eb_Selected (MarkWritten n b)) = map ev_Sequence (eb_Selected b)"
    and keys: "map (\<lambda>e. (ev_Sequence e, ev_Class e, ev_Index e)) (eb_Selected (MarkWritten n b)) =
      map (\<lambda>e. (ev_Sequence e, ev_Class e, ev_Index e)) (eb_Selected b)"
    by (simp_all add: MarkWritten_def map_update list_update_same_conv)
  have "\<forall>e \<in> set (eb_Selected (MarkWritten n b)). \<exists>e' \<in> set (eb_Selected b).
      ev_Sequence e = ev_Sequence e' \<and> ev_Class e = ev_Class e' \<and> ev_Index e = ev_Index e'"
  proof
    fix e assume "e \<in> set (eb_Selected (MarkWritten n b))"
    then have "(ev_Sequence e, ev_Class e, ev_Index e) \<in>
        set (map (\<lambda>e. (ev_Sequence e, ev_Class e, ev_Index e)) (eb_Selected (MarkWritten n b)))" by simp
    then show "\<exists>e' \<in> set (eb_Selected b). ev_Sequence e = ev_Sequence e' \<and> ev_Class e = ev_Class e' \<and> ev_Index e = ev_Index e'"
      unfolding keys by auto
  qed
  moreover have "eb_Set (MarkWritten n b) = eb_Set b" "eb_Counter (MarkWritten n b) = eb_Counter b"
    "eb_Sequence (MarkWritten n b) = eb_Sequence b" by (simp_all add: MarkWritten_def)
  ultimately show ?thesis using assms sequences
    by (fastforce simp: buffer_inv_def set_inv_def sequenced_def simp flip: set_map)
qed

section \<open>The buffer as a machine\<close>

datatype 'm EventOp =
    EO_Update 'm PointClass nat
  | EO_Select PointClass nat
  | EO_MarkWritten nat
  | EO_ClearWritten
  | EO_Deselect
  | EO_IsOverflown

definition failure :: "(exn + 'a) \<times> 's \<Rightarrow> exn option \<times> 's" where
  "failure rs = (case fst rs of Inl e \<Rightarrow> Some e | Inr _ \<Rightarrow> None, snd rs)"

fun buffer_handle :: "'m BufferKind \<Rightarrow> 'm EventOp \<Rightarrow> 'm EventBuffer handler" where
  "buffer_handle kind (EO_Update v c i) b = EventBuffer_Update kind v c i b"
| "buffer_handle kind (EO_Select c n) b = failure (EventBuffer_Select c n b)"
| "buffer_handle kind (EO_MarkWritten n) b = (None, MarkWritten n b)"
| "buffer_handle kind EO_ClearWritten b = (None, snd (ClearWrittenEvents b))"
| "buffer_handle kind EO_Deselect b = (None, snd (EventBuffer_Deselect kind b))"
| "buffer_handle kind EO_IsOverflown b = (None, snd (EventBuffer_IsOverflown b))"

fun buffer_possible :: "'m BufferKind \<Rightarrow> (nat \<Rightarrow> PointClass) \<Rightarrow> 'm EventBuffer \<Rightarrow> 'm EventOp \<Rightarrow> bool" where
  "buffer_possible kind cls b (EO_Update v c i) = classified kind cls c i"
| "buffer_possible kind cls b _ = True"

definition buffer_start :: "'m EventBuffer \<Rightarrow> bool" where
  "buffer_start b \<longleftrightarrow> b = new_EventBuffer (eb_MaxEvents b)"

lemma new_EventBuffer_inv: "buffer_inv kind cls (new_EventBuffer n)"
  by (cases kind) (simp_all add: buffer_inv_def set_inv_def sequenced_def new_EventBuffer_def)

lemma buffer_step:
  assumes "buffer_inv kind cls b" and "buffer_possible kind cls b ev"
  shows "fst (buffer_handle kind ev b) = None" and "buffer_inv kind cls (snd (buffer_handle kind ev b))"
proof -
  have "fst (buffer_handle kind ev b) = None \<and> buffer_inv kind cls (snd (buffer_handle kind ev b))"
  proof (cases ev)
    case (EO_Update v c i)
    with assms show ?thesis by (simp add: EventBuffer_Update_eq)
  next
    case EO_IsOverflown
    with assms show ?thesis by (simp add: EventBuffer_IsOverflown_def Let_def)
  qed (use assms in \<open>simp_all add: failure_def EventBuffer_Select_eq after_select_inv MarkWritten_inv
      ClearWrittenEvents_inv EventBuffer_Deselect_inv\<close>)
  then show "fst (buffer_handle kind ev b) = None" and "buffer_inv kind cls (snd (buffer_handle kind ev b))" by blast+
qed

interpretation events: assertion_free_machine "buffer_handle kind" "buffer_possible kind cls" buffer_start
  "buffer_inv kind cls" for kind :: "'m BufferKind" and cls
proof unfold_locales
  fix b :: "'m EventBuffer" assume "buffer_start b"
  then show "buffer_inv kind cls b" using new_EventBuffer_inv by (metis buffer_start_def)
qed (simp_all add: buffer_step internal_error_def)

section \<open>No event is lost\<close>

abbreviation event_key :: "'m EventInfo \<Rightarrow> 'm \<times> PointClass \<times> nat" where
  "event_key e \<equiv> (ev_Value e, ev_Class e, ev_Index e)"

text \<open>
  Of the events that have a property: those the buffer holds, those an operation offers it, and those an operation
  removes for good, because the buffer is full or because they were written.
\<close>

definition holding :: "('m \<times> PointClass \<times> nat \<Rightarrow> bool) \<Rightarrow> 'm EventBuffer \<Rightarrow> nat" where
  "holding P b = length (filter (P \<circ> event_key) (eb_Selected b)) + length (filter (P \<circ> event_key) (eb_Set b))"

fun offered :: "('m \<times> PointClass \<times> nat \<Rightarrow> bool) \<Rightarrow> 'm EventBuffer \<Rightarrow> 'm EventOp \<Rightarrow> nat" where
  "offered P b (EO_Update v c i) = (if P (v, c, i) then 1 else 0)"
| "offered P b _ = 0"

fun discarded :: "'m BufferKind \<Rightarrow> ('m \<times> PointClass \<times> nat \<Rightarrow> bool) \<Rightarrow> 'm EventBuffer \<Rightarrow> 'm EventOp \<Rightarrow> nat" where
  "discarded kind P b (EO_Update v c i) =
     (let b' = UpdateEvent kind (EventInfo_of v c i) True b
      in if NumUnselected b' > eb_MaxEvents b' \<and> P (event_key (hd (eb_Set b'))) then 1 else 0)"
| "discarded kind P b EO_ClearWritten = length (filter (P \<circ> event_key) (takeWhile ev_Written (eb_Selected b)))"
| "discarded kind P b _ = 0"

lemma holding_mset:
  "mset (eb_Selected b) + mset (eb_Set b) = mset xs \<Longrightarrow> holding P b = length (filter (P \<circ> event_key) xs)"
  using length_filter_mset [of "eb_Selected b @ eb_Set b" xs "P \<circ> event_key"] by (simp add: holding_def)

lemma UpdateEvent_new_mset:
  assumes "buffer_inv kind cls b" and "\<not> is_single kind"
  shows "mset (eb_Set (UpdateEvent kind (EventInfo_of v c i) True b)) = add_mset (numbered v c i b) (mset (eb_Set b))"
  using assms new_event_fresh(1) [of b] NVII_Update_added [of kind "counted_up b" "numbered v c i b"]
  by (simp add: UpdateEvent_new buffer_inv_def set_inv_def)

lemma UpdateEvent_new_frame [simp]:
  "eb_Selected (UpdateEvent kind (EventInfo_of v c i) True b) = eb_Selected b"
  "eb_MaxEvents (UpdateEvent kind (EventInfo_of v c i) True b) = eb_MaxEvents b"
  by (simp_all add: UpdateEvent_new)

lemma books_update:
  assumes "buffer_inv kind cls b" and "\<not> is_single kind"
  shows "discarded kind P b (EO_Update v c i) + holding P (snd (buffer_handle kind (EO_Update v c i) b)) =
    offered P b (EO_Update v c i) + holding P b"
proof -
  let ?b = "UpdateEvent kind (EventInfo_of v c i) True b"
  have eq: "EventBuffer_Update kind v c i b = (None, trimmed ?b)"
    using assms by (intro EventBuffer_Update_eq(1)) (cases kind; simp)+
  have new: "length (filter (P \<circ> event_key) (eb_Set ?b)) =
      length (filter (P \<circ> event_key) (numbered v c i b # eb_Set b))"
    using length_filter_mset [of "eb_Set ?b" "numbered v c i b # eb_Set b"] UpdateEvent_new_mset [OF assms] by simp
  show ?thesis
  proof (cases "NumUnselected ?b > eb_MaxEvents ?b")
    case True
    then obtain e es where "eb_Set ?b = e # es" by (cases "eb_Set ?b") (auto simp: NumUnselected_def)
    with True new eq show ?thesis by (simp add: holding_def trimmed_def Let_def split: if_splits)
  next
    case False
    with new eq show ?thesis by (simp add: holding_def trimmed_def Let_def split: if_splits)
  qed
qed

lemma filter_unwritten: "filter (P \<circ> event_key) (map unwritten es) = map unwritten (filter (P \<circ> event_key) es)"
  by (simp add: filter_map comp_def)

lemma books_step:
  assumes "buffer_inv kind cls b" and "\<not> is_single kind"
  shows "discarded kind P b ev + holding P (snd (buffer_handle kind ev b)) = offered P b ev + holding P b"
proof (cases ev)
  case (EO_Update v c i)
  then show ?thesis using books_update [OF assms] by simp
next
  case (EO_Select c n)
  have "length (filter (P \<circ> event_key) (eb_Set b)) =
      length (filter (P \<circ> event_key) (take n (filter (in_class c) (eb_Set b)) @ left_over (in_class c) n (eb_Set b)))"
    by (rule length_filter_mset) (use mset_left_over [of "eb_Set b" n "in_class c"] in simp)
  with EO_Select assms show ?thesis
    by (simp add: failure_def EventBuffer_Select_eq after_select_def holding_def filter_unwritten)
next
  case (EO_MarkWritten n)
  have "map event_key (eb_Selected (MarkWritten n b)) = map event_key (eb_Selected b)"
    by (simp add: MarkWritten_def map_update list_update_same_conv)
  then have "length (filter P (map event_key (eb_Selected (MarkWritten n b)))) =
      length (filter P (map event_key (eb_Selected b)))" by (rule arg_cong)
  with EO_MarkWritten show ?thesis by (simp add: holding_def filter_map MarkWritten_def)
next
  case EO_ClearWritten
  have "filter (P \<circ> event_key) (eb_Selected b) = filter (P \<circ> event_key) (takeWhile ev_Written (eb_Selected b)) @
      filter (P \<circ> event_key) (dropWhile ev_Written (eb_Selected b))"
    unfolding filter_append [symmetric] takeWhile_dropWhile_id ..
  with EO_ClearWritten show ?thesis by (simp add: holding_def ClearWrittenEvents_def)
next
  case EO_Deselect
  let ?b = "snd (EventBuffer_Deselect kind b)"
  have "mset (eb_Set ?b) = mset (eb_Selected b @ eb_Set b)" using EventBuffer_Deselect_inv(2) [OF assms] by simp
  then have "length (filter (P \<circ> event_key) (eb_Set ?b)) = length (filter (P \<circ> event_key) (eb_Selected b @ eb_Set b))"
    by (rule length_filter_mset)
  with EO_Deselect show ?thesis by (simp add: holding_def EventBuffer_Deselect_def)
next
  case EO_IsOverflown
  then show ?thesis by (simp add: holding_def EventBuffer_IsOverflown_def Let_def)
qed

interpretation event_ledger: ledger_machine "buffer_handle kind" "buffer_possible kind cls"
  "\<lambda>b. \<not> is_single kind \<and> buffer_start b" "\<lambda>b. \<not> is_single kind \<and> buffer_inv kind cls b"
  "\<lambda>b. 0" "offered P" "discarded kind P" "holding P" for kind :: "'m BufferKind" and cls P
  by unfold_locales (auto simp: buffer_step events.inv_start dest: books_step)

section \<open>Properties\<close>

text \<open>No operation of an event buffer ever fails: the class counters, whose decrements are asserted, are exact in
  every state that updates, selections, writes, clearings and put-backs can reach, for all three kinds of
  buffers (given, for the one with an event for each index, that an index does not change its class).\<close>

theorem event_buffer_never_fails:
  assumes "reachable (buffer_handle kind) (buffer_possible kind cls) buffer_start b"
    and "buffer_possible kind cls b ev"
  shows "fst (buffer_handle kind ev b) = None"
  using events.reachable_inv [OF assms(1)] assms(2) by (rule buffer_step)

lemma buffer_start_new: "buffer_start (new_EventBuffer n)"
  by (simp add: buffer_start_def new_EventBuffer_def)

lemma buffer_run_reachable:
  "feasible (buffer_possible kind cls) (buffer_handle kind) evs (new_EventBuffer n) \<Longrightarrow>
   reachable (buffer_handle kind) (buffer_possible kind cls) buffer_start (run (buffer_handle kind) evs (new_EventBuffer n))"
  by (rule events.reachable_run) (simp add: reachable_start buffer_start_new)

lemma not_single_possible: "\<not> is_single kind \<Longrightarrow> buffer_possible kind cls b ev"
  by (cases ev; cases kind) simp_all

lemma not_single_feasible: "\<not> is_single kind \<Longrightarrow> feasible (buffer_possible kind cls) (buffer_handle kind) evs b"
  by (induction evs arbitrary: b) (simp_all add: not_single_possible)

theorem event_buffer_never_fails_witness:
  "fst (buffer_handle (SingleEvent id) (EO_Select PC_ALL_EVENTS 5)
     (run (buffer_handle (SingleEvent id)) [EO_Update 10 PC_CLASS_1 3, EO_Update 11 PC_CLASS_1 3] (new_EventBuffer 1))) = None"
  by (rule event_buffer_never_fails [where cls = "\<lambda>i. PC_CLASS_1"], rule buffer_run_reachable) simp_all


definition three_events :: "int EventBuffer" where
  "three_events = run (buffer_handle (TimeOrdered id))
     [EO_Update 30 PC_CLASS_1 0, EO_Update 10 PC_CLASS_1 1, EO_Update 20 PC_CLASS_2 2] (new_EventBuffer 5)"


text \<open>C7: A buffer that is ordered by time or by insertion loses and duplicates nothing: of the events with any given
  property, those it was offered are those it holds, those it dropped when it was full and those
  that were cleared after they had been written, over any sequence of operations.\<close>

theorem events_accounted_for:
  assumes "\<not> is_single kind"
  shows "holding P (run (buffer_handle kind) evs (new_EventBuffer n)) +
    total (discarded kind P) (buffer_handle kind) evs (new_EventBuffer n) =
    total (offered P) (buffer_handle kind) evs (new_EventBuffer n)"
proof -
  have "\<not> is_single kind \<and> buffer_inv kind (\<lambda>i. PC_CLASS_1) (new_EventBuffer n)" using assms new_EventBuffer_inv by blast
  from event_ledger.books_run [OF this not_single_feasible [OF assms], of P evs] show ?thesis
    by (simp add: holding_def new_EventBuffer_def)
qed

theorem events_accounted_for_witness:
  "total (discarded InsertionOrdered (\<lambda>_. True)) (buffer_handle InsertionOrdered)
     [EO_Update True PC_CLASS_1 0, EO_Update False PC_CLASS_1 0, EO_Select PC_CLASS_1 1] (new_EventBuffer 1) = 1"
  using events_accounted_for [of InsertionOrdered "\<lambda>_. True"
      "[EO_Update True PC_CLASS_1 0, EO_Update False PC_CLASS_1 0, EO_Select PC_CLASS_1 1]" 1]
  by (simp add: holding_def handler_simps failure_def new_EventBuffer_def EventBuffer_Update_def UpdateEvent_def Let_def
      Base_NVII_Update_def EventInfo_of_def NumUnselected_def DropFirst_def EventBuffer_Select_def EventBuffer_Size_def
      new_ClassCounter_def)

text \<open>The buffer with one event for each index as a map from indices to measurements.\<close>

definition latest :: "'m EventBuffer \<Rightarrow> nat \<Rightarrow> 'm option" where
  "latest b = map_of (map (\<lambda>e. (ev_Index e, ev_Value e)) (eb_Set b))"

definition newest :: "('m \<Rightarrow> int) \<Rightarrow> 'm \<Rightarrow> 'm option \<Rightarrow> 'm" where
  "newest GetTime v old = (case old of None \<Rightarrow> v | Some w \<Rightarrow> if GetTime w \<le> GetTime v then v else w)"

lemma single_indices_distinct:
  assumes "set_inv (SingleEvent GetTime) cls b"
  shows "distinct (map ev_Index (eb_Set b))"
proof -
  have "sorted_wrt (\<lambda>a b. ev_Index a < ev_Index b) (eb_Set b)"
    using assms unfolding set_inv_def event_ordered.simps by_index.lt_fun by blast
  then show ?thesis by (metis sorted_wrt_map strict_sorted_iff)
qed

lemma latest_iff:
  assumes "set_inv (SingleEvent GetTime) cls b"
  shows "latest b j = Some w \<longleftrightarrow> (\<exists>e \<in> set (eb_Set b). ev_Index e = j \<and> ev_Value e = w)"
  using single_indices_distinct [OF assms] by (auto simp: latest_def comp_def)

lemma latest_eqI:
  assumes "set_inv (SingleEvent GetTime) cls b"
    and "\<And>j w. f j = Some w \<longleftrightarrow> (\<exists>e \<in> set (eb_Set b). ev_Index e = j \<and> ev_Value e = w)"
  shows "latest b = f"
proof
  fix j
  have "latest b j = Some w \<longleftrightarrow> f j = Some w" for w by (simp add: latest_iff [OF assms(1)] assms(2))
  then show "latest b j = f j" by (metis option.exhaust)
qed

lemma latest_Single_NVII_Update:
  assumes inv: "set_inv (SingleEvent GetTime) cls b" and cls: "ev_Class e = cls (ev_Index e)"
    and inv': "set_inv (SingleEvent GetTime) cls (Single_NVII_Update GetTime e b)"
  shows "latest (Single_NVII_Update GetTime e b) =
    (latest b)(ev_Index e \<mapsto> newest GetTime (ev_Value e) (latest b (ev_Index e)))"
proof (rule Single_NVII_Update_cases [OF inv cls])
  assume no: "\<forall>i \<in> set (eb_Set b). ev_Index i \<noteq> ev_Index e"
    and new: "mset (eb_Set (Single_NVII_Update GetTime e b)) = add_mset e (mset (eb_Set b))"
  from no have "latest b (ev_Index e) = None" using latest_iff [OF inv, of "ev_Index e"] by (cases "latest b (ev_Index e)") auto
  with no arg_cong [OF new, of set_mset] show ?thesis
    by (intro latest_eqI [OF inv']) (auto simp: newest_def latest_iff [OF inv])
next
  fix i rest
  assume old: "mset (eb_Set b) = add_mset i (mset rest)" "ev_Index i = ev_Index e" "GetTime (ev_Value i) \<le> GetTime (ev_Value e)"
    and new: "mset (eb_Set (Single_NVII_Update GetTime e b)) = add_mset e (mset rest)"
  from arg_cong [OF old(1), of set_mset] have elems: "set (eb_Set b) = insert i (set rest)" by simp
  with old(2) have found: "latest b (ev_Index e) = Some (ev_Value i)" using latest_iff [OF inv] by auto
  from single_indices_distinct [OF inv] have "distinct (map ev_Index (i # rest))" using mset_eq_imp_distinct_iff [of "map ev_Index (eb_Set b)" "map ev_Index (i # rest)"] old(1) by simp
  with old(2) have other: "\<forall>j \<in> set rest. ev_Index j \<noteq> ev_Index e" by (auto intro: rev_image_eqI)
  from found old(3) have "newest GetTime (ev_Value e) (latest b (ev_Index e)) = ev_Value e" by (simp add: newest_def)
  moreover from arg_cong [OF new, of set_mset] have "set (eb_Set (Single_NVII_Update GetTime e b)) = insert e (set rest)" by simp
  ultimately show ?thesis using other elems old(2)
    by (intro latest_eqI [OF inv']) (auto simp: latest_iff [OF inv])
next
  fix i assume i: "i \<in> set (eb_Set b)" "ev_Index i = ev_Index e" "GetTime (ev_Value e) < GetTime (ev_Value i)"
    and same: "Single_NVII_Update GetTime e b = b"
  then have "latest b (ev_Index e) = Some (ev_Value i)" using latest_iff [OF inv] by auto
  with i(3) same show ?thesis by (simp add: newest_def fun_upd_idem)
qed

text \<open>C26: The buffer with one event for each index is a map: an update changes the entry of its index only, to the
  new measurement unless the old one has a later time, as long as the buffer is not full.\<close>

theorem single_buffer_refines_map:
  assumes "reachable (buffer_handle (SingleEvent GetTime)) (buffer_possible (SingleEvent GetTime) cls) buffer_start b"
    and "c = cls i" and "NumUnselected b < eb_MaxEvents b"
  shows "latest (snd (EventBuffer_Update (SingleEvent GetTime) v c i b)) =
    (latest b)(i \<mapsto> newest GetTime v (latest b i))"
proof -
  let ?K = "SingleEvent GetTime" and ?e = "numbered v c i b" and ?b = "counted_up b"
  from assms(2) have cls: "classified ?K cls c i" by simp
  note inv = events.reachable_inv [OF assms(1)]
  have upd: "UpdateEvent ?K (EventInfo_of v c i) True b = Single_NVII_Update GetTime ?e ?b"
    by (simp add: UpdateEvent_new)
  have "size (mset (eb_Set (Single_NVII_Update GetTime ?e ?b))) \<le> size (add_mset ?e (mset (eb_Set b)))"
    by (rule size_mset_mono) (use UpdateEvent_new_inv(2) [OF inv cls, of v] upd in simp)
  with assms(3) NVII_Update_frame(1) [of ?K ?e ?b]
  have "trimmed (UpdateEvent ?K (EventInfo_of v c i) True b) = Single_NVII_Update GetTime ?e ?b"
    by (simp add: trimmed_def NumUnselected_def upd)
  moreover have "set_inv ?K cls ?b" using inv by (simp add: buffer_inv_def set_inv_def)
  moreover have "set_inv ?K cls (Single_NVII_Update GetTime ?e ?b)"
    using UpdateEvent_new_inv(1) [OF inv cls, of v] by (simp add: upd buffer_inv_def)
  moreover have "latest ?b = latest b" by (simp add: latest_def)
  ultimately show ?thesis
    using EventBuffer_Update_eq(1) [OF inv cls] latest_Single_NVII_Update [of GetTime cls ?b ?e] assms(2) by simp
qed

theorem single_buffer_refines_map_witness:
  "latest (snd (EventBuffer_Update (SingleEvent fst) (7, True) PC_CLASS_2 4
     (run (buffer_handle (SingleEvent fst)) [EO_Update (5, False) PC_CLASS_2 4] (new_EventBuffer 2)))) 4 = Some (7::int, True)"
  by (subst single_buffer_refines_map [where cls = "\<lambda>i. PC_CLASS_2"], rule buffer_run_reachable)
    (simp_all add: latest_def newest_def handler_simps EventBuffer_Update_def UpdateEvent_def Let_def EventBuffer_Size_def
      new_EventBuffer_def Single_NVII_Update_def EventInfo_of_def NumUnselected_def)

lemma sorted_wrt_seq_map_key:
  "sorted_wrt (event_less InsertionOrdered) xs \<Longrightarrow> sorted_wrt (event_less InsertionOrdered) (map unwritten xs)"
  unfolding by_insertion.lt_fun by (simp add: sorted_wrt_map)

text \<open>When a response fails, an insertion-ordered buffer is as it was: putting the selected events back restores
  their order among all the others, whatever was selected.\<close>

theorem put_back_restores_the_order:
  assumes "reachable (buffer_handle InsertionOrdered) (buffer_possible InsertionOrdered cls) buffer_start b"
    and "eb_Selected b = []"
  shows "map (\<lambda>e. e\<lparr>ev_Written := False\<rparr>)
      (eb_Set (snd (EventBuffer_Deselect InsertionOrdered (snd (EventBuffer_Select c n b))))) =
    map (\<lambda>e. e\<lparr>ev_Written := False\<rparr>) (eb_Set b)"
proof (rule by_insertion.sorted_set_unique)
  note inv = events.reachable_inv [OF assms(1)]
  let ?s = "snd (EventBuffer_Select c n b)"
  have s: "?s = after_select c n b" using EventBuffer_Select_eq [OF inv] by simp
  note inv_s = after_select_inv [OF inv, of c n]
  show "sorted_wrt (event_less InsertionOrdered) (map unwritten (eb_Set b))"
    using inv by (intro sorted_wrt_seq_map_key) (simp add: buffer_inv_def set_inv_def)
  show "sorted_wrt (event_less InsertionOrdered) (map unwritten (eb_Set (snd (EventBuffer_Deselect InsertionOrdered ?s))))"
    using EventBuffer_Deselect_inv(1) [OF inv_s] unfolding s
    by (intro sorted_wrt_seq_map_key) (simp add: buffer_inv_def set_inv_def)
  have "mset (eb_Set (snd (EventBuffer_Deselect InsertionOrdered ?s))) =
      mset (map unwritten (take n (filter (in_class c) (eb_Set b)))) + mset (left_over (in_class c) n (eb_Set b))"
    using EventBuffer_Deselect_inv(2) [OF inv_s] assms(2) unfolding s by (simp add: after_select_def)
  moreover have "mset (map unwritten (eb_Set b)) = image_mset unwritten (mset (take n (filter (in_class c) (eb_Set b)))) +
      image_mset unwritten (mset (left_over (in_class c) n (eb_Set b)))"
    by (metis image_mset_union mset_left_over mset_map)
  ultimately show "mset (map unwritten (eb_Set (snd (EventBuffer_Deselect InsertionOrdered ?s)))) =
      mset (map unwritten (eb_Set b))" by (simp add: image_mset.compositionality comp_def)
qed

definition queued_events :: "bool EventBuffer" where
  "queued_events = run (buffer_handle InsertionOrdered)
     [EO_Update True PC_CLASS_1 0, EO_Update False PC_CLASS_2 0, EO_Update True PC_CLASS_1 0] (new_EventBuffer 5)"

theorem put_back_restores_the_order_witness:
  "map (\<lambda>e. e\<lparr>ev_Written := False\<rparr>)
     (eb_Set (snd (EventBuffer_Deselect InsertionOrdered (snd (EventBuffer_Select PC_CLASS_2 1 queued_events))))) =
   eb_Set queued_events"
proof -
  have "reachable (buffer_handle InsertionOrdered) (buffer_possible InsertionOrdered (\<lambda>i. PC_CLASS_1)) buffer_start queued_events"
    unfolding queued_events_def by (intro buffer_run_reachable not_single_feasible) simp
  moreover have "eb_Selected queued_events = []"
    "map (\<lambda>e. e\<lparr>ev_Written := False\<rparr>) (eb_Set queued_events) = eb_Set queued_events" by code_simp+
  ultimately show ?thesis using put_back_restores_the_order [of "\<lambda>i. PC_CLASS_1" queued_events PC_CLASS_2 1] by simp
qed

definition failed_round :: "nat \<Rightarrow> 'm \<Rightarrow> PointClass \<Rightarrow> 'm EventOp list" where
  "failed_round n v c = [EO_Select PC_ALL_EVENTS n, EO_Update v c 0, EO_Deselect]"

definition put_back :: "PointClass \<Rightarrow> nat \<Rightarrow> 'm EventBuffer \<Rightarrow> bool" where
  "put_back c k b \<longleftrightarrow> buffer_inv InsertionOrdered (\<lambda>i. c) b \<and> eb_MaxEvents b = 1 \<and> eb_Selected b = [] \<and>
     length (eb_Set b) = k \<and> (\<forall>e \<in> set (eb_Set b). ev_Class e = c)"

lemma left_over_all: "\<forall>x \<in> set xs. P x \<Longrightarrow> length xs \<le> n \<Longrightarrow> left_over P n xs = []"
  by (induction P n xs rule: left_over.induct) auto

lemma fold_UpdateEvent_MaxEvents: "eb_MaxEvents (fold (\<lambda>e. UpdateEvent kind e False) es b) = eb_MaxEvents b"
  by (induction es arbitrary: b) (simp_all add: UpdateEvent_def Let_def)

lemma put_back_round:
  assumes b: "put_back c k b" and n: "k \<le> n" and c: "c \<in> {PC_CLASS_1, PC_CLASS_2, PC_CLASS_3}"
  shows "put_back c (Suc k) (run (buffer_handle InsertionOrdered) (failed_round n v c) b)"
proof -
  let ?s = "after_select PC_ALL_EVENTS n b"
  let ?u = "UpdateEvent InsertionOrdered (EventInfo_of v c 0) True ?s"
  let ?d = "snd (EventBuffer_Deselect InsertionOrdered ?u)"
  from b have inv: "buffer_inv InsertionOrdered (\<lambda>i. c) b" by (simp add: put_back_def)
  note inv_s = after_select_inv [OF inv, of PC_ALL_EVENTS n]
  note inv_u = UpdateEvent_new_inv(1) [OF inv_s, of c 0 v]
  have all: "\<forall>e \<in> set (eb_Set b). in_class PC_ALL_EVENTS e" using b c by (auto simp: put_back_def)
  with b n have s: "eb_Set ?s = []" "eb_Selected ?s = map unwritten (eb_Set b)" "eb_MaxEvents ?s = 1"
    by (simp_all add: after_select_def put_back_def left_over_all filter_True)
  have u: "mset (eb_Set ?u) = {#numbered v c 0 ?s#}" using UpdateEvent_new_mset [OF inv_s] s by simp
  then have "trimmed ?u = ?u" using s arg_cong [OF u, of size] by (simp add: trimmed_def NumUnselected_def)
  then have runs: "run (buffer_handle InsertionOrdered) (failed_round n v c) b = ?d"
    using EventBuffer_Select_eq [OF inv] EventBuffer_Update_eq(1) [OF inv_s, of c 0 v]
    by (simp add: failed_round_def failure_def)
  have d: "mset (eb_Set ?d) = mset (map unwritten (eb_Set b)) + {#numbered v c 0 ?s#}"
    using EventBuffer_Deselect_inv(2) [OF inv_u] u s by simp
  from arg_cong [OF d, of size] b have "length (eb_Set ?d) = Suc k" by (simp add: put_back_def)
  moreover from arg_cong [OF d, of set_mset] b have "\<forall>e \<in> set (eb_Set ?d). ev_Class e = c"
    by (auto simp: put_back_def)
  moreover have "eb_MaxEvents ?d = 1" "eb_Selected ?d = []"
    using s by (simp_all add: EventBuffer_Deselect_def fold_UpdateEvent_MaxEvents)
  ultimately show ?thesis using EventBuffer_Deselect_inv(1) [OF inv_u] by (simp add: put_back_def runs)
qed

text \<open>The limit of a buffer does not hold once selected events are put back: a buffer for a single event holds \<open>n\<close> events
  after \<open>n\<close> rounds in which a selection fails while a new event arrives, and then has \<open>1 - n\<close> modulo
  \<open>2 ^ 64\<close> free places.\<close>

theorem failed_selections_outgrow_the_limit:
  assumes "c = PC_CLASS_1 \<or> c = PC_CLASS_2 \<or> c = PC_CLASS_3"
  shows "EventBuffer_Size (run (buffer_handle InsertionOrdered) (concat (replicate n (failed_round n v c))) (new_EventBuffer 1)) = n \<and>
    NumAvailable (run (buffer_handle InsertionOrdered) (concat (replicate n (failed_round n v c))) (new_EventBuffer 1)) =
      nat ((1 - int n) mod 2 ^ 64)"
proof -
  have "k \<le> n \<Longrightarrow> put_back c k (run (buffer_handle InsertionOrdered) (concat (replicate k (failed_round n v c))) (new_EventBuffer 1))" for k
  proof (induction k)
    case 0
    show ?case using new_EventBuffer_inv by (simp add: put_back_def) (simp add: new_EventBuffer_def)
  next
    case (Suc k)
    have "concat (replicate (Suc k) (failed_round n v c)) = concat (replicate k (failed_round n v c)) @ failed_round n v c"
      unfolding replicate.simps replicate_append_same [symmetric] by simp
    with Suc put_back_round [of c k _ n v] assms show ?case by (simp add: run_append del: replicate.simps)
  qed
  from this [of n] show ?thesis by (simp add: put_back_def EventBuffer_Size_def NumAvailable_def)
qed

theorem failed_selections_outgrow_the_limit_witness:
  "NumAvailable (run (buffer_handle InsertionOrdered) (concat (replicate 3 (failed_round 3 True PC_CLASS_2))) (new_EventBuffer 1)) =
   2 ^ 64 - 2"
  using failed_selections_outgrow_the_limit [of PC_CLASS_2 3 True] by simp

text \<open>Putting back a counter event that was selected but not confirmed overwrites the newer event of the same index
  when both have the same time, as points without a time of their own have: the change is never reported.\<close>

theorem put_back_hides_newer_value:
  assumes "GetTime w = GetTime v" and "c = PC_CLASS_1 \<or> c = PC_CLASS_2 \<or> c = PC_CLASS_3"
  shows "latest (run (buffer_handle (SingleEvent GetTime))
      [EO_Update v c i, EO_Select c 1, EO_Update w c i, EO_Deselect] (new_EventBuffer 5)) i = Some v"
  using assms
  by (auto simp: latest_def handler_simps failure_def EventBuffer_Update_def UpdateEvent_def Let_def EventBuffer_Size_def
      new_EventBuffer_def Single_NVII_Update_def EventInfo_of_def NumUnselected_def EventBuffer_Select_def
      EventBuffer_Deselect_def new_ClassCounter_def)

theorem put_back_hides_newer_value_witness:
  "latest (run (buffer_handle (SingleEvent fst))
      [EO_Update (0::int, 100::u32) PC_CLASS_1 2, EO_Select PC_CLASS_1 1, EO_Update (0, 105) PC_CLASS_1 2, EO_Deselect]
      (new_EventBuffer 5)) 2 = Some (0, 100)"
  by (rule put_back_hides_newer_value) simp_all

end
