(* ===== verification/SlaveEventBuffers.thy ===== *)
theory SlaveEventBuffers
  imports EventDeliveries
begin

text \<open>
  The event buffer of an outstation (opendnp3/DNP3/SlaveEventBuffer, BufferTypes): a buffer for each
  kind of event data, of the three kinds of EventBuffers, and the operations over all four.
\<close>

section \<open>The code\<close>

datatype BufferTypes = BT_BINARY | BT_ANALOG | BT_COUNTER | BT_VTO | BT_INVALID

fun Convert :: "DataTypes \<Rightarrow> exn + BufferTypes" where
  "Convert DT_BINARY = Inr BT_BINARY"
| "Convert DT_ANALOG = Inr BT_ANALOG"
| "Convert DT_COUNTER = Inr BT_COUNTER"
| "Convert _ = Inl ArgumentException"

record EventMaxConfig =
  mMaxBinaryEvents :: nat
  mMaxAnalogEvents :: nat
  mMaxCounterEvents :: nat
  mMaxVtoEvents :: nat

definition default_EventMaxConfig :: EventMaxConfig where
  "default_EventMaxConfig = \<lparr>mMaxBinaryEvents = 1000, mMaxAnalogEvents = 1000, mMaxCounterEvents = 1000, mMaxVtoEvents = 100\<rparr>"

record SlaveEventBuffer =
  mBinaryEvents :: "Binary EventBuffer"
  mAnalogEvents :: "Analog EventBuffer"
  mCounterEvents :: "Counter EventBuffer"
  mVtoEvents :: "VtoData EventBuffer"

definition new_SlaveEventBuffer :: "EventMaxConfig \<Rightarrow> SlaveEventBuffer" where
  "new_SlaveEventBuffer cfg = \<lparr>mBinaryEvents = new_EventBuffer (mMaxBinaryEvents cfg),
     mAnalogEvents = new_EventBuffer (mMaxAnalogEvents cfg), mCounterEvents = new_EventBuffer (mMaxCounterEvents cfg),
     mVtoEvents = new_EventBuffer (mMaxVtoEvents cfg)\<rparr>"

text \<open>The template arguments of the four buffers.\<close>

definition binary_kind :: "Binary BufferKind" where "binary_kind = TimeOrdered bp_Time"
definition analog_kind :: "Analog BufferKind" where "analog_kind = TimeOrdered tp_Time"
definition counter_kind :: "Counter BufferKind" where "counter_kind = SingleEvent tp_Time"
definition vto_kind :: "VtoData BufferKind" where "vto_kind = InsertionOrdered"

text \<open>A call on one of the four members.\<close>

definition on_Binary :: "(Binary EventBuffer \<Rightarrow> 'r \<times> Binary EventBuffer) \<Rightarrow> SlaveEventBuffer \<Rightarrow> 'r \<times> SlaveEventBuffer" where
  "on_Binary f s = (let (r, b) = f (mBinaryEvents s) in (r, s\<lparr>mBinaryEvents := b\<rparr>))"

definition on_Analog :: "(Analog EventBuffer \<Rightarrow> 'r \<times> Analog EventBuffer) \<Rightarrow> SlaveEventBuffer \<Rightarrow> 'r \<times> SlaveEventBuffer" where
  "on_Analog f s = (let (r, b) = f (mAnalogEvents s) in (r, s\<lparr>mAnalogEvents := b\<rparr>))"

definition on_Counter :: "(Counter EventBuffer \<Rightarrow> 'r \<times> Counter EventBuffer) \<Rightarrow> SlaveEventBuffer \<Rightarrow> 'r \<times> SlaveEventBuffer" where
  "on_Counter f s = (let (r, b) = f (mCounterEvents s) in (r, s\<lparr>mCounterEvents := b\<rparr>))"

definition on_Vto :: "(VtoData EventBuffer \<Rightarrow> 'r \<times> VtoData EventBuffer) \<Rightarrow> SlaveEventBuffer \<Rightarrow> 'r \<times> SlaveEventBuffer" where
  "on_Vto f s = (let (r, b) = f (mVtoEvents s) in (r, s\<lparr>mVtoEvents := b\<rparr>))"

text \<open>The four overloads of \<open>Update\<close>, by the type of the event's value.\<close>

datatype EventData = Ed_Binary Binary | Ed_Analog Analog | Ed_Counter Counter | Ed_Vto VtoData

fun SlaveBuffer_Update :: "EventData \<Rightarrow> PointClass \<Rightarrow> nat \<Rightarrow> SlaveEventBuffer handler" where
  "SlaveBuffer_Update (Ed_Binary v) aClass aIndex s = on_Binary (EventBuffer_Update binary_kind v aClass aIndex) s"
| "SlaveBuffer_Update (Ed_Analog v) aClass aIndex s = on_Analog (EventBuffer_Update analog_kind v aClass aIndex) s"
| "SlaveBuffer_Update (Ed_Counter v) aClass aIndex s = on_Counter (EventBuffer_Update counter_kind v aClass aIndex) s"
| "SlaveBuffer_Update (Ed_Vto v) aClass aIndex s = on_Vto (EventBuffer_Update vto_kind v aClass aIndex) s"

definition NumVtoEventsAvailable :: "SlaveEventBuffer \<Rightarrow> nat" where
  "NumVtoEventsAvailable s = NumAvailable (mVtoEvents s)"

fun SlaveBuffer_NumSelected_of :: "BufferTypes \<Rightarrow> SlaveEventBuffer \<Rightarrow> exn + nat" where
  "SlaveBuffer_NumSelected_of BT_BINARY s = Inr (NumSelected (mBinaryEvents s))"
| "SlaveBuffer_NumSelected_of BT_ANALOG s = Inr (NumSelected (mAnalogEvents s))"
| "SlaveBuffer_NumSelected_of BT_COUNTER s = Inr (NumSelected (mCounterEvents s))"
| "SlaveBuffer_NumSelected_of BT_VTO s = Inr (NumSelected (mVtoEvents s))"
| "SlaveBuffer_NumSelected_of _ s = Inl ArgumentException"

fun SlaveBuffer_NumType :: "BufferTypes \<Rightarrow> SlaveEventBuffer \<Rightarrow> exn + nat" where
  "SlaveBuffer_NumType BT_BINARY s = Inr (EventBuffer_Size (mBinaryEvents s))"
| "SlaveBuffer_NumType BT_ANALOG s = Inr (EventBuffer_Size (mAnalogEvents s))"
| "SlaveBuffer_NumType BT_COUNTER s = Inr (EventBuffer_Size (mCounterEvents s))"
| "SlaveBuffer_NumType BT_VTO s = Inr (EventBuffer_Size (mVtoEvents s))"
| "SlaveBuffer_NumType _ s = Inl ArgumentException"

fun SlaveBuffer_IsFull :: "BufferTypes \<Rightarrow> SlaveEventBuffer \<Rightarrow> exn + bool" where
  "SlaveBuffer_IsFull BT_BINARY s = Inr (EventBuffer_IsFull (mBinaryEvents s))"
| "SlaveBuffer_IsFull BT_ANALOG s = Inr (EventBuffer_IsFull (mAnalogEvents s))"
| "SlaveBuffer_IsFull BT_COUNTER s = Inr (EventBuffer_IsFull (mCounterEvents s))"
| "SlaveBuffer_IsFull BT_VTO s = Inr (EventBuffer_IsFull (mVtoEvents s))"
| "SlaveBuffer_IsFull _ s = Inl ArgumentException"

definition SlaveBuffer_NumSelected :: "SlaveEventBuffer \<Rightarrow> nat" where
  "SlaveBuffer_NumSelected s =
     NumSelected (mBinaryEvents s) + NumSelected (mAnalogEvents s) + NumSelected (mCounterEvents s) + NumSelected (mVtoEvents s)"

text \<open>\<open>IsOverflow\<close>: each \<open>IsOverflown\<close> may reset its buffer's flag, and the first that holds ends the disjunction.\<close>

definition SlaveBuffer_IsOverflow :: "SlaveEventBuffer \<Rightarrow> bool \<times> SlaveEventBuffer" where
  "SlaveBuffer_IsOverflow s =
     (let (r1, s1) = on_Binary EventBuffer_IsOverflown s
      in if r1 then (True, s1) else
      let (r2, s2) = on_Analog EventBuffer_IsOverflown s1
      in if r2 then (True, s2) else
      let (r3, s3) = on_Counter EventBuffer_IsOverflown s2
      in if r3 then (True, s3) else on_Vto EventBuffer_IsOverflown s3)"

definition HasEventData :: "SlaveEventBuffer \<Rightarrow> bool" where
  "HasEventData s \<longleftrightarrow> NumUnselected (mBinaryEvents s) > 0 \<or> NumUnselected (mAnalogEvents s) > 0 \<or>
     NumUnselected (mCounterEvents s) > 0 \<or> NumUnselected (mVtoEvents s) > 0"

definition SlaveBuffer_HasClassData :: "PointClass \<Rightarrow> SlaveEventBuffer \<Rightarrow> bool" where
  "SlaveBuffer_HasClassData aClass s \<longleftrightarrow> HasClassData aClass (mBinaryEvents s) \<or> HasClassData aClass (mAnalogEvents s) \<or>
     HasClassData aClass (mCounterEvents s) \<or> HasClassData aClass (mVtoEvents s)"

fun SlaveBuffer_Select_of :: "BufferTypes \<Rightarrow> PointClass \<Rightarrow> nat \<Rightarrow> SlaveEventBuffer \<Rightarrow> (exn + nat) \<times> SlaveEventBuffer" where
  "SlaveBuffer_Select_of BT_BINARY aClass aMaxEvent s = on_Binary (EventBuffer_Select aClass aMaxEvent) s"
| "SlaveBuffer_Select_of BT_ANALOG aClass aMaxEvent s = on_Analog (EventBuffer_Select aClass aMaxEvent) s"
| "SlaveBuffer_Select_of BT_COUNTER aClass aMaxEvent s = on_Counter (EventBuffer_Select aClass aMaxEvent) s"
| "SlaveBuffer_Select_of BT_VTO aClass aMaxEvent s = on_Vto (EventBuffer_Select aClass aMaxEvent) s"
| "SlaveBuffer_Select_of _ aClass aMaxEvent s = (Inl ArgumentException, s)"

text \<open>\<open>Select\<close> over all buffers: \<open>if (left > 0) left -= m...Events.Select(aClass, left)\<close> for each in turn.\<close>

fun Select_types :: "BufferTypes list \<Rightarrow> PointClass \<Rightarrow> nat \<Rightarrow> SlaveEventBuffer \<Rightarrow> (exn + nat) \<times> SlaveEventBuffer" where
  "Select_types [] aClass left s = (Inr left, s)"
| "Select_types (t # ts) aClass left s =
     (if left > 0 then
        case SlaveBuffer_Select_of t aClass left s of
          (Inl e, s') \<Rightarrow> (Inl e, s')
        | (Inr n, s') \<Rightarrow> Select_types ts aClass (left - n) s'
      else Select_types ts aClass left s)"

definition SlaveBuffer_Select :: "PointClass \<Rightarrow> nat \<Rightarrow> SlaveEventBuffer \<Rightarrow> (exn + nat) \<times> SlaveEventBuffer" where
  "SlaveBuffer_Select aClass aMaxEvent s =
     (case Select_types [BT_BINARY, BT_ANALOG, BT_COUNTER, BT_VTO] aClass aMaxEvent s of
        (Inl e, s') \<Rightarrow> (Inl e, s')
      | (Inr left, s') \<Rightarrow> (Inr (aMaxEvent - left), s'))"

definition SlaveBuffer_ClearWritten :: "SlaveEventBuffer \<Rightarrow> nat \<times> SlaveEventBuffer" where
  "SlaveBuffer_ClearWritten s =
     (let (n1, s1) = on_Binary ClearWrittenEvents s; (n2, s2) = on_Analog ClearWrittenEvents s1;
          (n3, s3) = on_Counter ClearWrittenEvents s2; (n4, s4) = on_Vto ClearWrittenEvents s3
      in (n1 + n2 + n3 + n4, s4))"

definition SlaveBuffer_Deselect :: "SlaveEventBuffer \<Rightarrow> nat \<times> SlaveEventBuffer" where
  "SlaveBuffer_Deselect s =
     (let (n1, s1) = on_Binary (EventBuffer_Deselect binary_kind) s; (n2, s2) = on_Analog (EventBuffer_Deselect analog_kind) s1;
          (n3, s3) = on_Counter (EventBuffer_Deselect counter_kind) s2; (n4, s4) = on_Vto (EventBuffer_Deselect vto_kind) s3
      in (n1 + n2 + n3 + n4, s4))"

section \<open>The four buffers together\<close>

text \<open>\<open>cls\<close> is the class of the counter points.\<close>

definition slave_buffer_inv :: "(nat \<Rightarrow> PointClass) \<Rightarrow> SlaveEventBuffer \<Rightarrow> bool" where
  "slave_buffer_inv cls s \<longleftrightarrow> buffer_inv binary_kind cls (mBinaryEvents s) \<and> buffer_inv analog_kind cls (mAnalogEvents s) \<and>
     buffer_inv counter_kind cls (mCounterEvents s) \<and> buffer_inv vto_kind cls (mVtoEvents s)"

lemma new_SlaveEventBuffer_inv: "slave_buffer_inv cls (new_SlaveEventBuffer cfg)"
  by (simp add: slave_buffer_inv_def new_SlaveEventBuffer_def new_EventBuffer_inv)

lemmas on_defs = on_Binary_def on_Analog_def on_Counter_def on_Vto_def

definition data_possible :: "(nat \<Rightarrow> PointClass) \<Rightarrow> EventData \<Rightarrow> PointClass \<Rightarrow> nat \<Rightarrow> bool" where
  "data_possible cls v c i = (case v of Ed_Counter w \<Rightarrow> c = cls i | _ \<Rightarrow> True)"

lemmas kind_defs = binary_kind_def analog_kind_def counter_kind_def vto_kind_def

lemma SlaveBuffer_Update_inv:
  assumes inv: "slave_buffer_inv cls s" and "data_possible cls v c i"
  shows "fst (SlaveBuffer_Update v c i s) = None" and "slave_buffer_inv cls (snd (SlaveBuffer_Update v c i s))"
proof -
  have "fst (SlaveBuffer_Update v c i s) = None \<and> slave_buffer_inv cls (snd (SlaveBuffer_Update v c i s))"
  proof (cases v)
    case (Ed_Binary w)
    with inv buffer_step [of binary_kind cls "mBinaryEvents s" "EO_Update w c i"] show ?thesis
      by (simp add: slave_buffer_inv_def on_Binary_def case_prod_beta binary_kind_def)
  next
    case (Ed_Analog w)
    with inv buffer_step [of analog_kind cls "mAnalogEvents s" "EO_Update w c i"] show ?thesis
      by (simp add: slave_buffer_inv_def on_Analog_def case_prod_beta analog_kind_def)
  next
    case (Ed_Counter w)
    with assms buffer_step [of counter_kind cls "mCounterEvents s" "EO_Update w c i"] show ?thesis
      by (simp add: slave_buffer_inv_def on_Counter_def case_prod_beta counter_kind_def data_possible_def)
  next
    case (Ed_Vto w)
    with inv buffer_step [of vto_kind cls "mVtoEvents s" "EO_Update w c i"] show ?thesis
      by (simp add: slave_buffer_inv_def on_Vto_def case_prod_beta vto_kind_def)
  qed
  then show "fst (SlaveBuffer_Update v c i s) = None" and "slave_buffer_inv cls (snd (SlaveBuffer_Update v c i s))" by blast+
qed

lemma Select_of_inv:
  assumes inv: "slave_buffer_inv cls s" and "t \<noteq> BT_INVALID"
  shows "slave_buffer_inv cls (snd (SlaveBuffer_Select_of t c n s)) \<and> (\<exists>k \<le> n. fst (SlaveBuffer_Select_of t c n s) = Inr k)"
proof (cases t)
  case BT_BINARY
  from inv have b: "buffer_inv binary_kind cls (mBinaryEvents s)" by (simp add: slave_buffer_inv_def)
  from inv BT_BINARY EventBuffer_Select_eq [OF b, of c n] after_select_inv [OF b, of c n] show ?thesis
    by (simp add: slave_buffer_inv_def on_Binary_def)
next
  case BT_ANALOG
  from inv have b: "buffer_inv analog_kind cls (mAnalogEvents s)" by (simp add: slave_buffer_inv_def)
  from inv BT_ANALOG EventBuffer_Select_eq [OF b, of c n] after_select_inv [OF b, of c n] show ?thesis
    by (simp add: slave_buffer_inv_def on_Analog_def)
next
  case BT_COUNTER
  from inv have b: "buffer_inv counter_kind cls (mCounterEvents s)" by (simp add: slave_buffer_inv_def)
  from inv BT_COUNTER EventBuffer_Select_eq [OF b, of c n] after_select_inv [OF b, of c n] show ?thesis
    by (simp add: slave_buffer_inv_def on_Counter_def)
next
  case BT_VTO
  from inv have b: "buffer_inv vto_kind cls (mVtoEvents s)" by (simp add: slave_buffer_inv_def)
  from inv BT_VTO EventBuffer_Select_eq [OF b, of c n] after_select_inv [OF b, of c n] show ?thesis
    by (simp add: slave_buffer_inv_def on_Vto_def)
qed (use assms in simp)

lemma Select_types_inv:
  "slave_buffer_inv cls s \<Longrightarrow> BT_INVALID \<notin> set ts \<Longrightarrow>
   slave_buffer_inv cls (snd (Select_types ts c left s)) \<and> (\<exists>k \<le> left. fst (Select_types ts c left s) = Inr k)"
proof (induction ts arbitrary: left s)
  case (Cons t ts)
  show ?case
  proof (cases "left > 0")
    case True
    from Cons.prems have "t \<noteq> BT_INVALID" by auto
    from Select_of_inv [OF Cons.prems(1) this, of c left] obtain k where k: "k \<le> left"
      "SlaveBuffer_Select_of t c left s = (Inr k, snd (SlaveBuffer_Select_of t c left s))"
      and inv: "slave_buffer_inv cls (snd (SlaveBuffer_Select_of t c left s))" by (auto simp: prod_eq_iff)
    have "Select_types (t # ts) c left s = Select_types ts c (left - k) (snd (SlaveBuffer_Select_of t c left s))"
      using True by (simp, subst k(2), simp)
    moreover from Cons.prems(2) have "BT_INVALID \<notin> set ts" by simp
    ultimately show ?thesis using Cons.IH [OF inv, of "left - k"] k(1) by (metis diff_le_self le_trans)
  next
    case False
    with Cons.IH [of s 0] Cons.prems show ?thesis by auto
  qed
qed simp

lemma SlaveBuffer_Select_inv:
  assumes "slave_buffer_inv cls s"
  shows "slave_buffer_inv cls (snd (SlaveBuffer_Select c n s)) \<and> (\<exists>k \<le> n. fst (SlaveBuffer_Select c n s) = Inr k)"
  using Select_types_inv [OF assms, of "[BT_BINARY, BT_ANALOG, BT_COUNTER, BT_VTO]" c n]
  by (auto simp: SlaveBuffer_Select_def split: prod.split)

lemma SlaveBuffer_ClearWritten_inv: "slave_buffer_inv cls s \<Longrightarrow> slave_buffer_inv cls (snd (SlaveBuffer_ClearWritten s))"
  by (simp add: slave_buffer_inv_def SlaveBuffer_ClearWritten_def on_defs case_prod_beta Let_def ClearWrittenEvents_inv)

lemma SlaveBuffer_Deselect_inv: "slave_buffer_inv cls s \<Longrightarrow> slave_buffer_inv cls (snd (SlaveBuffer_Deselect s))"
  by (simp add: slave_buffer_inv_def SlaveBuffer_Deselect_def on_defs case_prod_beta Let_def EventBuffer_Deselect_inv)

lemma IsOverflown_inv: "buffer_inv kind cls b \<Longrightarrow> buffer_inv kind cls (snd (EventBuffer_IsOverflown b))"
  by (simp add: EventBuffer_IsOverflown_def Let_def)

lemma SlaveBuffer_IsOverflow_inv: "slave_buffer_inv cls s \<Longrightarrow> slave_buffer_inv cls (snd (SlaveBuffer_IsOverflow s))"
  by (simp add: slave_buffer_inv_def SlaveBuffer_IsOverflow_def on_defs case_prod_beta Let_def IsOverflown_inv)

end
