(* ===== verification/Databases.thy ===== *)
theory Databases
  imports SlaveEventBuffers
begin

text \<open>
  The database of an outstation (opendnp3/DNP3/Database, DeviceTemplate; opendnp3/APL/DataInterfaces,
  ITransactable): the points of the five types, their classes and deadbands, and the updates that turn changes
  into events.

  The pointer to the event buffer is an optional buffer in the state of the database: what an update does to the
  buffer it points to is part of its effect.
\<close>

section \<open>The code\<close>

record Database =
  mBinaryVec :: "(Binary, bool) PointInfo list"
  mAnalogVec :: "(Analog, double) PointInfo list"
  mCounterVec :: "(Counter, u32) PointInfo list"
  mControlStatusVec :: "(ControlStatus, bool) PointInfo list"
  mSetpointStatusVec :: "(SetpointStatus, double) PointInfo list"
  db_EventBuffer :: "SlaveEventBuffer option"
  db_InProgress :: bool

definition new_Database :: Database where
  "new_Database = \<lparr>mBinaryVec = [], mAnalogVec = [], mCounterVec = [], mControlStatusVec = [], mSetpointStatusVec = [],
     db_EventBuffer = None, db_InProgress = False\<rparr>"

text \<open>\<open>ITransactable::Start\<close> and \<open>End\<close>; \<open>_Start\<close> and \<open>_End\<close> of the database are empty.\<close>

definition Transaction_Start :: "Database handler" where
  "Transaction_Start = in_order [assert_that (\<lambda>d. \<not> db_InProgress d), modify (\<lambda>d. d\<lparr>db_InProgress := True\<rparr>)]"

definition Transaction_End :: "Database handler" where
  "Transaction_End = in_order [assert_that db_InProgress, modify (\<lambda>d. d\<lparr>db_InProgress := False\<rparr>)]"

subsection \<open>Configuration\<close>

text \<open>\<open>vector::resize\<close>, with the value of new elements; \<open>AssignIndices\<close>; \<open>SetAllOnline\<close>.\<close>

definition resized :: "nat \<Rightarrow> 'a \<Rightarrow> 'a list \<Rightarrow> 'a list" where
  "resized n x xs = take n xs @ replicate (n - length xs) x"

definition AssignIndices :: "('m, 'v) PointInfo list \<Rightarrow> ('m, 'v) PointInfo list" where
  "AssignIndices ps = map (\<lambda>(i, p). p\<lparr>pi_Index := i\<rparr>) (enumerate 0 ps)"

definition SetAllOnline :: "('m \<Rightarrow> 'm) \<Rightarrow> ('m, 'v) PointInfo list \<Rightarrow> ('m, 'v) PointInfo list" where
  "SetAllOnline SetOnline ps = map (\<lambda>p. p\<lparr>pi_Value := SetOnline (pi_Value p)\<rparr>) ps"

definition configured ::
  "('m \<Rightarrow> 'm) \<Rightarrow> ('m, 'v) PointInfo \<Rightarrow> nat \<Rightarrow> bool \<Rightarrow> ('m, 'v) PointInfo list \<Rightarrow> ('m, 'v) PointInfo list" where
  "configured SetOnline new aNumPoints aStartOnline ps =
     (let qs = AssignIndices (resized aNumPoints new ps) in if aStartOnline then SetAllOnline SetOnline qs else qs)"

definition new_BinaryInfo :: "(Binary, bool) PointInfo" where "new_BinaryInfo = new_PointInfo new_BoolDataPoint False"
definition new_AnalogInfo :: "(Analog, double) PointInfo" where "new_AnalogInfo = new_PointInfo (new_TypedDataPoint (Finite 0)) (Finite 0)"
definition new_CounterInfo :: "(Counter, u32) PointInfo" where "new_CounterInfo = new_PointInfo (new_TypedDataPoint 0) 0"

fun Configure_type :: "DataTypes \<Rightarrow> nat \<Rightarrow> bool \<Rightarrow> Database \<Rightarrow> Database" where
  "Configure_type DT_BINARY n online d =
     d\<lparr>mBinaryVec := configured (bp_SetQuality Q_ONLINE) new_BinaryInfo n online (mBinaryVec d)\<rparr>"
| "Configure_type DT_ANALOG n online d =
     d\<lparr>mAnalogVec := configured (tp_SetQuality Q_ONLINE) new_AnalogInfo n online (mAnalogVec d)\<rparr>"
| "Configure_type DT_COUNTER n online d =
     d\<lparr>mCounterVec := configured (tp_SetQuality Q_ONLINE) new_CounterInfo n online (mCounterVec d)\<rparr>"
| "Configure_type DT_CONTROL_STATUS n online d =
     d\<lparr>mControlStatusVec := configured (bp_SetQuality Q_ONLINE) new_BinaryInfo n online (mControlStatusVec d)\<rparr>"
| "Configure_type DT_SETPOINT_STATUS n online d =
     d\<lparr>mSetpointStatusVec := configured (tp_SetQuality Q_ONLINE) new_AnalogInfo n online (mSetpointStatusVec d)\<rparr>"

text \<open>\<open>SetClass\<close> of all points of a type and of one of them, and \<open>SetDeadband\<close>.\<close>

definition with_class :: "PointClass \<Rightarrow> ('m, 'v) PointInfo \<Rightarrow> ('m, 'v) PointInfo" where
  "with_class c p = p\<lparr>pi_Class := c\<rparr>"

fun SetClass_all :: "DataTypes \<Rightarrow> PointClass \<Rightarrow> Database \<Rightarrow> Database" where
  "SetClass_all DT_BINARY c d = d\<lparr>mBinaryVec := map (with_class c) (mBinaryVec d)\<rparr>"
| "SetClass_all DT_ANALOG c d = d\<lparr>mAnalogVec := map (with_class c) (mAnalogVec d)\<rparr>"
| "SetClass_all DT_COUNTER c d = d\<lparr>mCounterVec := map (with_class c) (mCounterVec d)\<rparr>"
| "SetClass_all DT_CONTROL_STATUS c d = d\<lparr>mControlStatusVec := map (with_class c) (mControlStatusVec d)\<rparr>"
| "SetClass_all DT_SETPOINT_STATUS c d = d\<lparr>mSetpointStatusVec := map (with_class c) (mSetpointStatusVec d)\<rparr>"

definition update_at :: "nat \<Rightarrow> ('a \<Rightarrow> 'a) \<Rightarrow> 'a list \<Rightarrow> exn + 'a list" where
  "update_at i f xs = (if i \<ge> length xs then Inl (Exception ERR_INDEX_OUT_OF_BOUNDS) else Inr (xs[i := f (xs ! i)]))"

fun SetClass :: "DataTypes \<Rightarrow> nat \<Rightarrow> PointClass \<Rightarrow> Database handler" where
  "SetClass DT_BINARY i c = with_value (\<lambda>d. update_at i (with_class c) (mBinaryVec d)) (\<lambda>v. modify (\<lambda>d. d\<lparr>mBinaryVec := v\<rparr>))"
| "SetClass DT_ANALOG i c = with_value (\<lambda>d. update_at i (with_class c) (mAnalogVec d)) (\<lambda>v. modify (\<lambda>d. d\<lparr>mAnalogVec := v\<rparr>))"
| "SetClass DT_COUNTER i c = with_value (\<lambda>d. update_at i (with_class c) (mCounterVec d)) (\<lambda>v. modify (\<lambda>d. d\<lparr>mCounterVec := v\<rparr>))"
| "SetClass DT_CONTROL_STATUS i c =
     with_value (\<lambda>d. update_at i (with_class c) (mControlStatusVec d)) (\<lambda>v. modify (\<lambda>d. d\<lparr>mControlStatusVec := v\<rparr>))"
| "SetClass DT_SETPOINT_STATUS i c =
     with_value (\<lambda>d. update_at i (with_class c) (mSetpointStatusVec d)) (\<lambda>v. modify (\<lambda>d. d\<lparr>mSetpointStatusVec := v\<rparr>))"

definition with_deadband :: "double \<Rightarrow> ('m, 'v) PointInfo \<Rightarrow> ('m, 'v) PointInfo" where
  "with_deadband x p = p\<lparr>pi_Deadband := x\<rparr>"

fun SetDeadband :: "DataTypes \<Rightarrow> nat \<Rightarrow> double \<Rightarrow> Database handler" where
  "SetDeadband DT_ANALOG i x = with_value (\<lambda>d. update_at i (with_deadband x) (mAnalogVec d)) (\<lambda>v. modify (\<lambda>d. d\<lparr>mAnalogVec := v\<rparr>))"
| "SetDeadband DT_COUNTER i x = with_value (\<lambda>d. update_at i (with_deadband x) (mCounterVec d)) (\<lambda>v. modify (\<lambda>d. d\<lparr>mCounterVec := v\<rparr>))"
| "SetDeadband _ i x = throw ArgumentException"

definition SetEventBuffer :: "SlaveEventBuffer \<Rightarrow> Database handler" where
  "SetEventBuffer b = in_order [assert_that (\<lambda>d. db_EventBuffer d = None), modify (\<lambda>d. d\<lparr>db_EventBuffer := Some b\<rparr>)]"

text \<open>
  \<open>Configure\<close> from a template: of its records the database reads the classes of binaries and counters, the classes and
  deadbands of analogs, and how many controls and setpoints there are.
\<close>

record DeviceTemplate =
  dt_Binary :: "PointClass list"
  dt_Counter :: "PointClass list"
  dt_Analog :: "(PointClass \<times> double) list"
  dt_NumControlStatus :: nat
  dt_NumSetpointStatus :: nat
  dt_StartOnline :: bool

definition Database_Configure :: "DeviceTemplate \<Rightarrow> Database handler" where
  "Database_Configure t = in_order (
     [modify (Configure_type DT_BINARY (length (dt_Binary t)) (dt_StartOnline t)),
      modify (Configure_type DT_ANALOG (length (dt_Analog t)) (dt_StartOnline t)),
      modify (Configure_type DT_COUNTER (length (dt_Counter t)) (dt_StartOnline t)),
      modify (Configure_type DT_CONTROL_STATUS (dt_NumControlStatus t) (dt_StartOnline t)),
      modify (Configure_type DT_SETPOINT_STATUS (dt_NumSetpointStatus t) (dt_StartOnline t))]
     @ map (\<lambda>(i, c). SetClass DT_BINARY i c) (enumerate 0 (dt_Binary t))
     @ map (\<lambda>(i, c). SetClass DT_COUNTER i c) (enumerate 0 (dt_Counter t))
     @ map (\<lambda>(i, c, x). in_order [SetClass DT_ANALOG i c, SetDeadband DT_ANALOG i x]) (enumerate 0 (dt_Analog t)))"

subsection \<open>Updates\<close>

text \<open>\<open>UpdateValue\<close>: the new points and whether the change is an event.\<close>

definition UpdateValue ::
  "('m \<Rightarrow> 'm \<Rightarrow> double \<Rightarrow> 'v \<Rightarrow> bool) \<Rightarrow> 'm \<Rightarrow> nat \<Rightarrow> ('m, 'v) PointInfo list \<Rightarrow> exn + bool \<times> ('m, 'v) PointInfo list" where
  "UpdateValue ShouldGenerateEvent arValue aIndex ps =
     (if aIndex \<ge> length ps then Inl IndexOutOfBoundsException
      else let p = ps ! aIndex; qs = ps[aIndex := p\<lparr>pi_Value := arValue\<rparr>]
        in if ShouldGenerateEvent (pi_Value p) arValue (pi_Deadband p) (pi_LastEventValue p)
           then Inr (class_overlaps (pi_Class p) PC_ALL_EVENTS, qs)
           else Inr (False, qs))"

definition notify :: "EventData \<Rightarrow> PointClass \<Rightarrow> nat \<Rightarrow> Database handler" where
  "notify v c i d =
     (case db_EventBuffer d of
        None \<Rightarrow> (None, d)
      | Some b \<Rightarrow> (let (r, b') = SlaveBuffer_Update v c i b in (r, d\<lparr>db_EventBuffer := Some b'\<rparr>)))"

definition mark_reported :: "nat \<Rightarrow> ('v TypedDataPoint, 'v) PointInfo list \<Rightarrow> ('v TypedDataPoint, 'v) PointInfo list" where
  "mark_reported i ps = ps[i := (ps ! i)\<lparr>pi_LastEventValue := tp_Value (pi_Value (ps ! i))\<rparr>]"

abbreviation "binary_changes \<equiv> bp_ShouldGenerateEvent"
abbreviation "analog_changes \<equiv> tp_ShouldGenerateEvent ExceedsDeadband_double"
abbreviation "counter_changes \<equiv> tp_ShouldGenerateEvent ExceedsDeadband_u32"

definition Update_Binary :: "Binary \<Rightarrow> nat \<Rightarrow> Database handler" where
  "Update_Binary arPoint aIndex = with_value (\<lambda>d. UpdateValue binary_changes arPoint aIndex (mBinaryVec d)) (\<lambda>(changed, ps).
     in_order [
       modify (\<lambda>d. d\<lparr>mBinaryVec := ps\<rparr>),
       if_else (\<lambda>d. changed)
         (reading (\<lambda>d. let v = mBinaryVec d ! aIndex in notify (Ed_Binary (pi_Value v)) (pi_Class v) aIndex))
         skip])"

definition Update_Analog :: "Analog \<Rightarrow> nat \<Rightarrow> Database handler" where
  "Update_Analog arPoint aIndex = with_value (\<lambda>d. UpdateValue analog_changes arPoint aIndex (mAnalogVec d)) (\<lambda>(changed, ps).
     in_order [
       modify (\<lambda>d. d\<lparr>mAnalogVec := ps\<rparr>),
       if_else (\<lambda>d. changed)
         (in_order [
           modify (\<lambda>d. d\<lparr>mAnalogVec := mark_reported aIndex (mAnalogVec d)\<rparr>),
           reading (\<lambda>d. let v = mAnalogVec d ! aIndex in notify (Ed_Analog (pi_Value v)) (pi_Class v) aIndex)])
         skip])"

definition Update_Counter :: "Counter \<Rightarrow> nat \<Rightarrow> Database handler" where
  "Update_Counter arPoint aIndex = with_value (\<lambda>d. UpdateValue counter_changes arPoint aIndex (mCounterVec d)) (\<lambda>(changed, ps).
     in_order [
       modify (\<lambda>d. d\<lparr>mCounterVec := ps\<rparr>),
       if_else (\<lambda>d. changed)
         (in_order [
           modify (\<lambda>d. d\<lparr>mCounterVec := mark_reported aIndex (mCounterVec d)\<rparr>),
           reading (\<lambda>d. let v = mCounterVec d ! aIndex in notify (Ed_Counter (pi_Value v)) (pi_Class v) aIndex)])
         skip])"

definition Update_ControlStatus :: "ControlStatus \<Rightarrow> nat \<Rightarrow> Database handler" where
  "Update_ControlStatus arPoint aIndex =
     with_value (\<lambda>d. UpdateValue binary_changes arPoint aIndex (mControlStatusVec d)) (\<lambda>(changed, ps).
       modify (\<lambda>d. d\<lparr>mControlStatusVec := ps\<rparr>))"

definition Update_SetpointStatus :: "SetpointStatus \<Rightarrow> nat \<Rightarrow> Database handler" where
  "Update_SetpointStatus arPoint aIndex =
     with_value (\<lambda>d. UpdateValue analog_changes arPoint aIndex (mSetpointStatusVec d)) (\<lambda>(changed, ps).
       modify (\<lambda>d. d\<lparr>mSetpointStatusVec := ps\<rparr>))"

text \<open>The public \<open>Update\<close> of \<open>IDataObserver\<close>: only within a transaction.\<close>

datatype Measurement = M_Binary Binary | M_Analog Analog | M_Counter Counter
  | M_ControlStatus ControlStatus | M_SetpointStatus SetpointStatus

fun Database_NVII_Update :: "Measurement \<Rightarrow> nat \<Rightarrow> Database handler" where
  "Database_NVII_Update (M_Binary v) i = Update_Binary v i"
| "Database_NVII_Update (M_Analog v) i = Update_Analog v i"
| "Database_NVII_Update (M_Counter v) i = Update_Counter v i"
| "Database_NVII_Update (M_ControlStatus v) i = Update_ControlStatus v i"
| "Database_NVII_Update (M_SetpointStatus v) i = Update_SetpointStatus v i"

definition Database_Update :: "Measurement \<Rightarrow> nat \<Rightarrow> Database handler" where
  "Database_Update v i = in_order [assert_that db_InProgress, Database_NVII_Update v i]"

subsection \<open>Sizes\<close>

fun NumType :: "DataTypes \<Rightarrow> Database \<Rightarrow> nat" where
  "NumType DT_BINARY d = length (mBinaryVec d)"
| "NumType DT_ANALOG d = length (mAnalogVec d)"
| "NumType DT_COUNTER d = length (mCounterVec d)"
| "NumType DT_CONTROL_STATUS d = length (mControlStatusVec d)"
| "NumType DT_SETPOINT_STATUS d = length (mSetpointStatusVec d)"

definition MaxIndex :: "DataTypes \<Rightarrow> Database \<Rightarrow> exn + nat" where
  "MaxIndex t d = (if NumType t d = 0 then Inl ArgumentException else Inr (NumType t d - 1))"

text \<open>
  \<open>DeviceTemplate::Publish\<close>: default measurements for all points, in a transaction, which the destructor of the
  \<open>Transaction\<close> ends also when an update throws.
\<close>

definition in_transaction :: "Database handler \<Rightarrow> Database handler" where
  "in_transaction body = in_order [Transaction_Start,
     \<lambda>d. (case body d of (r, d') \<Rightarrow> (case Transaction_End d' of (None, d'') \<Rightarrow> (r, d'') | (Some e, d'') \<Rightarrow> (Some e, d'')))]"

definition Publish :: "DeviceTemplate \<Rightarrow> Database handler" where
  "Publish t = in_transaction (in_order (
     map (\<lambda>i. Database_Update (M_Binary new_BoolDataPoint) i) [0..<length (dt_Binary t)]
     @ map (\<lambda>i. Database_Update (M_Analog (new_TypedDataPoint (Finite 0))) i) [0..<length (dt_Analog t)]
     @ map (\<lambda>i. Database_Update (M_Counter (new_TypedDataPoint 0)) i) [0..<length (dt_Counter t)]
     @ map (\<lambda>i. Database_Update (M_ControlStatus new_BoolDataPoint) i) [0..<dt_NumControlStatus t]
     @ map (\<lambda>i. Database_Update (M_SetpointStatus (new_TypedDataPoint (Finite 0))) i) [0..<dt_NumSetpointStatus t]))"

section \<open>The configured database\<close>

lemma length_resized [simp]: "length (resized n x xs) = n"
  by (simp add: resized_def)

lemma length_AssignIndices [simp]: "length (AssignIndices ps) = length ps"
  by (simp add: AssignIndices_def)

lemma nth_AssignIndices: "i < length ps \<Longrightarrow> AssignIndices ps ! i = (ps ! i)\<lparr>pi_Index := i\<rparr>"
  by (simp add: AssignIndices_def nth_enumerate_eq)

text \<open>The points \<open>configured\<close> makes of an empty vector.\<close>

lemma configured_new:
  "configured SetOnline new n online [] =
     map (\<lambda>i. new\<lparr>pi_Index := i, pi_Value := (if online then SetOnline else id) (pi_Value new)\<rparr>) [0..<n]"
  by (rule nth_equalityI)
    (auto simp: configured_def resized_def Let_def SetAllOnline_def nth_AssignIndices)

lemma update_at_ok: "i < length xs \<Longrightarrow> update_at i f xs = Inr (xs[i := f (xs ! i)])"
  by (simp add: update_at_def)

text \<open>
  A loop that gives each element of a vector its configuration, one index after the other: the vector is read
  and written by \<open>get\<close> and \<open>put\<close>.
\<close>

lemma configuration_loop:
  assumes put: "\<And>v d. get (put v d) = v" "\<And>v w d. put v (put w d) = put v d" "\<And>d. put (get d) d = d"
    and step: "\<And>i c d. i < length (get d) \<Longrightarrow> h i c d = (None, put ((get d)[i := f c (get d ! i)]) d)"
  shows "k + length cs \<le> length (get d) \<Longrightarrow>
    in_order (map (\<lambda>(i, c). h i c) (enumerate k cs)) d =
      (None, put (take k (get d) @ map2 f cs (drop k (get d)) @ drop (k + length cs) (get d)) d)"
proof (induction cs arbitrary: k d)
  case Nil
  then show ?case by (simp add: put)
next
  case (Cons c cs)
  let ?v = "(get d)[k := f c (get d ! k)]"
  from Cons.prems have k: "k < length (get d)" by simp
  have "in_order (map (\<lambda>(i, c). h i c) (enumerate k (c # cs))) d =
      in_order (map (\<lambda>(i, c). h i c) (enumerate (Suc k) cs)) (put ?v d)"
    using step [OF k, of c] by (simp add: in_order.simps(2))
  also have "\<dots> = (None, put (take (Suc k) ?v @ map2 f cs (drop (Suc k) ?v) @ drop (Suc k + length cs) ?v) (put ?v d))"
    using Cons.IH [of "Suc k" "put ?v d"] Cons.prems by (simp add: put)
  also have "take (Suc k) ?v @ map2 f cs (drop (Suc k) ?v) @ drop (Suc k + length cs) ?v =
      take k (get d) @ map2 f (c # cs) (drop k (get d)) @ drop (k + length (c # cs)) (get d)"
    using k by (simp add: take_Suc_conv_app_nth Cons_nth_drop_Suc [symmetric])
  finally show ?case by (simp add: put)
qed

definition configured_database :: "DeviceTemplate \<Rightarrow> Database" where
  "configured_database t = new_Database\<lparr>
     mBinaryVec := map2 with_class (dt_Binary t)
       (configured (bp_SetQuality Q_ONLINE) new_BinaryInfo (length (dt_Binary t)) (dt_StartOnline t) []),
     mAnalogVec := map2 (\<lambda>(c, x) p. with_deadband x (with_class c p)) (dt_Analog t)
       (configured (tp_SetQuality Q_ONLINE) new_AnalogInfo (length (dt_Analog t)) (dt_StartOnline t) []),
     mCounterVec := map2 with_class (dt_Counter t)
       (configured (tp_SetQuality Q_ONLINE) new_CounterInfo (length (dt_Counter t)) (dt_StartOnline t) []),
     mControlStatusVec := configured (bp_SetQuality Q_ONLINE) new_BinaryInfo (dt_NumControlStatus t) (dt_StartOnline t) [],
     mSetpointStatusVec := configured (tp_SetQuality Q_ONLINE) new_AnalogInfo (dt_NumSetpointStatus t) (dt_StartOnline t) []\<rparr>"

lemma length_configured [simp]: "length (configured SetOnline new n online []) = n"
  by (simp add: configured_new)

lemma SetClass_Binary_loop:
  "length cs \<le> length (mBinaryVec d) \<Longrightarrow> in_order (map (\<lambda>(i, c). SetClass DT_BINARY i c) (enumerate 0 cs)) d =
     (None, d\<lparr>mBinaryVec := map2 with_class cs (mBinaryVec d) @ drop (length cs) (mBinaryVec d)\<rparr>)"
  using configuration_loop [of mBinaryVec "\<lambda>v d. d\<lparr>mBinaryVec := v\<rparr>" "SetClass DT_BINARY" with_class 0 cs d]
  by (simp add: handler_simps update_at_ok)

lemma SetClass_Counter_loop:
  "length cs \<le> length (mCounterVec d) \<Longrightarrow> in_order (map (\<lambda>(i, c). SetClass DT_COUNTER i c) (enumerate 0 cs)) d =
     (None, d\<lparr>mCounterVec := map2 with_class cs (mCounterVec d) @ drop (length cs) (mCounterVec d)\<rparr>)"
  using configuration_loop [of mCounterVec "\<lambda>v d. d\<lparr>mCounterVec := v\<rparr>" "SetClass DT_COUNTER" with_class 0 cs d]
  by (simp add: handler_simps update_at_ok)

lemma SetAnalog_loop:
  "length cs \<le> length (mAnalogVec d) \<Longrightarrow>
   in_order (map (\<lambda>(i, c, x). in_order [SetClass DT_ANALOG i c, SetDeadband DT_ANALOG i x]) (enumerate 0 cs)) d =
     (None, d\<lparr>mAnalogVec := map2 (\<lambda>(c, x) p. with_deadband x (with_class c p)) cs (mAnalogVec d) @
        drop (length cs) (mAnalogVec d)\<rparr>)"
  using configuration_loop [of mAnalogVec "\<lambda>v d. d\<lparr>mAnalogVec := v\<rparr>"
      "\<lambda>i (c, x). in_order [SetClass DT_ANALOG i c, SetDeadband DT_ANALOG i x]"
      "\<lambda>(c, x) p. with_deadband x (with_class c p)" 0 cs d]
  by (simp add: handler_simps update_at_ok case_prod_unfold)

lemma Database_Configure_eq: "Database_Configure t new_Database = (None, configured_database t)"
  unfolding Database_Configure_def in_order_append
  by (simp add: modify_def SetClass_Binary_loop SetClass_Counter_loop SetAnalog_loop
      configured_database_def new_Database_def del: SetClass.simps SetDeadband.simps)

section \<open>Invariant\<close>

text \<open>
  What is kept of a point with a class: its value has not moved further than its deadband from the value last reported.
  The counters of the event buffer hold the events of each index in the class of its point.
\<close>

definition reported :: "('v \<Rightarrow> 'v \<Rightarrow> double \<Rightarrow> bool) \<Rightarrow> ('v TypedDataPoint, 'v) PointInfo \<Rightarrow> bool" where
  "reported exceeds p \<longleftrightarrow>
     (class_overlaps (pi_Class p) PC_ALL_EVENTS \<longrightarrow> \<not> exceeds (tp_Value (pi_Value p)) (pi_LastEventValue p) (pi_Deadband p))"

definition nonnegative :: "double \<Rightarrow> bool" where
  "nonnegative x \<longleftrightarrow> \<not> double_greater (Finite 0) x"

definition counter_class :: "Database \<Rightarrow> nat \<Rightarrow> PointClass" where
  "counter_class d i = (if i < length (mCounterVec d) then pi_Class (mCounterVec d ! i) else PC_CLASS_0)"

definition points_inv :: "Database \<Rightarrow> bool" where
  "points_inv d \<longleftrightarrow>
     (\<forall>p \<in> set (mAnalogVec d). reported ExceedsDeadband_double p \<and> nonnegative (pi_Deadband p)) \<and>
     (\<forall>p \<in> set (mCounterVec d). reported ExceedsDeadband_u32 p \<and> nonnegative (pi_Deadband p))"

definition database_inv :: "Database \<Rightarrow> bool" where
  "database_inv d \<longleftrightarrow> points_inv d \<and>
     (case db_EventBuffer d of None \<Rightarrow> True | Some b \<Rightarrow> slave_buffer_inv (counter_class d) b)"

lemma rounded_0 [simp]: "rounded 0 = Finite 0"
  by (simp add: rounded_def significant_bits_def bit_count.simps nearest_multiple_def Let_def)

lemma ExceedsDeadband_double_same: "nonnegative x \<Longrightarrow> \<not> ExceedsDeadband_double v v x"
  by (cases v) (simp_all add: ExceedsDeadband_double_def nonnegative_def Let_def)

lemma ExceedsDeadband_u32_same: "nonnegative x \<Longrightarrow> \<not> ExceedsDeadband_u32 v v x"
  by (simp add: ExceedsDeadband_u32_def nonnegative_def double_of_u32_def)

text \<open>\<open>UpdateValue\<close> and, where it says so, the note of the value reported.\<close>

lemma UpdateValue_reported:
  assumes "UpdateValue (tp_ShouldGenerateEvent exceeds) v i ps = Inr (changed, qs)"
    and "\<forall>p \<in> set ps. reported exceeds p \<and> nonnegative (pi_Deadband p)"
    and same: "\<And>v x. nonnegative x \<Longrightarrow> \<not> exceeds v v x"
  shows "\<forall>p \<in> set (if changed then mark_reported i qs else qs). reported exceeds p \<and> nonnegative (pi_Deadband p)"
    and "i < length ps" and "length qs = length ps" and "map pi_Class qs = map pi_Class ps"
    and "map pi_Class (mark_reported i qs) = map pi_Class ps"
proof -
  from assms(1) have i: "i < length ps" by (simp add: UpdateValue_def split: if_splits)
  let ?p = "(ps ! i)\<lparr>pi_Value := v\<rparr>"
  from assms(1) i have qs: "qs = ps[i := ?p]"
    and changed: "changed \<longleftrightarrow> tp_ShouldGenerateEvent exceeds (pi_Value (ps ! i)) v (pi_Deadband (ps ! i)) (pi_LastEventValue (ps ! i)) \<and>
      class_overlaps (pi_Class (ps ! i)) PC_ALL_EVENTS"
    by (auto simp: UpdateValue_def Let_def split: if_splits)
  show "i < length ps" "length qs = length ps" using i qs by simp_all
  show "map pi_Class qs = map pi_Class ps" "map pi_Class (mark_reported i qs) = map pi_Class ps"
    using i by (simp_all add: qs mark_reported_def map_update list_update_same_conv)
  from assms(2) i have deadband: "nonnegative (pi_Deadband (ps ! i))" by simp
  show "\<forall>p \<in> set (if changed then mark_reported i qs else qs). reported exceeds p \<and> nonnegative (pi_Deadband p)"
  proof (cases changed)
    case True
    have "mark_reported i qs = ps[i := ?p\<lparr>pi_LastEventValue := tp_Value v\<rparr>]"
      using i by (simp add: mark_reported_def qs)
    moreover have "reported exceeds (?p\<lparr>pi_LastEventValue := tp_Value v\<rparr>)" using same deadband by (simp add: reported_def)
    ultimately show ?thesis using True assms(2) deadband by (auto dest!: set_update_subset_insert [THEN subsetD])
  next
    case False
    with changed have "reported exceeds ?p" by (auto simp: reported_def tp_ShouldGenerateEvent_def split: if_splits)
    with False qs assms(2) deadband show ?thesis by (auto dest!: set_update_subset_insert [THEN subsetD])
  qed
qed

section \<open>The database and its event buffer as a machine\<close>

text \<open>
  The user's transactions and updates, and what the outstation does to the event buffer in between: selecting events,
  marking them as written, clearing and putting them back, and adding events of virtual terminals.
\<close>

datatype DbEvent =
    De_Start
  | De_End
  | De_Update Measurement nat
  | De_Vto VtoData PointClass nat
  | De_Select BufferTypes PointClass nat
  | De_Select_all PointClass nat
  | De_ClearWritten
  | De_Deselect
  | De_IsOverflow

definition on_event_buffer :: "(SlaveEventBuffer \<Rightarrow> exn option \<times> SlaveEventBuffer) \<Rightarrow> Database handler" where
  "on_event_buffer f d = (case db_EventBuffer d of
       None \<Rightarrow> (None, d)
     | Some b \<Rightarrow> (fst (f b), d\<lparr>db_EventBuffer := Some (snd (f b))\<rparr>))"

fun db_handle :: "DbEvent \<Rightarrow> Database handler" where
  "db_handle De_Start d = Transaction_Start d"
| "db_handle De_End d = Transaction_End d"
| "db_handle (De_Update m i) d = Database_Update m i d"
| "db_handle (De_Vto v c i) d = on_event_buffer (SlaveBuffer_Update (Ed_Vto v) c i) d"
| "db_handle (De_Select t c n) d = on_event_buffer (\<lambda>b. failure (SlaveBuffer_Select_of t c n b)) d"
| "db_handle (De_Select_all c n) d = on_event_buffer (\<lambda>b. failure (SlaveBuffer_Select c n b)) d"
| "db_handle De_ClearWritten d = on_event_buffer (\<lambda>b. (None, snd (SlaveBuffer_ClearWritten b))) d"
| "db_handle De_Deselect d = on_event_buffer (\<lambda>b. (None, snd (SlaveBuffer_Deselect b))) d"
| "db_handle De_IsOverflow d = on_event_buffer (\<lambda>b. (None, snd (SlaveBuffer_IsOverflow b))) d"

fun db_possible :: "Database \<Rightarrow> DbEvent \<Rightarrow> bool" where
  "db_possible d De_Start \<longleftrightarrow> \<not> db_InProgress d"
| "db_possible d De_End \<longleftrightarrow> db_InProgress d"
| "db_possible d (De_Update m i) \<longleftrightarrow> db_InProgress d"
| "db_possible d (De_Select t c n) \<longleftrightarrow> t \<noteq> BT_INVALID"
| "db_possible d _ \<longleftrightarrow> True"

text \<open>
  The database of a template, with deadbands set on some of its points and then an event buffer, when none of the
  deadbands is negative.
\<close>

definition opened_database :: "DeviceTemplate \<Rightarrow> (DataTypes \<times> nat \<times> double) list \<Rightarrow> EventMaxConfig \<Rightarrow> Database" where
  "opened_database t deadbands cfg =
     snd (in_order [Database_Configure t, in_order (map (\<lambda>(ty, i, x). SetDeadband ty i x) deadbands),
       SetEventBuffer (new_SlaveEventBuffer cfg)] new_Database)"

definition db_start :: "Database \<Rightarrow> bool" where
  "db_start d \<longleftrightarrow> (\<exists>t deadbands cfg. (\<forall>(c, x) \<in> set (dt_Analog t). nonnegative x) \<and>
     (\<forall>(ty, i, x) \<in> set deadbands. nonnegative x) \<and> d = opened_database t deadbands cfg)"

lemma map2_elem: "p \<in> set (map2 f xs ys) \<Longrightarrow> \<exists>i < length xs. i < length ys \<and> p = f (xs ! i) (ys ! i)"
  by (auto simp: set_zip)

lemma configured_vectors:
  "mCounterVec (configured_database t) = map2 with_class (dt_Counter t)
     (configured (tp_SetQuality Q_ONLINE) new_CounterInfo (length (dt_Counter t)) (dt_StartOnline t) [])"
  "mAnalogVec (configured_database t) = map2 (\<lambda>(c, x) p. with_deadband x (with_class c p)) (dt_Analog t)
     (configured (tp_SetQuality Q_ONLINE) new_AnalogInfo (length (dt_Analog t)) (dt_StartOnline t) [])"
  by (simp_all add: configured_database_def)

text \<open>Before the first update every point has the value it last reported.\<close>

definition unchanged :: "('v TypedDataPoint, 'v) PointInfo \<Rightarrow> bool" where
  "unchanged p \<longleftrightarrow> tp_Value (pi_Value p) = pi_LastEventValue p \<and> nonnegative (pi_Deadband p)"

definition pristine :: "Database \<Rightarrow> bool" where
  "pristine d \<longleftrightarrow> (\<forall>p \<in> set (mAnalogVec d). unchanged p) \<and> (\<forall>p \<in> set (mCounterVec d). unchanged p) \<and> db_EventBuffer d = None"

lemma configured_database_quiet:
  assumes t: "\<forall>(c, x) \<in> set (dt_Analog t). nonnegative x"
  shows "pristine (configured_database t)"
proof -
  have zero: "nonnegative (Finite 0)" by (simp add: nonnegative_def)
  have counters: "unchanged p" if "p \<in> set (mCounterVec (configured_database t))" for p
    using map2_elem [OF that [unfolded configured_vectors]] zero
    by (auto simp: configured_new with_class_def unchanged_def new_CounterInfo_def new_PointInfo_def new_TypedDataPoint_def
        tp_SetQuality_def)
  have analogs: "unchanged p" if p: "p \<in> set (mAnalogVec (configured_database t))" for p
  proof -
    from map2_elem [OF p [unfolded configured_vectors]] obtain i where i: "i < length (dt_Analog t)"
      "p = (case dt_Analog t ! i of (c, x) \<Rightarrow> \<lambda>p. with_deadband x (with_class c p))
        (configured (tp_SetQuality Q_ONLINE) new_AnalogInfo (length (dt_Analog t)) (dt_StartOnline t) [] ! i)" by blast
    obtain c x where cx: "dt_Analog t ! i = (c, x)" by fastforce
    with t nth_mem [OF i(1)] have "nonnegative x" by auto
    with i cx show ?thesis
      by (simp add: configured_new with_class_def with_deadband_def unchanged_def new_AnalogInfo_def new_PointInfo_def
          new_TypedDataPoint_def tp_SetQuality_def)
  qed
  show ?thesis using counters analogs by (simp add: pristine_def) (simp add: configured_database_def new_Database_def)
qed

lemma keeps_SetDeadband: "nonnegative x \<Longrightarrow> keeps pristine (SetDeadband ty i x)"
  by (cases ty) (auto simp: keeps_def handler_simps update_at_def pristine_def unchanged_def with_deadband_def
      dest!: set_update_subset_insert [THEN subsetD])

lemma quiet_inv:
  assumes "pristine d"
  shows "database_inv d"
  using assms ExceedsDeadband_double_same ExceedsDeadband_u32_same
  by (auto simp: pristine_def database_inv_def points_inv_def reported_def unchanged_def)

lemma db_start_inv: "db_start d \<Longrightarrow> database_inv d"
proof -
  assume "db_start d"
  then obtain t deadbands cfg where t: "\<forall>(c, x) \<in> set (dt_Analog t). nonnegative x"
    and ds: "\<forall>(ty, i, x) \<in> set deadbands. nonnegative x" and d: "d = opened_database t deadbands cfg"
    by (auto simp: db_start_def)
  let ?h = "in_order (map (\<lambda>(ty, i, x). SetDeadband ty i x) deadbands)"
  have "keeps pristine ?h" using ds by (intro keeps_in_order) (auto intro: keeps_SetDeadband)
  from keepsD [OF this configured_database_quiet [OF t]] have pristine: "pristine (snd (?h (configured_database t)))" .
  let ?d = "snd (?h (configured_database t))"
  have "database_inv (?d\<lparr>db_EventBuffer := Some (new_SlaveEventBuffer cfg)\<rparr>)"
    using quiet_inv [OF pristine] by (simp add: database_inv_def points_inv_def new_SlaveEventBuffer_inv)
  with quiet_inv [OF pristine] pristine show "database_inv d"
    by (cases "?h (configured_database t)")
      (auto simp: d opened_database_def Database_Configure_eq SetEventBuffer_def handler_simps pristine_def
        split: option.splits)
qed

lemma counter_class_cong: "map pi_Class (mCounterVec d') = map pi_Class (mCounterVec d) \<Longrightarrow> counter_class d' = counter_class d"
  by (rule ext) (metis counter_class_def length_map nth_map)

lemma database_inv_cong:
  assumes "mAnalogVec d' = mAnalogVec d" "mCounterVec d' = mCounterVec d" "db_EventBuffer d' = db_EventBuffer d"
  shows "database_inv d' = database_inv d"
  using counter_class_cong [of d' d] assms by (simp add: database_inv_def points_inv_def split: option.split)

lemma on_event_buffer_inv:
  assumes "database_inv d" and "\<And>b. slave_buffer_inv (counter_class d) b \<Longrightarrow>
    fst (f b) = None \<and> slave_buffer_inv (counter_class d) (snd (f b))"
  shows "fst (on_event_buffer f d) = None \<and> database_inv (snd (on_event_buffer f d))"
proof (cases "db_EventBuffer d")
  case None
  with assms(1) show ?thesis by (simp add: on_event_buffer_def)
next
  case (Some b)
  with assms(1) have b: "slave_buffer_inv (counter_class d) b" and points: "points_inv d" by (simp_all add: database_inv_def)
  let ?d = "d\<lparr>db_EventBuffer := Some (snd (f b))\<rparr>"
  have "counter_class ?d = counter_class d" by (rule counter_class_cong) simp
  with assms(2) [OF b] Some points show ?thesis by (simp add: on_event_buffer_def database_inv_def points_inv_def)
qed

lemma notify_on_event_buffer: "notify v c i = on_event_buffer (SlaveBuffer_Update v c i)"
  by (simp add: notify_def on_event_buffer_def fun_eq_iff case_prod_beta split: option.split)

lemma notify_inv:
  "database_inv d \<Longrightarrow> data_possible (counter_class d) v c i \<Longrightarrow>
   fst (notify v c i d) = None \<and> database_inv (snd (notify v c i d))"
  unfolding notify_on_event_buffer by (rule on_event_buffer_inv) (simp_all add: SlaveBuffer_Update_inv)

lemma mark_reported_nth:
  "i < length ps \<Longrightarrow> pi_Class (mark_reported i ps ! i) = pi_Class (ps ! i)"
  by (simp add: mark_reported_def)

lemma class_at: "map pi_Class qs = map pi_Class ps \<Longrightarrow> i < length ps \<Longrightarrow> pi_Class (qs ! i) = pi_Class (ps ! i)"
  by (metis length_map nth_map)

text \<open>An update of a counter: the points, then the event.\<close>

lemma Update_Counter_runs:
  "Update_Counter v i d = (case UpdateValue counter_changes v i (mCounterVec d) of
     Inl e \<Rightarrow> (Some e, d)
   | Inr (changed, ps) \<Rightarrow>
       if changed then
         notify (Ed_Counter (pi_Value (mark_reported i ps ! i))) (pi_Class (mark_reported i ps ! i)) i
           (d\<lparr>mCounterVec := mark_reported i ps\<rparr>)
       else (None, d\<lparr>mCounterVec := ps\<rparr>))"
  by (simp add: Update_Counter_def handler_simps Let_def split: sum.split prod.split option.split)

lemma Update_Analog_runs:
  "Update_Analog v i d = (case UpdateValue analog_changes v i (mAnalogVec d) of
     Inl e \<Rightarrow> (Some e, d)
   | Inr (changed, ps) \<Rightarrow>
       if changed then
         notify (Ed_Analog (pi_Value (mark_reported i ps ! i))) (pi_Class (mark_reported i ps ! i)) i
           (d\<lparr>mAnalogVec := mark_reported i ps\<rparr>)
       else (None, d\<lparr>mAnalogVec := ps\<rparr>))"
  by (simp add: Update_Analog_def handler_simps Let_def split: sum.split prod.split option.split)

lemma Update_Binary_runs:
  "Update_Binary v i d = (case UpdateValue binary_changes v i (mBinaryVec d) of
     Inl e \<Rightarrow> (Some e, d)
   | Inr (changed, ps) \<Rightarrow>
       if changed then notify (Ed_Binary (pi_Value (ps ! i))) (pi_Class (ps ! i)) i (d\<lparr>mBinaryVec := ps\<rparr>)
       else (None, d\<lparr>mBinaryVec := ps\<rparr>))"
  by (simp add: Update_Binary_def handler_simps Let_def split: sum.split prod.split option.split)

lemma database_inv_points:
  assumes "database_inv d" and "points_inv d'" and "db_EventBuffer d' = db_EventBuffer d"
    and "map pi_Class (mCounterVec d') = map pi_Class (mCounterVec d)"
  shows "database_inv d'"
  using assms counter_class_cong [OF assms(4)] by (simp add: database_inv_def split: option.splits)

definition db_sound :: "exn option \<times> Database \<Rightarrow> bool" where
  "db_sound rd \<longleftrightarrow> fst rd \<noteq> Some AssertionFailed \<and> database_inv (snd rd)"

lemma sound_notify: "database_inv d \<Longrightarrow> data_possible (counter_class d) v c i \<Longrightarrow> db_sound (notify v c i d)"
  using notify_inv [of d v c i] by (simp add: db_sound_def)

lemma UpdateValue_error: "UpdateValue f v i ps = Inl e \<Longrightarrow> e = IndexOutOfBoundsException"
  by (auto simp: UpdateValue_def Let_def split: if_splits)

lemma Update_Counter_sound:
  assumes inv: "database_inv d"
  shows "db_sound (Update_Counter v i d)"
proof (cases "UpdateValue counter_changes v i (mCounterVec d)")
  case (Inl e)
  with inv UpdateValue_error [OF Inl] show ?thesis by (simp add: Update_Counter_runs db_sound_def)
next
  case (Inr r)
  then obtain changed ps where r: "UpdateValue counter_changes v i (mCounterVec d) = Inr (changed, ps)" by (cases r) auto
  from inv have "\<forall>p \<in> set (mCounterVec d). reported ExceedsDeadband_u32 p \<and> nonnegative (pi_Deadband p)"
    by (simp add: database_inv_def points_inv_def)
  note upd = UpdateValue_reported [OF r this ExceedsDeadband_u32_same]
  let ?qs = "if changed then mark_reported i ps else ps"
  let ?d = "d\<lparr>mCounterVec := ?qs\<rparr>"
  have "points_inv ?d" using upd(1) inv by (simp add: database_inv_def points_inv_def)
  with inv have inv': "database_inv ?d" by (rule database_inv_points) (use upd(4,5) in simp_all)
  show ?thesis
  proof (cases changed)
    case True
    have "pi_Class (mark_reported i ps ! i) = counter_class ?d i" using True upd(2,3) by (simp add: counter_class_def mark_reported_def)
    then have "db_sound (notify (Ed_Counter (pi_Value (mark_reported i ps ! i))) (pi_Class (mark_reported i ps ! i)) i ?d)"
      by (intro sound_notify [OF inv']) (simp add: data_possible_def)
    with True r show ?thesis by (simp add: Update_Counter_runs)
  next
    case False
    with r inv' show ?thesis by (simp add: Update_Counter_runs db_sound_def)
  qed
qed

lemma Update_Analog_sound:
  assumes inv: "database_inv d"
  shows "db_sound (Update_Analog v i d)"
proof (cases "UpdateValue analog_changes v i (mAnalogVec d)")
  case (Inl e)
  with inv UpdateValue_error [OF Inl] show ?thesis by (simp add: Update_Analog_runs db_sound_def)
next
  case (Inr r)
  then obtain changed ps where r: "UpdateValue analog_changes v i (mAnalogVec d) = Inr (changed, ps)" by (cases r) auto
  from inv have "\<forall>p \<in> set (mAnalogVec d). reported ExceedsDeadband_double p \<and> nonnegative (pi_Deadband p)"
    by (simp add: database_inv_def points_inv_def)
  note upd = UpdateValue_reported [OF r this ExceedsDeadband_double_same]
  let ?d = "d\<lparr>mAnalogVec := if changed then mark_reported i ps else ps\<rparr>"
  have "points_inv ?d" using upd(1) inv by (simp add: database_inv_def points_inv_def)
  with inv have inv': "database_inv ?d" by (rule database_inv_points) simp_all
  have "db_sound (notify (Ed_Analog w) c i ?d)" for w c by (rule sound_notify [OF inv']) (simp add: data_possible_def)
  with r inv' show ?thesis by (cases changed) (simp_all add: Update_Analog_runs db_sound_def)
qed

lemma Update_Binary_sound:
  assumes inv: "database_inv d"
  shows "db_sound (Update_Binary v i d)"
proof (cases "UpdateValue binary_changes v i (mBinaryVec d)")
  case (Inl e)
  with inv UpdateValue_error [OF Inl] show ?thesis by (simp add: Update_Binary_runs db_sound_def)
next
  case (Inr r)
  then obtain changed ps where r: "UpdateValue binary_changes v i (mBinaryVec d) = Inr (changed, ps)" by (cases r) auto
  have inv': "database_inv (d\<lparr>mBinaryVec := ps\<rparr>)" using inv by (subst database_inv_cong [of _ d]) simp_all
  then have "db_sound (notify (Ed_Binary w) c i (d\<lparr>mBinaryVec := ps\<rparr>))" for w c
    by (rule sound_notify) (simp add: data_possible_def)
  with r inv' show ?thesis by (simp add: Update_Binary_runs db_sound_def)
qed

lemma Update_Status_sound:
  assumes inv: "database_inv d"
  shows "db_sound (Update_ControlStatus w i d)" and "db_sound (Update_SetpointStatus x i d)"
proof -
  have "database_inv (d\<lparr>mControlStatusVec := ps\<rparr>)" for ps
    using inv by (subst database_inv_cong [of _ d]) simp_all
  moreover have "database_inv (d\<lparr>mSetpointStatusVec := qs\<rparr>)" for qs
    using inv by (subst database_inv_cong [of _ d]) simp_all
  ultimately show "db_sound (Update_ControlStatus w i d)" "db_sound (Update_SetpointStatus x i d)"
    using inv by (auto simp: Update_ControlStatus_def Update_SetpointStatus_def handler_simps db_sound_def dest: UpdateValue_error
        split: sum.split prod.split)
qed

lemma db_step:
  assumes inv: "database_inv d" and "db_possible d ev"
  shows "db_sound (db_handle ev d)"
proof (cases ev)
  case De_Start
  have "database_inv (d\<lparr>db_InProgress := True\<rparr>)" using inv by (subst database_inv_cong [of _ d]) simp_all
  with De_Start assms show ?thesis by (simp add: Transaction_Start_def handler_simps db_sound_def)
next
  case De_End
  have "database_inv (d\<lparr>db_InProgress := False\<rparr>)" using inv by (subst database_inv_cong [of _ d]) simp_all
  with De_End assms show ?thesis by (simp add: Transaction_End_def handler_simps db_sound_def)
next
  case (De_Update m i)
  with assms(2) have "db_handle ev d = Database_NVII_Update m i d" by (simp add: Database_Update_def handler_simps)
  then show ?thesis
    by (cases m) (simp_all add: Update_Binary_sound Update_Analog_sound Update_Counter_sound Update_Status_sound inv)
next
  case (De_Vto v c i)
  with on_event_buffer_inv [OF inv, of "SlaveBuffer_Update (Ed_Vto v) c i"] show ?thesis
    by (simp add: db_sound_def SlaveBuffer_Update_inv data_possible_def del: SlaveBuffer_Update.simps)
next
  case (De_Select t c n)
  have "fst (failure (SlaveBuffer_Select_of t c n b)) = None \<and>
      slave_buffer_inv (counter_class d) (snd (failure (SlaveBuffer_Select_of t c n b)))"
    if "slave_buffer_inv (counter_class d) b" for b
    using Select_of_inv [OF that, of t c n] assms(2) De_Select by (auto simp: failure_def)
  from on_event_buffer_inv [OF inv this] De_Select show ?thesis by (simp add: db_sound_def)
next
  case (De_Select_all c n)
  have "fst (failure (SlaveBuffer_Select c n b)) = None \<and> slave_buffer_inv (counter_class d) (snd (failure (SlaveBuffer_Select c n b)))"
    if "slave_buffer_inv (counter_class d) b" for b
    using SlaveBuffer_Select_inv [OF that, of c n] by (auto simp: failure_def)
  from on_event_buffer_inv [OF inv this] De_Select_all show ?thesis by (simp add: db_sound_def)
next
  case De_ClearWritten
  with on_event_buffer_inv [OF inv, of "\<lambda>b. (None, snd (SlaveBuffer_ClearWritten b))"] show ?thesis
    by (simp add: db_sound_def SlaveBuffer_ClearWritten_inv)
next
  case De_Deselect
  with on_event_buffer_inv [OF inv, of "\<lambda>b. (None, snd (SlaveBuffer_Deselect b))"] show ?thesis
    by (simp add: db_sound_def SlaveBuffer_Deselect_inv)
next
  case De_IsOverflow
  with on_event_buffer_inv [OF inv, of "\<lambda>b. (None, snd (SlaveBuffer_IsOverflow b))"] show ?thesis
    by (simp add: db_sound_def SlaveBuffer_IsOverflow_inv)
qed

interpretation database: assertion_free_machine db_handle db_possible db_start database_inv
  using db_step by unfold_locales (auto simp: db_sound_def internal_error_def db_start_inv)

section \<open>Properties\<close>


definition meter :: Database where
  "meter = opened_database \<lparr>dt_Binary = [], dt_Counter = [PC_CLASS_2], dt_Analog = [(PC_CLASS_1, Finite 4)],
     dt_NumControlStatus = 0, dt_NumSetpointStatus = 0, dt_StartOnline = True\<rparr>
     [(DT_COUNTER, 0, double_of_u32 10)] default_EventMaxConfig"

definition metered :: Database where
  "metered = run db_handle [De_Start, De_Update (M_Counter (TypedDataPoint_of 5 Q_ONLINE)) 0,
     De_Update (M_Counter (TypedDataPoint_of 14 Q_ONLINE)) 0, De_Update (M_Counter (TypedDataPoint_of 17 Q_ONLINE)) 0] meter"

lemma meter_start: "db_start meter"
  unfolding db_start_def meter_def
  by (rule exI, rule exI, rule exI, intro conjI; (rule refl)?) (simp_all add: nonnegative_def double_of_u32_def)

lemma metered_eq:
  "tp_Value (pi_Value (mCounterVec metered ! 0)) = 17" "pi_LastEventValue (mCounterVec metered ! 0) = 14"
  "pi_Deadband (mCounterVec metered ! 0) = double_of_u32 10" "pi_Class (mCounterVec metered ! 0) = PC_CLASS_2"
  "length (mCounterVec metered) = 1"
  by code_simp+


lemma EventBuffer_Update_keys:
  assumes inv: "buffer_inv kind cls b" and "\<not> is_single kind" and "NumUnselected b < eb_MaxEvents b"
  shows "image_mset event_key (mset (eb_Set (snd (EventBuffer_Update kind v c i b)))) =
    add_mset (v, c, i) (image_mset event_key (mset (eb_Set b)))"
proof -
  let ?b = "UpdateEvent kind (EventInfo_of v c i) True b"
  have new: "mset (eb_Set ?b) = add_mset (numbered v c i b) (mset (eb_Set b))" using UpdateEvent_new_mset [OF assms(1,2)] .
  from arg_cong [OF new, of size] assms(3) have "trimmed ?b = ?b" by (simp add: trimmed_def NumUnselected_def)
  moreover from assms(2) have "classified kind cls c i" by (cases kind) simp_all
  ultimately show ?thesis using EventBuffer_Update_eq(1) [OF inv, of c i v] new by simp
qed





text \<open>Changing the class of a counter point while an event of it waits breaks the class counters: the newer event takes
  the place of the older one without being counted in its class, and selecting it fails an assertion.\<close>

theorem class_change_breaks_counters:
  assumes "tp_Time v \<le> tp_Time w"
  shows "fst (SlaveBuffer_Select_of BT_COUNTER PC_CLASS_2 1
    (snd (SlaveBuffer_Update (Ed_Counter w) PC_CLASS_2 i
      (snd (SlaveBuffer_Update (Ed_Counter v) PC_CLASS_1 i (new_SlaveEventBuffer default_EventMaxConfig)))))) =
    Inl AssertionFailed"
  using assms
  by (simp add: on_Counter_def Let_def case_prod_beta handler_simps EventBuffer_Update_def UpdateEvent_def EventBuffer_Size_def
      new_SlaveEventBuffer_def default_EventMaxConfig_def counter_kind_def
      new_EventBuffer_def Single_NVII_Update_def EventInfo_of_def NumUnselected_def EventBuffer_Select_def new_ClassCounter_def)

theorem class_change_breaks_counters_witness:
  "fst (SlaveBuffer_Select_of BT_COUNTER PC_CLASS_2 1
    (snd (SlaveBuffer_Update (Ed_Counter (TypedDataPoint_of 8 Q_ONLINE)) PC_CLASS_2 3
      (snd (SlaveBuffer_Update (Ed_Counter (TypedDataPoint_of 7 Q_ONLINE)) PC_CLASS_1 3
        (new_SlaveEventBuffer default_EventMaxConfig)))))) = Inl AssertionFailed"
  by (rule class_change_breaks_counters) (simp add: TypedDataPoint_of_def tp_SetQuality_def new_TypedDataPoint_def)

end
