(* ===== verification/ObjectStreams.thy ===== *)
theory ObjectStreams
  imports DNPObjects Measurements
begin

text \<open>
  How a measurement is stored in the bytes of an object and read back (opendnp3/DNP3/Objects.cpp,
  DNPToStream.h, DNPFromStream.h; opendnp3/APL/PackingTemplates.h, PackingUnpacking.h and .cpp): the fields of an
  object by their packers, the floating point formats, and the templates that read and write quality, value and
  time. The lemmas show that what is written is read back, up to what the object has no room for.

  The sign of a zero and the payload of a NaN are not kept by the model's doubles (see Measurements): the bytes a
  write stores for a zero are those of +0, for a NaN those of the quiet one. Floats are stored by a
  \<open>reinterpret_cast\<close>, here on a little-endian machine.
\<close>

section \<open>Packers\<close>

text \<open>\<open>UInt48LE\<close>: the type is \<open>int64_t\<close>, of which it reads and writes the 48 lower bits.\<close>

definition UInt48LE_bits :: "bytes \<Rightarrow> nat \<Rightarrow> 48 word" where
  "UInt48LE_bits p off =
     (let ret = ucast (p ! off);
          ret = ret OR push_bit 8 (ucast (p ! (off + 1)));
          ret = ret OR push_bit 16 (ucast (p ! (off + 2)));
          ret = ret OR push_bit 24 (ucast (p ! (off + 3)));
          ret = ret OR push_bit 32 (ucast (p ! (off + 4)))
      in ret OR push_bit 40 (ucast (p ! (off + 5))))"

definition UInt48LE_store :: "bytes \<Rightarrow> nat \<Rightarrow> 48 word \<Rightarrow> bytes" where
  "UInt48LE_store p off v =
     (((((p[off := ucast (v AND 0xFF)])
        [off + 1 := ucast (drop_bit 8 v AND 0xFF)])
        [off + 2 := ucast (drop_bit 16 v AND 0xFF)])
        [off + 3 := ucast (drop_bit 24 v AND 0xFF)])
        [off + 4 := ucast (drop_bit 32 v AND 0xFF)])
        [off + 5 := ucast (drop_bit 40 v AND 0xFF)]"

definition UInt48LE_MAX :: int where "UInt48LE_MAX = 281474976710655"

definition UInt48LE_Read :: "bytes \<Rightarrow> nat \<Rightarrow> int" where
  "UInt48LE_Read p off = uint (UInt48LE_bits p off)"

definition UInt48LE_Write :: "bytes \<Rightarrow> nat \<Rightarrow> int \<Rightarrow> bytes" where
  "UInt48LE_Write p off aValue =
     UInt48LE_store p off (word_of_int (if aValue > UInt48LE_MAX then UInt48LE_MAX else aValue))"

text \<open>
  The binary interchange formats of IEEE 754: \<open>frac\<close> bits of fraction, \<open>exps\<close> bits of exponent, and the smallest
  positive value as the power of two \<open>2 ^ base\<close> of the smallest double. The value of a bit pattern:
\<close>

definition ieee_value :: "nat \<Rightarrow> nat \<Rightarrow> nat \<Rightarrow> nat \<Rightarrow> double" where
  "ieee_value frac exps base bits =
     (let f = bits mod 2 ^ frac;
          e = bits div 2 ^ frac mod 2 ^ exps;
          negative = bits div 2 ^ (frac + exps) mod 2 = 1;
          m = (if e = 0 then f else (2 ^ frac + f) * 2 ^ (e - 1)) * 2 ^ base
      in if e = 2 ^ exps - 1 then (if f = 0 then Double_Infinity (\<not> negative) else Double_NaN)
         else Finite (if negative then - int m else int m))"

text \<open>The bit pattern of a value of the format.\<close>

definition ieee_magnitude :: "nat \<Rightarrow> nat \<Rightarrow> nat" where
  "ieee_magnitude frac u =
     (if u < 2 ^ frac then u
      else let k = bit_count (int u) - (frac + 1) in (k + 1) * 2 ^ frac + (u div 2 ^ k - 2 ^ frac))"

fun ieee_bits :: "nat \<Rightarrow> nat \<Rightarrow> nat \<Rightarrow> double \<Rightarrow> nat" where
  "ieee_bits frac exps base Double_NaN = (2 ^ exps - 1) * 2 ^ frac + 2 ^ (frac - 1)"
| "ieee_bits frac exps base (Double_Infinity positive) =
     (if positive then 0 else 2 ^ (frac + exps)) + (2 ^ exps - 1) * 2 ^ frac"
| "ieee_bits frac exps base (Finite n) =
     (if n < 0 then 2 ^ (frac + exps) else 0) + ieee_magnitude frac (nat \<bar>n\<bar> div 2 ^ base)"

definition SingleFloat_Read :: "bytes \<Rightarrow> nat \<Rightarrow> double" where
  "SingleFloat_Read p off = ieee_value 23 8 925 (unat (UInt32LE_Read p off))"

definition SingleFloat_Write :: "bytes \<Rightarrow> nat \<Rightarrow> double \<Rightarrow> bytes" where
  "SingleFloat_Write p off v = UInt32LE_Write p off (word_of_nat (ieee_bits 23 8 925 v))"

definition DoubleFloat_Read :: "bytes \<Rightarrow> nat \<Rightarrow> double" where
  "DoubleFloat_Read p off =
     ieee_value 52 11 0 (unat (UInt32LE_Read p off) + 2 ^ 32 * unat (UInt32LE_Read p (off + 4)))"

definition DoubleFloat_Write :: "bytes \<Rightarrow> nat \<Rightarrow> double \<Rightarrow> bytes" where
  "DoubleFloat_Write p off v =
     (let b = ieee_bits 52 11 0 v
      in UInt32LE_Write (UInt32LE_Write p off (word_of_nat b)) (off + 4) (word_of_nat (b div 2 ^ 32)))"

text \<open>\<open>Max\<close> and \<open>Min\<close> of a packer as doubles, and the conversions \<open>static_cast\<close> makes from a double.\<close>

definition whole :: "int \<Rightarrow> double" where
  "whole n = Finite (n * 2 ^ 1074)"

fun packer_Max :: "packer \<Rightarrow> double" where
  "packer_Max UInt8 = whole (2 ^ 8 - 1)"
| "packer_Max UInt16LE = whole (2 ^ 16 - 1)"
| "packer_Max UInt32LE = whole (2 ^ 32 - 1)"
| "packer_Max UInt48LE = whole UInt48LE_MAX"
| "packer_Max Int16LE = whole (2 ^ 15 - 1)"
| "packer_Max Int32LE = whole (2 ^ 31 - 1)"
| "packer_Max SingleFloat = Finite ((2 ^ 24 - 1) * 2 ^ 1178)"
| "packer_Max DoubleFloat = Finite ((2 ^ 53 - 1) * 2 ^ 2045)"

fun packer_Min :: "packer \<Rightarrow> double" where
  "packer_Min UInt8 = whole 0"
| "packer_Min UInt16LE = whole 0"
| "packer_Min UInt32LE = whole 0"
| "packer_Min UInt48LE = whole 0"
| "packer_Min Int16LE = whole (- (2 ^ 15))"
| "packer_Min Int32LE = whole (- (2 ^ 31))"
| "packer_Min SingleFloat = Finite (- ((2 ^ 24 - 1) * 2 ^ 1178))"
| "packer_Min DoubleFloat = Finite (- ((2 ^ 53 - 1) * 2 ^ 2045))"

definition float_of_double :: "double \<Rightarrow> double" where
  "float_of_double v =
     (case v of
        Finite n \<Rightarrow>
          (let m = nearest_multiple (max 925 (significant_bits n - 24)) n
           in if significant_bits m > 1202 then Double_Infinity (0 < n) else Finite m)
      | _ \<Rightarrow> v)"

text \<open>Towards zero; undefined for what is not a number or out of the range of the target.\<close>

definition int_of_double :: "double \<Rightarrow> int option" where
  "int_of_double v =
     (case v of
        Finite n \<Rightarrow> Some (if n < 0 then - (- n div 2 ^ 1074) else n div 2 ^ 1074)
      | _ \<Rightarrow> None)"

text \<open>A number as a packer's type holds it, and the implicit conversions between these types.\<close>

datatype number = Integer int | Floating double

fun to_double :: "number \<Rightarrow> double" where
  "to_double (Integer n) = whole n"
| "to_double (Floating v) = v"

fun to_int :: "number \<Rightarrow> int option" where
  "to_int (Integer n) = Some n"
| "to_int (Floating v) = int_of_double v"

text \<open>\<open>Pack<packer, position>\<close>: \<open>Get\<close> and \<open>Set\<close>; \<open>Set\<close> is None when the conversion of the value is undefined.\<close>

type_synonym pack = "packer \<times> nat"

fun Pack_Get :: "pack \<Rightarrow> bytes \<Rightarrow> nat \<Rightarrow> number" where
  "Pack_Get (UInt8, pos) p off = Integer (uint (UInt8_Read p (off + pos)))"
| "Pack_Get (UInt16LE, pos) p off = Integer (uint (UInt16LE_Read p (off + pos)))"
| "Pack_Get (UInt32LE, pos) p off = Integer (uint (UInt32LE_Read p (off + pos)))"
| "Pack_Get (UInt48LE, pos) p off = Integer (UInt48LE_Read p (off + pos))"
| "Pack_Get (Int16LE, pos) p off = Integer (sint (UInt16LE_Read p (off + pos)))"
| "Pack_Get (Int32LE, pos) p off = Integer (sint (UInt32LE_Read p (off + pos)))"
| "Pack_Get (SingleFloat, pos) p off = Floating (SingleFloat_Read p (off + pos))"
| "Pack_Get (DoubleFloat, pos) p off = Floating (DoubleFloat_Read p (off + pos))"

fun Pack_Set :: "pack \<Rightarrow> number \<Rightarrow> bytes \<Rightarrow> nat \<Rightarrow> bytes option" where
  "Pack_Set (UInt8, pos) v p off = map_option (\<lambda>n. UInt8_Write p (off + pos) (word_of_int n)) (to_int v)"
| "Pack_Set (UInt16LE, pos) v p off = map_option (\<lambda>n. UInt16LE_Write p (off + pos) (word_of_int n)) (to_int v)"
| "Pack_Set (UInt32LE, pos) v p off = map_option (\<lambda>n. UInt32LE_Write p (off + pos) (word_of_int n)) (to_int v)"
| "Pack_Set (UInt48LE, pos) v p off = map_option (UInt48LE_Write p (off + pos)) (to_int v)"
| "Pack_Set (Int16LE, pos) v p off = map_option (\<lambda>n. UInt16LE_Write p (off + pos) (word_of_int n)) (to_int v)"
| "Pack_Set (Int32LE, pos) v p off = map_option (\<lambda>n. UInt32LE_Write p (off + pos) (word_of_int n)) (to_int v)"
| "Pack_Set (SingleFloat, pos) v p off = Some (SingleFloat_Write p (off + pos) (float_of_double (to_double v)))"
| "Pack_Set (DoubleFloat, pos) v p off = Some (DoubleFloat_Write p (off + pos) (to_double v))"

section \<open>The templates\<close>

text \<open>The members \<open>mFlag\<close>, \<open>mValue\<close>, \<open>mTime\<close>, ... of an object class.\<close>

definition member :: "field_name \<Rightarrow> DNPObject \<Rightarrow> pack" where
  "member name ob = the (map_of (ob_fields ob) name)"

definition value_member :: "DNPObject \<Rightarrow> pack" where
  "value_member ob = (case map_of (ob_fields ob) mValue of Some f \<Rightarrow> f | None \<Rightarrow> member mValueOverRange ob)"

definition AQ_OVERRANGE :: byte where "AQ_OVERRANGE = 0x20"

text \<open>\<open>DNPFromStream\<close>. The value type of a measurement is a parameter, with its conversion from a number.\<close>

definition Get_Flag :: "DNPObject \<Rightarrow> bytes \<Rightarrow> nat \<Rightarrow> byte" where
  "Get_Flag ob p off = word_of_int (the (to_int (Pack_Get (member mFlag ob) p off)))"

definition Get_Time :: "DNPObject \<Rightarrow> bytes \<Rightarrow> nat \<Rightarrow> int" where
  "Get_Time ob p off = the (to_int (Pack_Get (member mTime ob) p off))"

definition ReadQ :: "DNPObject \<Rightarrow> bytes \<Rightarrow> nat \<Rightarrow> BoolDataPoint" where
  "ReadQ ob p off = bp_SetQuality (Get_Flag ob p off) new_BoolDataPoint"

definition ReadBinaryQV :: "DNPObject \<Rightarrow> bytes \<Rightarrow> nat \<Rightarrow> BoolDataPoint" where
  "ReadBinaryQV ob p off = new_BoolDataPoint\<lparr>bp_Quality := Get_Flag ob p off\<rparr>"

definition ReadBinaryQVT :: "DNPObject \<Rightarrow> bytes \<Rightarrow> nat \<Rightarrow> BoolDataPoint" where
  "ReadBinaryQVT ob p off = new_BoolDataPoint\<lparr>bp_Quality := Get_Flag ob p off, bp_Time := Get_Time ob p off\<rparr>"

definition ReadV :: "(number \<Rightarrow> 'v) \<Rightarrow> DNPObject \<Rightarrow> bytes \<Rightarrow> nat \<Rightarrow> 'v TypedDataPoint" where
  "ReadV conv ob p off = (new_TypedDataPoint (conv (Integer 0)))\<lparr>tp_Value := conv (Pack_Get (value_member ob) p off)\<rparr>"

definition ReadQV :: "(number \<Rightarrow> 'v) \<Rightarrow> DNPObject \<Rightarrow> bytes \<Rightarrow> nat \<Rightarrow> 'v TypedDataPoint" where
  "ReadQV conv ob p off = (tp_SetQuality (Get_Flag ob p off) (new_TypedDataPoint (conv (Integer 0))))
     \<lparr>tp_Value := conv (Pack_Get (value_member ob) p off)\<rparr>"

definition ReadQVT :: "(number \<Rightarrow> 'v) \<Rightarrow> DNPObject \<Rightarrow> bytes \<Rightarrow> nat \<Rightarrow> 'v TypedDataPoint" where
  "ReadQVT conv ob p off = (tp_SetQuality (Get_Flag ob p off) (new_TypedDataPoint (conv (Integer 0))))
     \<lparr>tp_Value := conv (Pack_Get (value_member ob) p off), tp_Time := Get_Time ob p off\<rparr>"

text \<open>\<open>DNPToStream\<close>: the value clamped to the range of the object's type, and whether it was out of it.\<close>

definition clamp :: "pack \<Rightarrow> number \<Rightarrow> number" where
  "clamp f val =
     (let val = (if double_greater (to_double val) (packer_Max (fst f)) then Floating (packer_Max (fst f)) else val)
      in if double_greater (packer_Min (fst f)) (to_double val) then Floating (packer_Min (fst f)) else val)"

definition over_range :: "pack \<Rightarrow> number \<Rightarrow> bool" where
  "over_range f val \<longleftrightarrow>
     double_greater (to_double val) (packer_Max (fst f)) \<or> double_greater (packer_Min (fst f)) (to_double val)"

definition Set_Flag :: "DNPObject \<Rightarrow> byte \<Rightarrow> bytes \<Rightarrow> nat \<Rightarrow> bytes" where
  "Set_Flag ob q p off = the (Pack_Set (member mFlag ob) (Integer (uint q)) p off)"

definition Set_Time :: "DNPObject \<Rightarrow> int \<Rightarrow> bytes \<Rightarrow> nat \<Rightarrow> bytes" where
  "Set_Time ob t p off = the (Pack_Set (member mTime ob) (Integer t) p off)"

definition WriteQ :: "DNPObject \<Rightarrow> BoolDataPoint \<Rightarrow> bytes \<Rightarrow> nat \<Rightarrow> bytes" where
  "WriteQ ob m p off = Set_Flag ob (bp_Quality m) p off"

definition WriteQT :: "DNPObject \<Rightarrow> BoolDataPoint \<Rightarrow> bytes \<Rightarrow> nat \<Rightarrow> bytes" where
  "WriteQT ob m p off = Set_Time ob (bp_Time m) (Set_Flag ob (bp_Quality m) p off) off"

definition WriteCheckRangeQV :: "('v \<Rightarrow> number) \<Rightarrow> DNPObject \<Rightarrow> 'v TypedDataPoint \<Rightarrow> bytes \<Rightarrow> nat \<Rightarrow> bytes option" where
  "WriteCheckRangeQV conv ob m p off =
     (let qual = (if over_range (value_member ob) (conv (tp_Value m)) then tp_Quality m OR AQ_OVERRANGE else tp_Quality m)
      in Pack_Set (value_member ob) (clamp (value_member ob) (conv (tp_Value m))) (Set_Flag ob qual p off) off)"

definition WriteV :: "('v \<Rightarrow> number) \<Rightarrow> DNPObject \<Rightarrow> 'v TypedDataPoint \<Rightarrow> bytes \<Rightarrow> nat \<Rightarrow> bytes option" where
  "WriteV conv ob m p off = Pack_Set (value_member ob) (clamp (value_member ob) (conv (tp_Value m))) p off"

definition WriteQV :: "('v \<Rightarrow> number) \<Rightarrow> DNPObject \<Rightarrow> 'v TypedDataPoint \<Rightarrow> bytes \<Rightarrow> nat \<Rightarrow> bytes option" where
  "WriteQV conv ob m p off = WriteV conv ob m (Set_Flag ob (tp_Quality m) p off) off"

definition WriteQVT :: "('v \<Rightarrow> number) \<Rightarrow> DNPObject \<Rightarrow> 'v TypedDataPoint \<Rightarrow> bytes \<Rightarrow> nat \<Rightarrow> bytes option" where
  "WriteQVT conv ob m p off = map_option (\<lambda>p. Set_Time ob (tp_Time m) p off) (WriteQV conv ob m p off)"

definition WriteCheckRangeQVT :: "('v \<Rightarrow> number) \<Rightarrow> DNPObject \<Rightarrow> 'v TypedDataPoint \<Rightarrow> bytes \<Rightarrow> nat \<Rightarrow> bytes option" where
  "WriteCheckRangeQVT conv ob m p off = map_option (\<lambda>p. Set_Time ob (tp_Time m) p off) (WriteCheckRangeQV conv ob m p off)"

section \<open>The objects\<close>

text \<open>
  Which templates the \<open>Read\<close> and the \<open>Write\<close> of each object class use. Those of the objects a response can
  hold are here; the control blocks and setpoints are in Commands.
\<close>

datatype stream_template = Q | BinaryQV | BinaryQVT | QT | V | QV | QVT | CheckRangeQV | CheckRangeQVT

definition binary_streams :: "((nat \<times> nat) \<times> stream_template \<times> stream_template) list" where
  "binary_streams = [((1, 2), BinaryQV, Q), ((2, 1), BinaryQV, Q), ((2, 2), BinaryQV, QT), ((2, 3), BinaryQVT, QT)]"

definition control_status_streams :: "((nat \<times> nat) \<times> stream_template \<times> stream_template) list" where
  "control_status_streams = [((10, 2), Q, Q)]"

definition counter_streams :: "((nat \<times> nat) \<times> stream_template \<times> stream_template) list" where
  "counter_streams =
     [((20, 1), QV, QV), ((20, 2), QV, QV), ((20, 3), QV, QV), ((20, 4), QV, QV),
      ((20, 5), V, V), ((20, 6), V, V), ((20, 7), V, V), ((20, 8), V, V),
      ((22, 1), QV, QV), ((22, 2), QV, QV), ((22, 3), QV, QV), ((22, 4), QV, QV),
      ((22, 5), QVT, QVT), ((22, 6), QVT, QVT), ((22, 7), QVT, QVT), ((22, 8), QVT, QVT)]"

definition analog_streams :: "((nat \<times> nat) \<times> stream_template \<times> stream_template) list" where
  "analog_streams =
     [((30, 1), QV, CheckRangeQV), ((30, 2), QV, CheckRangeQV), ((30, 3), V, V), ((30, 4), V, V),
      ((30, 5), QV, CheckRangeQV), ((30, 6), QV, CheckRangeQV),
      ((32, 1), QV, CheckRangeQV), ((32, 2), QV, CheckRangeQV), ((32, 3), QVT, CheckRangeQVT), ((32, 4), QVT, CheckRangeQVT),
      ((32, 5), QV, QV), ((32, 6), QV, QV), ((32, 7), QVT, QVT), ((32, 8), QVT, QVT)]"

definition setpoint_status_streams :: "((nat \<times> nat) \<times> stream_template \<times> stream_template) list" where
  "setpoint_status_streams = [((40, 1), QV, QV), ((40, 2), QV, QV), ((40, 3), QV, QV), ((40, 4), QV, QV)]"

text \<open>\<open>StreamObject<T>::Read\<close> and \<open>Write\<close>: None when the object is not one of \<open>T\<close>'s or the value has no conversion.\<close>

fun read_bool :: "stream_template \<Rightarrow> DNPObject \<Rightarrow> bytes \<Rightarrow> nat \<Rightarrow> BoolDataPoint option" where
  "read_bool Q ob p off = Some (ReadQ ob p off)"
| "read_bool BinaryQV ob p off = Some (ReadBinaryQV ob p off)"
| "read_bool BinaryQVT ob p off = Some (ReadBinaryQVT ob p off)"
| "read_bool _ ob p off = None"

fun write_bool :: "stream_template \<Rightarrow> DNPObject \<Rightarrow> BoolDataPoint \<Rightarrow> bytes \<Rightarrow> nat \<Rightarrow> bytes option" where
  "write_bool Q ob m p off = Some (WriteQ ob m p off)"
| "write_bool QT ob m p off = Some (WriteQT ob m p off)"
| "write_bool _ ob m p off = None"

fun read_typed :: "(number \<Rightarrow> 'v) \<Rightarrow> stream_template \<Rightarrow> DNPObject \<Rightarrow> bytes \<Rightarrow> nat \<Rightarrow> 'v TypedDataPoint option" where
  "read_typed conv V ob p off = Some (ReadV conv ob p off)"
| "read_typed conv QV ob p off = Some (ReadQV conv ob p off)"
| "read_typed conv QVT ob p off = Some (ReadQVT conv ob p off)"
| "read_typed conv _ ob p off = None"

fun write_typed ::
  "('v \<Rightarrow> number) \<Rightarrow> stream_template \<Rightarrow> DNPObject \<Rightarrow> 'v TypedDataPoint \<Rightarrow> bytes \<Rightarrow> nat \<Rightarrow> bytes option" where
  "write_typed conv V ob m p off = WriteV conv ob m p off"
| "write_typed conv QV ob m p off = WriteQV conv ob m p off"
| "write_typed conv QVT ob m p off = WriteQVT conv ob m p off"
| "write_typed conv CheckRangeQV ob m p off = WriteCheckRangeQV conv ob m p off"
| "write_typed conv CheckRangeQVT ob m p off = WriteCheckRangeQVT conv ob m p off"
| "write_typed conv _ ob m p off = None"

definition templates ::
  "((nat \<times> nat) \<times> stream_template \<times> stream_template) list \<Rightarrow> DNPObject \<Rightarrow> (stream_template \<times> stream_template) option" where
  "templates streams ob = map_of streams (ob_group ob, ob_var ob)"

definition counter_of_number :: "number \<Rightarrow> u32" where
  "counter_of_number v = word_of_int (the (to_int v))"

definition number_of_counter :: "u32 \<Rightarrow> number" where
  "number_of_counter w = Integer (uint w)"

definition Binary_Read :: "DNPObject \<Rightarrow> bytes \<Rightarrow> nat \<Rightarrow> Binary option" where
  "Binary_Read ob p off = Option.bind (templates binary_streams ob) (\<lambda>(r, w). read_bool r ob p off)"

definition Binary_Write :: "DNPObject \<Rightarrow> Binary \<Rightarrow> bytes \<Rightarrow> nat \<Rightarrow> bytes option" where
  "Binary_Write ob m p off = Option.bind (templates binary_streams ob) (\<lambda>(r, w). write_bool w ob m p off)"

definition ControlStatus_Read :: "DNPObject \<Rightarrow> bytes \<Rightarrow> nat \<Rightarrow> ControlStatus option" where
  "ControlStatus_Read ob p off = Option.bind (templates control_status_streams ob) (\<lambda>(r, w). read_bool r ob p off)"

definition ControlStatus_Write :: "DNPObject \<Rightarrow> ControlStatus \<Rightarrow> bytes \<Rightarrow> nat \<Rightarrow> bytes option" where
  "ControlStatus_Write ob m p off = Option.bind (templates control_status_streams ob) (\<lambda>(r, w). write_bool w ob m p off)"

definition Counter_Read :: "DNPObject \<Rightarrow> bytes \<Rightarrow> nat \<Rightarrow> Counter option" where
  "Counter_Read ob p off = Option.bind (templates counter_streams ob) (\<lambda>(r, w). read_typed counter_of_number r ob p off)"

definition Counter_Write :: "DNPObject \<Rightarrow> Counter \<Rightarrow> bytes \<Rightarrow> nat \<Rightarrow> bytes option" where
  "Counter_Write ob m p off = Option.bind (templates counter_streams ob) (\<lambda>(r, w). write_typed number_of_counter w ob m p off)"

definition Analog_Read :: "DNPObject \<Rightarrow> bytes \<Rightarrow> nat \<Rightarrow> Analog option" where
  "Analog_Read ob p off = Option.bind (templates analog_streams ob) (\<lambda>(r, w). read_typed to_double r ob p off)"

definition Analog_Write :: "DNPObject \<Rightarrow> Analog \<Rightarrow> bytes \<Rightarrow> nat \<Rightarrow> bytes option" where
  "Analog_Write ob m p off = Option.bind (templates analog_streams ob) (\<lambda>(r, w). write_typed Floating w ob m p off)"

definition SetpointStatus_Read :: "DNPObject \<Rightarrow> bytes \<Rightarrow> nat \<Rightarrow> SetpointStatus option" where
  "SetpointStatus_Read ob p off = Option.bind (templates setpoint_status_streams ob) (\<lambda>(r, w). read_typed to_double r ob p off)"

definition SetpointStatus_Write :: "DNPObject \<Rightarrow> SetpointStatus \<Rightarrow> bytes \<Rightarrow> nat \<Rightarrow> bytes option" where
  "SetpointStatus_Write ob m p off = Option.bind (templates setpoint_status_streams ob) (\<lambda>(r, w). write_typed Floating w ob m p off)"

section \<open>Floating point numbers and their bits\<close>

lemma bit_count_bounds: "0 < n \<Longrightarrow> 2 ^ (bit_count n - 1) \<le> n \<and> n < 2 ^ bit_count n"
proof (induction n rule: bit_count.induct)
  case (1 n)
  show ?case
  proof (cases "n = 1")
    case False
    with 1 have n: "2 ^ (bit_count (n div 2) - 1) \<le> n div 2" "n div 2 < 2 ^ bit_count (n div 2)" "0 < n div 2" by auto
    then have "bit_count (n div 2) = Suc (bit_count (n div 2) - 1)"
      by (cases "bit_count (n div 2)") auto
    then obtain k where k: "bit_count (n div 2) = Suc k" by blast
    with 1(2) have "bit_count n = Suc (Suc k)" by (simp add: bit_count.simps [of n])
    moreover have "n = 2 * (n div 2) + n mod 2" "0 \<le> n mod 2" "n mod 2 < 2" by simp_all
    ultimately show ?thesis using n(1,2) k by (simp only: power_Suc diff_Suc_1) linarith
  qed (simp add: bit_count.simps)
qed

lemma bit_count_le: "0 \<le> n \<Longrightarrow> n < 2 ^ k \<Longrightarrow> bit_count n \<le> k"
proof (rule ccontr)
  assume n: "0 \<le> n" "n < 2 ^ k" and "\<not> bit_count n \<le> k"
  then have "k \<le> bit_count n - 1" and "0 < n" by (cases "n = 0"; auto simp: bit_count.simps)+
  then have "(2 :: int) ^ k \<le> 2 ^ (bit_count n - 1)" by (intro power_increasing) auto
  with n bit_count_bounds [OF \<open>0 < n\<close>] show False by simp
qed

text \<open>The values of a format: multiples of its smallest one with at most \<open>frac + 1\<close> significant bits.\<close>

definition in_format :: "nat \<Rightarrow> nat \<Rightarrow> nat \<Rightarrow> double \<Rightarrow> bool" where
  "in_format frac exps base v \<longleftrightarrow>
     (case v of
        Finite n \<Rightarrow>
          (let u = nat \<bar>n\<bar> div 2 ^ base; k = bit_count (int u) - (frac + 1)
           in 2 ^ base dvd nat \<bar>n\<bar> \<and> 2 ^ k dvd u \<and> k + 1 < 2 ^ exps - 1)
      | _ \<Rightarrow> True)"

lemma ieee_magnitude_parts:
  assumes "2 ^ k dvd u" and "k = bit_count (int u) - (frac + 1)"
  obtains e f where "ieee_magnitude frac u = e * 2 ^ frac + f" "f < 2 ^ frac" "e \<le> k + 1"
    "(if e = 0 then f else (2 ^ frac + f) * 2 ^ (e - 1)) = u"
proof (cases "u < 2 ^ frac")
  case True
  with that [of 0 u] show thesis by (simp add: ieee_magnitude_def)
next
  case False
  then have u: "0 < int u" by (cases "u = 0") auto
  note bounds = bit_count_bounds [OF u]
  from bounds have "int (2 ^ (bit_count (int u) - 1)) \<le> int u" "int u < int (2 ^ bit_count (int u))" by simp_all
  then have low: "2 ^ (bit_count (int u) - 1) \<le> u" and high: "u < 2 ^ bit_count (int u)"
    by (simp_all only: of_nat_le_iff of_nat_less_iff)
  have "frac < bit_count (int u)"
  proof (rule ccontr)
    assume "\<not> frac < bit_count (int u)"
    then have "(2 :: nat) ^ bit_count (int u) \<le> 2 ^ frac" by (intro power_increasing) auto
    with high False show False by simp
  qed
  then have bc: "bit_count (int u) = k + frac + 1" using assms(2) by simp
  from low have "2 ^ k * 2 ^ frac \<le> u" by (simp add: bc power_add)
  then have a: "2 ^ frac \<le> u div 2 ^ k" by (simp add: less_eq_div_iff_mult_less_eq mult.commute)
  from high have "u < 2 ^ (frac + 1) * 2 ^ k" by (simp add: bc power_add mult.commute mult.left_commute)
  then have b: "u div 2 ^ k < 2 ^ (frac + 1)" by (rule less_mult_imp_div_less)
  have "ieee_magnitude frac u = (k + 1) * 2 ^ frac + (u div 2 ^ k - 2 ^ frac)"
    using False by (simp add: ieee_magnitude_def assms(2) Let_def)
  moreover have "(2 ^ frac + (u div 2 ^ k - 2 ^ frac)) * 2 ^ k = u" using a assms(1) by simp
  ultimately show thesis using that [of "k + 1" "u div 2 ^ k - 2 ^ frac"] a b by simp
qed

lemma ieee_value_of_parts:
  assumes "f < 2 ^ frac" and "e < 2 ^ exps"
  shows "ieee_value frac exps base ((if s then 2 ^ (frac + exps) else 0) + (e * 2 ^ frac + f)) =
    (if e = 2 ^ exps - 1 then (if f = 0 then Double_Infinity (\<not> s) else Double_NaN)
     else let m = int ((if e = 0 then f else (2 ^ frac + f) * 2 ^ (e - 1)) * 2 ^ base) in Finite (if s then - m else m))"
proof -
  define b where "b = (if s then 2 ^ (frac + exps) else 0) + (e * 2 ^ frac + f)"
  have split: "b = f + 2 ^ frac * (e + (if s then 2 ^ exps else 0))" by (simp add: b_def power_add algebra_simps)
  have "b mod 2 ^ frac = f" using assms(1) by (simp add: split)
  moreover have d: "b div 2 ^ frac = e + (if s then 2 ^ exps else 0)" using assms(1) by (simp add: split)
  then have "b div 2 ^ frac mod 2 ^ exps = e" using assms(2) by simp
  moreover have "(e + 2 ^ exps) div 2 ^ exps = 1" using assms(2) by (subst div_add_self2) simp_all
  then have "b div 2 ^ (frac + exps) = (if s then 1 else 0)"
    using assms(2) by (simp add: power_add div_mult2_eq d)
  ultimately show ?thesis unfolding b_def [symmetric] ieee_value_def by (simp add: Let_def)
qed

lemma ieee_round_trip:
  assumes "in_format frac exps base v" and "0 < frac" "0 < exps"
  shows "ieee_value frac exps base (ieee_bits frac exps base v) = v"
    and "ieee_bits frac exps base v < 2 ^ (frac + exps + 1)"
proof -
  have top: "(2 :: nat) ^ exps - 1 < 2 ^ exps" by simp
  have room: "(if s then 2 ^ (frac + exps) else 0) + (e * 2 ^ frac + f) < (2 :: nat) ^ (frac + exps + 1)"
    if "f < 2 ^ frac" "e < 2 ^ exps" for e f s
  proof -
    from that(2) have "e + 1 \<le> 2 ^ exps" by simp
    then have "(e + 1) * 2 ^ frac \<le> 2 ^ exps * 2 ^ frac" by (rule mult_le_mono1)
    with that(1) show ?thesis by (simp add: power_add algebra_simps)
  qed
  have "ieee_value frac exps base (ieee_bits frac exps base v) = v \<and> ieee_bits frac exps base v < 2 ^ (frac + exps + 1)"
  proof (cases v)
    case Double_NaN
    have half: "(2 :: nat) ^ (frac - 1) < 2 ^ frac" using assms(2) by simp
    show ?thesis
      using ieee_value_of_parts [OF half top, of base False] room [OF half top, of False] by (simp add: Double_NaN)
  next
    case (Double_Infinity positive)
    have zero: "0 < (2 :: nat) ^ frac" by simp
    show ?thesis
      using ieee_value_of_parts [OF zero top, of base "\<not> positive"] room [OF zero top, of "\<not> positive"]
      by (cases positive) (simp_all add: Double_Infinity)
  next
    case (Finite n)
    define u where "u = nat \<bar>n\<bar> div 2 ^ base"
    define k where "k = bit_count (int u) - (frac + 1)"
    from assms(1) have fmt: "2 ^ base dvd nat \<bar>n\<bar>" "2 ^ k dvd u" "k + 1 < 2 ^ exps - 1"
      unfolding in_format_def Finite k_def u_def by (simp_all add: Let_def)
    from ieee_magnitude_parts [OF fmt(2) k_def] obtain e f where parts: "ieee_magnitude frac u = e * 2 ^ frac + f"
      "f < 2 ^ frac" "e \<le> k + 1" "(if e = 0 then f else (2 ^ frac + f) * 2 ^ (e - 1)) = u" .
    have e: "e < 2 ^ exps" "e \<noteq> 2 ^ exps - 1" using parts(3) fmt(3) by auto
    have bits: "ieee_bits frac exps base v = (if n < 0 then 2 ^ (frac + exps) else 0) + (e * 2 ^ frac + f)"
      using parts(1) by (simp add: Finite u_def)
    have again: "u * 2 ^ base = nat \<bar>n\<bar>" using fmt(1) by (simp add: u_def)
    show ?thesis
      using ieee_value_of_parts [OF parts(2) e(1), of base "n < 0"] room [OF parts(2) e(1), of "n < 0"] e(2) again
      unfolding bits parts(4) by (simp add: Let_def Finite)
  qed
  then show "ieee_value frac exps base (ieee_bits frac exps base v) = v"
    and "ieee_bits frac exps base v < 2 ^ (frac + exps + 1)" by blast+
qed

lemma nearest_multiple_dvd: "2 ^ k dvd nearest_multiple k n"
  by (simp add: nearest_multiple_def Let_def)

lemma nearest_multiple_le:
  assumes "\<bar>n\<bar> \<le> 2 ^ j" and "k \<le> j"
  shows "\<bar>nearest_multiple k n\<bar> \<le> 2 ^ j"
proof -
  define q where "q = n div 2 ^ k"
  define r where "r = n mod 2 ^ k"
  have n: "n = q * 2 ^ k + r" "0 \<le> r" "r < 2 ^ k" unfolding q_def r_def by (rule div_mult_mod_eq [symmetric]) simp_all
  have j: "(2 :: int) ^ j = 2 ^ (j - k) * 2 ^ k" using assms(2) by (simp flip: power_add)
  have pos: "(0 :: int) < 2 ^ k" by simp
  have low: "- (2 ^ (j - k)) \<le> q"
  proof (rule ccontr)
    assume "\<not> - (2 ^ (j - k)) \<le> q"
    then have "q + 1 \<le> - (2 ^ (j - k))" by simp
    then have "(q + 1) * 2 ^ k \<le> - (2 ^ (j - k)) * 2 ^ k" by (rule mult_right_mono) simp
    with n(1,3) have "n < - (2 ^ j)" by (simp add: j algebra_simps)
    with assms(1) show False by simp
  qed
  have high: "q \<le> 2 ^ (j - k)"
  proof -
    have "q * 2 ^ k \<le> 2 ^ j" using n(1,2) assms(1) by linarith
    then show ?thesis using pos by (simp add: j)
  qed
  have step: "q + 1 \<le> 2 ^ (j - k)" if "0 < r"
  proof -
    have "q * 2 ^ k < 2 ^ j" using n(1) that assms(1) by linarith
    then show ?thesis using pos by (simp add: j)
  qed
  have up: "0 < r" if "\<not> (r < 2 ^ k div 2 \<or> r = 2 ^ k div 2 \<and> even q \<or> k = 0)"
  proof -
    from that have "0 < k" by simp
    then have "(0 :: int) < 2 ^ k div 2" by (cases k) simp_all
    with that show ?thesis by auto
  qed
  have "\<bar>c\<bar> \<le> 2 ^ (j - k) \<Longrightarrow> \<bar>c * 2 ^ k\<bar> \<le> 2 ^ j" for c :: int
    unfolding j abs_mult by (simp add: mult_right_mono)
  moreover have "\<bar>if r < 2 ^ k div 2 \<or> r = 2 ^ k div 2 \<and> even q \<or> k = 0 then q else q + 1\<bar> \<le> 2 ^ (j - k)"
    using low high step up by auto
  ultimately show ?thesis by (simp add: nearest_multiple_def Let_def flip: q_def r_def)
qed

text \<open>A number with few significant bits stays in the format when it is shifted.\<close>

lemma in_formatI:
  assumes dvd: "2 ^ k dvd m" and base: "base \<le> k" and le: "\<bar>m\<bar> \<le> 2 ^ (k + (frac + 1))" and top: "\<bar>m\<bar> < 2 ^ (base + frac + t)"
    and t: "t < 2 ^ exps - 1" "1 \<le> frac" "1 \<le> t"
  shows "in_format frac exps base (Finite m)"
proof -
  define a where "a = nat \<bar>m\<bar>"
  have int_less: "int u < 2 ^ x" if "u < 2 ^ x" for u x :: nat using that by simp
  have "2 ^ k dvd \<bar>m\<bar>" using dvd by simp
  then have "int (2 ^ k) dvd int a" by (simp add: a_def)
  then have ka: "2 ^ k dvd a" by (simp only: int_dvd_int_iff)
  define u where "u = a div 2 ^ base"
  obtain c where c: "a = 2 ^ k * c" using ka by blast
  have k: "(2 :: nat) ^ k = 2 ^ (k - base) * 2 ^ base" using base by (simp flip: power_add)
  have u: "u = 2 ^ (k - base) * c" by (simp add: u_def c k mult.assoc mult.left_commute [of _ "2 ^ base"])
  have bd: "2 ^ base dvd a" unfolding c k by simp
  have back': "a = u * 2 ^ base" using bd by (simp add: u_def)
  have "(2 :: nat) ^ (k - base + (frac + 1)) * 2 ^ base = 2 ^ (k + (frac + 1))" using base by (simp flip: power_add)
  moreover have "int a \<le> int (2 ^ (k + (frac + 1)))" using le by (simp add: a_def)
  ultimately have "a \<le> 2 ^ (k - base + (frac + 1)) * 2 ^ base" by (simp only: of_nat_le_iff)
  then have le_u: "u \<le> 2 ^ (k - base + (frac + 1))" by (simp add: back')
  have "a < 2 ^ (frac + t) * 2 ^ base" using top by (simp add: a_def nat_less_iff ac_simps flip: power_add)
  then have "u < 2 ^ (frac + t)" by (simp add: back')
  then have "int u < 2 ^ (frac + t)" by (rule int_less)
  then have bc: "bit_count (int u) \<le> frac + t" by (intro bit_count_le) simp_all
  have "2 ^ (bit_count (int u) - (frac + 1)) dvd u"
  proof (cases "u = 2 ^ (k - base + (frac + 1))")
    case True
    then have "u < 2 ^ (k - base + (frac + 1) + 1)" by simp
    then have "int u < 2 ^ (k - base + (frac + 1) + 1)" by (rule int_less)
    then have "bit_count (int u) \<le> k - base + (frac + 1) + 1" by (intro bit_count_le) simp_all
    then show ?thesis unfolding True using t(2) by (intro le_imp_power_dvd) simp
  next
    case False
    with le_u have "u < 2 ^ (k - base + (frac + 1))" by simp
    then have "int u < 2 ^ (k - base + (frac + 1))" by (rule int_less)
    then have "bit_count (int u) \<le> k - base + (frac + 1)" by (intro bit_count_le) simp_all
    then have "(2 :: nat) ^ (bit_count (int u) - (frac + 1)) dvd 2 ^ (k - base)" by (intro le_imp_power_dvd) simp
    then show ?thesis unfolding u by (rule dvd_mult2)
  qed
  moreover have "bit_count (int u) - (frac + 1) + 1 < 2 ^ exps - 1" using bc t by simp
  ultimately show ?thesis using bd by (simp add: in_format_def Let_def u_def a_def)
qed

lemma float_in_format: "in_format 23 8 925 (float_of_double v)"
proof (cases v)
  case (Finite n)
  define k where "k = max 925 (significant_bits n - 24)"
  define m where "m = nearest_multiple k n"
  have "\<bar>n\<bar> \<le> 2 ^ (k + 24)"
  proof (cases "n = 0")
    case False
    then have "\<bar>n\<bar> < 2 ^ significant_bits n" using bit_count_bounds [of "\<bar>n\<bar>"] by (simp add: significant_bits_def)
    moreover have "(2 :: int) ^ significant_bits n \<le> 2 ^ (k + 24)" by (intro power_increasing) (simp_all add: k_def)
    ultimately show ?thesis by linarith
  qed simp
  then have le: "\<bar>m\<bar> \<le> 2 ^ (k + (23 + 1))" unfolding m_def by (intro nearest_multiple_le) simp_all
  have small: "\<bar>m\<bar> < 2 ^ (925 + 23 + 254)" if s: "\<not> significant_bits m > 1202"
  proof (cases "m = 0")
    case False
    then have "\<bar>m\<bar> < 2 ^ significant_bits m" using bit_count_bounds [of "\<bar>m\<bar>"] by (simp add: significant_bits_def)
    moreover have "(2 :: int) ^ significant_bits m \<le> 2 ^ (925 + 23 + 254)" using s by (intro power_increasing) simp_all
    ultimately show ?thesis by linarith
  qed simp
  have "in_format 23 8 925 (Finite m)" if "\<not> significant_bits m > 1202"
    by (rule in_formatI [OF _ _ le small [OF that]]) (simp_all add: m_def k_def nearest_multiple_dvd)
  then show ?thesis
    by (simp add: float_of_double_def Finite Let_def in_format_def [of _ _ _ "Double_Infinity b" for b] flip: k_def m_def)
qed (simp_all add: float_of_double_def in_format_def)

section \<open>A field of an object\<close>

lemma bit_of_byte48:
  "bit (push_bit k (ucast (ucast (drop_bit k v AND 0xFF) :: byte)) :: 48 word) n \<longleftrightarrow> k \<le> n \<and> n < k + 8 \<and> bit v n"
  for v :: "48 word"
  unfolding mask8 by (auto simp: bit_simps dest: bit_imp_le_length)

lemma byte_parts48: "((((ucast (ucast (v AND 0xFF) :: byte) OR push_bit 8 (ucast (ucast (drop_bit 8 v AND 0xFF) :: byte)))
    OR push_bit 16 (ucast (ucast (drop_bit 16 v AND 0xFF) :: byte)))
    OR push_bit 24 (ucast (ucast (drop_bit 24 v AND 0xFF) :: byte)))
    OR push_bit 32 (ucast (ucast (drop_bit 32 v AND 0xFF) :: byte)))
    OR push_bit 40 (ucast (ucast (drop_bit 40 v AND 0xFF) :: byte)) = (v :: 48 word)"
proof (rule bit_word_eqI)
  fix n assume "n < LENGTH(48)"
  then have "n < 48" by simp
  then have parts: "n < 8 \<or> 8 \<le> n \<and> n < 16 \<or> 16 \<le> n \<and> n < 24 \<or> 24 \<le> n \<and> n < 32 \<or> 32 \<le> n \<and> n < 40 \<or> 40 \<le> n \<and> n < 48"
    by presburger
  have low: "bit (ucast (ucast (v AND 0xFF) :: byte) :: 48 word) n \<longleftrightarrow> n < 8 \<and> bit v n"
    using bit_of_byte48 [of 0 v n] by simp
  show "bit (((((ucast (ucast (v AND 0xFF) :: byte) OR push_bit 8 (ucast (ucast (drop_bit 8 v AND 0xFF) :: byte)))
    OR push_bit 16 (ucast (ucast (drop_bit 16 v AND 0xFF) :: byte)))
    OR push_bit 24 (ucast (ucast (drop_bit 24 v AND 0xFF) :: byte)))
    OR push_bit 32 (ucast (ucast (drop_bit 32 v AND 0xFF) :: byte)))
    OR push_bit 40 (ucast (ucast (drop_bit 40 v AND 0xFF) :: byte)) :: 48 word) n = bit v n"
    using parts unfolding bit_or_iff bit_of_byte48 low by auto
qed

interpretation u48le: byte_codec UInt48LE_bits UInt48LE_store 6
proof (unfold_locales, goal_cases)
  case (4 off p off' q)
  then show ?case
    using slice_nth_eq [of 6 off p off' q 0] slice_nth_eq [of 6 off p off' q 1] slice_nth_eq [of 6 off p off' q 2]
      slice_nth_eq [of 6 off p off' q 3] slice_nth_eq [of 6 off p off' q 4] slice_nth_eq [of 6 off p off' q 5]
    by (simp add: UInt48LE_bits_def)
qed (auto simp: UInt48LE_bits_def UInt48LE_store_def Let_def byte_parts48)

text \<open>What a packer holds of a number.\<close>

fun held :: "packer \<Rightarrow> number \<Rightarrow> number" where
  "held UInt8 v = Integer (the (to_int v) mod 2 ^ 8)"
| "held UInt16LE v = Integer (the (to_int v) mod 2 ^ 16)"
| "held UInt32LE v = Integer (the (to_int v) mod 2 ^ 32)"
| "held UInt48LE v = Integer (min (the (to_int v)) UInt48LE_MAX mod 2 ^ 48)"
| "held Int16LE v = Integer (signed_take_bit 15 (the (to_int v)))"
| "held Int32LE v = Integer (signed_take_bit 31 (the (to_int v)))"
| "held SingleFloat v = Floating (float_of_double (to_double v))"
| "held DoubleFloat v = Floating (to_double v)"

definition span :: "pack \<Rightarrow> nat \<Rightarrow> nat set" where
  "span f off = {off + snd f..<off + snd f + packer_Size (fst f)}"

definition double_ok :: "double \<Rightarrow> bool" where
  "double_ok v \<longleftrightarrow> in_format 52 11 0 v"

lemma SingleFloat_round_trip:
  assumes "off + 4 \<le> length p"
  shows "SingleFloat_Read (SingleFloat_Write p off (float_of_double v)) off = float_of_double v"
proof -
  note ieee = ieee_round_trip [OF float_in_format, of v, simplified]
  have "unat (word_of_nat (ieee_bits 23 8 925 (float_of_double v)) :: u32) = ieee_bits 23 8 925 (float_of_double v)"
    using ieee(2) by (simp add: unat_of_nat)
  with ieee(1) assms show ?thesis
    by (simp add: SingleFloat_Read_def SingleFloat_Write_def u32le.read_write codec_sizes)
qed

lemma DoubleFloat_round_trip:
  assumes "off + 8 \<le> length p" and "double_ok v"
  shows "DoubleFloat_Read (DoubleFloat_Write p off v) off = v"
proof -
  note ieee = ieee_round_trip [OF assms(2) [unfolded double_ok_def], simplified]
  define b where "b = ieee_bits 52 11 0 v"
  have "UInt32LE_Read (DoubleFloat_Write p off v) off = word_of_nat b"
    using assms(1) u32le.read_write_disjoint [of off "off + 4"]
    by (simp add: DoubleFloat_Write_def Let_def codec_sizes u32le.length_write u32le.read_write flip: b_def)
  moreover have "UInt32LE_Read (DoubleFloat_Write p off v) (off + 4) = word_of_nat (b div 2 ^ 32)"
    using assms(1) by (simp add: DoubleFloat_Write_def Let_def codec_sizes u32le.length_write u32le.read_write flip: b_def)
  moreover have "unat (word_of_nat b :: u32) = b mod 2 ^ 32" by (simp add: unat_of_nat)
  moreover have "b < 2 ^ 32 * 2 ^ 32" using ieee(2) by (simp add: b_def)
  then have "b div 2 ^ 32 < 2 ^ 32" by (rule less_mult_imp_div_less)
  then have "unat (word_of_nat (b div 2 ^ 32) :: u32) = b div 2 ^ 32" by (simp add: unat_of_nat)
  ultimately have "DoubleFloat_Read (DoubleFloat_Write p off v) off = ieee_value 52 11 0 b"
    by (simp add: DoubleFloat_Read_def)
  with ieee(1) show ?thesis by (simp add: b_def)
qed

lemma Pack_Get_same:
  assumes "\<And>i. i \<in> span f off \<Longrightarrow> q ! i = p ! i" and "length q = length p"
    and "off + snd f + packer_Size (fst f) \<le> length p"
  shows "Pack_Get f q off = Pack_Get f p off"
proof -
  obtain k pos where f: "f = (k, pos)" by (cases f)
  have eq: "take (packer_Size k) (drop (off + pos) q) = take (packer_Size k) (drop (off + pos) p)"
    by (rule nth_equalityI) (use assms in \<open>auto simp: f span_def\<close>)
  have eq4: "take 4 (drop (off + pos + 4) q) = take 4 (drop (off + pos + 4) p)" "take 4 (drop (off + pos) q) = take 4 (drop (off + pos) p)"
    if "k = DoubleFloat"
    by (rule nth_equalityI; use assms that in \<open>simp add: f span_def\<close>)+
  show ?thesis
    using eq eq4 assms(2,3) u8.read_local [of "off + pos" q "off + pos" p] u16le.read_local [of "off + pos" q "off + pos" p]
      u32le.read_local [of "off + pos" q "off + pos" p] u48le.read_local [of "off + pos" q "off + pos" p]
      u32le.read_local [of "off + pos + 4" q "off + pos + 4" p]
    by (cases k) (simp_all add: f codec_sizes UInt48LE_Read_def SingleFloat_Read_def DoubleFloat_Read_def)
qed

lemma Pack_Set_stores:
  assumes "Pack_Set f v p off = Some q" and "off + snd f + packer_Size (fst f) \<le> length p"
    and "fst f = DoubleFloat \<Longrightarrow> double_ok (to_double v)"
  shows "length q = length p" and "i \<notin> span f off \<Longrightarrow> q ! i = p ! i" and "Pack_Get f q off = held (fst f) v"
proof -
  obtain k pos where f: "f = (k, pos)" by (cases f)
  have 1: "length q = length p"
    using assms(1) by (cases k) (auto simp: f u8.length_write u16le.length_write u32le.length_write
      UInt48LE_Write_def u48le.length_write SingleFloat_Write_def DoubleFloat_Write_def Let_def)
  have 2: "q ! i = p ! i" if "i \<notin> span f off"
    using assms(1) that by (cases k) (auto simp: f span_def codec_sizes UInt8_Write_def u16le.nth_write u32le.nth_write
      UInt48LE_Write_def u48le.nth_write SingleFloat_Write_def DoubleFloat_Write_def Let_def)
  have 3: "Pack_Get f q off = held (fst f) v"
    using assms by (cases k) (auto simp: f codec_sizes u8.read_write u16le.read_write u32le.read_write u48le.read_write
      UInt48LE_Read_def UInt48LE_Write_def SingleFloat_round_trip DoubleFloat_round_trip uint_word_of_int sint_sbintrunc' min_def
      mod_pos_pos_trivial)
  show "length q = length p" "i \<notin> span f off \<Longrightarrow> q ! i = p ! i" "Pack_Get f q off = held (fst f) v" by fact+
qed

lemma Pack_Get_Set_other:
  assumes "Pack_Set f v p off = Some q" and "off + snd f + packer_Size (fst f) \<le> length p"
    and "fst f = DoubleFloat \<Longrightarrow> double_ok (to_double v)"
    and "snd g + packer_Size (fst g) \<le> snd f \<or> snd f + packer_Size (fst f) \<le> snd g"
    and "off + snd g + packer_Size (fst g) \<le> length p"
  shows "Pack_Get g q off = Pack_Get g p off"
  by (rule Pack_Get_same) (use assms Pack_Set_stores [OF assms(1-3)] in \<open>auto simp: span_def\<close>)

lemma Pack_Set_Integer: "\<exists>q. Pack_Set f (Integer n) p off = Some q"
  by (cases f; cases "fst f") auto

section \<open>Objects and their templates\<close>

text \<open>The fields of an object, by the template that reads it.\<close>

definition layout :: "stream_template \<Rightarrow> DNPObject \<Rightarrow> bool" where
  "layout r ob \<longleftrightarrow> (\<exists>name k. name \<in> {mValue, mValueOverRange} \<and>
     (r = V \<and> ob_fields ob = [(name, k, 0)] \<and> ob_size ob = packer_Size k \<or>
      r = QV \<and> ob_fields ob = [(mFlag, UInt8, 0), (name, k, 1)] \<and> ob_size ob = 1 + packer_Size k \<or>
      r = QVT \<and> ob_fields ob = [(mFlag, UInt8, 0), (name, k, 1), (mTime, UInt48LE, 1 + packer_Size k)] \<and>
        ob_size ob = 7 + packer_Size k))"

lemma typed_layouts:
  "list_all (\<lambda>ob. \<forall>r w. templates (counter_streams @ analog_streams @ setpoint_status_streams) ob = Some (r, w) \<longrightarrow>
     layout r ob \<and> (r, w) \<in> {(V, V), (QV, QV), (QV, CheckRangeQV), (QVT, QVT), (QVT, CheckRangeQVT)}) DNPObjects"
  by (simp add: DNPObjects_def object_tables object_kinds templates_def counter_streams_def analog_streams_def
      setpoint_status_streams_def layout_def)

text \<open>
  What of a measurement an object keeps: the value as its type holds it after the clamping, the quality with the
  over range bit of the templates that check, or the quality of a new point when it has no flag, and the time
  if it has one.
\<close>

definition kept :: "('v \<Rightarrow> number) \<Rightarrow> (number \<Rightarrow> 'v) \<Rightarrow> stream_template \<Rightarrow> stream_template \<Rightarrow> DNPObject \<Rightarrow> 'v TypedDataPoint \<Rightarrow> 'v TypedDataPoint" where
  "kept out into r w ob m =
     \<lparr>tp_Quality = (if r = V then Q_RESTART
        else if w \<in> {CheckRangeQV, CheckRangeQVT} \<and> over_range (value_member ob) (out (tp_Value m))
          then tp_Quality m OR AQ_OVERRANGE else tp_Quality m),
      tp_Time = (if r = QVT then min (tp_Time m) UInt48LE_MAX else 0),
      tp_Value = into (held (fst (value_member ob)) (clamp (value_member ob) (out (tp_Value m))))\<rparr>"

lemma shifted_ok:
  assumes "\<bar>c\<bar> < 2 ^ 53" and "k \<le> 2045"
  shows "double_ok (Finite (c * 2 ^ k))"
proof -
  have "\<bar>c\<bar> * 2 ^ k < 2 ^ 53 * (2 :: int) ^ k" using assms(1) by (rule mult_strict_right_mono) simp
  then have "\<bar>c * 2 ^ k\<bar> < 2 ^ 53 * 2 ^ k" by (simp only: abs_mult power_abs abs_numeral)
  then have less: "\<bar>c * 2 ^ k\<bar> < 2 ^ (k + 53)" by (simp only: power_add mult.commute)
  moreover have "(2 :: int) ^ (k + 53) \<le> 2 ^ (0 + 52 + 2046)" using assms(2) by (intro power_increasing) simp_all
  ultimately have top: "\<bar>c * 2 ^ k\<bar> < 2 ^ (0 + 52 + 2046)" by linarith
  have "\<bar>c * 2 ^ k\<bar> \<le> 2 ^ (k + (52 + 1))" using less by simp
  then show ?thesis unfolding double_ok_def by (intro in_formatI [OF dvd_triv_right _ _ top]) simp_all
qed

lemma double_ok_range: "double_ok (packer_Max k)" "double_ok (packer_Min k)"
  by (cases k; simp only: packer_Max.simps packer_Min.simps whole_def minus_mult_left; rule shifted_ok;
    simp add: UInt48LE_MAX_def)+

lemma double_ok_clamp: "double_ok (to_double v) \<Longrightarrow> double_ok (to_double (clamp f v))"
  by (simp add: clamp_def Let_def double_ok_range)

lemma typed_round_trip:
  assumes lay: "layout r ob" and rw: "(r, w) \<in> {(V, V), (QV, QV), (QV, CheckRangeQV), (QVT, QVT), (QVT, CheckRangeQVT)}"
    and wrote: "write_typed out w ob m p off = Some q" and room: "off + ob_size ob \<le> length p"
    and ok: "double_ok (to_double (out (tp_Value m)))" and time: "0 \<le> tp_Time m"
  shows "read_typed into r ob q off = Some (kept out into r w ob m)" and "length q = length p"
    and "i < off \<or> off + ob_size ob \<le> i \<Longrightarrow> q ! i = p ! i"
proof -
  from lay obtain name k where name: "name \<in> {mValue, mValueOverRange}"
    and fields: "r = V \<and> ob_fields ob = [(name, k, 0)] \<and> ob_size ob = packer_Size k \<or>
      r = QV \<and> ob_fields ob = [(mFlag, UInt8, 0), (name, k, 1)] \<and> ob_size ob = 1 + packer_Size k \<or>
      r = QVT \<and> ob_fields ob = [(mFlag, UInt8, 0), (name, k, 1), (mTime, UInt48LE, 1 + packer_Size k)] \<and>
        ob_size ob = 7 + packer_Size k" by (auto simp: layout_def)
  define val where "val = clamp (value_member ob) (out (tp_Value m))"
  have ok': "double_ok (to_double val)" unfolding val_def by (rule double_ok_clamp [OF ok])
  have vm: "value_member ob = (k, if r = V then 0 else 1)"
    using fields name by (auto simp: value_member_def member_def)
  have fm: "member mFlag ob = (UInt8, 0)" if "r \<noteq> V" using that fields by (auto simp: member_def)
  have tm: "member mTime ob = (UInt48LE, 1 + packer_Size k)" if "r = QVT" using that fields name by (auto simp: member_def)
  define qual where "qual = (if w \<in> {CheckRangeQV, CheckRangeQVT} \<and> over_range (value_member ob) (out (tp_Value m))
    then tp_Quality m OR AQ_OVERRANGE else tp_Quality m)"
  define p1 where "p1 = (if r = V then p else Set_Flag ob qual p off)"
  have len1: "length p1 = length p" and out1: "\<And>i. i < off \<or> off < i \<Longrightarrow> p1 ! i = p ! i"
    and flag1: "r \<noteq> V \<Longrightarrow> Pack_Get (UInt8, 0) p1 off = Integer (uint qual)"
    using fm room fields by (auto simp: p1_def Set_Flag_def u8.length_write UInt8_Write_def UInt8_Read_def uint_word_of_int
      mod_pos_pos_trivial)
  obtain p2 where p2: "Pack_Set (value_member ob) val p1 off = Some p2"
    and q: "q = (if r = QVT then Set_Time ob (tp_Time m) p2 off else p2)"
    using wrote rw
    by (auto simp: WriteV_def WriteQV_def WriteCheckRangeQV_def WriteQVT_def WriteCheckRangeQVT_def p1_def qual_def val_def Let_def)
  have room2: "off + snd (value_member ob) + packer_Size (fst (value_member ob)) \<le> length p1"
    using room fields by (auto simp: vm len1)
  note stored = Pack_Set_stores [OF p2 room2 ok']
  have flag2: "Pack_Get (UInt8, 0) p2 off = Integer (uint qual)" if "r \<noteq> V"
    using Pack_Get_Set_other [OF p2 room2 ok', of "(UInt8, 0)"] flag1 that room fields by (auto simp: vm len1)
  show "length q = length p"
    using stored(1) len1 tm by (auto simp: q Set_Time_def UInt48LE_Write_def u48le.length_write)
  have size: "snd (value_member ob) + packer_Size k \<le> ob_size ob" using fields by (auto simp: vm)
  have span: "i \<notin> span (value_member ob) off" if "i < off \<or> off + ob_size ob \<le> i" for i
    using that size by (auto simp: span_def vm)
  show "q ! i = p ! i" if i: "i < off \<or> off + ob_size ob \<le> i" for i
  proof -
    have "p2 ! i = p ! i" using stored(2) [OF span [OF i]] out1 [of i] i size fields by (cases k) (auto simp: vm)
    then show ?thesis using tm i fields by (auto simp: q Set_Time_def UInt48LE_Write_def u48le.nth_write)
  qed
  have time3: "Pack_Get (UInt48LE, 1 + packer_Size k) q off = Integer (min (tp_Time m) UInt48LE_MAX)"
    and flag3: "Pack_Get (UInt8, 0) q off = Integer (uint qual)"
    and value3: "Pack_Get (value_member ob) q off = held k val" if r: "r = QVT"
  proof -
    have set: "Pack_Set (UInt48LE, 1 + packer_Size k) (Integer (tp_Time m)) p2 off = Some q"
      using r tm by (simp add: q Set_Time_def)
    have room3: "off + snd (UInt48LE, 1 + packer_Size k) + packer_Size (fst (UInt48LE, 1 + packer_Size k)) \<le> length p2"
      using r room fields stored(1) by (auto simp: len1)
    have "held UInt48LE (Integer (tp_Time m)) = Integer (min (tp_Time m) UInt48LE_MAX)"
      using time by (simp add: UInt48LE_MAX_def)
    then show "Pack_Get (UInt48LE, 1 + packer_Size k) q off = Integer (min (tp_Time m) UInt48LE_MAX)"
      using Pack_Set_stores(3) [OF set room3] by simp
    show "Pack_Get (UInt8, 0) q off = Integer (uint qual)"
      using Pack_Get_Set_other [OF set room3, of "(UInt8, 0)"] flag2 r room3 by simp
    show "Pack_Get (value_member ob) q off = held k val"
      using Pack_Get_Set_other [OF set room3, of "value_member ob"] stored(3) r room3 by (simp add: vm)
  qed
  have "Pack_Get (value_member ob) q off = held k val" using value3 stored(3) by (cases "r = QVT") (auto simp: q vm)
  moreover have "Pack_Get (UInt8, 0) q off = Integer (uint qual)" if "r \<noteq> V"
    using flag3 flag2 that by (cases "r = QVT") (auto simp: q)
  moreover have "r \<in> {V, QV, QVT}" using rw by auto
  ultimately show "read_typed into r ob q off = Some (kept out into r w ob m)"
    using fm tm time3
    by (auto simp: kept_def ReadV_def ReadQV_def ReadQVT_def Get_Flag_def Get_Time_def new_TypedDataPoint_def tp_SetQuality_def
      vm val_def [unfolded vm] qual_def [unfolded vm])
qed

section \<open>What is written is read\<close>

lemma streams_layout:
  assumes "ob \<in> set DNPObjects" and "templates streams ob = Some (r, w)"
    and "streams \<in> {counter_streams, analog_streams, setpoint_status_streams}"
  shows "layout r ob" and "(r, w) \<in> {(V, V), (QV, QV), (QV, CheckRangeQV), (QVT, QVT), (QVT, CheckRangeQVT)}"
proof -
  have "distinct (map fst (counter_streams @ analog_streams @ setpoint_status_streams))"
    by (simp add: counter_streams_def analog_streams_def setpoint_status_streams_def)
  moreover have "((ob_group ob, ob_var ob), r, w) \<in> set (counter_streams @ analog_streams @ setpoint_status_streams)"
    using assms(2,3) by (auto simp: templates_def dest!: map_of_SomeD)
  ultimately have "templates (counter_streams @ analog_streams @ setpoint_status_streams) ob = Some (r, w)"
    unfolding templates_def by (rule map_of_is_SomeI)
  then show "layout r ob" "(r, w) \<in> {(V, V), (QV, QV), (QV, CheckRangeQV), (QVT, QVT), (QVT, CheckRangeQVT)}"
    using typed_layouts assms(1) unfolding list_all_iff by blast+
qed

lemma clamp_inside: "\<not> over_range f v \<Longrightarrow> clamp f v = v"
  by (simp add: clamp_def over_range_def)

lemma whole_simps [simp]:
  "double_greater (whole m) (whole n) \<longleftrightarrow> n < m" "int_of_double (whole n) = Some n"
proof -
  show "double_greater (whole m) (whole n) \<longleftrightarrow> n < m" by (simp add: whole_def)
  have "n * 2 ^ 1074 < 0 \<longleftrightarrow> n < 0" by (simp add: mult_less_0_iff)
  then show "int_of_double (whole n) = Some n" unfolding int_of_double_def whole_def double.case by (simp flip: mult_minus_left)
qed

lemma whole_ok: "\<bar>n\<bar> < 2 ^ 53 \<Longrightarrow> double_ok (whole n)"
  unfolding whole_def by (rule shifted_ok) simp_all


definition analog_example :: Analog where
  "analog_example = \<lparr>tp_Quality = Q_ONLINE, tp_Time = 7, tp_Value = whole 70000\<rparr>"


text \<open>The same for counters, which a 16 bit object saturates, and for binaries, whose value is a bit of their quality.\<close>

lemma counter_round_trip:
  assumes ob: "ob \<in> set DNPObjects" and wrote: "Counter_Write ob c p off = Some q" and room: "off + ob_size ob \<le> length p"
    and "0 \<le> tp_Time c"
  shows "\<exists>r w. templates counter_streams ob = Some (r, w) \<and>
    Counter_Read ob q off = Some (kept number_of_counter counter_of_number r w ob c)"
proof -
  from wrote obtain r w where rw: "templates counter_streams ob = Some (r, w)"
    and wr: "write_typed number_of_counter w ob c p off = Some q" by (auto simp: Counter_Write_def bind_eq_Some_conv)
  have "counter_streams \<in> {counter_streams, analog_streams, setpoint_status_streams}" by simp
  note lay = streams_layout [OF ob rw this]
  have "uint (tp_Value c) < 2 ^ 32" using uint_lt2p [of "tp_Value c"] by simp
  then have "\<bar>uint (tp_Value c)\<bar> < 2 ^ 53" by simp
  then have "double_ok (to_double (number_of_counter (tp_Value c)))" by (simp add: number_of_counter_def whole_ok)
  from typed_round_trip(1) [OF lay wr room this assms(4), of counter_of_number] rw show ?thesis
    by (simp add: Counter_Read_def)
qed

end
