(* ===== verification/ResponseLoaders.thy ===== *)
theory ResponseLoaders
  imports IndexedObjects ObjectStreams
begin

text \<open>
  How a master takes the measurements out of a response (opendnp3/DNP3/ResponseLoader.h and .cpp, CTOHistory.h): the
  switch on group and variation, the loop over the objects of a header, the common time of relative times and the
  virtual terminal objects. What is passed to the \<open>IDataObserver\<close> and to the \<open>VtoReader\<close> is recorded in order; the
  transactions around it are left out.
\<close>

section \<open>The code\<close>

datatype Published =
    Pub_Binary Binary nat
  | Pub_ControlStatus ControlStatus nat
  | Pub_Counter Counter nat
  | Pub_Analog Analog nat
  | Pub_SetpointStatus SetpointStatus nat
  | Pub_Vto VtoData byte

record CTOHistory =
  mCTO :: int
  mHeaderNum :: nat
  mTimeHeaderNum :: nat

definition new_CTOHistory :: CTOHistory where
  "new_CTOHistory = \<lparr>mCTO = -1, mHeaderNum = 0, mTimeHeaderNum = 0\<rparr>"

definition NextHeader :: "CTOHistory \<Rightarrow> CTOHistory" where
  "NextHeader c = c\<lparr>mHeaderNum := mHeaderNum c + 1\<rparr>"

definition SetCTO :: "int \<Rightarrow> CTOHistory \<Rightarrow> CTOHistory" where
  "SetCTO t c = c\<lparr>mCTO := t, mTimeHeaderNum := mHeaderNum c\<rparr>"

text \<open>The header number is a \<open>size_t\<close>: one less than zero is no number of a header.\<close>

definition GetCTO :: "CTOHistory \<Rightarrow> int option" where
  "GetCTO c = (if mCTO c \<ge> 0 \<and> mTimeHeaderNum c + 1 = mHeaderNum c then Some (mCTO c) else None)"

record ResponseLoader =
  rl_CTO :: CTOHistory
  rl_Out :: "Published list"

definition new_ResponseLoader :: ResponseLoader where
  "new_ResponseLoader = \<lparr>rl_CTO = new_CTOHistory, rl_Out = []\<rparr>"

definition publish :: "Published \<Rightarrow> ResponseLoader \<Rightarrow> ResponseLoader" where
  "publish x l = l\<lparr>rl_Out := rl_Out l @ [x]\<rparr>"

text \<open>The loop \<open>for (; !obj.IsEnd(); ++obj)\<close>; the count of the header bounds its rounds.\<close>

primrec for_objects ::
  "nat \<Rightarrow> bytes \<Rightarrow> (ObjectReadIterator \<Rightarrow> ResponseLoader handler) \<Rightarrow> ObjectReadIterator \<Rightarrow> ResponseLoader handler" where
  "for_objects 0 buf body it = skip"
| "for_objects (Suc n) buf body it =
     (if ObjectRead_IsEnd it then skip
      else in_order [body it, with_value (\<lambda>_. ObjectRead_next buf it) (for_objects n buf body)])"

definition ObjectRead_Index :: "ObjectReadIterator \<Rightarrow> exn + nat" where
  "ObjectRead_Index it =
     (if ObjectRead_IsEnd it then Inl (Exception ALERR_ITERATOR_OUT_OF_BOUNDS)
      else case or_index it of Some i \<Rightarrow> Inr i | None \<Rightarrow> Inl AssertionFailed)"

text \<open>
  One measurement: \<open>apObj->Read(*obj)\<close>, the time made absolute, the quality of an object without one. The five
  instances of the template differ in the type of the measurement.
\<close>

definition HasQuality :: "DNPObject \<Rightarrow> bool" where
  "HasQuality ob \<longleftrightarrow> mFlag \<in> fst ` set (ob_fields ob)"

definition bool_data :: "DNPObject \<Rightarrow> int \<Rightarrow> BoolDataPoint \<Rightarrow> BoolDataPoint" where
  "bool_data ob t v =
     (let v = (if ob_cto ob then v\<lparr>bp_Time := t + bp_Time v\<rparr> else v)
      in if \<not> HasQuality ob then bp_SetQuality Q_ONLINE v else v)"

definition typed_data :: "DNPObject \<Rightarrow> int \<Rightarrow> 'v TypedDataPoint \<Rightarrow> 'v TypedDataPoint" where
  "typed_data ob t v =
     (let v = (if ob_cto ob then v\<lparr>tp_Time := t + tp_Time v\<rparr> else v)
      in if \<not> HasQuality ob then tp_SetQuality Q_ONLINE v else v)"

definition measurement :: "DNPObject \<Rightarrow> int \<Rightarrow> bytes \<Rightarrow> nat \<Rightarrow> nat \<Rightarrow> Published option" where
  "measurement ob t buf p index =
     (if ob_group ob \<in> {1, 2} then map_option (\<lambda>v. Pub_Binary (bool_data ob t v) index) (Binary_Read ob buf p)
      else if ob_group ob = 10 then map_option (\<lambda>v. Pub_ControlStatus (bool_data ob t v) index) (ControlStatus_Read ob buf p)
      else if ob_group ob \<in> {20, 22} then map_option (\<lambda>v. Pub_Counter (typed_data ob t v) index) (Counter_Read ob buf p)
      else if ob_group ob \<in> {30, 32} then map_option (\<lambda>v. Pub_Analog (typed_data ob t v) index) (Analog_Read ob buf p)
      else map_option (\<lambda>v. Pub_SetpointStatus (typed_data ob t v) index) (SetpointStatus_Read ob buf p))"

definition Loader_Read :: "bytes \<Rightarrow> HeaderReadIterator \<Rightarrow> DNPObject \<Rightarrow> ResponseLoader handler" where
  "Loader_Read buf arIter apObj = if_else (\<lambda>l. ob_cto apObj \<and> GetCTO (rl_CTO l) = None) skip
     (reading (\<lambda>l. let t = (if ob_cto apObj then the (GetCTO (rl_CTO l)) else 0) in
       with_value (\<lambda>_. HeaderRead_BeginRead buf arIter) (\<lambda>obj.
         for_objects (mHeaderCount (or_header obj)) buf (\<lambda>obj.
           with_value (\<lambda>_. ObjectRead_Index obj) (\<lambda>index.
           with_value (\<lambda>_. ObjectRead_deref obj) (\<lambda>p.
             case measurement apObj t buf p index of Some x \<Rightarrow> modify (publish x) | None \<Rightarrow> throw AssertionFailed))) obj)))"

definition Loader_ReadBitfield :: "bytes \<Rightarrow> HeaderReadIterator \<Rightarrow> ResponseLoader handler" where
  "Loader_ReadBitfield buf arHeader = with_value (\<lambda>_. HeaderRead_BeginRead buf arHeader) (\<lambda>obj.
     for_objects (mHeaderCount (or_header obj)) buf (\<lambda>obj.
       with_value (\<lambda>_. ObjectRead_deref obj) (\<lambda>p.
       with_value (\<lambda>_. ObjectRead_Index obj) (\<lambda>index.
       with_value (\<lambda>_. Bitfield_Read buf p (the (or_start obj)) index) (\<lambda>val.
         modify (publish (Pub_Binary (bp_SetValue val (bp_SetQuality Q_ONLINE new_BoolDataPoint)) index)))))) obj)"

definition Loader_ReadCTO :: "bytes \<Rightarrow> HeaderReadIterator \<Rightarrow> DNPObject \<Rightarrow> ResponseLoader handler" where
  "Loader_ReadCTO buf arIter ob = with_value (\<lambda>_. HeaderRead_BeginRead buf arIter) (\<lambda>i.
     if mHeaderCount (or_header i) \<noteq> 1 then skip
     else with_value (\<lambda>_. ObjectRead_deref i) (\<lambda>p. modify (\<lambda>l. l\<lparr>rl_CTO := SetCTO (Get_Time ob buf p) (rl_CTO l)\<rparr>)))"

definition Loader_ReadVto :: "bytes \<Rightarrow> HeaderReadIterator \<Rightarrow> ResponseLoader handler" where
  "Loader_ReadVto buf arIter = with_value (\<lambda>_. HeaderRead_BeginRead buf arIter) (\<lambda>objIter.
     with_value (\<lambda>_. ObjectRead_deref objIter) (\<lambda>p.
     with_value (\<lambda>_. HeaderRead_info arIter) (\<lambda>info.
     with_value (\<lambda>_. VtoData_of (take (unat (Variation (mHeaderData info))) (drop p buf))) (\<lambda>data.
     with_value (\<lambda>_. ObjectRead_Index objIter) (\<lambda>index.
       if index > 255 then skip else modify (publish (Pub_Vto data (word_of_nat index))))))))"

text \<open>The cases of the switch on \<open>MACRO_DNP_RADIX(aGrp, aVar)\<close>, and the one on the group.\<close>

definition loader_cases :: "(nat \<times> nat) list" where
  "loader_cases =
     [(10, 2), (1, 1), (1, 2), (2, 1), (2, 2), (2, 3),
      (20, 1), (20, 2), (20, 3), (20, 4), (20, 5), (20, 6), (20, 7), (20, 8),
      (22, 1), (22, 2), (22, 3), (22, 4),
      (30, 1), (30, 2), (30, 3), (30, 4), (30, 5), (30, 6),
      (32, 1), (32, 2), (32, 3), (32, 4), (32, 5), (32, 6), (32, 7), (32, 8),
      (40, 1), (40, 2), (40, 3), (40, 4), (51, 1), (51, 2)]"

definition ProcessSizeByVariation :: "bytes \<Rightarrow> HeaderReadIterator \<Rightarrow> nat \<Rightarrow> ResponseLoader handler" where
  "ProcessSizeByVariation buf arIter aGrp = (if aGrp = 112 \<or> aGrp = 113 then Loader_ReadVto buf arIter else skip)"

definition ProcessData :: "bytes \<Rightarrow> HeaderReadIterator \<Rightarrow> nat \<Rightarrow> nat \<Rightarrow> ResponseLoader handler" where
  "ProcessData buf arIter aGrp aVar =
     (case List.find (\<lambda>(g, v). RADIX g v = RADIX aGrp aVar) loader_cases of
        None \<Rightarrow> ProcessSizeByVariation buf arIter aGrp
      | Some (g, v) \<Rightarrow>
          if (g, v) = (1, 1) then Loader_ReadBitfield buf arIter
          else if g = 51 then Loader_ReadCTO buf arIter (the (object_Inst g v))
          else Loader_Read buf arIter (the (object_Inst g v)))"

definition Loader_Process :: "bytes \<Rightarrow> HeaderReadIterator \<Rightarrow> ResponseLoader handler" where
  "Loader_Process buf arIter = with_value (\<lambda>_. HeaderRead_info arIter) (\<lambda>info. in_order [
     ProcessData buf arIter (unat (Group (mHeaderData info))) (unat (Variation (mHeaderData info))),
     modify (\<lambda>l. l\<lparr>rl_CTO := NextHeader (rl_CTO l)\<rparr>)])"

text \<open>The loop over the headers of a response, as the two callers write it.\<close>

primrec for_headers :: "nat \<Rightarrow> bytes \<Rightarrow> HeaderReadIterator \<Rightarrow> ResponseLoader handler" where
  "for_headers 0 buf hdr = skip"
| "for_headers (Suc n) buf hdr =
     (if HeaderRead_IsEnd hdr then skip
      else in_order [Loader_Process buf hdr, with_value (\<lambda>_. HeaderRead_next hdr) (for_headers n buf)])"

definition ReadData :: "APDU \<Rightarrow> exn option \<times> Published list" where
  "ReadData f =
     (case APDU_BeginRead f of
        Inl e \<Rightarrow> (Some e, [])
      | Inr hdr \<Rightarrow>
          (case for_headers (length (mObjectHeaders f)) (mBuffer f) hdr new_ResponseLoader of (r, l) \<Rightarrow> (r, rl_Out l)))"

section \<open>The cases of the switch\<close>

lemma loader_case_types:
  "list_all (\<lambda>(g, v). map_option ob_type (object_Inst g v) =
     Some (if (g, v) = (1, 1) then OT_BITFIELD else OT_FIXED)) loader_cases"
  by code_simp

lemma registered_groups: "(g, v) \<in> set registered_cases \<Longrightarrow> g < 110 \<and> v < 16"
  using registered_small by (auto simp: registered_keys)

lemma loader_case_registered:
  assumes "(g, v) \<in> set loader_cases"
  shows "(g, v) \<in> set registered_cases"
proof -
  from assms loader_case_types obtain ob where "object_Inst g v = Some ob" by (fastforce simp: list_all_iff)
  then have "ob \<in> set DNPObjects" "ob_group ob = g" "ob_var ob = v"
    using object_Inst_fields [of g v ob] by (auto simp: object_Inst_def find_Some_iff in_set_conv_nth)
  moreover have "g < 110 \<and> g \<noteq> 31" using assms by (auto simp: loader_cases_def)
  ultimately show ?thesis by (force simp: registered_keys)
qed

lemma RADIX_ge: "16 * g \<le> RADIX g v"
proof -
  have "int (push_bit 4 g) \<le> int (push_bit 4 g) OR int v" by (rule or_greater_eq) simp
  then have "int (16 * g) \<le> int (push_bit 4 g OR v)" by (simp add: of_nat_or_eq push_bit_eq_mult)
  then show ?thesis by (simp only: RADIX_def of_nat_le_iff)
qed

lemma find_unique:
  assumes "y \<in> set xs" "P y" and "\<And>x. x \<in> set xs \<Longrightarrow> P x \<Longrightarrow> x = y"
  shows "List.find P xs = Some y"
proof -
  have "List.find P xs = List.find (\<lambda>x. x = y) xs" by (rule find_cong) (use assms in blast)+
  with assms(1) show ?thesis by (simp add: find_equal)
qed

text \<open>The loader takes an object for the one the parser took it for.\<close>

lemma loader_case_of_object:
  assumes "ObjectBase_Get g v = Some ob"
  shows "List.find (\<lambda>(g', v'). RADIX g' v' = RADIX g v) loader_cases =
      (if (ob_group ob, ob_var ob) \<in> set loader_cases then Some (ob_group ob, ob_var ob) else None)"
    and "object_Inst (ob_group ob) (ob_var ob) = Some ob"
    and "g = 112 \<or> g = 113 \<longleftrightarrow> ob_group ob \<in> {112, 113}"
    and "ob_group ob \<in> {112, 113} \<Longrightarrow> ob_var ob = 0"
proof -
  have *: "List.find (\<lambda>(g', v'). RADIX g' v' = RADIX g v) loader_cases =
      (if (ob_group ob, ob_var ob) \<in> set loader_cases then Some (ob_group ob, ob_var ob) else None) \<and>
    object_Inst (ob_group ob) (ob_var ob) = Some ob \<and> (g = 112 \<or> g = 113 \<longleftrightarrow> ob_group ob \<in> {112, 113}) \<and>
    (ob_group ob \<in> {112, 113} \<longrightarrow> ob_var ob = 0)"
  proof (cases "List.find (\<lambda>(g', v'). RADIX g' v' = RADIX g v) registered_cases")
    case (Some gv)
    obtain g1 v1 where gv: "gv = (g1, v1)" by (cases gv)
    with Some have at: "(g1, v1) \<in> set registered_cases" "RADIX g1 v1 = RADIX g v"
      by (auto simp: find_Some_iff in_set_conv_nth)
    from Some assms gv have ob: "object_Inst g1 v1 = Some ob" "ob_group ob = g1" "ob_var ob = v1"
      using object_Inst_fields [of g1 v1 ob] by (auto simp: ObjectBase_Get_def)
    have "16 * g \<le> 16 * g1 + v1"
      using RADIX_ge [of g v] at RADIX_small [of v1 g1] registered_groups [OF at(1)] by simp
    then have "g \<noteq> 112 \<and> g \<noteq> 113" "g1 < 110" using registered_groups [OF at(1)] by auto
    have one: "a = g1 \<and> b = v1" if "(a, b) \<in> set loader_cases" "RADIX a b = RADIX g v" for a b
      using that at RADIX_inject [of b v1 a g1] loader_case_registered [of a b] registered_small by auto
    have "List.find (\<lambda>(g', v'). RADIX g' v' = RADIX g v) loader_cases =
        (if (g1, v1) \<in> set loader_cases then Some (g1, v1) else None)"
    proof (cases "(g1, v1) \<in> set loader_cases")
      case True
      have "List.find (\<lambda>(g', v'). RADIX g' v' = RADIX g v) loader_cases = Some (g1, v1)"
        by (rule find_unique [OF True]) (use at one in auto)
      with True show ?thesis by simp
    next
      case False
      then show ?thesis using one by (auto simp: find_None_iff)
    qed
    with \<open>g \<noteq> 112 \<and> g \<noteq> 113\<close> \<open>g1 < 110\<close> show ?thesis using ob by simp
  next
    case None
    with assms have ob: "g \<in> set group_cases" "object_Inst g 0 = Some ob" "ob_group ob = g" "ob_var ob = 0"
      using object_Inst_fields [of g 0 ob] by (auto simp: ObjectBase_Get_def split: if_splits)
    have "(g, 0) \<notin> set loader_cases" by (simp add: loader_cases_def)
    moreover have "List.find (\<lambda>(g', v'). RADIX g' v' = RADIX g v) loader_cases = None"
      using None loader_case_registered by (auto simp: find_None_iff)
    ultimately show ?thesis using ob by auto
  qed
  then show "List.find (\<lambda>(g', v'). RADIX g' v' = RADIX g v) loader_cases =
      (if (ob_group ob, ob_var ob) \<in> set loader_cases then Some (ob_group ob, ob_var ob) else None)"
    "object_Inst (ob_group ob) (ob_var ob) = Some ob" "g = 112 \<or> g = 113 \<longleftrightarrow> ob_group ob \<in> {112, 113}"
    "ob_group ob \<in> {112, 113} \<Longrightarrow> ob_var ob = 0" by blast+
qed

text \<open>Every case that reads measurements has a stream.\<close>

definition measured :: "DNPObject \<Rightarrow> bool" where
  "measured ob \<longleftrightarrow> (ob_group ob, ob_var ob) \<in> set loader_cases \<and> (ob_group ob, ob_var ob) \<noteq> (1, 1) \<and> ob_group ob \<noteq> 51"

lemma loader_case_measures:
  assumes "measured ob"
  shows "\<exists>x. measurement ob t buf p index = Some x"
  using assms unfolding measured_def loader_cases_def
  by (auto simp: measurement_def Binary_Read_def ControlStatus_Read_def Counter_Read_def Analog_Read_def
      SetpointStatus_Read_def templates_def binary_streams_def control_status_streams_def counter_streams_def
      analog_streams_def setpoint_status_streams_def)

section \<open>What a response holds\<close>

text \<open>
  The reference: where the objects of a header are and which index each has, what the loader makes of a header,
  and of a list of headers. Only the first object of a virtual terminal header is read; a virtual terminal header
  that announces no object at all ends the reading.
\<close>

definition object_pos :: "HeaderInfo \<Rightarrow> nat \<Rightarrow> nat" where
  "object_pos hi k = object_prefix_pos hi True k + mPrefixSize hi"

definition object_index :: "bytes \<Rightarrow> HeaderInfo \<Rightarrow> nat \<Rightarrow> nat" where
  "object_index buf hi k =
     (case GetRange (mpHeader hi) buf (mPos hi) of
        Some (Start, Stop) \<Rightarrow> Start + k
      | None \<Rightarrow> if mPrefixSize hi = 0 then k else index_read (mPrefixSize hi) buf (object_prefix_pos hi True k))"

definition header_updates :: "bytes \<Rightarrow> CTOHistory \<Rightarrow> HeaderInfo \<Rightarrow> Published list" where
  "header_updates buf c hi =
     (let ob = mpObjectBase hi; at = object_pos hi; index = object_index buf hi; all = [0..<mHeaderCount hi] in
      if (ob_group ob, ob_var ob) = (1, 1) then
        map (\<lambda>k. Pub_Binary \<lparr>bp_Quality = (if bit (buf ! (at 0 + k div 8)) (k mod 8) then 0x81 else 0x01), bp_Time = 0\<rparr> (index k)) all
      else if measured ob then
        (if ob_cto ob then
           (case GetCTO c of None \<Rightarrow> [] | Some t \<Rightarrow> map (\<lambda>k. the (measurement ob t buf (at k) (index k))) all)
         else map (\<lambda>k. the (measurement ob 0 buf (at k) (index k))) all)
      else if ob_group ob \<in> {112, 113} \<and> index 0 \<le> 255 then
        [Pub_Vto \<lparr>vto_Data = take (unat (Variation (mHeaderData hi))) (drop (at 0) buf), vto_Type = VTODT_DATA\<rparr>
           (word_of_nat (index 0))]
      else [])"

definition header_cto :: "bytes \<Rightarrow> CTOHistory \<Rightarrow> HeaderInfo \<Rightarrow> CTOHistory" where
  "header_cto buf c hi = NextHeader
     (if (ob_group (mpObjectBase hi), ob_var (mpObjectBase hi)) \<in> {(51, 1), (51, 2)} \<and> mHeaderCount hi = 1
      then SetCTO (Get_Time (mpObjectBase hi) buf (object_pos hi 0)) c else c)"

definition empty_vto :: "HeaderInfo \<Rightarrow> bool" where
  "empty_vto hi \<longleftrightarrow> ob_group (mpObjectBase hi) \<in> {112, 113} \<and> mHeaderCount hi = 0"

fun response_updates :: "bytes \<Rightarrow> CTOHistory \<Rightarrow> HeaderInfo list \<Rightarrow> Published list" where
  "response_updates buf c [] = []"
| "response_updates buf c (hi # his) =
     (if empty_vto hi then [] else header_updates buf c hi @ response_updates buf (header_cto buf c hi) his)"

lemma index_at:
  assumes "header_at buf off hi" and "ob_type (mpObjectBase hi) \<in> {OT_FIXED, OT_BITFIELD, OT_SIZE_BY_VARIATION}"
    and "iterator_at buf hi True k it" and "k < mHeaderCount hi"
  shows "or_index it = Some (object_index buf hi k)"
proof -
  from assms(3) obtain n where n: "or_index it = Some n" "or_header it = hi" "or_num it = k"
    "CalcIndex buf (it\<lparr>or_index := None\<rparr>) (object_prefix_pos hi True k) = Inr n"
    by (auto simp: iterator_at_def)
  note q = header_atD [OF assms(1)]
  have "n = object_index buf hi k"
    by (cases "Qualifier (mHeaderData hi)")
      (use q n assms(2,4) in \<open>auto simp: CalcIndex_def CalcCountIndex_def GetPrefixSizeAndValidate_def object_index_def
        index_read_def GetNumObjects_def RangedHeader_GetRange_def split: if_splits\<close>)
  with n(1) show ?thesis by simp
qed

lemma deref_at:
  assumes "iterator_at buf hi True k it" and "k < mHeaderCount hi"
  shows "ObjectRead_deref it = Inr (object_pos hi k)" "\<not> ObjectRead_IsEnd it"
  using assms by (auto simp: iterator_at_def ObjectRead_deref_def ObjectRead_IsEnd_def object_pos_def)

lemma for_objects_all:
  assumes at: "header_at buf off hi" and type: "ob_type (mpObjectBase hi) \<in> {OT_FIXED, OT_BITFIELD}"
    and body: "\<And>k it l. k < mHeaderCount hi \<Longrightarrow> iterator_at buf hi True k it \<Longrightarrow>
      (ob_type (mpObjectBase hi) = OT_BITFIELD \<Longrightarrow> \<exists>s. or_start it = Some s \<and> or_index it = Some (s + k)) \<Longrightarrow>
      body it l = (None, publish (f k) l)"
    and "nth_object buf hi True k = Inr it" and "k + n = mHeaderCount hi"
  shows "for_objects n buf body it l = (None, l\<lparr>rl_Out := rl_Out l @ map f [k..<mHeaderCount hi]\<rparr>)"
  using assms(4,5)
proof (induction n arbitrary: k it l)
  case (Suc n)
  then have k: "k < mHeaderCount hi" by simp
  then obtain jt where jt: "nth_object buf hi True k = Inr jt" "iterator_at buf hi True k jt"
    "ob_type (mpObjectBase hi) = OT_BITFIELD \<Longrightarrow> \<exists>s. or_start jt = Some s \<and> or_index jt = Some (s + k)"
    using nth_object_found [OF at, of True k] type by auto
  with Suc.prems have "it = jt" by simp
  note it = jt(2,3) [folded this]
  have "\<exists>it'. ObjectRead_next buf it = Inr it'"
  proof (cases "Suc k < mHeaderCount hi")
    case True
    then obtain it' where "nth_object buf hi True (Suc k) = Inr it'"
      using nth_object_found [OF at, of True "Suc k"] type by auto
    with Suc.prems show ?thesis by auto
  next
    case False
    then show ?thesis using it(1) k by (auto simp: ObjectRead_next_def ObjectRead_IsEnd_def iterator_at_def Let_def)
  qed
  then obtain it' where it': "ObjectRead_next buf it = Inr it'" by blast
  have "for_objects n buf body it' (publish (f k) l) =
      (None, publish (f k) l\<lparr>rl_Out := rl_Out (publish (f k) l) @ map f [Suc k..<mHeaderCount hi]\<rparr>)"
    by (rule Suc.IH) (use Suc.prems it' in auto)
  then show ?case
    using k it' body [OF k it] deref_at(2) [OF it(1) k] by (simp add: handler_simps publish_def upt_conv_Cons)
qed (simp add: handler_simps)

lemma all_objects:
  assumes "header_at buf off hi" and "ob_type (mpObjectBase hi) \<in> {OT_FIXED, OT_BITFIELD}"
    and "\<And>k it l. k < mHeaderCount hi \<Longrightarrow> iterator_at buf hi True k it \<Longrightarrow>
      (ob_type (mpObjectBase hi) = OT_BITFIELD \<Longrightarrow> \<exists>s. or_start it = Some s \<and> or_index it = Some (s + k)) \<Longrightarrow>
      body it l = (None, publish (f k) l)"
    and "HeaderRead_BeginRead buf h = Inr it" "hr_headers h ! hr_index h = hi" "hr_hasdata h"
  shows "for_objects (mHeaderCount (or_header it)) buf body it l =
    (None, l\<lparr>rl_Out := rl_Out l @ map f [0..<mHeaderCount hi]\<rparr>)"
proof -
  have new: "nth_object buf hi True 0 = Inr it" using assms(4-6) by (simp add: HeaderRead_BeginRead_def)
  then have "or_header it = hi"
    by (auto simp: ObjectReadIterator_new_def SetObjectInfo_def Let_def split: sum.splits if_splits)
  then show ?thesis by (simp add: for_objects_all [OF assms(1-3) new])
qed

lemma BeginRead_found:
  assumes "header_at buf off hi" and "ob_type (mpObjectBase hi) \<in> {OT_FIXED, OT_BITFIELD, OT_SIZE_BY_VARIATION}"
    and "hr_headers h ! hr_index h = hi" "hr_hasdata h"
  obtains it where "HeaderRead_BeginRead buf h = Inr it" "or_header it = hi"
    "0 < mHeaderCount hi \<Longrightarrow> iterator_at buf hi True 0 it" "mHeaderCount hi = 0 \<Longrightarrow> ObjectRead_IsEnd it"
proof (cases "0 < mHeaderCount hi")
  case True
  from first_object_found [OF assms(1,2) True] obtain it where "nth_object buf hi True 0 = Inr it" "iterator_at buf hi True 0 it"
    by blast
  with True that assms(3,4) show ?thesis by (auto simp: HeaderRead_BeginRead_def iterator_at_def)
next
  case False
  with that assms(3,4) show ?thesis
    by (force simp: HeaderRead_BeginRead_def ObjectReadIterator_new_def ObjectRead_IsEnd_def Let_def)
qed

lemma Loader_Read_header:
  assumes at: "header_at buf off hi" and type: "ob_type (mpObjectBase hi) = OT_FIXED"
    and h: "hr_headers h ! hr_index h = hi" "hr_hasdata h" and m: "measured (mpObjectBase hi)"
  shows "Loader_Read buf h (mpObjectBase hi) l = (None, l\<lparr>rl_Out := rl_Out l @ header_updates buf (rl_CTO l) hi\<rparr>)"
proof -
  define ob where "ob = mpObjectBase hi"
  have one: "(ob_group ob, ob_var ob) \<noteq> (1, 1)" using m by (simp add: measured_def ob_def)
  define t where "t = (if ob_cto ob then the (GetCTO (rl_CTO l)) else 0)"
  obtain it where it: "HeaderRead_BeginRead buf h = Inr it" "or_header it = hi"
    by (rule BeginRead_found [OF at _ h]) (use type in auto)
  define body where "body = (\<lambda>obj. with_value (\<lambda>_ :: ResponseLoader. ObjectRead_Index obj) (\<lambda>index.
      with_value (\<lambda>_. ObjectRead_deref obj) (\<lambda>p.
        case measurement ob t buf p index of Some x \<Rightarrow> modify (publish x) | None \<Rightarrow> throw AssertionFailed)))"
  have body: "body jt l = (None, publish (the (measurement ob t buf (object_pos hi k) (object_index buf hi k))) l)"
    if k: "k < mHeaderCount hi" and jt: "iterator_at buf hi True k jt" for k jt l
    using loader_case_measures [OF m [folded ob_def], of t buf "object_pos hi k" "object_index buf hi k"]
      index_at [OF at _ jt k] type deref_at [OF jt k]
    by (auto simp: body_def handler_simps ObjectRead_Index_def)
  have all: "for_objects (mHeaderCount hi) buf body it l = (None, l\<lparr>rl_Out := rl_Out l @
      map (\<lambda>k. the (measurement ob t buf (object_pos hi k) (object_index buf hi k))) [0..<mHeaderCount hi]\<rparr>)"
    by (rule all_objects [OF at _ _ it(1) h, unfolded it(2)]) (use type body in auto)
  show ?thesis
  proof (cases "ob_cto ob \<and> GetCTO (rl_CTO l) = None")
    case True
    then show ?thesis using m one
      by (auto simp: Loader_Read_def handler_simps header_updates_def Let_def ob_def [symmetric])
  next
    case False
    have "Loader_Read buf h ob l = for_objects (mHeaderCount hi) buf body it l"
      using False it by (auto simp: Loader_Read_def handler_simps body_def t_def [symmetric] Let_def)
    with all False m one show ?thesis
      by (auto simp: header_updates_def Let_def ob_def [symmetric] t_def)
  qed
qed

lemma Loader_ReadBitfield_header:
  assumes at: "header_at buf off hi" and type: "ob_type (mpObjectBase hi) = OT_BITFIELD"
    and h: "hr_headers h ! hr_index h = hi" "hr_hasdata h"
    and ob: "(ob_group (mpObjectBase hi), ob_var (mpObjectBase hi)) = (1, 1)"
  shows "Loader_ReadBitfield buf h l = (None, l\<lparr>rl_Out := rl_Out l @ header_updates buf (rl_CTO l) hi\<rparr>)"
proof -
  define pub where "pub = (\<lambda>k. Pub_Binary \<lparr>bp_Quality = (if bit (buf ! (object_pos hi 0 + k div 8)) (k mod 8)
    then 0x81 else 0x01), bp_Time = 0\<rparr> (object_index buf hi k))"
  obtain it where it: "HeaderRead_BeginRead buf h = Inr it" "or_header it = hi"
    by (rule BeginRead_found [OF at _ h]) (use type in auto)
  define body where "body = (\<lambda>obj. with_value (\<lambda>_ :: ResponseLoader. ObjectRead_deref obj) (\<lambda>p.
       with_value (\<lambda>_. ObjectRead_Index obj) (\<lambda>index.
       with_value (\<lambda>_. Bitfield_Read buf p (the (or_start obj)) index) (\<lambda>val.
         modify (publish (Pub_Binary (bp_SetValue val (bp_SetQuality Q_ONLINE new_BoolDataPoint)) index))))))"
  have body: "body jt l = (None, publish (pub k) l)"
    if k: "k < mHeaderCount hi" and jt: "iterator_at buf hi True k jt"
      and s: "\<exists>s. or_start jt = Some s \<and> or_index jt = Some (s + k)" for k jt l
  proof -
    from s obtain s where s: "or_start jt = Some s" "or_index jt = Some (s + k)" by blast
    have pos: "object_pos hi k = object_pos hi 0" using type by (simp add: object_pos_def object_prefix_pos_def)
    have "object_index buf hi k = s + k" using index_at [OF at _ jt k] type s by simp
    then show ?thesis
      using deref_at [OF jt k] s
      by (simp add: body_def handler_simps ObjectRead_Index_def Bitfield_Read_bit pub_def pos
          bp_SetValue_def bp_SetQuality_def new_BoolDataPoint_def Q_ONLINE_def Q_STATE_def Q_RESTART_def)
  qed
  have all: "for_objects (mHeaderCount hi) buf body it l = (None, l\<lparr>rl_Out := rl_Out l @ map pub [0..<mHeaderCount hi]\<rparr>)"
    by (rule all_objects [OF at _ _ it(1) h, unfolded it(2)]) (use type body in auto)
  have "Loader_ReadBitfield buf h l = for_objects (mHeaderCount hi) buf body it l"
    using it by (simp add: Loader_ReadBitfield_def handler_simps body_def)
  with all ob show ?thesis by (simp add: header_updates_def Let_def pub_def)
qed

lemma Loader_ReadCTO_header:
  assumes at: "header_at buf off hi" and type: "ob_type (mpObjectBase hi) = OT_FIXED"
    and h: "hr_headers h ! hr_index h = hi" "hr_hasdata h" and ob: "ob_group (mpObjectBase hi) = 51"
  shows "Loader_ReadCTO buf h (mpObjectBase hi) l = (None, l\<lparr>rl_CTO :=
    if mHeaderCount hi = 1 then SetCTO (Get_Time (mpObjectBase hi) buf (object_pos hi 0)) (rl_CTO l) else rl_CTO l\<rparr>)"
proof -
  obtain it where it: "HeaderRead_BeginRead buf h = Inr it" "or_header it = hi"
    "0 < mHeaderCount hi \<Longrightarrow> iterator_at buf hi True 0 it"
    by (rule BeginRead_found [OF at _ h]) (use type in auto)
  then show ?thesis using deref_at [of buf hi 0 it]
    by (cases "mHeaderCount hi = 1") (auto simp: Loader_ReadCTO_def handler_simps)
qed

lemma Loader_ReadVto_header:
  assumes at: "header_at buf off hi" and type: "ob_type (mpObjectBase hi) = OT_SIZE_BY_VARIATION"
    and h: "hr_headers h ! hr_index h = hi" "hr_hasdata h" "\<not> HeaderRead_IsEnd h"
    and ob: "ob_group (mpObjectBase hi) \<in> {112, 113}" "ob_var (mpObjectBase hi) = 0"
  shows "Loader_ReadVto buf h l =
    (if empty_vto hi then (Some (Exception ALERR_ITERATOR_OUT_OF_BOUNDS), l)
     else (None, l\<lparr>rl_Out := rl_Out l @ header_updates buf (rl_CTO l) hi\<rparr>))"
proof -
  define v where "v = unat (Variation (mHeaderData hi))"
  have v: "v \<le> 255" using unsigned_less [of "Variation (mHeaderData hi)", where 'a = nat] by (simp add: v_def)
  obtain it where it: "HeaderRead_BeginRead buf h = Inr it" "or_header it = hi"
    "0 < mHeaderCount hi \<Longrightarrow> iterator_at buf hi True 0 it" "mHeaderCount hi = 0 \<Longrightarrow> ObjectRead_IsEnd it"
    by (rule BeginRead_found [OF at _ h(1,2)]) (use type in auto)
  show ?thesis
  proof (cases "mHeaderCount hi = 0")
    case True
    with it ob show ?thesis by (simp add: Loader_ReadVto_def handler_simps empty_vto_def ObjectRead_deref_def)
  next
    case False
    then have n: "0 < mHeaderCount hi" by simp
    have "or_index it = Some (object_index buf hi 0)" using index_at [OF at _ it(3) [OF n] n] type by simp
    with it(1,2) ob h n v deref_at [OF it(3) [OF n] n]
    show ?thesis
      by (auto simp: Loader_ReadVto_def handler_simps empty_vto_def HeaderRead_info_def ObjectRead_Index_def VtoData_of_def
          vto_MAX_SIZE_def header_updates_def Let_def publish_def measured_def loader_cases_def v_def [symmetric])
  qed
qed

text \<open>One header, and all of them.\<close>

lemma Loader_Process_header:
  assumes at: "header_at buf off hi" and h: "hr_headers h ! hr_index h = hi" "hr_hasdata h" "\<not> HeaderRead_IsEnd h"
  shows "Loader_Process buf h l =
    (if empty_vto hi then (Some (Exception ALERR_ITERATOR_OUT_OF_BOUNDS), l)
     else (None, \<lparr>rl_CTO = header_cto buf (rl_CTO l) hi, rl_Out = rl_Out l @ header_updates buf (rl_CTO l) hi\<rparr>))"
proof -
  define ob where "ob = mpObjectBase hi"
  have get: "ObjectBase_Get (unat (Group (mHeaderData hi))) (unat (Variation (mHeaderData hi))) = Some ob"
    using at unfolding header_at_def ob_def by metis
  note c = loader_case_of_object [OF get]
  have info: "HeaderRead_info h = Inr hi" using h by (simp add: HeaderRead_info_def)
  have type: "ob_type ob = (if (ob_group ob, ob_var ob) = (1, 1) then OT_BITFIELD else OT_FIXED)"
    if "(ob_group ob, ob_var ob) \<in> set loader_cases"
    using that loader_case_types c(2) by (fastforce simp: list_all_iff)
  have novto: "ob_group ob \<notin> {112, 113}" if "(ob_group ob, ob_var ob) \<in> set loader_cases"
    using registered_groups [OF loader_case_registered [OF that]] by auto
  have proc: "Loader_Process buf h l =
      in_order [ProcessData buf h (unat (Group (mHeaderData hi))) (unat (Variation (mHeaderData hi))),
        modify (\<lambda>l. l\<lparr>rl_CTO := NextHeader (rl_CTO l)\<rparr>)] l"
    by (simp only: Loader_Process_def with_value_def info sum.case)
  have data: "ProcessData buf h (unat (Group (mHeaderData hi))) (unat (Variation (mHeaderData hi))) =
      (if (ob_group ob, ob_var ob) \<in> set loader_cases
       then (if (ob_group ob, ob_var ob) = (1, 1) then Loader_ReadBitfield buf h
             else if ob_group ob = 51 then Loader_ReadCTO buf h ob else Loader_Read buf h ob)
       else ProcessSizeByVariation buf h (unat (Group (mHeaderData hi))))"
    unfolding ProcessData_def c(1) by (simp only: c(2) option.simps if_distrib option.sel prod.case split: if_split)
  have cto: "(ob_group ob, ob_var ob) \<in> {(51, 1), (51, 2)} \<longleftrightarrow>
      (ob_group ob, ob_var ob) \<in> set loader_cases \<and> ob_group ob = 51"
    by (cases "ob_group ob = 51") (simp_all add: loader_cases_def)
  have one: "(1, 1) \<in> set loader_cases" by (simp add: loader_cases_def)
  consider "(ob_group ob, ob_var ob) = (1, 1)" | "measured ob"
    | "ob_group ob = 51" "(ob_group ob, ob_var ob) \<in> set loader_cases"
    | "(ob_group ob, ob_var ob) \<notin> set loader_cases" "ob_group ob \<in> {112, 113}"
    | "(ob_group ob, ob_var ob) \<notin> set loader_cases" "ob_group ob \<notin> {112, 113}"
    unfolding measured_def by blast
  then show ?thesis
  proof cases
    case 1
    note bits = Loader_ReadBitfield_header [OF at _ h(1,2), folded ob_def, OF _ 1, of l]
    show ?thesis unfolding proc data using 1 one type bits
      by (simp add: modify_def empty_vto_def header_cto_def ob_def [symmetric])
  next
    case 2
    then have 2: "(ob_group ob, ob_var ob) \<in> set loader_cases" "(ob_group ob, ob_var ob) \<noteq> (1, 1)" "ob_group ob \<noteq> 51"
      "measured ob" by (auto simp: measured_def)
    note read = Loader_Read_header [OF at _ h(1,2), folded ob_def, OF _ 2(4), of l]
    have "ob_type ob = OT_FIXED" using 2(1,2) type by auto
    from read [OF this] show ?thesis unfolding proc data using 2 novto
      by (auto simp: modify_def empty_vto_def header_cto_def ob_def [symmetric])
  next
    case 3
    note cto51 = Loader_ReadCTO_header [OF at _ h(1,2), folded ob_def, OF _ 3(1), of l]
    have "header_updates buf (rl_CTO l) hi = []"
      using 3 by (simp add: header_updates_def Let_def ob_def [symmetric] measured_def)
    then show ?thesis unfolding proc data header_cto_def ob_def [symmetric] cto using 3 type cto51
      by (simp add: modify_def empty_vto_def ob_def [symmetric])
  next
    case 4
    have "ob_type ob = OT_SIZE_BY_VARIATION"
      using c(2) c(4) [OF 4(2)] object_Inst_by_group 4(2) by (auto simp: list_all_iff group_cases_def)
    note vto = Loader_ReadVto_header [OF at this [unfolded ob_def] h 4(2) [unfolded ob_def] c(4) [OF 4(2), unfolded ob_def], of l]
    have "ProcessSizeByVariation buf h (unat (Group (mHeaderData hi))) = Loader_ReadVto buf h"
      using c(3) 4(2) by (simp add: ProcessSizeByVariation_def)
    with 4 vto show ?thesis unfolding proc data header_cto_def ob_def [symmetric] cto
      by (simp add: modify_def)
  next
    case 5
    then have "header_updates buf (rl_CTO l) hi = []"
      using one by (auto simp: header_updates_def Let_def ob_def [symmetric] measured_def)
    moreover have "ProcessSizeByVariation buf h (unat (Group (mHeaderData hi))) = skip"
      using c(3) 5(2) by (simp add: ProcessSizeByVariation_def)
    ultimately show ?thesis using 5 unfolding proc data header_cto_def ob_def [symmetric] cto
      by (simp add: modify_def skip_def empty_vto_def ob_def [symmetric])
  qed
qed

lemma for_headers_all:
  assumes "\<And>hi. hi \<in> set his \<Longrightarrow> header_at buf (mPos hi) hi"
    and "hr_headers h = pre @ his" "hr_index h = length pre" "hr_hasdata h" and "length his \<le> n"
  shows "\<exists>c. for_headers n buf h l =
    (if \<exists>hi \<in> set his. empty_vto hi then Some (Exception ALERR_ITERATOR_OUT_OF_BOUNDS) else None,
     \<lparr>rl_CTO = c, rl_Out = rl_Out l @ response_updates buf (rl_CTO l) his\<rparr>)"
  using assms
proof (induction his arbitrary: pre h n l)
  case Nil
  then show ?case by (cases n) (auto simp: HeaderRead_IsEnd_def handler_simps intro: exI [of _ "rl_CTO l"])
next
  case (Cons hi his)
  then obtain m where n: "n = Suc m" by (cases n) auto
  have more: "\<not> HeaderRead_IsEnd h" using Cons.prems by (simp add: HeaderRead_IsEnd_def)
  have this_hi: "hr_headers h ! hr_index h = hi" using Cons.prems by simp
  note step = Loader_Process_header [OF Cons.prems(1) [of hi] this_hi Cons.prems(4) more, of l]
  show ?case
  proof (cases "empty_vto hi")
    case True
    with step more show ?thesis by (auto simp: n intro!: exI [of _ "rl_CTO l"])
  next
    case False
    define h' where "h' = h\<lparr>hr_index := hr_index h + 1\<rparr>"
    define l' where "l' = \<lparr>rl_CTO = header_cto buf (rl_CTO l) hi, rl_Out = rl_Out l @ header_updates buf (rl_CTO l) hi\<rparr>"
    have "\<exists>c. for_headers m buf h' l' =
        (if \<exists>hi \<in> set his. empty_vto hi then Some (Exception ALERR_ITERATOR_OUT_OF_BOUNDS) else None,
         \<lparr>rl_CTO = c, rl_Out = rl_Out l' @ response_updates buf (rl_CTO l') his\<rparr>)"
      by (rule Cons.IH [where pre = "pre @ [hi]"]) (use Cons.prems n in \<open>auto simp: h'_def\<close>)
    moreover have "for_headers n buf h l = for_headers m buf h' l'"
      using step False more by (simp add: n handler_simps HeaderRead_next_def h'_def l'_def)
    ultimately show ?thesis using False by (simp add: l'_def)
  qed
qed


text \<open>A response with one binary, index 5, and a virtual terminal header whose count is zero.\<close>

definition empty_vto_bytes :: bytes where
  "empty_vto_bytes = [0xC0, 0x81, 0, 0, 1, 2, 0x17, 1, 5, 0x81, 0x70, 1, 0x17, 0, 0, 0]"

definition empty_vto_response :: APDU where
  "empty_vto_response = snd (APDU_Write empty_vto_bytes (APDU_new (replicate 16 0)))"

definition empty_vto_headers :: "HeaderInfo list" where
  "empty_vto_headers =
     [\<lparr>mPos = 4, mHeaderData = \<lparr>Group = 1, Variation = 2, Qualifier = QC_1B_CNT_1B_INDEX\<rparr>, mHeaderCount = 1,
        mPrefixSize = 1, mpHeader = OHT_COUNT_1_OCTET, mpObjectBase = FixedObject 1 2 1 [(mFlag, UInt8, 0)]\<rparr>,
      \<lparr>mPos = 10, mHeaderData = \<lparr>Group = 0x70, Variation = 1, Qualifier = QC_1B_CNT_1B_INDEX\<rparr>, mHeaderCount = 0,
        mPrefixSize = 1, mpHeader = OHT_COUNT_1_OCTET, mpObjectBase = SizeByVariationObject 112 0\<rparr>]"

lemma empty_vto_response_fields:
  "received empty_vto_response" "mFragmentSize empty_vto_response = 16" "mBuffer empty_vto_response = empty_vto_bytes"
  "GetFunction empty_vto_bytes = FC_RESPONSE"
  by (simp_all add: empty_vto_response_def empty_vto_bytes_def APDU_Write_def APDU_new_def APDU_Reset_def
      handler_simps received_def blit_def GetFunction_def IntToFunction_def)

lemma empty_vto_response_parses:
  "Interpret empty_vto_response = (None, empty_vto_response\<lparr>mpAppHeader := Some AHT_RESPONSE,
     mObjectHeaders := empty_vto_headers, mIsInterpreted := True\<rparr>)"
proof (rule Interpret_accepted [OF empty_vto_response_fields(1)])
  have vto: "ObjectBase_Get 112 1 = Some (SizeByVariationObject 112 0)"
    by (simp add: ObjectBase_Get_small object_Inst_def group_cases_def DNPObjects_def object_tables object_kinds)
  note simps = header_at_def empty_vto_bytes_def ObjectHeader_Get_def ByteToQualifierCode_def GetPrefixSizeAndValidate_def
    GetNumObjects_def CountHeader_GetCount_def UInt8_Read_def UInt8_Size_def FixedObject_def SizeByVariationObject_def
  have "header_at empty_vto_bytes 4 (empty_vto_headers ! 0)"
    using example_lookup by (simp add: simps empty_vto_headers_def)
  moreover have "header_at empty_vto_bytes 10 (empty_vto_headers ! 1)"
    using vto by (simp add: simps empty_vto_headers_def)
  ultimately have at: "list_all (\<lambda>hi. header_at empty_vto_bytes (mPos hi) hi) empty_vto_headers"
    by (simp add: empty_vto_headers_def)
  show "ParseHeader empty_vto_response = Inr AHT_RESPONSE"
    by (simp add: ParseHeader_def empty_vto_response_fields IsResponse_def)
  show "headers_span (HasData (GetFunction (mBuffer empty_vto_response))) (mBuffer empty_vto_response)
      (AppHeader_GetSize AHT_RESPONSE) empty_vto_headers (mFragmentSize empty_vto_response)"
    using at by (simp add: empty_vto_headers_def empty_vto_response_fields HasData_def header_span_def data_size_of_def
        object_data_size_def FixedObject_def SizeByVariationObject_def UInt8_Size_def)
qed


end
