(* ===== verification/Commands.thy ===== *)
theory Commands
  imports ResponseLoaders
begin

text \<open>
  Commands (opendnp3/APL/CommandTypes, CommandQueue; the command objects of opendnp3/DNP3/Objects.cpp;
  opendnp3/DNP3/ControlTasks): control relay output blocks and setpoints, the queue in which an application leaves
  them for a master, their encodings, and the task that selects and then operates one of them.
\<close>

section \<open>The code\<close>

subsection \<open>Types\<close>

datatype CommandTypes = CT_BINARY_OUTPUT | CT_SETPOINT | CT_NONE

datatype CommandStatus =
    CS_SUCCESS | CS_TIMEOUT | CS_NO_SELECT | CS_FORMAT_ERROR | CS_NOT_SUPPORTED | CS_ALREADY_ACTIVE | CS_HARDWARE_ERROR
  | CS_LOCAL | CS_TOO_MANY_OPS | CS_NOT_AUTHORIZED | CS_UNDEFINED

fun CommandStatus_value :: "CommandStatus \<Rightarrow> byte" where
  "CommandStatus_value CS_SUCCESS = 0"
| "CommandStatus_value CS_TIMEOUT = 1"
| "CommandStatus_value CS_NO_SELECT = 2"
| "CommandStatus_value CS_FORMAT_ERROR = 3"
| "CommandStatus_value CS_NOT_SUPPORTED = 4"
| "CommandStatus_value CS_ALREADY_ACTIVE = 5"
| "CommandStatus_value CS_HARDWARE_ERROR = 6"
| "CommandStatus_value CS_LOCAL = 7"
| "CommandStatus_value CS_TOO_MANY_OPS = 8"
| "CommandStatus_value CS_NOT_AUTHORIZED = 9"
| "CommandStatus_value CS_UNDEFINED = 127"

definition ByteToCommandStatus :: "byte \<Rightarrow> CommandStatus" where
  "ByteToCommandStatus aField =
     (if aField = 0 then CS_SUCCESS else if aField = 1 then CS_TIMEOUT else if aField = 2 then CS_NO_SELECT
      else if aField = 3 then CS_FORMAT_ERROR else if aField = 4 then CS_NOT_SUPPORTED
      else if aField = 5 then CS_ALREADY_ACTIVE else if aField = 6 then CS_HARDWARE_ERROR
      else if aField = 7 then CS_LOCAL else if aField = 8 then CS_TOO_MANY_OPS
      else if aField = 9 then CS_NOT_AUTHORIZED else CS_UNDEFINED)"

text \<open>The type of a request is that of its class.\<close>

record BinaryOutput =
  bo_Status :: CommandStatus
  bo_RawCode :: byte
  bo_Count :: byte
  bo_OnTimeMS :: u32
  bo_OffTimeMS :: u32

datatype SetpointEncodingType =
    SPET_INT16 | SPET_INT32 | SPET_FLOAT | SPET_DOUBLE | SPET_AUTO_INT | SPET_AUTO_DOUBLE | SPET_UNSET

text \<open>The default constructor of a setpoint leaves its value uninitialised, here None.\<close>

record Setpoint =
  sp_Status :: CommandStatus
  sp_Value :: "double option"
  sp_EncodingType :: SetpointEncodingType

definition new_BinaryOutput :: BinaryOutput where
  "new_BinaryOutput = \<lparr>bo_Status = CS_SUCCESS, bo_RawCode = 0, bo_Count = 1, bo_OnTimeMS = 100, bo_OffTimeMS = 100\<rparr>"

definition new_Setpoint :: Setpoint where
  "new_Setpoint = \<lparr>sp_Status = CS_SUCCESS, sp_Value = None, sp_EncodingType = SPET_UNSET\<rparr>"

definition Setpoint_of_int :: "int \<Rightarrow> Setpoint" where
  "Setpoint_of_int aValue = \<lparr>sp_Status = CS_SUCCESS, sp_Value = Some (whole aValue), sp_EncodingType = SPET_AUTO_INT\<rparr>"

definition Setpoint_of_double :: "double \<Rightarrow> Setpoint" where
  "Setpoint_of_double aValue = \<lparr>sp_Status = CS_SUCCESS, sp_Value = Some aValue, sp_EncodingType = SPET_AUTO_DOUBLE\<rparr>"

definition SetEncodingType :: "SetpointEncodingType \<Rightarrow> Setpoint \<Rightarrow> Setpoint" where
  "SetEncodingType t s = s\<lparr>sp_EncodingType := t\<rparr>"

definition Setpoint_GetValue :: "Setpoint \<Rightarrow> exn + double" where
  "Setpoint_GetValue s =
     (if sp_EncodingType s = SPET_UNSET then Inl AssertionFailed
      else case sp_Value s of Some v \<Rightarrow> Inr v | None \<Rightarrow> Inl AssertionFailed)"

text \<open>The cast is undefined outside the range of the type, like a failed assertion.\<close>

definition GetIntValue :: "Setpoint \<Rightarrow> exn + int" where
  "GetIntValue s =
     (case Setpoint_GetValue s of
        Inl e \<Rightarrow> Inl e
      | Inr v \<Rightarrow>
        (case int_of_double v of
           Some n \<Rightarrow> if - (2 ^ 31) \<le> n \<and> n < 2 ^ 31 then Inr n else Inl AssertionFailed
         | None \<Rightarrow> Inl AssertionFailed))"

definition inside :: "packer \<Rightarrow> double \<Rightarrow> bool" where
  "inside k v \<longleftrightarrow> \<not> double_greater v (packer_Max k) \<and> \<not> double_greater (packer_Min k) v \<and> v \<noteq> Double_NaN"

definition GetOptimalEncodingType :: "Setpoint \<Rightarrow> exn + SetpointEncodingType" where
  "GetOptimalEncodingType s =
     (if sp_EncodingType s = SPET_UNSET then Inl AssertionFailed
      else case sp_Value s of
        None \<Rightarrow> Inl AssertionFailed
      | Some v \<Rightarrow> Inr
        (if sp_EncodingType s = SPET_AUTO_INT then (if inside Int16LE v then SPET_INT16 else SPET_INT32)
         else if sp_EncodingType s = SPET_AUTO_DOUBLE then (if inside SingleFloat v then SPET_FLOAT else SPET_DOUBLE)
         else sp_EncodingType s))"

subsection \<open>The queue\<close>

record CommandData =
  cd_Type :: CommandTypes
  cd_Index :: nat
  cd_Sequence :: int
  cd_RspAcceptor :: nat

record CommandQueue =
  cq_Binary :: "BinaryOutput list"
  cq_Setpoint :: "Setpoint list"
  cq_Types :: "CommandData list"

datatype Command = Cmd_BinaryOutput BinaryOutput | Cmd_Setpoint Setpoint

fun Command_GetType :: "Command \<Rightarrow> CommandTypes" where
  "Command_GetType (Cmd_BinaryOutput b) = CT_BINARY_OUTPUT"
| "Command_GetType (Cmd_Setpoint s) = CT_SETPOINT"

definition new_CommandQueue :: CommandQueue where
  "new_CommandQueue = \<lparr>cq_Binary = [], cq_Setpoint = [], cq_Types = []\<rparr>"

definition CommandQueue_Next :: "CommandQueue \<Rightarrow> CommandTypes" where
  "CommandQueue_Next q = (case cq_Types q of d # ds \<Rightarrow> cd_Type d | [] \<Rightarrow> CT_NONE)"

definition AcceptCommand :: "Command \<Rightarrow> nat \<Rightarrow> int \<Rightarrow> nat \<Rightarrow> CommandQueue \<Rightarrow> CommandQueue" where
  "AcceptCommand cmd aIndex aSequence apRspAcceptor q =
     (case cmd of
        Cmd_BinaryOutput b \<Rightarrow> q\<lparr>cq_Binary := cq_Binary q @ [b]\<rparr>
      | Cmd_Setpoint s \<Rightarrow> q\<lparr>cq_Setpoint := cq_Setpoint q @ [s]\<rparr>)
     \<lparr>cq_Types := cq_Types q @ [\<lparr>cd_Type = Command_GetType cmd, cd_Index = aIndex, cd_Sequence = aSequence,
        cd_RspAcceptor = apRspAcceptor\<rparr>]\<rparr>"

definition Read_Binary :: "CommandQueue \<Rightarrow> exn + (BinaryOutput \<times> CommandData) \<times> CommandQueue" where
  "Read_Binary q =
     (case (cq_Types q, cq_Binary q) of
        (d # ds, b # bs) \<Rightarrow>
          if cd_Type d = CT_BINARY_OUTPUT then Inr ((b, d), q\<lparr>cq_Types := ds, cq_Binary := bs\<rparr>) else Inl AssertionFailed
      | _ \<Rightarrow> Inl AssertionFailed)"

definition Read_Setpoint :: "CommandQueue \<Rightarrow> exn + (Setpoint \<times> CommandData) \<times> CommandQueue" where
  "Read_Setpoint q =
     (case (cq_Types q, cq_Setpoint q) of
        (d # ds, s # ss) \<Rightarrow>
          if cd_Type d = CT_SETPOINT then Inr ((s, d), q\<lparr>cq_Types := ds, cq_Setpoint := ss\<rparr>) else Inl AssertionFailed
      | _ \<Rightarrow> Inl AssertionFailed)"

text \<open>What is reported to an \<open>IResponseAcceptor\<close>: the acceptor, the result, the sequence number.\<close>

type_synonym CommandAnswer = "nat \<times> CommandStatus \<times> int"

definition ExecuteCommand ::
  "(Command \<Rightarrow> nat \<Rightarrow> CommandStatus) \<Rightarrow> CommandQueue \<Rightarrow> exn + CommandAnswer option \<times> CommandQueue" where
  "ExecuteCommand apHandler q =
     (case CommandQueue_Next q of
        CT_BINARY_OUTPUT \<Rightarrow>
          (case Read_Binary q of
             Inl e \<Rightarrow> Inl e
           | Inr ((b, info), q) \<Rightarrow>
             Inr (Some (cd_RspAcceptor info, apHandler (Cmd_BinaryOutput b) (cd_Index info), cd_Sequence info), q))
      | CT_SETPOINT \<Rightarrow>
          (case Read_Setpoint q of
             Inl e \<Rightarrow> Inl e
           | Inr ((s, info), q) \<Rightarrow>
             Inr (Some (cd_RspAcceptor info, apHandler (Cmd_Setpoint s) (cd_Index info), cd_Sequence info), q))
      | CT_NONE \<Rightarrow> Inr (None, q))"

definition RespondToCommand :: "CommandStatus \<Rightarrow> CommandQueue \<Rightarrow> exn + CommandAnswer option \<times> CommandQueue" where
  "RespondToCommand aStatus = ExecuteCommand (\<lambda>cmd index. aStatus)"

subsection \<open>The command objects\<close>

definition Set_Status :: "DNPObject \<Rightarrow> CommandStatus \<Rightarrow> bytes \<Rightarrow> nat \<Rightarrow> bytes" where
  "Set_Status ob s p off = the (Pack_Set (member mStatus ob) (Integer (uint (CommandStatus_value s))) p off)"

definition Get_unsigned :: "field_name \<Rightarrow> DNPObject \<Rightarrow> bytes \<Rightarrow> nat \<Rightarrow> int" where
  "Get_unsigned name ob p off = the (to_int (Pack_Get (member name ob) p off))"

definition Get_Status :: "DNPObject \<Rightarrow> bytes \<Rightarrow> nat \<Rightarrow> CommandStatus" where
  "Get_Status ob p off = ByteToCommandStatus (word_of_int (Get_unsigned mStatus ob p off))"

definition Group12Var1_Write :: "DNPObject \<Rightarrow> BinaryOutput \<Rightarrow> bytes \<Rightarrow> nat \<Rightarrow> bytes" where
  "Group12Var1_Write ob b p off =
     (let p = the (Pack_Set (member mCode ob) (Integer (uint (bo_RawCode b))) p off);
          p = the (Pack_Set (member mCount ob) (Integer (uint (bo_Count b))) p off);
          p = the (Pack_Set (member mOffTime ob) (Integer (uint (bo_OffTimeMS b))) p off);
          p = the (Pack_Set (member mOnTime ob) (Integer (uint (bo_OnTimeMS b))) p off)
      in Set_Status ob (bo_Status b) p off)"

definition Group12Var1_Read :: "DNPObject \<Rightarrow> bytes \<Rightarrow> nat \<Rightarrow> BinaryOutput" where
  "Group12Var1_Read ob p off = new_BinaryOutput\<lparr>
     bo_RawCode := word_of_int (Get_unsigned mCode ob p off),
     bo_Count := word_of_int (Get_unsigned mCount ob p off),
     bo_OffTimeMS := word_of_int (Get_unsigned mOffTime ob p off),
     bo_OnTimeMS := word_of_int (Get_unsigned mOnTime ob p off),
     bo_Status := Get_Status ob p off\<rparr>"

text \<open>The four variations of group 41: the first two hold integers, the others floating point numbers.\<close>

definition Group41_Write :: "DNPObject \<Rightarrow> Setpoint \<Rightarrow> bytes \<Rightarrow> nat \<Rightarrow> exn + bytes" where
  "Group41_Write ob s p off =
     (case (if ob_var ob \<in> {1, 2} then map_sum id Integer (GetIntValue s) else map_sum id Floating (Setpoint_GetValue s)) of
        Inl e \<Rightarrow> Inl e
      | Inr v \<Rightarrow> Inr (Set_Status ob (sp_Status s) (the (Pack_Set (member mValue ob) v p off)) off))"

definition Group41_Read :: "DNPObject \<Rightarrow> bytes \<Rightarrow> nat \<Rightarrow> Setpoint" where
  "Group41_Read ob p off =
     (let s = (case Pack_Get (member mValue ob) p off of Integer n \<Rightarrow> Setpoint_of_int n | Floating v \<Rightarrow> Setpoint_of_double v)
      in SetEncodingType
           (if ob_var ob = 1 then SPET_INT32 else if ob_var ob = 2 then SPET_INT16 else if ob_var ob = 3 then SPET_FLOAT else SPET_DOUBLE)
           (s\<lparr>sp_Status := Get_Status ob p off\<rparr>))"

definition value_length :: "DNPObject \<Rightarrow> nat" where
  "value_length ob =
     (if ob_group ob = 12 then 10 else if ob_var ob = 2 then 2 else if ob_var ob = 4 then 8 else 4)"

definition GetValueBytes :: "DNPObject \<Rightarrow> bytes \<Rightarrow> nat \<Rightarrow> bytes" where
  "GetValueBytes ob p off = take (value_length ob) (drop off p)"

definition Command_Write :: "DNPObject \<Rightarrow> Command \<Rightarrow> bytes \<Rightarrow> nat \<Rightarrow> exn + bytes" where
  "Command_Write ob cmd p off =
     (case cmd of Cmd_BinaryOutput b \<Rightarrow> Inr (Group12Var1_Write ob b p off) | Cmd_Setpoint s \<Rightarrow> Group41_Write ob s p off)"

text \<open>\<open>GetObject\<close> of the two tasks.\<close>

definition GetOptimalEncoder :: "SetpointEncodingType \<Rightarrow> exn + DNPObject" where
  "GetOptimalEncoder aType =
     (case aType of
        SPET_INT16 \<Rightarrow> Inr (the (object_Inst 41 2))
      | SPET_INT32 \<Rightarrow> Inr (the (object_Inst 41 1))
      | SPET_FLOAT \<Rightarrow> Inr (the (object_Inst 41 3))
      | SPET_DOUBLE \<Rightarrow> Inr (the (object_Inst 41 4))
      | _ \<Rightarrow> Inl ArgumentException)"

definition Task_GetObject :: "Command \<Rightarrow> exn + DNPObject" where
  "Task_GetObject cmd =
     (case cmd of
        Cmd_BinaryOutput b \<Rightarrow> Inr (the (object_Inst 12 1))
      | Cmd_Setpoint s \<Rightarrow> (case GetOptimalEncodingType s of Inl e \<Rightarrow> Inl e | Inr t \<Rightarrow> GetOptimalEncoder t))"

subsection \<open>The control tasks\<close>

text \<open>What a task of a master makes of a response.\<close>

datatype TaskResult = TR_FAIL | TR_SUCCESS | TR_CONTINUE

datatype ControlState = SELECT | OPERATE | INVALID

text \<open>\<open>mValidator\<close> is a function with its arguments bound: the object, the bytes written, the index.\<close>

record ControlTask =
  ct_State :: ControlState
  ct_Command :: "Command option"
  ct_Data :: "CommandData option"
  ct_Validator :: "(DNPObject \<times> bytes \<times> nat) option"

definition new_ControlTask :: ControlTask where
  "new_ControlTask = \<lparr>ct_State = INVALID, ct_Command = None, ct_Data = None, ct_Validator = None\<rparr>"

definition ControlTask_Set :: "Command \<Rightarrow> CommandData \<Rightarrow> bool \<Rightarrow> ControlTask \<Rightarrow> ControlTask" where
  "ControlTask_Set cmd data aIsSBO t = t\<lparr>ct_Command := Some cmd, ct_Data := Some data, ct_State := if aIsSBO then SELECT else OPERATE\<rparr>"

definition GetSelectBit :: "ControlTask \<Rightarrow> exn + bool" where
  "GetSelectBit t = (case ct_State t of SELECT \<Rightarrow> Inr True | OPERATE \<Rightarrow> Inr False | INVALID \<Rightarrow> Inl InvalidStateException)"

definition ControlTask_ConfigureRequest :: "(ControlTask \<times> APDU) handler" where
  "ControlTask_ConfigureRequest ta =
     (case ta of (t, a) \<Rightarrow>
      case (ct_Command t, ct_Data t) of (Some cmd, Some data) \<Rightarrow>
        (case Task_GetObject cmd of Inl e \<Rightarrow> (Some e, t, a) | Inr ob \<Rightarrow>
        (case GetSelectBit t of Inl e \<Rightarrow> (Some e, t, a) | Inr select \<Rightarrow>
        (case APDU_Set (if select then FC_SELECT else FC_OPERATE) True True False False 0 a of
          (Some e, a) \<Rightarrow> (Some e, t, a)
        | (None, a) \<Rightarrow>
        (case WriteIndexed_MaxIndex ob 1 (cd_Index data) a of
          (Inl e, a) \<Rightarrow> (Some e, t, a)
        | (Inr i, a) \<Rightarrow>
        (case IndexedWrite_SetIndex (cd_Index data) i (mBuffer a) of Inl e \<Rightarrow> (Some e, t, a) | Inr (i, buf) \<Rightarrow>
        (case IndexedWrite_deref i of Inl e \<Rightarrow> (Some e, t, a\<lparr>mBuffer := buf\<rparr>) | Inr p \<Rightarrow>
        (case Command_Write ob cmd buf p of Inl e \<Rightarrow> (Some e, t, a\<lparr>mBuffer := buf\<rparr>) | Inr buf \<Rightarrow>
          (None, t\<lparr>ct_Validator := Some (ob, GetValueBytes ob buf p, cd_Index data)\<rparr>, a\<lparr>mBuffer := buf\<rparr>))))))))
      | _ \<Rightarrow> (Some AssertionFailed, t, a))"

definition ValidateCommandResponse :: "DNPObject \<Rightarrow> bytes \<Rightarrow> nat \<Rightarrow> APDU \<Rightarrow> exn + CommandStatus" where
  "ValidateCommandResponse apObj arData aIndex arAPDU =
     (case APDU_BeginRead arAPDU of Inl e \<Rightarrow> Inl e | Inr hdr \<Rightarrow>
      if length (hr_headers hdr) \<noteq> 1 then Inr CS_UNDEFINED
      else case HeaderRead_info hdr of Inl e \<Rightarrow> Inl e | Inr info \<Rightarrow>
      if unat (Group (mHeaderData info)) \<noteq> ob_group apObj \<or> unat (Variation (mHeaderData info)) \<noteq> ob_var apObj
      then Inr CS_UNDEFINED
      else case HeaderRead_BeginRead (mBuffer arAPDU) hdr of Inl e \<Rightarrow> Inl e | Inr obj \<Rightarrow>
      if mHeaderCount (or_header obj) \<noteq> 1 then Inr CS_UNDEFINED
      else case ObjectRead_Index obj of Inl e \<Rightarrow> Inl e | Inr index \<Rightarrow>
      if index \<noteq> aIndex then Inr CS_UNDEFINED
      else case ObjectRead_deref obj of Inl e \<Rightarrow> Inl e | Inr p \<Rightarrow>
      if arData = GetValueBytes apObj (mBuffer arAPDU) p then Inr (Get_Status apObj (mBuffer arAPDU) p)
      else Inr CS_FORMAT_ERROR)"

definition ControlTask_answer :: "CommandStatus \<Rightarrow> ControlTask \<Rightarrow> CommandAnswer list" where
  "ControlTask_answer aStatus t = (case ct_Data t of Some d \<Rightarrow> [(cd_RspAcceptor d, aStatus, cd_Sequence d)] | None \<Rightarrow> [])"

definition ControlTask_OnFinalResponse :: "APDU \<Rightarrow> ControlTask \<Rightarrow> exn + TaskResult \<times> CommandAnswer list \<times> ControlTask" where
  "ControlTask_OnFinalResponse arAPDU t =
     (case ct_Validator t of None \<Rightarrow> Inl AssertionFailed | Some (ob, data, index) \<Rightarrow>
      case ValidateCommandResponse ob data index arAPDU of Inl e \<Rightarrow> Inl e | Inr cs \<Rightarrow>
      if ct_State t = SELECT \<and> cs = CS_SUCCESS then Inr (TR_CONTINUE, [], t\<lparr>ct_State := OPERATE\<rparr>)
      else Inr (TR_SUCCESS, ControlTask_answer cs t, t))"

section \<open>The queue is one queue\<close>

text \<open>The commands and their data in the order of their arrival: the abstraction of the three queues.\<close>

fun merged :: "CommandData list \<Rightarrow> BinaryOutput list \<Rightarrow> Setpoint list \<Rightarrow> (Command \<times> CommandData) list option" where
  "merged [] bs ss = (if bs = [] \<and> ss = [] then Some [] else None)"
| "merged (d # ds) bs ss =
     (case cd_Type d of
        CT_BINARY_OUTPUT \<Rightarrow> (case bs of [] \<Rightarrow> None | b # bs \<Rightarrow> map_option (Cons (Cmd_BinaryOutput b, d)) (merged ds bs ss))
      | CT_SETPOINT \<Rightarrow> (case ss of [] \<Rightarrow> None | s # ss \<Rightarrow> map_option (Cons (Cmd_Setpoint s, d)) (merged ds bs ss))
      | CT_NONE \<Rightarrow> None)"

definition queued :: "CommandQueue \<Rightarrow> (Command \<times> CommandData) list option" where
  "queued q = merged (cq_Types q) (cq_Binary q) (cq_Setpoint q)"

lemma queued_new: "queued new_CommandQueue = Some []"
  by (simp add: queued_def new_CommandQueue_def)

lemma merged_append:
  "merged ds bs ss = Some cs \<Longrightarrow> cd_Type d = CT_BINARY_OUTPUT \<Longrightarrow> merged (ds @ [d]) (bs @ [b]) ss = Some (cs @ [(Cmd_BinaryOutput b, d)])"
  "merged ds bs ss = Some cs \<Longrightarrow> cd_Type d = CT_SETPOINT \<Longrightarrow> merged (ds @ [d]) bs (ss @ [s]) = Some (cs @ [(Cmd_Setpoint s, d)])"
  by (induction ds bs ss arbitrary: cs rule: merged.induct)
    (fastforce split: CommandTypes.splits list.splits if_splits)+

lemma queued_accept:
  assumes "queued q = Some cs"
  shows "queued (AcceptCommand cmd index seq acceptor q) =
    Some (cs @ [(cmd, \<lparr>cd_Type = Command_GetType cmd, cd_Index = index, cd_Sequence = seq, cd_RspAcceptor = acceptor\<rparr>)])"
  using assms by (cases cmd) (auto simp: queued_def AcceptCommand_def intro!: merged_append)

lemma queued_execute:
  assumes "queued q = Some cs"
  shows "case cs of
      [] \<Rightarrow> CommandQueue_Next q = CT_NONE \<and> ExecuteCommand h q = Inr (None, q)
    | (cmd, d) # cs \<Rightarrow> CommandQueue_Next q = Command_GetType cmd \<and> cd_Type d = Command_GetType cmd \<and>
        (\<exists>q'. queued q' = Some cs \<and> ExecuteCommand h q = Inr (Some (cd_RspAcceptor d, h cmd (cd_Index d), cd_Sequence d), q') \<and>
          (\<forall>b. cmd = Cmd_BinaryOutput b \<longrightarrow> Read_Binary q = Inr ((b, d), q')) \<and>
          (\<forall>s. cmd = Cmd_Setpoint s \<longrightarrow> Read_Setpoint q = Inr ((s, d), q')))"
  using assms
  by (cases "cq_Types q")
    (auto simp: queued_def ExecuteCommand_def CommandQueue_Next_def Read_Binary_def Read_Setpoint_def
      split: CommandTypes.splits list.splits if_splits)

primrec execute_all :: "nat \<Rightarrow> (Command \<Rightarrow> nat \<Rightarrow> CommandStatus) \<Rightarrow> CommandQueue \<Rightarrow> (exn + CommandAnswer option) list" where
  "execute_all 0 h q = []"
| "execute_all (Suc n) h q =
     (case ExecuteCommand h q of Inl e \<Rightarrow> [Inl e] | Inr (r, q) \<Rightarrow> Inr r # execute_all n h q)"

lemma execute_all_queued:
  "queued q = Some cs \<Longrightarrow> execute_all (Suc (length cs)) h q =
     map (\<lambda>(cmd, d). Inr (Some (cd_RspAcceptor d, h cmd (cd_Index d), cd_Sequence d))) cs @ [Inr None]"
proof (induction cs arbitrary: q)
  case Nil
  from queued_execute [OF Nil, of h] show ?case by simp
next
  case (Cons c cs)
  obtain cmd d where c: "c = (cmd, d)" by (cases c)
  from queued_execute [OF Cons.prems, of h] obtain q' where q': "queued q' = Some cs"
    "ExecuteCommand h q = Inr (Some (cd_RspAcceptor d, h cmd (cd_Index d), cd_Sequence d), q')"
    by (auto simp: c)
  from Cons.IH [OF q'(1)] q'(2) show ?case by (simp add: c)
qed

text \<open>C13: Commands are executed in the order in which they were accepted. Although binary outputs and setpoints
  are kept in queues of their own, and their data in a third, accepting commands and then executing as many hands
  each to the handler once, in the order of the calls, with the index it was accepted with, and answers its own
  acceptor with its own sequence number; the types always match, so that no assertion fails, and when all have been
  executed there is none left.\<close>

theorem commands_in_order:
  "execute_all (Suc (length cs)) h (fold (\<lambda>(cmd, index, seq, acceptor). AcceptCommand cmd index seq acceptor) cs new_CommandQueue) =
   map (\<lambda>(cmd, index, seq, acceptor). Inr (Some (acceptor, h cmd index, seq))) cs @ [Inr None]"
proof -
  let ?data = "\<lambda>(cmd, index, seq, acceptor). (cmd,
    \<lparr>cd_Type = Command_GetType cmd, cd_Index = index, cd_Sequence = seq, cd_RspAcceptor = acceptor\<rparr>)"
  have "queued (fold (\<lambda>(cmd, index, seq, acceptor). AcceptCommand cmd index seq acceptor) cs q) = Some (ds @ map ?data cs)"
    if "queued q = Some ds" for q ds
    using that by (induction cs arbitrary: q ds) (auto simp: queued_accept)
  from execute_all_queued [OF this [OF queued_new], of h] show ?thesis by (simp add: case_prod_beta comp_def)
qed

section \<open>Encodings\<close>

lemma status_round_trip: "ByteToCommandStatus (CommandStatus_value s) = s"
  by (cases s) (simp_all add: ByteToCommandStatus_def)

text \<open>The command objects of the library.\<close>

lemma command_objects:
  "object_Inst 12 1 = Some (FixedObject 12 1 11 [(mCode, UInt8, 0), (mCount, UInt8, 1), (mOnTime, UInt32LE, 2), (mOffTime, UInt32LE, 6), (mStatus, UInt8, 10)])"
  "object_Inst 41 1 = Some (FixedObject 41 1 5 [(mValue, Int32LE, 0), (mStatus, UInt8, 4)])"
  "object_Inst 41 2 = Some (FixedObject 41 2 3 [(mValue, Int16LE, 0), (mStatus, UInt8, 2)])"
  "object_Inst 41 3 = Some (FixedObject 41 3 5 [(mValue, SingleFloat, 0), (mStatus, UInt8, 4)])"
  "object_Inst 41 4 = Some (FixedObject 41 4 9 [(mValue, DoubleFloat, 0), (mStatus, UInt8, 8)])"
  by (simp_all add: object_Inst_def DNPObjects_def object_tables object_kinds)

text \<open>A field set to an integer, and the fields beside it.\<close>

definition fits :: "pack \<Rightarrow> bytes \<Rightarrow> nat \<Rightarrow> bool" where
  "fits f p off \<longleftrightarrow> off + snd f + packer_Size (fst f) \<le> length p"

definition apart :: "pack \<Rightarrow> pack \<Rightarrow> bool" where
  "apart f g \<longleftrightarrow> snd g + packer_Size (fst g) \<le> snd f \<or> snd f + packer_Size (fst f) \<le> snd g"

lemma field_set:
  assumes "fits f p off" and "fst f = DoubleFloat \<Longrightarrow> double_ok (to_double v)" and "Pack_Set f v p off \<noteq> None"
  shows "length (the (Pack_Set f v p off)) = length p"
    and "Pack_Get f (the (Pack_Set f v p off)) off = held (fst f) v"
    and "apart f g \<Longrightarrow> fits g p off \<Longrightarrow> Pack_Get g (the (Pack_Set f v p off)) off = Pack_Get g p off"
    and "i \<notin> span f off \<Longrightarrow> the (Pack_Set f v p off) ! i = p ! i"
  using assms Pack_Set_stores [of f v p off] Pack_Get_Set_other [of f v p off] by (auto simp: fits_def apart_def)

lemma integer_set:
  assumes "fits f p off" and "fst f \<noteq> DoubleFloat"
  shows "length (the (Pack_Set f (Integer n) p off)) = length p"
    and "Pack_Get f (the (Pack_Set f (Integer n) p off)) off = held (fst f) (Integer n)"
    and "apart f g \<Longrightarrow> fits g p off \<Longrightarrow> Pack_Get g (the (Pack_Set f (Integer n) p off)) off = Pack_Get g p off"
    and "i \<notin> span f off \<Longrightarrow> the (Pack_Set f (Integer n) p off) ! i = p ! i"
  using field_set [OF assms(1), of "Integer n"] assms(2) Pack_Set_Integer [of f n p off] by auto

lemma fits_length: "length q = length p \<Longrightarrow> fits f q off = fits f p off"
  by (simp add: fits_def)

definition crob :: DNPObject where
  "crob = the (object_Inst 12 1)"

lemma crob_members:
  "member mCode crob = (UInt8, 0)" "member mCount crob = (UInt8, 1)" "member mOnTime crob = (UInt32LE, 2)"
  "member mOffTime crob = (UInt32LE, 6)" "member mStatus crob = (UInt8, 10)"
  unfolding crob_def command_objects by (simp_all add: member_def FixedObject_def)

lemma uint_mod [simp]: "uint (w :: 8 word) mod 256 = uint w" "uint (w32 :: 32 word) mod 4294967296 = uint w32"
  using uint_lt2p [of w] uint_lt2p [of w32] by simp_all

lemma binary_output_round_trip:
  assumes "off + 11 \<le> length p"
  shows "Group12Var1_Read crob (Group12Var1_Write crob b p off) off = b"
    and "length (Group12Var1_Write crob b p off) = length p"
    and "i < off \<or> off + 11 \<le> i \<Longrightarrow> Group12Var1_Write crob b p off ! i = p ! i"
proof -
  have fit: "fits (UInt8, 0) q off" "fits (UInt8, 1) q off" "fits (UInt32LE, 2) q off" "fits (UInt32LE, 6) q off"
    "fits (UInt8, 10) q off" if "length q = length p" for q
    using assms that by (simp_all add: fits_def codec_sizes)
  define p1 where "p1 = the (Pack_Set (UInt8, 0) (Integer (uint (bo_RawCode b))) p off)"
  define p2 where "p2 = the (Pack_Set (UInt8, 1) (Integer (uint (bo_Count b))) p1 off)"
  define p3 where "p3 = the (Pack_Set (UInt32LE, 6) (Integer (uint (bo_OffTimeMS b))) p2 off)"
  define p4 where "p4 = the (Pack_Set (UInt32LE, 2) (Integer (uint (bo_OnTimeMS b))) p3 off)"
  define p5 where "p5 = the (Pack_Set (UInt8, 10) (Integer (uint (CommandStatus_value (bo_Status b)))) p4 off)"
  have p5: "Group12Var1_Write crob b p off = p5"
    unfolding Group12Var1_Write_def Set_Status_def crob_members p5_def p4_def p3_def p2_def p1_def Let_def ..
  have len1: "length p1 = length p" unfolding p1_def by (rule integer_set(1) [OF fit(1)]) simp_all
  have len2: "length p2 = length p" using integer_set(1) [OF fit(2) [OF len1]] len1 by (simp add: p2_def del: Pack_Set.simps)
  have len3: "length p3 = length p" using integer_set(1) [OF fit(4) [OF len2]] len2 by (simp add: p3_def del: Pack_Set.simps)
  have len4: "length p4 = length p" using integer_set(1) [OF fit(3) [OF len3]] len3 by (simp add: p4_def del: Pack_Set.simps)
  have len5: "length p5 = length p" using integer_set(1) [OF fit(5) [OF len4]] len4 by (simp add: p5_def del: Pack_Set.simps)
  have integral: "fst (UInt8, pos) \<noteq> DoubleFloat" "fst (UInt32LE, pos) \<noteq> DoubleFloat" for pos :: nat by simp_all
  note set1 = integer_set(2,3,4) [OF fit(1) [OF refl] integral(1), where n = "uint (bo_RawCode b)", folded p1_def]
  note set2 = integer_set(2,3,4) [OF fit(2) [OF len1] integral(1), where n = "uint (bo_Count b)", folded p2_def]
  note set3 = integer_set(2,3,4) [OF fit(4) [OF len2] integral(2), where n = "uint (bo_OffTimeMS b)", folded p3_def]
  note set4 = integer_set(2,3,4) [OF fit(3) [OF len3] integral(2), where n = "uint (bo_OnTimeMS b)", folded p4_def]
  note set5 = integer_set(2,3,4) [OF fit(5) [OF len4] integral(1), where n = "uint (CommandStatus_value (bo_Status b))", folded p5_def]
  note fits = fit [OF refl] fit [OF len1] fit [OF len2] fit [OF len3] fit [OF len4]
  have get: "Pack_Get (UInt8, 10) p5 off = Integer (uint (CommandStatus_value (bo_Status b)))"
    "Pack_Get (UInt32LE, 2) p5 off = Integer (uint (bo_OnTimeMS b))"
    "Pack_Get (UInt32LE, 6) p5 off = Integer (uint (bo_OffTimeMS b))"
    "Pack_Get (UInt8, 1) p5 off = Integer (uint (bo_Count b))" "Pack_Get (UInt8, 0) p5 off = Integer (uint (bo_RawCode b))"
    by (simp_all add: set1 set2 set3 set4 set5 fits apart_def codec_sizes del: Pack_Get.simps One_nat_def)
  show "length (Group12Var1_Write crob b p off) = length p" using len5 p5 by simp
  show "Group12Var1_Read crob (Group12Var1_Write crob b p off) off = b"
    by (simp add: p5 Group12Var1_Read_def new_BinaryOutput_def Get_unsigned_def Get_Status_def crob_members get status_round_trip
        del: Pack_Get.simps One_nat_def)
  show "Group12Var1_Write crob b p off ! i = p ! i" if "i < off \<or> off + 11 \<le> i"
  proof -
    have "i \<notin> span (UInt8, 0) off" "i \<notin> span (UInt8, 1) off" "i \<notin> span (UInt32LE, 2) off" "i \<notin> span (UInt32LE, 6) off"
      "i \<notin> span (UInt8, 10) off" using that by (auto simp: span_def codec_sizes)
    then show ?thesis unfolding p5 by (simp add: set1 set2 set3 set4 set5 del: One_nat_def)
  qed
qed

text \<open>What a request keeps of a setpoint.\<close>

definition Command_Read :: "DNPObject \<Rightarrow> bytes \<Rightarrow> nat \<Rightarrow> Command" where
  "Command_Read ob p off =
     (if ob_group ob = 12 then Cmd_BinaryOutput (Group12Var1_Read ob p off) else Cmd_Setpoint (Group41_Read ob p off))"

fun setpoint_kept :: "SetpointEncodingType \<Rightarrow> double \<Rightarrow> double" where
  "setpoint_kept SPET_INT16 v = whole (signed_take_bit 15 (the (int_of_double v)))"
| "setpoint_kept SPET_INT32 v = whole (the (int_of_double v))"
| "setpoint_kept SPET_FLOAT v = float_of_double v"
| "setpoint_kept _ v = v"

fun command_kept :: "Command \<Rightarrow> Command" where
  "command_kept (Cmd_BinaryOutput b) = Cmd_BinaryOutput b"
| "command_kept (Cmd_Setpoint s) =
     (case (GetOptimalEncodingType s, sp_Value s) of
        (Inr t, Some v) \<Rightarrow> Cmd_Setpoint (s\<lparr>sp_Value := Some (setpoint_kept t v), sp_EncodingType := t\<rparr>)
      | _ \<Rightarrow> Cmd_Setpoint s)"

lemma setpoint_round_trip:
  assumes fit: "fits (k, 0) p off" "fits (UInt8, packer_Size k) p off"
    and k: "k = DoubleFloat \<Longrightarrow> double_ok (to_double v)" "Pack_Set (k, 0) v p off \<noteq> None"
    and q: "q = the (Pack_Set (UInt8, packer_Size k) (Integer (uint (CommandStatus_value st))) (the (Pack_Set (k, 0) v p off)) off)"
  shows "length q = length p" and "Pack_Get (k, 0) q off = held k v"
    and "Pack_Get (UInt8, packer_Size k) q off = Integer (uint (CommandStatus_value st))"
    and "i < off \<or> off + packer_Size k + 1 \<le> i \<Longrightarrow> q ! i = p ! i"
proof -
  define p1 where "p1 = the (Pack_Set (k, 0) v p off)"
  note set1 = field_set [of "(k, 0)", OF fit(1) _ k(2), simplified fst_conv, OF k(1), folded p1_def]
  have fit': "fits (UInt8, packer_Size k) p1 off" "fits (k, 0) p1 off" using fit set1(1) by (simp_all add: fits_def)
  have "fst (UInt8, packer_Size k) \<noteq> DoubleFloat" by simp
  note set2 = integer_set [OF fit'(1) this, where n = "uint (CommandStatus_value st)", folded p1_def, folded q [folded p1_def]]
  show "length q = length p" using set1(1) set2(1) by simp
  show "Pack_Get (k, 0) q off = held k v"
    using set1(2) set2(3) [OF _ fit'(2)] by (simp add: apart_def)
  show "Pack_Get (UInt8, packer_Size k) q off = Integer (uint (CommandStatus_value st))"
    using set2(2) by simp
  show "q ! i = p ! i" if "i < off \<or> off + packer_Size k + 1 \<le> i"
    using that set1(4) [of i] set2(4) [of i] by (auto simp: span_def codec_sizes)
qed

lemma setpoint_objects:
  "member mValue (the (object_Inst 41 1)) = (Int32LE, 0)" "member mStatus (the (object_Inst 41 1)) = (UInt8, packer_Size Int32LE)"
  "member mValue (the (object_Inst 41 2)) = (Int16LE, 0)" "member mStatus (the (object_Inst 41 2)) = (UInt8, packer_Size Int16LE)"
  "member mValue (the (object_Inst 41 3)) = (SingleFloat, 0)" "member mStatus (the (object_Inst 41 3)) = (UInt8, packer_Size SingleFloat)"
  "member mValue (the (object_Inst 41 4)) = (DoubleFloat, 0)" "member mStatus (the (object_Inst 41 4)) = (UInt8, packer_Size DoubleFloat)"
  "ob_size (the (object_Inst 41 1)) = packer_Size Int32LE + 1" "ob_size (the (object_Inst 41 2)) = packer_Size Int16LE + 1"
  "ob_size (the (object_Inst 41 3)) = packer_Size SingleFloat + 1" "ob_size (the (object_Inst 41 4)) = packer_Size DoubleFloat + 1"
  "ob_var (the (object_Inst 41 1)) = 1" "ob_var (the (object_Inst 41 2)) = 2" "ob_var (the (object_Inst 41 3)) = 3"
  "ob_var (the (object_Inst 41 4)) = 4" "ob_group (the (object_Inst 41 1)) = 41" "ob_group (the (object_Inst 41 2)) = 41"
  "ob_group (the (object_Inst 41 3)) = 41" "ob_group (the (object_Inst 41 4)) = 41"
  unfolding command_objects by (simp_all add: member_def FixedObject_def codec_sizes)

lemma setpoint_written:
  assumes stored: "Group41_Write ob s p off = Inr q" and room: "off + ob_size ob \<le> length p"
    and ob: "member mValue ob = (k, 0)" "member mStatus ob = (UInt8, packer_Size k)" "ob_size ob = packer_Size k + 1"
    and v: "(if ob_var ob \<in> {1, 2} then map_sum id Integer (GetIntValue s) else map_sum id Floating (Setpoint_GetValue s)) = Inr v"
    and k: "k = DoubleFloat \<Longrightarrow> double_ok (to_double v)" "Pack_Set (k, 0) v p off \<noteq> None"
  shows "length q = length p" and "i < off \<or> off + ob_size ob \<le> i \<Longrightarrow> q ! i = p ! i"
    and "Pack_Get (member mValue ob) q off = held k v" and "Get_Status ob q off = sp_Status s"
proof -
  have q: "q = the (Pack_Set (UInt8, packer_Size k) (Integer (uint (CommandStatus_value (sp_Status s)))) (the (Pack_Set (k, 0) v p off)) off)"
    using stored v by (simp add: Group41_Write_def Set_Status_def ob del: Pack_Set.simps)
  have fit: "fits (k, 0) p off" "fits (UInt8, packer_Size k) p off" using room ob(3) by (simp_all add: fits_def codec_sizes)
  note rt = setpoint_round_trip [OF fit k q]
  show "length q = length p" by (rule rt(1))
  show "q ! i = p ! i" if "i < off \<or> off + ob_size ob \<le> i" using that rt(4) [of i] ob(3) by simp
  show "Pack_Get (member mValue ob) q off = held k v" using rt(2) by (simp add: ob(1))
  show "Get_Status ob q off = sp_Status s"
    using rt(3) by (simp add: Get_Status_def Get_unsigned_def ob(2) status_round_trip del: Pack_Get.simps)
qed

lemma int_kept: "- (2 ^ 31) \<le> n \<Longrightarrow> n < 2 ^ 31 \<Longrightarrow> signed_take_bit 31 n = (n :: int)"
  by (rule signed_take_bit_int_eq_self) simp_all

text \<open>C14: A command survives its encoding. Writing a command into the object its task chooses for it, in a buffer
  with room for it, stores it in the bytes of that object and nowhere else, and reading the object gives the command
  back with its status: a control block unchanged, a setpoint with the value its encoding holds (the integer part for
  the integer encodings, reduced to sixteen bits in the shorter one, the nearest single precision number, or the
  value itself) and with the encoding that was chosen.\<close>

theorem command_round_trip:
  assumes ob: "Task_GetObject cmd = Inr ob" and room: "off + ob_size ob \<le> length p"
    and stored: "Command_Write ob cmd p off = Inr q"
    and ok: "\<And>s v. cmd = Cmd_Setpoint s \<Longrightarrow> sp_Value s = Some v \<Longrightarrow> double_ok v"
  shows "length q = length p \<and> (\<forall>i. i < off \<or> off + ob_size ob \<le> i \<longrightarrow> q ! i = p ! i) \<and>
    Command_Read ob q off = command_kept cmd"
proof (cases cmd)
  case (Cmd_BinaryOutput b)
  with ob have "ob = crob" by (simp add: Task_GetObject_def crob_def)
  moreover have "ob_size crob = 11" "ob_group crob = 12" unfolding crob_def command_objects by (simp_all add: FixedObject_def)
  ultimately show ?thesis
    using Cmd_BinaryOutput room stored binary_output_round_trip [where b = b and off = off and p = p] by (auto simp: Command_Write_def Command_Read_def)
next
  case (Cmd_Setpoint s)
  from ob obtain t where t: "GetOptimalEncodingType s = Inr t" "GetOptimalEncoder t = Inr ob"
    by (auto simp: Cmd_Setpoint Task_GetObject_def split: sum.splits)
  from t(1) obtain v where v: "sp_Value s = Some v" "Setpoint_GetValue s = Inr v"
    by (auto simp: GetOptimalEncodingType_def Setpoint_GetValue_def split: if_splits option.splits)
  from stored have stored': "Group41_Write ob s p off = Inr q" by (simp add: Command_Write_def Cmd_Setpoint)
  have kept: "command_kept cmd = Cmd_Setpoint (s\<lparr>sp_Value := Some (setpoint_kept t v), sp_EncodingType := t\<rparr>)"
    by (simp add: Cmd_Setpoint t(1) v)
  have int: "GetIntValue s = Inr (the (int_of_double v))" "int_of_double v \<noteq> None"
      "- (2 ^ 31) \<le> the (int_of_double v)" "the (int_of_double v) < 2 ^ 31" if "ob_var ob \<in> {1, 2}"
    using stored' that by (auto simp: Group41_Write_def GetIntValue_def v split: option.splits if_splits)
  have result: ?thesis if ob_is: "member mValue ob = (k, 0)" "member mStatus ob = (UInt8, packer_Size k)"
      "ob_size ob = packer_Size k + 1" "ob_group ob = 41"
      and val: "(if ob_var ob \<in> {1, 2} then map_sum id Integer (GetIntValue s) else map_sum id Floating (Setpoint_GetValue s)) = Inr x"
      and dbl: "k = DoubleFloat \<Longrightarrow> double_ok (to_double x)" and can: "Pack_Set (k, 0) x p off \<noteq> None"
      and read: "(case held k x of Integer n \<Rightarrow> Setpoint_of_int n | Floating w \<Rightarrow> Setpoint_of_double w)
        \<lparr>sp_Status := sp_Status s, sp_EncodingType := (if ob_var ob = 1 then SPET_INT32 else if ob_var ob = 2 then SPET_INT16
          else if ob_var ob = 3 then SPET_FLOAT else SPET_DOUBLE)\<rparr> = s\<lparr>sp_Value := Some (setpoint_kept t v), sp_EncodingType := t\<rparr>"
    for k x
  proof -
    note w = setpoint_written [OF stored' room ob_is(1-3) val dbl can]
    have "Group41_Read ob q off = s\<lparr>sp_Value := Some (setpoint_kept t v), sp_EncodingType := t\<rparr>"
      using read by (simp add: Group41_Read_def w(3,4) SetEncodingType_def)
    with w(1,2) ob_is(4) show ?thesis by (simp add: Command_Read_def kept)
  qed
  show ?thesis
  proof (cases t)
    case SPET_INT16
    with t(2) have "ob = the (object_Inst 41 2)" by (simp add: GetOptimalEncoder_def)
    note obj = setpoint_objects(3, 4, 10, 14, 18) [folded this]
    from int [unfolded obj] obj show ?thesis
      by (intro result [of Int16LE "Integer (the (int_of_double v))"])
        (simp_all add: obj SPET_INT16 Setpoint_of_int_def)
  next
    case SPET_INT32
    with t(2) have "ob = the (object_Inst 41 1)" by (simp add: GetOptimalEncoder_def)
    note obj = setpoint_objects(1, 2, 9, 13, 17) [folded this]
    from int [unfolded obj] obj show ?thesis
      by (intro result [of Int32LE "Integer (the (int_of_double v))"])
        (simp_all add: obj SPET_INT32 Setpoint_of_int_def int_kept)
  next
    case SPET_FLOAT
    with t(2) have "ob = the (object_Inst 41 3)" by (simp add: GetOptimalEncoder_def)
    note obj = setpoint_objects(5, 6, 11, 15, 19) [folded this]
    from obj show ?thesis
      by (intro result [of SingleFloat "Floating v"])
        (simp_all add: obj SPET_FLOAT Setpoint_of_double_def v)
  next
    case SPET_DOUBLE
    with t(2) have "ob = the (object_Inst 41 4)" by (simp add: GetOptimalEncoder_def)
    note obj = setpoint_objects(7, 8, 12, 16, 20) [folded this]
    from obj show ?thesis using ok [OF Cmd_Setpoint v(1)]
      by (intro result [of DoubleFloat "Floating v"])
        (simp_all add: obj SPET_DOUBLE Setpoint_of_double_def v)
  qed (use t(2) in \<open>simp_all add: GetOptimalEncoder_def\<close>)
qed

lemma command_round_trip_witness:
  "\<exists>q. Command_Write crob (Cmd_BinaryOutput (new_BinaryOutput\<lparr>bo_RawCode := 3, bo_OffTimeMS := 70000\<rparr>)) (replicate 13 7) 1 = Inr q \<and>
     q ! 0 = 7 \<and> Command_Read crob q 1 = Cmd_BinaryOutput (new_BinaryOutput\<lparr>bo_RawCode := 3, bo_OffTimeMS := 70000\<rparr>)"
proof -
  define cmd where "cmd = Cmd_BinaryOutput (new_BinaryOutput\<lparr>bo_RawCode := 3, bo_OffTimeMS := 70000\<rparr>)"
  obtain q where q: "Command_Write crob cmd (replicate 13 7) 1 = Inr q" by (simp add: Command_Write_def cmd_def)
  have "Task_GetObject cmd = Inr crob" by (simp add: Task_GetObject_def cmd_def crob_def)
  moreover have size: "ob_size crob = 11" unfolding crob_def command_objects by (simp add: FixedObject_def)
  ultimately have "\<forall>i. i < 1 \<or> 1 + ob_size crob \<le> i \<longrightarrow> q ! i = replicate 13 7 ! i" "Command_Read crob q 1 = command_kept cmd"
    using command_round_trip [of cmd crob 1 "replicate 13 7" q] q by (auto simp: cmd_def)
  with q show ?thesis by (auto simp: cmd_def)
qed

section \<open>What counts as the answer to a command\<close>

definition command_object :: "DNPObject \<Rightarrow> bool" where
  "command_object ob \<longleftrightarrow> ob_type ob = OT_FIXED \<and> ob_var ob < 16 \<and> object_Inst (ob_group ob) (ob_var ob) = Some ob \<and>
     (ob_group ob, ob_var ob) \<in> set registered_cases"

lemma GetObject_command_object: "Task_GetObject cmd = Inr ob \<Longrightarrow> command_object ob"
proof -
  assume "Task_GetObject cmd = Inr ob"
  then have "ob \<in> the ` {object_Inst 12 1, object_Inst 41 1, object_Inst 41 2, object_Inst 41 3, object_Inst 41 4}"
    by (auto simp: Task_GetObject_def GetOptimalEncoder_def split: Command.splits SetpointEncodingType.splits sum.splits)
  moreover have "command_object (the (object_Inst 12 1))" "command_object (the (object_Inst 41 1))" "command_object (the (object_Inst 41 2))"
    "command_object (the (object_Inst 41 3))" "command_object (the (object_Inst 41 4))"
    unfolding command_objects option.sel using command_objects [unfolded FixedObject_def One_nat_def]
    by (simp_all add: command_object_def FixedObject_def registered_cases_def)
  ultimately show ?thesis by blast
qed


text \<open>The answer of an outstation to a control block for index 7.\<close>

definition echo_bytes :: bytes where
  "echo_bytes = [0xC0, 0x81, 0, 0, 12, 1, 0x17, 1, 7, 3, 1, 100, 0, 0, 0, 100, 0, 0, 0, 0]"

definition echo_response :: APDU where
  "echo_response = snd (APDU_Write echo_bytes (APDU_new (replicate 20 0)))"

definition echo_header :: HeaderInfo where
  "echo_header = \<lparr>mPos = 4, mHeaderData = \<lparr>Group = 12, Variation = 1, Qualifier = QC_1B_CNT_1B_INDEX\<rparr>, mHeaderCount = 1,
     mPrefixSize = 1, mpHeader = OHT_COUNT_1_OCTET, mpObjectBase = crob\<rparr>"

lemma echo_response_fields:
  "received echo_response" "mFragmentSize echo_response = 20" "mBuffer echo_response = echo_bytes"
  "GetFunction echo_bytes = FC_RESPONSE"
  by (simp_all add: echo_response_def echo_bytes_def APDU_Write_def APDU_new_def APDU_Reset_def
      handler_simps received_def blit_def GetFunction_def IntToFunction_def)

lemma echo_response_parses:
  "Interpret echo_response = (None, echo_response\<lparr>mpAppHeader := Some AHT_RESPONSE, mObjectHeaders := [echo_header], mIsInterpreted := True\<rparr>)"
proof (rule Interpret_accepted [OF echo_response_fields(1)])
  have crob: "ob_type crob = OT_FIXED" "ob_size crob = 11" "object_Inst 12 1 = Some crob"
    unfolding crob_def command_objects by (simp_all add: FixedObject_def)
  then have "ObjectBase_Get 12 1 = Some crob" by (simp add: ObjectBase_Get_small registered_cases_def)
  with crob have "header_at echo_bytes 4 echo_header"
    by (simp add: header_at_def echo_bytes_def ObjectHeader_Get_def ByteToQualifierCode_def GetPrefixSizeAndValidate_def
        GetNumObjects_def CountHeader_GetCount_def UInt8_Read_def echo_header_def)
  then show "headers_span (HasData (GetFunction (mBuffer echo_response))) (mBuffer echo_response)
      (AppHeader_GetSize AHT_RESPONSE) [echo_header] (mFragmentSize echo_response)"
    using crob by (simp add: echo_response_fields HasData_def header_span_def data_size_of_def object_data_size_def
        echo_header_def UInt8_Size_def)
  show "ParseHeader echo_response = Inr AHT_RESPONSE"
    by (simp add: ParseHeader_def echo_response_fields IsResponse_def)
qed


end
