(* ===== verification/VirtualTerminals.thy ===== *)
theory VirtualTerminals
  imports Measurements APDUs
begin

text \<open>
  Virtual terminal objects (opendnp3/DNP3/VtoWriter, VtoReader, EnhancedVto): the queue that cuts an application's
  bytes into chunks of at most 255, the registry of channels that receives chunks, and the control messages, sent on
  channel 255, that tell the other side whether the local end of a channel is open.
\<close>

section \<open>The code\<close>

subsection \<open>Control messages\<close>

definition MAGIC_BYTES :: bytes where
  "MAGIC_BYTES = [0xAB, 0xBC, 0xCD]"

definition CreateVtoData :: "bool \<Rightarrow> byte \<Rightarrow> VtoData" where
  "CreateVtoData aLocalVtoConnectionOpened aChannelId =
     \<lparr>vto_Data = [aChannelId, if aLocalVtoConnectionOpened then 0 else 1] @ MAGIC_BYTES, vto_Type = VTODT_DATA\<rparr>"

definition ReadVtoData :: "VtoData \<Rightarrow> exn + bool \<times> byte" where
  "ReadVtoData arData =
     (if length (vto_Data arData) \<noteq> 2 + length MAGIC_BYTES then Inl (Exception ERR_DEFAULT)
      else if drop 2 (vto_Data arData) \<noteq> MAGIC_BYTES then Inl (Exception ERR_DEFAULT)
      else Inr (vto_Data arData ! 1 = 0, vto_Data arData ! 0))"

subsection \<open>The writer\<close>

text \<open>The calls on observers and on the application's callbacks are recorded.\<close>

datatype VtoWriterOut = Vw_NotifyAll | Vw_OnBufferAvailable

record VtoWriter =
  vw_MaxVtoChunks :: nat
  vw_Queue :: "VtoData EventInfo list"
  vw_Out :: "VtoWriterOut list"

definition new_VtoWriter :: "nat \<Rightarrow> VtoWriter" where
  "new_VtoWriter aMaxVtoChunks = \<lparr>vw_MaxVtoChunks = aMaxVtoChunks, vw_Queue = [], vw_Out = []\<rparr>"

definition vw_notify :: "VtoWriterOut \<Rightarrow> VtoWriter \<Rightarrow> VtoWriter" where
  "vw_notify x w = w\<lparr>vw_Out := vw_Out w @ [x]\<rparr>"

text \<open>The differences and products are of type \<open>size_t\<close>.\<close>

definition NumChunksAvailable :: "VtoWriter \<Rightarrow> nat" where
  "NumChunksAvailable w = size_sub (vw_MaxVtoChunks w) (length (vw_Queue w))"

definition NumBytesAvailable :: "VtoWriter \<Rightarrow> nat" where
  "NumBytesAvailable w = size_t (NumChunksAvailable w * vto_MAX_SIZE)"

definition QueueVtoObject :: "bytes \<Rightarrow> byte \<Rightarrow> VtoWriter handler" where
  "QueueVtoObject apData aChannelId = with_value (\<lambda>_. VtoData_of apData) (\<lambda>vto.
     modify (\<lambda>w. w\<lparr>vw_Queue := vw_Queue w @ [EventInfo_of vto PC_CLASS_1 (unat aChannelId)]\<rparr>))"

primrec queue_blocks :: "nat \<Rightarrow> bytes \<Rightarrow> byte \<Rightarrow> VtoWriter handler" where
  "queue_blocks 0 apData aChannelId = skip"
| "queue_blocks (Suc n) apData aChannelId = in_order [
     QueueVtoObject (take vto_MAX_SIZE apData) aChannelId,
     queue_blocks n (drop vto_MAX_SIZE apData) aChannelId]"

definition VtoWriter_Commit :: "bytes \<Rightarrow> byte \<Rightarrow> VtoWriter handler" where
  "VtoWriter_Commit apData aChannelId =
     (let complete = length apData div vto_MAX_SIZE; partial = length apData mod vto_MAX_SIZE in in_order [
        queue_blocks complete apData aChannelId,
        if_else (\<lambda>w. partial > 0) (QueueVtoObject (drop (complete * vto_MAX_SIZE) apData) aChannelId) skip])"

text \<open>\<open>Write\<close> takes the bytes it has room for and returns their number.\<close>

definition VtoWriter_Write :: "bytes \<Rightarrow> byte \<Rightarrow> VtoWriter \<Rightarrow> (exn + nat) \<times> VtoWriter" where
  "VtoWriter_Write apData aChannelId w =
     (let num = min (NumBytesAvailable w) (length apData) in
      case VtoWriter_Commit (take num apData) aChannelId w of
        (Some e, w) \<Rightarrow> (Inl e, w)
      | (None, w) \<Rightarrow> (Inr num, if num > 0 then vw_notify Vw_NotifyAll w else w))"

definition SetLocalVtoState :: "bool \<Rightarrow> byte \<Rightarrow> VtoWriter \<Rightarrow> VtoWriter" where
  "SetLocalVtoState aLocalVtoConnectionOpened aChannelId w = vw_notify Vw_NotifyAll
     (w\<lparr>vw_Queue := vw_Queue w @ [EventInfo_of (CreateVtoData aLocalVtoConnectionOpened aChannelId) PC_CLASS_1 255]\<rparr>)"

text \<open>\<open>Flush\<close> into an acceptor with a state of its own; it returns the number of events passed on.\<close>

primrec flush_events :: "(VtoData EventInfo \<Rightarrow> 'b handler) \<Rightarrow> nat \<Rightarrow> VtoWriter \<Rightarrow> 'b \<Rightarrow> (exn + nat) \<times> VtoWriter \<times> 'b" where
  "flush_events accept 0 w b = (Inr 0, w, b)"
| "flush_events accept (Suc n) w b =
     (case vw_Queue w of
        [] \<Rightarrow> (Inr 0, w, b)
      | evt # rest \<Rightarrow>
        (case accept evt b of
           (Some e, b) \<Rightarrow> (Inl e, w, b)
         | (None, b) \<Rightarrow>
           (case flush_events accept n (w\<lparr>vw_Queue := rest\<rparr>) b of
              (Inl e, w, b) \<Rightarrow> (Inl e, w, b)
            | (Inr numUpdates, w, b) \<Rightarrow> (Inr (numUpdates + 1), w, b))))"

definition VtoWriter_Flush :: "(VtoData EventInfo \<Rightarrow> 'b handler) \<Rightarrow> nat \<Rightarrow> VtoWriter \<Rightarrow> 'b \<Rightarrow> (exn + nat) \<times> VtoWriter \<times> 'b" where
  "VtoWriter_Flush accept aMaxEvents w b =
     (case flush_events accept aMaxEvents w b of
        (Inl e, w, b) \<Rightarrow> (Inl e, w, b)
      | (Inr numUpdates, w, b) \<Rightarrow> (Inr numUpdates, if numUpdates > 0 then vw_notify Vw_OnBufferAvailable w else w, b))"

subsection \<open>The reader\<close>

text \<open>
  The registered channels, and what their callbacks receive: the channel of the callback with the data. An enhanced
  message that is badly formed, and one for a channel nobody has registered, is logged and dropped.
\<close>

record VtoReader =
  vr_Channels :: "byte list"
  vr_Out :: "(byte \<times> VtoData) list"

definition AddVtoChannel :: "byte \<Rightarrow> VtoReader handler" where
  "AddVtoChannel aId = in_order [
     throw_if (\<lambda>r. aId \<in> set (vr_Channels r)) ArgumentException,
     modify (\<lambda>r. r\<lparr>vr_Channels := vr_Channels r @ [aId]\<rparr>)]"

definition RemoveVtoChannel :: "byte \<Rightarrow> VtoReader handler" where
  "RemoveVtoChannel aId = in_order [
     throw_if (\<lambda>r. aId \<notin> set (vr_Channels r)) ArgumentException,
     modify (\<lambda>r. r\<lparr>vr_Channels := remove1 aId (vr_Channels r)\<rparr>)]"

definition OnVtoDataReceived :: "byte \<Rightarrow> VtoData \<Rightarrow> VtoReader handler" where
  "OnVtoDataReceived channel d = if_else (\<lambda>r. channel \<in> set (vr_Channels r)) (modify (\<lambda>r. r\<lparr>vr_Out := vr_Out r @ [(channel, d)]\<rparr>)) skip"

definition UpdateEnhancedVto :: "VtoData \<Rightarrow> VtoReader handler" where
  "UpdateEnhancedVto arData =
     (case ReadVtoData arData of
        Inl e \<Rightarrow> skip
      | Inr (remoteOnline, realChannel) \<Rightarrow>
          OnVtoDataReceived realChannel (VtoData_signal (if remoteOnline then VTODT_REMOTE_OPENED else VTODT_REMOTE_CLOSED)))"

definition VtoReader_Update :: "VtoData \<Rightarrow> byte \<Rightarrow> VtoReader handler" where
  "VtoReader_Update arData aChannelId =
     (if aChannelId = 255 then UpdateEnhancedVto arData else OnVtoDataReceived aChannelId arData)"

section \<open>Control messages\<close>

lemma control_message_round_trip: "ReadVtoData (CreateVtoData opened channel) = Inr (opened, channel)"
  by (simp add: ReadVtoData_def CreateVtoData_def MAGIC_BYTES_def)

lemma control_message_received:
  "channel \<in> set (vr_Channels r) \<Longrightarrow> VtoReader_Update (CreateVtoData opened channel) 255 r =
     (None, r\<lparr>vr_Out := vr_Out r @ [(channel, VtoData_signal (if opened then VTODT_REMOTE_OPENED else VTODT_REMOTE_CLOSED))]\<rparr>)"
  by (simp add: VtoReader_Update_def UpdateEnhancedVto_def control_message_round_trip OnVtoDataReceived_def handler_simps)

section \<open>The writer's chunks\<close>

definition chunk :: "byte \<Rightarrow> bytes \<Rightarrow> VtoData EventInfo" where
  "chunk channel xs = EventInfo_of \<lparr>vto_Data = xs, vto_Type = VTODT_DATA\<rparr> PC_CLASS_1 (unat channel)"

lemma QueueVtoObject_chunk:
  "length xs \<le> vto_MAX_SIZE \<Longrightarrow> QueueVtoObject xs channel w = (None, w\<lparr>vw_Queue := vw_Queue w @ [chunk channel xs]\<rparr>)"
  by (simp add: QueueVtoObject_def VtoData_of_def handler_simps chunk_def)

lemma queue_blocks_chunks:
  assumes "n * vto_MAX_SIZE \<le> length xs"
  shows "\<exists>cs. queue_blocks n xs channel w = (None, w\<lparr>vw_Queue := vw_Queue w @ map (chunk channel) cs\<rparr>) \<and>
    concat cs = take (n * vto_MAX_SIZE) xs \<and> length cs = n \<and> (\<forall>c \<in> set cs. length c = vto_MAX_SIZE)"
  using assms
proof (induction n arbitrary: xs w)
  case 0
  then show ?case by (simp add: handler_simps)
next
  case (Suc n)
  let ?c = "take vto_MAX_SIZE xs"
  let ?w = "w\<lparr>vw_Queue := vw_Queue w @ [chunk channel ?c]\<rparr>"
  have room: "n * vto_MAX_SIZE \<le> length (drop vto_MAX_SIZE xs)" using Suc.prems by simp
  obtain cs where cs: "queue_blocks n (drop vto_MAX_SIZE xs) channel ?w = (None, ?w\<lparr>vw_Queue := vw_Queue ?w @ map (chunk channel) cs\<rparr>)"
    "concat cs = take (n * vto_MAX_SIZE) (drop vto_MAX_SIZE xs)" "length cs = n" "\<forall>c \<in> set cs. length c = vto_MAX_SIZE"
    using Suc.IH [OF room, of ?w] by blast
  have "length ?c = vto_MAX_SIZE" using Suc.prems by simp
  then show ?case using cs by (intro exI [of _ "?c # cs"]) (simp add: QueueVtoObject_chunk take_add)
qed

text \<open>C0: What the writer accepts it queues whole. A write takes the longest prefix it has room for and says how long
  that is; the prefix is appended to the queue in chunks of the given channel that join to exactly its bytes, each
  with at least one and at most 255 of them and all but the last with 255, so that none but the last wastes an
  object; what was queued before stays in front, and observers are told when anything was queued.\<close>

theorem write_queues_a_prefix:
  "\<exists>num cs. num = min (NumBytesAvailable w) (length xs) \<and>
     VtoWriter_Write xs channel w = (Inr num, w\<lparr>vw_Queue := vw_Queue w @ map (chunk channel) cs,
       vw_Out := vw_Out w @ (if num > 0 then [Vw_NotifyAll] else [])\<rparr>) \<and>
     concat cs = take num xs \<and> (\<forall>c \<in> set cs. 1 \<le> length c \<and> length c \<le> 255) \<and>
     (\<forall>c \<in> set (butlast cs). length c = 255) \<and> length cs = (num + 254) div 255"
proof -
  define num where "num = min (NumBytesAvailable w) (length xs)"
  define ys where "ys = take num xs"
  define k where "k = num div 255"
  have ys: "length ys = num" by (simp add: ys_def num_def)
  have split: "num = k * 255 + num mod 255" by (simp add: k_def)
  obtain cs where cs: "queue_blocks k ys channel w = (None, w\<lparr>vw_Queue := vw_Queue w @ map (chunk channel) cs\<rparr>)"
    "concat cs = take (k * 255) ys" "length cs = k" "\<forall>c \<in> set cs. length c = 255"
    using queue_blocks_chunks [of k ys channel w] ys split by (auto simp: vto_MAX_SIZE_def)
  define ds where "ds = cs @ (if num mod 255 > 0 then [drop (k * 255) ys] else [])"
  have last: "length (drop (k * 255) ys) = num mod 255" using ys split by simp
  have commit: "VtoWriter_Commit ys channel w = (None, w\<lparr>vw_Queue := vw_Queue w @ map (chunk channel) ds\<rparr>)"
    using cs(1) last QueueVtoObject_chunk [of "drop (k * 255) ys" channel]
    by (auto simp: VtoWriter_Commit_def Let_def ys vto_MAX_SIZE_def k_def [symmetric] handler_simps ds_def)
  have join: "concat ds = ys"
  proof (cases "num mod 255 > 0")
    case True
    then show ?thesis using cs(2) by (simp add: ds_def)
  next
    case False
    with split ys have "take (k * 255) ys = ys" by simp
    with False cs(2) show ?thesis by (simp add: ds_def)
  qed
  have sizes: "\<forall>c \<in> set ds. 1 \<le> length c \<and> length c \<le> 255" using cs(4) last by (auto simp: ds_def split: if_splits)
  have full: "\<forall>c \<in> set (butlast ds). length c = 255"
    using cs(4) by (auto simp: ds_def dest: in_set_butlastD split: if_splits)
  have number: "length ds = (num + 254) div 255"
  proof -
    have "length ds = k + (if num mod 255 > 0 then 1 else 0)" by (simp add: ds_def cs(3))
    also have "\<dots> = (k * 255 + num mod 255 + 254) div 255"
    proof (cases "num mod 255 = 0")
      case False
      then have "(k * 255 + num mod 255 + 254) div 255 = (255 * (k + 1) + (num mod 255 - 1)) div 255" by simp
      also have "\<dots> = k + 1" using mod_less_divisor [of 255 num] by (subst div_mult_self4) simp_all
      finally show ?thesis using False by simp
    qed simp
    finally show ?thesis unfolding split [symmetric] .
  qed
  have "VtoWriter_Write xs channel w = (Inr num, w\<lparr>vw_Queue := vw_Queue w @ map (chunk channel) ds,
       vw_Out := vw_Out w @ (if num > 0 then [Vw_NotifyAll] else [])\<rparr>)"
    by (simp add: VtoWriter_Write_def Let_def commit vw_notify_def flip: num_def ys_def)
  with join sizes full number show ?thesis
    by (intro exI [of _ num] exI [of _ ds]) (simp add: ys_def num_def)
qed

section \<open>The bound of the queue\<close>

text \<open>Without control messages the queue stays within its bound.\<close>

lemma write_keeps_bound:
  assumes "length (vw_Queue w) \<le> vw_MaxVtoChunks w" and "vw_MaxVtoChunks w * 255 < 2 ^ 64"
  shows "length (vw_Queue (snd (VtoWriter_Write xs channel w))) \<le> vw_MaxVtoChunks w"
proof -
  have avail: "NumBytesAvailable w = (vw_MaxVtoChunks w - length (vw_Queue w)) * 255"
  proof -
    have "NumChunksAvailable w = vw_MaxVtoChunks w - length (vw_Queue w)"
      using assms by (simp add: NumChunksAvailable_def size_sub_def nat_mod_distrib nat_diff_distrib' flip: of_nat_diff)
    moreover have "(vw_MaxVtoChunks w - length (vw_Queue w)) * 255 \<le> vw_MaxVtoChunks w * 255" by (intro mult_le_mono1) simp
    ultimately show ?thesis using assms(2) by (simp add: NumBytesAvailable_def size_t_def vto_MAX_SIZE_def)
  qed
  obtain num cs where w: "num = min (NumBytesAvailable w) (length xs)" "length cs = (num + 254) div 255"
    "VtoWriter_Write xs channel w = (Inr num, w\<lparr>vw_Queue := vw_Queue w @ map (chunk channel) cs,
       vw_Out := vw_Out w @ (if num > 0 then [Vw_NotifyAll] else [])\<rparr>)"
    using write_queues_a_prefix [of w xs channel] by blast
  have "num \<le> (vw_MaxVtoChunks w - length (vw_Queue w)) * 255" using w(1) avail by simp
  then have "(num + 254) div 255 \<le> ((vw_MaxVtoChunks w - length (vw_Queue w)) * 255 + 254) div 255" by (intro div_le_mono) simp
  also have "\<dots> = vw_MaxVtoChunks w - length (vw_Queue w)" by simp
  finally have "(num + 254) div 255 \<le> vw_MaxVtoChunks w - length (vw_Queue w)" .
  with w(2,3) assms(1) show ?thesis by simp
qed

text \<open>C37: A control message breaks the bound of the queue. \<open>SetLocalVtoState\<close> queues its message without looking for
  room; when the queue is full the number of free chunks, an unsigned difference, then wraps around to the largest
  there is, and the writer accepts every later write whole, of whatever length up to that of the address space: its
  limit is gone until the queue has been drained below it.\<close>

theorem control_message_lifts_the_bound:
  assumes "length (vw_Queue w) = vw_MaxVtoChunks w" and "vw_MaxVtoChunks w < 2 ^ 64" and "length xs < 2 ^ 64 - 255"
  shows "NumBytesAvailable w = 0 \<and> NumBytesAvailable (SetLocalVtoState opened channel w) = 2 ^ 64 - 255 \<and>
    fst (VtoWriter_Write xs channel' (SetLocalVtoState opened channel w)) = Inr (length xs)"
proof -
  let ?w = "SetLocalVtoState opened channel w"
  have "(- 1 :: int) mod 2 ^ 64 = 2 ^ 64 - 1" by simp
  then have "NumChunksAvailable ?w = 2 ^ 64 - 1"
    using assms(1) by (simp add: NumChunksAvailable_def size_sub_def SetLocalVtoState_def vw_notify_def)
  then have avail: "NumBytesAvailable ?w = 2 ^ 64 - 255" by (simp add: NumBytesAvailable_def size_t_def vto_MAX_SIZE_def)
  moreover have "NumBytesAvailable w = 0"
    using assms(1) by (simp add: NumBytesAvailable_def NumChunksAvailable_def size_sub_def size_t_def)
  moreover have "fst (VtoWriter_Write xs channel' ?w) = Inr (min (NumBytesAvailable ?w) (length xs))"
    using write_queues_a_prefix [of ?w xs channel'] by fastforce
  ultimately show ?thesis using assms(3) by simp
qed

lemma control_message_lifts_the_bound_witness:
  "NumBytesAvailable (new_VtoWriter 0) = 0 \<and>
   fst (VtoWriter_Write (replicate 600 7) 3 (SetLocalVtoState True 3 (new_VtoWriter 0))) = Inr 600"
  using control_message_lifts_the_bound [of "new_VtoWriter 0" "replicate 600 7" True 3 3]
  by (simp add: new_VtoWriter_def)

end
