(* ===== verification/AsyncTasks.thy ===== *)
theory AsyncTasks
  imports Prelude "HOL-Library.Product_Lexorder"
begin

text \<open>
  The task scheduler (opendnp3/APL/AsyncTaskBase, AsyncTaskPeriodic, AsyncTaskNonPeriodic,
  AsyncTaskContinuous, AsyncTaskGroup, TrackingTaskGroup): a group of tasks of which one runs at a time, chosen by
  dependencies, due times and priorities.

  Tasks are named by numbers, which stand for their addresses; the group keeps them in the order of its vector. The
  handler of a task is called at the very end of the functions that lead to it, so that the call is recorded in
  \<open>tg_Out\<close> and what the handler does to the group is a later event; so are the calls on the timer source. \<open>GetUTC\<close>
  is an argument \<open>now\<close> of the functions that read the clock: it does not advance during a call.
\<close>

section \<open>Points in time\<close>

text \<open>\<open>boost::posix_time::ptime\<close> with the two special values the source uses, in milliseconds.\<close>

datatype ptime = min_date_time | At int | max_date_time

instantiation ptime :: linorder
begin

fun less_eq_ptime :: "ptime \<Rightarrow> ptime \<Rightarrow> bool" where
  "less_eq_ptime min_date_time t = True"
| "less_eq_ptime (At s) min_date_time = False"
| "less_eq_ptime (At s) (At t) = (s \<le> t)"
| "less_eq_ptime (At s) max_date_time = True"
| "less_eq_ptime max_date_time t = (t = max_date_time)"

definition less_ptime :: "ptime \<Rightarrow> ptime \<Rightarrow> bool" where
  "less_ptime s t \<longleftrightarrow> s \<le> t \<and> \<not> t \<le> s"

instance
proof
  fix x y z :: ptime
  show "x < y \<longleftrightarrow> x \<le> y \<and> \<not> y \<le> x" by (simp add: less_ptime_def)
  show "x \<le> x" by (cases x) simp_all
  show "x \<le> y \<Longrightarrow> y \<le> z \<Longrightarrow> x \<le> z" by (cases x; cases y; cases z) simp_all
  show "x \<le> y \<Longrightarrow> y \<le> x \<Longrightarrow> x = y" by (cases x; cases y) simp_all
  show "x \<le> y \<or> y \<le> x" by (cases x; cases y) auto
qed

end

section \<open>The code\<close>

subsection \<open>Tasks\<close>

text \<open>The three classes of tasks, with their periods and retry delays in milliseconds.\<close>

datatype TaskKind = Periodic int int | NonPeriodic int | Continuous

record AsyncTask =
  tk_Kind :: TaskKind
  tk_IsEnabled :: bool
  tk_IsComplete :: bool
  tk_IsExpired :: bool
  tk_IsRunning :: bool
  tk_Priority :: int
  tk_NextRunTime :: ptime
  tk_Flags :: u32
  tk_Dependencies :: "nat list"

definition new_AsyncTask :: "TaskKind \<Rightarrow> int \<Rightarrow> AsyncTask" where
  "new_AsyncTask kind aPriority = \<lparr>tk_Kind = kind, tk_IsEnabled = False, tk_IsComplete = False, tk_IsExpired = False,
     tk_IsRunning = False, tk_Priority = aPriority, tk_NextRunTime = min_date_time, tk_Flags = 0, tk_Dependencies = []\<rparr>"

text \<open>All three pass \<open>min_date_time\<close> as the initial time to the base class.\<close>

definition Task_Reset :: "AsyncTask \<Rightarrow> AsyncTask" where
  "Task_Reset t = t\<lparr>tk_IsComplete := False, tk_IsExpired := False, tk_IsRunning := False, tk_NextRunTime := min_date_time\<rparr>"

definition SilentEnable :: "AsyncTask \<Rightarrow> AsyncTask" where
  "SilentEnable t = t\<lparr>tk_IsEnabled := True\<rparr>"

definition SilentDisable :: "AsyncTask \<Rightarrow> AsyncTask" where
  "SilentDisable t = (Task_Reset t)\<lparr>tk_IsEnabled := False\<rparr>"

definition UpdateTime :: "ptime \<Rightarrow> AsyncTask \<Rightarrow> AsyncTask" where
  "UpdateTime arTime t =
     (if arTime \<ge> tk_NextRunTime t then t\<lparr>tk_IsComplete := False, tk_IsExpired := True\<rparr> else t\<lparr>tk_IsExpired := False\<rparr>)"

text \<open>The virtual \<open>_OnComplete\<close> of the three classes.\<close>

definition Task_NVII_OnComplete :: "int \<Rightarrow> bool \<Rightarrow> AsyncTask \<Rightarrow> AsyncTask" where
  "Task_NVII_OnComplete now aSuccess t =
     (case tk_Kind t of
        Periodic period retry \<Rightarrow>
          if aSuccess then t\<lparr>tk_IsComplete := True, tk_NextRunTime := At (now + period)\<rparr>
          else t\<lparr>tk_NextRunTime := At (now + retry)\<rparr>
      | NonPeriodic retry \<Rightarrow>
          if aSuccess then t\<lparr>tk_IsComplete := True, tk_NextRunTime := max_date_time\<rparr>
          else t\<lparr>tk_NextRunTime := At (now + retry)\<rparr>
      | Continuous \<Rightarrow> t)"

subsection \<open>Groups\<close>

datatype GroupOut = Tg_Handler nat | Tg_StartTimer ptime | Tg_CancelTimer

record AsyncTaskGroup =
  tg_IsRunning :: bool
  tg_Shutdown :: bool
  tg_Timer :: "ptime option"
  tg_TaskVec :: "(nat \<times> AsyncTask) list"
  tg_Allocated :: nat
  tg_Out :: "GroupOut list"

definition new_AsyncTaskGroup :: AsyncTaskGroup where
  "new_AsyncTaskGroup = \<lparr>tg_IsRunning = False, tg_Shutdown = False, tg_Timer = None, tg_TaskVec = [], tg_Allocated = 0,
     tg_Out = []\<rparr>"

definition task :: "nat \<Rightarrow> AsyncTaskGroup \<Rightarrow> AsyncTask" where
  "task i g = the (map_of (tg_TaskVec g) i)"

definition on_task :: "nat \<Rightarrow> (AsyncTask \<Rightarrow> AsyncTask) \<Rightarrow> AsyncTaskGroup \<Rightarrow> AsyncTaskGroup" where
  "on_task i f g = g\<lparr>tg_TaskVec := map (\<lambda>(j, t). if j = i then (j, f t) else (j, t)) (tg_TaskVec g)\<rparr>"

definition on_all_tasks :: "(AsyncTask \<Rightarrow> AsyncTask) \<Rightarrow> AsyncTaskGroup \<Rightarrow> AsyncTaskGroup" where
  "on_all_tasks f g = g\<lparr>tg_TaskVec := map (\<lambda>(j, t). (j, f t)) (tg_TaskVec g)\<rparr>"

definition group_out :: "GroupOut \<Rightarrow> AsyncTaskGroup \<Rightarrow> AsyncTaskGroup" where
  "group_out x g = g\<lparr>tg_Out := tg_Out g @ [x]\<rparr>"

text \<open>
  \<open>IsDependency\<close>: the recursion follows the dependencies to any depth. The fuel is the number of dependencies of the
  whole group, which no path without repetitions exceeds.
\<close>

definition dependencies :: "AsyncTaskGroup \<Rightarrow> nat \<Rightarrow> nat list" where
  "dependencies g i = (case map_of (tg_TaskVec g) i of None \<Rightarrow> [] | Some t \<Rightarrow> tk_Dependencies t)"

primrec IsDependency_within :: "nat \<Rightarrow> AsyncTaskGroup \<Rightarrow> nat \<Rightarrow> nat \<Rightarrow> bool" where
  "IsDependency_within 0 g i j = False"
| "IsDependency_within (Suc n) g i j = list_ex (\<lambda>p. p = j \<or> IsDependency_within n g p j) (dependencies g i)"

definition IsDependency :: "AsyncTaskGroup \<Rightarrow> nat \<Rightarrow> nat \<Rightarrow> bool" where
  "IsDependency g i j = IsDependency_within (length (concat (map (tk_Dependencies \<circ> snd) (tg_TaskVec g)))) g i j"

definition AddDependency :: "nat \<Rightarrow> nat \<Rightarrow> AsyncTaskGroup handler" where
  "AddDependency this apTask = in_order [
     throw_if (\<lambda>g. apTask = this) ArgumentException,
     throw_if (\<lambda>g. IsDependency g apTask this) ArgumentException,
     modify (on_task this (\<lambda>t. t\<lparr>tk_Dependencies := tk_Dependencies t @ [apTask]\<rparr>))]"

definition SetFlags :: "nat \<Rightarrow> u32 \<Rightarrow> AsyncTaskGroup \<Rightarrow> AsyncTaskGroup" where
  "SetFlags i aFlags = on_task i (\<lambda>t. t\<lparr>tk_Flags := aFlags\<rparr>)"

text \<open>The comparisons of two tasks of the group.\<close>

definition Task_LessThan :: "AsyncTaskGroup \<Rightarrow> nat \<times> AsyncTask \<Rightarrow> nat \<times> AsyncTask \<Rightarrow> bool" where
  "Task_LessThan g l r =
     (if IsDependency g (fst l) (fst r) \<and> \<not> tk_IsComplete (snd r) then True
      else if IsDependency g (fst r) (fst l) \<and> \<not> tk_IsComplete (snd l) then False
      else if \<not> tk_IsEnabled (snd l) \<and> tk_IsEnabled (snd r) then True
      else if \<not> tk_IsEnabled (snd r) \<and> tk_IsEnabled (snd l) then False
      else if tk_IsExpired (snd l) then
        (if tk_IsExpired (snd r) then tk_Priority (snd l) < tk_Priority (snd r) else False)
      else if tk_IsExpired (snd r) then True
      else tk_NextRunTime (snd l) > tk_NextRunTime (snd r))"

definition LessThanGroupLevel :: "AsyncTaskGroup \<Rightarrow> nat \<times> AsyncTask \<Rightarrow> nat \<times> AsyncTask \<Rightarrow> bool" where
  "LessThanGroupLevel g l r =
     (if tk_IsRunning (snd l) then False else if tk_IsRunning (snd r) then True else Task_LessThan g l r)"

text \<open>\<open>std::max_element\<close>: the scan keeps the element it has until a greater one comes.\<close>

fun max_element :: "('a \<Rightarrow> 'a \<Rightarrow> bool) \<Rightarrow> 'a list \<Rightarrow> 'a option" where
  "max_element lt [] = None"
| "max_element lt (x # xs) = Some (foldl (\<lambda>m y. if lt m y then y else m) x xs)"

definition Group_Update :: "ptime \<Rightarrow> AsyncTaskGroup \<Rightarrow> AsyncTaskGroup" where
  "Group_Update arTime = on_all_tasks (UpdateTime arTime)"

definition GetNext :: "AsyncTaskGroup \<Rightarrow> nat option" where
  "GetNext g =
     (case max_element (LessThanGroupLevel g) (tg_TaskVec g) of
        None \<Rightarrow> None
      | Some (i, t) \<Rightarrow> if \<not> tk_IsRunning t \<and> tk_IsEnabled t then Some i else None)"

definition RestartTimer :: "ptime \<Rightarrow> AsyncTaskGroup handler" where
  "RestartTimer arTime = in_order [
     if_else (\<lambda>g. tg_Timer g \<noteq> None \<and> tg_Timer g \<noteq> Some arTime)
       (modify (\<lambda>g. group_out Tg_CancelTimer (g\<lparr>tg_Timer := None\<rparr>)))
       skip,
     if_else (\<lambda>g. tg_Timer g = None)
       (modify (\<lambda>g. group_out (Tg_StartTimer arTime) (g\<lparr>tg_Timer := Some arTime\<rparr>)))
       skip]"

definition Dispatch :: "nat \<Rightarrow> AsyncTaskGroup handler" where
  "Dispatch i = in_order [
     throw_if (\<lambda>g. tk_IsRunning (task i g)) InvalidStateException,
     throw_if (\<lambda>g. \<not> tk_IsEnabled (task i g)) InvalidStateException,
     modify (on_task i (\<lambda>t. t\<lparr>tk_IsRunning := True, tk_IsComplete := False, tk_IsExpired := False\<rparr>)),
     modify (group_out (Tg_Handler i))]"

definition CheckState :: "int \<Rightarrow> AsyncTaskGroup handler" where
  "CheckState now = if_else tg_Shutdown skip (in_order [
     modify (Group_Update (At now)),
     reading (\<lambda>g. case GetNext g of
         None \<Rightarrow> skip
       | Some i \<Rightarrow>
           if_else (\<lambda>g. tk_NextRunTime (task i g) = max_date_time) skip
             (if_else (\<lambda>g. tk_NextRunTime (task i g) \<le> At now)
               (in_order [modify (\<lambda>g. g\<lparr>tg_IsRunning := True\<rparr>), Dispatch i])
               (RestartTimer (tk_NextRunTime (task i g)))))])"

definition OnTimerExpiration :: "int \<Rightarrow> AsyncTaskGroup handler" where
  "OnTimerExpiration now = in_order [modify (\<lambda>g. g\<lparr>tg_Timer := None\<rparr>), CheckState now]"

definition OnCompletion :: "int \<Rightarrow> AsyncTaskGroup handler" where
  "OnCompletion now = in_order [
     throw_if (\<lambda>g. \<not> tg_IsRunning g) InvalidStateException,
     modify (\<lambda>g. g\<lparr>tg_IsRunning := False\<rparr>),
     CheckState now]"

text \<open>The functions of a task that reach its group.\<close>

definition Task_OnComplete :: "int \<Rightarrow> nat \<Rightarrow> bool \<Rightarrow> AsyncTaskGroup handler" where
  "Task_OnComplete now i aSuccess = in_order [
     throw_if (\<lambda>g. \<not> tk_IsRunning (task i g)) InvalidStateException,
     modify (on_task i (\<lambda>t. t\<lparr>tk_IsRunning := False\<rparr>)),
     modify (on_task i (Task_NVII_OnComplete now aSuccess)),
     OnCompletion now]"

definition Task_Enable :: "int \<Rightarrow> nat \<Rightarrow> AsyncTaskGroup handler" where
  "Task_Enable now i = in_order [modify (on_task i SilentEnable), CheckState now]"

definition Task_Disable :: "int \<Rightarrow> nat \<Rightarrow> AsyncTaskGroup handler" where
  "Task_Disable now i = in_order [modify (on_task i SilentDisable), CheckState now]"

text \<open>The functions of the group over all its tasks or those with one of the flags.\<close>

definition if_flag :: "u32 \<Rightarrow> (AsyncTask \<Rightarrow> AsyncTask) \<Rightarrow> AsyncTask \<Rightarrow> AsyncTask" where
  "if_flag aMask f t = (if tk_Flags t AND aMask \<noteq> 0 then f t else t)"

definition Group_Enable_all :: "int \<Rightarrow> AsyncTaskGroup handler" where
  "Group_Enable_all now = in_order [modify (on_all_tasks SilentEnable), CheckState now]"

definition Group_Disable_all :: "int \<Rightarrow> AsyncTaskGroup handler" where
  "Group_Disable_all now = in_order [modify (on_all_tasks SilentDisable), CheckState now]"

definition Group_Enable :: "int \<Rightarrow> u32 \<Rightarrow> AsyncTaskGroup handler" where
  "Group_Enable now aMask = in_order [modify (on_all_tasks (if_flag aMask SilentEnable)), CheckState now]"

definition Group_Disable :: "int \<Rightarrow> u32 \<Rightarrow> AsyncTaskGroup handler" where
  "Group_Disable now aMask = in_order [modify (on_all_tasks (if_flag aMask SilentDisable)), CheckState now]"

definition ResetTasks :: "u32 \<Rightarrow> AsyncTaskGroup \<Rightarrow> AsyncTaskGroup" where
  "ResetTasks aMask = on_all_tasks (\<lambda>t. if \<not> tk_IsRunning t then if_flag aMask Task_Reset t else t)"

definition add_task :: "AsyncTask \<Rightarrow> AsyncTaskGroup \<Rightarrow> AsyncTaskGroup" where
  "add_task t g = g\<lparr>tg_TaskVec := tg_TaskVec g @ [(tg_Allocated g, t)], tg_Allocated := tg_Allocated g + 1\<rparr>"

definition Group_Add :: "int \<Rightarrow> int \<Rightarrow> int \<Rightarrow> AsyncTaskGroup \<Rightarrow> AsyncTaskGroup" where
  "Group_Add aPeriod aRetryDelay aPriority =
     add_task (new_AsyncTask (if aPeriod \<ge> 0 then Periodic aPeriod aRetryDelay else NonPeriodic aRetryDelay) aPriority)"

definition Group_AddContinuous :: "int \<Rightarrow> AsyncTaskGroup \<Rightarrow> AsyncTaskGroup" where
  "Group_AddContinuous aPriority = add_task (new_AsyncTask Continuous aPriority)"

definition Group_Remove :: "nat \<Rightarrow> AsyncTaskGroup handler" where
  "Group_Remove i = in_order [
     throw_if (\<lambda>g. i \<notin> fst ` set (tg_TaskVec g)) ArgumentException,
     modify (\<lambda>g. g\<lparr>tg_TaskVec := filter (\<lambda>(j, t). j \<noteq> i) (tg_TaskVec g)\<rparr>)]"

definition Group_Shutdown :: "AsyncTaskGroup \<Rightarrow> AsyncTaskGroup" where
  "Group_Shutdown g = (if tg_Timer g \<noteq> None then group_out Tg_CancelTimer (g\<lparr>tg_Timer := None\<rparr>) else g)\<lparr>tg_Shutdown := True\<rparr>"

section \<open>Dependencies\<close>

definition edges :: "AsyncTaskGroup \<Rightarrow> (nat \<times> nat) set" where
  "edges g = {(i, j). j \<in> set (dependencies g i)}"

lemma IsDependency_within_iff: "IsDependency_within n g i j \<longleftrightarrow> (\<exists>k. 0 < k \<and> k \<le> n \<and> (i, j) \<in> edges g ^^ k)"
proof (induction n arbitrary: i)
  case (Suc n)
  have "IsDependency_within (Suc n) g i j \<longleftrightarrow> (\<exists>p. (i, p) \<in> edges g \<and> (p = j \<or> (\<exists>k. 0 < k \<and> k \<le> n \<and> (p, j) \<in> edges g ^^ k)))"
    by (auto simp: list_ex_iff edges_def Suc)
  also have "\<dots> \<longleftrightarrow> (\<exists>k. 0 < k \<and> k \<le> Suc n \<and> (i, j) \<in> edges g ^^ k)"
  proof safe
    fix p assume "(i, j) \<in> edges g"
    then show "\<exists>k. 0 < k \<and> k \<le> Suc n \<and> (i, j) \<in> edges g ^^ k" by (intro exI [of _ 1]) simp
  next
    fix p k assume "(i, p) \<in> edges g" "0 < k" "k \<le> n" "(p, j) \<in> edges g ^^ k"
    then have "(i, j) \<in> edges g ^^ Suc k" by (blast intro: relpow_Suc_I2)
    with \<open>k \<le> n\<close> show "\<exists>k. 0 < k \<and> k \<le> Suc n \<and> (i, j) \<in> edges g ^^ k" by blast
  next
    fix k assume k: "0 < k" "k \<le> Suc n" "(i, j) \<in> edges g ^^ k"
    then obtain m where m: "k = Suc m" by (cases k) auto
    with k(3) obtain p where p: "(i, p) \<in> edges g" "(p, j) \<in> edges g ^^ m" by (blast dest: relpow_Suc_D2)
    with k(2) m show "\<exists>p. (i, p) \<in> edges g \<and> (p = j \<or> (\<exists>k. 0 < k \<and> k \<le> n \<and> (p, j) \<in> edges g ^^ k))"
      by (cases "m = 0") auto
  qed
  finally show ?case .
qed auto

lemma edges_subset: "edges g \<subseteq> set (concat (map (\<lambda>(i, t). map (Pair i) (tk_Dependencies t)) (tg_TaskVec g)))"
  by (force simp: edges_def dependencies_def split: option.splits dest!: map_of_SomeD [OF sym])

lemma finite_edges: "finite (edges g)"
  using finite_subset [OF edges_subset] by blast

lemma card_edges: "card (edges g) \<le> length (concat (map (tk_Dependencies \<circ> snd) (tg_TaskVec g)))"
proof -
  have "card (edges g) \<le> length (concat (map (\<lambda>(i, t). map (Pair i) (tk_Dependencies t)) (tg_TaskVec g)))"
    using card_mono [OF _ edges_subset] card_length le_trans by blast
  also have "\<dots> = length (concat (map (tk_Dependencies \<circ> snd) (tg_TaskVec g)))"
    by (simp add: length_concat comp_def case_prod_beta)
  finally show ?thesis .
qed

text \<open>The fuel of \<open>IsDependency\<close> is enough.\<close>

lemma IsDependency_iff: "IsDependency g i j \<longleftrightarrow> (i, j) \<in> (edges g)\<^sup>+"
proof
  assume "IsDependency g i j"
  then show "(i, j) \<in> (edges g)\<^sup>+" by (auto simp: IsDependency_def IsDependency_within_iff trancl_power)
next
  assume "(i, j) \<in> (edges g)\<^sup>+"
  then have "(i, j) \<in> (\<Union>k \<in> {k. 0 < k \<and> k \<le> card (edges g)}. edges g ^^ k)"
    by (simp only: trancl_finite_eq_relpow [OF finite_edges])
  with card_edges [of g] show "IsDependency g i j"
    unfolding IsDependency_def IsDependency_within_iff by (blast intro: le_trans)
qed

section \<open>The task that runs next\<close>

lemma max_element_in: "max_element lt xs = Some m \<Longrightarrow> m \<in> set xs"
proof -
  have "foldl (\<lambda>m y. if lt m y then y else m) x xs \<in> set (x # xs)" for x xs
    by (induction xs arbitrary: x) auto
  then show "max_element lt xs = Some m \<Longrightarrow> m \<in> set xs" by (cases xs) auto
qed

text \<open>When the comparison is by a key, the result has the greatest one.\<close>

lemma max_element_key:
  fixes key :: "'a \<Rightarrow> 'k::linorder"
  assumes "\<And>x y. x \<in> set xs \<Longrightarrow> y \<in> set xs \<Longrightarrow> lt x y \<longleftrightarrow> key x < key y" and "max_element lt xs = Some m"
  shows "\<forall>x \<in> set xs. key x \<le> key m"
proof -
  have scan: "(\<And>x y. x \<in> A \<Longrightarrow> y \<in> A \<Longrightarrow> lt x y \<longleftrightarrow> key x < key y) \<Longrightarrow> set (x # ys) \<subseteq> A \<Longrightarrow>
      (\<forall>y \<in> set (x # ys). key y \<le> key (foldl (\<lambda>m y. if lt m y then y else m) x ys)) \<and>
      foldl (\<lambda>m y. if lt m y then y else m) x ys \<in> A" for x ys A
  proof (induction ys arbitrary: x)
    case (Cons y ys)
    from Cons.prems(2) have sub: "set ((if lt x y then y else x) # ys) \<subseteq> A" by auto
    have xy: "key x \<le> key (if lt x y then y else x)" "key y \<le> key (if lt x y then y else x)"
      using Cons.prems by auto
    from Cons.IH [OF Cons.prems(1) sub] have
      "\<forall>z \<in> set ((if lt x y then y else x) # ys). key z \<le> key (foldl (\<lambda>m y. if lt m y then y else m) (if lt x y then y else x) ys)"
      and "foldl (\<lambda>m y. if lt m y then y else m) (if lt x y then y else x) ys \<in> A" by blast+
    with xy show ?case using order_trans by auto
  qed auto
  from assms(2) obtain x ys where "xs = x # ys" "m = foldl (\<lambda>m y. if lt m y then y else m) x ys" by (cases xs) auto
  with scan [of "set xs" x ys] assms(1) show ?thesis by auto
qed

text \<open>A running task is the greatest whatever the others are.\<close>

lemma max_element_running:
  assumes "max_element (LessThanGroupLevel g) xs = Some m" and "x \<in> set xs" and "tk_IsRunning (snd x)"
  shows "tk_IsRunning (snd m)"
proof -
  have scan: "(\<exists>y \<in> set (x # ys). tk_IsRunning (snd y)) \<Longrightarrow>
      tk_IsRunning (snd (foldl (\<lambda>m y. if LessThanGroupLevel g m y then y else m) x ys))" for x ys
  proof (induction ys arbitrary: x)
    case (Cons y ys)
    show ?case
    proof (cases "tk_IsRunning (snd x) \<or> tk_IsRunning (snd y)")
      case True
      then have "tk_IsRunning (snd (if LessThanGroupLevel g x y then y else x))" by (auto simp: LessThanGroupLevel_def)
      then show ?thesis using Cons.IH [of "if LessThanGroupLevel g x y then y else x"] by simp
    next
      case False
      with Cons.prems have "\<exists>z \<in> set ((if LessThanGroupLevel g x y then y else x) # ys). tk_IsRunning (snd z)" by auto
      from Cons.IH [OF this] show ?thesis by simp
    qed
  qed simp
  from assms(1) obtain y ys where "xs = y # ys" "m = foldl (\<lambda>m y. if LessThanGroupLevel g m y then y else m) y ys"
    by (cases xs) auto
  with scan [of y ys] assms(2,3) show ?thesis by auto
qed

lemma GetNext_Some:
  assumes "GetNext g = Some i"
  obtains t where "(i, t) \<in> set (tg_TaskVec g)" "tk_IsEnabled t"
    "max_element (LessThanGroupLevel g) (tg_TaskVec g) = Some (i, t)"
    "\<forall>(j, u) \<in> set (tg_TaskVec g). \<not> tk_IsRunning u"
proof -
  from assms obtain t where t: "max_element (LessThanGroupLevel g) (tg_TaskVec g) = Some (i, t)" "\<not> tk_IsRunning t" "tk_IsEnabled t"
    by (auto simp: GetNext_def split: option.splits prod.splits if_splits)
  from max_element_in [OF t(1)] have "(i, t) \<in> set (tg_TaskVec g)" .
  moreover from max_element_running [OF t(1)] t(2) have "\<forall>(j, u) \<in> set (tg_TaskVec g). \<not> tk_IsRunning u" by fastforce
  ultimately show thesis using t that by blast
qed

section \<open>The invariant of a group\<close>

definition running_tasks :: "AsyncTaskGroup \<Rightarrow> (nat \<times> AsyncTask) list" where
  "running_tasks g = filter (tk_IsRunning \<circ> snd) (tg_TaskVec g)"

definition group_inv :: "AsyncTaskGroup \<Rightarrow> bool" where
  "group_inv g \<longleftrightarrow> distinct (map fst (tg_TaskVec g)) \<and> (\<forall>(i, t) \<in> set (tg_TaskVec g). i < tg_Allocated g) \<and>
     length (running_tasks g) \<le> 1 \<and> (running_tasks g \<noteq> [] \<longrightarrow> tg_IsRunning g) \<and> acyclic (edges g)"

lemma group_views_frame [simp]:
  "dependencies (g\<lparr>tg_IsRunning := b\<rparr>) = dependencies g" "edges (g\<lparr>tg_IsRunning := b\<rparr>) = edges g"
  "running_tasks (g\<lparr>tg_IsRunning := b\<rparr>) = running_tasks g"
  by (simp_all add: fun_eq_iff edges_def dependencies_def running_tasks_def)

lemma group_inv_new: "group_inv new_AsyncTaskGroup"
  by (simp add: group_inv_def new_AsyncTaskGroup_def running_tasks_def edges_def dependencies_def acyclic_def)

text \<open>Changes of tasks that start none of them and keep their dependencies.\<close>

definition calm :: "(AsyncTask \<Rightarrow> AsyncTask) \<Rightarrow> bool" where
  "calm f \<longleftrightarrow> (\<forall>t. tk_Dependencies (f t) = tk_Dependencies t \<and> (tk_IsRunning (f t) \<longrightarrow> tk_IsRunning t))"

lemma calm_changes:
  "calm SilentEnable" "calm SilentDisable" "calm (UpdateTime now)" "calm Task_Reset"
  "calm (\<lambda>t. t\<lparr>tk_IsRunning := False\<rparr>)" "calm (Task_NVII_OnComplete n b)" "calm (\<lambda>t. t\<lparr>tk_Flags := x\<rparr>)"
  "calm f \<Longrightarrow> calm (if_flag m f)" "calm f \<Longrightarrow> calm (\<lambda>t. if \<not> tk_IsRunning t then f t else t)"
  by (auto simp: calm_def SilentEnable_def SilentDisable_def UpdateTime_def Task_Reset_def Task_NVII_OnComplete_def if_flag_def
      split: TaskKind.split)

definition mapped :: "(nat \<Rightarrow> AsyncTask \<Rightarrow> AsyncTask) \<Rightarrow> AsyncTaskGroup \<Rightarrow> AsyncTaskGroup" where
  "mapped f g = g\<lparr>tg_TaskVec := map (\<lambda>(j, t). (j, f j t)) (tg_TaskVec g)\<rparr>"

lemma on_all_mapped: "on_all_tasks f g = mapped (\<lambda>j. f) g"
  by (simp add: on_all_tasks_def mapped_def)

lemma on_task_mapped: "on_task i f g = mapped (\<lambda>j. if j = i then f else id) g"
proof -
  have "(\<lambda>(j, t). if j = i then (j, f t) else (j, t)) = (\<lambda>(j, t). (j, (if j = i then f else id) t))" by auto
  then show ?thesis by (simp add: on_task_def mapped_def)
qed

lemma mapped_frame [simp]:
  "tg_IsRunning (mapped f g) = tg_IsRunning g" "tg_Shutdown (mapped f g) = tg_Shutdown g"
  "tg_Timer (mapped f g) = tg_Timer g" "tg_Out (mapped f g) = tg_Out g" "tg_Allocated (mapped f g) = tg_Allocated g"
  "map fst (tg_TaskVec (mapped f g)) = map fst (tg_TaskVec g)"
  by (simp_all add: mapped_def comp_def case_prod_beta)

lemma map_of_map_pairs: "map_of (map (\<lambda>(j, t). (j, f j t)) xs) i = map_option (f i) (map_of xs i)"
  by (induction xs) auto

lemma map_of_mapped: "map_of (tg_TaskVec (mapped f g)) i = map_option (f i) (map_of (tg_TaskVec g) i)"
  by (simp add: mapped_def map_of_map_pairs)

lemma edges_mapped:
  assumes "\<And>j t. tk_Dependencies (f j t) = tk_Dependencies t"
  shows "edges (mapped f g) = edges g"
  by (simp add: edges_def dependencies_def map_of_mapped assms split: option.split)

lemma filter_mapped_le:
  assumes "\<And>j t. tk_IsRunning (f j t) \<Longrightarrow> tk_IsRunning t"
  shows "length (running_tasks (mapped f g)) \<le> length (running_tasks g)"
proof -
  have "length (filter (tk_IsRunning \<circ> snd) (map (\<lambda>(j, t). (j, f j t)) xs)) \<le> length (filter (tk_IsRunning \<circ> snd) xs)" for xs
    using assms by (induction xs) (auto simp: le_SucI)
  then show ?thesis by (simp add: running_tasks_def mapped_def)
qed

lemma group_inv_mapped:
  assumes inv: "group_inv g" and calm: "\<And>j. calm (f j)"
  shows "group_inv (mapped f g)"
proof -
  have deps: "tk_Dependencies (f j t) = tk_Dependencies t" and run: "tk_IsRunning (f j t) \<Longrightarrow> tk_IsRunning t" for j t
    using calm by (auto simp: calm_def)
  have le: "length (running_tasks (mapped f g)) \<le> length (running_tasks g)" by (rule filter_mapped_le) (rule run)
  then have "running_tasks (mapped f g) \<noteq> [] \<Longrightarrow> running_tasks g \<noteq> []" by auto
  moreover have "\<forall>(i, t) \<in> set (tg_TaskVec (mapped f g)). i < tg_Allocated g" using inv by (auto simp: group_inv_def mapped_def)
  moreover have "distinct (map fst (tg_TaskVec (mapped f g)))" using inv unfolding mapped_frame group_inv_def by blast
  moreover have "length (running_tasks (mapped f g)) \<le> 1" using le inv by (simp add: group_inv_def)
  ultimately show ?thesis using inv by (simp add: group_inv_def edges_mapped [OF deps])
qed

lemma group_inv_on_task: "group_inv g \<Longrightarrow> calm f \<Longrightarrow> group_inv (on_task i f g)"
  unfolding on_task_mapped by (rule group_inv_mapped) (auto simp: calm_def)

lemma group_inv_on_all: "group_inv g \<Longrightarrow> calm f \<Longrightarrow> group_inv (on_all_tasks f g)"
  unfolding on_all_mapped by (rule group_inv_mapped)

lemma group_inv_cong:
  "tg_TaskVec g' = tg_TaskVec g \<Longrightarrow> tg_Allocated g' = tg_Allocated g \<Longrightarrow> (tg_IsRunning g \<longrightarrow> tg_IsRunning g') \<Longrightarrow>
   group_inv g \<Longrightarrow> group_inv g'"
  by (auto simp: group_inv_def running_tasks_def edges_def dependencies_def)

lemma task_in: "group_inv g \<Longrightarrow> (i, t) \<in> set (tg_TaskVec g) \<Longrightarrow> task i g = t"
  by (simp add: task_def group_inv_def)

text \<open>Starting a task when none is running.\<close>

lemma Group_Dispatch_runs:
  assumes inv: "group_inv g" and t: "(i, t) \<in> set (tg_TaskVec g)" "tk_IsEnabled t"
    and idle: "running_tasks g = []" and "tg_IsRunning g"
  shows "Dispatch i g =
      (None, group_out (Tg_Handler i) (on_task i (\<lambda>t. t\<lparr>tk_IsRunning := True, tk_IsComplete := False, tk_IsExpired := False\<rparr>) g))"
    and "group_inv (snd (Dispatch i g))"
proof -
  have "\<not> tk_IsRunning t" using idle t(1) by (auto simp: running_tasks_def filter_empty_conv)
  with task_in [OF inv t(1)] t(2) show runs: "Dispatch i g =
      (None, group_out (Tg_Handler i) (on_task i (\<lambda>t. t\<lparr>tk_IsRunning := True, tk_IsComplete := False, tk_IsExpired := False\<rparr>) g))"
    by (simp add: Dispatch_def handler_simps)
  let ?f = "\<lambda>j. if j = i then (\<lambda>t. t\<lparr>tk_IsRunning := True, tk_IsComplete := False, tk_IsExpired := False\<rparr>) else id"
  have one: "length (filter (tk_IsRunning \<circ> snd) (map (\<lambda>(j, t). (j, ?f j t)) xs)) \<le> 1"
    if "filter (tk_IsRunning \<circ> snd) xs = []" "distinct (map fst xs)" for xs
    using that
  proof (induction xs)
    case (Cons x xs)
    show ?case
    proof (cases "fst x = i")
      case True
      with Cons.prems(2) have "i \<notin> fst ` set xs" by auto
      then have same: "map (\<lambda>(j, t). (j, ?f j t)) xs = xs" by (induction xs) auto
      have "length (filter (tk_IsRunning \<circ> snd) (y # xs)) \<le> 1" for y
        using Cons.prems(1) by (simp add: comp_def split: if_splits)
      then show ?thesis unfolding list.map same .
    next
      case False
      with Cons show ?thesis by (auto simp: case_prod_beta split: if_splits)
    qed
  qed simp
  have "length (running_tasks (mapped ?f g)) \<le> 1"
    using one [of "tg_TaskVec g"] idle inv by (simp add: running_tasks_def mapped_def group_inv_def)
  moreover have "edges (mapped ?f g) = edges g" by (rule edges_mapped) auto
  moreover have "\<forall>(i, t) \<in> set (tg_TaskVec (mapped ?f g)). i < tg_Allocated g" using inv by (auto simp: group_inv_def mapped_def)
  moreover have "distinct (map fst (tg_TaskVec (mapped ?f g)))" using inv unfolding mapped_frame group_inv_def by blast
  ultimately have "group_inv (mapped ?f g)" using inv \<open>tg_IsRunning g\<close> by (simp add: group_inv_def)
  then show "group_inv (snd (Dispatch i g))"
    unfolding runs on_task_mapped by (rule group_inv_cong [rotated 3]) (simp_all add: group_out_def)
qed

lemma RestartTimer_inv: "group_inv g \<Longrightarrow> group_inv (snd (RestartTimer t g)) \<and> fst (RestartTimer t g) = None"
  by (auto simp: RestartTimer_def handler_simps group_out_def intro: group_inv_cong [rotated 3])

text \<open>\<open>CheckState\<close>: what it does, by the task it finds.\<close>

definition checked :: "int \<Rightarrow> AsyncTaskGroup \<Rightarrow> AsyncTaskGroup" where
  "checked now g = Group_Update (At now) g"

lemma checked_inv: "group_inv g \<Longrightarrow> group_inv (checked now g)"
  by (simp add: checked_def Group_Update_def group_inv_on_all calm_changes)

lemma CheckState_runs:
  assumes "\<not> tg_Shutdown g"
  shows "CheckState now g =
    (case GetNext (checked now g) of
       None \<Rightarrow> (None, checked now g)
     | Some i \<Rightarrow>
         if tk_NextRunTime (task i (checked now g)) = max_date_time then (None, checked now g)
         else if tk_NextRunTime (task i (checked now g)) \<le> At now then Dispatch i ((checked now g)\<lparr>tg_IsRunning := True\<rparr>)
         else RestartTimer (tk_NextRunTime (task i (checked now g))) (checked now g))"
  using assms by (simp add: CheckState_def handler_simps checked_def split: option.split)

lemma CheckState_inv:
  assumes inv: "group_inv g"
  shows "fst (CheckState now g) = None \<and> group_inv (snd (CheckState now g))"
proof (cases "tg_Shutdown g")
  case True
  with inv show ?thesis by (simp add: CheckState_def handler_simps)
next
  case False
  let ?g = "checked now g"
  from inv have inv': "group_inv ?g" by (rule checked_inv)
  show ?thesis
  proof (cases "GetNext ?g")
    case None
    with False inv' show ?thesis by (simp add: CheckState_runs)
  next
    case (Some i)
    from GetNext_Some [OF Some] obtain t where t: "(i, t) \<in> set (tg_TaskVec ?g)" "tk_IsEnabled t"
      "\<forall>(j, u) \<in> set (tg_TaskVec ?g). \<not> tk_IsRunning u" by blast
    let ?h = "?g\<lparr>tg_IsRunning := True\<rparr>"
    from t(3) have "running_tasks ?h = []" by (auto simp: running_tasks_def filter_empty_conv)
    moreover have "group_inv ?h" using inv' by (rule group_inv_cong [rotated 3]) simp_all
    ultimately have "fst (Dispatch i ?h) = None \<and> group_inv (snd (Dispatch i ?h))"
      using Group_Dispatch_runs [of ?h i t] t(1,2) by simp
    with False Some inv' RestartTimer_inv [OF inv'] show ?thesis by (simp add: CheckState_runs)
  qed
qed

section \<open>A group over its life\<close>

datatype GroupEvent =
    GE_Add int int int
  | GE_AddContinuous int
  | GE_AddDependency nat nat
  | GE_SetFlags nat u32
  | GE_Enable int nat
  | GE_Disable int nat
  | GE_SilentEnable nat
  | GE_SilentDisable nat
  | GE_OnComplete int nat bool
  | GE_EnableAll int
  | GE_DisableAll int
  | GE_EnableMask int u32
  | GE_DisableMask int u32
  | GE_ResetTasks u32
  | GE_CheckState int
  | GE_OnTimerExpiration int
  | GE_Remove nat
  | GE_Shutdown

fun handle_group :: "GroupEvent \<Rightarrow> AsyncTaskGroup handler" where
  "handle_group (GE_Add p r q) = modify (Group_Add p r q)"
| "handle_group (GE_AddContinuous q) = modify (Group_AddContinuous q)"
| "handle_group (GE_AddDependency i j) = AddDependency i j"
| "handle_group (GE_SetFlags i m) = modify (SetFlags i m)"
| "handle_group (GE_Enable now i) = Task_Enable now i"
| "handle_group (GE_Disable now i) = Task_Disable now i"
| "handle_group (GE_SilentEnable i) = modify (on_task i SilentEnable)"
| "handle_group (GE_SilentDisable i) = modify (on_task i SilentDisable)"
| "handle_group (GE_OnComplete now i b) = Task_OnComplete now i b"
| "handle_group (GE_EnableAll now) = Group_Enable_all now"
| "handle_group (GE_DisableAll now) = Group_Disable_all now"
| "handle_group (GE_EnableMask now m) = Group_Enable now m"
| "handle_group (GE_DisableMask now m) = Group_Disable now m"
| "handle_group (GE_ResetTasks m) = modify (ResetTasks m)"
| "handle_group (GE_CheckState now) = CheckState now"
| "handle_group (GE_OnTimerExpiration now) = OnTimerExpiration now"
| "handle_group (GE_Remove i) = Group_Remove i"
| "handle_group GE_Shutdown = modify Group_Shutdown"

text \<open>
  The users of a group name tasks it has, complete a task that is running, and remove one no other depends on (the
  others would keep a dangling pointer); the timer fires when it was started.
\<close>

definition has_task :: "AsyncTaskGroup \<Rightarrow> nat \<Rightarrow> bool" where
  "has_task g i \<longleftrightarrow> i \<in> fst ` set (tg_TaskVec g)"

fun group_possible :: "AsyncTaskGroup \<Rightarrow> GroupEvent \<Rightarrow> bool" where
  "group_possible g (GE_AddDependency i j) = (has_task g i \<and> has_task g j)"
| "group_possible g (GE_SetFlags i m) = has_task g i"
| "group_possible g (GE_Enable now i) = has_task g i"
| "group_possible g (GE_Disable now i) = has_task g i"
| "group_possible g (GE_SilentEnable i) = has_task g i"
| "group_possible g (GE_SilentDisable i) = has_task g i"
| "group_possible g (GE_OnComplete now i b) = (has_task g i \<and> tk_IsRunning (task i g))"
| "group_possible g (GE_OnTimerExpiration now) = (tg_Timer g \<noteq> None)"
| "group_possible g (GE_Remove i) = (has_task g i \<and> (\<forall>(j, t) \<in> set (tg_TaskVec g). i \<notin> set (tk_Dependencies t)))"
| "group_possible g e = True"

lemma group_inv_Add: "group_inv g \<Longrightarrow> tk_Dependencies t = [] \<Longrightarrow> \<not> tk_IsRunning t \<Longrightarrow> group_inv (add_task t g)"
proof -
  assume inv: "group_inv g" and t: "tk_Dependencies t = []" "\<not> tk_IsRunning t"
  have "dependencies (add_task t g) k = dependencies g k" for k
    using t(1) by (simp add: dependencies_def add_task_def map_add_def split: option.split)
  then have "edges (add_task t g) = edges g" by (simp add: edges_def)
  with inv t show ?thesis
    by (force simp: group_inv_def add_task_def running_tasks_def)
qed

lemma group_inv_Remove: "group_inv g \<Longrightarrow> group_inv (g\<lparr>tg_TaskVec := filter (\<lambda>(j, t). j \<noteq> i) (tg_TaskVec g)\<rparr>)"
proof -
  let ?g = "g\<lparr>tg_TaskVec := filter (\<lambda>(j, t). j \<noteq> i) (tg_TaskVec g)\<rparr>"
  assume inv: "group_inv g"
  have only: "map_of (filter (\<lambda>(j, t). j \<noteq> i) xs) k = (if k = i then None else map_of xs k)" for xs k
    by (induction xs) auto
  have "dependencies ?g k = (if k = i then [] else dependencies g k)" for k by (simp add: dependencies_def only)
  then have "edges ?g \<subseteq> edges g" by (auto simp: edges_def split: if_splits)
  then have "acyclic (edges ?g)" using inv acyclic_subset by (auto simp: group_inv_def)
  moreover have "running_tasks ?g = filter (\<lambda>(j, t). j \<noteq> i) (running_tasks g)"
    by (simp add: running_tasks_def conj_commute)
  moreover have "length (filter (\<lambda>(j, t). j \<noteq> i) (running_tasks g)) \<le> 1"
    using inv length_filter_le le_trans unfolding group_inv_def by blast
  ultimately show "group_inv ?g"
    using inv by (auto simp: group_inv_def distinct_map_filter)
qed

lemma AddDependency_inv:
  assumes inv: "group_inv g" and has: "has_task g i"
  shows "group_inv (snd (AddDependency i j g))" and "fst (AddDependency i j g) \<noteq> Some InvalidStateException"
proof -
  let ?g = "on_task i (\<lambda>t. t\<lparr>tk_Dependencies := tk_Dependencies t @ [j]\<rparr>) g"
  let ?f = "\<lambda>k. if k = i then (\<lambda>t. t\<lparr>tk_Dependencies := tk_Dependencies t @ [j]\<rparr>) else id"
  show "group_inv (snd (AddDependency i j g))"
  proof (cases "j = i \<or> IsDependency g j i")
    case True
    with inv show ?thesis by (auto simp: AddDependency_def handler_simps)
  next
    case False
    have "edges ?g \<subseteq> insert (i, j) (edges g)"
      by (auto simp: on_task_mapped edges_def dependencies_def map_of_mapped split: option.splits if_splits)
    moreover have "(j, i) \<notin> (edges g)\<^sup>*" using False by (auto simp: IsDependency_iff rtrancl_eq_or_trancl)
    then have "acyclic (insert (i, j) (edges g))" using inv by (simp add: group_inv_def acyclic_insert)
    ultimately have "acyclic (edges ?g)" by (rule acyclic_subset [rotated])
    moreover have "length (running_tasks ?g) \<le> length (running_tasks g)"
      unfolding on_task_mapped by (rule filter_mapped_le) (auto split: if_splits)
    moreover have "map fst (tg_TaskVec ?g) = map fst (tg_TaskVec g)" "tg_IsRunning ?g = tg_IsRunning g"
      "tg_Allocated ?g = tg_Allocated g" by (simp_all add: on_task_mapped)
    moreover have "\<forall>(k, t) \<in> set (tg_TaskVec ?g). k < tg_Allocated g"
      using inv by (auto simp: group_inv_def on_task_def split: if_splits)
    ultimately have "group_inv ?g" using inv by (auto simp: group_inv_def)
    with False show ?thesis by (simp add: AddDependency_def handler_simps)
  qed
  show "fst (AddDependency i j g) \<noteq> Some InvalidStateException"
    by (simp add: AddDependency_def handler_simps)
qed

lemma group_inv_frame:
  "group_inv g \<Longrightarrow> group_inv (Group_Shutdown g)" "group_inv g \<Longrightarrow> group_inv (g\<lparr>tg_Timer := x\<rparr>)"
  by (auto simp: Group_Shutdown_def group_out_def intro: group_inv_cong [rotated 3])

text \<open>A task that ends leaves none running, so that the group may go idle.\<close>

lemma running_mapped_stop:
  assumes inv: "group_inv g" and i: "tk_IsRunning (task i g)" "has_task g i"
  shows "running_tasks (on_task i (\<lambda>t. t\<lparr>tk_IsRunning := False\<rparr>) g) = []" and "tg_IsRunning g"
proof -
  from i(2) obtain t where t: "(i, t) \<in> set (tg_TaskVec g)" by (auto simp: has_task_def)
  with task_in [OF inv t] i(1) have mem: "(i, t) \<in> set (running_tasks g)" by (simp add: running_tasks_def)
  with inv show "tg_IsRunning g" by (auto simp: group_inv_def)
  from mem inv have one: "running_tasks g = [(i, t)]"
    by (cases "running_tasks g") (auto simp: group_inv_def)
  have stop: "filter (tk_IsRunning \<circ> snd) (map (\<lambda>(j, t). if j = i then (j, t\<lparr>tk_IsRunning := False\<rparr>) else (j, t)) xs) = []"
    if "set (filter (tk_IsRunning \<circ> snd) xs) \<subseteq> {(i, t)}" for xs
    using that by (induction xs) (auto split: if_splits)
  have "set (filter (tk_IsRunning \<circ> snd) (tg_TaskVec g)) \<subseteq> {(i, t)}" using one by (simp add: running_tasks_def del: set_filter)
  from stop [OF this] show "running_tasks (on_task i (\<lambda>t. t\<lparr>tk_IsRunning := False\<rparr>) g) = []"
    by (simp add: running_tasks_def on_task_def)
qed

lemma running_tasks_nil_mapped: "running_tasks g = [] \<Longrightarrow> calm f \<Longrightarrow> running_tasks (on_task i f g) = []"
proof -
  assume nil: "running_tasks g = []" and "calm f"
  have "length (running_tasks (on_task i f g)) \<le> length (running_tasks g)"
    unfolding on_task_mapped using \<open>calm f\<close> by (intro filter_mapped_le) (auto simp: calm_def split: if_splits)
  with nil show ?thesis by simp
qed

lemma Task_OnComplete_runs:
  assumes inv: "group_inv g" and i: "tk_IsRunning (task i g)" "has_task g i"
  shows "Task_OnComplete now i b g =
      CheckState now ((on_task i (Task_NVII_OnComplete now b) (on_task i (\<lambda>t. t\<lparr>tk_IsRunning := False\<rparr>) g))\<lparr>tg_IsRunning := False\<rparr>)"
    and "group_inv ((on_task i (Task_NVII_OnComplete now b) (on_task i (\<lambda>t. t\<lparr>tk_IsRunning := False\<rparr>) g))\<lparr>tg_IsRunning := False\<rparr>)"
proof -
  let ?g = "on_task i (Task_NVII_OnComplete now b) (on_task i (\<lambda>t. t\<lparr>tk_IsRunning := False\<rparr>) g)"
  have "tg_IsRunning ?g" using running_mapped_stop(2) [OF inv i] by (simp add: on_task_mapped)
  with i(1) show "Task_OnComplete now i b g = CheckState now (?g\<lparr>tg_IsRunning := False\<rparr>)"
    by (simp add: Task_OnComplete_def OnCompletion_def handler_simps)
  have "running_tasks ?g = []"
    by (rule running_tasks_nil_mapped [OF running_mapped_stop(1) [OF inv i]]) (rule calm_changes)
  moreover have "group_inv ?g" by (intro group_inv_on_task inv calm_changes)
  ultimately show "group_inv (?g\<lparr>tg_IsRunning := False\<rparr>)" by (simp add: group_inv_def)
qed

lemma handle_group_inv:
  assumes inv: "group_inv g" and possible: "group_possible g e"
  shows "group_inv (snd (handle_group e g)) \<and> fst (handle_group e g) \<noteq> Some InvalidStateException"
proof -
  have check: "group_inv (snd (CheckState now g')) \<and> fst (CheckState now g') \<noteq> Some InvalidStateException"
    if "group_inv g'" for now g'
    using CheckState_inv [OF that] by simp
  note calm = calm_changes group_inv_on_task [OF inv] group_inv_on_all [OF inv]
  show ?thesis
  proof (cases e)
    case (GE_AddDependency i j)
    with possible AddDependency_inv [OF inv] show ?thesis by simp
  next
    case (GE_OnComplete now i b)
    with possible Task_OnComplete_runs [OF inv, of i now b] check show ?thesis by simp
  next
    case (GE_Remove i)
    with possible group_inv_Remove [OF inv] show ?thesis by (simp add: Group_Remove_def handler_simps has_task_def)
  qed (use inv check in \<open>simp_all add: handler_simps calm group_inv_Add group_inv_frame SetFlags_def ResetTasks_def
    Group_Add_def Group_AddContinuous_def new_AsyncTask_def Task_Enable_def Task_Disable_def Group_Enable_all_def
    Group_Disable_all_def Group_Enable_def Group_Disable_def OnTimerExpiration_def\<close>)
qed

interpretation task_group: event_machine handle_group group_possible "\<lambda>g. g = new_AsyncTaskGroup" group_inv
  by unfold_locales (use group_inv_new handle_group_inv in auto)



section \<open>Priorities\<close>

text \<open>The order in which tasks are chosen when no dependency interferes.\<close>

fun later_first :: "ptime \<Rightarrow> ptime" where
  "later_first min_date_time = max_date_time"
| "later_first (At t) = At (- t)"
| "later_first max_date_time = min_date_time"

lemma later_first_less [simp]: "later_first s < later_first t \<longleftrightarrow> t < s"
  by (cases s; cases t) (auto simp: less_ptime_def)

lemma later_first_le [simp]: "later_first s \<le> later_first t \<longleftrightarrow> t \<le> s"
  by (cases s; cases t) auto

definition urgency :: "nat \<times> AsyncTask \<Rightarrow> bool \<times> bool \<times> int \<times> ptime" where
  "urgency x = (tk_IsEnabled (snd x), tk_IsExpired (snd x), (if tk_IsExpired (snd x) then tk_Priority (snd x) else 0),
     (if tk_IsExpired (snd x) then min_date_time else later_first (tk_NextRunTime (snd x))))"

definition due :: "int \<Rightarrow> AsyncTask \<Rightarrow> bool" where
  "due now t \<longleftrightarrow> tk_NextRunTime t \<le> At now"

text \<open>Nobody waits: every task that another one depends on has completed and is not due again.\<close>

definition nobody_waits :: "int \<Rightarrow> AsyncTaskGroup \<Rightarrow> bool" where
  "nobody_waits now g \<longleftrightarrow> (\<forall>(i, t) \<in> set (tg_TaskVec g). \<forall>(j, u) \<in> set (tg_TaskVec g).
     IsDependency g i j \<longrightarrow> tk_IsComplete u \<and> \<not> due now u)"

lemma set_checked: "set (tg_TaskVec (checked now g)) = (\<lambda>(i, t). (i, UpdateTime (At now) t)) ` set (tg_TaskVec g)"
  by (simp add: checked_def Group_Update_def on_all_tasks_def)

lemma UpdateTime_views [simp]:
  "tk_IsEnabled (UpdateTime (At now) t) = tk_IsEnabled t" "tk_Priority (UpdateTime (At now) t) = tk_Priority t"
  "tk_NextRunTime (UpdateTime (At now) t) = tk_NextRunTime t" "tk_IsRunning (UpdateTime (At now) t) = tk_IsRunning t"
  "tk_IsExpired (UpdateTime (At now) t) = due now t" "tk_Dependencies (UpdateTime (At now) t) = tk_Dependencies t"
  "tk_IsComplete (UpdateTime (At now) t) = (tk_IsComplete t \<and> \<not> due now t)"
  by (auto simp: UpdateTime_def due_def)

lemma checked_edges: "edges (checked now g) = edges g"
  unfolding checked_def Group_Update_def on_all_mapped by (rule edges_mapped) simp

lemma running_checked: "running_tasks g = [] \<Longrightarrow> running_tasks (checked now g) = []"
  by (auto simp: running_tasks_def filter_empty_conv set_checked)

lemma compared_by_urgency:
  assumes "running_tasks g = []" and "nobody_waits now g"
    and x: "x \<in> set (tg_TaskVec (checked now g))" and y: "y \<in> set (tg_TaskVec (checked now g))"
  shows "LessThanGroupLevel (checked now g) x y \<longleftrightarrow> urgency x < urgency y"
proof -
  have free: "\<not> (IsDependency (checked now g) (fst a) (fst b) \<and> \<not> tk_IsComplete (snd b))"
    if "a \<in> set (tg_TaskVec (checked now g))" "b \<in> set (tg_TaskVec (checked now g))" for a b
    using assms(2) that unfolding IsDependency_iff checked_edges
    by (fastforce simp: nobody_waits_def set_checked IsDependency_iff)
  have "\<not> tk_IsRunning (snd x)" "\<not> tk_IsRunning (snd y)"
    using running_checked [OF assms(1), of now] x y by (auto simp: running_tasks_def filter_empty_conv)
  with free [OF x y] free [OF y x] show ?thesis
    by (auto simp: LessThanGroupLevel_def Task_LessThan_def urgency_def)
qed

lemma most_urgent:
  assumes "running_tasks g = []" and "nobody_waits now g" and "tg_TaskVec g \<noteq> []"
  obtains i t where "(i, t) \<in> set (tg_TaskVec g)"
    "max_element (LessThanGroupLevel (checked now g)) (tg_TaskVec (checked now g)) = Some (i, UpdateTime (At now) t)"
    "\<forall>(j, u) \<in> set (tg_TaskVec g). urgency (j, UpdateTime (At now) u) \<le> urgency (i, UpdateTime (At now) t)"
proof -
  from assms(3) have "tg_TaskVec (checked now g) \<noteq> []" by (simp add: checked_def Group_Update_def on_all_tasks_def)
  then obtain m where m: "max_element (LessThanGroupLevel (checked now g)) (tg_TaskVec (checked now g)) = Some m"
    by (cases "tg_TaskVec (checked now g)") auto
  from max_element_in [OF m] obtain i t where it: "m = (i, UpdateTime (At now) t)" "(i, t) \<in> set (tg_TaskVec g)"
    by (auto simp: set_checked)
  have "\<forall>x \<in> set (tg_TaskVec (checked now g)). urgency x \<le> urgency m"
    by (rule max_element_key [OF _ m]) (rule compared_by_urgency [OF assms(1,2)])
  then have "\<forall>(j, u) \<in> set (tg_TaskVec g). urgency (j, UpdateTime (At now) u) \<le> urgency (i, UpdateTime (At now) t)"
    unfolding it(1) set_checked by (auto simp: image_iff)
  with it m that show thesis by blast
qed

text \<open>C10: Among the tasks that may run, the one of the highest priority is started. When no task runs and no task waits
  for one it depends on, and some enabled task is due, then \<open>CheckState\<close> marks an enabled, due task as running, calls its
  handler and nothing else, and no enabled, due task has a higher priority. (The comments of the task classes say that
  lower is higher: the code prefers the greater number.)\<close>

theorem highest_priority_runs:
  assumes inv: "group_inv g" and open': "\<not> tg_Shutdown g" and idle: "running_tasks g = []" and free: "nobody_waits now g"
    and some: "(k, v) \<in> set (tg_TaskVec g)" "tk_IsEnabled v" "due now v"
  shows "\<exists>i t. (i, t) \<in> set (tg_TaskVec g) \<and> tk_IsEnabled t \<and> due now t \<and>
    (\<forall>(j, u) \<in> set (tg_TaskVec g). tk_IsEnabled u \<and> due now u \<longrightarrow> tk_Priority u \<le> tk_Priority t) \<and>
    fst (CheckState now g) = None \<and> tg_Out (snd (CheckState now g)) = tg_Out g @ [Tg_Handler i] \<and>
    tk_IsRunning (task i (snd (CheckState now g)))"
proof -
  from some(1) have "tg_TaskVec g \<noteq> []" by auto
  from most_urgent [OF idle free this] obtain i t where t: "(i, t) \<in> set (tg_TaskVec g)"
    and max: "max_element (LessThanGroupLevel (checked now g)) (tg_TaskVec (checked now g)) = Some (i, UpdateTime (At now) t)"
    and top: "\<forall>(j, u) \<in> set (tg_TaskVec g). urgency (j, UpdateTime (At now) u) \<le> urgency (i, UpdateTime (At now) t)" .
  from top some have "tk_IsEnabled t \<and> due now t" by (fastforce simp: urgency_def)
  then have en: "tk_IsEnabled t" and dt: "due now t" by auto
  from top en dt have prio: "\<forall>(j, u) \<in> set (tg_TaskVec g). tk_IsEnabled u \<and> due now u \<longrightarrow> tk_Priority u \<le> tk_Priority t"
    by (fastforce simp: urgency_def)
  from idle t have still: "\<not> tk_IsRunning t" by (auto simp: running_tasks_def filter_empty_conv)
  let ?h = "(checked now g)\<lparr>tg_IsRunning := True\<rparr>"
  from t have t': "(i, UpdateTime (At now) t) \<in> set (tg_TaskVec ?h)" by (force simp: set_checked)
  have inv': "group_inv ?h" using checked_inv [OF inv] by (rule group_inv_cong [rotated 3]) simp_all
  have next': "GetNext (checked now g) = Some i" using max still en by (simp add: GetNext_def)
  have at: "task i (checked now g) = UpdateTime (At now) t" using task_in [OF inv' t'] by (simp add: task_def)
  have "CheckState now g = Dispatch i ?h"
    using CheckState_runs [OF open', of now] next' at dt by (auto simp: due_def)
  moreover have "Dispatch i ?h = (None, group_out (Tg_Handler i)
      (on_task i (\<lambda>t. t\<lparr>tk_IsRunning := True, tk_IsComplete := False, tk_IsExpired := False\<rparr>) ?h))"
    by (rule Group_Dispatch_runs [OF inv' t']) (use en running_checked [OF idle, of now] in simp_all)
  moreover have "task i (on_task i f ?h) = f (UpdateTime (At now) t)" for f
    using task_in [OF inv' t'] inv' t' by (simp add: task_def on_task_mapped map_of_mapped group_inv_def)
  moreover have "tg_Out ?h = tg_Out g" by (simp add: checked_def Group_Update_def on_all_mapped)
  ultimately have "fst (CheckState now g) = None \<and> tg_Out (snd (CheckState now g)) = tg_Out g @ [Tg_Handler i] \<and>
      tk_IsRunning (task i (snd (CheckState now g)))"
    by (simp add: group_out_def task_def on_task_mapped)
  with t en dt prio show ?thesis by blast
qed

definition example_group :: AsyncTaskGroup where
  "example_group = run handle_group
     [GE_Add 5000 1000 1, GE_Add 1000 1000 3, GE_AddContinuous 2, GE_SilentEnable 0, GE_SilentEnable 1, GE_SilentEnable 2]
     new_AsyncTaskGroup"

lemma highest_priority_runs_witness:
  "\<exists>i t. (i, t) \<in> set (tg_TaskVec example_group) \<and> tk_IsEnabled t \<and> due 7 t \<and>
    (\<forall>(j, u) \<in> set (tg_TaskVec example_group). tk_IsEnabled u \<and> due 7 u \<longrightarrow> tk_Priority u \<le> tk_Priority t) \<and>
    fst (CheckState 7 example_group) = None \<and>
    tg_Out (snd (CheckState 7 example_group)) = tg_Out example_group @ [Tg_Handler i] \<and>
    tk_IsRunning (task i (snd (CheckState 7 example_group)))"
proof -
  have "reachable handle_group group_possible (\<lambda>g. g = new_AsyncTaskGroup) example_group"
    unfolding example_group_def by (rule task_group.reachable_run, rule reachable_start, rule refl) code_simp
  then have "group_inv example_group" by (rule task_group.reachable_inv)
  then show ?thesis by (rule highest_priority_runs [where v = "snd (tg_TaskVec example_group ! 0)" and k = 0]) code_simp+
qed

text \<open>The other case: nothing to do now, and the timer is started for the first of the tasks that are still to run.\<close>

theorem timer_for_the_next_task:
  assumes inv: "group_inv g" and open': "\<not> tg_Shutdown g" and idle: "running_tasks g = []" and free: "nobody_waits now g"
    and none: "\<forall>(j, u) \<in> set (tg_TaskVec g). tk_IsEnabled u \<longrightarrow> \<not> due now u"
    and some: "(k, v) \<in> set (tg_TaskVec g)" "tk_IsEnabled v" "tk_NextRunTime v \<noteq> max_date_time"
  shows "\<exists>i t. (i, t) \<in> set (tg_TaskVec g) \<and> tk_IsEnabled t \<and> tg_Timer (snd (CheckState now g)) = Some (tk_NextRunTime t) \<and>
    (\<forall>(j, u) \<in> set (tg_TaskVec g). tk_IsEnabled u \<longrightarrow> tk_NextRunTime t \<le> tk_NextRunTime u) \<and>
    (\<forall>j. Tg_Handler j \<in> set (drop (length (tg_Out g)) (tg_Out (snd (CheckState now g)))) \<longrightarrow> False)"
proof -
  from some(1) have "tg_TaskVec g \<noteq> []" by auto
  from most_urgent [OF idle free this] obtain i t where t: "(i, t) \<in> set (tg_TaskVec g)"
    and max: "max_element (LessThanGroupLevel (checked now g)) (tg_TaskVec (checked now g)) = Some (i, UpdateTime (At now) t)"
    and top: "\<forall>(j, u) \<in> set (tg_TaskVec g). urgency (j, UpdateTime (At now) u) \<le> urgency (i, UpdateTime (At now) t)" .
  from top some none have en: "tk_IsEnabled t" by (fastforce simp: urgency_def)
  with none t have dt: "\<not> due now t" by auto
  have first: "\<forall>(j, u) \<in> set (tg_TaskVec g). tk_IsEnabled u \<longrightarrow> tk_NextRunTime t \<le> tk_NextRunTime u"
    using top none en dt by (fastforce simp: urgency_def)
  from idle t have still: "\<not> tk_IsRunning t" by (auto simp: running_tasks_def filter_empty_conv)
  have "(i, UpdateTime (At now) t) \<in> set (tg_TaskVec (checked now g))" using t by (force simp: set_checked)
  with checked_inv [OF inv] have at: "task i (checked now g) = UpdateTime (At now) t" by (rule task_in)
  have "GetNext (checked now g) = Some i" using max still en by (simp add: GetNext_def)
  moreover have "tk_NextRunTime t \<noteq> max_date_time" using first some by (cases "tk_NextRunTime v") fastforce+
  ultimately have "CheckState now g = RestartTimer (tk_NextRunTime t) (checked now g)"
    using CheckState_runs [OF open', of now] at dt by (simp add: due_def)
  moreover have "tg_Out (checked now g) = tg_Out g" by (simp add: checked_def Group_Update_def on_all_mapped)
  ultimately have "tg_Timer (snd (CheckState now g)) = Some (tk_NextRunTime t) \<and>
      (\<forall>j. Tg_Handler j \<in> set (drop (length (tg_Out g)) (tg_Out (snd (CheckState now g)))) \<longrightarrow> False)"
    by (auto simp: RestartTimer_def handler_simps group_out_def)
  with t en first show ?thesis by blast
qed

section \<open>A dependency that is not respected\<close>

text \<open>
  Task 2 depends on task 1, which has not completed and waits for its next try; task 0 is of another user of the group,
  due and of the lowest priority. The comparison is not transitive (1 < 0 by the times, 0 < 2 by the priorities, but
  2 < 1 by the dependency), and \<open>max_element\<close>, which goes through the vector once, never compares 2 with 1.
\<close>

definition group_of_two_users :: AsyncTaskGroup where
  "group_of_two_users = run handle_group
     [GE_AddContinuous 0, GE_Add 5000 5000 1, GE_Add 1000 5000 1, GE_AddDependency 2 1,
      GE_SilentEnable 1, GE_CheckState 10, GE_SilentEnable 0, GE_SilentEnable 2]
     new_AsyncTaskGroup"


end
