(* ===== verification/Masters.thy ===== *)
theory Masters
  imports Commands VirtualTerminals EventBuffers AsyncTasks
begin

text \<open>
  The master (opendnp3/DNP3/Master, MasterStates, MasterSchedule, MasterTaskBase, DataPoll, StartupTasks,
  VtoTransmitTask): the tasks it schedules, the requests they send, and what it makes of the responses.

  The layer below is seen through two things: \<open>ma_AppWaiting\<close> says whether the solicited channel of the application
  layer is busy with a request, when it refuses another with an exception, and the functions of \<open>IAppUser\<close> are the
  events. A task of the group that is not the master's (a group may be shared by the stacks of a port) is recorded
  when its turn comes; what it does to the group is a later event. The clock \<open>now\<close> does not advance during an event.
\<close>

section \<open>The code\<close>

subsection \<open>State\<close>

datatype MasterState = AMS_Closed | AMS_Idle | AMS_Waiting

datatype StackStates = SS_COMMS_UP | SS_COMMS_DOWN | SS_UNKNOWN

datatype MasterTask =
    MT_ClassPoll | MT_ClearRestart | MT_ConfigureUnsol | MT_TimeSync | MT_ExecuteBO | MT_ExecuteSP | MT_VtoTransmit

text \<open>The member functions of the master that its schedule binds to tasks, with their arguments.\<close>

datatype TaskHandler =
    TH_IntegrityPoll | TH_EventPoll int | TH_ChangeUnsol bool int | TH_ProcessCommand | TH_SyncTime | TH_WriteIIN
  | TH_TransmitVtoData

datatype MasterOut =
    Mo_SendRequest APDU
  | Mo_AcceptResponse CommandAnswer
  | Mo_StateChange StackStates
  | Mo_Published Published
  | Mo_Foreign nat

record MasterConfig =
  mc_FragSize :: nat
  mc_VtoWriterQueueSize :: nat
  mc_UseNonStandardVtoFunction :: bool
  mc_AllowTimeSync :: bool
  mc_DoUnsolOnStartup :: bool
  mc_EnableUnsol :: bool
  mc_UnsolClassMask :: int
  mc_IntegrityRate :: int
  mc_TaskRetryRate :: int
  mc_Scans :: "(int \<times> int) list"

text \<open>
  \<open>ma_Convert\<close> is \<open>boost::numeric::converter<uint8_t, size_t>::convert\<close>, code of the Boost library. The buffer of the
  virtual terminal task is ordered by insertion.
\<close>

record Master =
  ma_State :: MasterState
  ma_Task :: "MasterTask option"
  ma_ScheduledTask :: "nat option"
  ma_StackState :: StackStates
  ma_LastIIN :: IINField
  ma_Request :: APDU
  ma_AppWaiting :: bool
  ma_Commands :: CommandQueue
  ma_VtoWriter :: VtoWriter
  ma_Group :: AsyncTaskGroup
  ma_Handlers :: "(nat \<times> TaskHandler) list"
  ma_CommandTask :: nat
  ma_TimeTask :: nat
  ma_ClearRestartTask :: nat
  ma_VtoTransmitTask :: nat
  ma_PollMask :: int
  ma_UnsolEnable :: bool
  ma_UnsolMask :: int
  ma_TimeDelay :: int
  ma_TimeStart :: int
  ma_ExecuteBO :: ControlTask
  ma_ExecuteSP :: ControlTask
  ma_VtoBuffer :: "VtoData EventBuffer"
  ma_NonStandardVto :: bool
  ma_Convert :: "nat \<Rightarrow> exn + byte"
  ma_Out :: "MasterOut list"

definition master_out :: "MasterOut list \<Rightarrow> Master \<Rightarrow> Master" where
  "master_out xs m = m\<lparr>ma_Out := ma_Out m @ xs\<rparr>"

text \<open>A call whose result the rest needs; calls on the request.\<close>

definition calling :: "('s \<Rightarrow> (exn + 'a) \<times> 's) \<Rightarrow> ('a \<Rightarrow> 's handler) \<Rightarrow> 's handler" where
  [handler_simps]: "calling f k s = (case f s of (Inl e, s) \<Rightarrow> (Some e, s) | (Inr x, s) \<Rightarrow> k x s)"

definition on_request :: "APDU handler \<Rightarrow> Master handler" where
  "on_request h m = (case h (ma_Request m) of (r, a) \<Rightarrow> (r, m\<lparr>ma_Request := a\<rparr>))"

definition of_request :: "(APDU \<Rightarrow> (exn + 'a) \<times> APDU) \<Rightarrow> Master \<Rightarrow> (exn + 'a) \<times> Master" where
  "of_request f m = (case f (ma_Request m) of (r, a) \<Rightarrow> (r, m\<lparr>ma_Request := a\<rparr>))"

definition set_request :: "FunctionCodes \<Rightarrow> Master handler" where
  "set_request f = on_request (APDU_Set f True True False False 0)"

definition store_request :: "bytes \<Rightarrow> Master handler" where
  "store_request buf = modify (\<lambda>m. m\<lparr>ma_Request := (ma_Request m)\<lparr>mBuffer := buf\<rparr>\<rparr>)"

definition write_placeholder :: "nat \<Rightarrow> nat \<Rightarrow> Master handler" where
  "write_placeholder g v = calling (of_request (DoPlaceholderWrite (the (object_Inst g v)))) (\<lambda>_. skip)"

definition write_class :: "(Master \<Rightarrow> int) \<Rightarrow> int \<Rightarrow> nat \<Rightarrow> Master handler" where
  "write_class flags c v = if_else (\<lambda>m. flags m AND c \<noteq> 0) (write_placeholder 60 v) skip"

subsection \<open>The requests of the tasks\<close>

definition ClassPoll_ConfigureRequest :: "Master handler" where
  "ClassPoll_ConfigureRequest = in_order [
     throw_if (\<lambda>m. ma_PollMask m = 0x10) InvalidStateException,
     set_request FC_READ,
     write_class ma_PollMask 1 1, write_class ma_PollMask 2 2, write_class ma_PollMask 4 3, write_class ma_PollMask 8 4]"

definition ClearRestart_ConfigureRequest :: "Master handler" where
  "ClearRestart_ConfigureRequest = in_order [
     set_request FC_WRITE,
     calling (of_request (WriteContiguous_Bitfield (the (object_Inst 80 1)) 7 7 QC_UNDEFINED)) (\<lambda>i.
       with_value (\<lambda>_. ObjectWrite_deref i) (\<lambda>p.
       case p of None \<Rightarrow> throw AssertionFailed | Some p \<Rightarrow>
       with_value (\<lambda>m. Bitfield_Write (mBuffer (ma_Request m)) p 7 7 False) store_request))]"

definition ConfigureUnsol_ConfigureRequest :: "Master handler" where
  "ConfigureUnsol_ConfigureRequest = if_else (\<lambda>m. ma_UnsolMask m = 0 \<or> \<not> ma_UnsolEnable m)
     (in_order [set_request FC_DISABLE_UNSOLICITED,
        write_placeholder 60 2, write_placeholder 60 3, write_placeholder 60 4])
     (in_order [set_request FC_ENABLE_UNSOLICITED,
        write_class ma_UnsolMask 2 2, write_class ma_UnsolMask 4 3, write_class ma_UnsolMask 8 4])"

definition TimeSync_ConfigureRequest :: "int \<Rightarrow> Master handler" where
  "TimeSync_ConfigureRequest now = if_else (\<lambda>m. ma_TimeDelay m < 0)
     (in_order [set_request FC_DELAY_MEASURE, modify (\<lambda>m. m\<lparr>ma_TimeStart := now\<rparr>)])
     (in_order [set_request FC_WRITE,
        calling (of_request (WriteContiguous (the (object_Inst 50 1)) 0 0 QC_1B_CNT)) (\<lambda>owi.
          with_value (\<lambda>_. ObjectWrite_deref owi) (\<lambda>p.
          case p of None \<Rightarrow> throw AssertionFailed | Some p \<Rightarrow>
          reading (\<lambda>m. store_request (Set_Time (the (object_Inst 50 1)) (now + ma_TimeDelay m) (mBuffer (ma_Request m)) p))))])"

definition ExecuteBO_ConfigureRequest :: "Master handler" where
  "ExecuteBO_ConfigureRequest m =
     (case ControlTask_ConfigureRequest (ma_ExecuteBO m, ma_Request m) of
        (r, t, a) \<Rightarrow> (r, m\<lparr>ma_ExecuteBO := t, ma_Request := a\<rparr>))"

definition ExecuteSP_ConfigureRequest :: "Master handler" where
  "ExecuteSP_ConfigureRequest m =
     (case ControlTask_ConfigureRequest (ma_ExecuteSP m, ma_Request m) of
        (r, t, a) \<Rightarrow> (r, m\<lparr>ma_ExecuteSP := t, ma_Request := a\<rparr>))"

text \<open>The loop over the selected events; the iterator stands at number \<open>i\<close> of the buffer's selection.\<close>

primrec write_vto_events :: "nat \<Rightarrow> nat \<Rightarrow> Master handler" where
  "write_vto_events 0 i = skip"
| "write_vto_events (Suc n) i = reading (\<lambda>m.
     let vto = eb_Selected (ma_VtoBuffer m) ! i in
     calling (of_request (WriteIndexed_SizeByVariation_Index (ma_Convert m) (the (object_Inst 112 0))
       (length (vto_Data (ev_Value vto))) (ev_Index vto))) (\<lambda>itr.
     if IndexedWrite_IsEnd itr then skip
     else with_value (\<lambda>m. IndexedWrite_SetIndex (ev_Index vto) itr (mBuffer (ma_Request m))) (\<lambda>(itr, buf). in_order [
       store_request buf,
       with_value (\<lambda>_. IndexedWrite_deref itr) (\<lambda>p. in_order [
         store_request (blit buf p (vto_Data (ev_Value vto))),
         modify (\<lambda>m. m\<lparr>ma_VtoBuffer := MarkWritten i (ma_VtoBuffer m)\<rparr>),
         write_vto_events n (Suc i)])])))"

definition MAX_VTO_EVENTS :: nat where "MAX_VTO_EVENTS = 7"

definition VtoTransmit_ConfigureRequest :: "Master handler" where
  "VtoTransmit_ConfigureRequest = in_order [
     reading (\<lambda>m. set_request (if ma_NonStandardVto m then FC_PROPRIETARY_VTO_TRANSFER else FC_WRITE)),
     calling (\<lambda>m. case EventBuffer_Select PC_ALL_EVENTS MAX_VTO_EVENTS (ma_VtoBuffer m) of (r, b) \<Rightarrow> (r, m\<lparr>ma_VtoBuffer := b\<rparr>))
       (\<lambda>numObjects. write_vto_events numObjects 0)]"

fun MasterTask_ConfigureRequest :: "int \<Rightarrow> MasterTask \<Rightarrow> Master handler" where
  "MasterTask_ConfigureRequest now MT_ClassPoll = ClassPoll_ConfigureRequest"
| "MasterTask_ConfigureRequest now MT_ClearRestart = ClearRestart_ConfigureRequest"
| "MasterTask_ConfigureRequest now MT_ConfigureUnsol = ConfigureUnsol_ConfigureRequest"
| "MasterTask_ConfigureRequest now MT_TimeSync = TimeSync_ConfigureRequest now"
| "MasterTask_ConfigureRequest now MT_ExecuteBO = ExecuteBO_ConfigureRequest"
| "MasterTask_ConfigureRequest now MT_ExecuteSP = ExecuteSP_ConfigureRequest"
| "MasterTask_ConfigureRequest now MT_VtoTransmit = VtoTransmit_ConfigureRequest"

definition MasterTask_Init :: "MasterTask \<Rightarrow> Master \<Rightarrow> Master" where
  "MasterTask_Init t m = (if t = MT_TimeSync then m\<lparr>ma_TimeDelay := -1\<rparr> else m)"

definition Master_SendRequest :: "Master handler" where
  "Master_SendRequest = in_order [
     throw_if ma_AppWaiting InvalidStateException,
     modify (\<lambda>m. master_out [Mo_SendRequest (ma_Request m)] (m\<lparr>ma_AppWaiting := True\<rparr>))]"

definition Master_StartTask :: "int \<Rightarrow> MasterTask \<Rightarrow> bool \<Rightarrow> Master handler" where
  "Master_StartTask now apMasterTask aInit = in_order [
     if aInit then modify (MasterTask_Init apMasterTask) else skip,
     MasterTask_ConfigureRequest now apMasterTask,
     Master_SendRequest]"

text \<open>\<open>mpState->StartTask\<close>: only \<open>AMS_Idle\<close> implements it.\<close>

definition AMS_StartTask :: "int \<Rightarrow> nat \<Rightarrow> MasterTask \<Rightarrow> Master handler" where
  "AMS_StartTask now apScheTask apMasterTask = if_else (\<lambda>m. ma_State m = AMS_Idle)
     (in_order [
        modify (\<lambda>m. m\<lparr>ma_State := AMS_Waiting, ma_Task := Some apMasterTask, ma_ScheduledTask := Some apScheTask\<rparr>),
        Master_StartTask now apMasterTask True])
     (throw InvalidStateException)"

subsection \<open>The handlers of the tasks\<close>

text \<open>
  \<open>dis\<close> is \<open>apTask->Disable()\<close>, which may call the next task's handler before it returns; all handlers call it last.
\<close>

definition ProcessCommand :: "int \<Rightarrow> nat \<Rightarrow> Master handler \<Rightarrow> Master handler" where
  "ProcessCommand now apTask dis = if_else (\<lambda>m. ma_State m = AMS_Closed)
     (reading (\<lambda>m. case RespondToCommand CS_HARDWARE_ERROR (ma_Commands m) of
         Inl e \<Rightarrow> throw e
       | Inr (None, q) \<Rightarrow> in_order [modify (\<lambda>m. m\<lparr>ma_Commands := q\<rparr>), dis]
       | Inr (Some answer, q) \<Rightarrow> modify (\<lambda>m. master_out [Mo_AcceptResponse answer] (m\<lparr>ma_Commands := q\<rparr>))))
     (reading (\<lambda>m. case CommandQueue_Next (ma_Commands m) of
         CT_BINARY_OUTPUT \<Rightarrow>
           (case Read_Binary (ma_Commands m) of Inl e \<Rightarrow> throw e | Inr ((cmd, info), q) \<Rightarrow> in_order [
              modify (\<lambda>m. m\<lparr>ma_Commands := q, ma_ExecuteBO := ControlTask_Set (Cmd_BinaryOutput cmd) info True (ma_ExecuteBO m)\<rparr>),
              AMS_StartTask now apTask MT_ExecuteBO])
       | CT_SETPOINT \<Rightarrow>
           (case Read_Setpoint (ma_Commands m) of Inl e \<Rightarrow> throw e | Inr ((cmd, info), q) \<Rightarrow> in_order [
              modify (\<lambda>m. m\<lparr>ma_Commands := q, ma_ExecuteSP := ControlTask_Set (Cmd_Setpoint cmd) info True (ma_ExecuteSP m)\<rparr>),
              AMS_StartTask now apTask MT_ExecuteSP])
       | CT_NONE \<Rightarrow> dis))"

definition SyncTime :: "int \<Rightarrow> nat \<Rightarrow> Master handler \<Rightarrow> Master handler" where
  "SyncTime now apTask dis = if_else (\<lambda>m. GetIndication IINI_NEED_TIME (ma_LastIIN m))
     (AMS_StartTask now apTask MT_TimeSync) dis"

definition WriteIIN :: "int \<Rightarrow> nat \<Rightarrow> Master handler \<Rightarrow> Master handler" where
  "WriteIIN now apTask dis = if_else (\<lambda>m. GetIndication IINI_DEVICE_RESTART (ma_LastIIN m))
     (AMS_StartTask now apTask MT_ClearRestart) dis"

definition ClassPoll_for :: "int \<Rightarrow> nat \<Rightarrow> int \<Rightarrow> Master handler" where
  "ClassPoll_for now apTask aClassMask = in_order [
     modify (\<lambda>m. m\<lparr>ma_PollMask := aClassMask\<rparr>), AMS_StartTask now apTask MT_ClassPoll]"

definition ChangeUnsol :: "int \<Rightarrow> nat \<Rightarrow> bool \<Rightarrow> int \<Rightarrow> Master handler" where
  "ChangeUnsol now apTask aEnable aClassMask = in_order [
     modify (\<lambda>m. m\<lparr>ma_UnsolEnable := aEnable, ma_UnsolMask := aClassMask\<rparr>),
     AMS_StartTask now apTask MT_ConfigureUnsol]"

definition accept_vto :: "VtoData EventInfo \<Rightarrow> VtoData EventBuffer handler" where
  "accept_vto e = EventBuffer_Update InsertionOrdered (ev_Value e) (ev_Class e) (ev_Index e)"

definition TransmitVtoData :: "int \<Rightarrow> nat \<Rightarrow> Master handler \<Rightarrow> Master handler" where
  "TransmitVtoData now apTask dis = if_else (\<lambda>m. ma_State m = AMS_Closed) dis (in_order [
     calling (\<lambda>m. case VtoWriter_Flush accept_vto (NumAvailable (ma_VtoBuffer m)) (ma_VtoWriter m) (ma_VtoBuffer m) of
         (r, w, b) \<Rightarrow> (r, m\<lparr>ma_VtoWriter := w, ma_VtoBuffer := b\<rparr>)) (\<lambda>_. skip),
     if_else (\<lambda>m. EventBuffer_Size (ma_VtoBuffer m) > 0) (AMS_StartTask now apTask MT_VtoTransmit) dis])"

fun call_handler :: "int \<Rightarrow> nat \<Rightarrow> Master handler \<Rightarrow> TaskHandler \<Rightarrow> Master handler" where
  "call_handler now i dis TH_IntegrityPoll = ClassPoll_for now i 1"
| "call_handler now i dis (TH_EventPoll classes) = ClassPoll_for now i classes"
| "call_handler now i dis (TH_ChangeUnsol enable classes) = ChangeUnsol now i enable classes"
| "call_handler now i dis TH_ProcessCommand = ProcessCommand now i dis"
| "call_handler now i dis TH_SyncTime = SyncTime now i dis"
| "call_handler now i dis TH_WriteIIN = WriteIIN now i dis"
| "call_handler now i dis TH_TransmitVtoData = TransmitVtoData now i dis"

text \<open>
  A function of the group, and the handler of the task it has started, if it has. A handler that disables its task may
  start another; the fuel bounds the depth, and there are no more of them than enabled tasks.
\<close>

definition dispatched :: "AsyncTaskGroup \<Rightarrow> AsyncTaskGroup \<Rightarrow> nat option" where
  "dispatched g g' =
     (case drop (length (tg_Out g)) (tg_Out g') of
        [] \<Rightarrow> None
      | xs \<Rightarrow> (case last xs of Tg_Handler i \<Rightarrow> Some i | _ \<Rightarrow> None))"

definition group_call :: "(nat \<Rightarrow> Master handler) \<Rightarrow> AsyncTaskGroup handler \<Rightarrow> Master handler" where
  "group_call call f m =
     (case f (ma_Group m) of
        (Some e, g) \<Rightarrow> (Some e, m\<lparr>ma_Group := g\<rparr>)
      | (None, g) \<Rightarrow>
        (case dispatched (ma_Group m) g of
           None \<Rightarrow> (None, m\<lparr>ma_Group := g\<rparr>)
         | Some i \<Rightarrow> call i (m\<lparr>ma_Group := g\<rparr>)))"

primrec run_task :: "nat \<Rightarrow> int \<Rightarrow> nat \<Rightarrow> Master handler" where
  "run_task 0 now i = throw AssertionFailed"
| "run_task (Suc n) now i = reading (\<lambda>m.
     case map_of (ma_Handlers m) i of
       None \<Rightarrow> modify (master_out [Mo_Foreign i])
     | Some h \<Rightarrow> call_handler now i (group_call (run_task n now) (Task_Disable now i)) h)"

definition on_group :: "int \<Rightarrow> AsyncTaskGroup handler \<Rightarrow> Master handler" where
  "on_group now f = reading (\<lambda>m. group_call (run_task (length (tg_TaskVec (ma_Group m))) now) f)"

subsection \<open>The schedule and the constructor\<close>

definition ONLINE_ONLY_TASKS :: u32 where "ONLINE_ONLY_TASKS = 1"
definition START_UP_TASKS :: u32 where "START_UP_TASKS = 2"

text \<open>\<open>mTracking.Add\<close> with the function bound to the new task, which the rest of the code refers to.\<close>

definition schedule_task :: "(AsyncTaskGroup \<Rightarrow> AsyncTaskGroup) \<Rightarrow> TaskHandler \<Rightarrow> (nat \<Rightarrow> Master handler) \<Rightarrow> Master handler" where
  "schedule_task add h k = reading (\<lambda>m. let i = tg_Allocated (ma_Group m) in in_order [
     modify (\<lambda>m. m\<lparr>ma_Group := add (ma_Group m), ma_Handlers := ma_Handlers m @ [(i, h)]\<rparr>), k i])"

definition set_task_flags :: "nat \<Rightarrow> u32 \<Rightarrow> Master handler" where
  "set_task_flags i f = modify (\<lambda>m. m\<lparr>ma_Group := SetFlags i f (ma_Group m)\<rparr>)"

definition depend_on :: "nat \<Rightarrow> nat \<Rightarrow> Master handler" where
  "depend_on i j m = (case AddDependency i j (ma_Group m) of (r, g) \<Rightarrow> (r, m\<lparr>ma_Group := g\<rparr>))"

primrec schedule_scans :: "int \<Rightarrow> nat \<Rightarrow> (int \<times> int) list \<Rightarrow> Master handler" where
  "schedule_scans retry pIntegrity [] = skip"
| "schedule_scans retry pIntegrity (e # es) = in_order [
     schedule_task (Group_Add (snd e) retry 1) (TH_EventPoll (fst e)) (\<lambda>pEventScan. in_order [
       set_task_flags pEventScan ONLINE_ONLY_TASKS, depend_on pEventScan pIntegrity]),
     schedule_scans retry pIntegrity es]"

text \<open>The tasks that are executed when the master is idle.\<close>

definition idle_tasks :: "Master handler" where
  "idle_tasks = in_order [
     schedule_task (Group_AddContinuous 5) TH_ProcessCommand (\<lambda>i. modify (\<lambda>m. m\<lparr>ma_CommandTask := i\<rparr>)),
     schedule_task (Group_AddContinuous 2) TH_SyncTime (\<lambda>i. modify (\<lambda>m. m\<lparr>ma_TimeTask := i\<rparr>)),
     schedule_task (Group_AddContinuous 3) TH_WriteIIN (\<lambda>i. modify (\<lambda>m. m\<lparr>ma_ClearRestartTask := i\<rparr>)),
     schedule_task (Group_AddContinuous 0) TH_TransmitVtoData (\<lambda>i. modify (\<lambda>m. m\<lparr>ma_VtoTransmitTask := i\<rparr>)),
     reading (\<lambda>m. set_task_flags (ma_VtoTransmitTask m) ONLINE_ONLY_TASKS),
     reading (\<lambda>m. set_task_flags (ma_TimeTask m) ONLINE_ONLY_TASKS),
     reading (\<lambda>m. set_task_flags (ma_ClearRestartTask m) ONLINE_ONLY_TASKS)]"

text \<open>The priorities are those of \<open>MasterPriority\<close>, and 14 is \<open>PC_ALL_EVENTS\<close>.\<close>

definition MasterSchedule_Init :: "MasterConfig \<Rightarrow> Master handler" where
  "MasterSchedule_Init arCfg = (let retry = mc_TaskRetryRate arCfg in
     schedule_task (Group_Add (mc_IntegrityRate arCfg) retry 1) TH_IntegrityPoll (\<lambda>pIntegrity. in_order [
       set_task_flags pIntegrity (ONLINE_ONLY_TASKS OR START_UP_TASKS),
       if mc_DoUnsolOnStartup arCfg then
         schedule_task (Group_Add (-1) retry 4) (TH_ChangeUnsol False 14) (\<lambda>pUnsolDisable. in_order [
           set_task_flags pUnsolDisable (ONLINE_ONLY_TASKS OR START_UP_TASKS),
           depend_on pIntegrity pUnsolDisable,
           if mc_EnableUnsol arCfg then
             schedule_task (Group_Add (-1) retry 4) (TH_ChangeUnsol True (mc_UnsolClassMask arCfg)) (\<lambda>pUnsolEnable. in_order [
               set_task_flags pUnsolEnable (ONLINE_ONLY_TASKS OR START_UP_TASKS),
               depend_on pUnsolEnable pIntegrity])
           else skip])
       else skip,
       schedule_scans retry pIntegrity (mc_Scans arCfg),
       idle_tasks]))"

subsection \<open>The responses of the tasks\<close>

text \<open>\<open>UpdateState\<close>; the observer of the configuration is notified.\<close>

definition Master_UpdateState :: "int \<Rightarrow> StackStates \<Rightarrow> Master handler" where
  "Master_UpdateState now aState = if_else (\<lambda>m. ma_StackState m \<noteq> aState)
     (in_order [
        modify (\<lambda>m. master_out [Mo_StateChange aState] (m\<lparr>ma_StackState := aState\<rparr>)),
        if aState = SS_COMMS_UP then reading (\<lambda>m. on_group now (Task_Enable now (ma_VtoTransmitTask m))) else skip])
     skip"

text \<open>The constructor; the group may have tasks of other stacks already.\<close>

definition blank_Master :: "MasterConfig \<Rightarrow> (nat \<Rightarrow> exn + byte) \<Rightarrow> AsyncTaskGroup \<Rightarrow> Master" where
  "blank_Master aCfg convert apTaskGroup = \<lparr>ma_State = AMS_Closed, ma_Task = None, ma_ScheduledTask = None,
     ma_StackState = SS_UNKNOWN, ma_LastIIN = \<lparr>mLSB = 0, mMSB = 0\<rparr>, ma_Request = APDU_new (replicate (mc_FragSize aCfg) 0),
     ma_AppWaiting = False, ma_Commands = new_CommandQueue, ma_VtoWriter = new_VtoWriter (mc_VtoWriterQueueSize aCfg),
     ma_Group = apTaskGroup, ma_Handlers = [], ma_CommandTask = 0, ma_TimeTask = 0, ma_ClearRestartTask = 0,
     ma_VtoTransmitTask = 0, ma_PollMask = 0x10, ma_UnsolEnable = False, ma_UnsolMask = 0, ma_TimeDelay = -1, ma_TimeStart = 0,
     ma_ExecuteBO = new_ControlTask, ma_ExecuteSP = new_ControlTask,
     ma_VtoBuffer = new_EventBuffer (mc_FragSize aCfg div vto_MAX_SIZE * 2),
     ma_NonStandardVto = mc_UseNonStandardVtoFunction aCfg, ma_Convert = convert, ma_Out = []\<rparr>"

definition new_Master :: "MasterConfig \<Rightarrow> (nat \<Rightarrow> exn + byte) \<Rightarrow> AsyncTaskGroup \<Rightarrow> exn option \<times> Master" where
  "new_Master aCfg convert apTaskGroup =
     in_order [MasterSchedule_Init aCfg, Master_UpdateState 0 SS_COMMS_DOWN] (blank_Master aCfg convert apTaskGroup)"

text \<open>What is read is published also when the reading ends with an exception.\<close>

definition DataPoll_ReadData :: "APDU \<Rightarrow> Master handler" where
  "DataPoll_ReadData f = (case ReadData f of (r, xs) \<Rightarrow> \<lambda>m. (r, master_out (map Mo_Published xs) m))"

text \<open>A result of the function \<open>f\<close> when the handler before it does not throw.\<close>

definition then_return :: "'s handler \<Rightarrow> 'a \<Rightarrow> 's \<Rightarrow> (exn + 'a) \<times> 's" where
  "then_return h x s = (case h s of (None, s) \<Rightarrow> (Inr x, s) | (Some e, s) \<Rightarrow> (Inl e, s))"

fun MasterTask_OnPartialResponse :: "MasterTask \<Rightarrow> APDU \<Rightarrow> Master \<Rightarrow> (exn + TaskResult) \<times> Master" where
  "MasterTask_OnPartialResponse MT_ClassPoll f m = then_return (DataPoll_ReadData f) TR_CONTINUE m"
| "MasterTask_OnPartialResponse MT_ClearRestart f m = (Inr TR_FAIL, m)"
| "MasterTask_OnPartialResponse MT_ConfigureUnsol f m = (Inr TR_FAIL, m)"
| "MasterTask_OnPartialResponse MT_TimeSync f m = (Inr TR_FAIL, m)"
| "MasterTask_OnPartialResponse MT_ExecuteBO f m = (Inr TR_CONTINUE, m)"
| "MasterTask_OnPartialResponse MT_ExecuteSP f m = (Inr TR_CONTINUE, m)"
| "MasterTask_OnPartialResponse MT_VtoTransmit f m = (Inr TR_CONTINUE, m)"

definition TimeSync_OnFinalResponse :: "int \<Rightarrow> APDU \<Rightarrow> Master \<Rightarrow> (exn + TaskResult) \<times> Master" where
  "TimeSync_OnFinalResponse now f m =
     (if ma_TimeDelay m < 0 then
        (case APDU_BeginRead f of Inl e \<Rightarrow> (Inl e, m) | Inr hri \<Rightarrow>
         if length (hr_headers hri) \<noteq> 1 then (Inr TR_FAIL, m)
         else case HeaderRead_info hri of Inl e \<Rightarrow> (Inl e, m) | Inr info \<Rightarrow>
         if (ob_group (mpObjectBase info), ob_var (mpObjectBase info)) \<noteq> (52, 2) then (Inr TR_FAIL, m)
         else case HeaderRead_BeginRead (mBuffer f) hri of Inl e \<Rightarrow> (Inl e, m) | Inr ori \<Rightarrow>
         if mHeaderCount (or_header ori) \<noteq> 1 then (Inr TR_FAIL, m)
         else case ObjectRead_deref ori of Inl e \<Rightarrow> (Inl e, m) | Inr p \<Rightarrow>
         let send_rcv_time = now - ma_TimeStart m;
             rtu_turn_around = Get_Time (the (object_Inst 52 2)) (mBuffer f) p
         in (Inr TR_CONTINUE, m\<lparr>ma_TimeDelay :=
               if send_rcv_time \<ge> rtu_turn_around then (send_rcv_time - rtu_turn_around) div 2 else 0\<rparr>))
      else (Inr TR_SUCCESS, m))"

definition ControlTask_response ::
  "APDU \<Rightarrow> (Master \<Rightarrow> ControlTask) \<Rightarrow> (ControlTask \<Rightarrow> Master \<Rightarrow> Master) \<Rightarrow> Master \<Rightarrow> (exn + TaskResult) \<times> Master" where
  "ControlTask_response f task_of put m =
     (case ControlTask_OnFinalResponse f (task_of m) of
        Inl e \<Rightarrow> (Inl e, m)
      | Inr (r, answers, t) \<Rightarrow> (Inr r, master_out (map Mo_AcceptResponse answers) (put t m)))"

definition VtoTransmit_Deselect :: "Master \<Rightarrow> Master" where
  "VtoTransmit_Deselect m = m\<lparr>ma_VtoBuffer := snd (EventBuffer_Deselect InsertionOrdered (ma_VtoBuffer m))\<rparr>"

fun MasterTask_OnFinalResponse :: "int \<Rightarrow> MasterTask \<Rightarrow> APDU \<Rightarrow> Master \<Rightarrow> (exn + TaskResult) \<times> Master" where
  "MasterTask_OnFinalResponse now MT_ClassPoll f m = then_return (DataPoll_ReadData f) TR_SUCCESS m"
| "MasterTask_OnFinalResponse now MT_ClearRestart f m = (map_sum id (\<lambda>_. TR_SUCCESS) (APDU_BeginRead f), m)"
| "MasterTask_OnFinalResponse now MT_ConfigureUnsol f m = (map_sum id (\<lambda>_. TR_SUCCESS) (APDU_BeginRead f), m)"
| "MasterTask_OnFinalResponse now MT_TimeSync f m = TimeSync_OnFinalResponse now f m"
| "MasterTask_OnFinalResponse now MT_ExecuteBO f m = ControlTask_response f ma_ExecuteBO (\<lambda>t m. m\<lparr>ma_ExecuteBO := t\<rparr>) m"
| "MasterTask_OnFinalResponse now MT_ExecuteSP f m = ControlTask_response f ma_ExecuteSP (\<lambda>t m. m\<lparr>ma_ExecuteSP := t\<rparr>) m"
| "MasterTask_OnFinalResponse now MT_VtoTransmit f m =
     (Inr TR_SUCCESS, VtoTransmit_Deselect (m\<lparr>ma_VtoBuffer := snd (ClearWrittenEvents (ma_VtoBuffer m))\<rparr>))"

fun MasterTask_OnFailure :: "MasterTask \<Rightarrow> Master \<Rightarrow> Master" where
  "MasterTask_OnFailure MT_ExecuteBO m = master_out (map Mo_AcceptResponse (ControlTask_answer CS_HARDWARE_ERROR (ma_ExecuteBO m))) m"
| "MasterTask_OnFailure MT_ExecuteSP m = master_out (map Mo_AcceptResponse (ControlTask_answer CS_HARDWARE_ERROR (ma_ExecuteSP m))) m"
| "MasterTask_OnFailure MT_VtoTransmit m = VtoTransmit_Deselect m"
| "MasterTask_OnFailure _ m = m"

subsection \<open>The states\<close>

text \<open>\<open>mpTask\<close> and \<open>mpScheduledTask\<close> as the waiting state uses them: it is entered only with both set.\<close>

definition with_task :: "(MasterTask \<Rightarrow> nat \<Rightarrow> Master handler) \<Rightarrow> Master handler" where
  "with_task k = reading (\<lambda>m. case (ma_Task m, ma_ScheduledTask m) of (Some t, Some i) \<Rightarrow> k t i | _ \<Rightarrow> throw AssertionFailed)"

definition AMS_ChangeState :: "MasterState \<Rightarrow> Master handler" where
  "AMS_ChangeState s = modify (\<lambda>m. m\<lparr>ma_State := s\<rparr>)"

definition AMS_OnLowerLayerUp :: "Master handler" where
  "AMS_OnLowerLayerUp = if_else (\<lambda>m. ma_State m = AMS_Closed) (AMS_ChangeState AMS_Idle) (throw InvalidStateException)"

definition AMS_OnLowerLayerDown :: "Master handler" where
  "AMS_OnLowerLayerDown = reading (\<lambda>m. case ma_State m of
     AMS_Closed \<Rightarrow> throw InvalidStateException
   | AMS_Idle \<Rightarrow> AMS_ChangeState AMS_Closed
   | AMS_Waiting \<Rightarrow> with_task (\<lambda>t i. in_order [AMS_ChangeState AMS_Closed, modify (MasterTask_OnFailure t)]))"

definition AMS_OnFailure :: "int \<Rightarrow> Master handler" where
  "AMS_OnFailure now = if_else (\<lambda>m. ma_State m = AMS_Waiting)
     (with_task (\<lambda>t i. in_order [AMS_ChangeState AMS_Idle, modify (MasterTask_OnFailure t), on_group now (Task_OnComplete now i False)]))
     (throw InvalidStateException)"

definition AMS_OnPartialResponse :: "int \<Rightarrow> APDU \<Rightarrow> Master handler" where
  "AMS_OnPartialResponse now f = if_else (\<lambda>m. ma_State m = AMS_Waiting)
     (with_task (\<lambda>t i. calling (MasterTask_OnPartialResponse t f) (\<lambda>r. case r of
        TR_FAIL \<Rightarrow> in_order [AMS_ChangeState AMS_Idle, on_group now (Task_OnComplete now i False)]
      | TR_CONTINUE \<Rightarrow> skip
      | TR_SUCCESS \<Rightarrow> throw InvalidStateException)))
     (throw InvalidStateException)"

definition AMS_OnFinalResponse :: "int \<Rightarrow> APDU \<Rightarrow> Master handler" where
  "AMS_OnFinalResponse now f = if_else (\<lambda>m. ma_State m = AMS_Waiting)
     (with_task (\<lambda>t i. calling (MasterTask_OnFinalResponse now t f) (\<lambda>r. case r of
        TR_FAIL \<Rightarrow> in_order [AMS_ChangeState AMS_Idle, on_group now (Task_OnComplete now i False)]
      | TR_CONTINUE \<Rightarrow> Master_StartTask now t False
      | TR_SUCCESS \<Rightarrow> in_order [AMS_ChangeState AMS_Idle, on_group now (Task_OnComplete now i True)])))
     (throw InvalidStateException)"

definition ProcessDataResponse :: "APDU \<Rightarrow> Master handler" where
  "ProcessDataResponse f = try_catch (DataPoll_ReadData f) (\<lambda>e. if e = AssertionFailed then throw e else skip)"

definition AMS_OnUnsolResponse :: "APDU \<Rightarrow> Master handler" where
  "AMS_OnUnsolResponse f = if_else (\<lambda>m. ma_State m = AMS_Closed) (throw InvalidStateException) (ProcessDataResponse f)"

subsection \<open>The functions of \<open>IAppUser\<close>\<close>

definition ProcessIIN :: "int \<Rightarrow> IINField \<Rightarrow> Master handler" where
  "ProcessIIN now arIIN = in_order [
     Master_UpdateState now SS_COMMS_UP,
     if GetIndication IINI_NEED_TIME arIIN
       then modify (\<lambda>m. m\<lparr>ma_Group := on_task (ma_TimeTask m) SilentEnable (ma_Group m)\<rparr>) else skip,
     reading (\<lambda>m. let restart = GetIndication IINI_DEVICE_RESTART (ma_LastIIN m) in in_order [
       if restart then modify (\<lambda>m. m\<lparr>ma_Group :=
         on_task (ma_ClearRestartTask m) SilentEnable (ResetTasks START_UP_TASKS (ma_Group m))\<rparr>) else skip,
       if GetIndication IINI_NEED_TIME arIIN \<or> restart then on_group now (CheckState now) else skip])]"

definition take_IIN :: "int \<Rightarrow> APDU \<Rightarrow> Master handler" where
  "take_IIN now f = with_value (\<lambda>_. APDU_GetIIN f) (\<lambda>iin. in_order [
     modify (\<lambda>m. m\<lparr>ma_LastIIN := iin\<rparr>), ProcessIIN now iin])"

definition EnableOnlineTasks :: "int \<Rightarrow> Master handler" where
  "EnableOnlineTasks now = on_group now (Group_Enable now ONLINE_ONLY_TASKS)"

definition DisableOnlineTasks :: "int \<Rightarrow> Master handler" where
  "DisableOnlineTasks now = on_group now (Group_Disable now ONLINE_ONLY_TASKS)"

definition Master_OnLowerLayerUp :: "int \<Rightarrow> Master handler" where
  "Master_OnLowerLayerUp now = in_order [AMS_OnLowerLayerUp, EnableOnlineTasks now]"

definition Master_OnLowerLayerDown :: "int \<Rightarrow> Master handler" where
  "Master_OnLowerLayerDown now = in_order [
     AMS_OnLowerLayerDown, DisableOnlineTasks now, Master_UpdateState now SS_COMMS_DOWN]"

definition Master_OnSolFailure :: "int \<Rightarrow> Master handler" where
  "Master_OnSolFailure now = in_order [Master_UpdateState now SS_COMMS_DOWN, AMS_OnFailure now]"

definition Master_OnPartialResponse :: "int \<Rightarrow> APDU \<Rightarrow> Master handler" where
  "Master_OnPartialResponse now f = in_order [take_IIN now f, AMS_OnPartialResponse now f]"

definition Master_OnFinalResponse :: "int \<Rightarrow> APDU \<Rightarrow> Master handler" where
  "Master_OnFinalResponse now f = in_order [take_IIN now f, AMS_OnFinalResponse now f]"

definition Master_OnUnsolResponse :: "int \<Rightarrow> APDU \<Rightarrow> Master handler" where
  "Master_OnUnsolResponse now f = in_order [take_IIN now f, AMS_OnUnsolResponse f]"

subsection \<open>Events\<close>

text \<open>
  What reaches a master: the functions of \<open>IAppUser\<close>, with the application layer's channel idle again when it reports
  a final response, a failure or that the layer is down; commands and virtual terminal data from the application,
  and the notifications they post, which enable a task; the timer of the group, and what the tasks of other stacks
  do to it.
\<close>

datatype MasterEvent =
    ME_LowerLayerUp int
  | ME_LowerLayerDown int
  | ME_SolSendSuccess
  | ME_SolFailure int
  | ME_UnsolSendSuccess
  | ME_UnsolFailure
  | ME_PartialResponse int APDU
  | ME_FinalResponse int APDU
  | ME_UnsolResponse int APDU
  | ME_AcceptCommand Command nat int nat
  | ME_CommandNotified int
  | ME_VtoWrite bytes byte
  | ME_SetLocalVtoState bool byte
  | ME_VtoNotified int
  | ME_Timer int
  | ME_ForeignEnable int nat
  | ME_ForeignDisable int nat
  | ME_ForeignComplete int nat bool

definition app_idle :: "Master handler" where
  "app_idle = modify (\<lambda>m. m\<lparr>ma_AppWaiting := False\<rparr>)"

fun handle_master :: "MasterEvent \<Rightarrow> Master handler" where
  "handle_master (ME_LowerLayerUp now) = Master_OnLowerLayerUp now"
| "handle_master (ME_LowerLayerDown now) = in_order [app_idle, Master_OnLowerLayerDown now]"
| "handle_master ME_SolSendSuccess = throw InvalidStateException"
| "handle_master (ME_SolFailure now) = in_order [app_idle, Master_OnSolFailure now]"
| "handle_master ME_UnsolSendSuccess = throw InvalidStateException"
| "handle_master ME_UnsolFailure = throw InvalidStateException"
| "handle_master (ME_PartialResponse now f) = Master_OnPartialResponse now f"
| "handle_master (ME_FinalResponse now f) = in_order [app_idle, Master_OnFinalResponse now f]"
| "handle_master (ME_UnsolResponse now f) = Master_OnUnsolResponse now f"
| "handle_master (ME_AcceptCommand cmd index seq acceptor) =
     modify (\<lambda>m. m\<lparr>ma_Commands := AcceptCommand cmd index seq acceptor (ma_Commands m)\<rparr>)"
| "handle_master (ME_CommandNotified now) = reading (\<lambda>m. on_group now (Task_Enable now (ma_CommandTask m)))"
| "handle_master (ME_VtoWrite xs channel) =
     calling (\<lambda>m. case VtoWriter_Write xs channel (ma_VtoWriter m) of (r, w) \<Rightarrow> (r, m\<lparr>ma_VtoWriter := w\<rparr>)) (\<lambda>_. skip)"
| "handle_master (ME_SetLocalVtoState opened channel) =
     modify (\<lambda>m. m\<lparr>ma_VtoWriter := SetLocalVtoState opened channel (ma_VtoWriter m)\<rparr>)"
| "handle_master (ME_VtoNotified now) = reading (\<lambda>m. on_group now (Task_Enable now (ma_VtoTransmitTask m)))"
| "handle_master (ME_Timer now) = on_group now (OnTimerExpiration now)"
| "handle_master (ME_ForeignEnable now i) = on_group now (Task_Enable now i)"
| "handle_master (ME_ForeignDisable now i) = on_group now (Task_Disable now i)"
| "handle_master (ME_ForeignComplete now i b) = on_group now (Task_OnComplete now i b)"

end
