(* ===== verification/MasterBooks.thy ===== *)
theory MasterBooks
  imports Masters
begin

text \<open>
  What holds of a master over its life: the task it waits for is the running task of its group, and its books of
  commands balance, every command is answered once and in the order of arrival. The fuel of
  the handlers that call each other is enough.
\<close>

section \<open>A group whose task runs\<close>

definition runs :: "AsyncTaskGroup \<Rightarrow> nat \<Rightarrow> bool" where
  "runs g i \<longleftrightarrow> (\<exists>t. map_of (tg_TaskVec g) i = Some t \<and> tk_IsRunning t)"

definition enabled :: "AsyncTaskGroup \<Rightarrow> nat \<Rightarrow> bool" where
  "enabled g i \<longleftrightarrow> (\<exists>t. map_of (tg_TaskVec g) i = Some t \<and> tk_IsEnabled t)"

lemma has_task_iff: "has_task g i \<longleftrightarrow> (\<exists>t. map_of (tg_TaskVec g) i = Some t)"
  using map_of_eq_None_iff [of "tg_TaskVec g" i] by (auto simp: has_task_def)

lemma runs_iff: "runs g i \<longleftrightarrow> has_task g i \<and> tk_IsRunning (task i g)"
  by (auto simp: runs_def has_task_iff task_def)

lemma runs_mapped: "runs (mapped f g) i \<longleftrightarrow> (\<exists>t. map_of (tg_TaskVec g) i = Some t \<and> tk_IsRunning (f i t))"
  by (auto simp: runs_def map_of_mapped)

lemma runs_frame [simp]:
  "runs (g\<lparr>tg_IsRunning := b\<rparr>) i = runs g i" "runs (g\<lparr>tg_Timer := x\<rparr>) i = runs g i" "runs (group_out y g) i = runs g i"
  by (simp_all add: runs_def group_out_def)

lemma runs_in: "runs g i \<Longrightarrow> i \<in> fst ` set (running_tasks g)"
  by (force simp: runs_def running_tasks_def dest: map_of_SomeD)

lemma runs_unique: "group_inv g \<Longrightarrow> runs g i \<Longrightarrow> runs g j \<Longrightarrow> i = j"
proof -
  assume "group_inv g" and i: "runs g i" and j: "runs g j"
  then have "length (running_tasks g) \<le> 1" by (simp add: group_inv_def)
  then obtain x where "set (running_tasks g) \<subseteq> {x}" by (cases "running_tasks g") auto
  with runs_in [OF i] runs_in [OF j] show "i = j" by auto
qed

lemma runs_not_nil: "runs g i \<Longrightarrow> \<exists>(j, t) \<in> set (tg_TaskVec g). tk_IsRunning t"
  by (auto simp: runs_def dest: map_of_SomeD)

lemma runs_checked [simp]: "runs (checked now g) i = runs g i"
  unfolding checked_def Group_Update_def on_all_mapped runs_mapped by (simp add: runs_def)

lemma CheckState_running:
  assumes "runs g i"
  shows "CheckState now g = (None, if tg_Shutdown g then g else checked now g)"
proof (cases "tg_Shutdown g")
  case True
  then show ?thesis by (simp add: CheckState_def handler_simps)
next
  case False
  from assms have "runs (checked now g) i" by simp
  then have "GetNext (checked now g) = None"
    using runs_not_nil by (cases "GetNext (checked now g)") (fastforce elim: GetNext_Some)+
  with False show ?thesis by (simp add: CheckState_runs)
qed

text \<open>What the functions of a group do: start a task, which then runs, or leave the running task alone.\<close>

definition starts :: "AsyncTaskGroup handler \<Rightarrow> AsyncTaskGroup \<Rightarrow> bool" where
  "starts f g \<longleftrightarrow> group_inv (snd (f g)) \<and> (\<forall>j. fst (f g) = None \<longrightarrow> dispatched g (snd (f g)) = Some j \<longrightarrow> runs (snd (f g)) j)"

definition waits :: "nat \<Rightarrow> AsyncTaskGroup handler \<Rightarrow> AsyncTaskGroup \<Rightarrow> bool" where
  "waits i f g \<longleftrightarrow> group_inv (snd (f g)) \<and> runs (snd (f g)) i \<and> tg_Out (snd (f g)) = tg_Out g \<and>
     tk_Flags (task i (snd (f g))) = tk_Flags (task i g)"

lemma dispatched_none: "tg_Out g' = tg_Out g \<Longrightarrow> dispatched g g' = None"
  by (simp add: dispatched_def)

lemma dispatched_last: "tg_Out g' = tg_Out g @ [x] \<Longrightarrow> dispatched g g' = (case x of Tg_Handler i \<Rightarrow> Some i | _ \<Rightarrow> None)"
  by (simp add: dispatched_def)

lemma RestartTimer_starts: "group_inv g \<Longrightarrow> tg_Out g = tg_Out h \<Longrightarrow>
  dispatched h (snd (RestartTimer t g)) = None"
  by (auto simp: RestartTimer_def handler_simps group_out_def dispatched_def)

lemma checked_out [simp]: "tg_Out (checked now g) = tg_Out g"
  by (simp add: checked_def Group_Update_def on_all_mapped)

lemma CheckState_starts:
  assumes inv: "group_inv g" and out: "tg_Out g = tg_Out h" and some: "dispatched h (snd (CheckState now g)) = Some j"
  shows "runs (snd (CheckState now g)) j \<and> enabled (snd (CheckState now g)) j"
proof (cases "tg_Shutdown g \<or> GetNext (checked now g) = None")
  case True
  then have "tg_Out (snd (CheckState now g)) = tg_Out h"
    using out CheckState_runs [of g now] by (cases "tg_Shutdown g") (simp_all add: CheckState_def handler_simps)
  with some show ?thesis by (simp add: dispatched_none)
next
  case False
  then obtain i where open': "\<not> tg_Shutdown g" and next': "GetNext (checked now g) = Some i" by auto
  from GetNext_Some [OF next'] obtain t where t: "(i, t) \<in> set (tg_TaskVec (checked now g))" "tk_IsEnabled t"
    "\<forall>(j, u) \<in> set (tg_TaskVec (checked now g)). \<not> tk_IsRunning u" by blast
  let ?h = "(checked now g)\<lparr>tg_IsRunning := True\<rparr>"
  have inv': "group_inv ?h" using checked_inv [OF inv] by (rule group_inv_cong [rotated 3]) simp_all
  from t(3) have "running_tasks ?h = []" by (auto simp: running_tasks_def filter_empty_conv)
  with Group_Dispatch_runs(1) [OF inv', of i t] t have run: "Dispatch i ?h =
      (None, group_out (Tg_Handler i) (on_task i (\<lambda>t. t\<lparr>tk_IsRunning := True, tk_IsComplete := False, tk_IsExpired := False\<rparr>) ?h))"
    by simp
  have "map_of (tg_TaskVec (checked now g)) i = Some t" using inv' t(1) by (simp add: group_inv_def)
  then have "runs (snd (Dispatch i ?h)) i \<and> enabled (snd (Dispatch i ?h)) i" using t(2)
    by (simp add: run on_task_mapped runs_mapped) (simp add: enabled_def group_out_def map_of_mapped)
  moreover have "tg_Out (snd (Dispatch i ?h)) = tg_Out h @ [Tg_Handler i]"
    unfolding run by (simp add: group_out_def on_task_mapped out)
  then have "dispatched h (snd (Dispatch i ?h)) = Some i" by (simp add: dispatched_last)
  moreover have "dispatched h (checked now g) = None" using out by (simp add: dispatched_none)
  moreover have "dispatched h (snd (RestartTimer t (checked now g))) = None" for t
    by (rule RestartTimer_starts [OF checked_inv [OF inv]]) (simp add: out)
  ultimately show ?thesis
    using some unfolding CheckState_runs [OF open'] next' by (auto split: if_splits)
qed

lemma starts_after:
  assumes "group_inv (u g)" and "tg_Out (u g) = tg_Out g"
  shows "starts (in_order [modify u, CheckState now]) g"
  using CheckState_inv [OF assms(1)] CheckState_starts [OF assms] by (auto simp: starts_def handler_simps)

lemma waits_after:
  assumes inv: "group_inv (u g)" and run: "runs (u g) i" and out: "tg_Out (u g) = tg_Out g"
    and flags: "tk_Flags (task i (u g)) = tk_Flags (task i g)"
  shows "waits i (in_order [modify u, CheckState now]) g"
proof -
  have "tk_Flags (UpdateTime n t) = tk_Flags t" for n t by (simp add: UpdateTime_def)
  moreover from run obtain t where "map_of (tg_TaskVec (u g)) i = Some t" by (auto simp: runs_def)
  ultimately have "tk_Flags (task i (checked now (u g))) = tk_Flags (task i g)"
    using flags by (simp add: checked_def Group_Update_def on_all_mapped task_def map_of_mapped)
  then show ?thesis
    using CheckState_running [OF run, of now] checked_inv [OF inv, of now] assms by (simp add: waits_def handler_simps)
qed

text \<open>Changes of one or of all tasks that leave the running task running.\<close>

lemma runs_on_task: "runs g i \<Longrightarrow> (\<And>t. tk_IsRunning t \<Longrightarrow> j = i \<Longrightarrow> tk_IsRunning (f t)) \<Longrightarrow> runs (on_task j f g) i"
  unfolding on_task_mapped runs_mapped by (auto simp: runs_def)

lemma runs_on_all: "runs g i \<Longrightarrow> (\<And>t. map_of (tg_TaskVec g) i = Some t \<Longrightarrow> tk_IsRunning t \<Longrightarrow> tk_IsRunning (f t)) \<Longrightarrow>
  runs (on_all_tasks f g) i"
  unfolding on_all_mapped runs_mapped by (auto simp: runs_def)

lemma flags_on_task:
  "has_task g i \<Longrightarrow> (\<And>t. tk_Flags (f t) = tk_Flags t) \<Longrightarrow> tk_Flags (task i (on_task j f g)) = tk_Flags (task i g)"
  by (auto simp: on_task_mapped task_def map_of_mapped has_task_iff)

lemma flags_on_all:
  "has_task g i \<Longrightarrow> (\<And>t. tk_Flags (f t) = tk_Flags t) \<Longrightarrow> tk_Flags (task i (on_all_tasks f g)) = tk_Flags (task i g)"
  by (auto simp: on_all_mapped task_def map_of_mapped has_task_iff)

lemma changes_keep [simp]:
  "tk_Flags (SilentEnable t) = tk_Flags t" "tk_IsRunning (SilentEnable t) = tk_IsRunning t"
  "tk_Flags (SilentDisable t) = tk_Flags t" "tk_Flags (Task_Reset t) = tk_Flags t"
  "tk_Flags (if_flag m SilentEnable t) = tk_Flags t" "tk_IsRunning (if_flag m SilentEnable t) = tk_IsRunning t"
  "tk_Flags (if_flag m SilentDisable t) = tk_Flags t" "tk_Flags (if_flag m Task_Reset t) = tk_Flags t"
  "tg_Out (on_task j f g) = tg_Out g" "tg_Out (on_all_tasks f g) = tg_Out g"
  by (simp_all add: SilentEnable_def SilentDisable_def Task_Reset_def if_flag_def on_task_mapped on_all_mapped)

lemma group_functions_start:
  assumes inv: "group_inv g"
  shows "starts (CheckState now) g" "starts (Task_Enable now j) g" "starts (Task_Disable now j) g"
    "starts (Group_Enable now m) g" "starts (Group_Disable now m) g" "starts (OnTimerExpiration now) g"
proof -
  show "starts (CheckState now) g" using starts_after [of id g now] inv by (simp add: starts_def handler_simps)
  show "starts (Task_Enable now j) g" "starts (Task_Disable now j) g" unfolding Task_Enable_def Task_Disable_def
    by (intro starts_after group_inv_on_task inv calm_changes changes_keep)+
  show "starts (Group_Enable now m) g" "starts (Group_Disable now m) g" unfolding Group_Enable_def Group_Disable_def
    by (intro starts_after group_inv_on_all inv calm_changes changes_keep)+
  show "starts (OnTimerExpiration now) g" unfolding OnTimerExpiration_def
    by (intro starts_after group_inv_frame inv) simp
qed

lemma Task_OnComplete_starts:
  assumes inv: "group_inv g" and has: "has_task g i"
  shows "starts (Task_OnComplete now i b) g"
proof (cases "tk_IsRunning (task i g)")
  case True
  let ?u = "\<lambda>g. (on_task i (Task_NVII_OnComplete now b) (on_task i (\<lambda>t. t\<lparr>tk_IsRunning := False\<rparr>) g))\<lparr>tg_IsRunning := False\<rparr>"
  have "starts (in_order [modify ?u, CheckState now]) g"
    by (rule starts_after) (use Task_OnComplete_runs(2) [OF inv True has] in simp_all)
  with Task_OnComplete_runs(1) [OF inv True has] show ?thesis by (simp add: starts_def handler_simps)
next
  case False
  with inv show ?thesis by (simp add: starts_def Task_OnComplete_def handler_simps)
qed

lemma group_functions_wait:
  assumes inv: "group_inv g" and run: "runs g i"
  shows "waits i (CheckState now) g" "waits i (Task_Enable now j) g" "j \<noteq> i \<Longrightarrow> waits i (Task_Disable now j) g"
    "waits i (Group_Enable now m) g" "tk_Flags (task i g) AND m = 0 \<Longrightarrow> waits i (Group_Disable now m) g"
    "waits i (OnTimerExpiration now) g"
    "j \<noteq> i \<Longrightarrow> has_task g j \<Longrightarrow> waits i (Task_OnComplete now j b) g"
proof -
  from run have has: "has_task g i" by (simp add: runs_iff)
  show "waits i (CheckState now) g" using waits_after [of id g i now] inv run by (simp add: waits_def handler_simps)
  show "waits i (Task_Enable now j) g" unfolding Task_Enable_def
    by (intro waits_after group_inv_on_task inv calm_changes runs_on_task run flags_on_task has) simp_all
  show "j \<noteq> i \<Longrightarrow> waits i (Task_Disable now j) g" unfolding Task_Disable_def
    by (intro waits_after group_inv_on_task inv calm_changes runs_on_task run flags_on_task has) simp_all
  show "waits i (Group_Enable now m) g" unfolding Group_Enable_def
    by (intro waits_after group_inv_on_all inv calm_changes runs_on_all run flags_on_all has) simp_all
  show "waits i (OnTimerExpiration now) g" unfolding OnTimerExpiration_def
    by (intro waits_after group_inv_frame inv) (simp_all add: run task_def)
  show "tk_Flags (task i g) AND m = 0 \<Longrightarrow> waits i (Group_Disable now m) g" unfolding Group_Disable_def
    by (intro waits_after group_inv_on_all inv calm_changes runs_on_all run flags_on_all has) (simp_all add: if_flag_def task_def)
  show "waits i (Task_OnComplete now j b) g" if j: "j \<noteq> i" "has_task g j"
  proof -
    have "\<not> tk_IsRunning (task j g)" using runs_unique [OF inv run, of j] j by (auto simp: runs_iff)
    then show ?thesis using inv run by (simp add: waits_def Task_OnComplete_def handler_simps)
  qed
qed

text \<open>Of the enabled tasks: \<open>CheckState\<close> does not change which they are.\<close>

definition switches :: "AsyncTaskGroup \<Rightarrow> (nat \<times> bool) list" where
  "switches g = map (\<lambda>(i, t). (i, tk_IsEnabled t)) (tg_TaskVec g)"

lemma switches_mapped: "(\<And>j t. tk_IsEnabled (f j t) = tk_IsEnabled t) \<Longrightarrow> switches (mapped f g) = switches g"
  by (simp add: switches_def mapped_def case_prod_beta)

lemma switches_frame [simp]: "switches (g\<lparr>tg_IsRunning := b\<rparr>) = switches g" "switches (group_out x g) = switches g"
  "switches (checked now g) = switches g" "switches (g\<lparr>tg_Timer := p\<rparr>) = switches g"
  "switches (on_task i (\<lambda>t. t\<lparr>tk_IsRunning := True, tk_IsComplete := False, tk_IsExpired := False\<rparr>) g) = switches g"
  by (simp_all add: checked_def Group_Update_def on_all_mapped on_task_mapped switches_mapped)
    (simp_all add: switches_def group_out_def)

lemma CheckState_switches: "switches (snd (CheckState now g)) = switches g"
proof (cases "tg_Shutdown g")
  case False
  have "switches (snd (Dispatch i h)) = switches h" for i h by (simp add: Dispatch_def handler_simps)
  moreover have "switches (snd (RestartTimer t h)) = switches h" for t h by (simp add: RestartTimer_def handler_simps)
  ultimately show ?thesis unfolding CheckState_runs [OF False] by (simp split: option.split)
qed (simp add: CheckState_def handler_simps)

definition enabled_tasks :: "AsyncTaskGroup \<Rightarrow> nat" where
  "enabled_tasks g = length (filter snd (switches g))"

lemma enabled_tasks_Disable:
  assumes "enabled g i"
  shows "enabled_tasks (snd (Task_Disable now i g)) < enabled_tasks g"
proof -
  have less: "length (filter snd (map (\<lambda>(j, b). (j, j \<noteq> i \<and> b)) xs)) < length (filter snd xs)" if "(i, True) \<in> set xs" for xs
  proof -
    have le: "length (filter snd (map (\<lambda>(j, b). (j, j \<noteq> i \<and> b)) ys)) \<le> length (filter snd ys)" for ys :: "(nat \<times> bool) list"
      by (induction ys) auto
    from that obtain ys zs where "xs = ys @ (i, True) # zs" by (meson split_list)
    then show ?thesis using le [of ys] le [of zs] by (simp add: add_mono_thms_linordered_field(4) less_Suc_eq_le add_mono)
  qed
  have "switches (on_task i SilentDisable g) = map (\<lambda>(j, b). (j, j \<noteq> i \<and> b)) (switches g)"
    by (auto simp: switches_def on_task_def SilentDisable_def)
  moreover have "(i, True) \<in> set (switches g)" using assms by (force simp: enabled_def switches_def dest: map_of_SomeD)
  ultimately show ?thesis using less
    by (simp add: enabled_tasks_def Task_Disable_def handler_simps CheckState_switches)
qed

lemma Task_Disable_dispatches:
  assumes "group_inv g" and "dispatched g (snd (Task_Disable now i g)) = Some j"
  shows "group_inv (snd (Task_Disable now i g)) \<and> enabled (snd (Task_Disable now i g)) j"
proof -
  have "group_inv (on_task i SilentDisable g)" using assms(1) by (simp add: group_inv_on_task calm_changes)
  from CheckState_starts [OF this, of g] CheckState_inv [OF this] assms(2) show ?thesis
    by (simp add: Task_Disable_def handler_simps)
qed

section \<open>The books of commands\<close>

text \<open>A command is known by its acceptor and its sequence number.\<close>

definition answered :: "MasterOut list \<Rightarrow> (nat \<times> int) list" where
  "answered xs = concat (map (\<lambda>x. case x of Mo_AcceptResponse a \<Rightarrow> [(fst a, snd (snd a))] | _ \<Rightarrow> []) xs)"

definition ticket :: "CommandData \<Rightarrow> nat \<times> int" where
  "ticket d = (cd_RspAcceptor d, cd_Sequence d)"

definition owner :: "ControlTask \<Rightarrow> (nat \<times> int) list" where
  "owner t = (case ct_Data t of Some d \<Rightarrow> [ticket d] | None \<Rightarrow> [])"

definition in_progress :: "Master \<Rightarrow> (nat \<times> int) list" where
  "in_progress m =
     (if ma_State m = AMS_Waiting then
        (case ma_Task m of Some MT_ExecuteBO \<Rightarrow> owner (ma_ExecuteBO m) | Some MT_ExecuteSP \<Rightarrow> owner (ma_ExecuteSP m) | _ \<Rightarrow> [])
      else [])"

definition command_books :: "Master \<Rightarrow> (nat \<times> int) list" where
  "command_books m = answered (ma_Out m) @ in_progress m @ map ticket (cq_Types (ma_Commands m))"

definition waits_for_running_task :: "Master \<Rightarrow> bool" where
  "waits_for_running_task m \<longleftrightarrow> (\<exists>t i. ma_Task m = Some t \<and> ma_ScheduledTask m = Some i \<and> map_of (ma_Handlers m) i \<noteq> None \<and>
     runs (ma_Group m) i)"

definition master_inv :: "Master \<Rightarrow> bool" where
  "master_inv m \<longleftrightarrow> group_inv (ma_Group m) \<and> (ma_State m = AMS_Waiting \<longrightarrow> waits_for_running_task m)"

text \<open>All of it depends on this part of the state, which most statements do not touch.\<close>

definition view :: "Master \<Rightarrow> (MasterState \<times> MasterTask option \<times> nat option) \<times> AsyncTaskGroup \<times> (nat \<times> TaskHandler) list \<times>
    CommandData list \<times> (nat \<times> int) list \<times> CommandData option \<times> CommandData option" where
  "view m = ((ma_State m, ma_Task m, ma_ScheduledTask m), ma_Group m, ma_Handlers m, cq_Types (ma_Commands m),
     answered (ma_Out m), ct_Data (ma_ExecuteBO m), ct_Data (ma_ExecuteSP m))"

definition sound :: "(nat \<times> int) list \<Rightarrow> Master \<Rightarrow> bool" where
  "sound acc m \<longleftrightarrow> master_inv m \<and> command_books m = acc"

lemma sound_view: "view m' = view m \<Longrightarrow> sound acc m' = sound acc m"
  by (simp add: view_def sound_def master_inv_def waits_for_running_task_def command_books_def in_progress_def owner_def
      split: option.split MasterTask.split)

lemma answered_append [simp]: "answered (xs @ ys) = answered xs @ answered ys"
  by (simp add: answered_def)

lemma answered_one [simp]:
  "answered [] = []" "answered [Mo_SendRequest a] = []" "answered [Mo_StateChange s] = []" "answered [Mo_Foreign i] = []"
  "answered [Mo_AcceptResponse b] = [(fst b, snd (snd b))]"
  by (simp_all add: answered_def)

lemma answered_published [simp]: "answered (map Mo_Published xs) = []"
  by (induction xs) (simp_all add: answered_def)

lemma answered_own [simp]: "answered (map Mo_AcceptResponse (ControlTask_answer s t)) = owner t"
  by (simp add: ControlTask_answer_def owner_def ticket_def answered_def split: option.split)

lemma view_frame [simp]:
  "view (m\<lparr>ma_Request := a\<rparr>) = view m" "view (m\<lparr>ma_VtoBuffer := b\<rparr>) = view m" "view (m\<lparr>ma_VtoWriter := w\<rparr>) = view m"
  "view (m\<lparr>ma_TimeStart := n\<rparr>) = view m" "view (m\<lparr>ma_TimeDelay := n\<rparr>) = view m" "view (m\<lparr>ma_PollMask := n\<rparr>) = view m"
  "view (m\<lparr>ma_UnsolEnable := c\<rparr>) = view m" "view (m\<lparr>ma_UnsolMask := n\<rparr>) = view m" "view (m\<lparr>ma_AppWaiting := c\<rparr>) = view m"
  "view (m\<lparr>ma_LastIIN := l\<rparr>) = view m" "view (m\<lparr>ma_StackState := t\<rparr>) = view m"
  by (simp_all add: view_def)

text \<open>The statements of the requests keep the view.\<close>

lemma keeps_with_value: "(\<And>x. keeps P (k x)) \<Longrightarrow> keeps P (with_value f k)"
  by (simp add: keeps_def handler_simps split: sum.split)

lemma keeps_calling: "(\<And>s. P s \<Longrightarrow> P (snd (f s))) \<Longrightarrow> (\<And>x. keeps P (k x)) \<Longrightarrow> keeps P (calling f k)"
  unfolding keeps_def calling_def
proof (intro allI impI)
  fix s assume f: "\<And>s. P s \<Longrightarrow> P (snd (f s))" and k: "\<And>x. \<forall>s. P s \<longrightarrow> P (snd (k x s))" and "P s"
  then have "P (snd (f s))" by blast
  with k show "P (snd (case f s of (Inl e, s) \<Rightarrow> (Some e, s) | (Inr x, s) \<Rightarrow> k x s))"
    by (cases "f s"; cases "fst (f s)") auto
qed

abbreviation seen :: "((MasterState \<times> MasterTask option \<times> nat option) \<times> AsyncTaskGroup \<times> (nat \<times> TaskHandler) list \<times>
    CommandData list \<times> (nat \<times> int) list \<times> CommandData option \<times> CommandData option) \<Rightarrow> Master handler \<Rightarrow> bool" where
  "seen v h \<equiv> keeps (\<lambda>m. view m = v) h"

lemma seen_leaf [keeps_intros]:
  "seen v (on_request h)" "seen v (store_request b)" "seen v (set_request f)" "seen v (write_placeholder g n)"
  "seen v (modify (\<lambda>m. m\<lparr>ma_TimeStart := now\<rparr>))"
  by (auto simp: keeps_def view_def on_request_def store_request_def set_request_def write_placeholder_def of_request_def
      handler_simps split: prod.split sum.split)

lemma seen_request: "view m = v \<Longrightarrow> view (snd (of_request f m)) = v"
  by (simp add: view_def of_request_def split: prod.split)

lemma seen_calling_request [keeps_intros]: "(\<And>x. seen v (k x)) \<Longrightarrow> seen v (calling (of_request f) k)"
  by (rule keeps_calling) (simp_all add: seen_request)

lemma seen_with_value [keeps_intros]: "(\<And>x. seen v (k x)) \<Longrightarrow> seen v (with_value f k)"
  by (rule keeps_with_value)

lemma seen_option [keeps_intros]: "seen v f \<Longrightarrow> (\<And>x. seen v (g x)) \<Longrightarrow> seen v (case p of None \<Rightarrow> f | Some x \<Rightarrow> g x)"
  by (cases p) simp_all

lemma seen_vto_events: "seen v (write_vto_events n i)"
proof (induction n arbitrary: i)
  case (Suc n)
  then show ?case
    by (auto simp: Let_def split: prod.split intro!: keeps_intros)
qed (simp add: keeps_intros)

lemma seen_control: "seen v ExecuteBO_ConfigureRequest" "seen v ExecuteSP_ConfigureRequest"
proof -
  have "ct_Data (fst (snd (ControlTask_ConfigureRequest (t, a)))) = ct_Data t" for t a
    by (auto simp: ControlTask_ConfigureRequest_def split: option.split sum.split prod.split)
  then show "seen v ExecuteBO_ConfigureRequest" "seen v ExecuteSP_ConfigureRequest"
    by (auto simp: keeps_def view_def ExecuteBO_ConfigureRequest_def ExecuteSP_ConfigureRequest_def split: prod.split)
      (metis fst_conv snd_conv)+
qed

lemma seen_ConfigureRequest: "seen v (MasterTask_ConfigureRequest now t)"
  by (cases t) (auto simp: ClassPoll_ConfigureRequest_def ClearRestart_ConfigureRequest_def ConfigureUnsol_ConfigureRequest_def
      TimeSync_ConfigureRequest_def VtoTransmit_ConfigureRequest_def write_class_def seen_control Let_def
      split: prod.split intro!: keeps_intros keeps_calling seen_vto_events)

lemma view_master_out [simp]: "answered xs = [] \<Longrightarrow> view (master_out xs m) = view m"
  by (simp add: view_def master_out_def)

lemma seen_Init: "view (MasterTask_Init t m) = view m"
  by (simp add: MasterTask_Init_def)

lemma seen_StartTask: "seen v (Master_StartTask now t b)"
  by (auto simp: Master_StartTask_def Master_SendRequest_def seen_Init simp del: MasterTask_ConfigureRequest.simps
      intro!: keeps_intros seen_ConfigureRequest)

definition busy :: "nat \<Rightarrow> MasterTask \<Rightarrow> Master \<Rightarrow> Master" where
  "busy i t m = m\<lparr>ma_State := AMS_Waiting, ma_Task := Some t, ma_ScheduledTask := Some i\<rparr>"

lemma view_AMS_StartTask: "view (snd (AMS_StartTask now i t m)) = view (if ma_State m = AMS_Idle then busy i t m else m)"
  using keepsD [OF seen_StartTask [of "view (busy i t m)" now t True], of "busy i t m"]
  by (simp add: AMS_StartTask_def handler_simps busy_def)

section \<open>The handlers of the tasks\<close>

lemma sound_busy:
  "master_inv m \<Longrightarrow> runs (ma_Group m) i \<Longrightarrow> map_of (ma_Handlers m) i \<noteq> None \<Longrightarrow> command_books (busy i t m) = acc \<Longrightarrow>
   sound acc (busy i t m)"
  by (auto simp: sound_def master_inv_def waits_for_running_task_def busy_def)

lemma sound_AMS_StartTask:
  assumes "sound acc m" and "ma_State m \<noteq> AMS_Waiting" and "runs (ma_Group m) i" and "map_of (ma_Handlers m) i \<noteq> None"
    and "t \<noteq> MT_ExecuteBO" "t \<noteq> MT_ExecuteSP"
  shows "sound acc (snd (AMS_StartTask now i t m))"
proof -
  have "command_books (busy i t m) = command_books m"
    using assms(2,5,6) by (cases t) (simp_all add: command_books_def in_progress_def busy_def)
  then have "sound acc (busy i t m)" using assms by (intro sound_busy) (simp_all add: sound_def)
  with assms(1) show ?thesis unfolding sound_view [OF view_AMS_StartTask] by simp
qed

lemma Read_books:
  "Read_Binary q = Inr ((b, d), q') \<Longrightarrow> cq_Types q = d # cq_Types q'"
  "Read_Setpoint q = Inr ((p, d), q') \<Longrightarrow> cq_Types q = d # cq_Types q'"
  by (auto simp: Read_Binary_def Read_Setpoint_def split: list.splits if_splits)

lemma Respond_books:
  assumes "RespondToCommand st q = Inr (r, q')"
  shows "case r of None \<Rightarrow> q' = q | Some a \<Rightarrow> map ticket (cq_Types q) = (fst a, snd (snd a)) # map ticket (cq_Types q')"
  using assms Read_books
  by (auto simp: RespondToCommand_def ExecuteCommand_def ticket_def split: CommandTypes.splits sum.splits)

lemma sound_ProcessCommand:
  assumes s: "sound acc m" and "ma_State m \<noteq> AMS_Waiting" and run: "runs (ma_Group m) i" and h: "map_of (ma_Handlers m) i \<noteq> None"
    and dis: "\<And>m. sound acc m \<Longrightarrow> ma_State m \<noteq> AMS_Waiting \<Longrightarrow> sound acc (snd (dis m))"
  shows "sound acc (snd (ProcessCommand now i dis m))"
proof (cases "ma_State m")
  case AMS_Closed
  show ?thesis
  proof (cases "RespondToCommand CS_HARDWARE_ERROR (ma_Commands m)")
    case (Inl e)
    with AMS_Closed s show ?thesis by (simp add: ProcessCommand_def handler_simps)
  next
    case (Inr x)
    obtain r q where x: "x = (r, q)" by (cases x)
    show ?thesis
    proof (cases r)
      case None
      with Inr x AMS_Closed Respond_books [OF Inr [unfolded x]] s dis [of m] show ?thesis
        by (simp add: ProcessCommand_def handler_simps)
    next
      case (Some a)
      with Inr x AMS_Closed Respond_books [OF Inr [unfolded x]] s show ?thesis
        by (simp add: ProcessCommand_def handler_simps sound_def master_inv_def command_books_def in_progress_def master_out_def)
    qed
  qed
next
  case AMS_Idle
  show ?thesis
  proof (cases "CommandQueue_Next (ma_Commands m)")
    case CT_BINARY_OUTPUT
    show ?thesis
    proof (cases "Read_Binary (ma_Commands m)")
      case (Inl e)
      with AMS_Idle CT_BINARY_OUTPUT s show ?thesis by (simp add: ProcessCommand_def handler_simps)
    next
      case (Inr x)
      obtain b d q where x: "x = ((b, d), q)" by (cases x; cases "fst x") auto
      let ?m = "m\<lparr>ma_Commands := q, ma_ExecuteBO := ControlTask_Set (Cmd_BinaryOutput b) d True (ma_ExecuteBO m)\<rparr>"
      have "sound acc (busy i MT_ExecuteBO ?m)"
        using s run h AMS_Idle Read_books(1) [OF Inr [unfolded x]]
        by (intro sound_busy) (auto simp: sound_def master_inv_def command_books_def in_progress_def busy_def owner_def ControlTask_Set_def)
      then have "sound acc (snd (AMS_StartTask now i MT_ExecuteBO ?m))"
        unfolding sound_view [OF view_AMS_StartTask] using AMS_Idle by simp
      with AMS_Idle CT_BINARY_OUTPUT Inr x show ?thesis by (simp add: ProcessCommand_def handler_simps)
    qed
  next
    case CT_SETPOINT
    show ?thesis
    proof (cases "Read_Setpoint (ma_Commands m)")
      case (Inl e)
      with AMS_Idle CT_SETPOINT s show ?thesis by (simp add: ProcessCommand_def handler_simps)
    next
      case (Inr x)
      obtain b d q where x: "x = ((b, d), q)" by (cases x; cases "fst x") auto
      let ?m = "m\<lparr>ma_Commands := q, ma_ExecuteSP := ControlTask_Set (Cmd_Setpoint b) d True (ma_ExecuteSP m)\<rparr>"
      have "sound acc (busy i MT_ExecuteSP ?m)"
        using s run h AMS_Idle Read_books(2) [OF Inr [unfolded x]]
        by (intro sound_busy) (auto simp: sound_def master_inv_def command_books_def in_progress_def busy_def owner_def ControlTask_Set_def)
      then have "sound acc (snd (AMS_StartTask now i MT_ExecuteSP ?m))"
        unfolding sound_view [OF view_AMS_StartTask] using AMS_Idle by simp
      with AMS_Idle CT_SETPOINT Inr x show ?thesis by (simp add: ProcessCommand_def handler_simps)
    qed
  next
    case CT_NONE
    with AMS_Idle s dis [of m] show ?thesis by (simp add: ProcessCommand_def handler_simps)
  qed
next
  case AMS_Waiting
  with assms(2) show ?thesis by simp
qed

lemma sound_frame [simp]:
  "sound acc (m\<lparr>ma_PollMask := n\<rparr>) = sound acc m" "sound acc (m\<lparr>ma_UnsolEnable := c, ma_UnsolMask := n\<rparr>) = sound acc m"
  "sound acc (m\<lparr>ma_VtoWriter := w, ma_VtoBuffer := b\<rparr>) = sound acc m" "sound acc (m\<lparr>ma_AppWaiting := c\<rparr>) = sound acc m"
  "sound acc (m\<lparr>ma_LastIIN := l\<rparr>) = sound acc m" "sound acc (m\<lparr>ma_StackState := t\<rparr>) = sound acc m" "sound acc (m\<lparr>ma_VtoWriter := w\<rparr>) = sound acc m"
  "answered xs = [] \<Longrightarrow> sound acc (master_out xs m) = sound acc m"
  by (rule sound_view; simp)+

lemma sound_call_handler:
  assumes s: "sound acc m" "ma_State m \<noteq> AMS_Waiting" "runs (ma_Group m) i" "map_of (ma_Handlers m) i \<noteq> None"
    and dis: "\<And>m. sound acc m \<Longrightarrow> ma_State m \<noteq> AMS_Waiting \<Longrightarrow> sound acc (snd (dis m))"
  shows "sound acc (snd (call_handler now i dis h m))"
proof (cases h)
  case TH_TransmitVtoData
  obtain r w b where flush: "VtoWriter_Flush accept_vto (NumAvailable (ma_VtoBuffer m)) (ma_VtoWriter m) (ma_VtoBuffer m) = (r, w, b)"
    using prod_cases3 by blast
  let ?m = "m\<lparr>ma_VtoWriter := w, ma_VtoBuffer := b\<rparr>"
  have "sound acc ?m" using s(1) by simp
  with s sound_AMS_StartTask [of acc ?m i MT_VtoTransmit now] dis [of ?m] dis [of m] flush TH_TransmitVtoData show ?thesis
    by (simp add: TransmitVtoData_def handler_simps split: sum.split)
qed (use s sound_AMS_StartTask dis in \<open>simp_all add: ClassPoll_for_def ChangeUnsol_def SyncTime_def WriteIIN_def handler_simps sound_ProcessCommand\<close>)

lemma sound_group_call:
  assumes s: "sound acc m" "ma_State m \<noteq> AMS_Waiting" and st: "starts f (ma_Group m)"
    and call: "\<And>j m. sound acc m \<Longrightarrow> ma_State m \<noteq> AMS_Waiting \<Longrightarrow> runs (ma_Group m) j \<Longrightarrow> sound acc (snd (call j m))"
  shows "sound acc (snd (group_call call f m))"
proof -
  obtain r g where f: "f (ma_Group m) = (r, g)" by (cases "f (ma_Group m)")
  let ?m = "m\<lparr>ma_Group := g\<rparr>"
  have "sound acc ?m" using s st f by (simp add: sound_def master_inv_def command_books_def in_progress_def starts_def)
  with call [of ?m] st f s(2) show ?thesis by (auto simp: group_call_def starts_def split: option.split)
qed

lemma sound_run_task:
  "sound acc m \<Longrightarrow> ma_State m \<noteq> AMS_Waiting \<Longrightarrow> runs (ma_Group m) i \<Longrightarrow> sound acc (snd (run_task n now i m))"
proof (induction n arbitrary: i m)
  case (Suc n)
  have dis: "sound acc (snd (group_call (run_task n now) (Task_Disable now i) m))"
    if "sound acc m" "ma_State m \<noteq> AMS_Waiting" for i m
    by (rule sound_group_call [OF that group_functions_start(3) Suc.IH]) (use that in \<open>simp_all add: sound_def master_inv_def\<close>)
  show ?case
  proof (cases "map_of (ma_Handlers m) i")
    case None
    with Suc.prems show ?thesis by (simp add: handler_simps)
  next
    case (Some h)
    with Suc.prems sound_call_handler [of acc m i _ now h] dis show ?thesis by (simp add: handler_simps)
  qed
qed (simp add: handler_simps)

text \<open>A function of the group, whatever the state: the waiting master's task runs, so that no other is started.\<close>

lemma sound_on_group:
  assumes s: "sound acc m" and st: "starts f (ma_Group m)"
    and w: "\<And>i. ma_State m = AMS_Waiting \<Longrightarrow> map_of (ma_Handlers m) i \<noteq> None \<Longrightarrow> runs (ma_Group m) i \<Longrightarrow> waits i f (ma_Group m)"
  shows "sound acc (snd (on_group now f m))"
proof (cases "ma_State m = AMS_Waiting")
  case False
  with sound_group_call [OF s _ st sound_run_task] show ?thesis by (simp add: on_group_def handler_simps)
next
  case True
  with s obtain t i where i: "ma_Task m = Some t" "ma_ScheduledTask m = Some i" "map_of (ma_Handlers m) i \<noteq> None" "runs (ma_Group m) i"
    by (auto simp: sound_def master_inv_def waits_for_running_task_def)
  obtain r g where f: "f (ma_Group m) = (r, g)" by (cases "f (ma_Group m)")
  from w [OF True i(3,4)] f have g: "group_inv g" "runs g i" "dispatched (ma_Group m) g = None"
    by (simp_all add: waits_def dispatched_none)
  then have "sound acc (m\<lparr>ma_Group := g\<rparr>)"
    using s i by (cases t) (auto simp: sound_def master_inv_def waits_for_running_task_def command_books_def in_progress_def)
  with f g show ?thesis by (simp add: on_group_def group_call_def handler_simps split: option.split)
qed

lemma call_handler_cong:
  assumes "\<And>m'. ma_Group m' = ma_Group m \<Longrightarrow> dis m' = dis' m'"
  shows "call_handler now i dis h m = call_handler now i dis' h m"
proof (cases h)
  case TH_ProcessCommand
  with assms show ?thesis
    by (auto simp: ProcessCommand_def handler_simps split: sum.split option.split CommandTypes.split)
next
  case TH_TransmitVtoData
  with assms show ?thesis by (simp add: TransmitVtoData_def handler_simps split: prod.split sum.split)
qed (use assms in \<open>simp_all add: SyncTime_def WriteIIN_def handler_simps\<close>)

text \<open>The handing over of the turn ends. When the scheduler calls the handler of a task and the handler has nothing to do, it
  disables its task, which starts the next one from within the call. A handler that hands over has disabled its own task, so
  that the calls nest no deeper than there are enabled tasks: with that many steps \<open>run_task\<close> has its result, and more change nothing.\<close>

theorem handover_ends:
  assumes "group_inv (ma_Group m)" and "enabled (ma_Group m) i" and "enabled_tasks (ma_Group m) \<le> n"
  shows "run_task (n + k) now i m = run_task n now i m"
  using assms
proof (induction n arbitrary: i m)
  case 0
  then have "enabled_tasks (snd (Task_Disable now i (ma_Group m))) < 0" using enabled_tasks_Disable by fastforce
  then show ?case by simp
next
  case (Suc n)
  have dis: "group_call (run_task (n + k) now) (Task_Disable now i) m' = group_call (run_task n now) (Task_Disable now i) m'"
    if g: "ma_Group m' = ma_Group m" for m'
  proof -
    have "run_task (n + k) now j (m'\<lparr>ma_Group := snd (Task_Disable now i (ma_Group m))\<rparr>) =
        run_task n now j (m'\<lparr>ma_Group := snd (Task_Disable now i (ma_Group m))\<rparr>)"
      if "dispatched (ma_Group m) (snd (Task_Disable now i (ma_Group m))) = Some j" for j
      using Task_Disable_dispatches [OF Suc.prems(1) that] enabled_tasks_Disable [OF Suc.prems(2), of now] Suc.prems(3)
      by (intro Suc.IH) simp_all
    then show ?thesis using g by (auto simp: group_call_def split: prod.split option.split)
  qed
  then show ?case using call_handler_cong [OF dis] by (simp add: handler_simps split: option.split)
qed

section \<open>Events\<close>

text \<open>The tasks of other stacks in the group are theirs, and the master's are the master's.\<close>

definition foreign :: "Master \<Rightarrow> nat \<Rightarrow> bool" where
  "foreign m i \<longleftrightarrow> has_task (ma_Group m) i \<and> map_of (ma_Handlers m) i = None"

fun master_possible :: "Master \<Rightarrow> MasterEvent \<Rightarrow> bool" where
  "master_possible m (ME_ForeignEnable now i) = foreign m i"
| "master_possible m (ME_ForeignDisable now i) = foreign m i"
| "master_possible m (ME_ForeignComplete now i b) = foreign m i"
| "master_possible m e = True"

lemma sound_group_inv: "sound acc m \<Longrightarrow> group_inv (ma_Group m)"
  by (simp add: sound_def master_inv_def)

lemma sound_group_change:
  assumes "sound acc m" and "group_inv g" and "\<And>i. runs (ma_Group m) i \<Longrightarrow> runs g i"
  shows "sound acc (m\<lparr>ma_Group := g\<rparr>)"
  using assms by (cases "ma_Task m") (auto simp: sound_def master_inv_def waits_for_running_task_def command_books_def in_progress_def
    split: MasterTask.split)

lemma keeps_on_group [keeps_intros]:
  "keeps (sound acc) (on_group now (CheckState now))" "keeps (sound acc) (on_group now (Task_Enable now j))"
  "keeps (sound acc) (on_group now (Group_Enable now m))" "keeps (sound acc) (on_group now (OnTimerExpiration now))"
  by (auto simp: keeps_def intro!: sound_on_group group_functions_start group_functions_wait dest: sound_group_inv)

lemma keeps_group_change [keeps_intros]:
  "keeps (sound acc) (modify (\<lambda>m. m\<lparr>ma_Group := on_task (j m) SilentEnable (ma_Group m)\<rparr>))"
  "keeps (sound acc) (modify (\<lambda>m. m\<lparr>ma_Group := on_task (j m) SilentEnable (ResetTasks k (ma_Group m))\<rparr>))"
proof -
  have change: "keeps (sound acc) (modify (\<lambda>m. m\<lparr>ma_Group := u m (ma_Group m)\<rparr>))"
    if "\<And>m g. group_inv g \<Longrightarrow> group_inv (u m g)" "\<And>m g i. runs g i \<Longrightarrow> runs (u m g) i" for u
    using that by (simp add: keeps_def handler_simps sound_group_change sound_group_inv)
  show "keeps (sound acc) (modify (\<lambda>m. m\<lparr>ma_Group := on_task (j m) SilentEnable (ma_Group m)\<rparr>))"
    by (rule change) (simp_all add: group_inv_on_task calm_changes runs_on_task)
  show "keeps (sound acc) (modify (\<lambda>m. m\<lparr>ma_Group := on_task (j m) SilentEnable (ResetTasks k (ma_Group m))\<rparr>))"
    by (rule change) (simp_all add: ResetTasks_def group_inv_on_task group_inv_on_all calm_changes runs_on_task runs_on_all)
qed

lemma keeps_UpdateState [keeps_intros]: "keeps (sound acc) (Master_UpdateState now s)"
  unfolding Master_UpdateState_def
proof (intro keeps_branch keeps_in_order)
  fix h assume "h \<in> set [modify (\<lambda>m. master_out [Mo_StateChange s] (m\<lparr>ma_StackState := s\<rparr>)),
    if s = SS_COMMS_UP then reading (\<lambda>m. on_group now (Task_Enable now (ma_VtoTransmitTask m))) else skip]"
  then show "keeps (sound acc) h" by (auto intro!: keeps_intros)
qed (rule keeps_intros)

lemma keeps_take_IIN [keeps_intros]: "keeps (sound acc) (take_IIN now f)"
  unfolding take_IIN_def ProcessIIN_def by (rule keeps_with_value) (auto simp: Let_def intro!: keeps_intros)

text \<open>The task the master waits for ends: its command is answered when the task fails, and only then or in its response.\<close>

lemma sound_idle:
  assumes "sound acc m" and "ma_State m = AMS_Waiting" and "ma_Task m = Some t" and "t \<noteq> MT_ExecuteBO" "t \<noteq> MT_ExecuteSP"
    and "view m' = view m" and "s \<noteq> AMS_Waiting"
  shows "sound acc (m'\<lparr>ma_State := s\<rparr>)"
proof -
  have "view (m'\<lparr>ma_State := s\<rparr>) = view (m\<lparr>ma_State := s\<rparr>)" using assms(6) by (simp add: view_def)
  moreover have "sound acc (m\<lparr>ma_State := s\<rparr>)"
    using assms(1-5,7) by (cases t) (simp_all add: sound_def master_inv_def command_books_def in_progress_def)
  ultimately show ?thesis by (rule sound_view [THEN iffD2])
qed

lemma sound_OnFailure:
  assumes "sound acc m" and "ma_State m = AMS_Waiting" and "ma_Task m = Some t" and "s \<noteq> AMS_Waiting"
  shows "sound acc (MasterTask_OnFailure t (m\<lparr>ma_State := s\<rparr>))"
proof (cases "t = MT_ExecuteBO \<or> t = MT_ExecuteSP")
  case True
  with assms show ?thesis
    by (elim disjE) (simp_all add: sound_def master_inv_def command_books_def in_progress_def master_out_def)
next
  case False
  then have "view (MasterTask_OnFailure t (m\<lparr>ma_State := s\<rparr>)) = view (m\<lparr>ma_State := s\<rparr>)"
    by (cases t) (simp_all add: VtoTransmit_Deselect_def)
  moreover have "sound acc (m\<lparr>ma_State := s\<rparr>)" using sound_idle [OF assms(1-3) _ _ refl assms(4)] False by blast
  ultimately show ?thesis by (rule sound_view [THEN iffD2])
qed

lemma view_ReadData: "view (snd (DataPoll_ReadData f m)) = view m"
  by (simp add: DataPoll_ReadData_def split: prod.split)

lemma OnPartialResponse_view: "view (snd (MasterTask_OnPartialResponse t f m)) = view m"
  using view_ReadData [of f m] by (cases t) (auto simp: then_return_def split: prod.split option.split)

lemma OnPartialResponse_control:
  "t = MT_ExecuteBO \<or> t = MT_ExecuteSP \<Longrightarrow> MasterTask_OnPartialResponse t f m = (Inr TR_CONTINUE, m)"
  by auto

lemma OnFinalResponse_view:
  assumes "t \<noteq> MT_ExecuteBO" "t \<noteq> MT_ExecuteSP"
  shows "view (snd (MasterTask_OnFinalResponse now t f m)) = view m"
proof (cases t)
  case MT_TimeSync
  then show ?thesis by (auto simp: TimeSync_OnFinalResponse_def Let_def split: sum.split)
qed (use assms view_ReadData [of f m] in \<open>auto simp: then_return_def VtoTransmit_Deselect_def split: prod.split option.split\<close>)

lemma OnFinalResponse_control:
  assumes "sound acc m" and "ma_State m = AMS_Waiting" and "ma_Task m = Some t" and "t = MT_ExecuteBO \<or> t = MT_ExecuteSP"
    and "MasterTask_OnFinalResponse now t f m = (r, m')"
  shows "r \<noteq> Inr TR_FAIL" and "r \<noteq> Inr TR_SUCCESS \<Longrightarrow> view m' = view m"
    and "r = Inr TR_SUCCESS \<Longrightarrow> sound acc (m'\<lparr>ma_State := AMS_Idle\<rparr>)" and "ma_Group m' = ma_Group m"
  using assms
  by (auto simp: ControlTask_response_def ControlTask_OnFinalResponse_def view_def sound_def master_inv_def command_books_def
      in_progress_def master_out_def split: sum.splits option.splits prod.splits if_splits)

lemma sound_final:
  assumes s: "sound acc m" and w: "ma_State m = AMS_Waiting" and t: "ma_Task m = Some t"
    and r: "MasterTask_OnFinalResponse now t f m = (r, m')"
  shows "ma_Group m' = ma_Group m"
    and "r \<noteq> Inr TR_FAIL \<Longrightarrow> r \<noteq> Inr TR_SUCCESS \<Longrightarrow> sound acc m'"
    and "r = Inr TR_FAIL \<or> r = Inr TR_SUCCESS \<Longrightarrow> sound acc (m'\<lparr>ma_State := AMS_Idle\<rparr>)"
proof -
  have "ma_Group m' = ma_Group m \<and> (r \<noteq> Inr TR_FAIL \<longrightarrow> r \<noteq> Inr TR_SUCCESS \<longrightarrow> sound acc m') \<and>
    (r = Inr TR_FAIL \<or> r = Inr TR_SUCCESS \<longrightarrow> sound acc (m'\<lparr>ma_State := AMS_Idle\<rparr>))"
  proof (cases "t = MT_ExecuteBO \<or> t = MT_ExecuteSP")
    case True
    note c = OnFinalResponse_control [OF s w t True r]
    have "r \<noteq> Inr TR_SUCCESS \<Longrightarrow> sound acc m'" using c(2) sound_view [of m' m acc] s by blast
    with c(1,3,4) show ?thesis by blast
  next
    case False
    then have v: "view m' = view m" using OnFinalResponse_view [of t now f m] r by simp
    moreover have "ma_Group m' = ma_Group m" using v by (simp add: view_def)
    moreover have "sound acc m'" using sound_view [OF v] s by blast
    moreover have "sound acc (m'\<lparr>ma_State := AMS_Idle\<rparr>)" using sound_idle [OF s w t _ _ v] False by blast
    ultimately show ?thesis by blast
  qed
  then show "ma_Group m' = ma_Group m" "r \<noteq> Inr TR_FAIL \<Longrightarrow> r \<noteq> Inr TR_SUCCESS \<Longrightarrow> sound acc m'"
    "r = Inr TR_FAIL \<or> r = Inr TR_SUCCESS \<Longrightarrow> sound acc (m'\<lparr>ma_State := AMS_Idle\<rparr>)" by blast+
qed

lemma waiting_task:
  assumes "sound acc m" and "ma_State m = AMS_Waiting"
  obtains t i where "ma_Task m = Some t" "ma_ScheduledTask m = Some i" "map_of (ma_Handlers m) i \<noteq> None" "runs (ma_Group m) i"
    "has_task (ma_Group m) i"
  using assms by (auto simp: sound_def master_inv_def waits_for_running_task_def runs_iff)

lemma sound_completion:
  assumes "sound acc m" and "ma_State m \<noteq> AMS_Waiting" and "has_task (ma_Group m) i"
  shows "sound acc (snd (on_group now (Task_OnComplete now i b) m))"
  by (rule sound_on_group [OF assms(1) Task_OnComplete_starts]) (use assms sound_group_inv in auto)

lemma keeps_AMS [keeps_intros]:
  "keeps (sound acc) AMS_OnLowerLayerUp" "keeps (sound acc) (AMS_OnFailure now)"
  "keeps (sound acc) (AMS_OnPartialResponse now f)" "keeps (sound acc) (AMS_OnFinalResponse now f)"
proof -
  show "keeps (sound acc) AMS_OnLowerLayerUp"
  proof -
    have "AMS_OnLowerLayerUp m = (if ma_State m = AMS_Closed then (None, m\<lparr>ma_State := AMS_Idle\<rparr>) else (Some InvalidStateException, m))" for m
      by (simp add: AMS_OnLowerLayerUp_def AMS_ChangeState_def handler_simps)
    moreover have "sound acc (m\<lparr>ma_State := AMS_Idle\<rparr>)" if "sound acc m" "ma_State m = AMS_Closed" for m
      using that by (simp add: sound_def master_inv_def command_books_def in_progress_def)
    ultimately show ?thesis by (simp add: keeps_def)
  qed
  show "keeps (sound acc) (AMS_OnFailure now)" unfolding keeps_def
  proof (intro allI impI)
    fix m assume s: "sound acc m"
    show "sound acc (snd (AMS_OnFailure now m))"
    proof (cases "ma_State m = AMS_Waiting")
      case True
      from waiting_task [OF s True] obtain t i where i: "ma_Task m = Some t" "ma_ScheduledTask m = Some i" "has_task (ma_Group m) i" by metis
      let ?m = "MasterTask_OnFailure t (m\<lparr>ma_State := AMS_Idle\<rparr>)"
      have "sound acc ?m" using sound_OnFailure [OF s True i(1)] by simp
      moreover have "ma_Group ?m = ma_Group m" "ma_State ?m = AMS_Idle"
        by (cases t; simp add: master_out_def VtoTransmit_Deselect_def)+
      ultimately have "sound acc (snd (on_group now (Task_OnComplete now i False) ?m))" using i by (intro sound_completion) simp_all
      with True i show ?thesis by (simp add: AMS_OnFailure_def with_task_def AMS_ChangeState_def handler_simps)
    qed (use s in \<open>simp add: AMS_OnFailure_def handler_simps\<close>)
  qed
  show "keeps (sound acc) (AMS_OnPartialResponse now f)" unfolding keeps_def
  proof (intro allI impI)
    fix m assume s: "sound acc m"
    show "sound acc (snd (AMS_OnPartialResponse now f m))"
    proof (cases "ma_State m = AMS_Waiting")
      case True
      from waiting_task [OF s True] obtain t i where i: "ma_Task m = Some t" "ma_ScheduledTask m = Some i" "has_task (ma_Group m) i" by metis
      obtain r m' where r: "MasterTask_OnPartialResponse t f m = (r, m')" by fastforce
      then have v: "view m' = view m" using OnPartialResponse_view [of t f m] by simp
      then have s': "sound acc m'" using sound_view [of m' m] s by blast
      have g: "ma_Group m' = ma_Group m" using v by (simp add: view_def)
      have "sound acc (snd (on_group now (Task_OnComplete now i False) (m'\<lparr>ma_State := AMS_Idle\<rparr>)))" if "r = Inr TR_FAIL"
      proof (rule sound_completion)
        have "t \<noteq> MT_ExecuteBO \<and> t \<noteq> MT_ExecuteSP" using r that OnPartialResponse_control [of t f m] by auto
        with sound_idle [OF s True i(1) _ _ v] show "sound acc (m'\<lparr>ma_State := AMS_Idle\<rparr>)" by blast
      qed (use i g in simp_all)
      with True i r s' show ?thesis
        by (simp add: AMS_OnPartialResponse_def with_task_def AMS_ChangeState_def handler_simps split: sum.split TaskResult.split)
    qed (use s in \<open>simp add: AMS_OnPartialResponse_def handler_simps\<close>)
  qed
  show "keeps (sound acc) (AMS_OnFinalResponse now f)" unfolding keeps_def
  proof (intro allI impI)
    fix m assume s: "sound acc m"
    show "sound acc (snd (AMS_OnFinalResponse now f m))"
    proof (cases "ma_State m = AMS_Waiting")
      case True
      from waiting_task [OF s True] obtain t i where i: "ma_Task m = Some t" "ma_ScheduledTask m = Some i" "has_task (ma_Group m) i" by metis
      obtain r m' where r: "MasterTask_OnFinalResponse now t f m = (r, m')" by fastforce
      note final = sound_final [OF s True i(1) r]
      have "sound acc (snd (on_group now (Task_OnComplete now i b) (m'\<lparr>ma_State := AMS_Idle\<rparr>)))"
        if "r = Inr TR_FAIL \<or> r = Inr TR_SUCCESS" for b
        by (rule sound_completion [OF final(3) [OF that]]) (use final(1) i in simp_all)
      moreover have "sound acc (snd (Master_StartTask now t False m'))" if "r = Inr TR_CONTINUE"
      proof -
        have "view (snd (Master_StartTask now t False m')) = view m'" using keepsD [OF seen_StartTask refl] by blast
        then show ?thesis using sound_view final(2) that by blast
      qed
      ultimately show ?thesis using True i r final(2)
        by (simp add: AMS_OnFinalResponse_def with_task_def AMS_ChangeState_def handler_simps split: sum.split TaskResult.split)
    qed (use s in \<open>simp add: AMS_OnFinalResponse_def handler_simps\<close>)
  qed
qed

lemma keeps_OnUnsolResponse [keeps_intros]: "keeps (sound acc) (AMS_OnUnsolResponse f)"
proof -
  have "snd (ProcessDataResponse f m) = snd (DataPoll_ReadData f m)" for m
    by (simp add: ProcessDataResponse_def handler_simps split: prod.split option.split)
  then have "view (snd (ProcessDataResponse f m)) = view m" for m by (simp add: view_ReadData)
  then have "sound acc (snd (ProcessDataResponse f m)) = sound acc m" for m by (rule sound_view)
  then show ?thesis by (simp add: AMS_OnUnsolResponse_def keeps_def handler_simps)
qed

lemma sound_OnLowerLayerDown:
  assumes s: "sound acc m"
  shows "sound acc (snd (AMS_OnLowerLayerDown m))"
    and "fst (AMS_OnLowerLayerDown m) = None \<Longrightarrow> ma_State (snd (AMS_OnLowerLayerDown m)) = AMS_Closed"
proof -
  have "sound acc (snd (AMS_OnLowerLayerDown m)) \<and>
    (fst (AMS_OnLowerLayerDown m) = None \<longrightarrow> ma_State (snd (AMS_OnLowerLayerDown m)) = AMS_Closed)"
  proof (cases "ma_State m")
    case AMS_Waiting
    from waiting_task [OF s this] obtain t i where i: "ma_Task m = Some t" "ma_ScheduledTask m = Some i" by metis
    let ?m = "MasterTask_OnFailure t (m\<lparr>ma_State := AMS_Closed\<rparr>)"
    have "sound acc ?m" using sound_OnFailure [OF s AMS_Waiting i(1)] by simp
    moreover have "ma_State ?m = AMS_Closed" by (cases t) (simp_all add: master_out_def VtoTransmit_Deselect_def)
    ultimately show ?thesis using AMS_Waiting i by (simp add: AMS_OnLowerLayerDown_def with_task_def AMS_ChangeState_def handler_simps)
  next
    case AMS_Idle
    have "sound acc (m\<lparr>ma_State := AMS_Closed\<rparr>)"
      using s AMS_Idle by (simp add: sound_def master_inv_def command_books_def in_progress_def)
    with AMS_Idle show ?thesis by (simp add: AMS_OnLowerLayerDown_def AMS_ChangeState_def handler_simps)
  qed (use s in \<open>simp add: AMS_OnLowerLayerDown_def handler_simps\<close>)
  then show "sound acc (snd (AMS_OnLowerLayerDown m))"
    "fst (AMS_OnLowerLayerDown m) = None \<Longrightarrow> ma_State (snd (AMS_OnLowerLayerDown m)) = AMS_Closed" by blast+
qed

lemma keeps_OnLowerLayerDown [keeps_intros]: "keeps (sound acc) (Master_OnLowerLayerDown now)"
  unfolding keeps_def
proof (intro allI impI)
  fix m assume s: "sound acc m"
  obtain r m' where d: "AMS_OnLowerLayerDown m = (r, m')" by fastforce
  with sound_OnLowerLayerDown [OF s] have s': "sound acc m'" and closed: "r = None \<Longrightarrow> ma_State m' = AMS_Closed" by simp_all
  have "sound acc (snd (in_order [DisableOnlineTasks now, Master_UpdateState now SS_COMMS_DOWN] m'))" if "r = None"
  proof -
    have "sound acc (snd (DisableOnlineTasks now m'))" unfolding DisableOnlineTasks_def
      by (rule sound_on_group [OF s' group_functions_start(5)]) (use sound_group_inv [OF s'] closed that in simp_all)
    then show ?thesis using keepsD [OF keeps_UpdateState [of acc now SS_COMMS_DOWN]] by (auto split: prod.split option.split)
  qed
  with d s' show "sound acc (snd (Master_OnLowerLayerDown now m))"
    by (cases r) (simp_all add: Master_OnLowerLayerDown_def)
qed

lemma keeps_app_idle [keeps_intros]: "keeps (sound acc) app_idle"
  by (simp add: app_idle_def keeps_def handler_simps)

lemma keeps_IAppUser:
  "keeps (sound acc) (Master_OnLowerLayerUp now)" "keeps (sound acc) (Master_OnSolFailure now)"
  "keeps (sound acc) (Master_OnPartialResponse now f)" "keeps (sound acc) (Master_OnFinalResponse now f)"
  "keeps (sound acc) (Master_OnUnsolResponse now f)"
  unfolding Master_OnLowerLayerUp_def Master_OnSolFailure_def Master_OnPartialResponse_def Master_OnFinalResponse_def
    Master_OnUnsolResponse_def EnableOnlineTasks_def
  by (rule keeps_in_order, auto intro: keeps_intros)+

text \<open>What an event adds to the books.\<close>

fun accepted :: "MasterEvent \<Rightarrow> (nat \<times> int) list" where
  "accepted (ME_AcceptCommand cmd index seq acceptor) = [(acceptor, seq)]"
| "accepted e = []"

lemma foreign_keeps:
  assumes s: "sound acc m" and f: "foreign m j"
  shows "sound acc (snd (on_group now (Task_Enable now j) m))" "sound acc (snd (on_group now (Task_Disable now j) m))"
    "sound acc (snd (on_group now (Task_OnComplete now j b) m))"
proof -
  note inv = sound_group_inv [OF s]
  have other: "j \<noteq> i" if "map_of (ma_Handlers m) i \<noteq> None" for i using f that by (auto simp: foreign_def)
  show "sound acc (snd (on_group now (Task_Enable now j) m))" using keepsD [OF keeps_on_group(2) s] .
  show "sound acc (snd (on_group now (Task_Disable now j) m))"
    by (rule sound_on_group [OF s group_functions_start(3) [OF inv]]) (use group_functions_wait(3) [OF inv] other in blast)
  show "sound acc (snd (on_group now (Task_OnComplete now j b) m))"
    by (rule sound_on_group [OF s Task_OnComplete_starts [OF inv]])
      (use group_functions_wait(7) [OF inv] other f in \<open>auto simp: foreign_def\<close>)
qed

lemma handle_master_sound:
  assumes s: "sound acc m" and p: "master_possible m e"
  shows "sound (acc @ accepted e) (snd (handle_master e m))"
proof (cases e)
  case (ME_AcceptCommand cmd index seq acceptor)
  let ?q = "AcceptCommand cmd index seq acceptor (ma_Commands m)"
  have "map ticket (cq_Types ?q) = map ticket (cq_Types (ma_Commands m)) @ [(acceptor, seq)]"
    by (cases cmd) (simp_all add: AcceptCommand_def ticket_def)
  moreover have "in_progress (m\<lparr>ma_Commands := ?q\<rparr>) = in_progress m"
    unfolding in_progress_def by (simp split: option.split MasterTask.split)
  moreover have "master_inv (m\<lparr>ma_Commands := ?q\<rparr>) = master_inv m"
    by (simp add: master_inv_def waits_for_running_task_def)
  ultimately show ?thesis using s by (simp add: ME_AcceptCommand handler_simps sound_def command_books_def)
next
  case (ME_VtoWrite xs channel)
  have "sound acc (snd (handle_master e m))" unfolding ME_VtoWrite handle_master.simps
    by (rule keepsD [where P = "sound acc", OF keeps_calling s]) (auto intro: keeps_intros split: prod.split)
  with ME_VtoWrite show ?thesis by simp
next
  case (ME_ForeignEnable now j)
  with foreign_keeps(1) [OF s] p show ?thesis by simp
next
  case (ME_ForeignDisable now j)
  with foreign_keeps(2) [OF s] p show ?thesis by simp
next
  case (ME_ForeignComplete now j b)
  with foreign_keeps(3) [OF s] p show ?thesis by simp
next
  case (ME_LowerLayerDown now)
  have "keeps (sound acc) (handle_master e)" unfolding ME_LowerLayerDown handle_master.simps
    by (rule keeps_in_order) (auto intro: keeps_intros)
  from keepsD [OF this s] ME_LowerLayerDown show ?thesis by simp
next
  case (ME_SolFailure now)
  have "keeps (sound acc) (handle_master e)" unfolding ME_SolFailure handle_master.simps
    by (rule keeps_in_order) (auto intro: keeps_app_idle keeps_IAppUser)
  from keepsD [OF this s] ME_SolFailure show ?thesis by simp
next
  case (ME_FinalResponse now f)
  have "keeps (sound acc) (handle_master e)" unfolding ME_FinalResponse handle_master.simps
    by (rule keeps_in_order) (auto intro: keeps_app_idle keeps_IAppUser)
  from keepsD [OF this s] ME_FinalResponse show ?thesis by simp
qed (use s keepsD [OF keeps_IAppUser(1)] keepsD [OF keeps_IAppUser(3)] keepsD [OF keeps_IAppUser(5)] keepsD [OF keeps_on_group(2)]
    keepsD [OF keeps_on_group(4)] in \<open>simp_all add: handler_simps\<close>)

section \<open>A master over its life\<close>

definition master_start :: "Master \<Rightarrow> bool" where
  "master_start m \<longleftrightarrow> (\<exists>cfg convert g. group_inv g \<and> new_Master cfg convert g = (None, m))"

definition built :: "Master \<Rightarrow> bool" where
  "built m \<longleftrightarrow> sound [] m \<and> ma_State m = AMS_Closed"

lemma on_task_none: "\<not> has_task g i \<Longrightarrow> on_task i f g = g"
proof -
  assume "\<not> has_task g i"
  then have "map (\<lambda>(j, t). if j = i then (j, f t) else (j, t)) (tg_TaskVec g) = tg_TaskVec g"
    by (intro map_idI) (force simp: has_task_def)
  then show ?thesis by (simp add: on_task_def)
qed

lemma built_depend_on [keeps_intros]: "keeps built (depend_on i j)"
proof -
  have "group_inv (snd (AddDependency i j g))" if "group_inv g" for g
    using AddDependency_inv(1) [OF that] that by (cases "has_task g i") (auto simp: AddDependency_def handler_simps on_task_none)
  then show ?thesis
    by (auto simp: keeps_def depend_on_def built_def sound_def master_inv_def command_books_def in_progress_def split: prod.split)
      (metis snd_conv)+
qed

lemma built_flags [keeps_intros]: "keeps built (set_task_flags i f)"
  by (simp add: keeps_def set_task_flags_def handler_simps built_def sound_def master_inv_def command_books_def in_progress_def
      SetFlags_def group_inv_on_task calm_changes)

lemma built_schedule [keeps_intros]:
  assumes "\<And>i. keeps built (k i)"
  shows "keeps built (schedule_task (Group_Add p r q) h k)" "keeps built (schedule_task (Group_AddContinuous q) h k)"
  unfolding schedule_task_def Let_def using assms
  by (auto intro!: keeps_intros simp: built_def sound_def master_inv_def command_books_def in_progress_def Group_Add_def
      Group_AddContinuous_def new_AsyncTask_def group_inv_Add)

lemma built_scans [keeps_intros]: "keeps built (schedule_scans retry p es)"
proof (induction es)
  case (Cons e es)
  show ?case unfolding schedule_scans.simps
    by (rule keeps_in_order) (use Cons in \<open>auto intro!: keeps_intros\<close>)
qed (simp add: keeps_intros)

lemma built_names [keeps_intros]:
  "keeps built (modify (\<lambda>m. m\<lparr>ma_CommandTask := i\<rparr>))" "keeps built (modify (\<lambda>m. m\<lparr>ma_TimeTask := i\<rparr>))"
  "keeps built (modify (\<lambda>m. m\<lparr>ma_ClearRestartTask := i\<rparr>))" "keeps built (modify (\<lambda>m. m\<lparr>ma_VtoTransmitTask := i\<rparr>))"
  by (simp_all add: keeps_def handler_simps built_def sound_def master_inv_def command_books_def in_progress_def)

lemma built_UpdateState: "keeps built (Master_UpdateState 0 SS_COMMS_DOWN)"
  by (simp add: keeps_def Master_UpdateState_def handler_simps built_def sound_def master_inv_def command_books_def in_progress_def
      master_out_def)

lemma new_Master_built:
  assumes "group_inv g"
  shows "built (snd (new_Master cfg convert g))"
proof -
  have "keeps built (MasterSchedule_Init cfg)"
    unfolding MasterSchedule_Init_def idle_tasks_def Let_def by (auto intro!: keeps_intros)
  then have "keeps built (in_order [MasterSchedule_Init cfg, Master_UpdateState 0 SS_COMMS_DOWN])"
    by (intro keeps_in_order) (auto intro: built_UpdateState)
  moreover have "built (blank_Master cfg convert g)"
    using assms by (simp add: built_def blank_Master_def sound_def master_inv_def command_books_def in_progress_def new_CommandQueue_def)
  ultimately show ?thesis unfolding new_Master_def by (rule keepsD)
qed

text \<open>A machine that keeps a journal: with every event the entries grow by what the event records, and nothing else.\<close>

locale journal_machine = event_machine +
  fixes entries :: "'a \<Rightarrow> 'x list" and recorded :: "'b \<Rightarrow> 'x list"
  assumes journal: "inv s \<Longrightarrow> possible s e \<Longrightarrow> entries (snd (handle e s)) = entries s @ recorded e"
begin

lemma journal_run:
  "inv s \<Longrightarrow> feasible possible handle es s \<Longrightarrow> entries (run handle es s) = entries s @ concat (map recorded es)"
  by (induction es arbitrary: s) (simp_all add: journal inv_step)

end

interpretation master: journal_machine handle_master master_possible master_start master_inv command_books accepted
proof unfold_locales
  show "master_inv m" if "master_start m" for m
    using that new_Master_built by (metis built_def master_start_def snd_conv sound_def)
  show "master_inv (snd (handle_master e m))" "command_books (snd (handle_master e m)) = command_books m @ accepted e"
    if "master_inv m" "master_possible m e" for m e
    using handle_master_sound [of "command_books m" m e] that by (simp_all add: sound_def)
qed

subsection \<open>An example\<close>

definition example_config :: MasterConfig where
  "example_config = \<lparr>mc_FragSize = 40, mc_VtoWriterQueueSize = 2, mc_UseNonStandardVtoFunction = False, mc_AllowTimeSync = True,
     mc_DoUnsolOnStartup = False, mc_EnableUnsol = True, mc_UnsolClassMask = 14, mc_IntegrityRate = 5000, mc_TaskRetryRate = 5000,
     mc_Scans = []\<rparr>"

definition example_master :: Master where
  "example_master = snd (new_Master example_config (\<lambda>n. Inr (of_nat n)) new_AsyncTaskGroup)"

definition example_tasks :: AsyncTaskGroup where
  "example_tasks = run handle_group [GE_Add 5000 5000 1, GE_SetFlags 0 3, GE_AddContinuous 5, GE_AddContinuous 2,
     GE_AddContinuous 3, GE_AddContinuous 0, GE_SetFlags 4 1, GE_SetFlags 2 1, GE_SetFlags 3 1] new_AsyncTaskGroup"

lemma example_master_built:
  "new_Master example_config (\<lambda>n. Inr (of_nat n)) new_AsyncTaskGroup = (None, example_master)"
  "ma_Group example_master = example_tasks" "ma_State example_master = AMS_Closed"
  "ma_Handlers example_master = [(0, TH_IntegrityPoll), (1, TH_ProcessCommand), (2, TH_SyncTime), (3, TH_WriteIIN), (4, TH_TransmitVtoData)]"
  "ma_LastIIN example_master = \<lparr>mLSB = 0, mMSB = 0\<rparr>"
  unfolding prod_eq_iff example_master_def example_tasks_def new_Master_def MasterSchedule_Init_def idle_tasks_def example_config_def blank_Master_def Let_def
  by (simp_all add: handler_simps schedule_task_def Let_def set_task_flags_def Group_Add_def Group_AddContinuous_def add_task_def new_AsyncTask_def
    SetFlags_def on_task_def new_AsyncTaskGroup_def Master_UpdateState_def master_out_def ONLINE_ONLY_TASKS_def START_UP_TASKS_def
    split: option.split prod.split)

definition example_online :: AsyncTaskGroup where "example_online = snd (Group_Enable 3 1 example_tasks)"
definition example_cleared :: AsyncTaskGroup where "example_cleared = snd (Task_Disable 3 3 example_online)"
definition example_timed :: AsyncTaskGroup where "example_timed = snd (Task_Disable 3 2 example_cleared)"

text \<open>What happens when its layer comes up: the tasks of the restart flag and of the time have nothing to do.\<close>

lemma example_calls:
  "Group_Enable 3 ONLINE_ONLY_TASKS example_tasks = (None, example_online)" "dispatched example_tasks example_online = Some 3"
  "Task_Disable 3 3 example_online = (None, example_cleared)" "dispatched example_online example_cleared = Some 2"
  "Task_Disable 3 2 example_cleared = (None, example_timed)" "dispatched example_cleared example_timed = Some 0"
  "length (tg_TaskVec example_tasks) = Suc (Suc (Suc (Suc (Suc 0))))"
  by code_simp+

lemma example_waits: "ma_State (snd (handle_master (ME_LowerLayerUp 3) example_master)) = AMS_Waiting"
proof -
  let ?m = "example_master\<lparr>ma_State := AMS_Idle\<rparr>"
  have iin: "\<not> GetIndication IINI_DEVICE_RESTART \<lparr>mLSB = 0, mMSB = 0\<rparr>" "\<not> GetIndication IINI_NEED_TIME \<lparr>mLSB = 0, mMSB = 0\<rparr>"
    by code_simp+
  have "ma_State (snd (AMS_StartTask 3 0 MT_ClassPoll m)) = AMS_Waiting" if "ma_State m = AMS_Idle" for m
    using view_AMS_StartTask [of 3 0 MT_ClassPoll m] that by (simp add: view_def busy_def)
  then have "ma_State (snd (on_group 3 (Group_Enable 3 ONLINE_ONLY_TASKS) ?m)) = AMS_Waiting"
    by (simp add: on_group_def group_call_def example_calls example_master_built handler_simps WriteIIN_def SyncTime_def ClassPoll_for_def iin)
  then show ?thesis
    by (simp add: Master_OnLowerLayerUp_def AMS_OnLowerLayerUp_def AMS_ChangeState_def EnableOnlineTasks_def example_master_built handler_simps)
qed

lemma example_start: "master_start example_master"
  unfolding master_start_def using example_master_built(1) group_inv_new by blast

lemma handover_ends_witness:
  "run_task (5 + 2) 3 3 (example_master\<lparr>ma_Group := example_online\<rparr>) = run_task 5 3 3 (example_master\<lparr>ma_Group := example_online\<rparr>)"
proof -
  have "group_inv example_tasks" using master.inv_start [OF example_start] by (simp add: master_inv_def example_master_built)
  then have "group_inv example_online" using group_functions_start(4) by (simp add: example_online_def starts_def)
  moreover have "map_option tk_IsEnabled (map_of (tg_TaskVec example_online) 3) = Some True" by code_simp
  then have "enabled example_online 3" by (auto simp: enabled_def)
  moreover have "enabled_tasks example_online \<le> 5" by code_simp
  ultimately show ?thesis by (intro handover_ends) simp_all
qed





end
