(* ===== verification/MasterStalls.thy ===== *)
theory MasterStalls
  imports MasterBooks
begin

text \<open>
  A fault of the master: a command that arrives while the layer is closed is answered, but its task is neither completed nor
  disabled. It counts as running from then on, so that the group starts no other task, ever.
\<close>

definition requests :: "MasterOut list \<Rightarrow> APDU list" where
  "requests xs = concat (map (\<lambda>x. case x of Mo_SendRequest a \<Rightarrow> [a] | _ \<Rightarrow> []) xs)"

lemma requests_append [simp]: "requests (xs @ ys) = requests xs @ requests ys"
  by (simp add: requests_def)

lemma requests_one [simp]:
  "requests [] = []" "requests [Mo_StateChange s] = []" "requests [Mo_AcceptResponse b] = []" "requests (map Mo_AcceptResponse bs) = []"
  "requests (map Mo_Published xs) = []"
  by (simp_all add: requests_def comp_def)

section \<open>A new master\<close>

text \<open>None of its tasks is enabled or has run.\<close>

definition untouched :: "nat \<times> AsyncTask \<Rightarrow> bool" where
  "untouched x \<longleftrightarrow> \<not> tk_IsEnabled (snd x) \<and> \<not> tk_IsRunning (snd x) \<and> tk_NextRunTime (snd x) = min_date_time"

definition fresh :: "Master \<Rightarrow> bool" where
  "fresh m \<longleftrightarrow> built m \<and> \<not> tg_Shutdown (ma_Group m) \<and> (\<forall>x \<in> set (tg_TaskVec (ma_Group m)). untouched x) \<and>
     (\<forall>(i, h) \<in> set (ma_Handlers m). i < tg_Allocated (ma_Group m)) \<and> ma_Out m = [] \<and> cq_Types (ma_Commands m) = []"

lemma fresh_built: "fresh m \<Longrightarrow> built m"
  by (simp add: fresh_def)

lemma keeps_fresh:
  assumes "keeps built h" and "\<And>m. fresh m \<Longrightarrow> built (snd (h m)) \<Longrightarrow> fresh (snd (h m))"
  shows "keeps fresh h"
  using assms by (auto simp: keeps_def dest: fresh_built)

lemma untouched_on_task:
  assumes "\<forall>x \<in> set (tg_TaskVec g). untouched x" and "\<And>t. untouched (i, t) \<Longrightarrow> untouched (i, f t)"
  shows "\<forall>x \<in> set (tg_TaskVec (on_task i f g)). untouched x"
proof
  fix x assume "x \<in> set (tg_TaskVec (on_task i f g))"
  then obtain j t where "(j, t) \<in> set (tg_TaskVec g)" "x = (if j = i then (j, f t) else (j, t))" by (auto simp: on_task_def)
  with assms show "untouched x" by (cases "j = i") auto
qed

lemma on_task_views [simp]: "tg_Shutdown (on_task i f g) = tg_Shutdown g" "tg_Allocated (on_task i f g) = tg_Allocated g"
  by (simp_all add: on_task_mapped)

lemma fresh_flags [keeps_intros]: "keeps fresh (set_task_flags i f)"
proof (rule keeps_fresh [OF built_flags])
  fix m assume m: "fresh m" and b: "built (snd (set_task_flags i f m))"
  have "\<forall>x \<in> set (tg_TaskVec (SetFlags i f (ma_Group m))). untouched x"
    unfolding SetFlags_def by (rule untouched_on_task) (use m in \<open>simp_all add: fresh_def untouched_def\<close>)
  with m b show "fresh (snd (set_task_flags i f m))" by (simp add: fresh_def set_task_flags_def handler_simps SetFlags_def)
qed

lemma fresh_depend_on [keeps_intros]: "keeps fresh (depend_on i j)"
proof (rule keeps_fresh [OF built_depend_on])
  fix m assume m: "fresh m" and b: "built (snd (depend_on i j m))"
  have "snd (AddDependency i j (ma_Group m)) = ma_Group m \<or>
      snd (AddDependency i j (ma_Group m)) = on_task i (\<lambda>t. t\<lparr>tk_Dependencies := tk_Dependencies t @ [j]\<rparr>) (ma_Group m)"
    by (auto simp: AddDependency_def handler_simps)
  moreover have "\<forall>x \<in> set (tg_TaskVec (on_task i (\<lambda>t. t\<lparr>tk_Dependencies := tk_Dependencies t @ [j]\<rparr>) (ma_Group m))). untouched x"
    by (rule untouched_on_task) (use m in \<open>simp_all add: fresh_def untouched_def\<close>)
  ultimately show "fresh (snd (depend_on i j m))" using m b
    by (cases "AddDependency i j (ma_Group m)") (auto simp: fresh_def depend_on_def)
qed

lemma fresh_schedule [keeps_intros]:
  assumes "\<And>i. keeps fresh (k i)"
  shows "keeps fresh (schedule_task (Group_Add p r q) h k)"
proof -
  have "fresh (m\<lparr>ma_Group := Group_Add p r q (ma_Group m), ma_Handlers := ma_Handlers m @ [(tg_Allocated (ma_Group m), h)]\<rparr>)"
    if "fresh m" for m
  proof -
    have "group_inv (Group_Add p r q (ma_Group m))"
      using that unfolding Group_Add_def
      by (intro group_inv_Add) (simp_all add: fresh_def built_def sound_def master_inv_def new_AsyncTask_def)
    with that show ?thesis
      by (auto simp: fresh_def built_def sound_def master_inv_def command_books_def in_progress_def Group_Add_def add_task_def
          new_AsyncTask_def untouched_def)
  qed
  with keepsD [OF assms] show ?thesis by (simp add: keeps_def schedule_task_def Let_def handler_simps)
qed

lemma fresh_scans [keeps_intros]: "keeps fresh (schedule_scans retry p es)"
proof (induction es)
  case (Cons e es)
  show ?case unfolding schedule_scans.simps
    by (rule keeps_in_order) (use Cons in \<open>auto intro!: keeps_intros\<close>)
qed (simp add: keeps_intros)

lemma in_order_None:
  assumes "in_order (h # hs) m = (None, m')"
  obtains m1 where "h m = (None, m1)" "in_order hs m1 = (None, m')"
  using assms by (auto simp: in_order.simps(2) split: prod.splits option.splits)

text \<open>The command task is not the online tasks', depends on nothing, and nothing of the master is enabled.\<close>

definition ready_for_commands :: "nat \<Rightarrow> Master \<Rightarrow> bool" where
  "ready_for_commands c m \<longleftrightarrow> built m \<and> \<not> tg_Shutdown (ma_Group m) \<and> (\<forall>x \<in> set (tg_TaskVec (ma_Group m)). untouched x) \<and>
     ma_CommandTask m = c \<and> map_of (ma_Handlers m) c = Some TH_ProcessCommand \<and>
     (\<exists>t. map_of (tg_TaskVec (ma_Group m)) c = Some t \<and> tk_Flags t = 0 \<and> tk_Dependencies t = []) \<and>
     requests (ma_Out m) = [] \<and> answered (ma_Out m) = [] \<and> cq_Types (ma_Commands m) = []"

lemma in_order_last:
  assumes "in_order (hs @ [h]) m = (None, m')"
  obtains m1 where "in_order hs m = (None, m1)" "h m1 = (None, m')"
  using assms by (auto simp: in_order_append split: prod.splits option.splits)

lemma schedule_task_runs: "schedule_task add h k m = k (tg_Allocated (ma_Group m))
    (m\<lparr>ma_Group := add (ma_Group m), ma_Handlers := ma_Handlers m @ [(tg_Allocated (ma_Group m), h)]\<rparr>)"
  by (simp add: schedule_task_def Let_def handler_simps)

lemma idle_tasks_ready:
  assumes m: "fresh m" and run: "idle_tasks m = (None, m')" and b: "built m'"
  shows "ready_for_commands (tg_Allocated (ma_Group m)) m'"
proof -
  let ?n = "tg_Allocated (ma_Group m)" and ?xs = "tg_TaskVec (ma_Group m)"
  have below: "(j, t) \<in> set ?xs \<Longrightarrow> j < ?n" for j t
    using m by (auto simp: fresh_def built_def sound_def master_inv_def group_inv_def)
  have same: "map (\<lambda>(j, t). if j = k then (j, f t) else (j, t)) ?xs = ?xs" if "k \<ge> ?n" for k f
    using below that by (intro map_idI) (auto split: if_splits, force)
  let ?t = "\<lambda>p f. (new_AsyncTask Continuous p)\<lparr>tk_Flags := f\<rparr>"
  have m': "m' = m\<lparr>ma_CommandTask := ?n, ma_TimeTask := ?n + 1, ma_ClearRestartTask := ?n + 2,
    ma_Handlers := ma_Handlers m @ [(?n, TH_ProcessCommand), (?n + 1, TH_SyncTime), (?n + 2, TH_WriteIIN),
      (?n + 3, TH_TransmitVtoData)], ma_VtoTransmitTask := ?n + 3,
    ma_Group := (ma_Group m)\<lparr>tg_Allocated := ?n + 4, tg_TaskVec := ?xs @ [(?n, new_AsyncTask Continuous 5),
      (?n + 1, ?t 2 ONLINE_ONLY_TASKS), (?n + 2, ?t 3 ONLINE_ONLY_TASKS), (?n + 3, ?t 0 ONLINE_ONLY_TASKS)]\<rparr>\<rparr>"
    using run by (simp add: idle_tasks_def schedule_task_runs handler_simps Group_AddContinuous_def add_task_def set_task_flags_def
        SetFlags_def on_task_def same eval_nat_numeral del: map_map)
  have "map_of (ma_Handlers m) ?n = None" using m by (auto simp: fresh_def map_of_eq_None_iff)
  moreover have "map_of ?xs ?n = None" using below by (force simp: map_of_eq_None_iff)
  ultimately show ?thesis using m b
    by (auto simp: ready_for_commands_def m' fresh_def new_AsyncTask_def untouched_def map_add_def)
qed

lemma new_Master_ready:
  assumes "new_Master cfg convert new_AsyncTaskGroup = (None, m)"
  obtains c where "ready_for_commands c m"
proof -
  let ?b = "blank_Master cfg convert new_AsyncTaskGroup"
  have start: "fresh ?b"
    by (simp add: fresh_def built_def sound_def master_inv_def command_books_def in_progress_def blank_Master_def
        new_AsyncTaskGroup_def new_CommandQueue_def group_inv_new [unfolded new_AsyncTaskGroup_def])
  from assms obtain m3 where sch: "MasterSchedule_Init cfg ?b = (None, m3)" and up: "Master_UpdateState 0 SS_COMMS_DOWN m3 = (None, m)"
    unfolding new_Master_def by (metis in_order_None in_order_single)
  let ?retry = "mc_TaskRetryRate cfg"
  let ?hs = "\<lambda>p. [set_task_flags p (ONLINE_ONLY_TASKS OR START_UP_TASKS),
    if mc_DoUnsolOnStartup cfg then
      schedule_task (Group_Add (-1) ?retry 4) (TH_ChangeUnsol False 14) (\<lambda>q. in_order [
        set_task_flags q (ONLINE_ONLY_TASKS OR START_UP_TASKS), depend_on p q,
        if mc_EnableUnsol cfg then
          schedule_task (Group_Add (-1) ?retry 4) (TH_ChangeUnsol True (mc_UnsolClassMask cfg)) (\<lambda>r. in_order [
            set_task_flags r (ONLINE_ONLY_TASKS OR START_UP_TASKS), depend_on r p])
        else skip])
    else skip, schedule_scans ?retry p (mc_Scans cfg)]"
  have "MasterSchedule_Init cfg = schedule_task (Group_Add (mc_IntegrityRate cfg) ?retry 1) TH_IntegrityPoll (\<lambda>p. in_order (?hs p @ [idle_tasks]))"
    by (simp add: MasterSchedule_Init_def Let_def)
  with sch obtain m1 p where m1: "in_order (?hs p @ [idle_tasks]) m1 = (None, m3)" and
    m1': "schedule_task (Group_Add (mc_IntegrityRate cfg) ?retry 1) TH_IntegrityPoll (\<lambda>p. skip) ?b = (None, m1)"
    by (auto simp: schedule_task_runs handler_simps)
  have "fresh m1" using keepsD [OF fresh_schedule [OF keeps_leaf(1)] start] m1' by (metis snd_conv)
  from m1 obtain m2 where m2: "in_order (?hs p) m1 = (None, m2)" "idle_tasks m2 = (None, m3)" by (rule in_order_last)
  have "keeps fresh (in_order (?hs p))" by (auto intro!: keeps_intros)
  from keepsD [OF this \<open>fresh m1\<close>] m2(1) have "fresh m2" by simp
  have "keeps built idle_tasks" unfolding idle_tasks_def by (auto intro!: keeps_intros)
  from keepsD [OF this fresh_built [OF \<open>fresh m2\<close>]] m2(2) have "built m3" by simp
  with idle_tasks_ready [OF \<open>fresh m2\<close> m2(2)] have "ready_for_commands (tg_Allocated (ma_Group m2)) m3" .
  moreover have "built m" using keepsD [OF built_UpdateState \<open>built m3\<close>] up by simp
  moreover have "m = (if ma_StackState m3 = SS_COMMS_DOWN then m3 else master_out [Mo_StateChange SS_COMMS_DOWN] (m3\<lparr>ma_StackState := SS_COMMS_DOWN\<rparr>))"
    using up by (auto simp: Master_UpdateState_def handler_simps split: if_splits)
  ultimately have "ready_for_commands (tg_Allocated (ma_Group m2)) m"
    by (auto simp: ready_for_commands_def master_out_def split: if_splits)
  then show thesis by (rule that)
qed

section \<open>The command task that never ends\<close>

text \<open>A task of the master runs, and the master does not wait for it.\<close>

definition stuck :: "nat \<Rightarrow> (nat \<times> int) list \<Rightarrow> APDU list \<Rightarrow> Master \<Rightarrow> bool" where
  "stuck c acc rs m \<longleftrightarrow> group_inv (ma_Group m) \<and> ma_State m \<noteq> AMS_Waiting \<and> runs (ma_Group m) c \<and> map_of (ma_Handlers m) c \<noteq> None \<and>
     tk_Flags (task c (ma_Group m)) = 0 \<and> requests (ma_Out m) = rs \<and> answered (ma_Out m) = acc"

lemma stuck_group_change:
  assumes "stuck c acc rs m" and "group_inv g" "runs g c" "tk_Flags (task c g) = tk_Flags (task c (ma_Group m))"
  shows "stuck c acc rs (m\<lparr>ma_Group := g\<rparr>)"
  using assms by (simp add: stuck_def)

lemma stuck_on_group:
  assumes "stuck c acc rs m" and "waits c f (ma_Group m)"
  shows "stuck c acc rs (snd (on_group now f m))"
proof -
  obtain r g where f: "f (ma_Group m) = (r, g)" by (cases "f (ma_Group m)")
  with assms have "stuck c acc rs (m\<lparr>ma_Group := g\<rparr>)" "dispatched (ma_Group m) g = None"
    by (simp_all add: stuck_group_change waits_def dispatched_none)
  with f show ?thesis by (simp add: on_group_def group_call_def handler_simps split: option.split)
qed

lemma stuck_groups [keeps_intros]:
  "keeps (stuck c acc rs) (on_group now (CheckState now))" "keeps (stuck c acc rs) (on_group now (Task_Enable now j))"
  "keeps (stuck c acc rs) (on_group now (Group_Enable now m))" "keeps (stuck c acc rs) (on_group now (Group_Disable now m))"
  "keeps (stuck c acc rs) (on_group now (OnTimerExpiration now))"
proof -
  have facts: "group_inv (ma_Group m) \<and> runs (ma_Group m) c \<and> tk_Flags (task c (ma_Group m)) = 0" if "stuck c acc rs m" for m
    using that by (simp add: stuck_def)
  have each: "keeps (stuck c acc rs) (on_group now f)"
    if "\<And>g. group_inv g \<Longrightarrow> runs g c \<Longrightarrow> tk_Flags (task c g) = 0 \<Longrightarrow> waits c f g" for f
    unfolding keeps_def using facts stuck_on_group that by blast
  show "keeps (stuck c acc rs) (on_group now (CheckState now))" "keeps (stuck c acc rs) (on_group now (Task_Enable now j))"
    "keeps (stuck c acc rs) (on_group now (Group_Enable now m))" "keeps (stuck c acc rs) (on_group now (OnTimerExpiration now))"
    "keeps (stuck c acc rs) (on_group now (Group_Disable now m))"
    by (rule each, simp add: group_functions_wait)+
qed

lemma stuck_group_changes [keeps_intros]:
  "keeps (stuck c acc rs) (modify (\<lambda>m. m\<lparr>ma_Group := on_task (j m) SilentEnable (ma_Group m)\<rparr>))"
  "keeps (stuck c acc rs) (modify (\<lambda>m. m\<lparr>ma_Group := on_task (j m) SilentEnable (ResetTasks k (ma_Group m))\<rparr>))"
proof -
  have change: "keeps (stuck c acc rs) (modify (\<lambda>m. m\<lparr>ma_Group := u m (ma_Group m)\<rparr>))"
    if "\<And>m g. group_inv g \<Longrightarrow> group_inv (u m g)" "\<And>m g. runs g c \<Longrightarrow> runs (u m g) c"
      "\<And>m g. runs g c \<Longrightarrow> tk_Flags (task c (u m g)) = tk_Flags (task c g)" for u
    using that by (simp add: keeps_def handler_simps stuck_def)
  have has: "runs g c \<Longrightarrow> has_task g c" for g by (simp add: runs_iff)
  have enable: "runs (on_task i SilentEnable g) c" "tk_Flags (task c (on_task i SilentEnable g)) = tk_Flags (task c g)"
    if "runs g c" for i g using that has by (simp_all add: runs_on_task flags_on_task)
  have reset: "runs (ResetTasks k g) c" "tk_Flags (task c (ResetTasks k g)) = tk_Flags (task c g)" if "runs g c" for g
    using that has by (simp_all add: ResetTasks_def runs_on_all flags_on_all)
  show "keeps (stuck c acc rs) (modify (\<lambda>m. m\<lparr>ma_Group := on_task (j m) SilentEnable (ma_Group m)\<rparr>))"
    by (rule change) (simp_all add: group_inv_on_task calm_changes enable)
  show "keeps (stuck c acc rs) (modify (\<lambda>m. m\<lparr>ma_Group := on_task (j m) SilentEnable (ResetTasks k (ma_Group m))\<rparr>))"
    by (rule change) (simp_all add: group_inv_on_task calm_changes enable reset, simp add: ResetTasks_def group_inv_on_all group_inv_on_task calm_changes)
qed

text \<open>The frame of the predicate.\<close>

lemma stuck_frame [simp]:
  "stuck c acc rs (m\<lparr>ma_AppWaiting := b\<rparr>) = stuck c acc rs m" "stuck c acc rs (m\<lparr>ma_LastIIN := l\<rparr>) = stuck c acc rs m"
  "stuck c acc rs (m\<lparr>ma_StackState := s\<rparr>) = stuck c acc rs m" "stuck c acc rs (m\<lparr>ma_VtoWriter := w\<rparr>) = stuck c acc rs m"
  "stuck c acc rs (m\<lparr>ma_Commands := q\<rparr>) = stuck c acc rs m"
  "stuck c acc rs (master_out [Mo_StateChange s] m) = stuck c acc rs m" "stuck c acc rs (master_out (map Mo_Published xs) m) = stuck c acc rs m"
  by (auto simp: stuck_def master_out_def)

lemma stuck_states [keeps_intros]:
  "keeps (stuck c acc rs) AMS_OnLowerLayerUp" "keeps (stuck c acc rs) AMS_OnLowerLayerDown" "keeps (stuck c acc rs) (AMS_OnFailure now)"
  "keeps (stuck c acc rs) (AMS_OnPartialResponse now f)" "keeps (stuck c acc rs) (AMS_OnFinalResponse now f)"
  "keeps (stuck c acc rs) (AMS_OnUnsolResponse f)"
proof -
  have quiet: "ma_State m \<noteq> AMS_Waiting" if "stuck c acc rs m" for m using that by (simp add: stuck_def)
  have state: "stuck c acc rs (m\<lparr>ma_State := s\<rparr>)" if "stuck c acc rs m" "s \<noteq> AMS_Waiting" for m s using that by (simp add: stuck_def)
  show "keeps (stuck c acc rs) AMS_OnLowerLayerUp" using state
    by (simp add: keeps_def AMS_OnLowerLayerUp_def AMS_ChangeState_def if_else_def modify_def throw_def)
  show "keeps (stuck c acc rs) AMS_OnLowerLayerDown" using state quiet
    by (auto simp: keeps_def AMS_OnLowerLayerDown_def AMS_ChangeState_def handler_simps split: MasterState.split)
  show "keeps (stuck c acc rs) (AMS_OnFailure now)" "keeps (stuck c acc rs) (AMS_OnPartialResponse now f)"
    "keeps (stuck c acc rs) (AMS_OnFinalResponse now f)" using quiet
    by (simp_all add: keeps_def AMS_OnFailure_def AMS_OnPartialResponse_def AMS_OnFinalResponse_def handler_simps)
  have "stuck c acc rs (snd (ProcessDataResponse f m)) = stuck c acc rs m" for m
    by (simp add: ProcessDataResponse_def DataPoll_ReadData_def handler_simps split: prod.split option.split)
  then show "keeps (stuck c acc rs) (AMS_OnUnsolResponse f)" by (simp add: keeps_def AMS_OnUnsolResponse_def handler_simps)
qed

lemma stuck_UpdateState [keeps_intros]: "keeps (stuck c acc rs) (Master_UpdateState now s)"
  unfolding Master_UpdateState_def by (auto intro!: keeps_intros)

lemma stuck_take_IIN [keeps_intros]: "keeps (stuck c acc rs) (take_IIN now f)"
  unfolding take_IIN_def ProcessIIN_def by (rule keeps_with_value) (auto simp: Let_def intro!: keeps_intros)

lemma stuck_app_idle [keeps_intros]: "keeps (stuck c acc rs) app_idle"
  by (simp add: app_idle_def keeps_def handler_simps)

lemma stuck_IAppUser:
  "keeps (stuck c acc rs) (Master_OnLowerLayerUp now)" "keeps (stuck c acc rs) (Master_OnLowerLayerDown now)"
  "keeps (stuck c acc rs) (Master_OnSolFailure now)" "keeps (stuck c acc rs) (Master_OnPartialResponse now f)"
  "keeps (stuck c acc rs) (Master_OnFinalResponse now f)" "keeps (stuck c acc rs) (Master_OnUnsolResponse now f)"
  unfolding Master_OnLowerLayerUp_def Master_OnLowerLayerDown_def Master_OnSolFailure_def Master_OnPartialResponse_def
    Master_OnFinalResponse_def Master_OnUnsolResponse_def EnableOnlineTasks_def DisableOnlineTasks_def
  by (rule keeps_in_order, auto intro: keeps_intros)+

lemma stuck_after_idle: "keeps (stuck c acc rs) h \<Longrightarrow> keeps (stuck c acc rs) (in_order [app_idle, h])"
  by (rule keeps_in_order) (auto intro: keeps_intros)

lemma stuck_step:
  assumes s: "stuck c acc rs m" and p: "master_possible m e"
  shows "stuck c acc rs (snd (handle_master e m))"
proof -
  have g: "group_inv (ma_Group m)" "runs (ma_Group m) c" using s by (simp_all add: stuck_def)
  have other: "j \<noteq> c \<and> has_task (ma_Group m) j" if "foreign m j" for j using s that by (auto simp: foreign_def stuck_def)
  show ?thesis
  proof (cases e)
    case (ME_VtoWrite xs channel)
    have "keeps (stuck c acc rs) (handle_master e)" unfolding ME_VtoWrite handle_master.simps
      by (rule keeps_calling) (auto intro: keeps_intros split: prod.split)
    from keepsD [OF this s] show ?thesis .
  next
    case (ME_ForeignDisable now j)
    with p other stuck_on_group [OF s group_functions_wait(3) [OF g]] show ?thesis by simp
  next
    case (ME_ForeignComplete now j b)
    with p other stuck_on_group [OF s group_functions_wait(7) [OF g]] show ?thesis by simp
  qed (use s keepsD [OF stuck_IAppUser(1)] keepsD [OF stuck_after_idle [OF stuck_IAppUser(2)]]
      keepsD [OF stuck_after_idle [OF stuck_IAppUser(3)]] keepsD [OF stuck_IAppUser(4)]
      keepsD [OF stuck_after_idle [OF stuck_IAppUser(5)]] keepsD [OF stuck_IAppUser(6)]
      keepsD [OF stuck_groups(2)] keepsD [OF stuck_groups(5)] in \<open>simp_all add: handler_simps del: in_order_more\<close>)
qed

lemma max_element_top:
  assumes "x \<in> set xs" and "\<And>y. y \<in> set xs \<Longrightarrow> y \<noteq> x \<Longrightarrow> lt y x \<and> \<not> lt x y"
  shows "max_element lt xs = Some x"
proof -
  have scan: "z = x \<or> x \<in> set ys \<Longrightarrow> set (z # ys) \<subseteq> set xs \<Longrightarrow> foldl (\<lambda>m y. if lt m y then y else m) z ys = x" for z ys
  proof (induction ys arbitrary: z)
    case (Cons y ys)
    have "(if lt z y then y else z) = x \<or> x \<in> set ys"
      using Cons.prems assms(2) [of y] assms(2) [of z] by auto
    moreover have "set ((if lt z y then y else z) # ys) \<subseteq> set xs" using Cons.prems(2) by auto
    ultimately show ?case using Cons.IH by simp
  qed simp
  from assms(1) obtain z ys where "xs = z # ys" by (cases xs) auto
  with scan [of z ys] assms(1) show ?thesis by auto
qed

text \<open>The command task is the only enabled one and is started.\<close>

lemma command_task_starts:
  assumes r: "ready_for_commands c m"
  shows "\<exists>g. Task_Enable now c (ma_Group m) = (None, g) \<and> group_inv g \<and> runs g c \<and> tk_Flags (task c g) = 0 \<and>
    dispatched (ma_Group m) g = Some c \<and> length (tg_TaskVec (ma_Group m)) > 0"
proof -
  let ?g = "ma_Group m" and ?G = "checked now (on_task c SilentEnable (ma_Group m))"
  from r obtain t where t: "map_of (tg_TaskVec ?g) c = Some t" "tk_Flags t = 0" "tk_Dependencies t = []"
    and un: "\<forall>x \<in> set (tg_TaskVec ?g). untouched x" and inv: "group_inv ?g" and up: "\<not> tg_Shutdown ?g"
    by (auto simp: ready_for_commands_def built_def sound_def master_inv_def)
  have inv': "group_inv (on_task c SilentEnable ?g)" using inv by (simp add: group_inv_on_task calm_changes)
  have vec: "set (tg_TaskVec ?G) = (\<lambda>(j, u). (j, UpdateTime (At now) ((if j = c then SilentEnable else id) u))) ` set (tg_TaskVec ?g)"
    by (simp add: set_checked on_task_mapped mapped_def image_image case_prod_beta)
  let ?c = "(c, UpdateTime (At now) (SilentEnable t))"
  have mem: "(c, t) \<in> set (tg_TaskVec ?g)" using t(1) by (rule map_of_SomeD)
  then have c: "?c \<in> set (tg_TaskVec ?G)" unfolding vec by (force simp: image_iff)
  have deps: "dependencies ?G c = []"
    using t by (simp add: dependencies_def checked_def Group_Update_def on_all_mapped on_task_mapped map_of_mapped SilentEnable_def)
  then have none: "\<not> IsDependency ?G c j" for j
    by (simp add: IsDependency_iff trancl_unfold_left edges_def) (auto dest: tranclD)
  have lt: "LessThanGroupLevel ?G y ?c \<and> \<not> LessThanGroupLevel ?G ?c y" if "y \<in> set (tg_TaskVec ?G)" "y \<noteq> ?c" for y
  proof -
    from that(1) obtain j u where y: "y = (j, UpdateTime (At now) ((if j = c then SilentEnable else id) u))" "(j, u) \<in> set (tg_TaskVec ?g)"
      unfolding vec by auto
    have "j \<noteq> c" using y that(2) mem inv by (auto simp: group_inv_def dest: eq_key_imp_eq_value)
    moreover have "untouched (j, u)" "untouched (c, t)" using un y(2) mem by auto
    ultimately show ?thesis using y(1) none
      by (simp add: LessThanGroupLevel_def Task_LessThan_def untouched_def SilentEnable_def)
  qed
  have unc: "untouched (c, t)" using un mem by auto
  have same: "tk_IsRunning ((if b then SilentEnable else id) u) = tk_IsRunning u" for b u by simp
  have "GetNext ?G = Some c"
    using max_element_top [where lt = "LessThanGroupLevel ?G", OF c lt] unc by (simp add: GetNext_def untouched_def SilentEnable_def)
  moreover have "task c ?G = UpdateTime (At now) (SilentEnable t)" using task_in [OF checked_inv [OF inv'] c] .
  ultimately have run: "Task_Enable now c ?g = Dispatch c (?G\<lparr>tg_IsRunning := True\<rparr>)"
    using unc up by (simp add: Task_Enable_def handler_simps CheckState_runs untouched_def SilentEnable_def)
  let ?h = "?G\<lparr>tg_IsRunning := True\<rparr>"
  have "group_inv ?h" using checked_inv [OF inv'] by (rule group_inv_cong [rotated 3]) simp_all
  moreover have "running_tasks ?h = []"
    using un unfolding running_tasks_def filter_empty_conv by (auto simp: vec untouched_def same)
  moreover have "(c, UpdateTime (At now) (SilentEnable t)) \<in> set (tg_TaskVec ?h)" using c by simp
  ultimately have d: "Dispatch c ?h = (None, group_out (Tg_Handler c) (on_task c (\<lambda>t. t\<lparr>tk_IsRunning := True, tk_IsComplete := False, tk_IsExpired := False\<rparr>) ?h))"
    "group_inv (snd (Dispatch c ?h))"
    using Group_Dispatch_runs [of ?h c "UpdateTime (At now) (SilentEnable t)"] by (simp_all add: SilentEnable_def)
  let ?k = "snd (Dispatch c ?h)"
  have at: "map_of (tg_TaskVec ?G) c = Some (UpdateTime (At now) (SilentEnable t))"
    using t(1) by (simp add: checked_def Group_Update_def on_all_mapped on_task_mapped map_of_mapped)
  have "runs ?k c" unfolding d(1) using at by (simp add: on_task_mapped runs_mapped)
  moreover have "tk_Flags (task c ?k) = 0"
    unfolding d(1) using at t(2) by (simp add: on_task_mapped group_out_def task_def map_of_mapped UpdateTime_def SilentEnable_def)
  moreover have "tg_Out ?k = tg_Out ?g @ [Tg_Handler c]" unfolding d(1) by (simp add: group_out_def on_task_mapped)
  then have "dispatched ?g ?k = Some c" by (simp add: dispatched_last)
  moreover have "length (tg_TaskVec ?g) > 0" using mem by (cases "tg_TaskVec ?g") auto
  ultimately show ?thesis using run d by (intro exI [of _ ?k]) simp
qed

lemma closed_command_answered:
  assumes "cq_Types (ma_Commands m) = []"
  obtains q where "RespondToCommand CS_HARDWARE_ERROR (AcceptCommand cmd index seq acceptor (ma_Commands m)) =
    Inr (Some (acceptor, CS_HARDWARE_ERROR, seq), q)"
  using assms
  by (cases cmd; cases "cq_Binary (ma_Commands m)"; cases "cq_Setpoint (ma_Commands m)")
    (auto simp: RespondToCommand_def ExecuteCommand_def AcceptCommand_def CommandQueue_Next_def Read_Binary_def Read_Setpoint_def)

lemma command_sticks:
  assumes r: "ready_for_commands c m"
  shows "stuck c [(acceptor, seq)] [] (run handle_master [ME_AcceptCommand cmd index seq acceptor, ME_CommandNotified now] m)"
proof -
  from command_task_starts [OF r, of now] obtain g where g: "Task_Enable now c (ma_Group m) = (None, g)" "group_inv g" "runs g c"
    "tk_Flags (task c g) = 0" "dispatched (ma_Group m) g = Some c" "length (tg_TaskVec (ma_Group m)) > 0" by blast
  from g(6) obtain n where n: "length (tg_TaskVec (ma_Group m)) = Suc n" by (cases "tg_TaskVec (ma_Group m)") auto
  let ?q = "AcceptCommand cmd index seq acceptor (ma_Commands m)"
  let ?m = "m\<lparr>ma_Commands := ?q, ma_Group := g\<rparr>"
  from closed_command_answered [of m cmd index seq acceptor] r obtain q where
    q: "RespondToCommand CS_HARDWARE_ERROR ?q = Inr (Some (acceptor, CS_HARDWARE_ERROR, seq), q)"
    by (auto simp: ready_for_commands_def)
  have facts: "ma_State m = AMS_Closed" "ma_CommandTask m = c" "map_of (ma_Handlers m) c = Some TH_ProcessCommand"
    using r by (simp_all add: ready_for_commands_def built_def)
  have "run_task (Suc n) now c ?m = (None, master_out [Mo_AcceptResponse (acceptor, CS_HARDWARE_ERROR, seq)] (?m\<lparr>ma_Commands := q\<rparr>))"
    using facts q by (simp add: ProcessCommand_def handler_simps)
  then have "run handle_master [ME_AcceptCommand cmd index seq acceptor, ME_CommandNotified now] m =
      master_out [Mo_AcceptResponse (acceptor, CS_HARDWARE_ERROR, seq)] (m\<lparr>ma_Group := g, ma_Commands := q\<rparr>)"
    using facts g(1,5) n by (simp add: on_group_def group_call_def handler_simps del: run_task.simps)
  then show ?thesis using r g facts by (auto simp: stuck_def master_out_def ready_for_commands_def)
qed

lemma stuck_run: "stuck c acc rs m \<Longrightarrow> feasible master_possible handle_master es m \<Longrightarrow> stuck c acc rs (run handle_master es m)"
  by (induction es arbitrary: m) (simp_all add: stuck_step)

text \<open>C36: A command to a closed master stops it for good. Whatever the configuration, when the first thing a new master gets is a
  command, before its layer is up, then it answers this command with a hardware error, and from then on it never sends a request
  and never answers a command, whatever comes: layers going up and down, polls falling due, further commands. The task
  of the command counts as running for ever, because \<open>ProcessCommand\<close> neither completes nor disables it.\<close>

theorem closed_command_stops_the_master:
  assumes "new_Master cfg convert new_AsyncTaskGroup = (None, m)"
    and "m1 = run handle_master [ME_AcceptCommand cmd index seq acceptor, ME_CommandNotified now] m"
    and "feasible master_possible handle_master es m1"
  shows "answered (ma_Out (run handle_master es m1)) = [(acceptor, seq)] \<and> requests (ma_Out (run handle_master es m1)) = []"
proof -
  from new_Master_ready [OF assms(1)] obtain c where "ready_for_commands c m" .
  then have "stuck c [(acceptor, seq)] [] m1" unfolding assms(2) by (rule command_sticks)
  from stuck_run [OF this assms(3)] show ?thesis by (simp add: stuck_def)
qed

lemma closed_command_stops_the_master_witness:
  "let m = run handle_master [ME_AcceptCommand (Cmd_BinaryOutput new_BinaryOutput) 4 17 1, ME_CommandNotified 5] example_master;
       n = run handle_master [ME_LowerLayerUp 8, ME_AcceptCommand (Cmd_Setpoint new_Setpoint) 0 18 2, ME_CommandNotified 9,
         ME_Timer 6000] m
   in answered (ma_Out n) = [(1, 17)] \<and> requests (ma_Out n) = []"
  unfolding Let_def by (rule closed_command_stops_the_master [OF example_master_built(1) refl]) simp

text \<open>
  The same fate awaits a master whose layer goes down while a command is in progress: the command is answered, and its task
  is not completed. The tasks that only run online are disabled when the layer goes down, the command task is not one of them.
\<close>

lemma command_in_progress_sticks:
  assumes inv: "master_inv m" and w: "ma_State m = AMS_Waiting" and t: "ma_Task m = Some t" "t = MT_ExecuteBO \<or> t = MT_ExecuteSP"
    and c: "ma_ScheduledTask m = Some c" "tk_Flags (task c (ma_Group m)) = 0"
  shows "stuck c (answered (ma_Out m) @ in_progress m) (requests (ma_Out m)) (snd (handle_master (ME_LowerLayerDown now) m))"
proof -
  let ?m = "MasterTask_OnFailure t (m\<lparr>ma_AppWaiting := False, ma_State := AMS_Closed\<rparr>)"
  have "stuck c (answered (ma_Out m) @ in_progress m) (requests (ma_Out m)) ?m"
    using inv w t c by (elim disjE)
      (simp_all add: stuck_def master_inv_def waits_for_running_task_def in_progress_def master_out_def)
  moreover have "AMS_OnLowerLayerDown (m\<lparr>ma_AppWaiting := False\<rparr>) = (None, ?m)"
    using w t(1) c(1) by (simp add: AMS_OnLowerLayerDown_def with_task_def AMS_ChangeState_def handler_simps)
  then have "handle_master (ME_LowerLayerDown now) m = in_order [DisableOnlineTasks now, Master_UpdateState now SS_COMMS_DOWN] ?m"
    by (simp add: app_idle_def Master_OnLowerLayerDown_def modify_def)
  moreover have "keeps (stuck c acc rs) (in_order [DisableOnlineTasks now, Master_UpdateState now SS_COMMS_DOWN])" for acc rs
    by (rule keeps_in_order) (auto simp: DisableOnlineTasks_def intro: keeps_intros)
  ultimately show ?thesis using keepsD by metis
qed

end
