(* ===== verification/Spec2Isabelle.thy ===== *)
theory Spec2Isabelle
  imports LinkExchanges LinkRouters Transports IndexedObjects AppStalls Databases MasterStalls
begin

text \<open>
  A model of the protocol stack of OpenDNP3 (src/opendnp3), a C++ implementation of DNP3, from the bytes of a
  line up to the transactions of the application layer, and what makes it correct.

  The parts and how they interact. A physical layer reads and writes bytes; a monitor opens it and
  keeps it open; a router shares it between link layers: it parses what is read into link
  frames, passes each to the link layer bound to its addresses and writes the frames of all
  of them one at a time. A link layer confirms and retransmits frames; the transport function cuts
  fragments into segments that fit into frames and puts them together again; the application layer keeps
  the transactions of a solicited and an unsolicited channel over such fragments, which a message
  class parses into object headers and objects and writes from them.

  \<^descr> Prelude: bytes, exceptions (APL/Exception.h), handlers (member functions that may throw), buffers, and the
    interfaces \<open>event_machine\<close>, \<open>assertion_free_machine\<close>, \<open>ledger_machine\<close> and \<open>budget_machine\<close>, which the components
    interpret.
  \<^descr> Packing (APL/PackingUnpacking), Crc (APL/CRC, DNP3/DNPCrc): little-endian integers and the table-driven checksum,
    which is shown equal to the division by the polynomial bit by bit.
  \<^descr> LinkFrames (DNP3/LinkHeader, LinkFrame, LinkLayerConstants): the nine kinds of frames, written and read back.
  \<^descr> ShiftableBuffers (APL/ShiftableBuffer) and LinkReceivers (DNP3/LinkLayerReceiver, LinkReceiverStates): the incremental
    parser of the line, shown to refine a decoder of the whole byte stream, however it is cut into reads.
  \<^descr> LinkLayers (DNP3/LinkLayer, PriLinkLayerStates, SecLinkLayerStates) and LinkExchanges: the link layer with its primary
    and secondary states, and two of them over a line that may lose frames.
  \<^descr> PhysicalMonitors (APL/PhysicalLayerAsyncBase, PhysicalLayerMonitor, PhysicalLayerMonitorStates) and LinkRouters
    (DNP3/LinkLayerRouter, LinkRoute).
  \<^descr> Transports (DNP3/TransportLayer, TransportTx, TransportRx, TransportStates).
  \<^descr> AppHeaders (DNP3/AppHeader, APDUConstants), DNPObjects (DNP3/ObjectInterfaces, Objects.h), ObjectHeaders
    (DNP3/ObjectHeader), APDUs (DNP3/APDU and the four object iterators), with the parser in FragmentParsing, the writers in
    FragmentWriting and indexed objects in IndexedObjects.
  \<^descr> AppLayers (DNP3/AppLayer, AppLayerChannel, AppChannelStates, SolicitedChannel, UnsolicitedChannel), with its invariant
    and books in AppTransactions and AppExchanges, receptions in AppReceptions and two faults in AppStalls.

  How the code is modelled. An object is a record with the source's fields; a member function without a
  result is a handler, a function from the object's state to the exception it ends with, if any, and the state
  it leaves, which is kept also when it throws; one with a result is a function to the exception or the
  result. A failed assertion, a call through a null pointer and a division by zero are the exception
  \<open>AssertionFailed\<close>, which no handler catches. Calls on a neighbour, a timer source or a user are recorded in
  the caller's state in their order. What such a call causes in the caller (a completion, a
  timeout, a request of the user) is a later event; upward calls are the last statements of the functions
  that make them, or what follows them commutes with the later event. Integers of the code are words where they
  wrap around or are parts of bytes, natural numbers or integers where they are bounded by the invariants; \<open>size_t\<close> is a
  natural number, in the writers of messages with its 64 bits. A pointer into a buffer is an offset, and a list
  of pointers to objects that do not change meanwhile is a list of their values. Uninitialised fields of
  iterators are \<open>None\<close>. Loops are recursive functions with a termination proof; no fuel is used.

  What the environment is assumed to do stands in the \<open>possible\<close> predicates of the components (a timer that is not running does not
  expire, a send that was not requested does not complete, layers go up and down in turns); every such
  predicate is the second argument of \<open>reachable\<close> or \<open>feasible\<close> in the properties. Further assumptions: a lower
  layer does not complete a send before its \<open>Send\<close> has returned; users do not throw from their callbacks nor change a
  fragment while it is being sent; in LinkExchanges a timer expires only when nothing is in flight. The
  numeric conversion of boost is the parameter \<open>convert\<close> of the writers that use it.

  Not modelled: logging and conversions to text; the concrete physical layers, timers, threads and locks (adapters to
  boost::asio); floating point; reading and writing of measurement values (Objects.cpp, DNPToStream.h, DNPFromStream.h); the
  outstation, master, virtual terminal and task scheduling above the application layer; the configuration, bindings,
  demos, tests and the vendored XML parser.
\<close>

end
